(* ===== verification/OP_Prelude.thy ===== *)
theory OP_Prelude
  imports Main "HOL-Library.AList" "HOL-Library.Multiset" "HOL-Library.Sublist" "HOL-Library.Word"
begin

text \<open>
  Shared vocabulary of the openproxy development: the Rust integer operations the sources use
  (saturating and wrapping, on natural numbers with the bound of the type written out), hash maps
  as association lists with distinct keys, strings as UTF-8 byte lists, stable \<open>sort_by\<close>, and the
  interface locales that several components share.
\<close>

section \<open>Collections of facts\<close>

named_theorems int_ops \<open>unfolding of the Rust integer operations\<close>
named_theorems hm_simps \<open>lookup, update, removal and retention in hash maps\<close>

section \<open>Rust integers\<close>

text \<open>
  An unsigned integer is a natural number at most the maximum of its type. Plain \<open>+\<close> wraps, as
  the release profile compiles it (no overflow checks); \<open>saturating_*\<close> clamps.
\<close>

abbreviation U8_MAX :: nat where "U8_MAX \<equiv> 255"
abbreviation U16_MAX :: nat where "U16_MAX \<equiv> 65535"
abbreviation U32_MAX :: nat where "U32_MAX \<equiv> 4294967295"
abbreviation U64_MAX :: nat where "U64_MAX \<equiv> 18446744073709551615"
abbreviation I64_MAX :: int where "I64_MAX \<equiv> 9223372036854775807"

definition saturating_add :: "nat \<Rightarrow> nat \<Rightarrow> nat \<Rightarrow> nat" where
  [int_ops]: "saturating_add m a b = min (a + b) m"

definition saturating_mul :: "nat \<Rightarrow> nat \<Rightarrow> nat \<Rightarrow> nat" where
  [int_ops]: "saturating_mul m a b = min (a * b) m"

definition saturating_pow :: "nat \<Rightarrow> nat \<Rightarrow> nat \<Rightarrow> nat" where
  [int_ops]: "saturating_pow m a n = min (a ^ n) m"

text \<open>Natural-number subtraction stops at zero, which is what \<open>saturating_sub\<close> does.\<close>

abbreviation (input) saturating_sub :: "nat \<Rightarrow> nat \<Rightarrow> nat" where
  "saturating_sub a b \<equiv> a - b"

definition wrapping_add :: "nat \<Rightarrow> nat \<Rightarrow> nat \<Rightarrow> nat" where
  [int_ops]: "wrapping_add m a b = (a + b) mod (m + 1)"

definition as_u32 :: "nat \<Rightarrow> nat" where
  [int_ops]: "as_u32 n = n mod (U32_MAX + 1)"

definition as_i64 :: "nat \<Rightarrow> int" where
  [int_ops]: "as_i64 n = (if int n \<le> I64_MAX then int n else int n - 18446744073709551616)"

definition i64_saturating_add :: "int \<Rightarrow> int \<Rightarrow> int" where
  [int_ops]: "i64_saturating_add a b = max (- I64_MAX - 1) (min I64_MAX (a + b))"

lemma saturating_add_le [simp]: "saturating_add m a b \<le> m"
  by (simp add: int_ops)

lemma saturating_mul_le [simp]: "saturating_mul m a b \<le> m"
  by (simp add: int_ops)

lemma wrapping_add_le [simp]: "wrapping_add m a b \<le> m"
  using mod_less_divisor [of "m + 1" "a + b"] unfolding wrapping_add_def by linarith

lemma wrapping_add_exact: "a + b \<le> m \<Longrightarrow> wrapping_add m a b = a + b"
  by (simp add: int_ops)

section \<open>Hash maps\<close>

text \<open>
  A \<open>HashMap\<close> or \<open>DashMap\<close> is an association list whose keys are distinct. The order of the list is
  an artefact of the model: no operation below depends on it.
\<close>

type_synonym ('k, 'v) hmap = "('k \<times> 'v) list"

definition hm_ok :: "('k, 'v) hmap \<Rightarrow> bool" where
  "hm_ok m \<longleftrightarrow> distinct (map fst m)"

definition hm_get :: "('k, 'v) hmap \<Rightarrow> 'k \<Rightarrow> 'v option" where
  "hm_get m k = map_of m k"

definition hm_put :: "'k \<Rightarrow> 'v \<Rightarrow> ('k, 'v) hmap \<Rightarrow> ('k, 'v) hmap" where
  "hm_put k v m = AList.update k v m"

definition hm_remove :: "'k \<Rightarrow> ('k, 'v) hmap \<Rightarrow> ('k, 'v) hmap" where
  "hm_remove k m = AList.delete k m"

definition hm_retain :: "('k \<Rightarrow> 'v \<Rightarrow> bool) \<Rightarrow> ('k, 'v) hmap \<Rightarrow> ('k, 'v) hmap" where
  "hm_retain keep m = filter (\<lambda>(k, v). keep k v) m"

text \<open>\<open>entry(k).or_insert_with(d)\<close> followed by a mutation \<open>f\<close> of the entry.\<close>

definition hm_entry_update :: "'k \<Rightarrow> 'v \<Rightarrow> ('v \<Rightarrow> 'v) \<Rightarrow> ('k, 'v) hmap \<Rightarrow> ('k, 'v) hmap" where
  "hm_entry_update k d f m = hm_put k (f (case hm_get m k of None \<Rightarrow> d | Some v \<Rightarrow> v)) m"

text \<open>\<open>get_mut(k)\<close> followed by a mutation \<open>f\<close>: nothing happens for an absent key.\<close>

definition hm_modify :: "'k \<Rightarrow> ('v \<Rightarrow> 'v) \<Rightarrow> ('k, 'v) hmap \<Rightarrow> ('k, 'v) hmap" where
  "hm_modify k f m = (case hm_get m k of None \<Rightarrow> m | Some v \<Rightarrow> hm_put k (f v) m)"

lemma hm_get_Nil [simp]: "hm_get [] k = None"
  by (simp add: hm_get_def)

lemma hm_ok_Nil [simp]: "hm_ok []"
  by (simp add: hm_ok_def)

lemma hm_get_put [hm_simps]: "hm_get (hm_put k v m) k' = (if k' = k then Some v else hm_get m k')"
  by (simp add: hm_get_def hm_put_def update_conv)

lemma hm_get_remove [hm_simps]: "hm_get (hm_remove k m) k' = (if k' = k then None else hm_get m k')"
  by (simp add: hm_get_def hm_remove_def delete_conv)

lemma hm_ok_put [simp]: "hm_ok m \<Longrightarrow> hm_ok (hm_put k v m)"
  by (simp add: hm_ok_def hm_put_def distinct_update)

lemma hm_ok_remove [simp]: "hm_ok m \<Longrightarrow> hm_ok (hm_remove k m)"
  by (simp add: hm_ok_def hm_remove_def distinct_delete)

lemma hm_get_retain [hm_simps]:
  "hm_ok m \<Longrightarrow> hm_get (hm_retain keep m) k =
     (case hm_get m k of None \<Rightarrow> None | Some v \<Rightarrow> if keep k v then Some v else None)"
proof (induction m)
  case Nil
  then show ?case by (simp add: hm_retain_def)
next
  case (Cons a m)
  obtain k' v where [simp]: "a = (k', v)" by (cases a)
  from Cons.prems have ok: "hm_ok m" and fresh: "k' \<notin> fst ` set m"
    by (auto simp: hm_ok_def)
  have IH: "hm_get (hm_retain keep m) k =
     (case hm_get m k of None \<Rightarrow> None | Some v \<Rightarrow> if keep k v then Some v else None)"
    by (rule Cons.IH [OF ok])
  show ?case
  proof (cases "k = k'")
    case True
    with fresh have none: "hm_get m k = None"
      by (auto simp: hm_get_def map_of_eq_None_iff)
    with IH have "map_of (filter (\<lambda>(k, v). keep k v) m) k = None"
      by (simp add: hm_get_def hm_retain_def)
    with True show ?thesis
      by (auto simp: hm_get_def hm_retain_def)
  next
    case False
    with IH show ?thesis
      by (auto simp: hm_get_def hm_retain_def)
  qed
qed

lemma hm_ok_retain [simp]: "hm_ok m \<Longrightarrow> hm_ok (hm_retain keep m)"
  by (simp add: hm_ok_def hm_retain_def distinct_map_filter)

lemma hm_retain_length: "length (hm_retain keep m) \<le> length m"
  by (simp add: hm_retain_def)

lemma hm_get_entry_update [hm_simps]:
  "hm_get (hm_entry_update k d f m) k' =
     (if k' = k then Some (f (case hm_get m k of None \<Rightarrow> d | Some v \<Rightarrow> v)) else hm_get m k')"
  by (simp add: hm_entry_update_def hm_simps)

lemma hm_ok_entry_update [simp]: "hm_ok m \<Longrightarrow> hm_ok (hm_entry_update k d f m)"
  by (simp add: hm_entry_update_def)

lemma hm_get_modify [hm_simps]:
  "hm_get (hm_modify k f m) k' = (if k' = k then map_option f (hm_get m k) else hm_get m k')"
  by (simp add: hm_modify_def hm_simps split: option.splits)

lemma hm_ok_modify [simp]: "hm_ok m \<Longrightarrow> hm_ok (hm_modify k f m)"
  by (simp add: hm_modify_def split: option.splits)

subsection \<open>The keyed-store interface\<close>

text \<open>
  What the registries of the pipeline rely on: a store of per-key states with the usual map laws.
  Whatever is built from \<open>put\<close> on one key leaves every other key alone, and a history of updates
  is a history per key.
\<close>

locale keyed_store =
  fixes lookup :: "'s \<Rightarrow> 'k \<Rightarrow> 'v option"
    and put :: "'k \<Rightarrow> 'v \<Rightarrow> 's \<Rightarrow> 's"
    and invar :: "'s \<Rightarrow> bool"
  assumes lookup_put: "invar s \<Longrightarrow> lookup (put k v s) k' = (if k' = k then Some v else lookup s k')"
    and invar_put: "invar s \<Longrightarrow> invar (put k v s)"
begin

definition bump :: "'v \<Rightarrow> 'k \<times> ('v \<Rightarrow> 'v) \<Rightarrow> 's \<Rightarrow> 's" where
  "bump d e s = put (fst e) (snd e (case lookup s (fst e) of None \<Rightarrow> d | Some v \<Rightarrow> v)) s"

lemma bump_invar: "invar s \<Longrightarrow> invar (bump d e s)"
  by (simp add: bump_def invar_put)

lemma bump_frame: "invar s \<Longrightarrow> k \<noteq> fst e \<Longrightarrow> lookup (bump d e s) k = lookup s k"
  by (simp add: bump_def lookup_put)

lemma run_invar: "invar s \<Longrightarrow> invar (fold (bump d) es s)"
  by (induction es arbitrary: s) (simp_all add: bump_invar)

text \<open>A run of updates, seen at one key, is the run of that key's own updates.\<close>

lemma run_per_key:
  "invar s \<Longrightarrow>
     (case lookup (fold (bump d) es s) k of None \<Rightarrow> d | Some v \<Rightarrow> v) =
     fold (\<lambda>e v. snd e v) (filter (\<lambda>e. fst e = k) es)
       (case lookup s k of None \<Rightarrow> d | Some v \<Rightarrow> v)"
proof (induction es arbitrary: s)
  case Nil
  then show ?case by simp
next
  case (Cons e es)
  have "invar (bump d e s)" by (rule bump_invar [OF Cons.prems])
  note IH = Cons.IH [OF this]
  show ?case
  proof (cases "fst e = k")
    case True
    then show ?thesis using IH Cons.prems by (simp add: bump_def lookup_put)
  next
    case False
    then show ?thesis using IH bump_frame [OF Cons.prems, of k e d] by simp
  qed
qed

end

interpretation hm: keyed_store hm_get hm_put hm_ok
  by unfold_locales (simp_all add: hm_simps)

section \<open>Strings\<close>

text \<open>
  A Rust \<open>str\<close> is its list of UTF-8 bytes; offsets are byte offsets. ASCII case folding touches
  the bytes 65 to 90 only.
\<close>

definition ascii_lower :: "char \<Rightarrow> char" where
  "ascii_lower c = (let n = of_char c :: nat in if 65 \<le> n \<and> n \<le> 90 then char_of (n + 32) else c)"

definition to_ascii_lowercase :: "string \<Rightarrow> string" where
  "to_ascii_lowercase s = map ascii_lower s"

definition eq_ignore_ascii_case :: "string \<Rightarrow> string \<Rightarrow> bool" where
  "eq_ignore_ascii_case a b \<longleftrightarrow> to_ascii_lowercase a = to_ascii_lowercase b"

definition starts_with :: "string \<Rightarrow> string \<Rightarrow> bool" where
  "starts_with s p \<longleftrightarrow> take (length p) s = p"

fun str_contains :: "string \<Rightarrow> string \<Rightarrow> bool" where
  "str_contains [] n = (n = [])"
| "str_contains (c # cs) n = (starts_with (c # cs) n \<or> str_contains cs n)"

lemma starts_with_prefix: "starts_with s p \<longleftrightarrow> prefix p s"
  unfolding starts_with_def by (metis append_eq_conv_conj append_take_drop_id prefix_def)

lemma str_contains_sublist: "str_contains s n \<longleftrightarrow> sublist n s"
  by (induction s) (simp_all add: starts_with_prefix sublist_Cons_right)

lemma to_ascii_lowercase_length [simp]: "length (to_ascii_lowercase s) = length s"
  by (simp add: to_ascii_lowercase_def)

text \<open>
  \<open>char::is_whitespace\<close> as byte sequences: the code points U+0009 to U+000D, U+0020, U+0085, U+00A0,
  U+1680, U+2000 to U+200A, U+2028, U+2029, U+202F, U+205F and U+3000 in UTF-8.
\<close>

definition whitespace_seqs :: "string list" where
  "whitespace_seqs =
     [[CHR 0x09], [CHR 0x0A], [CHR 0x0B], [CHR 0x0C], [CHR 0x0D], [CHR 0x20],
      [CHR 0xC2, CHR 0x85], [CHR 0xC2, CHR 0xA0], [CHR 0xE1, CHR 0x9A, CHR 0x80],
      [CHR 0xE2, CHR 0x80, CHR 0x80], [CHR 0xE2, CHR 0x80, CHR 0x81], [CHR 0xE2, CHR 0x80, CHR 0x82],
      [CHR 0xE2, CHR 0x80, CHR 0x83], [CHR 0xE2, CHR 0x80, CHR 0x84], [CHR 0xE2, CHR 0x80, CHR 0x85],
      [CHR 0xE2, CHR 0x80, CHR 0x86], [CHR 0xE2, CHR 0x80, CHR 0x87], [CHR 0xE2, CHR 0x80, CHR 0x88],
      [CHR 0xE2, CHR 0x80, CHR 0x89], [CHR 0xE2, CHR 0x80, CHR 0x8A], [CHR 0xE2, CHR 0x80, CHR 0xA8],
      [CHR 0xE2, CHR 0x80, CHR 0xA9], [CHR 0xE2, CHR 0x80, CHR 0xAF], [CHR 0xE2, CHR 0x81, CHR 0x9F],
      [CHR 0xE3, CHR 0x80, CHR 0x80]]"

lemma whitespace_seqs_nonempty: "w \<in> set whitespace_seqs \<Longrightarrow> w \<noteq> []"
  by (auto simp: whitespace_seqs_def)

function strip_seqs :: "string list \<Rightarrow> string \<Rightarrow> string" where
  "strip_seqs ws s =
     (case find (\<lambda>w. w \<noteq> [] \<and> starts_with s w) ws of
        None \<Rightarrow> s
      | Some w \<Rightarrow> strip_seqs ws (drop (length w) s))"
  by pat_completeness auto
termination
proof (relation "measure (\<lambda>(ws, s). length s)", goal_cases)
  case (2 ws s w)
  then have "w \<noteq> []" and "starts_with s w" by (auto simp: find_Some_iff)
  then have "0 < length w" and "length w \<le> length s"
    by (auto simp: starts_with_prefix prefix_length_le)
  then have "length s - length w < length s" by arith
  then show ?case by simp
qed simp

declare strip_seqs.simps [simp del]

definition trim_start :: "string \<Rightarrow> string" where
  "trim_start s = strip_seqs whitespace_seqs s"

definition trim_end :: "string \<Rightarrow> string" where
  "trim_end s = rev (strip_seqs (map rev whitespace_seqs) (rev s))"

definition trim :: "string \<Rightarrow> string" where
  "trim s = trim_end (trim_start s)"

text \<open>The first \<open>Some\<close> of a sequence of attempts.\<close>

fun first_some :: "('a \<Rightarrow> 'b option) \<Rightarrow> 'a list \<Rightarrow> 'b option" where
  "first_some f [] = None"
| "first_some f (x # xs) = (case f x of Some y \<Rightarrow> Some y | None \<Rightarrow> first_some f xs)"

lemma first_some_Some: "first_some f xs = Some y \<Longrightarrow> \<exists>x \<in> set xs. f x = Some y"
  by (induction xs) (auto split: option.splits)

text \<open>\<open>str::split\<close> on one byte.\<close>

fun split_char :: "char \<Rightarrow> string \<Rightarrow> string list" where
  "split_char d [] = [[]]"
| "split_char d (c # cs) =
     (if c = d then [] # split_char d cs
      else (case split_char d cs of [] \<Rightarrow> [[c]] | p # ps \<Rightarrow> (c # p) # ps))"

text \<open>\<open>str::split_once\<close> on a string: the parts around its first occurrence.\<close>

fun split_once :: "string \<Rightarrow> string \<Rightarrow> (string \<times> string) option" where
  "split_once n [] = (if n = [] then Some ([], []) else None)"
| "split_once n (c # cs) =
     (if starts_with (c # cs) n then Some ([], drop (length n) (c # cs))
      else map_option (\<lambda>(a, b). (c # a, b)) (split_once n cs))"

lemma split_once_join: "split_once n s = Some (a, b) \<Longrightarrow> s = a @ n @ b"
proof (induction n s arbitrary: a b rule: split_once.induct)
  case (1 n)
  then show ?case by (simp split: if_splits)
next
  case (2 n c cs)
  show ?case
  proof (cases "starts_with (c # cs) n")
    case True
    then have "take (length n) (c # cs) = n" by (simp add: starts_with_def)
    then have "c # cs = n @ drop (length n) (c # cs)"
      by (metis append_take_drop_id)
    with True "2.prems" show ?thesis by simp
  next
    case False
    with "2.prems" obtain a' where "split_once n cs = Some (a', b)" and "a = c # a'"
      by auto
    with "2.IH" [OF False] show ?thesis by simp
  qed
qed

text \<open>\<open>str::parse\<close> for unsigned and signed decimals: an optional sign, then digits, in range.\<close>

definition digit_val :: "char \<Rightarrow> nat option" where
  "digit_val c = (let n = of_char c :: nat in if 48 \<le> n \<and> n \<le> 57 then Some (n - 48) else None)"

fun parse_digits :: "nat \<Rightarrow> string \<Rightarrow> nat option" where
  "parse_digits acc [] = Some acc"
| "parse_digits acc (c # cs) =
     (case digit_val c of None \<Rightarrow> None | Some d \<Rightarrow> parse_digits (10 * acc + d) cs)"

definition parse_unsigned :: "nat \<Rightarrow> string \<Rightarrow> nat option" where
  "parse_unsigned m s =
     (let ds = (case s of [] \<Rightarrow> [] | c # cs \<Rightarrow> if c = CHR ''+'' then cs else s)
      in if ds = [] then None
         else case parse_digits 0 ds of None \<Rightarrow> None | Some n \<Rightarrow> if n \<le> m then Some n else None)"

definition parse_i64 :: "string \<Rightarrow> int option" where
  "parse_i64 s =
     (let neg = (case s of [] \<Rightarrow> False | c # _ \<Rightarrow> c = CHR ''-'');
          ds = (case s of [] \<Rightarrow> [] | c # cs \<Rightarrow> if c = CHR ''+'' \<or> c = CHR ''-'' then cs else s)
      in if ds = [] then None
         else case parse_digits 0 ds of
                None \<Rightarrow> None
              | Some n \<Rightarrow>
                  if neg then (if int n \<le> I64_MAX + 1 then Some (- int n) else None)
                  else (if int n \<le> I64_MAX then Some (int n) else None))"

text \<open>\<open>Display\<close> of the integer types.\<close>

function show_nat :: "nat \<Rightarrow> string" where
  "show_nat n = (if n < 10 then [char_of (48 + n)] else show_nat (n div 10) @ [char_of (48 + n mod 10)])"
  by pat_completeness auto
termination by (relation "measure id") simp_all

declare show_nat.simps [simp del]

definition show_int :: "int \<Rightarrow> string" where
  "show_int i = (if i < 0 then CHR ''-'' # show_nat (nat (- i)) else show_nat (nat i))"

section \<open>Orderings and stable sorting\<close>

text \<open>
  \<open>std::cmp::Ordering\<close> and \<open>slice::sort_by\<close>. The library promises a stable sort when the comparison
  is a total preorder; insertion sort is the reference definition of that result.
\<close>

datatype ordering = Less | Equal | Greater

definition cmp_int :: "int \<Rightarrow> int \<Rightarrow> ordering" where
  "cmp_int a b = (if a < b then Less else if a = b then Equal else Greater)"

definition cmp_nat :: "nat \<Rightarrow> nat \<Rightarrow> ordering" where
  "cmp_nat a b = (if a < b then Less else if a = b then Equal else Greater)"

definition then_with :: "ordering \<Rightarrow> ordering \<Rightarrow> ordering" where
  "then_with a b = (if a = Equal then b else a)"

fun insert_by :: "('a \<Rightarrow> 'a \<Rightarrow> ordering) \<Rightarrow> 'a \<Rightarrow> 'a list \<Rightarrow> 'a list" where
  "insert_by cmp x [] = [x]"
| "insert_by cmp x (y # ys) = (if cmp x y = Greater then y # insert_by cmp x ys else x # y # ys)"

definition sort_by :: "('a \<Rightarrow> 'a \<Rightarrow> ordering) \<Rightarrow> 'a list \<Rightarrow> 'a list" where
  "sort_by cmp xs = foldr (insert_by cmp) xs []"

lemma mset_insert_by [simp]: "mset (insert_by cmp x xs) = add_mset x (mset xs)"
  by (induction xs) simp_all

lemma mset_sort_by [simp]: "mset (sort_by cmp xs) = mset xs"
  by (induction xs) (simp_all add: sort_by_def)

lemma set_insert_by [simp]: "set (insert_by cmp x xs) = insert x (set xs)"
  by (induction xs) auto

lemma set_sort_by [simp]: "set (sort_by cmp xs) = set xs"
  by (metis mset_sort_by set_mset_mset)

lemma length_sort_by [simp]: "length (sort_by cmp xs) = length xs"
  by (metis mset_sort_by size_mset)

locale sort_comparator =
  fixes cmp :: "'a \<Rightarrow> 'a \<Rightarrow> ordering"
  assumes cmp_refl: "cmp x x = Equal"
    and cmp_flip: "cmp x y = Greater \<longleftrightarrow> cmp y x = Less"
    and cmp_trans: "cmp x y \<noteq> Greater \<Longrightarrow> cmp y z \<noteq> Greater \<Longrightarrow> cmp x z \<noteq> Greater"
begin

lemma insert_by_sorted:
  "sorted_wrt (\<lambda>a b. cmp a b \<noteq> Greater) xs \<Longrightarrow>
   sorted_wrt (\<lambda>a b. cmp a b \<noteq> Greater) (insert_by cmp x xs)"
proof (induction xs)
  case Nil
  then show ?case by simp
next
  case (Cons y ys)
  show ?case
  proof (cases "cmp x y = Greater")
    case True
    then have "cmp y x \<noteq> Greater" using cmp_flip [of x y] by (metis ordering.distinct(3))
    with True Cons show ?thesis by auto
  next
    case False
    have "cmp x z \<noteq> Greater" if "z \<in> set ys" for z
      using that Cons.prems cmp_trans [OF False, of z] by auto
    with False Cons.prems show ?thesis by auto
  qed
qed

lemma sort_by_sorted: "sorted_wrt (\<lambda>a b. cmp a b \<noteq> Greater) (sort_by cmp xs)"
  by (induction xs) (simp_all add: sort_by_def insert_by_sorted)

lemma cmp_equal_iff: "cmp x y = Equal \<longleftrightarrow> cmp x y \<noteq> Greater \<and> cmp y x \<noteq> Greater"
  using cmp_flip [of x y] cmp_flip [of y x] by (cases "cmp x y") auto

lemma cmp_equal_sym: "cmp x y = Equal \<Longrightarrow> cmp y x = Equal"
  by (simp add: cmp_equal_iff)

lemma cmp_equal_trans: "cmp x y = Equal \<Longrightarrow> cmp y z = Equal \<Longrightarrow> cmp x z = Equal"
  unfolding cmp_equal_iff using cmp_trans by blast

text \<open>Stability: elements that compare equal keep their relative order.\<close>

lemma insert_by_stable:
  "filter (\<lambda>b. cmp a b = Equal) (insert_by cmp x xs) = filter (\<lambda>b. cmp a b = Equal) (x # xs)"
proof (induction xs)
  case Nil
  then show ?case by simp
next
  case (Cons y ys)
  have "\<not> (cmp a x = Equal \<and> cmp a y = Equal)" if "cmp x y = Greater"
    using that cmp_equal_trans [OF cmp_equal_sym, of a x y] by auto
  with Cons show ?case by auto
qed

lemma sort_by_stable:
  "filter (\<lambda>b. cmp a b = Equal) (sort_by cmp xs) = filter (\<lambda>b. cmp a b = Equal) xs"
  by (induction xs) (simp_all add: sort_by_def insert_by_stable)

lemma sort_by_head_least:
  assumes eq: "sort_by cmp xs = y # ys" and z: "z \<in> set xs"
  shows "cmp y z \<noteq> Greater"
proof -
  have "z \<in> set (y # ys)" using z set_sort_by [of cmp xs] eq by simp
  moreover have "sorted_wrt (\<lambda>a b. cmp a b \<noteq> Greater) (y # ys)"
    using sort_by_sorted [of xs] eq by simp
  moreover have "cmp y y \<noteq> Greater" by (simp add: cmp_refl)
  ultimately show ?thesis by auto
qed

end

text \<open>Comparators by a key, reversed, and chained with \<open>then_with\<close>.\<close>

lemma sort_comparator_nat: "sort_comparator (\<lambda>x y. cmp_nat (f x) (f y))"
  by unfold_locales (auto simp: cmp_nat_def split: if_splits)

lemma sort_comparator_int: "sort_comparator (\<lambda>x y. cmp_int (f x) (f y))"
  by unfold_locales (auto simp: cmp_int_def split: if_splits)

lemma sort_comparator_flip:
  assumes "sort_comparator c"
  shows "sort_comparator (\<lambda>x y. c y x)"
  using sort_comparator.cmp_refl [OF assms] sort_comparator.cmp_flip [OF assms]
    sort_comparator.cmp_trans [OF assms]
  by unfold_locales blast+

lemma sort_comparator_then_with:
  assumes a: "sort_comparator c" and b: "sort_comparator d"
  shows "sort_comparator (\<lambda>x y. then_with (c x y) (d x y))"
proof
  fix x y z
  show "then_with (c x x) (d x x) = Equal"
    by (simp add: then_with_def sort_comparator.cmp_refl [OF a] sort_comparator.cmp_refl [OF b])
  show "then_with (c x y) (d x y) = Greater \<longleftrightarrow> then_with (c y x) (d y x) = Less"
    using sort_comparator.cmp_flip [OF a, of x y] sort_comparator.cmp_flip [OF b, of x y]
      sort_comparator.cmp_flip [OF a, of y x]
    by (cases "c x y"; cases "c y x") (auto simp: then_with_def)
  assume xy: "then_with (c x y) (d x y) \<noteq> Greater" and yz: "then_with (c y z) (d y z) \<noteq> Greater"
  then have le: "c x y \<noteq> Greater" "c y z \<noteq> Greater"
    by (auto simp: then_with_def split: if_splits)
  have xz: "c x z \<noteq> Greater" using sort_comparator.cmp_trans [OF a le] .
  show "then_with (c x z) (d x z) \<noteq> Greater"
  proof (cases "c x z = Equal")
    case True
    then have "c z x \<noteq> Greater" using sort_comparator.cmp_equal_iff [OF a] by blast
    then have "c y x \<noteq> Greater" "c z y \<noteq> Greater"
      using sort_comparator.cmp_trans [OF a le(2), of x] sort_comparator.cmp_trans [OF a _ le(1), of z]
      by blast+
    with le have "c x y = Equal" "c y z = Equal"
      using sort_comparator.cmp_equal_iff [OF a] by blast+
    with xy yz True show ?thesis
      using sort_comparator.cmp_trans [OF b, of x y z] by (simp add: then_with_def)
  next
    case False
    with xz show ?thesis by (simp add: then_with_def)
  qed
qed

section \<open>String-backed enums\<close>

text \<open>
  The contract of the \<open>impl_string_enum!\<close> macro: \<open>parse\<close> accepts what \<open>as_str\<close> prints and refuses
  everything else with an error.
\<close>

locale string_enum =
  fixes as_str :: "'e \<Rightarrow> string"
    and parse :: "string \<Rightarrow> 'err + 'e"
    and aliases :: "'e \<Rightarrow> string set"
  assumes parse_as_str: "parse (as_str v) = Inr v"
    and parse_sound: "parse s = Inr v \<Longrightarrow> s = as_str v \<or> s \<in> aliases v"
    and parse_alias: "s \<in> aliases v \<Longrightarrow> parse s = Inr v"
begin

lemma as_str_inj: "as_str a = as_str b \<Longrightarrow> a = b"
  by (metis parse_as_str sum.inject(2))

lemma parse_iff: "parse s = Inr v \<longleftrightarrow> s = as_str v \<or> s \<in> aliases v"
  using parse_as_str parse_sound parse_alias by blast

end

section \<open>Slice rotations\<close>

text \<open>\<open>xs[..=i].rotate_right(1)\<close>: element \<open>i\<close> moves to the front, the ones before it shift right.\<close>

definition rotate_to_front :: "nat \<Rightarrow> 'a list \<Rightarrow> 'a list" where
  "rotate_to_front i xs = (xs ! i) # take i xs @ drop (Suc i) xs"

lemma rotate_to_front_mset: "i < length xs \<Longrightarrow> mset (rotate_to_front i xs) = mset xs"
proof -
  assume i: "i < length xs"
  have "xs = take i xs @ xs ! i # drop (Suc i) xs" by (rule id_take_nth_drop [OF i])
  then have "mset xs = mset (take i xs) + add_mset (xs ! i) (mset (drop (Suc i) xs))"
    by (metis mset.simps(2) mset_append)
  then show ?thesis by (simp add: rotate_to_front_def)
qed

lemma rotate_to_front_hd [simp]: "hd (rotate_to_front i xs) = xs ! i"
  by (simp add: rotate_to_front_def)

lemma rotate_to_front_0: "xs \<noteq> [] \<Longrightarrow> rotate_to_front 0 xs = xs"
  by (cases xs) (simp_all add: rotate_to_front_def)

end
