(* ===== verification/Core_Error.thy ===== *)
theory Core_Error
  imports Complex_Main OP_Prelude
begin

text \<open>
  The crate-wide error type (openproxy-types/src/error.rs and error_classification.rs) with its HTTP
  status and error-code tables, and the CodeBuddy business codes that upstream bodies carry
  (openproxy-adapters/src/adapters/codebuddy/mod.rs). JSON parsing is serde's: \<open>from_str\<close> is a
  parameter. The policy over these errors is in theory Error_Policy.
\<close>

section \<open>JSON values\<close>

text \<open>\<open>serde_json::Value\<close>: numbers are integers or floats (kept as rationals); objects keep one value per key.\<close>

datatype json =
    JNull
  | JBool bool
  | JInt int
  | JFloat rat
  | JStr string
  | JArr "json list"
  | JObj "(string \<times> json) list"

definition json_get :: "json \<Rightarrow> string \<Rightarrow> json option" where
  "json_get v k = (case v of JObj kvs \<Rightarrow> map_of kvs k | _ \<Rightarrow> None)"

definition json_as_str :: "json \<Rightarrow> string option" where
  "json_as_str v = (case v of JStr s \<Rightarrow> Some s | _ \<Rightarrow> None)"

definition json_as_i64 :: "json \<Rightarrow> int option" where
  "json_as_i64 v =
     (case v of JInt i \<Rightarrow> (if - I64_MAX - 1 \<le> i \<and> i \<le> I64_MAX then Some i else None) | _ \<Rightarrow> None)"

section \<open>The error type\<close>

datatype cancel_reason = ClientDisconnected | WatchdogTimeout

fun cancel_reason_as_str :: "cancel_reason \<Rightarrow> string" where
  "cancel_reason_as_str ClientDisconnected = ''client_disconnected''"
| "cancel_reason_as_str WatchdogTimeout = ''watchdog_timeout''"

definition cancel_reason_parse :: "string \<Rightarrow> string + cancel_reason" where
  "cancel_reason_parse s =
     (if s = ''client_disconnected'' then Inr ClientDisconnected
      else if s = ''watchdog_timeout'' then Inr WatchdogTimeout
      else Inl (''invalid cancel reason: '' @ s))"

interpretation cancel_enum: string_enum cancel_reason_as_str cancel_reason_parse "\<lambda>_. {}"
proof unfold_locales
  fix v show "cancel_reason_parse (cancel_reason_as_str v) = Inr v"
    by (cases v) (simp_all add: cancel_reason_parse_def)
qed (auto simp: cancel_reason_parse_def split: if_splits)

datatype upstream_error_class =
    Generic
  | ValidationRequired
  | PermissionDenied
  | ResourceExhausted
  | MalformedToolCall
  | InvalidPayload

fun class_is_hard_skip :: "upstream_error_class \<Rightarrow> bool" where
  "class_is_hard_skip ValidationRequired = True"
| "class_is_hard_skip PermissionDenied = True"
| "class_is_hard_skip ResourceExhausted = True"
| "class_is_hard_skip MalformedToolCall = True"
| "class_is_hard_skip InvalidPayload = True"
| "class_is_hard_skip Generic = False"

datatype core_error =
    Config string
  | Database string "string option"
  | Migration int string
  | ProviderNotFound string
  | AccountNotFound int
  | ComboNotFound int
  | ModelNotFound (mnf_provider: string) (mnf_model: string)
  | NoHealthyTargets int
  | UpstreamTimeout (ut_phase: string) (ut_ms: nat)
  | UpstreamError (ue_status: nat) (ue_provider: string) (ue_model: string) (ue_body: string)
      (ue_is_proxy_rotated: bool) (ue_class: upstream_error_class) (ue_is_hard_skip: bool)
  | UpstreamConnection string
  | RateLimited (rl_provider: string) (rl_retry_after_ms: nat) (rl_is_proxy_rotated: bool)
  | Parse string
  | Cancelled cancel_reason
  | RaceLost
  | Auth string
  | Validation string
  | Internal string
  | ServiceUnavailable string
  | NotFound (nf_what: string) (nf_id: string)
  | JournalCapacityExhausted

definition upstream :: "nat \<Rightarrow> string \<Rightarrow> string \<Rightarrow> string \<Rightarrow> core_error" where
  "upstream status provider model body =
     UpstreamError status provider model body False Generic False"

definition upstream_retryable :: "nat \<Rightarrow> string \<Rightarrow> string \<Rightarrow> string \<Rightarrow> core_error" where
  "upstream_retryable status provider model body =
     UpstreamError status provider model body False Generic False"

definition upstream_error :: "nat \<Rightarrow> string \<Rightarrow> string \<Rightarrow> string \<Rightarrow> bool \<Rightarrow> core_error" where
  "upstream_error status provider model body rotated =
     UpstreamError status provider model body rotated Generic False"

definition upstream_error_with_skip ::
    "nat \<Rightarrow> string \<Rightarrow> string \<Rightarrow> string \<Rightarrow> bool \<Rightarrow> bool \<Rightarrow> core_error" where
  "upstream_error_with_skip status provider model body rotated skip =
     UpstreamError status provider model body rotated Generic skip"

definition upstream_error_classified ::
    "nat \<Rightarrow> string \<Rightarrow> string \<Rightarrow> string \<Rightarrow> bool \<Rightarrow> upstream_error_class \<Rightarrow> core_error" where
  "upstream_error_classified status provider model body rotated cls =
     UpstreamError status provider model body rotated cls (class_is_hard_skip cls)"

fun is_proxy_rotated :: "core_error \<Rightarrow> bool" where
  "is_proxy_rotated (UpstreamError _ _ _ _ rotated _ _) = rotated"
| "is_proxy_rotated (RateLimited _ _ rotated) = rotated"
| "is_proxy_rotated _ = False"

fun is_hard_skip :: "core_error \<Rightarrow> bool" where
  "is_hard_skip (UpstreamError _ _ _ _ _ _ skip) = skip"
| "is_hard_skip _ = False"

fun upstream_error_class_of :: "core_error \<Rightarrow> upstream_error_class option" where
  "upstream_error_class_of (UpstreamError _ _ _ _ _ cls _) = Some cls"
| "upstream_error_class_of _ = None"

fun http_status :: "core_error \<Rightarrow> nat" where
  "http_status (Auth _) = 401"
| "http_status (Validation _) = 400"
| "http_status (ProviderNotFound _) = 404"
| "http_status (AccountNotFound _) = 404"
| "http_status (ComboNotFound _) = 404"
| "http_status (ModelNotFound _ _) = 404"
| "http_status (NotFound _ _) = 404"
| "http_status (RateLimited _ _ _) = 429"
| "http_status (UpstreamError status _ _ _ _ _ _) = status"
| "http_status (UpstreamTimeout _ _) = 529"
| "http_status (UpstreamConnection _) = 502"
| "http_status (NoHealthyTargets _) = 502"
| "http_status (Cancelled ClientDisconnected) = 499"
| "http_status RaceLost = 499"
| "http_status (Cancelled WatchdogTimeout) = 504"
| "http_status (ServiceUnavailable _) = 503"
| "http_status JournalCapacityExhausted = 503"
| "http_status _ = 500"

fun is_journal_capacity_exhausted :: "core_error \<Rightarrow> bool" where
  "is_journal_capacity_exhausted JournalCapacityExhausted = True"
| "is_journal_capacity_exhausted _ = False"

fun error_code :: "core_error \<Rightarrow> string" where
  "error_code (Auth _) = ''auth''"
| "error_code (Validation _) = ''validation''"
| "error_code (ProviderNotFound _) = ''provider_not_found''"
| "error_code (AccountNotFound _) = ''account_not_found''"
| "error_code (ComboNotFound _) = ''combo_not_found''"
| "error_code (ModelNotFound _ _) = ''model_not_found''"
| "error_code (NoHealthyTargets _) = ''no_healthy_targets''"
| "error_code (UpstreamTimeout _ _) = ''upstream_timeout''"
| "error_code (UpstreamConnection _) = ''upstream_connection''"
| "error_code (UpstreamError _ _ _ _ _ _ _) = ''upstream_error''"
| "error_code (RateLimited _ _ _) = ''rate_limited''"
| "error_code (Parse _) = ''parse_error''"
| "error_code (Cancelled r) = cancel_reason_as_str r"
| "error_code RaceLost = ''race_lost''"
| "error_code (Database _ _) = ''database''"
| "error_code (Migration _ _) = ''migration''"
| "error_code (Config _) = ''config''"
| "error_code (Internal _) = ''internal''"
| "error_code (ServiceUnavailable _) = ''service_unavailable''"
| "error_code (NotFound _ _) = ''not_found''"
| "error_code JournalCapacityExhausted = ''journal_capacity_exhausted''"

definition not_found_parts :: "string \<Rightarrow> string \<times> string" where
  "not_found_parts message =
     (case split_once '' not found: '' message of
        Some p \<Rightarrow> p
      | None \<Rightarrow> (case split_once '':'' message of Some p \<Rightarrow> p | None \<Rightarrow> (''resource'', message)))"

definition from_code_and_message :: "string \<Rightarrow> string \<Rightarrow> core_error option" where
  "from_code_and_message code msg =
     (if code = ''journal_capacity_exhausted'' then Some JournalCapacityExhausted
      else if code = ''auth'' then Some (Auth msg)
      else if code = ''validation'' then Some (Validation msg)
      else if code = ''provider_not_found'' then Some (ProviderNotFound msg)
      else if code = ''account_not_found'' then map_option AccountNotFound (parse_i64 (trim msg))
      else if code = ''combo_not_found'' then map_option ComboNotFound (parse_i64 (trim msg))
      else if code = ''model_not_found'' then Some (ModelNotFound ''<see message>'' msg)
      else if code = ''no_healthy_targets'' then map_option NoHealthyTargets (parse_i64 (trim msg))
      else if code = ''upstream_timeout'' then Some (UpstreamTimeout ''<unknown>'' 0)
      else if code = ''upstream_connection'' then Some (UpstreamConnection msg)
      else if code = ''upstream_error''
        then Some (upstream_error 0 ''<see message>'' ''<see message>'' msg False)
      else if code = ''rate_limited'' then Some (RateLimited ''<see message>'' 0 False)
      else if code = ''parse_error'' then Some (Parse msg)
      else if code = ''client_disconnected'' then Some (Cancelled ClientDisconnected)
      else if code = ''watchdog_timeout'' then Some (Cancelled WatchdogTimeout)
      else if code = ''race_lost'' then Some RaceLost
      else if code = ''database'' then Some (Database msg None)
      else if code = ''migration'' then Some (Migration 0 msg)
      else if code = ''config'' then Some (Config msg)
      else if code = ''internal'' then Some (Internal msg)
      else if code = ''service_unavailable'' then Some (ServiceUnavailable msg)
      else if code = ''not_found'' then
        (let (what, id') = not_found_parts msg in Some (NotFound (trim what) (trim id')))
      else None)"

text \<open>\<open>Display\<close> of the one variant whose text a decision reads (the \<open>thiserror\<close> attribute).\<close>

definition display_upstream_connection :: "string \<Rightarrow> string" where
  "display_upstream_connection msg = ''upstream connection error: '' @ msg"

section \<open>CodeBuddy business codes\<close>

datatype codebuddy_error_code =
    NonStreamNotSupported
  | FirstMessageNotSystemPrompt
  | CraftRateLimit
  | CraftRateTPSLimit
  | CraftRateTPMLimit
  | CraftRateTPHLimit
  | CraftRateTPDLimit
  | CraftRateRPSLimit
  | CraftRateRPMLimit
  | CraftRateRPHLimit
  | CraftRateRPDLimit
  | UsageLimitExceeded
  | ConversationChatTooMany
  | RateLimitError
  | UsageLimitExceededEnterprise
  | UsageLimitExceededTencent
  | UsageLimitEnterpriseExhausted
  | UsageLimitLicenseExpired
  | UsageLimitEnterpriseNotActivated
  | UsageLimitUserNotActivated
  | UsageLimitUserExhausted
  | UsageLimitNoTokenBudget
  | ConversationLimitExceeded
  | WebSearchRateLimit
  | ContextTooLong
  | AuthForbidden1
  | ModelBehaviorError
  | AuthForbidden2

definition codebuddy_table :: "(nat \<times> codebuddy_error_code) list" where
  "codebuddy_table =
     [(6000, CraftRateLimit), (6001, CraftRateTPSLimit), (6002, CraftRateTPMLimit),
      (6003, CraftRateTPHLimit), (6004, CraftRateTPDLimit), (6005, CraftRateRPSLimit),
      (6006, CraftRateRPMLimit), (6007, CraftRateRPHLimit), (6008, CraftRateRPDLimit),
      (14001, UsageLimitExceeded), (14002, ConversationChatTooMany), (14003, RateLimitError),
      (14012, UsageLimitExceededEnterprise), (14013, UsageLimitExceededTencent),
      (14014, UsageLimitEnterpriseExhausted), (14015, UsageLimitLicenseExpired),
      (14016, UsageLimitEnterpriseNotActivated), (14017, UsageLimitUserNotActivated),
      (14018, UsageLimitUserExhausted), (14019, UsageLimitNoTokenBudget),
      (10105, ConversationLimitExceeded), (15001, WebSearchRateLimit),
      (11101, NonStreamNotSupported), (11128, FirstMessageNotSystemPrompt),
      (11115, ContextTooLong), (11140, AuthForbidden1), (11141, ModelBehaviorError),
      (11142, AuthForbidden2)]"

definition codebuddy_from_code :: "nat \<Rightarrow> codebuddy_error_code option" where
  "codebuddy_from_code code = map_of codebuddy_table code"

definition codebuddy_is_rate_limit :: "codebuddy_error_code \<Rightarrow> bool" where
  "codebuddy_is_rate_limit c \<longleftrightarrow>
     c \<in> {CraftRateLimit, CraftRateTPSLimit, CraftRateTPMLimit, CraftRateTPHLimit,
          CraftRateTPDLimit, CraftRateRPSLimit, CraftRateRPMLimit, CraftRateRPHLimit,
          CraftRateRPDLimit, RateLimitError, WebSearchRateLimit}"

definition codebuddy_is_credits_exhausted :: "codebuddy_error_code \<Rightarrow> bool" where
  "codebuddy_is_credits_exhausted c \<longleftrightarrow>
     c \<in> {UsageLimitExceeded, ConversationChatTooMany, UsageLimitExceededEnterprise,
          UsageLimitExceededTencent, UsageLimitEnterpriseExhausted, UsageLimitUserExhausted,
          UsageLimitNoTokenBudget}"

definition codebuddy_is_auth_error :: "codebuddy_error_code \<Rightarrow> bool" where
  "codebuddy_is_auth_error c \<longleftrightarrow>
     c \<in> {UsageLimitLicenseExpired, UsageLimitEnterpriseNotActivated,
          UsageLimitUserNotActivated, AuthForbidden1, AuthForbidden2}"

definition codebuddy_to_upstream_error_class :: "codebuddy_error_code \<Rightarrow> upstream_error_class" where
  "codebuddy_to_upstream_error_class c =
     (if codebuddy_is_rate_limit c \<or> codebuddy_is_credits_exhausted c then ResourceExhausted
      else if codebuddy_is_auth_error c then PermissionDenied
      else if c = ContextTooLong \<or> c = NonStreamNotSupported then InvalidPayload
      else if c = FirstMessageNotSystemPrompt then ValidationRequired
      else Generic)"

definition biz_code_at :: "json \<Rightarrow> string \<Rightarrow> nat option" where
  "biz_code_at v key =
     (let from_str_code =
            (case Option.bind (json_get v key) json_as_str of
               None \<Rightarrow> None
             | Some s \<Rightarrow>
                 (case parse_unsigned U32_MAX s of
                    Some n \<Rightarrow> (if 1000 \<le> n then Some n else None)
                  | None \<Rightarrow> None))
      in case Option.bind (json_get v key) json_as_i64 of
           Some n \<Rightarrow> (if 1000 \<le> n \<and> n \<le> int U32_MAX then Some (nat n) else from_str_code)
         | None \<Rightarrow> from_str_code)"

primrec extract_biz_code :: "nat \<Rightarrow> json \<Rightarrow> nat option" where
  "extract_biz_code 0 v = None"
| "extract_biz_code (Suc depth) v =
     (case first_some (biz_code_at v) [''code'', ''errcode''] of
        Some n \<Rightarrow> Some n
      | None \<Rightarrow>
          first_some
            (\<lambda>key. case json_get v key of None \<Rightarrow> None | Some child \<Rightarrow> extract_biz_code depth child)
            [''data'', ''error'', ''response''])"

definition parse_codebuddy_error_code :: "(string \<Rightarrow> json option) \<Rightarrow> string \<Rightarrow> nat option" where
  "parse_codebuddy_error_code from_str body = Option.bind (from_str body) (extract_biz_code 6)"

section \<open>Facts about the error tables\<close>

text \<open>
  the error-code channel is lossless up to the variant. Reading back the code an error prints,
  with any message, gives an error with the same code; the only failures are the three codes whose
  variant carries a number, when the message is not that number.
\<close>

theorem error_code_round_trip:
  "map_option error_code (from_code_and_message (error_code e) msg) =
     (if error_code e \<in> {''account_not_found'', ''combo_not_found'', ''no_healthy_targets''} \<and>
         parse_i64 (trim msg) = None
      then None else Some (error_code e))"
proof (cases e)
  case (Cancelled r)
  then show ?thesis
    by (cases r) (simp_all add: from_code_and_message_def)
next
  case (NotFound w i)
  then show ?thesis
    by (simp add: from_code_and_message_def Let_def split: prod.splits)
qed (simp_all add: from_code_and_message_def upstream_error_def option.map_comp comp_def
       split: option.splits)

text \<open>A business code that is found is a plausible one, whatever the nesting.\<close>

lemma biz_code_at_range: "biz_code_at v key = Some n \<Longrightarrow> 1000 \<le> n \<and> n \<le> U32_MAX"
  by (auto simp: biz_code_at_def parse_unsigned_def Let_def split: option.splits if_splits)

lemma extract_biz_code_range: "extract_biz_code d v = Some n \<Longrightarrow> 1000 \<le> n \<and> n \<le> U32_MAX"
proof (induction d arbitrary: v)
  case 0
  then show ?case by simp
next
  case (Suc d)
  show ?case
  proof (cases "first_some (biz_code_at v) [''code'', ''errcode'']")
    case None
    with Suc.prems obtain key child where "extract_biz_code d child = Some n"
      by (auto dest!: first_some_Some simp del: first_some.simps split: option.splits)
    then show ?thesis by (rule Suc.IH)
  next
    case (Some m)
    with Suc.prems have "first_some (biz_code_at v) [''code'', ''errcode''] = Some n" by simp
    then show ?thesis by (blast dest: first_some_Some biz_code_at_range)
  qed
qed

end
