(* ===== verification/Combos.thy ===== *)
theory Combos
  imports Core_Error
begin

text \<open>
  The routing data model (openproxy-types/src/combos.rs, with \<open>CooldownMode\<close> of config.rs,
  \<open>RateLimitScope\<close> of providers.rs and \<open>ClientProfile\<close> of client_profile.rs): combos, their targets,
  the identity of an execution, and the cooldown switches. Every enum made by \<open>impl_string_enum!\<close>
  interprets the \<open>string_enum\<close> contract. Row ids are the integers inside the Rust newtypes; an
  \<open>f64\<close> setting is kept as a rational.
\<close>

type_synonym account_id = int
type_synonym combo_id = int
type_synonym combo_target_id = int
type_synonym model_row_id = int

definition MAX_SUB_COMBO_DEPTH :: nat where
  "MAX_SUB_COMBO_DEPTH = 5"

section \<open>String-backed enums\<close>

datatype strategy = Priority | RoundRobin | Shuffle

fun strategy_as_str :: "strategy \<Rightarrow> string" where
  "strategy_as_str Priority = ''priority''"
| "strategy_as_str RoundRobin = ''round_robin''"
| "strategy_as_str Shuffle = ''shuffle''"

definition strategy_parse :: "string \<Rightarrow> string + strategy" where
  "strategy_parse s =
     (if s = ''priority'' then Inr Priority
      else if s = ''round_robin'' then Inr RoundRobin
      else if s = ''shuffle'' then Inr Shuffle
      else Inl (''invalid strategy: '' @ s))"

interpretation strategy_enum: string_enum strategy_as_str strategy_parse
  "\<lambda>_. {}"
proof unfold_locales
  fix v show "strategy_parse (strategy_as_str v) = Inr v"
    by (cases v) (simp_all add: strategy_parse_def)
qed (auto simp: strategy_parse_def split: if_splits)

datatype priority_mode = Strict | Lkgp | Weighted | LeastUsed | P2c | Decision

fun priority_mode_as_str :: "priority_mode \<Rightarrow> string" where
  "priority_mode_as_str Strict = ''strict''"
| "priority_mode_as_str Lkgp = ''lkgp''"
| "priority_mode_as_str Weighted = ''weighted''"
| "priority_mode_as_str LeastUsed = ''least_used''"
| "priority_mode_as_str P2c = ''p2c''"
| "priority_mode_as_str Decision = ''decision''"

definition priority_mode_parse :: "string \<Rightarrow> string + priority_mode" where
  "priority_mode_parse s =
     (if s = ''strict'' then Inr Strict
      else if s = ''lkgp'' then Inr Lkgp
      else if s = ''weighted'' then Inr Weighted
      else if s = ''least_used'' then Inr LeastUsed
      else if s = ''p2c'' then Inr P2c
      else if s = ''decision'' then Inr Decision
      else Inl (''invalid priority_mode: '' @ s))"

interpretation priority_mode_enum: string_enum priority_mode_as_str priority_mode_parse
  "\<lambda>_. {}"
proof unfold_locales
  fix v show "priority_mode_parse (priority_mode_as_str v) = Inr v"
    by (cases v) (simp_all add: priority_mode_parse_def)
qed (auto simp: priority_mode_parse_def split: if_splits)

datatype cooldown_mode = Flat | Exponential | NoCooldown

fun cooldown_mode_as_str :: "cooldown_mode \<Rightarrow> string" where
  "cooldown_mode_as_str Flat = ''flat''"
| "cooldown_mode_as_str Exponential = ''exponential''"
| "cooldown_mode_as_str NoCooldown = ''none''"

definition cooldown_mode_parse :: "string \<Rightarrow> string + cooldown_mode" where
  "cooldown_mode_parse s =
     (if s = ''flat'' then Inr Flat
      else if s = ''exponential'' then Inr Exponential
      else if s = ''none'' \<or> s = ''disabled'' \<or> s = ''off'' then Inr NoCooldown
      else Inl (''invalid cooldown_mode: '' @ s))"

interpretation cooldown_mode_enum: string_enum cooldown_mode_as_str cooldown_mode_parse
  "\<lambda>v. if v = NoCooldown then {''disabled'', ''off''} else {}"
proof unfold_locales
  fix v show "cooldown_mode_parse (cooldown_mode_as_str v) = Inr v"
    by (cases v) (simp_all add: cooldown_mode_parse_def)
qed (auto simp: cooldown_mode_parse_def split: if_splits)

datatype rate_limit_scope = ScopeAccount | ScopeModel

fun rate_limit_scope_as_str :: "rate_limit_scope \<Rightarrow> string" where
  "rate_limit_scope_as_str ScopeAccount = ''account''"
| "rate_limit_scope_as_str ScopeModel = ''model''"

definition rate_limit_scope_parse :: "string \<Rightarrow> string + rate_limit_scope" where
  "rate_limit_scope_parse s =
     (if s = ''account'' then Inr ScopeAccount
      else if s = ''model'' then Inr ScopeModel
      else Inl (''invalid rate_limit_scope: '' @ s))"

interpretation rate_limit_scope_enum: string_enum rate_limit_scope_as_str rate_limit_scope_parse
  "\<lambda>_. {}"
proof unfold_locales
  fix v show "rate_limit_scope_parse (rate_limit_scope_as_str v) = Inr v"
    by (cases v) (simp_all add: rate_limit_scope_parse_def)
qed (auto simp: rate_limit_scope_parse_def split: if_splits)

text \<open>\<open>from_db_opt\<close> of the macro: an unreadable column reads as absent.\<close>

definition from_db_opt :: "(string \<Rightarrow> 'err + 'e) \<Rightarrow> string option \<Rightarrow> 'e option" where
  "from_db_opt parse s =
     (case s of None \<Rightarrow> None | Some v \<Rightarrow> (case parse v of Inl _ \<Rightarrow> None | Inr e \<Rightarrow> Some e))"

datatype client_profile =
    ClaudeCode | Codex | Cline | Kilocode | Kiro | Minimax | CommandCode | CodeBuddy | Opencode
  | Antigravity

fun client_profile_as_str :: "client_profile \<Rightarrow> string" where
  "client_profile_as_str ClaudeCode = ''claude-code''"
| "client_profile_as_str Codex = ''codex''"
| "client_profile_as_str Cline = ''cline''"
| "client_profile_as_str Kilocode = ''kilocode''"
| "client_profile_as_str Kiro = ''kiro''"
| "client_profile_as_str Minimax = ''minimax''"
| "client_profile_as_str CommandCode = ''commandcode''"
| "client_profile_as_str CodeBuddy = ''codebuddy''"
| "client_profile_as_str Opencode = ''opencode''"
| "client_profile_as_str Antigravity = ''antigravity''"

definition client_profile_normalize :: "string \<Rightarrow> string" where
  "client_profile_normalize s =
     map (\<lambda>c. if c = CHR ''_'' then CHR ''-'' else c) (to_ascii_lowercase (trim s))"

definition client_profile_from_normalized :: "string \<Rightarrow> string + client_profile" where
  "client_profile_from_normalized n =
     (if n = ''claude-code'' \<or> n = ''claude'' \<or> n = ''claudecode'' then Inr ClaudeCode
      else if n = ''codex'' then Inr Codex
      else if n = ''cline'' then Inr Cline
      else if n = ''kilocode'' then Inr Kilocode
      else if n = ''kiro'' then Inr Kiro
      else if n = ''minimax'' then Inr Minimax
      else if n = ''commandcode'' \<or> n = ''cmd'' \<or> n = ''command-code'' then Inr CommandCode
      else if n = ''codebuddy'' \<or> n = ''code-buddy'' then Inr CodeBuddy
      else if n = ''opencode'' then Inr Opencode
      else if n = ''antigravity'' then Inr Antigravity
      else Inl (''unknown client profile: '' @ n))"

definition client_profile_parse :: "string \<Rightarrow> string + client_profile" where
  "client_profile_parse s = client_profile_from_normalized (client_profile_normalize s)"

section \<open>Combos and targets\<close>

record combo =
  cb_id :: combo_id
  cb_name :: string
  cb_strategy :: strategy
  cb_race_size :: nat
  cb_preventive_rate_limit :: bool
  cb_created_at :: string
  cb_context_window :: "int option"
  cb_max_output_tokens :: "int option"
  cb_priority_mode :: priority_mode
  cb_cooldown_mode :: cooldown_mode
  cb_cooldown_base_secs :: "nat option"
  cb_cooldown_max_secs :: "nat option"
  cb_cooldown_factor :: "nat option"
  cb_lkgp_exploration_rate :: "rat option"
  cb_selection_window_secs :: "nat option"
  cb_decision_model :: "string option"
  cb_decision_timeout_ms :: "nat option"
  cb_modality_gate :: "bool option"
  cb_sanitize_response :: "bool option"
  cb_real_model_id :: "string option"

record combo_target =
  ct_id :: combo_target_id
  ct_combo_id :: combo_id
  ct_provider_id :: string
  ct_account_id :: "account_id option"
  ct_model_row_id :: "model_row_id option"
  ct_sub_combo_id :: "combo_id option"
  ct_priority_order :: int
  ct_weight :: int
  ct_active :: bool
  ct_rate_limit_scope :: rate_limit_scope
  ct_cooldown_mode :: "cooldown_mode option"
  ct_cooldown_base_secs :: "nat option"
  ct_cooldown_max_secs :: "nat option"
  ct_cooldown_factor :: "nat option"
  ct_thinking_effort :: "string option"
  ct_description :: "string option"
  ct_selected_accounts :: "account_id list option"
  ct_client_profile :: "client_profile option"
  ct_inherited_target_id :: "combo_target_id option"

definition default_combo_target :: combo_target where
  "default_combo_target =
     \<lparr> ct_id = 0, ct_combo_id = 0, ct_provider_id = [], ct_account_id = None,
       ct_model_row_id = None, ct_sub_combo_id = None, ct_priority_order = 0, ct_weight = 1,
       ct_active = True, ct_rate_limit_scope = ScopeAccount, ct_cooldown_mode = None,
       ct_cooldown_base_secs = None, ct_cooldown_max_secs = None, ct_cooldown_factor = None,
       ct_thinking_effort = None, ct_description = None, ct_selected_accounts = None,
       ct_client_profile = None, ct_inherited_target_id = None \<rparr>"

definition default_combo :: combo where
  "default_combo =
     \<lparr> cb_id = 0, cb_name = [], cb_strategy = Priority, cb_race_size = 1,
       cb_preventive_rate_limit = False, cb_created_at = [], cb_context_window = None,
       cb_max_output_tokens = None, cb_priority_mode = Strict, cb_cooldown_mode = Flat,
       cb_cooldown_base_secs = None, cb_cooldown_max_secs = None, cb_cooldown_factor = None,
       cb_lkgp_exploration_rate = None, cb_selection_window_secs = None,
       cb_decision_model = None, cb_decision_timeout_ms = None, cb_modality_gate = None,
       cb_sanitize_response = None, cb_real_model_id = None \<rparr>"

record target_execution_id =
  te_target_id :: combo_target_id
  te_account_id :: "account_id option"

definition te_from_target :: "combo_target \<Rightarrow> target_execution_id" where
  "te_from_target t = \<lparr> te_target_id = ct_id t, te_account_id = ct_account_id t \<rparr>"

definition te_matches_target :: "target_execution_id \<Rightarrow> combo_target \<Rightarrow> bool" where
  "te_matches_target e t \<longleftrightarrow>
     te_target_id e = ct_id t \<and> (te_account_id e = None \<or> te_account_id e = ct_account_id t)"

definition te_from_id :: "combo_target_id \<Rightarrow> target_execution_id" where
  "te_from_id i = \<lparr> te_target_id = i, te_account_id = None \<rparr>"

definition combo_is_cooldown_disabled :: "combo \<Rightarrow> bool" where
  "combo_is_cooldown_disabled c \<longleftrightarrow>
     cb_cooldown_mode c = NoCooldown \<or> cb_cooldown_base_secs c = Some 0"

definition is_cooldown_forced_disabled :: "combo_target \<Rightarrow> bool" where
  "is_cooldown_forced_disabled t \<longleftrightarrow>
     ct_cooldown_mode t = Some NoCooldown \<or> ct_cooldown_base_secs t = Some 0"

definition is_cooldown_disabled :: "combo_target \<Rightarrow> combo \<Rightarrow> bool" where
  "is_cooldown_disabled t c \<longleftrightarrow>
     is_cooldown_forced_disabled t \<or> (ct_cooldown_mode t = None \<and> combo_is_cooldown_disabled c)"

section \<open>Facts\<close>

lemma te_matches_self [simp]: "te_matches_target (te_from_target t) t"
  by (simp add: te_matches_target_def te_from_target_def)

lemma te_matches_from_id: "te_matches_target (te_from_id i) t \<longleftrightarrow> i = ct_id t"
  by (simp add: te_matches_target_def te_from_id_def)

text \<open>An explicit mode on the target, other than none, shields it from the combo's switch.\<close>

lemma explicit_mode_overrides_combo:
  "ct_cooldown_mode t = Some m \<Longrightarrow> m \<noteq> NoCooldown \<Longrightarrow>
     is_cooldown_disabled t c \<longleftrightarrow> ct_cooldown_base_secs t = Some 0"
  by (simp add: is_cooldown_disabled_def is_cooldown_forced_disabled_def)

end
