(* ===== verification/Combo_Store.thy ===== *)
theory Combo_Store
  imports Combos
begin

text \<open>
  The tables behind combos and the operations on combo targets (openproxy-db/src/combos/targets.rs
  and mapping.rs): listing with cooldowns, adding with its validations, cycle detection, deletion
  and reordering. A table is a list of rows; a join over a primary key is a lookup by that key, and
  \<open>ORDER BY\<close> is a stable sort. The instant \<open>datetime('now')\<close> is a parameter \<open>now\<close>, in seconds. Failures
  of the database itself (I/O, locking) are not modelled; constraint violations are.
\<close>

section \<open>Rows\<close>

datatype health_status = HsHealthy | HsDegraded | HsUnhealthy

fun health_status_as_str :: "health_status \<Rightarrow> string" where
  "health_status_as_str HsHealthy = ''healthy''"
| "health_status_as_str HsDegraded = ''degraded''"
| "health_status_as_str HsUnhealthy = ''unhealthy''"

definition health_status_parse :: "string \<Rightarrow> string + health_status" where
  "health_status_parse s =
     (if s = ''healthy'' then Inr HsHealthy
      else if s = ''degraded'' then Inr HsDegraded
      else if s = ''unhealthy'' then Inr HsUnhealthy
      else Inl (''invalid health: '' @ s))"

interpretation health_enum: string_enum health_status_as_str health_status_parse "\<lambda>_. {}"
proof unfold_locales
  fix v show "health_status_parse (health_status_as_str v) = Inr v"
    by (cases v) (simp_all add: health_status_parse_def)
qed (auto simp: health_status_parse_def split: if_splits)

text \<open>What \<open>datetime(text)\<close> makes of a time column: an instant, or \<open>NULL\<close> when the text is no time.\<close>

datatype sql_time = NoTime | AtSecs int

definition time_over :: "int \<Rightarrow> sql_time \<Rightarrow> bool" where
  "time_over now t = (case t of NoTime \<Rightarrow> False | AtSecs s \<Rightarrow> s \<le> now)"

definition time_ahead :: "int \<Rightarrow> sql_time \<Rightarrow> bool" where
  "time_ahead now t = (case t of NoTime \<Rightarrow> False | AtSecs s \<Rightarrow> now < s)"

record provider_row =
  pv_id :: string
  pv_active :: bool
  pv_rate_limit_scope :: rate_limit_scope

record model_row =
  mo_id :: model_row_id
  mo_provider_id :: string
  mo_model_id :: string
  mo_active :: bool
  mo_context_length :: "int option"
  mo_max_output_tokens :: "int option"
  mo_input_modalities_json :: "string option"
  mo_client_profile :: "client_profile option"

record account_row =
  ac_id :: account_id
  ac_provider_id :: string
  ac_active :: bool
  ac_priority :: int
  ac_health_status :: health_status
  ac_rate_limited_until :: "sql_time option"

record target_row =
  tg_target :: combo_target
  tg_upstream_model_id :: "string option"

record cooldown_row =
  cd_target_id :: combo_target_id
  cd_until :: sql_time
  cd_reason :: "string option"
  cd_failure_count :: nat

record database =
  db_providers :: "provider_row list"
  db_models :: "model_row list"
  db_accounts :: "account_row list"
  db_combos :: "combo list"
  db_targets :: "target_row list"
  db_cooldowns :: "cooldown_row list"
  db_next_target_id :: combo_target_id

definition find_provider :: "database \<Rightarrow> string \<Rightarrow> provider_row option" where
  "find_provider db i = find (\<lambda>p. pv_id p = i) (db_providers db)"

definition find_model :: "database \<Rightarrow> model_row_id \<Rightarrow> model_row option" where
  "find_model db i = find (\<lambda>m. mo_id m = i) (db_models db)"

definition find_account :: "database \<Rightarrow> account_id \<Rightarrow> account_row option" where
  "find_account db i = find (\<lambda>a. ac_id a = i) (db_accounts db)"

definition find_combo :: "database \<Rightarrow> combo_id \<Rightarrow> combo option" where
  "find_combo db i = find (\<lambda>c. cb_id c = i) (db_combos db)"

definition find_cooldown :: "database \<Rightarrow> combo_target_id \<Rightarrow> cooldown_row option" where
  "find_cooldown db i = find (\<lambda>c. cd_target_id c = i) (db_cooldowns db)"

section \<open>Listing\<close>

definition model_in_cooldown :: "int \<Rightarrow> database \<Rightarrow> model_row_id \<Rightarrow> bool" where
  "model_in_cooldown now db m =
     list_ex (\<lambda>c. time_ahead now (cd_until c) \<and>
        list_ex (\<lambda>r. ct_id (tg_target r) = cd_target_id c \<and> ct_model_row_id (tg_target r) = Some m)
          (db_targets db)) (db_cooldowns db)"

definition in_model_cooldown :: "int \<Rightarrow> database \<Rightarrow> combo_target \<Rightarrow> bool" where
  "in_model_cooldown now db t =
     (case ct_model_row_id t of None \<Rightarrow> False | Some m \<Rightarrow> model_in_cooldown now db m)"

definition provider_is_active :: "database \<Rightarrow> string \<Rightarrow> bool" where
  "provider_is_active db i = (case find_provider db i of None \<Rightarrow> False | Some p \<Rightarrow> pv_active p)"

definition model_is_active :: "database \<Rightarrow> model_row_id \<Rightarrow> bool" where
  "model_is_active db i = (case find_model db i of None \<Rightarrow> False | Some m \<Rightarrow> mo_active m)"

definition target_listed :: "int \<Rightarrow> database \<Rightarrow> combo_target \<Rightarrow> bool" where
  "target_listed now db t \<longleftrightarrow>
     provider_is_active db (ct_provider_id t) \<and> ct_active t \<and>
     (case ct_model_row_id t of None \<Rightarrow> True | Some m \<Rightarrow> model_is_active db m) \<and>
     (case find_cooldown db (ct_id t) of None \<Rightarrow> True | Some c \<Rightarrow> time_over now (cd_until c)) \<and>
     \<not> in_model_cooldown now db t \<and>
     \<not> (ct_model_row_id t = None \<and> ct_sub_combo_id t = None)"

definition row_to_target :: "database \<Rightarrow> combo_target \<Rightarrow> combo_target" where
  "row_to_target db t =
     t \<lparr> ct_rate_limit_scope :=
           (case find_provider db (ct_provider_id t) of
              None \<Rightarrow> ct_rate_limit_scope t | Some p \<Rightarrow> pv_rate_limit_scope p),
         ct_inherited_target_id := None \<rparr>"

definition cmp_target_order :: "combo_target \<Rightarrow> combo_target \<Rightarrow> ordering" where
  "cmp_target_order a b =
     then_with (cmp_int (ct_priority_order a) (ct_priority_order b)) (cmp_int (ct_id a) (ct_id b))"

definition list_targets :: "int \<Rightarrow> database \<Rightarrow> combo_id \<Rightarrow> combo_target list" where
  "list_targets now db cid =
     sort_by cmp_target_order
       (map (row_to_target db)
         (filter (\<lambda>t. ct_combo_id t = cid \<and> target_listed now db t) (map tg_target (db_targets db))))"

definition get_active_cooldown_target_ids :: "int \<Rightarrow> database \<Rightarrow> combo_id \<Rightarrow> combo_target_id set" where
  "get_active_cooldown_target_ids now db cid =
     ct_id ` set (filter (\<lambda>t. ct_combo_id t = cid \<and>
        ((case find_cooldown db (ct_id t) of None \<Rightarrow> False | Some c \<Rightarrow> time_ahead now (cd_until c)) \<or>
         in_model_cooldown now db t)) (map tg_target (db_targets db)))"

section \<open>The graph of sub-combos\<close>

definition fetch_sub_combo_ids :: "database \<Rightarrow> combo_id list \<Rightarrow> combo_id list" where
  "fetch_sub_combo_ids db level =
     remdups (List.map_filter (\<lambda>r. if ct_combo_id (tg_target r) \<in> set level then ct_sub_combo_id (tg_target r) else None)
       (db_targets db))"

primrec chain_levels :: "database \<Rightarrow> combo_id \<Rightarrow> nat \<Rightarrow> combo_id list \<Rightarrow> bool" where
  "chain_levels db target 0 level = False"
| "chain_levels db target (Suc n) level =
     (if level = [] then False
      else
        (let sub_ids = fetch_sub_combo_ids db level
         in if target \<in> set sub_ids then True else chain_levels db target n sub_ids))"

definition combo_in_chain :: "database \<Rightarrow> combo_id \<Rightarrow> combo_id \<Rightarrow> nat \<Rightarrow> bool" where
  "combo_in_chain db target start max_depth =
     (if start = target then True else chain_levels db target max_depth [start])"

section \<open>Adding a target\<close>

record add_target_input =
  ai_combo_id :: combo_id
  ai_provider_id :: string
  ai_account_id :: "account_id option"
  ai_model_row_id :: "model_row_id option"
  ai_sub_combo_id :: "combo_id option"
  ai_priority_order :: int
  ai_description :: "string option"
  ai_selected_accounts :: "account_id list option"
  ai_client_profile :: "client_profile option"

definition quoted :: "string \<Rightarrow> string" where
  "quoted s = [CHR 0x27] @ s @ [CHR 0x27]"

definition validate_flat_target :: "database \<Rightarrow> model_row_id \<Rightarrow> string \<Rightarrow> core_error option" where
  "validate_flat_target db m provider_id =
     (case find_model db m of
        None \<Rightarrow> Some (Validation (''model_row_id does not exist: '' @ show_int m))
      | Some mo \<Rightarrow>
          (if mo_provider_id mo \<noteq> provider_id then
             Some (Validation (''model '' @ show_int m @ '' belongs to provider '' @ quoted (mo_provider_id mo) @
                     '', not '' @ quoted provider_id))
           else if (case find_provider db provider_id of None \<Rightarrow> False | Some p \<Rightarrow> \<not> pv_active p) then
             Some (Validation (''provider '' @ quoted provider_id @
                     '' is deactivated; reactivate it before adding it as a combo target''))
           else None))"

definition check_sub_combo_cycle :: "database \<Rightarrow> combo_id \<Rightarrow> combo_id \<Rightarrow> core_error option" where
  "check_sub_combo_cycle db cid sub =
     (if combo_in_chain db cid sub MAX_SUB_COMBO_DEPTH
      then Some (Validation (''adding sub-combo '' @ show_int sub @ '' to combo '' @ show_int cid @
                   '' would create a cycle''))
      else None)"

definition validate_sub_combo_target :: "database \<Rightarrow> combo_id \<Rightarrow> combo_id \<Rightarrow> core_error option" where
  "validate_sub_combo_target db cid sub =
     (if sub = cid then Some (Validation ''combo cannot contain itself'')
      else if find_combo db sub = None
      then Some (Validation (''sub_combo_id does not exist: '' @ show_int sub))
      else check_sub_combo_cycle db cid sub)"

definition validate_account :: "database \<Rightarrow> account_id option \<Rightarrow> model_row_id option \<Rightarrow> core_error option" where
  "validate_account db account model =
     (case account of
        None \<Rightarrow> None
      | Some aid \<Rightarrow>
          (if model = None
           then Some (Validation ''account_id is only valid on flat (model) targets'')
           else if find_account db aid = None then Some (AccountNotFound aid)
           else None))"

definition same_target :: "add_target_input \<Rightarrow> combo_target \<Rightarrow> bool" where
  "same_target i t \<longleftrightarrow>
     ct_combo_id t = ai_combo_id i \<and> ct_provider_id t = ai_provider_id i \<and>
     (case ct_account_id t of None \<Rightarrow> -1 | Some x \<Rightarrow> x) = (case ai_account_id i of None \<Rightarrow> -1 | Some x \<Rightarrow> x) \<and>
     (case ct_model_row_id t of None \<Rightarrow> -1 | Some x \<Rightarrow> x) = (case ai_model_row_id i of None \<Rightarrow> -1 | Some x \<Rightarrow> x) \<and>
     (case ct_sub_combo_id t of None \<Rightarrow> -1 | Some x \<Rightarrow> x) = (case ai_sub_combo_id i of None \<Rightarrow> -1 | Some x \<Rightarrow> x)"

definition debug_id :: "string \<Rightarrow> int option \<Rightarrow> string" where
  "debug_id ty x = (case x of None \<Rightarrow> ''None'' | Some i \<Rightarrow> ''Some('' @ ty @ ''('' @ show_int i @ ''))'')"

definition duplicate_error :: "add_target_input \<Rightarrow> core_error" where
  "duplicate_error i =
     Validation (''duplicate target for combo '' @ show_int (ai_combo_id i) @ '' (provider='' @ ai_provider_id i @
       '', account='' @ debug_id ''AccountId'' (ai_account_id i) @
       '', model='' @ debug_id ''ModelRowId'' (ai_model_row_id i) @
       '', sub_combo='' @ debug_id ''ComboId'' (ai_sub_combo_id i) @ '')'')"

definition check_duplicate_target :: "database \<Rightarrow> add_target_input \<Rightarrow> core_error option" where
  "check_duplicate_target db i =
     (if list_ex (same_target i) (map tg_target (db_targets db)) then Some (duplicate_error i) else None)"

definition validate_combo_exists :: "database \<Rightarrow> combo_id \<Rightarrow> core_error option" where
  "validate_combo_exists db cid = (if find_combo db cid = None then Some (ComboNotFound cid) else None)"

text \<open>The first check that fails decides, as with \<open>?\<close>.\<close>

fun first_error :: "core_error option list \<Rightarrow> core_error option" where
  "first_error [] = None"
| "first_error (Some e # es) = Some e"
| "first_error (None # es) = first_error es"

definition validate_add_target :: "database \<Rightarrow> add_target_input \<Rightarrow> core_error option" where
  "validate_add_target db i =
     first_error
       [if (ai_model_row_id i \<noteq> None) = (ai_sub_combo_id i \<noteq> None)
        then Some (Validation ''must provide exactly one of model_row_id or sub_combo_id'') else None,
        validate_combo_exists db (ai_combo_id i),
        (case ai_model_row_id i of None \<Rightarrow> None | Some m \<Rightarrow> validate_flat_target db m (ai_provider_id i)),
        (case ai_sub_combo_id i of None \<Rightarrow> None | Some sub \<Rightarrow> validate_sub_combo_target db (ai_combo_id i) sub),
        validate_account db (ai_account_id i) (ai_model_row_id i),
        check_duplicate_target db i]"

definition fetch_upstream_model_id :: "database \<Rightarrow> model_row_id option \<Rightarrow> string option" where
  "fetch_upstream_model_id db m = (case m of None \<Rightarrow> None | Some i \<Rightarrow> map_option mo_model_id (find_model db i))"

datatype insert_violation = ForeignKeyViolation | UniqueViolation

text \<open>
  The constraints of the table: the provider exists, and no row has the same combo, account and
  model, where a \<open>NULL\<close> account or model differs from every value.
\<close>

definition insert_violation_of :: "database \<Rightarrow> add_target_input \<Rightarrow> insert_violation option" where
  "insert_violation_of db i =
     (if find_provider db (ai_provider_id i) = None then Some ForeignKeyViolation
      else if ai_account_id i \<noteq> None \<and> ai_model_row_id i \<noteq> None \<and>
          list_ex (\<lambda>t. ct_combo_id t = ai_combo_id i \<and> ct_account_id t = ai_account_id i \<and>
             ct_model_row_id t = ai_model_row_id i) (map tg_target (db_targets db))
      then Some UniqueViolation
      else None)"

definition map_add_target_error :: "add_target_input \<Rightarrow> insert_violation \<Rightarrow> core_error" where
  "map_add_target_error i v =
     (case v of
        ForeignKeyViolation \<Rightarrow> Validation (''provider_id or sub_combo_id does not exist: '' @ ai_provider_id i)
      | UniqueViolation \<Rightarrow> duplicate_error i)"

definition new_target :: "database \<Rightarrow> add_target_input \<Rightarrow> target_row" where
  "new_target db i =
     \<lparr> tg_target = default_combo_target
         \<lparr> ct_id := db_next_target_id db, ct_combo_id := ai_combo_id i, ct_provider_id := ai_provider_id i,
           ct_account_id := ai_account_id i, ct_model_row_id := ai_model_row_id i,
           ct_sub_combo_id := ai_sub_combo_id i, ct_priority_order := ai_priority_order i,
           ct_description := ai_description i, ct_selected_accounts := ai_selected_accounts i,
           ct_client_profile := ai_client_profile i \<rparr>,
       tg_upstream_model_id = fetch_upstream_model_id db (ai_model_row_id i) \<rparr>"

definition add_target :: "database \<Rightarrow> add_target_input \<Rightarrow> core_error + database \<times> combo_target_id" where
  "add_target db i =
     (case validate_add_target db i of
        Some e \<Rightarrow> Inl e
      | None \<Rightarrow>
          (case insert_violation_of db i of
             Some v \<Rightarrow> Inl (map_add_target_error i v)
           | None \<Rightarrow>
               Inr (db \<lparr> db_targets := db_targets db @ [new_target db i],
                         db_next_target_id := db_next_target_id db + 1 \<rparr>, db_next_target_id db)))"

section \<open>Other operations on targets\<close>

definition get_target :: "database \<Rightarrow> combo_target_id \<Rightarrow> combo_target option" where
  "get_target db i =
     map_option (row_to_target db)
       (find (\<lambda>t. ct_id t = i \<and> find_provider db (ct_provider_id t) \<noteq> None) (map tg_target (db_targets db)))"

definition target_belongs_to_combo :: "database \<Rightarrow> combo_id \<Rightarrow> combo_target_id \<Rightarrow> bool" where
  "target_belongs_to_combo db cid i =
     list_ex (\<lambda>t. ct_id t = i \<and> ct_combo_id t = cid) (map tg_target (db_targets db))"

text \<open>Deleting a target cascades to its cooldown row.\<close>

definition delete_target :: "database \<Rightarrow> combo_target_id \<Rightarrow> database" where
  "delete_target db i =
     db \<lparr> db_targets := filter (\<lambda>r. ct_id (tg_target r) \<noteq> i) (db_targets db),
          db_cooldowns := filter (\<lambda>c. cd_target_id c \<noteq> i) (db_cooldowns db) \<rparr>"

definition CHUNK_SIZE :: nat where "CHUNK_SIZE = 400"

lemma CHUNK_SIZE_pos [simp]: "CHUNK_SIZE \<noteq> 0"
  by (simp add: CHUNK_SIZE_def)

function chunks :: "nat \<Rightarrow> 'a list \<Rightarrow> 'a list list" where
  "chunks n xs = (if xs = [] \<or> n = 0 then [] else take n xs # chunks n (drop n xs))"
  by pat_completeness auto
termination by (relation "measure (\<lambda>(n, xs). length xs)") (auto simp: length_greater_0_conv)

declare chunks.simps [simp del]

definition combo_target_ids :: "database \<Rightarrow> combo_id \<Rightarrow> combo_target_id list" where
  "combo_target_ids db cid = map ct_id (filter (\<lambda>t. ct_combo_id t = cid) (map tg_target (db_targets db)))"

definition validate_reorder_target_ids :: "database \<Rightarrow> combo_id \<Rightarrow> combo_target_id list \<Rightarrow> core_error option" where
  "validate_reorder_target_ids db cid ordered_ids =
     (if sort (combo_target_ids db cid) \<noteq> sort ordered_ids
      then Some (Validation ''target_ids must be a permutation of the combo's current targets'')
      else None)"

definition apply_priority_chunk ::
    "combo_id \<Rightarrow> nat \<times> combo_target_id list \<Rightarrow> target_row list \<Rightarrow> target_row list" where
  "apply_priority_chunk cid c rows =
     (case c of
        (chunk_idx, ids) \<Rightarrow>
          (let updates = zip ids (map (\<lambda>i. int (chunk_idx * CHUNK_SIZE + i + 1)) [0..<length ids])
           in map (\<lambda>r. if ct_combo_id (tg_target r) = cid then
                          (case map_of updates (ct_id (tg_target r)) of
                             None \<Rightarrow> r
                           | Some p \<Rightarrow> r \<lparr> tg_target := (tg_target r) \<lparr> ct_priority_order := p \<rparr> \<rparr>)
                        else r) rows))"

definition apply_target_priority_chunks ::
    "combo_id \<Rightarrow> combo_target_id list \<Rightarrow> target_row list \<Rightarrow> target_row list" where
  "apply_target_priority_chunks cid ordered_ids rows =
     fold (apply_priority_chunk cid)
       (zip [0..<length (chunks CHUNK_SIZE ordered_ids)] (chunks CHUNK_SIZE ordered_ids)) rows"

definition reorder_targets :: "database \<Rightarrow> combo_id \<Rightarrow> combo_target_id list \<Rightarrow> core_error + database" where
  "reorder_targets db cid ordered_ids =
     (case validate_reorder_target_ids db cid ordered_ids of
        Some e \<Rightarrow> Inl e
      | None \<Rightarrow> Inr (db \<lparr> db_targets := apply_target_priority_chunks cid ordered_ids (db_targets db) \<rparr>))"

section \<open>Cycles of sub-combos\<close>

definition combo_edges :: "database \<Rightarrow> (combo_id \<times> combo_id) set" where
  "combo_edges db = {(a, b). \<exists>r \<in> set (db_targets db).
     ct_combo_id (tg_target r) = a \<and> ct_sub_combo_id (tg_target r) = Some b}"

text \<open>
  The cycles that matter are those a resolution can meet before its depth limit stops it: at most
  one step longer than the limit.
\<close>

definition no_short_cycle :: "database \<Rightarrow> bool" where
  "no_short_cycle db \<longleftrightarrow>
     (\<forall>n c. 0 < n \<and> n \<le> Suc MAX_SUB_COMBO_DEPTH \<longrightarrow> (c, c) \<notin> combo_edges db ^^ n)"

lemma set_map_filter: "set (List.map_filter f xs) = {y. \<exists>x \<in> set xs. f x = Some y}"
  by (induction xs) (auto simp: map_filter_simps split: option.splits)

lemma set_fetch_sub_combo_ids: "set (fetch_sub_combo_ids db level) = combo_edges db `` set level"
  by (auto simp: fetch_sub_combo_ids_def combo_edges_def set_map_filter split: if_splits)

lemma chain_levels_iff:
  "chain_levels db t n level \<longleftrightarrow> (\<exists>k < n. t \<in> (combo_edges db ^^ Suc k) `` set level)"
proof (induction n arbitrary: level)
  case (Suc n)
  let ?E = "combo_edges db" and ?next = "fetch_sub_combo_ids db level"
  have step: "(?E ^^ Suc k) `` set ?next = (?E ^^ Suc (Suc k)) `` set level" for k
    by (simp only: set_fetch_sub_combo_ids relpow.simps(2) [of "Suc k"] relpow_commute [symmetric] relcomp_Image)
  have first: "t \<in> set ?next \<longleftrightarrow> t \<in> (?E ^^ Suc 0) `` set level" by (simp add: set_fetch_sub_combo_ids)
  show ?case
  proof (cases "level = []")
    case False
    then have "chain_levels db t (Suc n) level \<longleftrightarrow>
        t \<in> (?E ^^ Suc 0) `` set level \<or> (\<exists>k < n. t \<in> (?E ^^ Suc (Suc k)) `` set level)"
      by (simp only: chain_levels.simps Let_def Suc.IH step first) simp
    also have "\<dots> \<longleftrightarrow> (\<exists>k < Suc n. t \<in> (?E ^^ Suc k) `` set level)"
      by (metis less_Suc_eq_0_disj)
    finally show ?thesis .
  qed simp
qed simp

lemma combo_in_chain_iff:
  "combo_in_chain db t start d \<longleftrightarrow> (\<exists>k \<le> d. (start, t) \<in> combo_edges db ^^ k)"
proof -
  have "(\<exists>k \<le> d. (start, t) \<in> combo_edges db ^^ k) \<longleftrightarrow>
      start = t \<or> (\<exists>k < d. (start, t) \<in> combo_edges db ^^ Suc k)"
    by (metis Suc_le_eq le0 not0_implies_Suc relpow_0_I relpow_0_E)
  then show ?thesis by (simp add: combo_in_chain_def chain_levels_iff del: relpow.simps(2))
qed

lemma relpow_insert_edge:
  assumes "(x, y) \<in> insert (c, s) E ^^ m"
  shows "(x, y) \<in> E ^^ m \<or> (\<exists>k l. k + l < m \<and> (x, c) \<in> E ^^ k \<and> (s, y) \<in> E ^^ l)"
  using assms
proof (induction m arbitrary: y)
  case (Suc m)
  then obtain z where z: "(x, z) \<in> insert (c, s) E ^^ m" "(z, y) \<in> insert (c, s) E" by auto
  show ?case
  proof (cases "(z, y) \<in> E")
    case True
    from Suc.IH [OF z(1)] show ?thesis
    proof (elim disjE exE conjE)
      fix k l assume "k + l < m" "(x, c) \<in> E ^^ k" "(s, z) \<in> E ^^ l"
      with True have "k + Suc l < Suc m \<and> (x, c) \<in> E ^^ k \<and> (s, y) \<in> E ^^ Suc l" by auto
      then show ?thesis by blast
    qed (use True in auto)
  next
    case False
    with z have "z = c" "y = s" by auto
    from Suc.IH [OF z(1)] this have "\<exists>k. k \<le> m \<and> (x, c) \<in> E ^^ k" by (metis add_leD1 less_imp_le order_refl)
    then obtain k where "k + 0 < Suc m" "(x, c) \<in> E ^^ k" by (metis add_0_right le_imp_less_Suc)
    moreover have "(s, y) \<in> E ^^ 0" using \<open>y = s\<close> by simp
    ultimately show ?thesis by blast
  qed
qed simp

lemma combo_edges_add:
  assumes "add_target db i = Inr (db', tid)"
  shows "combo_edges db' = (case ai_sub_combo_id i of None \<Rightarrow> combo_edges db
      | Some sub \<Rightarrow> insert (ai_combo_id i, sub) (combo_edges db))"
  using assms by (auto simp: add_target_def combo_edges_def new_target_def split: option.splits)

lemma add_target_checked:
  assumes "add_target db i = Inr (db', tid)" and "ai_sub_combo_id i = Some sub"
  shows "\<not> combo_in_chain db (ai_combo_id i) sub MAX_SUB_COMBO_DEPTH"
proof -
  have "validate_sub_combo_target db (ai_combo_id i) sub = None"
    using assms
    by (auto simp: add_target_def validate_add_target_def split: option.splits if_splits)
      (metis first_error.simps(2,3) not_None_eq option.distinct(1))+
  then show ?thesis by (auto simp: validate_sub_combo_target_def check_sub_combo_cycle_def split: if_splits)
qed

text \<open>
  C19: Adding a target never closes a cycle of sub-combos that a resolution could run into: if there is
  no cycle of up to six combos before, there is none after, whatever is added.
\<close>

theorem add_target_no_short_cycle:
  assumes "no_short_cycle db" and "add_target db i = Inr (db', tid)"
  shows "no_short_cycle db'"
proof (cases "ai_sub_combo_id i")
  case None
  then show ?thesis using combo_edges_add [OF assms(2)] assms(1) by (simp add: no_short_cycle_def)
next
  case (Some sub)
  let ?E = "combo_edges db" and ?c = "ai_combo_id i"
  have E': "combo_edges db' = insert (?c, sub) ?E" using combo_edges_add [OF assms(2)] Some by simp
  show ?thesis unfolding no_short_cycle_def
  proof (intro allI impI notI)
    fix n v assume n: "0 < n \<and> n \<le> Suc MAX_SUB_COMBO_DEPTH" and "(v, v) \<in> combo_edges db' ^^ n"
    then have "(v, v) \<in> insert (?c, sub) ?E ^^ n" by (simp add: E')
    from relpow_insert_edge [OF this] show False
    proof (elim disjE exE conjE)
      assume "(v, v) \<in> ?E ^^ n"
      then show False using assms(1) n by (auto simp: no_short_cycle_def)
    next
      fix k l assume kl: "k + l < n" "(v, ?c) \<in> ?E ^^ k" "(sub, v) \<in> ?E ^^ l"
      then have "(sub, ?c) \<in> ?E ^^ (l + k)" by (auto simp: relpow_add)
      moreover have "l + k \<le> MAX_SUB_COMBO_DEPTH" using kl(1) n by simp
      ultimately show False using add_target_checked [OF assms(2) Some] by (auto simp: combo_in_chain_iff)
    qed
  qed
qed

section \<open>Reordering\<close>

definition set_priority :: "combo_id \<Rightarrow> (combo_target_id \<times> int) list \<Rightarrow> target_row \<Rightarrow> target_row" where
  "set_priority cid us r =
     (if ct_combo_id (tg_target r) = cid then
        (case map_of us (ct_id (tg_target r)) of
           None \<Rightarrow> r
         | Some p \<Rightarrow> r \<lparr> tg_target := (tg_target r) \<lparr> ct_priority_order := p \<rparr> \<rparr>)
      else r)"

lemma apply_priority_chunk_alt:
  "apply_priority_chunk cid (j, ids) =
     map (set_priority cid (zip ids (map (\<lambda>i. int (j * CHUNK_SIZE + i + 1)) [0..<length ids])))"
  by (rule ext) (simp add: apply_priority_chunk_def set_priority_def Let_def)

lemma map_upt_shift: "map f [n..<n + m] = map (\<lambda>i. f (n + i)) [0..<m]"
  by (rule nth_equalityI) simp_all

lemma set_priority_append:
  assumes "fst ` set us \<inter> fst ` set vs = {}"
  shows "set_priority cid vs (set_priority cid us r) = set_priority cid (us @ vs) r"
proof (cases "ct_combo_id (tg_target r) = cid")
  case True
  show ?thesis
  proof (cases "map_of us (ct_id (tg_target r))")
    case None
    then show ?thesis by (simp add: set_priority_def map_add_def split: option.splits)
  next
    case (Some p)
    then have "ct_id (tg_target r) \<in> fst ` set us" by (metis map_of_eq_None_iff option.distinct(1))
    then have "map_of vs (ct_id (tg_target r)) = None" using assms by (auto simp: map_of_eq_None_iff)
    with Some True show ?thesis by (simp add: set_priority_def map_add_def)
  qed
qed (simp add: set_priority_def)

lemma chunks_Nil: "chunks n [] = []"
  by (simp add: chunks.simps)

lemma set_priority_Nil [simp]: "set_priority cid [] = (\<lambda>r. r)"
  by (rule ext) (simp add: set_priority_def)

lemma chunks_fold:
  assumes "distinct xs"
  shows "fold (apply_priority_chunk cid) (zip [j..<j + length (chunks CHUNK_SIZE xs)] (chunks CHUNK_SIZE xs)) rows =
     map (set_priority cid (zip xs (map (\<lambda>i. int (j * CHUNK_SIZE + i + 1)) [0..<length xs]))) rows"
  using assms
proof (induction "CHUNK_SIZE" xs arbitrary: j rows rule: chunks.induct)
  case (1 xs)
  show ?case
  proof (cases "xs = []")
    case True
    then show ?thesis by (simp add: chunks_Nil)
  next
    case False
    let ?n = CHUNK_SIZE and ?ps = "\<lambda>j ys. zip ys (map (\<lambda>i. int (j * CHUNK_SIZE + i + 1)) [0..<length ys])"
    let ?a = "take ?n xs" and ?b = "drop ?n xs"
    have c: "chunks ?n xs = ?a # chunks ?n ?b" using False by (simp add: chunks.simps [of _ xs])
    have "fold (apply_priority_chunk cid) (zip [j..<j + length (chunks ?n xs)] (chunks ?n xs)) rows =
        fold (apply_priority_chunk cid) (zip [Suc j..<Suc j + length (chunks ?n ?b)] (chunks ?n ?b))
          (apply_priority_chunk cid (j, ?a) rows)"
      unfolding c by (simp add: upt_conv_Cons del: upt_Suc)
    also have "\<dots> = map (set_priority cid (?ps (Suc j) ?b)) (apply_priority_chunk cid (j, ?a) rows)"
      by (rule 1(1)) (use 1(2) False in simp_all)
    also have "apply_priority_chunk cid (j, ?a) rows = map (set_priority cid (?ps j ?a)) rows"
      by (simp only: apply_priority_chunk_alt)
    also have "map (set_priority cid (?ps (Suc j) ?b)) (map (set_priority cid (?ps j ?a)) rows) =
        map (set_priority cid (?ps (Suc j) ?b) \<circ> set_priority cid (?ps j ?a)) rows" by (rule map_map)
    also have "\<dots> = map (set_priority cid (?ps j ?a @ ?ps (Suc j) ?b)) rows"
    proof -
      have "set ?a \<inter> set ?b = {}" using 1(2) by (metis append_take_drop_id distinct_append)
      then have "fst ` set (?ps j ?a) \<inter> fst ` set (?ps (Suc j) ?b) = {}" by (auto dest!: set_zip_leftD)
      from set_priority_append [OF this] show ?thesis by (simp only: comp_def)
    qed
    also have "?ps j ?a @ ?ps (Suc j) ?b = ?ps j xs"
    proof (cases "length xs \<le> ?n")
      case False
      let ?f = "\<lambda>i. int (j * ?n + i + 1)"
      have l: "length ?b = length xs - ?n" by simp
      have "map ?f [0..<length xs] = map ?f [0..<?n] @ map ?f [?n..<?n + length ?b]"
        using False l by (metis le_add_diff_inverse map_append nat_le_linear upt_add_eq_append zero_le)
      also have "map ?f [?n..<?n + length ?b] = map (\<lambda>i. int (Suc j * ?n + i + 1)) [0..<length ?b]"
        by (simp add: map_upt_shift)
      finally have "?ps j xs = zip (?a @ ?b) (map ?f [0..<?n] @ map (\<lambda>i. int (Suc j * ?n + i + 1)) [0..<length ?b])"
        by simp
      then show ?thesis using False by (subst (asm) zip_append) simp_all
    qed simp
    finally show ?thesis .
  qed
qed

definition combo_rows :: "database \<Rightarrow> combo_id \<Rightarrow> combo_target list" where
  "combo_rows db cid = filter (\<lambda>t. ct_combo_id t = cid) (map tg_target (db_targets db))"

lemma set_priority_keeps:
  "ct_id (tg_target (set_priority cid us r)) = ct_id (tg_target r) \<and>
   ct_combo_id (tg_target (set_priority cid us r)) = ct_combo_id (tg_target r)"
  by (simp add: set_priority_def split: option.splits)

lemma filter_map_set_priority:
  "filter (\<lambda>t. ct_combo_id t = cid) (map tg_target (map (set_priority cid us) rows)) =
     map (\<lambda>r. tg_target (set_priority cid us r)) (filter (\<lambda>r. ct_combo_id (tg_target r) = cid) rows)"
  by (induction rows) (simp_all add: set_priority_keeps)

lemma sorted_by_injective_key:
  assumes "mset xs = mset ys" and "sorted (map f xs)" and "sorted (map f ys)" and "inj_on f (set ys)"
  shows "xs = ys"
proof -
  have "mset (map f xs) = mset (map f ys)" using assms(1) by simp
  then have "map f xs = map f ys" using assms(2,3) by (metis properties_for_sort)
  moreover have "set xs = set ys" using assms(1) by (rule mset_eq_setD)
  ultimately show ?thesis using assms(4) by (metis inj_on_map_eq_map Un_absorb)
qed

lemma cmp_target_order_sorted: "sorted_wrt (\<lambda>a b. ct_priority_order a \<le> ct_priority_order b) (sort_by cmp_target_order ts)"
proof -
  have "sort_comparator cmp_target_order"
    unfolding cmp_target_order_def by (intro sort_comparator_then_with sort_comparator_int)
  from sort_comparator.sort_by_sorted [OF this, of ts] show ?thesis
    by (rule sorted_wrt_mono_rel [rotated])
      (auto simp: cmp_target_order_def then_with_def cmp_int_def split: if_splits)
qed

text \<open>
  Reordering does what it is asked. When \<open>reorder_targets\<close> accepts a list of ids, the targets of the
  combo, in the order every listing uses, are afterwards exactly in that list's order.
\<close>

theorem reorder_targets_order:
  assumes "distinct (map (ct_id \<circ> tg_target) (db_targets db))" and "reorder_targets db cid ids = Inr db'"
  shows "map ct_id (sort_by cmp_target_order (combo_rows db' cid)) = ids"
proof -
  let ?us = "zip ids (map (\<lambda>i. int (i + 1)) [0..<length ids])" and ?L = "sort_by cmp_target_order (combo_rows db' cid)"
  define f where "f x = the (map_of ?us x)" for x
  have perm: "mset (combo_target_ids db cid) = mset ids"
    using assms(2) by (auto simp: reorder_targets_def validate_reorder_target_ids_def split: if_splits)
      (metis mset_sort)
  have "distinct (combo_target_ids db cid)"
    using assms(1) by (auto simp: combo_target_ids_def distinct_map inj_on_def)
  then have dist: "distinct ids" using perm by (metis mset_eq_imp_distinct_iff)
  have "db_targets db' = map (set_priority cid ?us) (db_targets db)"
    using assms(2) chunks_fold [OF dist, of cid 0 "db_targets db"]
    by (auto simp: reorder_targets_def apply_target_priority_chunks_def split: option.splits)
  then have rows: "combo_rows db' cid =
      map (\<lambda>r. tg_target (set_priority cid ?us r)) (filter (\<lambda>r. ct_combo_id (tg_target r) = cid) (db_targets db))"
    by (simp only: combo_rows_def filter_map_set_priority)
  have ids_eq: "map ct_id (combo_rows db' cid) = combo_target_ids db cid"
    by (simp add: rows combo_target_ids_def filter_map set_priority_keeps comp_def)
  have fi: "f (ids ! i) = int (i + 1)" if "i < length ids" for i
    using that dist by (simp add: f_def map_of_zip_nth)
  have prio: "ct_priority_order t = f (ct_id t)" if "t \<in> set (combo_rows db' cid)" for t
  proof -
    obtain r where r: "ct_combo_id (tg_target r) = cid" "t = tg_target (set_priority cid ?us r)"
      using \<open>t \<in> set (combo_rows db' cid)\<close> rows by auto
    have "ct_id t \<in> set ids" using that ids_eq perm by (metis image_eqI list.set_map mset_eq_setD)
    then have "ct_id (tg_target r) \<in> set ids" using r(2) by (simp add: set_priority_keeps)
    then obtain p where "map_of ?us (ct_id (tg_target r)) = Some p"
      by (metis length_map length_upt diff_zero map_of_zip_is_Some)
    then show ?thesis using r by (simp add: set_priority_def f_def)
  qed
  show ?thesis
  proof (rule sorted_by_injective_key)
    show "mset (map ct_id ?L) = mset ids" using ids_eq perm by (metis mset_map mset_sort_by)
    have "sorted_wrt (\<lambda>a b. f (ct_id a) \<le> f (ct_id b)) ?L"
      by (rule sorted_wrt_mono_rel [OF _ cmp_target_order_sorted]) (simp add: prio)
    then show "sorted (map f (map ct_id ?L))" by (simp add: sorted_map)
    show "sorted (map f ids)" by (simp add: sorted_iff_nth_mono fi)
    show "inj_on f (set ids)" by (rule inj_onI) (metis fi in_set_conv_nth add_right_cancel of_nat_eq_iff)
  qed
qed

section \<open>Concrete databases\<close>

definition sample_provider :: provider_row where
  "sample_provider = \<lparr> pv_id = ''p'', pv_active = True, pv_rate_limit_scope = ScopeAccount \<rparr>"

definition sample_db :: database where
  "sample_db =
     \<lparr> db_providers = [sample_provider], db_models = [], db_accounts = [],
       db_combos = [default_combo \<lparr> cb_id := 1 \<rparr>, default_combo \<lparr> cb_id := 2 \<rparr>],
       db_targets = [], db_cooldowns = [], db_next_target_id = 1 \<rparr>"

definition sample_input :: add_target_input where
  "sample_input =
     \<lparr> ai_combo_id = 1, ai_provider_id = ''p'', ai_account_id = None, ai_model_row_id = None,
       ai_sub_combo_id = Some 2, ai_priority_order = 0, ai_description = None,
       ai_selected_accounts = None, ai_client_profile = None \<rparr>"

lemma sample_db_edges: "(a, b) \<in> combo_edges sample_db ^^ n \<longleftrightarrow> n = 0 \<and> a = b"
  by (cases n) (auto simp: combo_edges_def sample_db_def)

lemma sample_db_acyclic: "no_short_cycle sample_db"
  by (simp add: no_short_cycle_def sample_db_edges)

theorem add_target_no_short_cycle_witness:
  "\<exists>db'. add_target sample_db sample_input = Inr (db', 1) \<and> no_short_cycle db' \<and>
     combo_edges db' = {(1, 2)}"
proof -
  let ?db = "sample_db \<lparr> db_targets := [new_target sample_db sample_input], db_next_target_id := 2 \<rparr>"
  have sub: "validate_sub_combo_target sample_db 1 2 = None"
    by (simp add: validate_sub_combo_target_def check_sub_combo_cycle_def combo_in_chain_iff sample_db_edges)
      (simp add: find_combo_def sample_db_def)
  have exists: "validate_combo_exists sample_db 1 = None"
    by (simp add: validate_combo_exists_def find_combo_def sample_db_def)
  have dup: "check_duplicate_target sample_db i = None" for i
    by (simp add: check_duplicate_target_def sample_db_def)
  have "validate_add_target sample_db sample_input = None"
    using exists dup by (simp add: validate_add_target_def validate_account_def sample_input_def sub)
  moreover have "insert_violation_of sample_db sample_input = None"
    by (simp add: insert_violation_of_def find_provider_def sample_provider_def sample_db_def sample_input_def)
  ultimately have add: "add_target sample_db sample_input = Inr (?db, 1)"
    by (simp add: add_target_def sample_db_def)
  have "combo_edges ?db = {(1, 2)}" by (auto simp: combo_edges_def new_target_def sample_input_def)
  with add add_target_no_short_cycle [OF sample_db_acyclic add] show ?thesis by blast
qed

definition two_targets_db :: database where
  "two_targets_db = sample_db \<lparr> db_targets :=
     [\<lparr> tg_target = default_combo_target \<lparr> ct_id := 7, ct_combo_id := 1 \<rparr>, tg_upstream_model_id = None \<rparr>,
      \<lparr> tg_target = default_combo_target \<lparr> ct_id := 8, ct_combo_id := 1 \<rparr>, tg_upstream_model_id = None \<rparr>] \<rparr>"

theorem reorder_targets_order_witness:
  "\<exists>db'. reorder_targets two_targets_db 1 [8, 7] = Inr db' \<and>
     map ct_id (sort_by cmp_target_order (combo_rows db' 1)) = [8, 7]"
proof -
  have "validate_reorder_target_ids two_targets_db 1 [8, 7] = None"
    by (simp add: validate_reorder_target_ids_def combo_target_ids_def two_targets_db_def)
  then obtain db' where ok: "reorder_targets two_targets_db 1 [8, 7] = Inr db'"
    by (simp add: reorder_targets_def)
  have "distinct (map (ct_id \<circ> tg_target) (db_targets two_targets_db))" by (simp add: two_targets_db_def)
  from reorder_targets_order [OF this ok] ok show ?thesis by (intro exI [of _ db'] conjI)
qed

end
