(* ===== verification/Combo_Resolve.thy ===== *)
theory Combo_Resolve
  imports Combo_Store
begin

text \<open>
  Resolution of nested combos (openproxy-db/src/combos/resolve.rs): flattening a combo into its leaf
  targets, the effective context window and output limit, and the expansion of targets over the
  accounts of their provider. The recursion over sub-combos carries the list of visited combos and
  a depth; both walks have the shape of the locale \<open>combo_recursion\<close>, in which the result of a walk
  is computed once and for all.
\<close>

section \<open>The recursion guard\<close>

definition depth_error :: core_error where
  "depth_error = Validation (''max sub-combo depth ('' @ show_nat MAX_SUB_COMBO_DEPTH @ '') exceeded'')"

definition cycle_error :: "combo_id \<Rightarrow> core_error" where
  "cycle_error cid = Validation (''cyclic combo detected at id '' @ show_int cid)"

definition validate_recursion_depth :: "combo_id \<Rightarrow> combo_id list \<Rightarrow> nat \<Rightarrow> core_error + combo_id list" where
  "validate_recursion_depth cid visited depth =
     (if depth > MAX_SUB_COMBO_DEPTH then Inl depth_error
      else if cid \<in> set visited then Inl (cycle_error cid)
      else Inr (visited @ [cid]))"

lemma validate_recursion_depth_le: "validate_recursion_depth cid v d = Inr v' \<Longrightarrow> d \<le> MAX_SUB_COMBO_DEPTH"
  by (simp add: validate_recursion_depth_def split: if_splits)

section \<open>Flattening\<close>

definition inherit_from :: "combo_target \<Rightarrow> combo_target \<Rightarrow> combo_target" where
  "inherit_from t st =
     (let parent_target_id = (case ct_inherited_target_id t of Some i \<Rightarrow> i | None \<Rightarrow> ct_id t);
          st1 = (case ct_thinking_effort t of Some e \<Rightarrow> st \<lparr> ct_thinking_effort := Some e \<rparr> | None \<Rightarrow> st)
      in if ct_inherited_target_id st1 = None then st1 \<lparr> ct_inherited_target_id := Some parent_target_id \<rparr>
         else st1)"

definition walk_measure :: "nat \<Rightarrow> nat" where
  "walk_measure d = 2 * (Suc MAX_SUB_COMBO_DEPTH - d)"

definition rows_measure :: "nat \<Rightarrow> nat" where
  "rows_measure d = max 1 (walk_measure d - 1)"

lemma walk_measures:
  "validate_recursion_depth cid v d = Inr v' \<Longrightarrow> rows_measure d < walk_measure d"
  "walk_measure (Suc d) < rows_measure d"
  by (auto dest!: validate_recursion_depth_le simp: walk_measure_def rows_measure_def MAX_SUB_COMBO_DEPTH_def)

function (sequential)
  resolve_combo_to_targets ::
    "int \<Rightarrow> database \<Rightarrow> combo_id \<Rightarrow> combo_id list \<Rightarrow> nat \<Rightarrow> core_error + combo_target list \<times> combo_id list"
and resolve_each_target ::
    "int \<Rightarrow> database \<Rightarrow> combo_target list \<Rightarrow> combo_id list \<Rightarrow> nat \<Rightarrow> core_error + combo_target list \<times> combo_id list"
where
  "resolve_combo_to_targets now db cid visited depth =
     (case validate_recursion_depth cid visited depth of
        Inl e \<Rightarrow> Inl e
      | Inr visited1 \<Rightarrow>
          (case resolve_each_target now db (list_targets now db cid) visited1 depth of
             Inl e \<Rightarrow> Inl e
           | Inr (flat, visited2) \<Rightarrow> Inr (flat, butlast visited2)))"
| "resolve_each_target now db [] visited depth = Inr ([], visited)"
| "resolve_each_target now db (t # ts) visited depth =
     (case (case ct_sub_combo_id t of
              Some sub_id \<Rightarrow>
                (case resolve_combo_to_targets now db sub_id visited (Suc depth) of
                   Inl e \<Rightarrow> Inl e
                 | Inr (sub, visited1) \<Rightarrow> Inr (map (inherit_from t) sub, visited1))
            | None \<Rightarrow> Inr ([t], visited)) of
        Inl e \<Rightarrow> Inl e
      | Inr (flat, visited1) \<Rightarrow>
          (case resolve_each_target now db ts visited1 depth of
             Inl e \<Rightarrow> Inl e
           | Inr (rest, visited2) \<Rightarrow> Inr (flat @ rest, visited2)))"
  by pat_completeness auto

text \<open>The depth grows at every step into a sub-combo and the guard stops it at the limit.\<close>
termination
  by (relation "measures
      [\<lambda>x. case x of Inl (_, _, _, _, d) \<Rightarrow> walk_measure d | Inr (_, _, _, _, d) \<Rightarrow> rows_measure d,
       \<lambda>x. case x of Inl _ \<Rightarrow> 0 | Inr (_, _, ts, _, _) \<Rightarrow> length ts]")
    (auto simp: walk_measures)

declare resolve_combo_to_targets.simps [simp del]

section \<open>Effective limits\<close>

text \<open>
  The context window and the output limit of a combo are computed by two copies of the same code,
  which differ in the columns they read and in the table they infer from. Both are
  \<open>compute_effective_limit\<close>: \<open>ov\<close> reads the override of a combo, \<open>col\<close> the column of a model, and
  \<open>infer\<close> is the table.
\<close>

definition find_substring_match :: "string \<Rightarrow> (string \<times> 'v) list \<Rightarrow> 'v option" where
  "find_substring_match haystack table = map_option snd (find (\<lambda>(k, v). str_contains haystack k) table)"

text \<open>Lower-casing is that of ASCII: the keys and the model ids that match them are ASCII.\<close>

definition infer_context_length :: "string \<Rightarrow> int option" where
  "infer_context_length model_id =
     find_substring_match (to_ascii_lowercase model_id)
       [(''claude-3'', 200000), (''claude-sonnet-4'', 200000), (''claude-opus-4'', 200000),
        (''claude-opus-3'', 200000), (''gemini-2.5-pro'', 1048576), (''gemini-2.5-flash'', 1048576),
        (''gemini-2'', 1048576), (''gemini-1.5-pro'', 2097152), (''gemini-1.5-flash'', 1048576),
        (''gpt-4o'', 128000), (''gpt-4-turbo'', 128000), (''gpt-4-32k'', 32000), (''o1'', 200000),
        (''o3'', 200000), (''deepseek-chat'', 64000), (''deepseek-reasoner'', 64000),
        (''llama-3.1-405b'', 131072), (''llama-3.1-70b'', 131072), (''llama-3.1-8b'', 131072),
        (''llama-3.3-70b'', 131072), (''qwen2.5'', 32768), (''qwen-max'', 32768),
        (''mistral-large'', 128000)]"

definition infer_max_output_tokens :: "string \<Rightarrow> int option" where
  "infer_max_output_tokens model_id =
     find_substring_match (to_ascii_lowercase model_id)
       [(''claude-3'', 8192), (''claude-sonnet-4'', 8192), (''claude-opus-4'', 32000),
        (''gpt-4o'', 16384), (''o1'', 100000), (''o3'', 100000), (''gemini-2.5'', 65536),
        (''deepseek'', 32768)]"

definition leaf_limit :: "database \<Rightarrow> (model_row \<Rightarrow> int option) \<Rightarrow> (string \<Rightarrow> int option) \<Rightarrow> combo_target \<Rightarrow> int option" where
  "leaf_limit db col infer t =
     (case ct_model_row_id t of
        None \<Rightarrow> None
      | Some m \<Rightarrow>
          (let declared = (case find_model db m of None \<Rightarrow> None | Some mo \<Rightarrow> col mo);
               model_id = (case find_model db m of None \<Rightarrow> [] | Some mo \<Rightarrow> mo_model_id mo)
           in case declared of
                Some c \<Rightarrow> if c > 0 then Some c else if model_id = [] then None else infer model_id
              | None \<Rightarrow> if model_id = [] then None else infer model_id))"

definition limit_rows :: "database \<Rightarrow> combo_id \<Rightarrow> combo_target list" where
  "limit_rows db cid =
     filter (\<lambda>t. ct_combo_id t = cid \<and> ct_active t \<and>
         (ct_sub_combo_id t \<noteq> None \<or>
          (provider_is_active db (ct_provider_id t) \<and>
           (case ct_model_row_id t of None \<Rightarrow> False | Some m \<Rightarrow> model_is_active db m))) \<and>
         \<not> (ct_model_row_id t = None \<and> ct_sub_combo_id t = None))
       (map tg_target (db_targets db))"

definition min_positive :: "int option \<Rightarrow> int option \<Rightarrow> int option" where
  "min_positive x acc =
     (case x of
        None \<Rightarrow> acc
      | Some v \<Rightarrow> (if v > 0 then (case acc of None \<Rightarrow> Some v | Some m \<Rightarrow> Some (min m v)) else acc))"

definition missing_combo_error :: "string \<Rightarrow> combo_id \<Rightarrow> core_error" where
  "missing_combo_error what cid =
     Database (''get '' @ what @ '' for combo '' @ show_int cid @ '': Query returned no rows'')
       (Some ''Query returned no rows'')"

function (sequential)
  compute_effective_limit ::
    "string \<Rightarrow> (combo \<Rightarrow> int option) \<Rightarrow> (model_row \<Rightarrow> int option) \<Rightarrow> (string \<Rightarrow> int option) \<Rightarrow> database \<Rightarrow>
     combo_id \<Rightarrow> combo_id list \<Rightarrow> nat \<Rightarrow> core_error + int option \<times> combo_id list"
and aggregate_limits ::
    "string \<Rightarrow> (combo \<Rightarrow> int option) \<Rightarrow> (model_row \<Rightarrow> int option) \<Rightarrow> (string \<Rightarrow> int option) \<Rightarrow> database \<Rightarrow>
     combo_target list \<Rightarrow> combo_id list \<Rightarrow> nat \<Rightarrow> core_error + int option \<times> combo_id list"
where
  "compute_effective_limit what ov col infer db cid visited depth =
     (case validate_recursion_depth cid visited depth of
        Inl e \<Rightarrow> Inl e
      | Inr visited1 \<Rightarrow>
          (case find_combo db cid of
             None \<Rightarrow> Inl (missing_combo_error what cid)
           | Some c \<Rightarrow>
               (case aggregate_limits what ov col infer db (limit_rows db cid) visited1 depth of
                  Inl e \<Rightarrow> Inl e
                | Inr (natural, visited2) \<Rightarrow>
                    Inr (case ov c of Some o' \<Rightarrow> Some o' | None \<Rightarrow> natural, butlast visited2))))"
| "aggregate_limits what ov col infer db [] visited depth = Inr (None, visited)"
| "aggregate_limits what ov col infer db (t # ts) visited depth =
     (case (case ct_sub_combo_id t of
              Some sub_id \<Rightarrow> compute_effective_limit what ov col infer db sub_id visited (Suc depth)
            | None \<Rightarrow> Inr (leaf_limit db col infer t, visited)) of
        Inl e \<Rightarrow> Inl e
      | Inr (cw, visited1) \<Rightarrow>
          (case aggregate_limits what ov col infer db ts visited1 depth of
             Inl e \<Rightarrow> Inl e
           | Inr (rest, visited2) \<Rightarrow> Inr (min_positive cw rest, visited2)))"
  by pat_completeness auto
termination
  by (relation "measures
      [\<lambda>x. case x of Inl (_, _, _, _, _, _, _, d) \<Rightarrow> walk_measure d | Inr (_, _, _, _, _, _, _, d) \<Rightarrow> rows_measure d,
       \<lambda>x. case x of Inl _ \<Rightarrow> 0 | Inr (_, _, _, _, _, ts, _, _) \<Rightarrow> length ts]")
    (auto simp: walk_measures)

declare compute_effective_limit.simps [simp del]

definition compute_effective_context_window :: "database \<Rightarrow> combo_id \<Rightarrow> core_error + int option" where
  "compute_effective_context_window db cid =
     map_sum id fst (compute_effective_limit ''context_window'' cb_context_window mo_context_length
       infer_context_length db cid [] 0)"

definition compute_effective_max_output_tokens :: "database \<Rightarrow> combo_id \<Rightarrow> core_error + int option" where
  "compute_effective_max_output_tokens db cid =
     map_sum id fst (compute_effective_limit ''max_output_tokens'' cb_max_output_tokens mo_max_output_tokens
       infer_max_output_tokens db cid [] 0)"

section \<open>What a walk computes\<close>

text \<open>
  The contract of a walk over sub-combos: the guard, an optional check of the combo, the rows in
  order, and a combination of what the rows give. \<open>spec\<close> is the same computation on the tree of
  combos, without visited list and without errors.
\<close>

locale combo_recursion =
  fixes rows :: "combo_id \<Rightarrow> combo_target list"
    and fault :: "combo_id \<Rightarrow> core_error option"
    and leaf :: "combo_target \<Rightarrow> 'a"
    and combine :: "combo_target \<Rightarrow> 'a \<Rightarrow> 'b \<Rightarrow> 'b"
    and start :: 'b
    and finish :: "combo_id \<Rightarrow> 'b \<Rightarrow> 'a"
    and walk :: "combo_id \<Rightarrow> combo_id list \<Rightarrow> nat \<Rightarrow> core_error + 'a \<times> combo_id list"
    and walk_rows :: "combo_target list \<Rightarrow> combo_id list \<Rightarrow> nat \<Rightarrow> core_error + 'b \<times> combo_id list"
  assumes walk_guarded: "validate_recursion_depth c v d = Inl e \<Longrightarrow> walk c v d = Inl e"
    and walk_fault: "validate_recursion_depth c v d = Inr v' \<Longrightarrow> fault c = Some e \<Longrightarrow> walk c v d = Inl e"
    and walk_run: "validate_recursion_depth c v d = Inr v' \<Longrightarrow> fault c = None \<Longrightarrow>
        walk c v d = map_sum id (\<lambda>(b, w). (finish c b, butlast w)) (walk_rows (rows c) v' d)"
    and walk_rows_Nil: "walk_rows [] v d = Inr (start, v)"
    and walk_rows_leaf: "ct_sub_combo_id t = None \<Longrightarrow>
        walk_rows (t # ts) v d = map_sum id (\<lambda>(b, w). (combine t (leaf t) b, w)) (walk_rows ts v d)"
    and walk_rows_sub: "ct_sub_combo_id t = Some s \<Longrightarrow> walk s v (Suc d) = Inr (a, w) \<Longrightarrow>
        walk_rows (t # ts) v d = map_sum id (\<lambda>(b, w). (combine t a b, w)) (walk_rows ts w d)"
    and walk_rows_sub_error: "ct_sub_combo_id t = Some s \<Longrightarrow> walk s v (Suc d) = Inl e \<Longrightarrow>
        walk_rows (t # ts) v d = Inl e"
begin

definition edges :: "(combo_id \<times> combo_id) set" where
  "edges = {(a, b). \<exists>t \<in> set (rows a). ct_sub_combo_id t = Some b}"

definition too_deep :: "nat \<Rightarrow> combo_id \<Rightarrow> bool" where
  "too_deep n c \<longleftrightarrow> (\<exists>b. (c, b) \<in> edges ^^ n)"

primrec spec :: "nat \<Rightarrow> combo_id \<Rightarrow> 'a" where
  "spec 0 c = finish c start"
| "spec (Suc n) c =
     finish c (foldr (\<lambda>t. combine t (case ct_sub_combo_id t of None \<Rightarrow> leaf t | Some s \<Rightarrow> spec n s)) (rows c) start)"

definition spec_rows :: "nat \<Rightarrow> combo_target list \<Rightarrow> 'b" where
  "spec_rows n ts =
     foldr (\<lambda>t. combine t (case ct_sub_combo_id t of None \<Rightarrow> leaf t | Some s \<Rightarrow> spec n s)) ts start"

definition ancestors_ok :: "combo_id list \<Rightarrow> combo_id \<Rightarrow> bool" where
  "ancestors_ok v c \<longleftrightarrow> (\<forall>a \<in> set v. \<exists>k. 0 < k \<and> k \<le> length v \<and> (a, c) \<in> edges ^^ k)"

lemma ancestors_step:
  assumes "ancestors_ok v c" and "(c, s) \<in> edges"
  shows "ancestors_ok (v @ [c]) s"
  unfolding ancestors_ok_def
proof
  fix a assume "a \<in> set (v @ [c])"
  then consider "a \<in> set v" | "a = c" by auto
  then show "\<exists>k. 0 < k \<and> k \<le> length (v @ [c]) \<and> (a, s) \<in> edges ^^ k"
  proof cases
    case 1
    then obtain k where "0 < k" "k \<le> length v" "(a, c) \<in> edges ^^ k" using assms(1) by (auto simp: ancestors_ok_def)
    then have "0 < Suc k \<and> Suc k \<le> length (v @ [c]) \<and> (a, s) \<in> edges ^^ Suc k" using assms(2) by auto
    then show ?thesis by blast
  next
    case 2
    then have "0 < Suc 0 \<and> Suc 0 \<le> length (v @ [c]) \<and> (a, s) \<in> edges ^^ Suc 0" using assms(2) by simp
    then show ?thesis by blast
  qed
qed

lemma too_deep_Suc:
  "too_deep (Suc n) c \<longleftrightarrow> (\<exists>t \<in> set (rows c). \<exists>s. ct_sub_combo_id t = Some s \<and> too_deep n s)"
proof -
  have "too_deep (Suc n) c \<longleftrightarrow> (\<exists>s b. (c, s) \<in> edges \<and> (s, b) \<in> edges ^^ n)"
    unfolding too_deep_def by (meson relpow_Suc_D2 relpow_Suc_I2)
  then show ?thesis by (auto simp: too_deep_def edges_def)
qed

text \<open>
  On a graph without short cycles a walk fails exactly when the nesting is too deep, always with
  the same error, and otherwise gives the value of the tree and leaves the visited list as it was.
\<close>

lemma walk_total:
  assumes acyclic: "\<And>n a. 0 < n \<Longrightarrow> n \<le> Suc MAX_SUB_COMBO_DEPTH \<Longrightarrow> (a, a) \<notin> edges ^^ n"
  shows "ancestors_ok v c \<Longrightarrow> length v \<le> Suc d \<Longrightarrow> n = Suc MAX_SUB_COMBO_DEPTH - d \<Longrightarrow>
     (\<And>a. (c, a) \<in> edges\<^sup>* \<Longrightarrow> fault a = None) \<Longrightarrow>
     walk c v d = (if too_deep n c then Inl depth_error else Inr (spec n c, v))"
proof (induction n arbitrary: c v d)
  case 0
  then have "validate_recursion_depth c v d = Inl depth_error"
    by (simp add: validate_recursion_depth_def)
  then show ?case by (simp add: walk_guarded too_deep_def)
next
  case (Suc n)
  then have d: "d \<le> MAX_SUB_COMBO_DEPTH" and n: "n = Suc MAX_SUB_COMBO_DEPTH - Suc d" by auto
  have "c \<notin> set v"
  proof
    assume "c \<in> set v"
    then obtain k where "0 < k" "k \<le> length v" "(c, c) \<in> edges ^^ k" using Suc.prems(1) by (auto simp: ancestors_ok_def)
    then show False using acyclic [of k c] Suc.prems(2) d by simp
  qed
  with d have guard: "validate_recursion_depth c v d = Inr (v @ [c])" by (simp add: validate_recursion_depth_def)
  have rows: "walk_rows ts (v @ [c]) d =
      (if \<exists>t \<in> set ts. \<exists>s. ct_sub_combo_id t = Some s \<and> too_deep n s then Inl depth_error
       else Inr (spec_rows n ts, v @ [c]))" if "set ts \<subseteq> set (rows c)" for ts
    using that
  proof (induction ts)
    case (Cons t ts)
    show ?case
    proof (cases "ct_sub_combo_id t")
      case None
      then show ?thesis using Cons by (simp add: walk_rows_leaf spec_rows_def)
    next
      case (Some s)
      then have "(c, s) \<in> edges" using Cons.prems by (auto simp: edges_def)
      then have "walk s (v @ [c]) (Suc d) = (if too_deep n s then Inl depth_error else Inr (spec n s, v @ [c]))"
        using Suc.prems(2,4) n
        by (intro Suc.IH ancestors_step [OF Suc.prems(1)]) (auto intro: converse_rtrancl_into_rtrancl)
      then show ?thesis
        using Some Cons by (cases "too_deep n s") (auto simp: walk_rows_sub walk_rows_sub_error spec_rows_def)
    qed
  qed (simp add: walk_rows_Nil spec_rows_def)
  show ?case
    using walk_run [OF guard Suc.prems(4) [OF rtrancl_refl]] rows [of "rows c"]
    by (auto simp: too_deep_Suc spec_rows_def)
qed

end

interpretation flatten: combo_recursion
  "list_targets now db" "\<lambda>_. None" "\<lambda>t. [t]"
  "\<lambda>t a b. (case ct_sub_combo_id t of None \<Rightarrow> a | Some _ \<Rightarrow> map (inherit_from t) a) @ b" "[]" "\<lambda>_ b. b"
  "resolve_combo_to_targets now db" "resolve_each_target now db" for now db
  by unfold_locales
    (auto simp: resolve_combo_to_targets.simps split: sum.splits prod.splits)

definition limit_finish :: "(combo \<Rightarrow> int option) \<Rightarrow> database \<Rightarrow> combo_id \<Rightarrow> int option \<Rightarrow> int option" where
  "limit_finish ov db c natural =
     (case find_combo db c of
        None \<Rightarrow> natural
      | Some cb \<Rightarrow> (case ov cb of Some o' \<Rightarrow> Some o' | None \<Rightarrow> natural))"

interpretation limits: combo_recursion
  "limit_rows db" "\<lambda>c. if find_combo db c = None then Some (missing_combo_error what c) else None"
  "leaf_limit db col infer" "\<lambda>t. min_positive" None "limit_finish ov db"
  "compute_effective_limit what ov col infer db" "aggregate_limits what ov col infer db"
  for what ov col infer db
  by unfold_locales
    (auto simp: compute_effective_limit.simps limit_finish_def split: sum.splits prod.splits option.splits if_splits)

section \<open>Flattening is exact\<close>

text \<open>
  The reference: the listed targets of a combo in order, with every sub-combo replaced by its own
  leaves. A leaf is found along the path of sub-combo targets above it, outermost first; the last
  target of the path is the one it inherits from, and the outermost reasoning effort wins.
\<close>

primrec leaf_paths :: "int \<Rightarrow> database \<Rightarrow> nat \<Rightarrow> combo_id \<Rightarrow> (combo_target list \<times> combo_target) list" where
  "leaf_paths now db 0 cid = []"
| "leaf_paths now db (Suc n) cid =
     concat (map (\<lambda>t. case ct_sub_combo_id t of
                        None \<Rightarrow> [([], t)]
                      | Some s \<Rightarrow> map (\<lambda>(p, leaf). (t # p, leaf)) (leaf_paths now db n s)) (list_targets now db cid))"

definition leaf_at :: "combo_target list \<times> combo_target \<Rightarrow> combo_target" where
  "leaf_at pl =
     (case pl of (path, leaf) \<Rightarrow>
        leaf \<lparr> ct_thinking_effort :=
                 (case List.map_filter ct_thinking_effort path of e # _ \<Rightarrow> Some e | [] \<Rightarrow> ct_thinking_effort leaf),
               ct_inherited_target_id := (if path = [] then None else Some (ct_id (last path))) \<rparr>)"

definition combo_leaves :: "int \<Rightarrow> database \<Rightarrow> nat \<Rightarrow> combo_id \<Rightarrow> combo_target list" where
  "combo_leaves now db n cid = map leaf_at (leaf_paths now db n cid)"

definition listed_edges :: "int \<Rightarrow> database \<Rightarrow> (combo_id \<times> combo_id) set" where
  "listed_edges now db = {(a, b). \<exists>t \<in> set (list_targets now db a). ct_sub_combo_id t = Some b}"

lemma listed_edges_eq: "flatten.edges now db = listed_edges now db"
  by (simp add: flatten.edges_def listed_edges_def)

lemma list_targets_row:
  assumes "t \<in> set (list_targets now db cid)"
  obtains r where "r \<in> set (db_targets db)" "ct_combo_id (tg_target r) = cid" "t = row_to_target db (tg_target r)"
    "target_listed now db (tg_target r)"
  using assms by (auto simp: list_targets_def)

lemma row_to_target_simps [simp]:
  "ct_sub_combo_id (row_to_target db t) = ct_sub_combo_id t"
  "ct_inherited_target_id (row_to_target db t) = None"
  "ct_id (row_to_target db t) = ct_id t"
  "ct_combo_id (row_to_target db t) = ct_combo_id t"
  by (simp_all add: row_to_target_def)

lemma inherit_leaf_at:
  assumes "ct_inherited_target_id t = None"
  shows "inherit_from t (leaf_at (p, leaf)) = leaf_at (t # p, leaf)"
  using assms
  by (cases "ct_thinking_effort t") (auto simp: inherit_from_def leaf_at_def Let_def map_filter_simps)

lemma listed_not_inherited: "t \<in> set (list_targets now db cid) \<Longrightarrow> ct_inherited_target_id t = None"
  by (auto elim: list_targets_row)

lemma combo_leaves_simps [simp]:
  "combo_leaves now db 0 cid = []"
  "combo_leaves now db (Suc n) cid =
     concat (map (\<lambda>t. case ct_sub_combo_id t of
                        None \<Rightarrow> [t]
                      | Some s \<Rightarrow> map (inherit_from t) (combo_leaves now db n s)) (list_targets now db cid))"
proof -
  have one: "map leaf_at (case ct_sub_combo_id t of None \<Rightarrow> [([], t)]
        | Some s \<Rightarrow> map (\<lambda>(p, leaf). (t # p, leaf)) (leaf_paths now db n s)) =
      (case ct_sub_combo_id t of None \<Rightarrow> [t]
        | Some s \<Rightarrow> map (inherit_from t) (map leaf_at (leaf_paths now db n s)))"
    if "t \<in> set (list_targets now db cid)" for t
  proof -
    have none: "ct_inherited_target_id t = None" using that by (rule listed_not_inherited)
    have "leaf_at ([], t) = t" using none by (cases t) (simp add: leaf_at_def map_filter_simps)
    moreover have "leaf_at \<circ> (\<lambda>(p, leaf). (t # p, leaf)) = inherit_from t \<circ> leaf_at"
      using inherit_leaf_at [OF none] by (auto simp: fun_eq_iff)
    ultimately show ?thesis by (simp split: option.split)
  qed
  show "combo_leaves now db (Suc n) cid = concat (map (\<lambda>t. case ct_sub_combo_id t of
      None \<Rightarrow> [t] | Some s \<Rightarrow> map (inherit_from t) (combo_leaves now db n s)) (list_targets now db cid))"
    unfolding combo_leaves_def leaf_paths.simps map_concat map_map
    by (intro arg_cong [where f = concat] map_cong refl) (simp add: one split: option.split)
qed (simp add: combo_leaves_def)

lemma listed_edges_subset: "listed_edges now db \<subseteq> combo_edges db"
  by (auto simp: listed_edges_def combo_edges_def elim!: list_targets_row)

lemma relpow_subset: "(E :: ('a \<times> 'a) set) \<subseteq> F \<Longrightarrow> E ^^ n \<subseteq> F ^^ n"
  by (induction n) (simp_all add: relcomp_mono)

lemma acyclic_sub:
  assumes "no_short_cycle db" and "E \<subseteq> combo_edges db" and "0 < n" and "n \<le> Suc MAX_SUB_COMBO_DEPTH"
  shows "(a, a) \<notin> E ^^ n"
  using assms relpow_subset [OF assms(2), of n] by (auto simp: no_short_cycle_def)

lemma flatten_spec_eq: "flatten.spec now db n cid = combo_leaves now db n cid"
proof (induction n arbitrary: cid)
  case (Suc n)
  have "foldr (\<lambda>t. (@) (case ct_sub_combo_id t of
          None \<Rightarrow> (case ct_sub_combo_id t of None \<Rightarrow> [t] | Some s \<Rightarrow> combo_leaves now db n s)
        | Some _ \<Rightarrow> map (inherit_from t) (case ct_sub_combo_id t of None \<Rightarrow> [t] | Some s \<Rightarrow> combo_leaves now db n s))) ts [] =
      concat (map (\<lambda>t. case ct_sub_combo_id t of None \<Rightarrow> [t] | Some s \<Rightarrow> map (inherit_from t) (combo_leaves now db n s)) ts)" for ts
    by (induction ts) (simp_all split: option.splits)
  then show ?case by (simp add: Suc.IH cong: option.case_cong)
qed simp

text \<open>
  C15: flattening terminates and is exact. On every database whose combos have no short cycle, the
  resolution of a combo fails exactly when its listed sub-combos are nested deeper than the limit,
  with the depth error, and otherwise gives its leaves in order, each with the reasoning effort and the parent target its
  path gives it, and restores the visited list.
\<close>

theorem resolve_combo_exact:
  assumes "no_short_cycle db"
  shows "resolve_combo_to_targets now db cid [] 0 =
     (if \<exists>b. (cid, b) \<in> listed_edges now db ^^ Suc MAX_SUB_COMBO_DEPTH then Inl depth_error
      else Inr (combo_leaves now db (Suc MAX_SUB_COMBO_DEPTH) cid, []))"
proof -
  have "resolve_combo_to_targets now db cid [] 0 =
      (if flatten.too_deep now db (Suc MAX_SUB_COMBO_DEPTH) cid then Inl depth_error
       else Inr (flatten.spec now db (Suc MAX_SUB_COMBO_DEPTH) cid, []))"
    using acyclic_sub [OF assms listed_edges_subset]
    by (intro flatten.walk_total) (simp_all add: listed_edges_eq flatten.ancestors_ok_def)
  then show ?thesis by (simp only: flatten.too_deep_def listed_edges_eq flatten_spec_eq)
qed

lemma combo_leaves_leaf: "t \<in> set (combo_leaves now db n cid) \<Longrightarrow> ct_sub_combo_id t = None"
proof (induction n arbitrary: cid t)
  case (Suc n)
  have [simp]: "ct_sub_combo_id (inherit_from p st) = ct_sub_combo_id st" for p st
    by (simp add: inherit_from_def Let_def split: option.splits)
  from Suc.prems obtain r where "t \<in> set (case ct_sub_combo_id r of None \<Rightarrow> [r]
      | Some s \<Rightarrow> map (inherit_from r) (combo_leaves now db n s))" by auto
  then show ?case using Suc.IH by (auto split: option.splits)
qed simp

section \<open>Effective limits are minima\<close>

lemma foldr_min_positive:
  "foldr (\<lambda>t. min_positive (f t)) ts None =
     (let vs = {v. 0 < v \<and> (\<exists>t \<in> set ts. f t = Some v)} in if vs = {} then None else Some (Min vs))"
proof (induction ts)
  case (Cons t ts)
  let ?V = "\<lambda>ts. {v :: int. 0 < v \<and> (\<exists>t \<in> set ts. f t = Some v)}"
  have fin: "finite (?V ts)" by (rule finite_subset [of _ "the ` f ` set ts"]) (auto simp: image_iff, force)
  show ?case
  proof (cases "\<exists>v > 0. f t = Some v")
    case True
    then obtain v where v: "f t = Some v" "0 < v" by blast
    then have ins: "?V (t # ts) = insert v (?V ts)" by auto
    define V where "V = ?V ts"
    have "foldr (\<lambda>t. min_positive (f t)) ts None = (if V = {} then None else Some (Min V))"
      using Cons by (simp add: V_def Let_def)
    then have "foldr (\<lambda>t. min_positive (f t)) (t # ts) None = Some (Min (insert v V))"
      using fin v unfolding V_def [symmetric] by (simp add: min_positive_def min.commute)
    then show ?thesis using ins by (simp only: V_def Let_def) simp
  next
    case False
    then have "?V (t # ts) = ?V ts" by auto
    moreover have "min_positive (f t) acc = acc" for acc using False by (auto simp: min_positive_def split: option.splits)
    ultimately show ?thesis using Cons by (simp add: Let_def)
  qed
qed simp

text \<open>
  The reference: an override is forced; otherwise the limit is the smallest positive limit among
  the rows, where a sub-combo counts with its own effective limit.
\<close>

primrec limit_tree ::
    "(combo \<Rightarrow> int option) \<Rightarrow> (model_row \<Rightarrow> int option) \<Rightarrow> (string \<Rightarrow> int option) \<Rightarrow> database \<Rightarrow> nat \<Rightarrow> combo_id \<Rightarrow> int option" where
  "limit_tree ov col infer db 0 c = limit_finish ov db c None"
| "limit_tree ov col infer db (Suc n) c =
     limit_finish ov db c
       (let vs = {v. 0 < v \<and> (\<exists>t \<in> set (limit_rows db c).
              (case ct_sub_combo_id t of None \<Rightarrow> leaf_limit db col infer t | Some s \<Rightarrow> limit_tree ov col infer db n s) = Some v)}
        in if vs = {} then None else Some (Min vs))"

definition limit_edges :: "database \<Rightarrow> (combo_id \<times> combo_id) set" where
  "limit_edges db = {(a, b). \<exists>t \<in> set (limit_rows db a). ct_sub_combo_id t = Some b}"

lemma limits_edges_eq: "limits.edges db = limit_edges db"
  by (simp add: limits.edges_def limit_edges_def)

lemma limit_edges_subset: "limit_edges db \<subseteq> combo_edges db"
  by (auto simp: limit_edges_def limit_rows_def combo_edges_def)

lemma limits_spec_eq: "limits.spec db col infer ov n c = limit_tree ov col infer db n c"
proof -
  have "limits.spec db col infer ov n = limit_tree ov col infer db n"
  proof (induction n)
    case (Suc n)
    show ?case by (rule ext) (unfold limits.spec.simps limit_tree.simps foldr_min_positive Suc.IH, rule refl)
  qed (simp add: fun_eq_iff)
  then show ?thesis by simp
qed

definition sub_combos_exist :: "database \<Rightarrow> bool" where
  "sub_combos_exist db \<longleftrightarrow> (\<forall>(a, b) \<in> combo_edges db. find_combo db b \<noteq> None)"

lemma reachable_exists:
  assumes "sub_combos_exist db" and "find_combo db c \<noteq> None" and "(c, a) \<in> (limit_edges db)\<^sup>*"
  shows "find_combo db a \<noteq> None"
  using assms(3,2)
proof (induction rule: rtrancl_induct)
  case (step y z)
  then have "(y, z) \<in> combo_edges db" using limit_edges_subset by blast
  then show ?case using assms(1) by (auto simp: sub_combos_exist_def)
qed

lemma effective_limit_exact:
  assumes "no_short_cycle db" and "sub_combos_exist db" and "find_combo db cid \<noteq> None"
  shows "compute_effective_limit what ov col infer db cid [] 0 =
     (if \<exists>b. (cid, b) \<in> limit_edges db ^^ Suc MAX_SUB_COMBO_DEPTH then Inl depth_error
      else Inr (limit_tree ov col infer db (Suc MAX_SUB_COMBO_DEPTH) cid, []))"
proof -
  have "compute_effective_limit what ov col infer db cid [] 0 =
      (if limits.too_deep db (Suc MAX_SUB_COMBO_DEPTH) cid then Inl depth_error
       else Inr (limits.spec db col infer ov (Suc MAX_SUB_COMBO_DEPTH) cid, []))"
    using acyclic_sub [OF assms(1) limit_edges_subset] reachable_exists [OF assms(2,3)]
    by (intro limits.walk_total) (simp_all add: limits_edges_eq limits.ancestors_ok_def)
  then show ?thesis by (simp only: limits.too_deep_def limits_edges_eq limits_spec_eq)
qed

text \<open>
  the effective limits are minima. On a database without short cycles, whose sub-combos exist,
  the effective context window of a combo is its override, and without one the smallest positive
  window below it; the same holds for its output limit. The only failure is nesting beyond the limit.
\<close>

theorem effective_limits_are_minima:
  assumes "no_short_cycle db" and "sub_combos_exist db" and "find_combo db cid \<noteq> None"
    and "\<nexists>b. (cid, b) \<in> limit_edges db ^^ Suc MAX_SUB_COMBO_DEPTH"
  shows "compute_effective_context_window db cid =
       Inr (limit_tree cb_context_window mo_context_length infer_context_length db (Suc MAX_SUB_COMBO_DEPTH) cid) \<and>
     compute_effective_max_output_tokens db cid =
       Inr (limit_tree cb_max_output_tokens mo_max_output_tokens infer_max_output_tokens db (Suc MAX_SUB_COMBO_DEPTH) cid)"
  using effective_limit_exact [OF assms(1-3)] assms(4)
  by (simp add: compute_effective_context_window_def compute_effective_max_output_tokens_def)

section \<open>Expansion over accounts\<close>

definition account_free :: "int \<Rightarrow> account_row \<Rightarrow> bool" where
  "account_free now r = (case ac_rate_limited_until r of None \<Rightarrow> True | Some t \<Rightarrow> time_over now t)"

definition cmp_account_order :: "account_row \<Rightarrow> account_row \<Rightarrow> ordering" where
  "cmp_account_order a b = then_with (cmp_int (ac_priority a) (ac_priority b)) (cmp_int (ac_id a) (ac_id b))"

definition account_rows_by_health :: "int \<Rightarrow> database \<Rightarrow> string \<Rightarrow> health_status \<Rightarrow> bool \<Rightarrow> account_row list" where
  "account_rows_by_health now db provider_id hs check_rate_limit =
     sort_by cmp_account_order
       (filter (\<lambda>r. ac_provider_id r = provider_id \<and> ac_active r \<and> ac_health_status r = hs \<and>
          (check_rate_limit \<longrightarrow> account_free now r)) (db_accounts db))"

definition query_accounts_by_health :: "int \<Rightarrow> database \<Rightarrow> string \<Rightarrow> health_status \<Rightarrow> bool \<Rightarrow> account_id list" where
  "query_accounts_by_health now db provider_id hs check_rate_limit =
     map ac_id (account_rows_by_health now db provider_id hs check_rate_limit)"

definition accounts_of_tier :: "int \<Rightarrow> database \<Rightarrow> string \<Rightarrow> health_status \<Rightarrow> account_id list" where
  "accounts_of_tier now db provider_id hs =
     (let free = query_accounts_by_health now db provider_id hs True
      in if free = [] then query_accounts_by_health now db provider_id hs False else free)"

definition fetch_accounts_by_health_priority :: "int \<Rightarrow> database \<Rightarrow> string \<Rightarrow> account_id list" where
  "fetch_accounts_by_health_priority now db provider_id =
     accounts_of_tier now db provider_id HsHealthy @
     accounts_of_tier now db provider_id HsDegraded @
     accounts_of_tier now db provider_id HsUnhealthy"

definition expand_single_target_rotation :: "int \<Rightarrow> database \<Rightarrow> combo_target \<Rightarrow> combo_target list" where
  "expand_single_target_rotation now db t =
     (if ct_sub_combo_id t \<noteq> None then [t]
      else
        (case ct_account_id t of
           Some aid \<Rightarrow>
             (if (case find_account db aid of None \<Rightarrow> True | Some r \<Rightarrow> ac_active r) then [t] else [])
         | None \<Rightarrow>
             (let prioritized = fetch_accounts_by_health_priority now db (ct_provider_id t);
                  candidates = (case ct_selected_accounts t of
                                  Some allowed \<Rightarrow>
                                    (if allowed = [] then [] else filter (\<lambda>i. i \<in> set allowed) prioritized)
                                | None \<Rightarrow> prioritized)
              in if candidates = [] then
                   (if ct_selected_accounts t \<noteq> None then []
                    else if list_ex (\<lambda>r. ac_provider_id r = ct_provider_id t) (db_accounts db) then []
                    else [t])
                 else map (\<lambda>i. t \<lparr> ct_account_id := Some i \<rparr>) candidates)))"

definition expand_account_rotation :: "int \<Rightarrow> database \<Rightarrow> combo_target list \<Rightarrow> combo_target list" where
  "expand_account_rotation now db ts = concat (map (expand_single_target_rotation now db) ts)"

lemma find_unique_key:
  assumes "distinct (map key xs)" and "x \<in> set xs"
  shows "find (\<lambda>y. key y = key x) xs = Some x"
  using assms by (induction xs) (auto simp: image_iff)

lemma set_account_rows:
  "r \<in> set (account_rows_by_health now db p hs chk) \<longleftrightarrow>
     r \<in> set (db_accounts db) \<and> ac_provider_id r = p \<and> ac_active r \<and> ac_health_status r = hs \<and>
     (chk \<longrightarrow> account_free now r)"
  by (auto simp: account_rows_by_health_def)

definition tier_has_free :: "int \<Rightarrow> database \<Rightarrow> string \<Rightarrow> health_status \<Rightarrow> bool" where
  "tier_has_free now db p hs \<longleftrightarrow>
     (\<exists>r \<in> set (db_accounts db). ac_provider_id r = p \<and> ac_active r \<and> ac_health_status r = hs \<and> account_free now r)"

lemma accounts_of_tier_alt:
  "accounts_of_tier now db p hs = query_accounts_by_health now db p hs (tier_has_free now db p hs)"
proof -
  have "query_accounts_by_health now db p hs True = [] \<longleftrightarrow> \<not> tier_has_free now db p hs"
  proof -
    have "account_rows_by_health now db p hs True = [] \<longleftrightarrow> (\<forall>r. r \<notin> set (account_rows_by_health now db p hs True))"
      by (metis all_not_in_conv set_empty)
    also have "\<dots> \<longleftrightarrow> \<not> tier_has_free now db p hs" by (auto simp: set_account_rows tier_has_free_def)
    finally show ?thesis by (simp add: query_accounts_by_health_def)
  qed
  then show ?thesis by (simp add: accounts_of_tier_def)
qed

fun health_rank :: "health_status \<Rightarrow> nat" where
  "health_rank HsHealthy = 0" | "health_rank HsDegraded = 1" | "health_rank HsUnhealthy = 2"

definition rotation_before :: "account_row \<Rightarrow> account_row \<Rightarrow> bool" where
  "rotation_before a b \<longleftrightarrow> health_rank (ac_health_status a) < health_rank (ac_health_status b) \<or>
     (ac_health_status a = ac_health_status b \<and>
      (ac_priority a < ac_priority b \<or> (ac_priority a = ac_priority b \<and> ac_id a \<le> ac_id b)))"

definition rotation_rows :: "int \<Rightarrow> database \<Rightarrow> string \<Rightarrow> account_row list" where
  "rotation_rows now db p =
     concat (map (\<lambda>hs. account_rows_by_health now db p hs (tier_has_free now db p hs))
       [HsHealthy, HsDegraded, HsUnhealthy])"

lemma fetch_accounts_alt: "fetch_accounts_by_health_priority now db p = map ac_id (rotation_rows now db p)"
  by (simp add: fetch_accounts_by_health_priority_def accounts_of_tier_alt query_accounts_by_health_def rotation_rows_def)

lemma account_rows_sorted: "sorted_wrt rotation_before (account_rows_by_health now db p hs chk)"
proof -
  let ?rows = "account_rows_by_health now db p hs chk"
  have "sort_comparator cmp_account_order"
    unfolding cmp_account_order_def by (intro sort_comparator_then_with sort_comparator_int)
  then have "sorted_wrt (\<lambda>a b. cmp_account_order a b \<noteq> Greater) ?rows"
    unfolding account_rows_by_health_def by (rule sort_comparator.sort_by_sorted)
  then show ?thesis
    by (rule sorted_wrt_mono_rel [rotated])
      (auto simp: set_account_rows rotation_before_def cmp_account_order_def then_with_def cmp_int_def split: if_splits)
qed

lemma rotation_rows_sorted: "sorted_wrt rotation_before (rotation_rows now db p)"
  by (auto simp: rotation_rows_def sorted_wrt_append account_rows_sorted set_account_rows rotation_before_def)

definition rotation_eligible :: "int \<Rightarrow> database \<Rightarrow> string \<Rightarrow> account_row \<Rightarrow> bool" where
  "rotation_eligible now db p r \<longleftrightarrow> ac_provider_id r = p \<and> ac_active r \<and>
     (tier_has_free now db p (ac_health_status r) \<longrightarrow> account_free now r)"

lemma set_rotation_rows:
  "r \<in> set (rotation_rows now db p) \<longleftrightarrow> r \<in> set (db_accounts db) \<and> rotation_eligible now db p r"
  by (cases "ac_health_status r") (auto simp: rotation_rows_def set_account_rows rotation_eligible_def)

text \<open>
  account rotation tries accounts by health. The candidates of a provider are exactly its
  active accounts, less those still rate limited while their health tier has one that is not; they
  are tried healthy first, then degraded, then unhealthy, each tier by priority and id.
\<close>

theorem rotation_by_health:
  "\<exists>rows. fetch_accounts_by_health_priority now db p = map ac_id rows \<and> sorted_wrt rotation_before rows \<and>
     set rows = {r \<in> set (db_accounts db). rotation_eligible now db p r}"
  by (intro exI [of _ "rotation_rows now db p"]) (auto simp: fetch_accounts_alt rotation_rows_sorted set_rotation_rows)

lemma expanded_target:
  assumes "distinct (map ac_id (db_accounts db))" and "t' \<in> set (expand_account_rotation now db ts)"
  shows "\<exists>t \<in> set ts.
     (t' = t \<or> (ct_account_id t = None \<and> (\<exists>r \<in> set (db_accounts db). t' = t \<lparr> ct_account_id := Some (ac_id r) \<rparr> \<and>
        ac_provider_id r = ct_provider_id t \<and>
        (case ct_selected_accounts t of None \<Rightarrow> True | Some allowed \<Rightarrow> ac_id r \<in> set allowed)))) \<and>
     (ct_sub_combo_id t' = None \<longrightarrow>
        (case ct_account_id t' of None \<Rightarrow> True
         | Some a \<Rightarrow> (case find_account db a of None \<Rightarrow> True | Some r \<Rightarrow> ac_active r)))"
proof -
  from assms(2) obtain t where t: "t \<in> set ts" "t' \<in> set (expand_single_target_rotation now db t)"
    by (auto simp: expand_account_rotation_def)
  show ?thesis
  proof (cases "t' = t")
    case True
    with t show ?thesis
      by (intro bexI [of _ t]) (auto simp: expand_single_target_rotation_def split: option.splits if_splits)
  next
    case False
    then have none: "ct_account_id t = None" and "\<exists>i. i \<in> set (fetch_accounts_by_health_priority now db (ct_provider_id t)) \<and>
        t' = t \<lparr> ct_account_id := Some i \<rparr> \<and> (case ct_selected_accounts t of None \<Rightarrow> True | Some allowed \<Rightarrow> i \<in> set allowed)"
      using t(2) by (auto simp: expand_single_target_rotation_def Let_def split: option.splits if_splits)
    then obtain r where r: "r \<in> set (rotation_rows now db (ct_provider_id t))" "t' = t \<lparr> ct_account_id := Some (ac_id r) \<rparr>"
      "case ct_selected_accounts t of None \<Rightarrow> True | Some allowed \<Rightarrow> ac_id r \<in> set allowed"
      by (auto simp: fetch_accounts_alt)
    then have db: "r \<in> set (db_accounts db)" "ac_provider_id r = ct_provider_id t" "ac_active r"
      by (simp_all add: set_rotation_rows rotation_eligible_def)
    have "find_account db (ac_id r) = Some r" unfolding find_account_def using assms(1) db(1) by (rule find_unique_key)
    with t(1) none r db show ?thesis by (intro bexI [of _ t]) auto
  qed
qed

text \<open>
  expansion routes only to accounts it may use. Every target it gives is one of the targets put
  in, unchanged or with an account chosen for it; an account that is known is active, and a chosen
  one belongs to the provider of the target and to its selection.
\<close>

theorem expansion_sound:
  assumes "distinct (map ac_id (db_accounts db))" and "t' \<in> set (expand_account_rotation now db ts)"
  shows "\<exists>t \<in> set ts.
     (t' = t \<or> (ct_account_id t = None \<and> (\<exists>r \<in> set (db_accounts db). t' = t \<lparr> ct_account_id := Some (ac_id r) \<rparr> \<and>
        ac_provider_id r = ct_provider_id t \<and>
        (case ct_selected_accounts t of None \<Rightarrow> True | Some allowed \<Rightarrow> ac_id r \<in> set allowed)))) \<and>
     (ct_sub_combo_id t' = None \<longrightarrow>
        (case ct_account_id t' of None \<Rightarrow> True
         | Some a \<Rightarrow> (case find_account db a of None \<Rightarrow> True | Some r \<Rightarrow> ac_active r)))"
  using assms by (rule expanded_target)

section \<open>A concrete nested combo\<close>

definition nested_leaf :: combo_target where
  "nested_leaf = default_combo_target
     \<lparr> ct_id := 2, ct_combo_id := 2, ct_provider_id := ''p'', ct_model_row_id := Some 5 \<rparr>"

definition nested_db :: database where
  "nested_db = sample_db
     \<lparr> db_models := [\<lparr> mo_id = 5, mo_provider_id = ''p'', mo_model_id = ''m'', mo_active = True,
                        mo_context_length = Some 8000, mo_max_output_tokens = Some 900,
                        mo_input_modalities_json = None, mo_client_profile = None \<rparr>],
       db_accounts := [\<lparr> ac_id = 1, ac_provider_id = ''p'', ac_active = True, ac_priority = 0,
                          ac_health_status = HsHealthy, ac_rate_limited_until = None \<rparr>,
                       \<lparr> ac_id = 2, ac_provider_id = ''p'', ac_active = True, ac_priority = 0,
                          ac_health_status = HsHealthy, ac_rate_limited_until = Some (AtSecs 100) \<rparr>],
       db_targets := [\<lparr> tg_target = default_combo_target \<lparr> ct_id := 1, ct_combo_id := 1, ct_provider_id := ''p'',
                            ct_sub_combo_id := Some 2 \<rparr>, tg_upstream_model_id = None \<rparr>,
                      \<lparr> tg_target = nested_leaf, tg_upstream_model_id = Some ''m'' \<rparr>] \<rparr>"

lemma nested_edges: "combo_edges nested_db = {(1, 2)}"
  by (auto simp: combo_edges_def nested_db_def nested_leaf_def default_combo_target_def)

lemma one_edge_relpow: "(a, b) \<in> {(1 :: int, 2 :: int)} ^^ n \<Longrightarrow> n = 0 \<and> a = b \<or> n = 1 \<and> a = 1 \<and> b = 2"
proof (induction n arbitrary: b)
  case (Suc n)
  then obtain z where "(a, z) \<in> {(1 :: int, 2 :: int)} ^^ n" "z = 1" "b = 2" by auto
  with Suc.IH [of z] show ?case by auto
qed simp

lemma Suc_max_depth: "Suc MAX_SUB_COMBO_DEPTH = Suc (Suc 4)"
  by (simp add: MAX_SUB_COMBO_DEPTH_def)

lemma nested_acyclic: "no_short_cycle nested_db"
  using one_edge_relpow by (fastforce simp: no_short_cycle_def nested_edges)

lemma nested_shallow:
  "E \<subseteq> combo_edges nested_db \<Longrightarrow> (c, b) \<notin> E ^^ Suc MAX_SUB_COMBO_DEPTH"
  using relpow_subset [of E "combo_edges nested_db" "Suc MAX_SUB_COMBO_DEPTH"] one_edge_relpow [of c b "Suc MAX_SUB_COMBO_DEPTH"]
  by (auto simp: nested_edges MAX_SUB_COMBO_DEPTH_def simp del: relpow.simps)

lemma nested_listed:
  "list_targets 0 nested_db 1 = [default_combo_target \<lparr> ct_id := 1, ct_combo_id := 1, ct_provider_id := ''p'', ct_sub_combo_id := Some 2 \<rparr>]"
  "list_targets 0 nested_db 2 = [nested_leaf]"
  by (simp_all add: list_targets_def nested_db_def nested_leaf_def sample_db_def sample_provider_def default_combo_target_def
      target_listed_def provider_is_active_def find_provider_def model_is_active_def find_model_def find_cooldown_def
      in_model_cooldown_def model_in_cooldown_def row_to_target_def sort_by_def)

theorem resolve_combo_exact_witness:
  "resolve_combo_to_targets 0 nested_db 1 [] 0 = Inr ([nested_leaf \<lparr> ct_inherited_target_id := Some 1 \<rparr>], [])"
proof -
  have "ct_sub_combo_id nested_leaf = None" by (simp add: nested_leaf_def default_combo_target_def)
  then have "combo_leaves 0 nested_db (Suc (Suc n)) 1 = [nested_leaf \<lparr> ct_inherited_target_id := Some 1 \<rparr>]" for n
    by (simp add: nested_listed) (simp add: inherit_from_def nested_leaf_def default_combo_target_def)
  from this [of 4] have "combo_leaves 0 nested_db (Suc MAX_SUB_COMBO_DEPTH) 1 = [nested_leaf \<lparr> ct_inherited_target_id := Some 1 \<rparr>]"
    by (simp only: Suc_max_depth)
  then show ?thesis
    using resolve_combo_exact [OF nested_acyclic, of 0 1] nested_shallow [OF listed_edges_subset] by simp
qed

theorem effective_limits_are_minima_witness:
  "compute_effective_context_window nested_db 1 = Inr (Some 8000) \<and>
   compute_effective_max_output_tokens nested_db 1 = Inr (Some 900)"
proof -
  have rows: "limit_rows nested_db 1 = [default_combo_target \<lparr> ct_id := 1, ct_combo_id := 1, ct_provider_id := ''p'', ct_sub_combo_id := Some 2 \<rparr>]"
    "limit_rows nested_db 2 = [nested_leaf]"
    by (simp_all add: limit_rows_def nested_db_def nested_leaf_def sample_db_def sample_provider_def default_combo_target_def
        provider_is_active_def find_provider_def model_is_active_def find_model_def)
  have leaf: "leaf_limit nested_db mo_context_length f nested_leaf = Some 8000"
    "leaf_limit nested_db mo_max_output_tokens f nested_leaf = Some 900" for f
    by (simp_all add: leaf_limit_def nested_leaf_def nested_db_def find_model_def)
  have fin: "limit_finish cb_context_window nested_db c x = x" "limit_finish cb_max_output_tokens nested_db c x = x" for c x
    by (simp_all add: limit_finish_def find_combo_def nested_db_def sample_db_def default_combo_def)
  have sub: "ct_sub_combo_id nested_leaf = None" by (simp add: nested_leaf_def default_combo_target_def)
  have "limit_tree cb_context_window mo_context_length f nested_db (Suc (Suc n)) 1 = Some 8000"
    "limit_tree cb_max_output_tokens mo_max_output_tokens f nested_db (Suc (Suc n)) 1 = Some 900" for f n
    by (simp_all add: rows fin leaf sub Let_def conj_commute [of "0 < (_ :: int)"] cong: conj_cong)
  note val = this [where n = 4, folded Suc_max_depth]
  have "find_combo nested_db 1 \<noteq> None" "sub_combos_exist nested_db"
    unfolding sub_combos_exist_def nested_edges
    by (simp_all add: find_combo_def nested_db_def sample_db_def default_combo_def)
  with effective_limits_are_minima [OF nested_acyclic, of 1] nested_shallow [OF limit_edges_subset] show ?thesis
    by (simp only: val simp_thms not_False_eq_True)
qed

theorem expansion_sound_witness:
  "expand_account_rotation 0 nested_db [nested_leaf] = [nested_leaf \<lparr> ct_account_id := Some 1 \<rparr>] \<and>
   (\<exists>t \<in> set [nested_leaf]. nested_leaf \<lparr> ct_account_id := Some 1 \<rparr> = t \<or> ct_account_id t = None)"
proof -
  have out: "expand_account_rotation 0 nested_db [nested_leaf] = [nested_leaf \<lparr> ct_account_id := Some 1 \<rparr>]"
    by (simp add: expand_account_rotation_def expand_single_target_rotation_def fetch_accounts_by_health_priority_def
        accounts_of_tier_def query_accounts_by_health_def account_rows_by_health_def account_free_def time_over_def
        nested_db_def nested_leaf_def default_combo_target_def sort_by_def)
  moreover have "distinct (map ac_id (db_accounts nested_db))" by (simp add: nested_db_def)
  ultimately show ?thesis
    using expansion_sound [of nested_db "nested_leaf \<lparr> ct_account_id := Some 1 \<rparr>" 0 "[nested_leaf]"] by auto
qed

text \<open>
  The rate-limited fallback is decided before the selection of a target is applied: a target
  restricted to a rate-limited account gets no candidate at all while another account of the
  provider is free, although the same target would be tried if that other account did not exist.
\<close>

lemma selected_limited_account_dropped:
  "expand_account_rotation 0 nested_db [nested_leaf \<lparr> ct_selected_accounts := Some [2] \<rparr>] = [] \<and>
   expand_account_rotation 0 (nested_db \<lparr> db_accounts := tl (db_accounts nested_db) \<rparr>)
     [nested_leaf \<lparr> ct_selected_accounts := Some [2] \<rparr>] =
     [nested_leaf \<lparr> ct_selected_accounts := Some [2], ct_account_id := Some 2 \<rparr>]"
  by (simp add: expand_account_rotation_def expand_single_target_rotation_def fetch_accounts_by_health_priority_def
      accounts_of_tier_def query_accounts_by_health_def account_rows_by_health_def account_free_def time_over_def
      nested_db_def nested_leaf_def default_combo_target_def sort_by_def)

end
