(* ===== verification/Circuit_Breaker.thy ===== *)
theory Circuit_Breaker
  imports Combos
begin

text \<open>
  The per-account circuit breaker (openproxy-pipeline/src/circuit_breaker.rs). Clock readings are
  arguments: \<open>t\<close> is an \<open>Instant\<close> in milliseconds, \<open>ms\<close> a reading of \<open>now_ms\<close>. \<open>is_healthy\<close> takes the
  read lock first and the write lock later, so its two phases are two steps and anything may run
  between them; \<open>is_healthy\<close> itself is the undisturbed call, on one clock reading.
\<close>

section \<open>State\<close>

datatype circuit_breaker_key = KAccount account_id | KModel account_id model_row_id

definition cb_key_from_target ::
    "account_id \<Rightarrow> rate_limit_scope \<Rightarrow> model_row_id option \<Rightarrow> circuit_breaker_key" where
  "cb_key_from_target aid scope row =
     (if scope = ScopeModel then KModel aid (case row of Some r \<Rightarrow> r | None \<Rightarrow> 0) else KAccount aid)"

datatype health = Healthy | Degraded | Unhealthy

record account_breaker =
  ab_unhealthy_until :: "nat option"
  ab_last_activity_ms :: nat
  ab_consecutive_failures :: nat
  ab_state :: health

record failure_outcome =
  fo_health :: health
  fo_just_opened :: bool
  fo_consecutive_failures :: nat
  fo_threshold :: nat

record cb_registry =
  cb_inner :: "(circuit_breaker_key, account_breaker) hmap"
  cb_threshold :: nat
  cb_unhealthy_duration :: nat

section \<open>Operations\<close>

definition cb_new :: "nat \<Rightarrow> nat \<Rightarrow> cb_registry" where
  "cb_new failure_threshold unhealthy_duration_ms =
     \<lparr> cb_inner = [], cb_threshold = failure_threshold,
       cb_unhealthy_duration = unhealthy_duration_ms \<rparr>"

definition cb_with :: "cb_registry \<Rightarrow> (circuit_breaker_key, account_breaker) hmap \<Rightarrow> cb_registry" where
  "cb_with r m = r \<lparr> cb_inner := m \<rparr>"

definition is_expired :: "account_breaker \<Rightarrow> nat \<Rightarrow> bool" where
  "is_expired e t \<longleftrightarrow>
     ab_state e = Unhealthy \<and> (case ab_unhealthy_until e of None \<Rightarrow> False | Some u \<Rightarrow> u \<le> t)"

text \<open>Under the read lock: an answer, or \<open>None\<close> when the entry has expired and must be written.\<close>

definition is_healthy_read ::
    "cb_registry \<Rightarrow> circuit_breaker_key \<Rightarrow> nat \<Rightarrow> nat \<Rightarrow> cb_registry \<times> health option" where
  "is_healthy_read r k t ms =
     (case hm_get (cb_inner r) k of
        None \<Rightarrow> (r, Some Healthy)
      | Some e \<Rightarrow>
          (if ab_state e = Healthy then
             (cb_with r (hm_put k (e \<lparr> ab_last_activity_ms := ms \<rparr>) (cb_inner r)), Some Healthy)
           else if \<not> is_expired e t then
             (cb_with r (hm_put k (e \<lparr> ab_last_activity_ms := ms \<rparr>) (cb_inner r)), Some (ab_state e))
           else (r, None)))"

text \<open>Under the write lock: the deadline is checked again before the breaker closes.\<close>

definition is_healthy_write ::
    "cb_registry \<Rightarrow> circuit_breaker_key \<Rightarrow> nat \<Rightarrow> nat \<Rightarrow> cb_registry \<times> health" where
  "is_healthy_write r k t ms =
     (case hm_get (cb_inner r) k of
        None \<Rightarrow> (r, Healthy)
      | Some e \<Rightarrow>
          (let e1 = (if is_expired e t
                     then e \<lparr> ab_state := Healthy, ab_consecutive_failures := 0,
                              ab_unhealthy_until := None \<rparr>
                     else e);
               e2 = e1 \<lparr> ab_last_activity_ms := ms \<rparr>
           in (cb_with r (hm_put k e2 (cb_inner r)), ab_state e2)))"

definition is_healthy ::
    "cb_registry \<Rightarrow> circuit_breaker_key \<Rightarrow> nat \<Rightarrow> nat \<Rightarrow> cb_registry \<times> health" where
  "is_healthy r k t ms =
     (case is_healthy_read r k t ms of
        (r', Some h) \<Rightarrow> (r', h)
      | (r', None) \<Rightarrow> is_healthy_write r' k t ms)"

definition is_target_healthy :: "cb_registry \<Rightarrow> combo_target \<Rightarrow> nat \<Rightarrow> nat \<Rightarrow> cb_registry \<times> bool" where
  "is_target_healthy r tg t ms =
     (case ct_account_id tg of
        None \<Rightarrow> (r, True)
      | Some aid \<Rightarrow>
          (let (r', h) = is_healthy r (cb_key_from_target aid (ct_rate_limit_scope tg) (ct_model_row_id tg)) t ms
           in (r', h = Healthy)))"

definition cb_record_success :: "cb_registry \<Rightarrow> circuit_breaker_key \<Rightarrow> nat \<Rightarrow> cb_registry" where
  "cb_record_success r k ms =
     cb_with r (hm_modify k
       (\<lambda>e. e \<lparr> ab_consecutive_failures := 0, ab_state := Healthy, ab_unhealthy_until := None,
                ab_last_activity_ms := ms \<rparr>) (cb_inner r))"

definition cb_fresh :: "nat \<Rightarrow> account_breaker" where
  "cb_fresh ms = \<lparr> ab_unhealthy_until = None, ab_last_activity_ms = ms,
                   ab_consecutive_failures = 0, ab_state = Healthy \<rparr>"

definition cb_fail_entry :: "cb_registry \<Rightarrow> nat \<Rightarrow> nat \<Rightarrow> account_breaker \<Rightarrow> account_breaker \<times> bool" where
  "cb_fail_entry r t ms e =
     (let n = saturating_add U8_MAX (ab_consecutive_failures e) 1;
          e1 = e \<lparr> ab_consecutive_failures := n, ab_last_activity_ms := ms \<rparr>
      in if n \<ge> cb_threshold r \<and> ab_state e \<noteq> Unhealthy
         then (e1 \<lparr> ab_state := Unhealthy,
                    ab_unhealthy_until := Some (t + cb_unhealthy_duration r) \<rparr>, True)
         else (e1, False))"

definition record_failure_outcome ::
    "cb_registry \<Rightarrow> circuit_breaker_key \<Rightarrow> nat \<Rightarrow> nat \<Rightarrow> cb_registry \<times> failure_outcome" where
  "record_failure_outcome r k t ms =
     (let e = (case hm_get (cb_inner r) k of Some e \<Rightarrow> e | None \<Rightarrow> cb_fresh ms);
          (e', opened) = cb_fail_entry r t ms e
      in (cb_with r (hm_put k e' (cb_inner r)),
          \<lparr> fo_health = ab_state e', fo_just_opened = opened,
            fo_consecutive_failures = ab_consecutive_failures e', fo_threshold = cb_threshold r \<rparr>))"

definition cb_record_failure ::
    "cb_registry \<Rightarrow> circuit_breaker_key \<Rightarrow> nat \<Rightarrow> nat \<Rightarrow> cb_registry \<times> health" where
  "cb_record_failure r k t ms =
     (let (r', o') = record_failure_outcome r k t ms in (r', fo_health o'))"

definition force_unhealthy :: "cb_registry \<Rightarrow> circuit_breaker_key \<Rightarrow> nat \<Rightarrow> nat \<Rightarrow> cb_registry" where
  "force_unhealthy r k t ms =
     cb_with r (hm_put k
       \<lparr> ab_unhealthy_until = Some (t + cb_unhealthy_duration r), ab_last_activity_ms = ms,
         ab_consecutive_failures = cb_threshold r, ab_state = Unhealthy \<rparr> (cb_inner r))"

definition cb_keep :: "nat \<Rightarrow> nat \<Rightarrow> account_breaker \<Rightarrow> bool" where
  "cb_keep t cutoff e \<longleftrightarrow>
     (ab_state e = Unhealthy \<and> (case ab_unhealthy_until e of None \<Rightarrow> False | Some u \<Rightarrow> t < u)) \<or>
     ab_last_activity_ms e \<ge> cutoff"

definition prune_idle :: "cb_registry \<Rightarrow> nat \<Rightarrow> nat \<Rightarrow> nat \<Rightarrow> cb_registry \<times> nat" where
  "prune_idle r max_idle t ms =
     (let cutoff = saturating_sub ms max_idle;
          m = hm_retain (\<lambda>_ e. cb_keep t cutoff e) (cb_inner r)
      in (cb_with r m, length (cb_inner r) - length m))"

definition cb_len :: "cb_registry \<Rightarrow> nat" where
  "cb_len r = length (cb_inner r)"

definition cb_is_empty :: "cb_registry \<Rightarrow> bool" where
  "cb_is_empty r \<longleftrightarrow> cb_inner r = []"

lemmas cb_ops = is_healthy_read_def is_healthy_write_def cb_record_success_def
  record_failure_outcome_def force_unhealthy_def prune_idle_def cb_with_def

section \<open>Invariant over every interleaving\<close>

text \<open>
  An entry is either closed, with fewer failures than the threshold (or none), or open with a
  deadline; \<open>Degraded\<close> is never reached.
\<close>

definition entry_ok :: "nat \<Rightarrow> account_breaker \<Rightarrow> bool" where
  "entry_ok threshold e \<longleftrightarrow>
     ab_consecutive_failures e \<le> max threshold U8_MAX \<and>
     (case ab_state e of
        Healthy \<Rightarrow> ab_unhealthy_until e = None \<and>
                   (ab_consecutive_failures e = 0 \<or> ab_consecutive_failures e < threshold)
      | Degraded \<Rightarrow> False
      | Unhealthy \<Rightarrow> ab_unhealthy_until e \<noteq> None)"

definition cb_ok :: "cb_registry \<Rightarrow> bool" where
  "cb_ok r \<longleftrightarrow> hm_ok (cb_inner r) \<and>
     (\<forall>k e. hm_get (cb_inner r) k = Some e \<longrightarrow> entry_ok (cb_threshold r) e)"

datatype cb_event =
    EvRead circuit_breaker_key nat nat
  | EvWrite circuit_breaker_key nat nat
  | EvSuccess circuit_breaker_key nat
  | EvFailure circuit_breaker_key nat nat
  | EvForce circuit_breaker_key nat nat
  | EvPrune nat nat nat

inductive cb_step :: "cb_registry \<Rightarrow> cb_event \<Rightarrow> cb_registry \<Rightarrow> bool" where
  rd: "cb_step r (EvRead k t ms) (fst (is_healthy_read r k t ms))"
| wr: "cb_step r (EvWrite k t ms) (fst (is_healthy_write r k t ms))"
| success: "cb_step r (EvSuccess k ms) (cb_record_success r k ms)"
| failure: "cb_step r (EvFailure k t ms) (fst (record_failure_outcome r k t ms))"
| force: "cb_step r (EvForce k t ms) (force_unhealthy r k t ms)"
| prune: "cb_step r (EvPrune idle t ms) (fst (prune_idle r idle t ms))"

inductive cb_trace :: "cb_registry \<Rightarrow> cb_event list \<Rightarrow> cb_registry \<Rightarrow> bool" where
  Nil: "cb_trace r [] r"
| Cons: "cb_step r ev r' \<Longrightarrow> cb_trace r' evs r'' \<Longrightarrow> cb_trace r (ev # evs) r''"

lemma cb_ok_new: "cb_ok (cb_new n d)"
  by (simp add: cb_ok_def cb_new_def)

lemma cb_ok_get: "cb_ok r \<Longrightarrow> hm_get (cb_inner r) k = Some e \<Longrightarrow> entry_ok (cb_threshold r) e"
  by (simp add: cb_ok_def)

lemma cb_ok_put:
  "cb_ok r \<Longrightarrow> entry_ok (cb_threshold r) e \<Longrightarrow> cb_ok (cb_with r (hm_put k e (cb_inner r)))"
  by (simp add: cb_ok_def cb_with_def hm_simps)

lemma entry_ok_fresh: "entry_ok n (cb_fresh ms)"
  by (simp add: entry_ok_def cb_fresh_def)

lemma entry_ok_activity [simp]: "entry_ok n (e \<lparr> ab_last_activity_ms := ms \<rparr>) = entry_ok n e"
  by (simp add: entry_ok_def split: health.splits)

lemma entry_ok_closed:
  "entry_ok n (e \<lparr> ab_state := Healthy, ab_consecutive_failures := 0, ab_unhealthy_until := None \<rparr>)"
  by (simp add: entry_ok_def)

lemma entry_ok_fail:
  "entry_ok (cb_threshold r) e \<Longrightarrow> entry_ok (cb_threshold r) (fst (cb_fail_entry r t ms e))"
  by (auto simp: entry_ok_def cb_fail_entry_def Let_def int_ops split: health.splits)

lemma cb_ok_read: "cb_ok r \<Longrightarrow> cb_ok (fst (is_healthy_read r k t ms))"
  by (auto simp: is_healthy_read_def intro!: cb_ok_put dest: cb_ok_get split: option.splits)

lemma cb_ok_write: "cb_ok r \<Longrightarrow> cb_ok (fst (is_healthy_write r k t ms))"
  by (auto simp: is_healthy_write_def Let_def entry_ok_closed
      intro!: cb_ok_put dest: cb_ok_get split: option.splits)

lemma cb_ok_record_success: "cb_ok r \<Longrightarrow> cb_ok (cb_record_success r k ms)"
  by (auto simp: cb_ok_def cb_record_success_def cb_with_def hm_simps entry_ok_def)

lemma cb_ok_record_failure: "cb_ok r \<Longrightarrow> cb_ok (fst (record_failure_outcome r k t ms))"
  using entry_ok_fail [of r _ t ms] entry_ok_fresh
  by (auto simp: record_failure_outcome_def Let_def split_beta
      intro!: cb_ok_put dest: cb_ok_get split: option.splits)

lemma cb_ok_force: "cb_ok r \<Longrightarrow> cb_ok (force_unhealthy r k t ms)"
  unfolding force_unhealthy_def by (erule cb_ok_put) (simp add: entry_ok_def)

lemma cb_ok_prune: "cb_ok r \<Longrightarrow> cb_ok (fst (prune_idle r idle t ms))"
  by (auto simp: cb_ok_def prune_idle_def cb_with_def Let_def hm_simps split: option.splits if_splits)

lemma cb_step_ok: "cb_step r ev r' \<Longrightarrow> cb_ok r \<Longrightarrow> cb_ok r'"
  by (induction rule: cb_step.induct)
    (simp_all add: cb_ok_read cb_ok_write cb_ok_record_success cb_ok_record_failure cb_ok_force
      cb_ok_prune)

lemma cb_step_config: "cb_step r ev r' \<Longrightarrow> cb_threshold r' = cb_threshold r \<and>
    cb_unhealthy_duration r' = cb_unhealthy_duration r"
  by (induction rule: cb_step.induct)
    (auto simp: cb_ops Let_def split_beta split: option.splits)

lemma cb_trace_ok: "cb_trace r evs r' \<Longrightarrow> cb_ok r \<Longrightarrow> cb_ok r'"
  by (induction rule: cb_trace.induct) (auto dest: cb_step_ok)

lemma cb_trace_config: "cb_trace r evs r' \<Longrightarrow> cb_threshold r' = cb_threshold r \<and>
    cb_unhealthy_duration r' = cb_unhealthy_duration r"
  by (induction rule: cb_trace.induct) (auto dest: cb_step_config)

section \<open>Abstract breaker\<close>

text \<open>What a caller sees of a key: closed with a number of failures in a row, or open until a deadline.\<close>

datatype breaker_view = Closed nat | Open nat

definition entry_view :: "account_breaker \<Rightarrow> breaker_view" where
  "entry_view e =
     (case ab_unhealthy_until e of None \<Rightarrow> Closed (ab_consecutive_failures e) | Some u \<Rightarrow> Open u)"

definition cb_view :: "cb_registry \<Rightarrow> circuit_breaker_key \<Rightarrow> breaker_view" where
  "cb_view r k = (case hm_get (cb_inner r) k of None \<Rightarrow> Closed 0 | Some e \<Rightarrow> entry_view e)"

fun view_poll :: "nat \<Rightarrow> breaker_view \<Rightarrow> breaker_view" where
  "view_poll t (Closed n) = Closed n"
| "view_poll t (Open u) = (if u \<le> t then Closed 0 else Open u)"

fun view_fail :: "nat \<Rightarrow> nat \<Rightarrow> nat \<Rightarrow> breaker_view \<Rightarrow> breaker_view" where
  "view_fail threshold d t (Closed n) =
     (let m = saturating_add U8_MAX n 1 in if threshold \<le> m then Open (t + d) else Closed m)"
| "view_fail threshold d t (Open u) = Open u"

fun view_health :: "breaker_view \<Rightarrow> health" where
  "view_health (Closed _) = Healthy"
| "view_health (Open _) = Unhealthy"

lemma entry_ok_healthy_iff: "entry_ok n e \<Longrightarrow> ab_state e = Healthy \<longleftrightarrow> ab_unhealthy_until e = None"
  by (auto simp: entry_ok_def split: health.splits)

lemma entry_ok_unhealthy_iff: "entry_ok n e \<Longrightarrow> ab_state e = Unhealthy \<longleftrightarrow> ab_unhealthy_until e \<noteq> None"
  by (auto simp: entry_ok_def split: health.splits)

lemma entry_ok_state: "entry_ok n e \<Longrightarrow> ab_state e = view_health (entry_view e)"
  by (auto simp: entry_ok_def entry_view_def split: health.splits option.splits)

lemma entry_view_fresh [simp]: "entry_view (cb_fresh ms) = Closed 0"
  by (simp add: entry_view_def cb_fresh_def)

lemma entry_view_activity [simp]: "entry_view (e \<lparr> ab_last_activity_ms := ms \<rparr>) = entry_view e"
  by (simp add: entry_view_def split: option.splits)

lemma entry_view_fail:
  "entry_ok (cb_threshold r) e \<Longrightarrow>
     entry_view (fst (cb_fail_entry r t ms e)) =
       view_fail (cb_threshold r) (cb_unhealthy_duration r) t (entry_view e)"
  using entry_ok_unhealthy_iff [of "cb_threshold r" e]
  by (auto simp: cb_fail_entry_def Let_def entry_view_def split: option.splits)

lemma cb_view_put: "cb_view (cb_with r (hm_put k e (cb_inner r))) k' =
    (if k' = k then entry_view e else cb_view r k')"
  by (simp add: cb_view_def cb_with_def hm_simps)

lemma cb_view_failure:
  "cb_ok r \<Longrightarrow> cb_view (fst (record_failure_outcome r k t ms)) k' =
     (if k' = k then view_fail (cb_threshold r) (cb_unhealthy_duration r) t (cb_view r k)
      else cb_view r k')"
  by (cases "hm_get (cb_inner r) k")
    (simp_all add: record_failure_outcome_def Let_def split_beta cb_view_put entry_view_fail
      entry_ok_fresh cb_ok_get cb_view_def [of r k])

lemma cb_view_success:
  "cb_view (cb_record_success r k ms) k' = (if k' = k then Closed 0 else cb_view r k')"
  by (simp add: cb_view_def cb_record_success_def cb_with_def hm_simps entry_view_def
      split: option.splits)

lemma cb_view_force:
  "cb_view (force_unhealthy r k t ms) k' =
     (if k' = k then Open (t + cb_unhealthy_duration r) else cb_view r k')"
  by (simp add: force_unhealthy_def cb_view_put entry_view_def)

lemma cb_view_read: "cb_view (fst (is_healthy_read r k t ms)) k' = cb_view r k'"
  by (auto simp: is_healthy_read_def cb_view_put split: option.splits) (auto simp: cb_view_def)

lemma cb_view_write:
  assumes "cb_ok r"
  shows "cb_view (fst (is_healthy_write r k t ms)) k' =
     (if k' = k then view_poll t (cb_view r k) else cb_view r k')"
proof (cases "hm_get (cb_inner r) k")
  case None
  then show ?thesis by (simp add: is_healthy_write_def cb_view_def)
next
  case (Some e)
  with assms have "entry_ok (cb_threshold r) e" by (rule cb_ok_get)
  then have "ab_state e = Unhealthy \<longleftrightarrow> ab_unhealthy_until e \<noteq> None"
    by (rule entry_ok_unhealthy_iff)
  moreover have "cb_view r k = entry_view e" using Some by (simp add: cb_view_def)
  ultimately show ?thesis
    using Some
    by (auto simp: is_healthy_write_def Let_def cb_view_put entry_view_def is_expired_def
        split: option.splits)
qed

lemma cb_view_prune:
  assumes "cb_ok r"
  shows "cb_view (fst (prune_idle r idle t ms)) k = cb_view r k \<or>
     cb_view (fst (prune_idle r idle t ms)) k = Closed 0 \<and>
     (\<forall>u. cb_view r k = Open u \<longrightarrow> u \<le> t)"
proof (cases "hm_get (cb_inner r) k")
  case None
  with assms show ?thesis by (simp add: prune_idle_def Let_def cb_view_def cb_with_def hm_simps cb_ok_def)
next
  case (Some e)
  with assms have "ab_state e = Unhealthy \<longleftrightarrow> ab_unhealthy_until e \<noteq> None"
    by (rule entry_ok_unhealthy_iff [OF cb_ok_get])
  with assms Some show ?thesis
    by (auto simp: prune_idle_def Let_def cb_view_def cb_with_def hm_simps cb_ok_def cb_keep_def
        entry_view_def split: option.splits)
qed

text \<open>The whole query, with both phases, is the poll of the abstract breaker.\<close>

lemma is_healthy_view:
  assumes ok: "cb_ok r"
  shows "snd (is_healthy r k t ms) = view_health (view_poll t (cb_view r k))"
    and "cb_view (fst (is_healthy r k t ms)) k' =
           (if k' = k then view_poll t (cb_view r k) else cb_view r k')"
proof -
  have *: "snd (is_healthy r k t ms) = view_health (view_poll t (cb_view r k)) \<and>
     cb_view (fst (is_healthy r k t ms)) k' =
       (if k' = k then view_poll t (cb_view r k) else cb_view r k')"
  proof (cases "hm_get (cb_inner r) k")
    case None
    then show ?thesis by (simp add: is_healthy_def is_healthy_read_def cb_view_def)
  next
    case (Some e)
    with ok have eok: "entry_ok (cb_threshold r) e" by (rule cb_ok_get)
    have view: "cb_view r k = entry_view e" using Some by (simp add: cb_view_def)
    show ?thesis
      using Some view entry_ok_healthy_iff [OF eok] entry_ok_unhealthy_iff [OF eok]
      by (auto simp: is_healthy_def is_healthy_read_def is_healthy_write_def Let_def is_expired_def
          cb_view_put entry_view_def split: option.splits)
  qed
  from * show "snd (is_healthy r k t ms) = view_health (view_poll t (cb_view r k))" ..
  from * show "cb_view (fst (is_healthy r k t ms)) k' =
       (if k' = k then view_poll t (cb_view r k) else cb_view r k')" ..
qed

section \<open>Properties\<close>

text \<open>
  in every state the breaker can reach, whatever the interleaving of queries (with their two
  lock phases apart), successes, failures, forced openings and prunes, each entry is closed with
  fewer failures than the threshold or open with a deadline, and the configuration is unchanged.
\<close>

theorem breaker_reachable_ok:
  assumes "cb_trace (cb_new threshold duration) evs r"
  shows "cb_ok r \<and> cb_threshold r = threshold \<and> cb_unhealthy_duration r = duration"
  using cb_trace_ok [OF assms cb_ok_new] cb_trace_config [OF assms] by (simp add: cb_new_def)

theorem breaker_reachable_ok_witness:
  "cb_ok (fst (record_failure_outcome (cb_new 1 60000) (KAccount 7) 5 5))"
proof -
  have "cb_trace (cb_new 1 60000) [EvFailure (KAccount 7) 5 5]
     (fst (record_failure_outcome (cb_new 1 60000) (KAccount 7) 5 5))"
    by (rule cb_trace.Cons [OF cb_step.failure cb_trace.Nil])
  then show ?thesis using breaker_reachable_ok by blast
qed

fun fail_run :: "cb_registry \<Rightarrow> circuit_breaker_key \<Rightarrow> (nat \<times> nat) list \<Rightarrow> cb_registry" where
  "fail_run r k [] = r"
| "fail_run r k ((t, ms) # ts) = fail_run (fst (record_failure_outcome r k t ms)) k ts"

lemma record_failure_config [simp]:
  "cb_threshold (fst (record_failure_outcome r k t ms)) = cb_threshold r"
  "cb_unhealthy_duration (fst (record_failure_outcome r k t ms)) = cb_unhealthy_duration r"
  by (simp_all add: record_failure_outcome_def Let_def split_beta cb_with_def)

lemma fail_run_open: "cb_ok r \<Longrightarrow> cb_view r k = Open u \<Longrightarrow> cb_view (fail_run r k ts) k = Open u"
  by (induction r k ts rule: fail_run.induct) (simp_all add: cb_ok_record_failure cb_view_failure)

lemma fail_run_closed:
  assumes "cb_ok r" "cb_view r k = Closed n" "n < max 1 (cb_threshold r)" "cb_threshold r \<le> U8_MAX"
  shows "cb_view (fail_run r k ts) k =
     (if n + length ts < max 1 (cb_threshold r) then Closed (n + length ts)
      else Open (fst (ts ! (max 1 (cb_threshold r) - 1 - n)) + cb_unhealthy_duration r))"
  using assms
proof (induction r k ts arbitrary: n rule: fail_run.induct)
  case (1 r k)
  then show ?case by simp
next
  case (2 r k t ms ts)
  let ?r = "fst (record_failure_outcome r k t ms)"
  have ok: "cb_ok ?r" using 2 by (simp add: cb_ok_record_failure)
  have sat: "saturating_add U8_MAX n 1 = Suc n" using 2 by (simp add: int_ops)
  have view: "cb_view ?r k =
     (if cb_threshold r \<le> Suc n then Open (t + cb_unhealthy_duration r) else Closed (Suc n))"
    using 2 sat by (simp add: cb_view_failure)
  show ?case
  proof (cases "cb_threshold r \<le> Suc n")
    case True
    with 2 have "max 1 (cb_threshold r) = Suc n" by auto
    with True view show ?thesis by (simp add: fail_run_open [OF ok])
  next
    case False
    then have "max 1 (cb_threshold r) - 1 - n = Suc (max 1 (cb_threshold r) - 1 - Suc n)" by auto
    with False view "2.IH" [of "Suc n"] ok 2 show ?thesis by auto
  qed
qed

text \<open>
  failures in a row open the breaker exactly at the threshold (at the first failure when the
  threshold is zero), with the deadline of that failure; later failures do not extend it.
\<close>

theorem breaker_opens_at_threshold:
  assumes "threshold \<le> U8_MAX"
  shows "cb_view (fail_run (cb_new threshold d) k ts) k =
     (if length ts < max 1 threshold then Closed (length ts)
      else Open (fst (ts ! (max 1 threshold - 1)) + d))"
  using fail_run_closed [OF cb_ok_new, of threshold d k 0 ts] assms
  by (simp add: cb_view_def cb_new_def)

theorem breaker_opens_at_threshold_witness:
  "cb_view (fail_run (cb_new 2 60) (KAccount 1) [(10, 10), (20, 20), (30, 30)]) (KAccount 1) = Open 80"
  using breaker_opens_at_threshold [of 2 60 "KAccount 1" "[(10, 10), (20, 20), (30, 30)]"] by simp

fun ev_in_window :: "circuit_breaker_key \<Rightarrow> nat \<Rightarrow> nat \<Rightarrow> cb_event \<Rightarrow> bool" where
  "ev_in_window k d u (EvRead _ t _) \<longleftrightarrow> t < u"
| "ev_in_window k d u (EvWrite _ t _) \<longleftrightarrow> t < u"
| "ev_in_window k d u (EvSuccess k' _) \<longleftrightarrow> k' \<noteq> k"
| "ev_in_window k d u (EvFailure _ t _) \<longleftrightarrow> t < u"
| "ev_in_window k d u (EvForce _ t _) \<longleftrightarrow> u \<le> t + d \<and> t < u"
| "ev_in_window k d u (EvPrune _ t _) \<longleftrightarrow> t < u"

lemma open_step:
  assumes "cb_step r ev r'" "cb_ok r" "cb_view r k = Open u'" "u \<le> u'"
    and "ev_in_window k (cb_unhealthy_duration r) u ev"
  shows "\<exists>u''. cb_view r' k = Open u'' \<and> u \<le> u''"
  using assms
proof (induction rule: cb_step.induct)
  case (prune r idle t ms)
  then show ?case using cb_view_prune [of r idle t ms k] by auto
qed (auto simp: cb_view_read cb_view_write cb_view_success cb_view_failure cb_view_force)

lemma open_trace:
  assumes "cb_trace r evs r'" "cb_ok r" "cb_view r k = Open u'" "u \<le> u'"
    and "list_all (ev_in_window k (cb_unhealthy_duration r) u) evs"
  shows "\<exists>u''. cb_view r' k = Open u'' \<and> u \<le> u''"
  using assms
proof (induction arbitrary: u' rule: cb_trace.induct)
  case (Nil r)
  then show ?case by auto
next
  case (Cons r ev r' evs r'')
  then have win: "ev_in_window k (cb_unhealthy_duration r) u ev" by simp
  have dur: "cb_unhealthy_duration r' = cb_unhealthy_duration r"
    using cb_step_config [OF Cons.hyps(1)] by simp
  have ok: "cb_ok r'" using cb_step_ok Cons.hyps(1) Cons.prems(1) by blast
  obtain u1 where "cb_view r' k = Open u1" "u \<le> u1"
    using open_step [OF Cons.hyps(1) Cons.prems(1,2,3) win] by blast
  with Cons.IH [OF ok] Cons.prems(4) dur show ?case by simp
qed

text \<open>
  C25: an open breaker cannot be closed early. As long as no success is recorded for the key and the
  clock stays inside the open window, no interleaving of the other operations, on this key or any
  other, makes a query answer anything but unhealthy.
\<close>

theorem breaker_stays_open:
  assumes "cb_trace r evs r'" "cb_ok r" "cb_view r k = Open u"
    and "list_all (ev_in_window k (cb_unhealthy_duration r) u) evs" and "t < u"
  shows "snd (is_healthy r' k t ms) = Unhealthy"
proof -
  have "cb_ok r'" using cb_trace_ok assms(1,2) by blast
  moreover obtain u' where "cb_view r' k = Open u'" "u \<le> u'"
    using open_trace [OF assms(1,2,3) order_refl assms(4)] by blast
  ultimately show ?thesis using \<open>t < u\<close> by (simp add: is_healthy_view)
qed

lemma cb_ok_witness_open: "cb_ok (force_unhealthy (cb_new 3 100) k t ms)"
  by (rule cb_ok_force [OF cb_ok_new])

theorem breaker_stays_open_witness:
  "snd (is_healthy (fst (is_healthy_write (force_unhealthy (cb_new 3 100) (KAccount 1) 50 50)
      (KAccount 1) 149 149)) (KAccount 1) 149 149) = Unhealthy"
proof -
  let ?r = "force_unhealthy (cb_new 3 100) (KAccount 1) 50 50"
  have "cb_trace ?r [EvWrite (KAccount 1) 149 149]
     (fst (is_healthy_write ?r (KAccount 1) 149 149))"
    by (rule cb_trace.Cons [OF cb_step.wr cb_trace.Nil])
  moreover have "cb_view ?r (KAccount 1) = Open 150"
    by (simp add: cb_view_force) (simp add: cb_new_def)
  ultimately show ?thesis
    using breaker_stays_open [of ?r _ _ "KAccount 1" 150 149 149] cb_ok_witness_open by simp
qed

text \<open>
  pruning idle entries is invisible to routing. No query at or after the time of the prune
  answers differently because of it.
\<close>

theorem prune_idle_invisible:
  assumes "cb_ok r" and "t \<le> t'"
  shows "snd (is_healthy (fst (prune_idle r idle t ms)) k t' ms') = snd (is_healthy r k t' ms')"
  using cb_view_prune [OF assms(1), of idle t ms k] assms cb_ok_prune [OF assms(1)]
  by (cases "cb_view r k") (auto simp: is_healthy_view)

theorem prune_idle_invisible_witness:
  "snd (is_healthy (fst (prune_idle (force_unhealthy (cb_new 3 100) (KAccount 1) 50 50) 10 5000 5000))
      (KAccount 1) 5000 5000) =
   snd (is_healthy (force_unhealthy (cb_new 3 100) (KAccount 1) 50 50) (KAccount 1) 5000 5000)"
  using prune_idle_invisible [OF cb_ok_witness_open order_refl] .

end
