(* ===== verification/Resolved_Targets.thy ===== *)
theory Resolved_Targets
  imports Combo_Store
begin

text \<open>
  A target with what is needed to call it (openproxy-types/src/context.rs): its model, its key and the
  extra data some providers need. The model is its catalog row.
\<close>

record custom_provider_meta =
  cm_access_token :: string
  cm_maybe_refresh :: "string option"
  cm_kiro_region :: "string option"
  cm_kiro_profile_arn :: "string option"
  cm_antigravity_project :: "string option"
  cm_antigravity_metadata :: "string option"
  cm_codex_workspace_id :: "string option"
  cm_claude_account_uuid :: "string option"
  cm_claude_metadata :: "string option"
  cm_devin_device_seed :: "string option"

record resolved_target =
  rt_target :: combo_target
  rt_model :: model_row
  rt_api_key :: string
  rt_api_key_label :: "string option"
  rt_custom_meta :: "custom_provider_meta option"

abbreviation rt_model_id :: "resolved_target \<Rightarrow> string" where
  "rt_model_id t \<equiv> mo_model_id (rt_model t)"

abbreviation rt_input_modalities_json :: "resolved_target \<Rightarrow> string option" where
  "rt_input_modalities_json t \<equiv> mo_input_modalities_json (rt_model t)"

definition rt_client_profile :: "resolved_target \<Rightarrow> client_profile option" where
  "rt_client_profile t =
     (case ct_client_profile (rt_target t) of Some p \<Rightarrow> Some p | None \<Rightarrow> mo_client_profile (rt_model t))"

definition default_model :: model_row where
  "default_model =
     \<lparr> mo_id = 0, mo_provider_id = [], mo_model_id = [], mo_active = False, mo_context_length = None,
       mo_max_output_tokens = None, mo_input_modalities_json = None, mo_client_profile = None \<rparr>"

definition default_resolved_target :: resolved_target where
  "default_resolved_target =
     \<lparr> rt_target = default_combo_target, rt_model = default_model, rt_api_key = [], rt_api_key_label = None,
       rt_custom_meta = None \<rparr>"

end
