(* ===== verification/Model_Names.thy ===== *)
theory Model_Names
  imports OP_Prelude
begin

text \<open>
  Normalisation of model identifiers (openproxy-types/src/model_normalize.rs): provider prefixes,
  marketing suffixes, dates and version suffixes are stripped so that the names of one model under
  several providers agree.
\<close>

section \<open>Model names\<close>

definition MODEL_SUFFIXES :: "string list" where
  "MODEL_SUFFIXES =
     [''-free-trial'', ''-free'', '':free'', ''-low'', ''-high'', ''-medium'', ''-tiered'', ''-thinking'',
      ''-agent'', ''-preset'', ''-fast'', ''-turbo'', '':thinking'', '':online'', '':extended'', '':nitro'']"

definition strip_suffix :: "string \<Rightarrow> string \<Rightarrow> string option" where
  "strip_suffix s suf = (if suffix suf s then Some (take (length s - length suf) s) else None)"

function candidate_normalized_forms :: "string \<Rightarrow> string list" where
  "candidate_normalized_forms current =
     (case List.map_filter (\<lambda>suf. case strip_suffix current suf of
              None \<Rightarrow> None | Some r \<Rightarrow> if r \<noteq> [] \<and> r \<noteq> current then Some r else None) MODEL_SUFFIXES of
        [] \<Rightarrow> []
      | stripped # _ \<Rightarrow>
          if length stripped < length current then stripped # candidate_normalized_forms stripped else [])"
  by pat_completeness auto
termination by (relation "measure length") auto

declare candidate_normalized_forms.simps [simp del]

function trim_end_matches :: "string \<Rightarrow> string \<Rightarrow> string" where
  "trim_end_matches suf s =
     (if suf \<noteq> [] \<and> suffix suf s then trim_end_matches suf (take (length s - length suf) s) else s)"
  by pat_completeness auto
termination
  by (relation "measure (\<lambda>(suf, s). length s)") (auto simp: suffix_def)

declare trim_end_matches.simps [simp del]

fun rsplit_once :: "string \<Rightarrow> string \<Rightarrow> (string \<times> string) option" where
  "rsplit_once sep [] = None"
| "rsplit_once sep (c # cs) =
     (case rsplit_once sep cs of
        Some (a, b) \<Rightarrow> Some (c # a, b)
      | None \<Rightarrow> if starts_with (c # cs) sep then Some ([], drop (length sep) (c # cs)) else None)"

definition is_digit :: "char \<Rightarrow> bool" where
  "is_digit c = (digit_val c \<noteq> None)"

text \<open>
  A suffix that satisfies one of the predicates starts with an ASCII dash, so the test for a
  character boundary in \<open>strip_fixed_suffix\<close> never decides.
\<close>

definition strip_fixed_suffix :: "string \<Rightarrow> nat \<Rightarrow> (string \<Rightarrow> bool) \<Rightarrow> string option" where
  "strip_fixed_suffix s n p =
     (if length s \<le> n then None
      else let idx = length s - n in if p (drop idx s) then Some (take idx s) else None)"

definition is_dash_date_suffix :: "string \<Rightarrow> bool" where
  "is_dash_date_suffix b \<longleftrightarrow>
     length b = 11 \<and> b ! 0 = CHR ''-'' \<and> b ! 5 = CHR ''-'' \<and> b ! 8 = CHR ''-'' \<and>
     list_all is_digit (take 4 (drop 1 b) @ take 2 (drop 6 b) @ take 2 (drop 9 b))"

definition strip_date_suffix :: "string \<Rightarrow> string option" where
  "strip_date_suffix s = strip_fixed_suffix s 11 is_dash_date_suffix"

definition strip_4digit_suffix :: "string \<Rightarrow> string option" where
  "strip_4digit_suffix s = strip_fixed_suffix s 5 (\<lambda>b. b ! 0 = CHR ''-'' \<and> list_all is_digit (drop 1 b))"

definition strip_version_suffix :: "string \<Rightarrow> string option" where
  "strip_version_suffix s =
     (case rsplit_once ''-v'' s of
        None \<Rightarrow> None
      | Some (pre, rest) \<Rightarrow> if rest \<noteq> [] \<and> list_all is_digit rest then Some pre else None)"

definition strip_compact_yyyymmdd :: "string \<Rightarrow> string option" where
  "strip_compact_yyyymmdd s = strip_fixed_suffix s 9
     (\<lambda>b. starts_with b ''-'' \<and> length (drop 1 b) = 8 \<and> list_all is_digit (drop 1 b) \<and>
        (starts_with (take 4 (drop 1 b)) ''19'' \<or> starts_with (take 4 (drop 1 b)) ''20''))"

definition strip_all_dynamic_suffixes :: "string \<Rightarrow> string" where
  "strip_all_dynamic_suffixes s =
     fold (\<lambda>f cur. case f cur of Some r \<Rightarrow> r | None \<Rightarrow> cur)
       [strip_date_suffix, strip_compact_yyyymmdd, strip_4digit_suffix, strip_version_suffix] s"

definition replace_char :: "char \<Rightarrow> char \<Rightarrow> string \<Rightarrow> string" where
  "replace_char a b s = map (\<lambda>c. if c = a then b else c) s"

definition normalize_family :: "string \<Rightarrow> string" where
  "normalize_family s =
     (if starts_with s ''gemini-'' \<and> CHR ''_'' \<in> set s then replace_char (CHR ''_'') (CHR ''.'') s else s)"

definition normalize_model_id :: "string \<Rightarrow> string" where
  "normalize_model_id i =
     (let s = (case rsplit_once ''/'' i of Some (_, rest) \<Rightarrow> rest | None \<Rightarrow> i);
          s1 = fold trim_end_matches MODEL_SUFFIXES s;
          s2 = replace_char (CHR '':'') (CHR ''-'') s1
      in normalize_family (strip_all_dynamic_suffixes s2))"

end
