(* ===== verification/Quota_Routing.thy ===== *)
theory Quota_Routing
  imports Resolved_Targets Model_Names Complex_Main
begin

text \<open>
  Quota-aware routing (openproxy-pipeline/src/quotas.rs, with the quota pools of
  openproxy-types/src/quota.rs and the model names of model_normalize.rs): how much of its quota an
  account has left for a model, and which targets are kept and in which order. \<open>f64\<close> values are
  rationals; JSON parsing, \<open>f64\<close> parsing and date parsing are the fields of \<open>quota_env\<close>.
\<close>

section \<open>Quota pools\<close>

datatype quota_source = AutoclawStarter | ZcodeStarter | CodingPlan

datatype quota_pool_status = PoolActive | PoolAbsent | PoolExhausted | PoolExpired | PoolUnavailable

record model_quota_detail =
  mq_model_id :: string
  mq_session_used :: int
  mq_session_limit :: int
  mq_remaining_fraction :: rat

record quota_pool =
  qp_source :: quota_source
  qp_status :: quota_pool_status
  qp_used :: "int option"
  qp_limit :: "int option"
  qp_remaining :: "int option"
  qp_expires_at :: "string option"
  qp_starts_at :: "string option"
  qp_model_ids :: "string list"
  qp_fetch_error :: "string option"
  qp_last_fetched_at :: string

record quota_env =
  qe_parse_timestamp :: "string \<Rightarrow> int option"
  qe_parse_json :: "string \<Rightarrow> json option"
  qe_parse_f64 :: "string \<Rightarrow> rat option"

definition matches_model :: "quota_pool \<Rightarrow> string \<Rightarrow> bool" where
  "matches_model p model =
     (if trim model = [] then False
      else if qp_model_ids p = [] then qp_source p = CodingPlan
      else list_ex (\<lambda>i. eq_ignore_ascii_case i (trim model)) (qp_model_ids p))"

definition parse_epoch :: "quota_env \<Rightarrow> string \<Rightarrow> nat option" where
  "parse_epoch env raw =
     (let trimmed = trim raw
      in if trimmed = [] then None
         else case parse_unsigned U64_MAX trimmed of
                Some secs \<Rightarrow> Some secs
              | None \<Rightarrow>
                  (case parse_i64 trimmed of
                     Some secs \<Rightarrow> if secs \<ge> 0 then Some (nat secs) else None
                   | None \<Rightarrow>
                       (case qe_parse_timestamp env trimmed of
                          Some t \<Rightarrow> if t \<ge> 0 then Some (nat t) else None
                        | None \<Rightarrow> None)))"

definition within_validity_window :: "quota_env \<Rightarrow> quota_pool \<Rightarrow> nat \<Rightarrow> bool" where
  "within_validity_window env p now_secs \<longleftrightarrow>
     (case qp_starts_at p of
        None \<Rightarrow> True
      | Some raw \<Rightarrow> (case parse_epoch env raw of None \<Rightarrow> False | Some s \<Rightarrow> s \<le> now_secs)) \<and>
     (case qp_expires_at p of
        None \<Rightarrow> True
      | Some raw \<Rightarrow> (case parse_epoch env raw of None \<Rightarrow> False | Some e \<Rightarrow> now_secs < e))"

definition has_known_exhaustion :: "quota_pool \<Rightarrow> bool" where
  "has_known_exhaustion p =
     (if (case (qp_limit p, qp_used p) of (Some l, Some u) \<Rightarrow> l > 0 \<and> u \<ge> l | _ \<Rightarrow> False) then True
      else (case qp_remaining p of None \<Rightarrow> False | Some r \<Rightarrow> r \<le> 0))"

definition claims_positive_budget :: "quota_pool \<Rightarrow> bool" where
  "claims_positive_budget p =
     (if (case qp_remaining p of None \<Rightarrow> False | Some r \<Rightarrow> r > 0) then True
      else if (case qp_limit p of None \<Rightarrow> False | Some l \<Rightarrow> l > 0) \<and> qp_used p \<noteq> None then True
      else qp_source p = CodingPlan)"

definition is_known_ineligible_for_model :: "quota_env \<Rightarrow> quota_pool \<Rightarrow> nat \<Rightarrow> string \<Rightarrow> bool" where
  "is_known_ineligible_for_model env p now_secs model =
     (if qp_status p \<in> {PoolAbsent, PoolExhausted, PoolExpired} then True
      else if qp_fetch_error p \<noteq> None \<or> qp_status p = PoolUnavailable then False
      else if qp_source p \<noteq> CodingPlan \<and> qp_model_ids p = [] then False
      else if \<not> matches_model p model then True
      else
        (let starts = map_option (parse_epoch env) (qp_starts_at p);
             expires = map_option (parse_epoch env) (qp_expires_at p)
         in if starts = Some None \<or> expires = Some None then False
            else (case starts of Some (Some v) \<Rightarrow> v > now_secs | _ \<Rightarrow> False) \<or>
                 (case expires of Some (Some v) \<Rightarrow> v \<le> now_secs | _ \<Rightarrow> False) \<or>
                 has_known_exhaustion p))"

definition is_usable_for_model :: "quota_env \<Rightarrow> quota_pool \<Rightarrow> nat \<Rightarrow> string \<Rightarrow> bool" where
  "is_usable_for_model env p now_secs model \<longleftrightarrow>
     matches_model p model \<and> qp_status p = PoolActive \<and> qp_fetch_error p = None \<and>
     within_validity_window env p now_secs \<and>
     \<not> (case qp_remaining p of None \<Rightarrow> False | Some r \<Rightarrow> r \<le> 0) \<and>
     claims_positive_budget p \<and> \<not> has_known_exhaustion p"

definition reports_exhaustion_for_model :: "quota_env \<Rightarrow> quota_pool \<Rightarrow> nat \<Rightarrow> string \<Rightarrow> bool" where
  "reports_exhaustion_for_model env p now_secs model =
     (if \<not> matches_model p model \<or> qp_fetch_error p \<noteq> None then False
      else case qp_status p of
             PoolAbsent \<Rightarrow> True | PoolExhausted \<Rightarrow> True | PoolExpired \<Rightarrow> True
           | PoolActive \<Rightarrow> within_validity_window env p now_secs \<and> has_known_exhaustion p
           | PoolUnavailable \<Rightarrow> False)"

definition usable_fraction :: "quota_pool \<Rightarrow> rat" where
  "usable_fraction p =
     (case qp_limit p of
        None \<Rightarrow> 1
      | Some limit \<Rightarrow>
          (if limit \<le> 0 then 1
           else
             (let remaining = (case qp_remaining p of
                                 Some r \<Rightarrow> r
                               | None \<Rightarrow> (case qp_used p of
                                           Some used \<Rightarrow> max 0 (i64_saturating_add limit (- used))
                                         | None \<Rightarrow> limit))
              in max 0 (min 1 (of_int (max 0 (min limit remaining)) / of_int limit)))))"

definition is_starter :: "quota_pool \<Rightarrow> bool" where
  "is_starter p \<longleftrightarrow> qp_source p = AutoclawStarter \<or> qp_source p = ZcodeStarter"

definition usable_pool :: "quota_env \<Rightarrow> quota_source \<Rightarrow> quota_pool list \<Rightarrow> string \<Rightarrow> nat \<Rightarrow> quota_pool option" where
  "usable_pool env src pools model now_secs =
     find (\<lambda>p. qp_source p = src \<and> is_usable_for_model env p now_secs model) pools"

text \<open>The two loops over the sources are written out source by source.\<close>

definition zai_remaining_fraction :: "quota_env \<Rightarrow> quota_pool list \<Rightarrow> string \<Rightarrow> nat \<Rightarrow> rat option" where
  "zai_remaining_fraction env pools model now_secs =
     (case usable_pool env AutoclawStarter pools model now_secs of
        Some p \<Rightarrow> Some (usable_fraction p)
      | None \<Rightarrow>
          (case usable_pool env ZcodeStarter pools model now_secs of
             Some p \<Rightarrow> Some (usable_fraction p)
           | None \<Rightarrow>
               (if \<not> list_ex is_starter pools \<or>
                    list_ex (\<lambda>p. is_starter p \<and> \<not> is_known_ineligible_for_model env p now_secs model) pools
                then None
                else
                  (case usable_pool env CodingPlan pools model now_secs of
                     Some p \<Rightarrow> Some (usable_fraction p)
                   | None \<Rightarrow>
                       (if list_ex (\<lambda>p. (matches_model p model \<or> (qp_source p \<noteq> CodingPlan \<and> qp_model_ids p = [])) \<and>
                                        (qp_fetch_error p \<noteq> None \<or> qp_status p = PoolUnavailable)) pools
                        then None
                        else if list_ex (\<lambda>p. reports_exhaustion_for_model env p now_secs model) pools
                        then Some 0
                        else None)))))"

section \<open>The quota of an account\<close>

record quota_account =
  qa_provider_id :: string
  qa_priority :: int
  qa_quota_session_used :: "int option"
  qa_quota_session_limit :: "int option"
  qa_quota_weekly_used :: "int option"
  qa_quota_weekly_limit :: "int option"
  qa_quota_model_details :: "model_quota_detail list option"
  qa_quota_pools :: "quota_pool list option"
  qa_oauth_provider_specific :: "string option"
  qa_extra_config_json :: "string option"

datatype quota_status = Available | Protected | Exhausted

definition find_model_quota_detail :: "quota_account \<Rightarrow> string list \<Rightarrow> model_quota_detail option" where
  "find_model_quota_detail a candidates =
     (case qa_quota_model_details a of
        None \<Rightarrow> None
      | Some details \<Rightarrow>
          (case List.map_filter (\<lambda>c. find (\<lambda>d. eq_ignore_ascii_case c (mq_model_id d)) details) candidates of
             d # _ \<Rightarrow> Some d
           | [] \<Rightarrow>
               (case List.map_filter (\<lambda>c. find (\<lambda>d. eq_ignore_ascii_case (normalize_model_id c)
                       (normalize_model_id (mq_model_id d))) details) candidates of
                  d # _ \<Rightarrow> Some d
                | [] \<Rightarrow> None)))"

definition monthly_window_detail :: "model_quota_detail list \<Rightarrow> model_quota_detail option" where
  "monthly_window_detail details =
     find (\<lambda>d. mq_model_id d = ''Monthly Limit'' \<or> mq_model_id d = ''Monthly Window'') details"

definition is_monthly_window_exhausted :: "quota_account \<Rightarrow> bool" where
  "is_monthly_window_exhausted a =
     (case qa_quota_model_details a of
        None \<Rightarrow> False
      | Some details \<Rightarrow>
          (case monthly_window_detail details of
             None \<Rightarrow> False
           | Some d \<Rightarrow> mq_remaining_fraction d \<le> 0 \<or> (mq_session_limit d > 0 \<and> mq_session_used d \<ge> mq_session_limit d)))"

definition json_as_f64 :: "json \<Rightarrow> rat option" where
  "json_as_f64 v = (case v of JInt i \<Rightarrow> Some (of_int i) | JFloat f \<Rightarrow> Some f | _ \<Rightarrow> None)"

definition parse_number_value :: "quota_env \<Rightarrow> json \<Rightarrow> rat option" where
  "parse_number_value env v =
     (case json_as_f64 v of
        Some n \<Rightarrow> Some n
      | None \<Rightarrow>
          (case json_as_str v of
             Some s \<Rightarrow> qe_parse_f64 env (filter (\<lambda>c. c \<noteq> CHR '','') (trim s))
           | None \<Rightarrow> None))"

definition first_key :: "json \<Rightarrow> string list \<Rightarrow> json option" where
  "first_key v keys = (case List.map_filter (json_get v) keys of x # _ \<Rightarrow> Some x | [] \<Rightarrow> None)"

definition parse_credits_and_total_from_json :: "quota_env \<Rightarrow> string \<Rightarrow> (rat \<times> rat option) option" where
  "parse_credits_and_total_from_json env raw =
     (case qe_parse_json env raw of
        None \<Rightarrow> None
      | Some v \<Rightarrow>
          (case first_key v [''credit_balance'', ''credits'', ''op_credit_balance'', ''remains'',
                  ''remaining_amount'', ''total_remaining_amount''] of
             None \<Rightarrow> None
           | Some rem_val \<Rightarrow>
               (case parse_number_value env rem_val of
                  None \<Rightarrow> None
                | Some rem \<Rightarrow>
                    Some (rem, Option.bind
                      (first_key v [''total_amount'', ''total_credits'', ''initial_credits'', ''credit_limit'',
                         ''total_limit'', ''total'']) (parse_number_value env)))))"

definition get_credit_balance_info :: "quota_env \<Rightarrow> quota_account \<Rightarrow> (rat \<times> rat option) option" where
  "get_credit_balance_info env a =
     (case Option.bind (qa_oauth_provider_specific a) (parse_credits_and_total_from_json env) of
        Some x \<Rightarrow> Some x
      | None \<Rightarrow> Option.bind (qa_extra_config_json a) (parse_credits_and_total_from_json env))"

definition MINIMAX_DEFAULT_CREDIT_BASELINE :: rat where
  "MINIMAX_DEFAULT_CREDIT_BASELINE = 1000000"

definition clamp01 :: "rat \<Rightarrow> rat" where
  "clamp01 x = max 0 (min 1 x)"

definition get_credit_balance_fraction :: "quota_env \<Rightarrow> quota_account \<Rightarrow> rat option" where
  "get_credit_balance_fraction env a =
     (case get_credit_balance_info env a of
        None \<Rightarrow> None
      | Some (rem, total_opt) \<Rightarrow>
          (if rem \<le> 0 then Some 0
           else case (case total_opt of Some t \<Rightarrow> if t > 0 then Some t else None | None \<Rightarrow> None) of
                  Some t \<Rightarrow> Some (clamp01 (rem / t))
                | None \<Rightarrow>
                    (case (case qa_quota_session_limit a of Some l \<Rightarrow> if l > 0 then Some l else None | None \<Rightarrow> None) of
                       Some l \<Rightarrow> Some (clamp01 (rem / of_int l))
                     | None \<Rightarrow>
                         (if eq_ignore_ascii_case (qa_provider_id a) ''minimax''
                          then Some (clamp01 (rem / MINIMAX_DEFAULT_CREDIT_BASELINE))
                          else if rem \<le> 1 then Some (clamp01 rem)
                          else None))))"

definition is_credit_balance_exhausted :: "quota_env \<Rightarrow> quota_account \<Rightarrow> bool" where
  "is_credit_balance_exhausted env a =
     (case get_credit_balance_info env a of None \<Rightarrow> False | Some (rem, _) \<Rightarrow> rem \<le> 0)"

definition quota_window_exhausted :: "int option \<Rightarrow> int option \<Rightarrow> bool" where
  "quota_window_exhausted used limit = (case (used, limit) of (Some u, Some l) \<Rightarrow> u \<ge> l | _ \<Rightarrow> False)"

definition check_quota_windows_exhausted :: "quota_env \<Rightarrow> quota_account \<Rightarrow> string list \<Rightarrow> bool" where
  "check_quota_windows_exhausted env a candidates =
     (if find_model_quota_detail a candidates \<noteq> None then is_credit_balance_exhausted env a
      else quota_window_exhausted (qa_quota_session_used a) (qa_quota_session_limit a) \<or>
           quota_window_exhausted (qa_quota_weekly_used a) (qa_quota_weekly_limit a) \<or>
           is_monthly_window_exhausted a \<or> is_credit_balance_exhausted env a)"

definition calculate_remaining_fraction :: "int option \<Rightarrow> int option \<Rightarrow> rat option" where
  "calculate_remaining_fraction used limit =
     (case (used, limit) of
        (Some u, Some l) \<Rightarrow> if l > 0 then Some (of_int (i64_saturating_add l (- u)) / of_int l) else None
      | _ \<Rightarrow> None)"

definition first_candidate :: "string list \<Rightarrow> string" where
  "first_candidate cs = (case cs of c # _ \<Rightarrow> c | [] \<Rightarrow> [])"

definition get_account_remaining_fraction :: "quota_env \<Rightarrow> nat \<Rightarrow> quota_account \<Rightarrow> string list \<Rightarrow> rat" where
  "get_account_remaining_fraction env now_secs a candidates =
     (case (if qa_provider_id a = ''zai'' then qa_quota_pools a else None) of
        Some pools \<Rightarrow>
          (case zai_remaining_fraction env pools (first_candidate candidates) now_secs of Some f \<Rightarrow> f | None \<Rightarrow> 1)
      | None \<Rightarrow>
          (if is_credit_balance_exhausted env a then 0
           else case find_model_quota_detail a candidates of
                  Some d \<Rightarrow>
                    min (mq_remaining_fraction d)
                      (case get_credit_balance_fraction env a of Some c \<Rightarrow> c | None \<Rightarrow> 1)
                | None \<Rightarrow>
                    (let session_or_weekly =
                           (case calculate_remaining_fraction (qa_quota_session_used a) (qa_quota_session_limit a) of
                              Some f \<Rightarrow> Some f
                            | None \<Rightarrow> calculate_remaining_fraction (qa_quota_weekly_used a) (qa_quota_weekly_limit a));
                         monthly = map_option mq_remaining_fraction
                           (Option.bind (qa_quota_model_details a) monthly_window_detail);
                         fs = List.map_filter id [get_credit_balance_fraction env a, session_or_weekly, monthly]
                     in case fs of [] \<Rightarrow> 1 | f # rest \<Rightarrow> fold (\<lambda>x acc. min acc x) rest f)))"

definition zai_pools_stale :: "nat \<Rightarrow> quota_pool list \<Rightarrow> bool" where
  "zai_pools_stale now_secs pools \<longleftrightarrow>
     \<not> list_ex (\<lambda>p. qp_source p = ZcodeStarter) pools \<or> \<not> list_ex (\<lambda>p. qp_source p = CodingPlan) pools \<or>
     list_ex (\<lambda>p. case parse_unsigned U64_MAX (qp_last_fetched_at p) of
                    None \<Rightarrow> True
                  | Some fetched \<Rightarrow> fetched > now_secs \<or> saturating_sub now_secs fetched > 60) pools"

definition evaluate_account_quota :: "quota_env \<Rightarrow> nat \<Rightarrow> bool \<Rightarrow> nat \<Rightarrow> quota_account \<Rightarrow> string list \<Rightarrow> quota_status" where
  "evaluate_account_quota env now_secs protection threshold_percentage a candidates =
     (if qa_provider_id a = ''zai'' then
        (case qa_quota_pools a of
           None \<Rightarrow> Available
         | Some pools \<Rightarrow>
             (if pools = [] \<or> zai_pools_stale now_secs pools then Available
              else case zai_remaining_fraction env pools (first_candidate candidates) now_secs of
                     Some v \<Rightarrow>
                       (if v \<le> 0 then Exhausted
                        else if protection \<and> v \<le> of_nat threshold_percentage / 100 then Protected
                        else Available)
                   | None \<Rightarrow> Available))
      else if check_quota_windows_exhausted env a candidates then Exhausted
      else
        (let remaining = get_account_remaining_fraction env now_secs a candidates
         in if remaining \<le> 0 then Exhausted
            else if protection \<and> remaining \<le> of_nat threshold_percentage / 100 then Protected
            else Available))"

section \<open>Routing by quota\<close>

text \<open>
  A resolved target is its combo target with the id of its model; \<open>get_account\<close> is the cached
  account read of the repository, \<open>None\<close> when it fails or finds nothing.
\<close>

record target_with_quota =
  tq_resolved_target :: resolved_target
  tq_status :: quota_status
  tq_remaining_fraction :: rat
  tq_priority :: int
  tq_target_position :: nat

definition enrich_target_with_quota ::
    "quota_env \<Rightarrow> nat \<Rightarrow> bool \<Rightarrow> nat \<Rightarrow> (account_id \<Rightarrow> quota_account option) \<Rightarrow> string \<Rightarrow> nat \<Rightarrow> resolved_target \<Rightarrow> target_with_quota" where
  "enrich_target_with_quota env now_secs protection threshold get_account requested_model pos t =
     (case Option.bind (ct_account_id (rt_target t)) get_account of
        None \<Rightarrow>
          \<lparr> tq_resolved_target = t, tq_status = Available, tq_remaining_fraction = 1, tq_priority = 0,
            tq_target_position = pos \<rparr>
      | Some a \<Rightarrow>
          (let candidates = (if eq_ignore_ascii_case (rt_model_id t) requested_model then [rt_model_id t]
                             else [rt_model_id t, requested_model])
           in \<lparr> tq_resolved_target = t,
                tq_status = evaluate_account_quota env now_secs protection threshold a candidates,
                tq_remaining_fraction = get_account_remaining_fraction env now_secs a candidates,
                tq_priority = qa_priority a, tq_target_position = pos \<rparr>))"

definition cmp_rat :: "rat \<Rightarrow> rat \<Rightarrow> ordering" where
  "cmp_rat a b = (if a < b then Less else if a = b then Equal else Greater)"

definition compare_targets_with_quota :: "target_with_quota \<Rightarrow> target_with_quota \<Rightarrow> ordering" where
  "compare_targets_with_quota a b =
     then_with (cmp_nat (tq_target_position a) (tq_target_position b))
       (then_with (cmp_int (tq_priority a) (tq_priority b))
          (cmp_rat (tq_remaining_fraction b) (tq_remaining_fraction a)))"

text \<open>The position of a target id is the rank of its first occurrence among the distinct ids.\<close>

fun assign_positions :: "combo_target_id list \<Rightarrow> nat \<Rightarrow> (combo_target_id, nat) hmap \<Rightarrow> (combo_target_id, nat) hmap" where
  "assign_positions [] next m = m"
| "assign_positions (i # is) next m =
     (case hm_get m i of
        Some _ \<Rightarrow> assign_positions is next m
      | None \<Rightarrow> assign_positions is (Suc next) (hm_put i next m))"

definition apply_quota_routing ::
    "quota_env \<Rightarrow> nat \<Rightarrow> bool \<Rightarrow> nat \<Rightarrow> (account_id \<Rightarrow> quota_account option) \<Rightarrow> string \<Rightarrow> resolved_target list \<Rightarrow> resolved_target list" where
  "apply_quota_routing env now_secs protection threshold get_account requested_model targets =
     (let positions = assign_positions (map (ct_id \<circ> rt_target) targets) 0 [];
          processed = map (\<lambda>t. enrich_target_with_quota env now_secs protection threshold get_account requested_model
            (case hm_get positions (ct_id (rt_target t)) of Some p \<Rightarrow> p | None \<Rightarrow> 0) t) targets;
          non_exhausted = filter (\<lambda>t. tq_status t \<noteq> Exhausted) processed;
          has_available = list_ex (\<lambda>t. tq_status t = Available) non_exhausted;
          final = (if has_available then filter (\<lambda>t. tq_status t = Available) non_exhausted else non_exhausted)
      in map tq_resolved_target (sort_by compare_targets_with_quota final))"

section \<open>Positions\<close>

definition first_index :: "'a list \<Rightarrow> 'a \<Rightarrow> nat" where
  "first_index xs x = length (takeWhile (\<lambda>y. y \<noteq> x) xs)"

definition hm_known :: "('k, 'v) hmap \<Rightarrow> 'k set" where
  "hm_known m = {j. hm_get m j \<noteq> None}"

lemma hm_known_simps:
  "hm_known [] = {}" "hm_known (hm_put j v m) = insert j (hm_known m)" "j \<in> hm_known m \<longleftrightarrow> hm_get m j \<noteq> None"
  by (auto simp: hm_known_def hm_simps)

lemma assign_positions_get:
  "hm_get (assign_positions is n m) i =
     (case hm_get m i of
        Some p \<Rightarrow> Some p
      | None \<Rightarrow> if i \<in> set is then Some (n + card (set (takeWhile (\<lambda>y. y \<noteq> i) is) - hm_known m)) else None)"
proof (induction "is" n m rule: assign_positions.induct)
  case (2 j js n m)
  let ?T = "set (takeWhile (\<lambda>y. y \<noteq> i) js)"
  show ?case
  proof (cases "hm_get m j")
    case None
    have "insert j ?T - hm_known m = insert j (?T - insert j (hm_known m))"
      using None by (auto simp: hm_known_simps)
    then have "card (insert j ?T - hm_known m) = Suc (card (?T - insert j (hm_known m)))"
      by (simp add: card_insert_if)
    then show ?thesis using 2 None by (auto simp: hm_simps hm_known_simps split: option.splits)
  next
    case (Some p)
    then have "insert j ?T - hm_known m = ?T - hm_known m" by (auto simp: hm_known_simps)
    then show ?thesis using 2 Some by (cases "i = j") (simp_all split: option.splits)
  qed
qed (simp split: option.splits)

lemma first_index_less_prefix:
  assumes "first_index xs a < first_index xs b"
  shows "set (takeWhile (\<lambda>y. y \<noteq> a) xs) \<subset> set (takeWhile (\<lambda>y. y \<noteq> b) xs)"
proof
  show "set (takeWhile (\<lambda>y. y \<noteq> a) xs) \<subseteq> set (takeWhile (\<lambda>y. y \<noteq> b) xs)"
    using assms by (induction xs) (auto simp: first_index_def split: if_splits)
  have "a \<in> set (takeWhile (\<lambda>y. y \<noteq> b) xs)"
    using assms by (induction xs) (auto simp: first_index_def split: if_splits)
  moreover have "a \<notin> set (takeWhile (\<lambda>y. y \<noteq> a) xs)" by (auto dest: set_takeWhileD)
  ultimately show "set (takeWhile (\<lambda>y. y \<noteq> a) xs) \<noteq> set (takeWhile (\<lambda>y. y \<noteq> b) xs)" by metis
qed

definition target_position :: "combo_target_id list \<Rightarrow> combo_target_id \<Rightarrow> nat" where
  "target_position ids i = (case hm_get (assign_positions ids 0 []) i of Some p \<Rightarrow> p | None \<Rightarrow> 0)"

lemma target_position_mono:
  assumes "a \<in> set ids" and "b \<in> set ids" and "first_index ids a < first_index ids b"
  shows "target_position ids a < target_position ids b"
  using assms psubset_card_mono [OF _ first_index_less_prefix [OF assms(3)]]
  by (simp add: target_position_def assign_positions_get hm_known_simps)

lemma first_index_inject:
  assumes "a \<in> set xs" and "b \<in> set xs" and "first_index xs a = first_index xs b"
  shows "a = b"
  using assms by (induction xs) (auto simp: first_index_def split: if_splits)

lemma target_position_cases:
  assumes "a \<in> set ids" and "b \<in> set ids" and "target_position ids a \<le> target_position ids b"
  shows "a = b \<or> first_index ids a < first_index ids b"
  using assms target_position_mono [of b ids a] first_index_inject [of a ids b]
  by (metis linorder_neqE_nat not_le)

section \<open>Quota routing is exact\<close>

definition quota_of ::
    "quota_env \<Rightarrow> nat \<Rightarrow> bool \<Rightarrow> nat \<Rightarrow> (account_id \<Rightarrow> quota_account option) \<Rightarrow> string \<Rightarrow> resolved_target \<Rightarrow> target_with_quota" where
  "quota_of env now_secs protection threshold get_account requested_model t =
     enrich_target_with_quota env now_secs protection threshold get_account requested_model 0 t"

lemma enrich_simps [simp]:
  "tq_resolved_target (enrich_target_with_quota env n pr th ga rm p t) = t"
  "tq_target_position (enrich_target_with_quota env n pr th ga rm p t) = p"
  "tq_status (enrich_target_with_quota env n pr th ga rm p t) = tq_status (quota_of env n pr th ga rm t)"
  "tq_priority (enrich_target_with_quota env n pr th ga rm p t) = tq_priority (quota_of env n pr th ga rm t)"
  "tq_remaining_fraction (enrich_target_with_quota env n pr th ga rm p t) = tq_remaining_fraction (quota_of env n pr th ga rm t)"
  by (simp_all add: quota_of_def enrich_target_with_quota_def Let_def split: option.splits)

definition quota_keeps :: "(resolved_target \<Rightarrow> target_with_quota) \<Rightarrow> resolved_target list \<Rightarrow> resolved_target \<Rightarrow> bool" where
  "quota_keeps q ts t \<longleftrightarrow>
     (if \<exists>u \<in> set ts. tq_status (q u) = Available then tq_status (q t) = Available else tq_status (q t) \<noteq> Exhausted)"

definition quota_before :: "(resolved_target \<Rightarrow> target_with_quota) \<Rightarrow> resolved_target list \<Rightarrow> resolved_target \<Rightarrow> resolved_target \<Rightarrow> bool" where
  "quota_before q ts a b \<longleftrightarrow>
     (let i = ct_id (rt_target a); j = ct_id (rt_target b); ids = map (ct_id \<circ> rt_target) ts
      in first_index ids i < first_index ids j \<or>
         (i = j \<and> (tq_priority (q a) < tq_priority (q b) \<or>
            (tq_priority (q a) = tq_priority (q b) \<and> tq_remaining_fraction (q b) \<le> tq_remaining_fraction (q a)))))"

lemma sort_comparator_rat: "sort_comparator (\<lambda>x y. cmp_rat (f x) (f y))"
  by unfold_locales (auto simp: cmp_rat_def split: if_splits)

lemma sort_comparator_quota: "sort_comparator compare_targets_with_quota"
  unfolding compare_targets_with_quota_def
  by (intro sort_comparator_then_with sort_comparator_nat sort_comparator_int
      sort_comparator_flip [OF sort_comparator_rat])

lemma compare_targets_with_quota_iff:
  "compare_targets_with_quota a b \<noteq> Greater \<longleftrightarrow>
     tq_target_position a < tq_target_position b \<or> (tq_target_position a = tq_target_position b \<and>
       (tq_priority a < tq_priority b \<or>
        (tq_priority a = tq_priority b \<and> tq_remaining_fraction b \<le> tq_remaining_fraction a)))"
  by (auto simp: compare_targets_with_quota_def then_with_def cmp_nat_def cmp_int_def cmp_rat_def)

lemma mset_map_filter_enrich:
  "mset (map tq_resolved_target (sort_by cmp (filter P (map f ts)))) =
     mset (map (\<lambda>t. tq_resolved_target (f t)) (filter (\<lambda>t. P (f t)) ts))"
proof -
  have "filter P (map f ts) = map f (filter (\<lambda>t. P (f t)) ts)" by (simp add: filter_map comp_def)
  then have "mset (map tq_resolved_target (sort_by cmp (filter P (map f ts)))) =
      image_mset tq_resolved_target (mset (map f (filter (\<lambda>t. P (f t)) ts)))" by (simp only: mset_map mset_sort_by)
  then show ?thesis by (simp add: image_mset.compositionality comp_def)
qed

lemma apply_quota_routing_alt:
  "apply_quota_routing env now_secs protection threshold get_account requested_model targets =
     map tq_resolved_target (sort_by compare_targets_with_quota
       (filter (\<lambda>x. quota_keeps (quota_of env now_secs protection threshold get_account requested_model) targets (tq_resolved_target x))
         (map (\<lambda>t. enrich_target_with_quota env now_secs protection threshold get_account requested_model
            (target_position (map (ct_id \<circ> rt_target) targets) (ct_id (rt_target t))) t) targets)))"
proof -
  let ?q = "quota_of env now_secs protection threshold get_account requested_model"
  let ?e = "\<lambda>t. enrich_target_with_quota env now_secs protection threshold get_account requested_model
            (target_position (map (ct_id \<circ> rt_target) targets) (ct_id (rt_target t))) t"
  have av: "list_ex (\<lambda>t. tq_status t = Available) (filter (\<lambda>t. tq_status t \<noteq> Exhausted) (map ?e targets)) \<longleftrightarrow>
      (\<exists>u \<in> set targets. tq_status (?q u) = Available)" 
    by (simp add: list_ex_iff) (metis quota_status.distinct(3))
  have [simp]: "(st \<noteq> Exhausted \<and> st = Available) \<longleftrightarrow> st = Available" for st by auto
  have "(if \<exists>u \<in> set targets. tq_status (?q u) = Available
         then filter (\<lambda>t. tq_status t = Available) (filter (\<lambda>t. tq_status t \<noteq> Exhausted) (map ?e targets))
         else filter (\<lambda>t. tq_status t \<noteq> Exhausted) (map ?e targets)) =
      filter (\<lambda>x. quota_keeps ?q targets (tq_resolved_target x)) (map ?e targets)"
    by (auto simp: quota_keeps_def filter_map comp_def intro!: filter_cong arg_cong [where f = "map ?e"])
  then show ?thesis
    unfolding apply_quota_routing_def Let_def target_position_def [symmetric] av by (simp only:)
qed

text \<open>
  C16: quota routing keeps what it should, in order. What is left are the targets with quota
  available, or, when there is none, those that are not exhausted. Targets stay in the order in
  which they first occur; the accounts of one target are tried by priority and then by the share
  of quota they have left.
\<close>

theorem quota_routing_exact:
  "mset (apply_quota_routing env now_secs protection threshold get_account requested_model targets) =
       mset (filter (quota_keeps (quota_of env now_secs protection threshold get_account requested_model) targets) targets) \<and>
     sorted_wrt (quota_before (quota_of env now_secs protection threshold get_account requested_model) targets)
       (apply_quota_routing env now_secs protection threshold get_account requested_model targets)"
proof (rule conjI)
  let ?q = "quota_of env now_secs protection threshold get_account requested_model"
  let ?ids = "map (ct_id \<circ> rt_target) targets"
  let ?e = "\<lambda>t. enrich_target_with_quota env now_secs protection threshold get_account requested_model
            (target_position ?ids (ct_id (rt_target t))) t"
  let ?L = "sort_by compare_targets_with_quota (filter (\<lambda>x. quota_keeps ?q targets (tq_resolved_target x)) (map ?e targets))"
  have out: "apply_quota_routing env now_secs protection threshold get_account requested_model targets = map tq_resolved_target ?L"
    by (rule apply_quota_routing_alt)
  then show "mset (apply_quota_routing env now_secs protection threshold get_account requested_model targets) =
      mset (filter (quota_keeps ?q targets) targets)"
    by (simp only: mset_map_filter_enrich enrich_simps) simp
  have "sorted_wrt (\<lambda>a b. compare_targets_with_quota a b \<noteq> Greater) ?L"
    by (rule sort_comparator.sort_by_sorted [OF sort_comparator_quota])
  then have "sorted_wrt (\<lambda>a b. quota_before ?q targets (tq_resolved_target a) (tq_resolved_target b)) ?L"
  proof (rule sorted_wrt_mono_rel [rotated])
    fix x y assume xy: "x \<in> set ?L" "y \<in> set ?L" and le: "compare_targets_with_quota x y \<noteq> Greater"
    then obtain a b where ab: "x = ?e a" "y = ?e b" "a \<in> set targets" "b \<in> set targets" by auto
    then have ids: "ct_id (rt_target a) \<in> set ?ids" "ct_id (rt_target b) \<in> set ?ids" by auto
    show "quota_before ?q targets (tq_resolved_target x) (tq_resolved_target y)"
      using le target_position_cases [OF ids] unfolding ab compare_targets_with_quota_iff
      by (auto simp: quota_before_def Let_def)
  qed
  then show "sorted_wrt (quota_before ?q targets)
      (apply_quota_routing env now_secs protection threshold get_account requested_model targets)"
    by (simp add: out sorted_wrt_map)
qed

section \<open>Verdicts on quota pools\<close>

lemma usable_fraction_pos:
  assumes "is_usable_for_model env p now_secs model"
  shows "0 < usable_fraction p"
proof (cases "qp_limit p")
  case (Some limit)
  have rem: "0 < r" if "qp_remaining p = Some r" for r using that assms by (auto simp: is_usable_for_model_def)
  have used: "u < limit" if "qp_used p = Some u" "limit > 0" for u
    using that Some assms by (auto simp: is_usable_for_model_def has_known_exhaustion_def split: if_splits)
  show ?thesis
  proof (cases "limit > 0")
    case True
    define remaining where "remaining = (case qp_remaining p of Some r \<Rightarrow> r
        | None \<Rightarrow> (case qp_used p of Some used \<Rightarrow> max 0 (i64_saturating_add limit (- used)) | None \<Rightarrow> limit))"
    have "0 < remaining"
      using True rem used by (auto simp: remaining_def int_ops split: option.splits)
    then have "(0 :: rat) < of_int (max 0 (min limit remaining)) / of_int limit" using True by simp
    then have "0 < max 0 (min 1 (of_int (max 0 (min limit remaining)) / of_int limit :: rat))" by simp
    then show ?thesis using Some True by (simp add: usable_fraction_def remaining_def Let_def)
  qed (simp add: usable_fraction_def Some)
qed (simp add: usable_fraction_def)

lemma usable_pool_SomeD:
  "usable_pool env src pools model now_secs = Some p \<Longrightarrow>
     p \<in> set pools \<and> qp_source p = src \<and> is_usable_for_model env p now_secs model"
  by (auto simp: usable_pool_def find_Some_iff)

lemma usable_pool_NoneD:
  "usable_pool env src pools model now_secs = None \<Longrightarrow> p \<in> set pools \<Longrightarrow> qp_source p = src \<Longrightarrow>
     \<not> is_usable_for_model env p now_secs model"
  by (auto simp: usable_pool_def find_None_iff)

definition unreadable_for :: "quota_pool \<Rightarrow> string \<Rightarrow> bool" where
  "unreadable_for p model \<longleftrightarrow>
     (matches_model p model \<or> (qp_source p \<noteq> CodingPlan \<and> qp_model_ids p = [])) \<and>
     (qp_fetch_error p \<noteq> None \<or> qp_status p = PoolUnavailable)"

text \<open>
  what the pools of an account say. A positive verdict is the share of one pool that may serve
  the model, and the paid plan is only drawn on when starter pools exist and all of them are a
  definite no. A verdict of nothing left is never made from data that could not be read: some pool
  that covers the model reports exhaustion, none is unreadable and none is usable.
\<close>

theorem zai_verdicts:
  assumes "zai_remaining_fraction env pools model now_secs = Some v"
  shows "(v > 0 \<longrightarrow> (\<exists>p \<in> set pools. is_usable_for_model env p now_secs model \<and> v = usable_fraction p \<and>
       (qp_source p = CodingPlan \<longrightarrow>
          list_ex is_starter pools \<and>
          (\<forall>s \<in> set pools. is_starter s \<longrightarrow> is_known_ineligible_for_model env s now_secs model)))) \<and>
     (v \<le> 0 \<longrightarrow> v = 0 \<and>
       (\<exists>p \<in> set pools. reports_exhaustion_for_model env p now_secs model) \<and>
       (\<forall>p \<in> set pools. \<not> unreadable_for p model \<and> \<not> is_usable_for_model env p now_secs model))"
proof -
  let ?u = "\<lambda>src. usable_pool env src pools model now_secs"
  have pos: "0 < usable_fraction p" if "?u src = Some p" for src p
    using usable_pool_SomeD [OF that] usable_fraction_pos by blast
  have coding: "?u AutoclawStarter = None \<Longrightarrow> ?u ZcodeStarter = None \<Longrightarrow> list_ex is_starter pools \<and>
      (\<forall>s \<in> set pools. is_starter s \<longrightarrow> is_known_ineligible_for_model env s now_secs model)"
    using assms by (auto simp: zai_remaining_fraction_def list_ex_iff split: if_splits)
  consider (pool) src p where "?u src = Some p" "v = usable_fraction p"
      "src = CodingPlan \<longrightarrow> ?u AutoclawStarter = None \<and> ?u ZcodeStarter = None"
    | (zero) "\<And>src. ?u src = None" "v = 0" "\<forall>p \<in> set pools. \<not> unreadable_for p model"
      "\<exists>p \<in> set pools. reports_exhaustion_for_model env p now_secs model"
  proof (cases "?u AutoclawStarter")
    case (Some p)
    then show thesis using assms by (intro pool [of AutoclawStarter p]) (simp_all add: zai_remaining_fraction_def)
  next
    case auto: None
    show thesis
    proof (cases "?u ZcodeStarter")
      case (Some p)
      then show thesis using assms auto by (intro pool [of ZcodeStarter p]) (simp_all add: zai_remaining_fraction_def)
    next
      case zcode: None
      show thesis
      proof (cases "?u CodingPlan")
        case (Some p)
        then show thesis using assms auto zcode
          by (intro pool [of CodingPlan p]) (simp_all add: zai_remaining_fraction_def split: if_splits)
      next
        case None
        have "?u src = None" for src using auto zcode None by (cases src) simp_all
        with assms show thesis
          by (intro zero) (auto simp: zai_remaining_fraction_def unreadable_for_def list_ex_iff split: if_splits)
      qed
    qed
  qed
  then show ?thesis
  proof cases
    case pool
    have "p \<in> set pools \<and> qp_source p = src \<and> is_usable_for_model env p now_secs model"
      by (rule usable_pool_SomeD [OF pool(1)])
    with pool(2,3) pos [OF pool(1)] coding show ?thesis by (intro conjI impI bexI [of _ p]) simp_all
  next
    case zero
    then have "\<forall>p \<in> set pools. \<not> is_usable_for_model env p now_secs model" using usable_pool_NoneD by blast
    with zero show ?thesis by simp
  qed
qed

definition no_parse_env :: quota_env where
  "no_parse_env = \<lparr> qe_parse_timestamp = (\<lambda>_. None), qe_parse_json = (\<lambda>_. None), qe_parse_f64 = (\<lambda>_. None) \<rparr>"

definition spent_starter :: quota_pool where
  "spent_starter = \<lparr> qp_source = ZcodeStarter, qp_status = PoolExhausted, qp_used = None, qp_limit = None,
     qp_remaining = Some 0, qp_expires_at = None, qp_starts_at = None, qp_model_ids = [''glm''],
     qp_fetch_error = None, qp_last_fetched_at = ''0'' \<rparr>"

definition paid_plan :: quota_pool where
  "paid_plan = \<lparr> qp_source = CodingPlan, qp_status = PoolActive, qp_used = Some 4, qp_limit = Some 10,
     qp_remaining = None, qp_expires_at = None, qp_starts_at = None, qp_model_ids = [],
     qp_fetch_error = None, qp_last_fetched_at = ''0'' \<rparr>"

theorem zai_verdicts_witness:
  "zai_remaining_fraction no_parse_env [spent_starter, paid_plan] ''glm'' 0 = Some (3 / 5) \<and>
   (\<exists>p \<in> set [spent_starter, paid_plan]. is_usable_for_model no_parse_env p 0 ''glm'' \<and> 3 / 5 = usable_fraction p)"
proof -
  have "zai_remaining_fraction no_parse_env [spent_starter, paid_plan] ''glm'' 0 = Some (3 / 5)"
    by code_simp
  with zai_verdicts [OF this] show ?thesis by auto
qed

end
