(* ===== verification/Utf8.thy ===== *)
theory Utf8
  imports OP_Prelude
begin

text \<open>
  Text of the language's string type: a string is a list of bytes that is well-formed UTF-8. The
  standard library's character boundaries, the search for the next one in both directions, and what
  well-formedness gives at a boundary that follows an ASCII character.
\<close>

section \<open>Boundaries\<close>

definition is_continuation_byte :: "char \<Rightarrow> bool" where
  "is_continuation_byte c \<longleftrightarrow> (let n = of_char c :: nat in 128 \<le> n \<and> n < 192)"

definition is_char_boundary :: "string \<Rightarrow> nat \<Rightarrow> bool" where
  "is_char_boundary s i \<longleftrightarrow> i = 0 \<or> i = length s \<or> (i < length s \<and> \<not> is_continuation_byte (s ! i))"

fun floor_boundary :: "string \<Rightarrow> nat \<Rightarrow> nat" where
  "floor_boundary s 0 = 0"
| "floor_boundary s (Suc n) = (if is_char_boundary s (Suc n) then Suc n else floor_boundary s n)"

function ceil_boundary :: "string \<Rightarrow> nat \<Rightarrow> nat" where
  "ceil_boundary s i = (if i < length s \<and> \<not> is_char_boundary s i then ceil_boundary s (Suc i) else i)"
  by auto
termination
  by (relation "measure (\<lambda>(s, i). length s - i)") auto

declare ceil_boundary.simps [simp del]

lemma floor_boundary_le: "floor_boundary s n \<le> n"
  by (induction s n rule: floor_boundary.induct) auto

lemma floor_boundary_is: "is_char_boundary s (floor_boundary s n)"
  by (induction s n rule: floor_boundary.induct) (auto simp: is_char_boundary_def)

lemma floor_boundary_at [simp]: "is_char_boundary s i \<Longrightarrow> floor_boundary s i = i"
  by (cases i) auto

lemma ceil_boundary_at [simp]: "is_char_boundary s i \<Longrightarrow> ceil_boundary s i = i"
  by (subst ceil_boundary.simps) simp

lemma ceil_boundary_ge: "i \<le> ceil_boundary s i"
  by (induction s i rule: ceil_boundary.induct) (subst ceil_boundary.simps, auto)

section \<open>Well-formed text\<close>

text \<open>\<open>String::from_utf8\<close> accepts exactly the well-formed byte sequences of the Unicode standard.\<close>

definition utf8_cont :: "nat \<Rightarrow> bool" where
  "utf8_cont b \<longleftrightarrow> 128 \<le> b \<and> b \<le> 191"

definition utf8_second_ok :: "nat \<Rightarrow> nat \<Rightarrow> bool" where
  "utf8_second_ok b0 b1 \<longleftrightarrow>
     (if b0 = 224 then 160 \<le> b1 \<and> b1 \<le> 191
      else if b0 = 237 then 128 \<le> b1 \<and> b1 \<le> 159
      else if b0 = 240 then 144 \<le> b1 \<and> b1 \<le> 191
      else if b0 = 244 then 128 \<le> b1 \<and> b1 \<le> 143
      else utf8_cont b1)"

fun utf8_bytes_ok :: "nat list \<Rightarrow> bool" where
  "utf8_bytes_ok [] = True"
| "utf8_bytes_ok (b0 # bs) =
     (if b0 < 128 then utf8_bytes_ok bs
      else if b0 < 194 then False
      else if b0 < 224 then (case bs of b1 # r \<Rightarrow> utf8_cont b1 \<and> utf8_bytes_ok r | _ \<Rightarrow> False)
      else if b0 < 240 then (case bs of b1 # b2 # r \<Rightarrow> utf8_second_ok b0 b1 \<and> utf8_cont b2 \<and> utf8_bytes_ok r | _ \<Rightarrow> False)
      else if b0 < 245 then
        (case bs of b1 # b2 # b3 # r \<Rightarrow> utf8_second_ok b0 b1 \<and> utf8_cont b2 \<and> utf8_cont b3 \<and> utf8_bytes_ok r | _ \<Rightarrow> False)
      else False)"

definition utf8_ok :: "string \<Rightarrow> bool" where
  "utf8_ok s = utf8_bytes_ok (map of_char s)"

section \<open>Where a character may start\<close>

text \<open>\<open>no_stray p bs\<close>: no continuation byte follows an ASCII byte; \<open>p\<close> says that the byte before \<open>bs\<close> is not ASCII.\<close>

fun no_stray :: "bool \<Rightarrow> nat list \<Rightarrow> bool" where
  "no_stray p [] = True"
| "no_stray p (b # bs) \<longleftrightarrow> (utf8_cont b \<longrightarrow> p) \<and> no_stray (128 \<le> b) bs"

definition clean :: "string \<Rightarrow> bool" where
  "clean s = no_stray False (map of_char s)"

lemma no_stray_mono: "no_stray False bs \<Longrightarrow> no_stray p bs"
  by (cases bs) auto

lemma no_stray_append:
  "no_stray p (as @ bs) \<longleftrightarrow> no_stray p as \<and> no_stray (if as = [] then p else 128 \<le> last as) bs"
  by (induction as arbitrary: p) auto

lemma utf8_no_stray: "utf8_bytes_ok bs \<Longrightarrow> no_stray p bs"
proof (induction bs arbitrary: p rule: utf8_bytes_ok.induct)
  case (2 b0 bs)
  then show ?case by (auto simp: utf8_cont_def utf8_second_ok_def split: list.splits if_splits)
qed simp

lemma utf8_clean: "utf8_ok s \<Longrightarrow> clean s"
  by (simp add: utf8_ok_def clean_def utf8_no_stray)

lemma clean_append: "clean a \<Longrightarrow> clean b \<Longrightarrow> clean (a @ b)"
  by (simp add: clean_def no_stray_append no_stray_mono)

lemma clean_prefix: "clean (a @ b) \<Longrightarrow> clean a"
  by (simp add: clean_def no_stray_append)

lemma clean_suffix: "clean (a @ b) \<Longrightarrow> a \<noteq> [] \<Longrightarrow> of_char (last a) < (128 :: nat) \<Longrightarrow> clean b"
  by (auto simp: clean_def no_stray_append last_map)

lemma clean_suffix_hd: "clean (a @ c # b) \<Longrightarrow> \<not> is_continuation_byte c \<Longrightarrow> clean (c # b)"
  by (auto simp: clean_def no_stray_append is_continuation_byte_def utf8_cont_def Let_def)

lemma clean_boundary: "clean b \<Longrightarrow> is_char_boundary (a @ b) (length a)"
  by (cases b) (auto simp: clean_def is_char_boundary_def nth_append is_continuation_byte_def utf8_cont_def Let_def)

end
