(* ===== verification/Error_Policy.thy ===== *)
theory Error_Policy
  imports Combos Utf8
begin

text \<open>
  What routing reads off an error: the classification of upstream bodies
  (openproxy-pipeline/src/error_classification.rs), the health and model-wide predicates
  (pipeline.rs), the terminal-account detector (stages/target_breaker.rs) and the proxy-rotation
  predicates (stages/executor/helpers.rs). \<open>from_str\<close> is serde's JSON parser, a parameter.
\<close>

section \<open>Classification of upstream errors\<close>

definition contains_any :: "string \<Rightarrow> string list \<Rightarrow> bool" where
  "contains_any s ns \<longleftrightarrow> list_ex (str_contains s) ns"

definition invalid_payload_markers :: "string list" where
  "invalid_payload_markers =
     [''base64'', ''input_invalid'', ''invalid value'', ''invalid_request_error'',
      ''invalid_argument'', ''malformed'', ''decoding failed'', ''input required'',
      ''extra data:'', ''unterminated string'',
      ''expecting '' @ [CHR 0x27] @ '','' @ [CHR 0x27] @ '' delimiter'', ''expecting value'',
      ''must be valid json'', ''must be a valid json'', ''validation:'', ''invalid json'',
      ''jsondecodeerror'']"

text \<open>The CodeBuddy branch: a known business code whose class is not \<open>Generic\<close>.\<close>

definition codebuddy_class :: "(string \<Rightarrow> json option) \<Rightarrow> string \<Rightarrow> upstream_error_class option" where
  "codebuddy_class from_str body =
     (case Option.bind (parse_codebuddy_error_code from_str body) codebuddy_from_code of
        None \<Rightarrow> None
      | Some cb \<Rightarrow>
          (let cls = codebuddy_to_upstream_error_class cb
           in if cls \<noteq> Generic then Some cls else None))"

definition classify_upstream_error ::
    "(string \<Rightarrow> json option) \<Rightarrow> nat \<Rightarrow> string \<Rightarrow> upstream_error_class" where
  "classify_upstream_error from_str status body =
     (case codebuddy_class from_str body of Some cls \<Rightarrow> cls | None \<Rightarrow>
      (let lower = to_ascii_lowercase body in
       if contains_any body [''UsageLimitEnterpriseExhausted'', ''UsageLimitUserExhausted'',
                             ''UsageLimitExceeded'']
         then ResourceExhausted
       else if contains_any body [''UsageLimitLicenseExpired'', ''UsageLimitEnterpriseNotActivated'',
                                  ''UsageLimitUserNotActivated'']
         then PermissionDenied
       else if status = 400 \<and>
               contains_any body [''2013'', ''function name or parameters is empty'']
         then MalformedToolCall
       else if status = 400 \<and>
               contains_any lower [''model is unavailable'', ''upstream request failed'',
                                   ''is not supported'']
         then ResourceExhausted
       else if status = 400 \<and> body \<noteq> [] \<and> contains_any lower invalid_payload_markers
         then InvalidPayload
       else if status = 403 \<and> str_contains body ''VALIDATION_REQUIRED'' then ValidationRequired
       else if status = 403 \<and> contains_any body [''PERMISSION_DENIED'', ''API_KEY_INVALID'']
         then PermissionDenied
       else if status = 429 \<and> str_contains body ''RESOURCE_EXHAUSTED'' then ResourceExhausted
       else Generic))"

definition is_hard_skip_error :: "(string \<Rightarrow> json option) \<Rightarrow> core_error \<Rightarrow> bool" where
  "is_hard_skip_error from_str err =
     (case err of
        UpstreamError status _ _ body _ _ skip \<Rightarrow>
          skip \<or> class_is_hard_skip (classify_upstream_error from_str status body)
      | _ \<Rightarrow> False)"

section \<open>Health and model-wide failures\<close>

definition is_upstream_health_issue :: "core_error \<Rightarrow> bool" where
  "is_upstream_health_issue err =
     (case err of
        UpstreamTimeout phase _ \<Rightarrow> phase \<noteq> ''idle_chunk''
      | UpstreamConnection _ \<Rightarrow> True
      | RateLimited _ _ _ \<Rightarrow> True
      | UpstreamError status _ _ body _ _ _ \<Rightarrow>
          (if status \<ge> 500 \<or> status = 429 then True
           else if status = 400 then
             contains_any (to_ascii_lowercase body)
               [''model is unavailable'', ''upstream request failed'', ''is not supported'']
           else False)
      | _ \<Rightarrow> False)"

definition is_model_wide_failure :: "combo_target \<Rightarrow> core_error \<Rightarrow> bool" where
  "is_model_wide_failure t err =
     (case err of
        ModelNotFound _ _ \<Rightarrow> True
      | RateLimited _ _ _ \<Rightarrow> ct_rate_limit_scope t = ScopeModel
      | UpstreamError status _ _ body _ _ _ \<Rightarrow>
          (if status = 429 then ct_rate_limit_scope t = ScopeModel
           else if status = 404 then True
           else if status = 400 then
             contains_any (to_ascii_lowercase body)
               [''model is unavailable'', ''is not supported'', ''does not exist'',
                ''model not found'', ''invalid model'']
           else False)
      | _ \<Rightarrow> False)"

section \<open>Terminal account errors\<close>

definition should_mark_live_limited :: "core_error \<Rightarrow> bool" where
  "should_mark_live_limited err =
     (case err of
        UpstreamError status _ _ body _ _ _ \<Rightarrow>
          status = 429 \<and> str_contains body ''RESOURCE_EXHAUSTED''
      | _ \<Rightarrow> False)"

text \<open>The first \<open>n\<close> characters of a UTF-8 string: continuation bytes belong to the character before.\<close>

fun take_chars :: "nat \<Rightarrow> string \<Rightarrow> string" where
  "take_chars n [] = []"
| "take_chars n (c # cs) =
     (if is_continuation_byte c then c # take_chars n cs
      else (case n of 0 \<Rightarrow> [] | Suc m \<Rightarrow> c # take_chars m cs))"

definition extract_error_summary :: "(string \<Rightarrow> json option) \<Rightarrow> string \<Rightarrow> string option" where
  "extract_error_summary from_str body =
     (let msg =
        Option.bind (from_str body) (\<lambda>val.
          Option.bind
            (case Option.bind (json_get val ''error'') (\<lambda>e. json_get e ''message'') of
               Some m \<Rightarrow> Some m
             | None \<Rightarrow> json_get val ''message'')
            json_as_str)
      in case msg of
           Some m \<Rightarrow> Some (trim m)
         | None \<Rightarrow> (let trimmed = trim body in if trimmed = [] then None else Some (take_chars 120 trimmed)))"

definition terminal_patterns :: "string list" where
  "terminal_patterns =
     [''insufficient balance'', ''insufficient_quota'', ''insufficient_balance'',
      ''credit balance is too low'', ''billing_hard_limit_reached'', ''account_deactivated'']"

definition unwrap_or :: "'a option \<Rightarrow> 'a \<Rightarrow> 'a" where
  "unwrap_or x d = (case x of Some v \<Rightarrow> v | None \<Rightarrow> d)"

definition detect_account_terminal_error ::
    "(string \<Rightarrow> json option) \<Rightarrow> core_error \<Rightarrow> string option" where
  "detect_account_terminal_error from_str err =
     (case err of
        UpstreamError status _ _ body _ _ _ \<Rightarrow>
          (let summary = extract_error_summary from_str body; lower = to_ascii_lowercase body in
           if status = 402
             then Some (unwrap_or summary ''Payment Required (insufficient balance)'')
           else if status = 401
             then Some (unwrap_or summary ''Unauthorized (invalid or revoked API key)'')
           else if contains_any lower terminal_patterns
             then Some (unwrap_or summary ''Insufficient balance or quota exhausted'')
           else if contains_any lower [''invalid_api_key'', ''incorrect api key'']
             then Some (unwrap_or summary ''Invalid or expired API key'')
           else None)
      | _ \<Rightarrow> None)"

section \<open>Timeouts and proxy rotation\<close>

definition is_max_request_timeout :: "core_error \<Rightarrow> bool" where
  "is_max_request_timeout err =
     (case err of
        UpstreamTimeout phase _ \<Rightarrow> str_contains phase ''total'' \<or> phase = ''total_ms''
      | Cancelled WatchdogTimeout \<Rightarrow> True
      | UpstreamError status _ _ body _ _ _ \<Rightarrow>
          status = 504 \<and> contains_any body [''total'', ''timeout'']
      | _ \<Rightarrow> False)"

definition error_matches_part :: "core_error \<Rightarrow> string \<Rightarrow> bool" where
  "error_matches_part err part =
     (case err of
        RateLimited _ _ _ \<Rightarrow> part = ''429'' \<or> part = ''rate_limited''
      | UpstreamError status _ _ _ _ _ _ \<Rightarrow> parse_unsigned U16_MAX part = Some status
      | UpstreamConnection _ \<Rightarrow> part = ''connect_error'' \<or> part = ''timeout''
      | UpstreamTimeout _ _ \<Rightarrow> part = ''connect_error'' \<or> part = ''timeout''
      | _ \<Rightarrow> False)"

definition matches_proxy_rotation_errors :: "core_error \<Rightarrow> string \<Rightarrow> bool" where
  "matches_proxy_rotation_errors err csv \<longleftrightarrow>
     is_proxy_rotated err \<or> list_ex (\<lambda>p. error_matches_part err (trim p)) (split_char CHR '','' csv)"

section \<open>Facts\<close>

lemma class_is_hard_skip_iff [simp]: "class_is_hard_skip c \<longleftrightarrow> c \<noteq> Generic"
  by (cases c) simp_all

lemma codebuddy_class_not_Generic: "codebuddy_class from_str body = Some c \<Longrightarrow> c \<noteq> Generic"
  by (auto simp: codebuddy_class_def Let_def split: option.splits if_splits)

lemma classify_codebuddy_first:
  "codebuddy_class from_str body = Some c \<Longrightarrow> classify_upstream_error from_str status body = c"
  by (simp add: classify_upstream_error_def)

text \<open>
  the live-limit sentinel is only written for errors that routing also treats as a hard skip
  by their body and as an upstream health issue, whatever business code the body carries.
\<close>

theorem live_limited_is_hard_skip:
  assumes "should_mark_live_limited err"
  shows "is_hard_skip_error from_str err \<and> is_upstream_health_issue err"
proof -
  from assms obtain p m body r c skip
    where err: "err = UpstreamError 429 p m body r c skip"
      and body: "str_contains body ''RESOURCE_EXHAUSTED''"
    by (cases err) (auto simp: should_mark_live_limited_def)
  have "classify_upstream_error from_str 429 body \<noteq> Generic"
  proof (cases "codebuddy_class from_str body")
    case None
    with body show ?thesis by (simp add: classify_upstream_error_def Let_def)
  next
    case (Some cls)
    then show ?thesis
      using classify_codebuddy_first [OF Some] codebuddy_class_not_Generic [OF Some] by simp
  qed
  with err show ?thesis
    by (simp add: is_hard_skip_error_def is_upstream_health_issue_def)
qed

theorem live_limited_is_hard_skip_witness:
  "is_hard_skip_error (\<lambda>_. None)
     (UpstreamError 429 ''gemini'' ''m'' ''RESOURCE_EXHAUSTED'' False Generic False)"
proof -
  have "should_mark_live_limited
     (UpstreamError 429 ''gemini'' ''m'' ''RESOURCE_EXHAUSTED'' False Generic False)"
    by (simp add: should_mark_live_limited_def starts_with_def)
  then show ?thesis using live_limited_is_hard_skip by blast
qed

lemma take_chars_prefix: "prefix (take_chars n s) s"
  by (induction n s rule: take_chars.induct) (auto split: nat.splits)

lemma take_chars_boundary:
  "take_chars n s = s \<or> \<not> is_continuation_byte (s ! length (take_chars n s))"
  by (induction n s rule: take_chars.induct) (auto split: nat.splits)

lemma take_chars_count:
  "length (filter (\<lambda>c. \<not> is_continuation_byte c) (take_chars n s)) \<le> n"
  by (induction n s rule: take_chars.induct) (auto split: nat.splits)

text \<open>
  A summary shown to the operator is never longer than the body and never cut inside a
  character: it is a prefix of the trimmed body whose next byte, if any, starts a character.
\<close>

lemma error_summary_safe_cut:
  "extract_error_summary (\<lambda>_. None) body =
     (if trim body = [] then None else Some (take_chars 120 (trim body))) \<and>
   prefix (take_chars 120 (trim body)) (trim body) \<and>
   length (filter (\<lambda>c. \<not> is_continuation_byte c) (take_chars 120 (trim body))) \<le> 120 \<and>
   (take_chars 120 (trim body) = trim body \<or>
    \<not> is_continuation_byte (trim body ! length (take_chars 120 (trim body))))"
  using take_chars_prefix take_chars_count take_chars_boundary
  by (simp add: extract_error_summary_def Let_def)

end
