(* ===== verification/Predictive_Limiter.thy ===== *)
theory Predictive_Limiter
  imports Error_Policy
begin

text \<open>
  The predictive rate limiter (openproxy-pipeline/src/predictive_rate_limit.rs): one adaptive
  token window per target key, spread over 256 shards. Unchecked \<open>u16\<close> and \<open>u64\<close> additions wrap.
  \<open>DefaultHasher\<close> is a parameter \<open>hash\<close> over the sequence of hashed values; the wall clock is an
  argument.
\<close>

section \<open>Per-target state\<close>

definition SHARD_COUNT :: nat where "SHARD_COUNT = 256"
definition DEFAULT_BURST_CAPACITY :: nat where "DEFAULT_BURST_CAPACITY = 1000"
definition DEFAULT_WINDOW_DURATION_MS :: nat where "DEFAULT_WINDOW_DURATION_MS = 60000"
definition PROBE_SUCCESS_THRESHOLD :: nat where "PROBE_SUCCESS_THRESHOLD = 2"
definition MIN_RECOVERED_BURST :: nat where "MIN_RECOVERED_BURST = 2"
definition MEMORY_DECAY_IDLE_MS :: nat where "MEMORY_DECAY_IDLE_MS = 15 * 60 * 1000"
definition MAX_OPEN_PENALTY_MS :: nat where "MAX_OPEN_PENALTY_MS = 10 * 60 * 1000"
definition MIN_RATE_LIMITED_PENALTY_MS :: nat where "MIN_RATE_LIMITED_PENALTY_MS = 3000"
definition PROBE_LEASE_MS :: nat where "PROBE_LEASE_MS = 30000"

lemmas limiter_consts = SHARD_COUNT_def DEFAULT_BURST_CAPACITY_def DEFAULT_WINDOW_DURATION_MS_def
  PROBE_SUCCESS_THRESHOLD_def MIN_RECOVERED_BURST_def MEMORY_DECAY_IDLE_MS_def
  MAX_OPEN_PENALTY_MS_def MIN_RATE_LIMITED_PENALTY_MS_def PROBE_LEASE_MS_def

datatype target_rate_state = RClosed | ROpen | RHalfOpen

record target_predictive_state =
  ps_window_start_ms :: nat
  ps_reset_at_ms :: nat
  ps_last_429_at_ms :: nat
  ps_last_success_at_ms :: nat
  ps_last_error_fingerprint :: nat
  ps_window_duration_ms :: nat
  ps_learned_burst :: nat
  ps_window_count :: nat
  ps_in_flight :: nat
  ps_success_streak :: nat
  ps_consecutive_failures :: nat
  ps_consecutive_same_fingerprint :: nat
  ps_state :: target_rate_state

definition ps_default :: target_predictive_state where
  "ps_default =
     \<lparr> ps_window_start_ms = 0, ps_reset_at_ms = 0, ps_last_429_at_ms = 0,
       ps_last_success_at_ms = 0, ps_last_error_fingerprint = 0,
       ps_window_duration_ms = DEFAULT_WINDOW_DURATION_MS,
       ps_learned_burst = DEFAULT_BURST_CAPACITY, ps_window_count = 0, ps_in_flight = 0,
       ps_success_streak = 0, ps_consecutive_failures = 0, ps_consecutive_same_fingerprint = 0,
       ps_state = RClosed \<rparr>"

datatype hash_item = HInt int | HNat nat | HStr string | HVariant string

fun floor_char_boundary :: "string \<Rightarrow> nat \<Rightarrow> nat" where
  "floor_char_boundary s 0 = 0"
| "floor_char_boundary s (Suc i) =
     (if Suc i \<ge> length s then length s
      else if is_continuation_byte (s ! Suc i) then floor_char_boundary s i
      else Suc i)"

definition fingerprint_prefix :: "string \<Rightarrow> string" where
  "fingerprint_prefix s = take (floor_char_boundary s (min 64 (length s))) s"

text \<open>The discriminant of the variants that fall through is named by their error code.\<close>

definition compute_error_fingerprint :: "(hash_item list \<Rightarrow> nat) \<Rightarrow> core_error \<Rightarrow> nat" where
  "compute_error_fingerprint hash err =
     hash (HNat (http_status err) #
       (case err of
          UpstreamError status _ _ body _ _ _ \<Rightarrow> [HNat status, HStr (fingerprint_prefix body)]
        | UpstreamConnection msg \<Rightarrow> [HStr (fingerprint_prefix msg)]
        | UpstreamTimeout phase _ \<Rightarrow> [HStr phase]
        | Cancelled _ \<Rightarrow> [HVariant ''cancelled'']
        | _ \<Rightarrow> [HVariant (error_code err)]))"

section \<open>Transitions of one target\<close>

abbreviation u64_add :: "nat \<Rightarrow> nat \<Rightarrow> nat" where "u64_add \<equiv> wrapping_add U64_MAX"
abbreviation u16_add :: "nat \<Rightarrow> nat \<Rightarrow> nat" where "u16_add \<equiv> wrapping_add U16_MAX"
abbreviation u16_sat_add :: "nat \<Rightarrow> nat \<Rightarrow> nat" where "u16_sat_add \<equiv> saturating_add U16_MAX"

definition advance_window_if_expired :: "nat \<Rightarrow> target_predictive_state \<Rightarrow> target_predictive_state" where
  "advance_window_if_expired now s =
     (let s = (if ps_window_start_ms s = 0 then s \<lparr> ps_window_start_ms := now \<rparr> else s)
      in if now \<ge> u64_add (ps_window_start_ms s) (ps_window_duration_ms s) then
           (let s = (if ps_state s = RClosed \<and> ps_window_count s > 0 \<and>
                        ps_learned_burst s < DEFAULT_BURST_CAPACITY
                     then s \<lparr> ps_learned_burst :=
                              min (u16_sat_add (ps_learned_burst s) 2) DEFAULT_BURST_CAPACITY \<rparr>
                     else s)
            in s \<lparr> ps_window_start_ms := now, ps_window_count := 0 \<rparr>)
         else s)"

definition try_transition_half_open :: "nat \<Rightarrow> target_predictive_state \<Rightarrow> target_predictive_state" where
  "try_transition_half_open now s =
     (if ps_state s = ROpen \<and> now \<ge> ps_reset_at_ms s
      then s \<lparr> ps_state := RHalfOpen, ps_window_count := 0 \<rparr> else s)"

definition apply_memory_decay_if_idle :: "nat \<Rightarrow> target_predictive_state \<Rightarrow> target_predictive_state" where
  "apply_memory_decay_if_idle now s =
     (if ps_last_429_at_ms s > 0 \<and> ps_state s = RClosed \<and>
         ps_learned_burst s < DEFAULT_BURST_CAPACITY \<and>
         saturating_sub now (ps_last_429_at_ms s) > MEMORY_DECAY_IDLE_MS
      then s \<lparr> ps_learned_burst := min (u16_sat_add (ps_learned_burst s) 5) DEFAULT_BURST_CAPACITY,
               ps_last_429_at_ms := now \<rparr>
      else s)"

definition refresh :: "nat \<Rightarrow> target_predictive_state \<Rightarrow> target_predictive_state" where
  "refresh now s =
     apply_memory_decay_if_idle now (try_transition_half_open now (advance_window_if_expired now s))"

datatype target_readiness = Ready | Probe | Saturated nat nat nat

fun is_saturated :: "target_readiness \<Rightarrow> bool" where
  "is_saturated (Saturated _ _ _) = True"
| "is_saturated _ = False"

definition saturated_readiness :: "target_predictive_state \<Rightarrow> nat \<Rightarrow> target_readiness" where
  "saturated_readiness s reset_in = Saturated (ps_learned_burst s) (ps_window_count s) reset_in"

definition probe_lease_free :: "target_predictive_state \<Rightarrow> nat \<Rightarrow> bool" where
  "probe_lease_free s now \<longleftrightarrow>
     ps_in_flight s = 0 \<or> now \<ge> saturating_add U64_MAX (ps_reset_at_ms s) PROBE_LEASE_MS"

definition evaluate :: "target_predictive_state \<Rightarrow> nat \<Rightarrow> target_readiness" where
  "evaluate s now =
     (case ps_state s of
        ROpen \<Rightarrow> saturated_readiness s (saturating_sub (ps_reset_at_ms s) now)
      | RHalfOpen \<Rightarrow>
          (if probe_lease_free s now then Probe
           else saturated_readiness s (saturating_sub (ps_reset_at_ms s) now))
      | RClosed \<Rightarrow>
          (if ps_window_count s \<ge> ps_learned_burst s
           then saturated_readiness s
                  (saturating_sub (u64_add (ps_window_start_ms s) (ps_window_duration_ms s)) now)
           else Ready))"

definition take_slot :: "target_predictive_state \<Rightarrow> target_predictive_state" where
  "take_slot s = s \<lparr> ps_window_count := u16_add (ps_window_count s) 1,
                     ps_in_flight := u16_add (ps_in_flight s) 1 \<rparr>"

definition try_acquire :: "nat \<Rightarrow> target_predictive_state \<Rightarrow> target_predictive_state \<times> bool" where
  "try_acquire now s =
     (case ps_state s of
        ROpen \<Rightarrow> (s, False)
      | RHalfOpen \<Rightarrow> (if probe_lease_free s now then (take_slot s, True) else (s, False))
      | RClosed \<Rightarrow>
          (if ps_window_count s < ps_learned_burst s then (take_slot s, True) else (s, False)))"

definition recover_from_success :: "target_predictive_state \<Rightarrow> target_predictive_state" where
  "recover_from_success s =
     (if ps_state s = RClosed then s
      else s \<lparr> ps_state := RClosed, ps_reset_at_ms := 0,
               ps_learned_burst :=
                 max (max (ps_learned_burst s) (ps_window_count s)) MIN_RECOVERED_BURST \<rparr>)"

definition update_window_duration :: "nat option \<Rightarrow> target_predictive_state \<Rightarrow> target_predictive_state" where
  "update_window_duration reset_window_secs s =
     (case reset_window_secs of
        None \<Rightarrow> s
      | Some reset_s \<Rightarrow>
          s \<lparr> ps_window_duration_ms := max (as_u32 (saturating_mul U64_MAX reset_s 1000)) 1000 \<rparr>)"

definition calibrate_from_remaining_header ::
    "nat option \<Rightarrow> target_predictive_state \<Rightarrow> target_predictive_state" where
  "calibrate_from_remaining_header remaining s =
     (case remaining of
        None \<Rightarrow> s
      | Some 0 \<Rightarrow> s \<lparr> ps_learned_burst := ps_window_count s \<rparr>
      | Some rem' \<Rightarrow>
          s \<lparr> ps_learned_burst :=
                max (ps_learned_burst s) (u16_sat_add (ps_window_count s) (min rem' U16_MAX)) \<rparr>)"

definition advance_elastic_streak :: "target_predictive_state \<Rightarrow> target_predictive_state" where
  "advance_elastic_streak s =
     (let s = s \<lparr> ps_success_streak := u16_add (ps_success_streak s) 1 \<rparr>
      in if ps_success_streak s \<ge> PROBE_SUCCESS_THRESHOLD
         then s \<lparr> ps_learned_burst := u16_sat_add (ps_learned_burst s) 1, ps_success_streak := 0 \<rparr>
         else s)"

definition apply_success ::
    "nat option \<Rightarrow> nat option \<Rightarrow> nat \<Rightarrow> target_predictive_state \<Rightarrow> target_predictive_state" where
  "apply_success remaining reset_window_secs now s =
     (let s = s \<lparr> ps_in_flight := saturating_sub (ps_in_flight s) 1, ps_last_success_at_ms := now,
                  ps_consecutive_failures := 0, ps_consecutive_same_fingerprint := 0,
                  ps_last_error_fingerprint := 0 \<rparr>
      in advance_elastic_streak
           (calibrate_from_remaining_header remaining
             (update_window_duration reset_window_secs (recover_from_success s))))"

definition ps_should_retry :: "target_predictive_state \<Rightarrow> nat \<Rightarrow> nat \<Rightarrow> bool" where
  "ps_should_retry s fingerprint local_retry_count =
     (if ps_state s = ROpen then False
      else if local_retry_count \<ge> 1 \<and> fingerprint \<noteq> 0 \<and> fingerprint = ps_last_error_fingerprint s
        then False
      else if ps_consecutive_failures s \<ge> 2 \<and> local_retry_count \<ge> 1 then False
      else True)"

definition upstream_error_penalty :: "nat \<Rightarrow> nat" where
  "upstream_error_penalty failures =
     min (saturating_mul U64_MAX 15000 (2 ^ min (saturating_sub (min failures 8) 1) 3)) 120000"

definition report_upstream_error_with_fingerprint ::
    "nat \<Rightarrow> nat \<Rightarrow> target_predictive_state \<Rightarrow> target_predictive_state" where
  "report_upstream_error_with_fingerprint fingerprint now s =
     (let s = s \<lparr> ps_in_flight := saturating_sub (ps_in_flight s) 1, ps_success_streak := 0,
                  ps_state := ROpen,
                  ps_consecutive_failures := saturating_add U8_MAX (ps_consecutive_failures s) 1 \<rparr>;
          s = (if fingerprint \<noteq> 0 \<and> fingerprint = ps_last_error_fingerprint s
               then s \<lparr> ps_consecutive_same_fingerprint :=
                          saturating_add U8_MAX (ps_consecutive_same_fingerprint s) 1 \<rparr>
               else s \<lparr> ps_consecutive_same_fingerprint := 1,
                        ps_last_error_fingerprint := fingerprint \<rparr>)
      in s \<lparr> ps_reset_at_ms := u64_add now (upstream_error_penalty (ps_consecutive_failures s)) \<rparr>)"

definition rate_limited_penalty :: "nat option \<Rightarrow> nat" where
  "rate_limited_penalty retry_after_secs =
     (case retry_after_secs of
        None \<Rightarrow> DEFAULT_WINDOW_DURATION_MS
      | Some s \<Rightarrow> min (max (saturating_mul U64_MAX s 1000) MIN_RATE_LIMITED_PENALTY_MS)
                      MAX_OPEN_PENALTY_MS)"

definition apply_rate_limited :: "nat option \<Rightarrow> nat \<Rightarrow> target_predictive_state \<Rightarrow> target_predictive_state" where
  "apply_rate_limited retry_after_secs now s =
     s \<lparr> ps_in_flight := saturating_sub (ps_in_flight s) 1, ps_last_429_at_ms := now,
         ps_success_streak := 0,
         ps_consecutive_failures := saturating_add U8_MAX (ps_consecutive_failures s) 1,
         ps_learned_burst := max 1 (saturating_sub (ps_window_count s) 1),
         ps_state := ROpen,
         ps_reset_at_ms := u64_add now (rate_limited_penalty retry_after_secs) \<rparr>"

section \<open>The sharded limiter\<close>

type_synonym limiter = "(nat, target_predictive_state) hmap list"

definition limiter_new :: limiter where
  "limiter_new = replicate SHARD_COUNT []"

definition compute_key_parts ::
    "(hash_item list \<Rightarrow> nat) \<Rightarrow> string \<Rightarrow> account_id option \<Rightarrow> model_row_id option \<Rightarrow>
     rate_limit_scope \<Rightarrow> nat" where
  "compute_key_parts hash provider account row scope =
     hash (case account of
             Some aid \<Rightarrow>
               HInt aid # (if scope = ScopeModel
                           then [HInt (case row of Some r \<Rightarrow> r | None \<Rightarrow> 0)] else [])
           | None \<Rightarrow> [HStr provider, HInt (case row of Some r \<Rightarrow> r | None \<Rightarrow> 0)])"

definition compute_target_key :: "(hash_item list \<Rightarrow> nat) \<Rightarrow> combo_target \<Rightarrow> nat" where
  "compute_target_key hash t =
     compute_key_parts hash (ct_provider_id t) (ct_account_id t) (ct_model_row_id t)
       (ct_rate_limit_scope t)"

definition compute_key :: "(hash_item list \<Rightarrow> nat) \<Rightarrow> combo_id \<Rightarrow> combo_target_id \<Rightarrow> nat" where
  "compute_key hash c t = hash [HInt c, HInt t]"

definition shard_for :: "nat \<Rightarrow> nat" where
  "shard_for key = key mod SHARD_COUNT"

definition lim_get :: "limiter \<Rightarrow> nat \<Rightarrow> target_predictive_state option" where
  "lim_get l key = hm_get (l ! shard_for key) key"

definition lim_put :: "nat \<Rightarrow> target_predictive_state \<Rightarrow> limiter \<Rightarrow> limiter" where
  "lim_put key s l = l[shard_for key := hm_put key s (l ! shard_for key)]"

definition lim_entry :: "limiter \<Rightarrow> nat \<Rightarrow> target_predictive_state" where
  "lim_entry l key = (case lim_get l key of Some s \<Rightarrow> s | None \<Rightarrow> ps_default)"

definition evaluate_key :: "limiter \<Rightarrow> nat \<Rightarrow> nat \<Rightarrow> target_readiness" where
  "evaluate_key l key now =
     (case lim_get l key of None \<Rightarrow> Ready | Some s \<Rightarrow> evaluate (refresh now s) now)"

definition acquire_key :: "limiter \<Rightarrow> nat \<Rightarrow> nat \<Rightarrow> limiter \<times> bool" where
  "acquire_key l key now =
     (let (s, ok) = try_acquire now (refresh now (lim_entry l key)) in (lim_put key s l, ok))"

definition should_retry_key :: "limiter \<Rightarrow> nat \<Rightarrow> nat \<Rightarrow> nat \<Rightarrow> nat \<Rightarrow> limiter \<times> bool" where
  "should_retry_key l key fingerprint local_retry_count now =
     (let s = refresh now (lim_entry l key)
      in (lim_put key s l, ps_should_retry s fingerprint local_retry_count))"

definition release_in_flight_key :: "limiter \<Rightarrow> nat \<Rightarrow> limiter" where
  "release_in_flight_key l key =
     (case lim_get l key of
        None \<Rightarrow> l
      | Some s \<Rightarrow> lim_put key (s \<lparr> ps_in_flight := saturating_sub (ps_in_flight s) 1 \<rparr>) l)"

definition report_success_key :: "limiter \<Rightarrow> nat \<Rightarrow> nat option \<Rightarrow> nat option \<Rightarrow> nat \<Rightarrow> limiter" where
  "report_success_key l key remaining reset_window_secs now =
     lim_put key (apply_success remaining reset_window_secs now (lim_entry l key)) l"

definition report_rate_limited_key :: "limiter \<Rightarrow> nat \<Rightarrow> nat option \<Rightarrow> nat \<Rightarrow> limiter" where
  "report_rate_limited_key l key retry_after_secs now =
     lim_put key (apply_rate_limited retry_after_secs now (lim_entry l key)) l"

definition report_upstream_error_with_fingerprint_key :: "limiter \<Rightarrow> nat \<Rightarrow> nat \<Rightarrow> nat \<Rightarrow> limiter" where
  "report_upstream_error_with_fingerprint_key l key fingerprint now =
     lim_put key (report_upstream_error_with_fingerprint fingerprint now (lim_entry l key)) l"

definition report_upstream_error_key :: "limiter \<Rightarrow> nat \<Rightarrow> nat \<Rightarrow> limiter" where
  "report_upstream_error_key l key now = report_upstream_error_with_fingerprint_key l key 0 now"

definition is_idle :: "nat \<Rightarrow> nat \<Rightarrow> target_predictive_state \<Rightarrow> bool" where
  "is_idle now max_idle_ms s \<longleftrightarrow>
     ps_state s = RClosed \<and> ps_in_flight s = 0 \<and>
     (ps_window_start_ms s = 0 \<or> saturating_sub now (ps_window_start_ms s) > max_idle_ms) \<and>
     (ps_last_429_at_ms s = 0 \<or> saturating_sub now (ps_last_429_at_ms s) > max_idle_ms) \<and>
     (ps_last_success_at_ms s = 0 \<or> saturating_sub now (ps_last_success_at_ms s) > max_idle_ms)"

definition limiter_prune_stale :: "nat \<Rightarrow> nat \<Rightarrow> limiter \<Rightarrow> limiter \<times> nat" where
  "limiter_prune_stale now max_idle_ms l =
     (let l' = map (hm_retain (\<lambda>_ s. \<not> is_idle now max_idle_ms s)) l
      in (l', sum_list (map length l) - sum_list (map length l')))"

definition lim_ok :: "limiter \<Rightarrow> bool" where
  "lim_ok l \<longleftrightarrow> length l = SHARD_COUNT \<and> list_all hm_ok l"

interpretation lim: keyed_store lim_get lim_put lim_ok
proof unfold_locales
  fix l :: limiter and k k' :: nat and v :: target_predictive_state
  assume ok: "lim_ok l"
  have idx: "shard_for j < length l" for j using ok by (simp add: lim_ok_def shard_for_def SHARD_COUNT_def)
  show "lim_get (lim_put k v l) k' = (if k' = k then Some v else lim_get l k')"
    using idx [of k] by (cases "shard_for k' = shard_for k") (auto simp: lim_get_def lim_put_def hm_simps)
  show "lim_ok (lim_put k v l)"
    using ok idx [of k]
    by (auto simp: lim_ok_def lim_put_def list_all_length nth_list_update)
qed

section \<open>One target\<close>

lemma lim_entry_put: "lim_ok l \<Longrightarrow> lim_entry (lim_put k s l) k' = (if k' = k then s else lim_entry l k')"
  by (simp add: lim_entry_def lim.lookup_put)

lemma try_acquire_iff: "snd (try_acquire now s) \<longleftrightarrow> \<not> is_saturated (evaluate s now)"
  by (simp add: try_acquire_def evaluate_def saturated_readiness_def split: target_rate_state.splits)

lemma ps_default_simps [simp]:
  "ps_window_start_ms ps_default = 0" "ps_reset_at_ms ps_default = 0"
  "ps_last_429_at_ms ps_default = 0" "ps_window_count ps_default = 0"
  "ps_in_flight ps_default = 0" "ps_state ps_default = RClosed"
  "ps_learned_burst ps_default = 1000" "ps_window_duration_ms ps_default = 60000"
  "ps_success_streak ps_default = 0"
  by (simp_all add: ps_default_def limiter_consts)

lemma refresh_default:
  "ps_state (refresh now ps_default) = RClosed \<and> ps_window_count (refresh now ps_default) = 0 \<and>
   ps_learned_burst (refresh now ps_default) = 1000"
  by (simp add: refresh_def apply_memory_decay_if_idle_def try_transition_half_open_def
      advance_window_if_expired_def Let_def)

lemma rate_limited_penalty_bounds:
  "3000 \<le> rate_limited_penalty ra \<and> rate_limited_penalty ra \<le> 600000"
  by (auto simp: rate_limited_penalty_def limiter_consts split: option.splits)

lemma upstream_error_penalty_bounds:
  "15000 \<le> upstream_error_penalty n \<and> upstream_error_penalty n \<le> 120000"
proof -
  let ?e = "min (min n 8 - 1) 3"
  have "(2 :: nat) ^ ?e \<le> 2 ^ 3" by (rule power_increasing) simp_all
  moreover have "1 \<le> (2 :: nat) ^ ?e" by simp
  ultimately show ?thesis by (simp add: upstream_error_penalty_def int_ops)
qed

lemma refresh_open_before:
  "ps_state s = ROpen \<Longrightarrow> now < ps_reset_at_ms s \<Longrightarrow>
     ps_state (refresh now s) = ROpen \<and> ps_reset_at_ms (refresh now s) = ps_reset_at_ms s"
  by (simp add: refresh_def apply_memory_decay_if_idle_def try_transition_half_open_def
      advance_window_if_expired_def Let_def)

lemma refresh_open_after:
  "ps_state s = ROpen \<Longrightarrow> ps_reset_at_ms s \<le> now \<Longrightarrow>
     ps_state (refresh now s) = RHalfOpen \<and> ps_reset_at_ms (refresh now s) = ps_reset_at_ms s \<and>
     ps_in_flight (refresh now s) = ps_in_flight s"
  by (simp add: refresh_def apply_memory_decay_if_idle_def try_transition_half_open_def
      advance_window_if_expired_def Let_def)

lemma refresh_half_open:
  "ps_state s = RHalfOpen \<Longrightarrow>
     ps_state (refresh now s) = RHalfOpen \<and> ps_reset_at_ms (refresh now s) = ps_reset_at_ms s \<and>
     ps_in_flight (refresh now s) = ps_in_flight s"
  by (simp add: refresh_def apply_memory_decay_if_idle_def try_transition_half_open_def
      advance_window_if_expired_def Let_def)

lemma probe_lease_free_iff:
  "ps_reset_at_ms s + 30000 \<le> U64_MAX \<Longrightarrow>
     probe_lease_free s now \<longleftrightarrow> ps_in_flight s = 0 \<or> ps_reset_at_ms s + 30000 \<le> now"
  by (simp add: probe_lease_free_def int_ops limiter_consts)

text \<open>Readiness of an open target: blocked to its deadline, then one probe at a time for the lease.\<close>

lemma evaluate_open:
  assumes "ps_state s = ROpen" and "ps_reset_at_ms s + 30000 \<le> U64_MAX"
  shows "is_saturated (evaluate (refresh now s) now) \<longleftrightarrow>
     now < ps_reset_at_ms s \<or> (ps_in_flight s \<noteq> 0 \<and> now < ps_reset_at_ms s + 30000)"
proof (cases "now < ps_reset_at_ms s")
  case True
  then show ?thesis
    using refresh_open_before [OF assms(1) True] by (simp add: evaluate_def saturated_readiness_def)
next
  case False
  then have r: "ps_state (refresh now s) = RHalfOpen"
    "ps_reset_at_ms (refresh now s) = ps_reset_at_ms s" "ps_in_flight (refresh now s) = ps_in_flight s"
    using refresh_open_after [OF assms(1), of now] by auto
  with False assms(2) show ?thesis
    using probe_lease_free_iff [of "refresh now s" now]
    by (auto simp: evaluate_def saturated_readiness_def)
qed

section \<open>Properties of the limiter\<close>

text \<open>
  what \<open>evaluate_key\<close> predicts is what \<open>acquire_key\<close> does: at the same instant a request is
  admitted exactly when the prediction is not saturated, for every state of the limiter.
\<close>

theorem evaluate_predicts_acquire:
  "snd (acquire_key l key now) \<longleftrightarrow> \<not> is_saturated (evaluate_key l key now)"
  using refresh_default [of now]
  by (auto simp: acquire_key_def evaluate_key_def lim_entry_def split_beta try_acquire_iff
      split: option.splits) (simp add: evaluate_def)

text \<open>
  after a 429 the key is blocked for exactly the penalty (between 3 seconds and 10 minutes,
  60 seconds without \<open>Retry-After\<close>), and while another request of the key is still in flight for
  the 30 seconds of the probe lease more; other keys keep their readiness.
\<close>

theorem rate_limited_blocks_for_penalty:
  assumes "lim_ok l" and "now + 630000 \<le> U64_MAX"
    and "key' \<noteq> key"
  shows "(is_saturated (evaluate_key (report_rate_limited_key l key ra now) key t) \<longleftrightarrow>
           t < now + rate_limited_penalty ra \<or>
           (1 < ps_in_flight (lim_entry l key) \<and> t < now + rate_limited_penalty ra + 30000)) \<and>
         3000 \<le> rate_limited_penalty ra \<and> rate_limited_penalty ra \<le> 600000 \<and>
         evaluate_key (report_rate_limited_key l key ra now) key' t = evaluate_key l key' t"
proof -
  let ?s = "apply_rate_limited ra now (lim_entry l key)"
  note b = rate_limited_penalty_bounds [of ra]
  have add: "u64_add now (rate_limited_penalty ra) = now + rate_limited_penalty ra"
    using assms(2) b by (intro wrapping_add_exact) linarith
  have s: "ps_state ?s = ROpen" "ps_reset_at_ms ?s = now + rate_limited_penalty ra"
    "ps_in_flight ?s = ps_in_flight (lim_entry l key) - 1"
    by (simp_all add: apply_rate_limited_def add)
  have bound: "ps_reset_at_ms ?s + 30000 \<le> U64_MAX" using s assms(2) b by linarith
  have eval: "evaluate_key (report_rate_limited_key l key ra now) key t = evaluate (refresh t ?s) t"
    by (simp add: evaluate_key_def report_rate_limited_key_def lim.lookup_put [OF assms(1)])
  have "is_saturated (evaluate_key (report_rate_limited_key l key ra now) key t) \<longleftrightarrow>
      t < now + rate_limited_penalty ra \<or>
      (1 < ps_in_flight (lim_entry l key) \<and> t < now + rate_limited_penalty ra + 30000)"
    unfolding eval evaluate_open [OF s(1) bound] s(2,3) by auto
  moreover have "evaluate_key (report_rate_limited_key l key ra now) key' t = evaluate_key l key' t"
    using assms(3)
    by (simp add: evaluate_key_def report_rate_limited_key_def lim.lookup_put [OF assms(1)])
  ultimately show ?thesis using b by simp
qed

lemma lim_ok_new: "lim_ok limiter_new"
  by (simp add: lim_ok_def limiter_new_def list_all_iff)

lemma lim_entry_new [simp]: "lim_entry limiter_new key = ps_default"
  by (simp add: lim_entry_def lim_get_def limiter_new_def shard_for_def SHARD_COUNT_def)

theorem rate_limited_blocks_for_penalty_witness:
  "is_saturated (evaluate_key (report_rate_limited_key limiter_new 77 (Some 5) 1000) 77 5999) \<and>
   \<not> is_saturated (evaluate_key (report_rate_limited_key limiter_new 77 (Some 5) 1000) 77 6000) \<and>
   evaluate_key (report_rate_limited_key limiter_new 77 (Some 5) 1000) 78 5999 =
     evaluate_key limiter_new 78 5999"
proof -
  have pen: "rate_limited_penalty (Some 5) = 5000"
    by (simp add: rate_limited_penalty_def int_ops limiter_consts)
  show ?thesis
    using rate_limited_blocks_for_penalty [OF lim_ok_new, of 1000 78 77 "Some 5" 5999]
      rate_limited_blocks_for_penalty [OF lim_ok_new, of 1000 78 77 "Some 5" 6000]
    by (simp add: pen)
qed

text \<open>
  fast-fail. After any upstream error is reported for a key, no local retry of that key is
  allowed for at least 15 seconds, whatever the fingerprint of the error and the retry count.
\<close>

theorem upstream_error_fast_fail:
  assumes "lim_ok l" and "now + 120000 \<le> U64_MAX" and "t < now + 15000"
  shows "\<not> snd (should_retry_key (report_upstream_error_with_fingerprint_key l key fp now) key fp' n t)"
proof -
  let ?s = "report_upstream_error_with_fingerprint fp now (lim_entry l key)"
  obtain f where reset: "ps_reset_at_ms ?s = u64_add now (upstream_error_penalty f)"
    and st: "ps_state ?s = ROpen"
    by (simp add: report_upstream_error_with_fingerprint_def Let_def)
  have "u64_add now (upstream_error_penalty f) = now + upstream_error_penalty f"
    using assms(2) upstream_error_penalty_bounds [of f] by (intro wrapping_add_exact) linarith
  then have "t < ps_reset_at_ms ?s"
    using reset assms(3) upstream_error_penalty_bounds [of f] by linarith
  then have "ps_state (refresh t ?s) = ROpen" using refresh_open_before [OF st] by simp
  then show ?thesis
    by (simp add: should_retry_key_def report_upstream_error_with_fingerprint_key_def Let_def
        lim_entry_put [OF assms(1)] ps_should_retry_def)
qed

theorem upstream_error_fast_fail_witness:
  "\<not> snd (should_retry_key (report_upstream_error_with_fingerprint_key limiter_new 9 42 1000) 9 43 1 15999)"
  using upstream_error_fast_fail [OF lim_ok_new, of 1000 15999 9 42 43 1] by simp

fun acquire_run :: "limiter \<Rightarrow> nat \<Rightarrow> nat list \<Rightarrow> limiter \<times> nat" where
  "acquire_run l key [] = (l, 0)"
| "acquire_run l key (t # ts) =
     (let (l', ok) = acquire_key l key t; (l'', n) = acquire_run l' key ts
      in (l'', (if ok then 1 else 0) + n))"

lemma acquire_key_entry:
  assumes "lim_ok l"
  shows "lim_ok (fst (acquire_key l key t)) \<and>
     lim_entry (fst (acquire_key l key t)) key = fst (try_acquire t (refresh t (lim_entry l key)))"
  by (simp add: acquire_key_def split_beta lim_entry_put assms lim.invar_put)

definition blocked_half_open :: "nat \<Rightarrow> target_predictive_state \<Rightarrow> bool" where
  "blocked_half_open lease s \<longleftrightarrow>
     ps_state s = RHalfOpen \<and> ps_in_flight s \<noteq> 0 \<and> ps_reset_at_ms s + 30000 = lease \<and> lease \<le> U64_MAX"

lemma blocked_half_open_acquire:
  assumes "blocked_half_open lease s" and "t < lease"
  shows "\<not> snd (try_acquire t (refresh t s)) \<and> blocked_half_open lease (fst (try_acquire t (refresh t s)))"
proof -
  from assms have r: "blocked_half_open lease (refresh t s)"
    using refresh_half_open [of s t] by (simp add: blocked_half_open_def)
  then have "\<not> probe_lease_free (refresh t s) t"
    using assms(2) probe_lease_free_iff [of "refresh t s" t] by (auto simp: blocked_half_open_def)
  with r show ?thesis by (simp add: try_acquire_def blocked_half_open_def)
qed

lemma acquire_run_blocked:
  assumes "lim_ok l" and "blocked_half_open lease (lim_entry l key)" and "list_all (\<lambda>t. t < lease) ts"
  shows "snd (acquire_run l key ts) = 0"
  using assms
proof (induction l key ts rule: acquire_run.induct)
  case (1 l key)
  then show ?case by simp
next
  case (2 l key t ts)
  let ?l = "fst (acquire_key l key t)"
  have e: "lim_ok ?l" "lim_entry ?l key = fst (try_acquire t (refresh t (lim_entry l key)))"
    using acquire_key_entry [OF "2.prems"(1)] by simp_all
  have b: "\<not> snd (try_acquire t (refresh t (lim_entry l key)))"
    "blocked_half_open lease (lim_entry ?l key)"
    using blocked_half_open_acquire [OF "2.prems"(2), of t] "2.prems"(3) e(2) by simp_all
  have "\<not> snd (acquire_key l key t)" using b(1) by (simp add: acquire_key_def split_beta)
  moreover have "snd (acquire_run ?l key ts) = 0"
    using "2.IH" [OF refl prod.collapse e(1) b(2)] "2.prems"(3) by simp
  ultimately show ?case by (simp add: split_beta)
qed

text \<open>
  in half-open state at most one probe is admitted until the lease ends: among any run of
  acquisitions before the end of the lease, with no report in between, at most one succeeds.
\<close>

theorem half_open_single_probe:
  assumes "lim_ok l" and "ps_state (lim_entry l key) = RHalfOpen"
    and "ps_in_flight (lim_entry l key) \<le> 1"
    and "ps_reset_at_ms (lim_entry l key) + 30000 \<le> U64_MAX"
    and "list_all (\<lambda>t. t < ps_reset_at_ms (lim_entry l key) + 30000) ts"
  shows "snd (acquire_run l key ts) \<le> 1"
proof (cases ts)
  case Nil
  then show ?thesis by simp
next
  case (Cons t ts')
  let ?s = "lim_entry l key" and ?l = "fst (acquire_key l key t)"
  let ?lease = "ps_reset_at_ms ?s + 30000"
  have e: "lim_ok ?l" "lim_entry ?l key = fst (try_acquire t (refresh t ?s))"
    using acquire_key_entry [OF assms(1)] by simp_all
  have r: "ps_state (refresh t ?s) = RHalfOpen" "ps_reset_at_ms (refresh t ?s) = ps_reset_at_ms ?s"
    "ps_in_flight (refresh t ?s) = ps_in_flight ?s"
    using refresh_half_open [OF assms(2), of t] by simp_all
  have lease: "probe_lease_free (refresh t ?s) t \<longleftrightarrow> ps_in_flight ?s = 0"
    using probe_lease_free_iff [of "refresh t ?s" t] r assms(4,5) Cons by auto
  have "blocked_half_open ?lease (lim_entry ?l key)"
    using r lease assms(3,4) e(2)
    by (auto simp: blocked_half_open_def try_acquire_def take_slot_def int_ops)
  moreover have "list_all (\<lambda>t. t < ?lease) ts'" using assms(5) unfolding Cons by simp
  ultimately have "snd (acquire_run ?l key ts') = 0" by (rule acquire_run_blocked [OF e(1)])
  with Cons show ?thesis by (simp add: split_beta)
qed

definition probing_limiter :: limiter where
  "probing_limiter = lim_put 7 (ps_default \<lparr> ps_state := RHalfOpen, ps_reset_at_ms := 1000 \<rparr>) limiter_new"

theorem half_open_single_probe_witness:
  "snd (acquire_run probing_limiter 7 [1000, 1001, 30999]) \<le> 1"
proof -
  have e: "lim_entry probing_limiter 7 = ps_default \<lparr> ps_state := RHalfOpen, ps_reset_at_ms := 1000 \<rparr>"
    by (simp add: probing_limiter_def lim_entry_put lim_ok_new)
  have "lim_ok probing_limiter" by (simp add: probing_limiter_def lim.invar_put lim_ok_new)
  then show ?thesis by (rule half_open_single_probe) (simp_all add: e)
qed

lemma expired_half_open_acquire:
  assumes "ps_state s = RHalfOpen" "ps_reset_at_ms s + 30000 \<le> U64_MAX" "ps_reset_at_ms s + 30000 \<le> t"
  shows "snd (try_acquire t (refresh t s)) \<and> ps_state (fst (try_acquire t (refresh t s))) = RHalfOpen \<and>
     ps_reset_at_ms (fst (try_acquire t (refresh t s))) = ps_reset_at_ms s"
  using refresh_half_open [OF assms(1), of t] probe_lease_free_iff [of "refresh t s" t] assms
  by (simp add: try_acquire_def take_slot_def)

text \<open>
  once the lease has ended the half-open state limits nothing: every acquisition is admitted,
  because an admitted probe does not renew the lease.
\<close>

theorem expired_lease_admits_all:
  assumes "lim_ok l" and "ps_state (lim_entry l key) = RHalfOpen"
    and "ps_reset_at_ms (lim_entry l key) + 30000 \<le> U64_MAX"
    and "list_all (\<lambda>t. ps_reset_at_ms (lim_entry l key) + 30000 \<le> t) ts"
  shows "snd (acquire_run l key ts) = length ts"
  using assms
proof (induction l key ts rule: acquire_run.induct)
  case (1 l key)
  then show ?case by simp
next
  case (2 l key t ts)
  let ?l = "fst (acquire_key l key t)" and ?s = "lim_entry l key"
  have e: "lim_ok ?l" "lim_entry ?l key = fst (try_acquire t (refresh t ?s))"
    using acquire_key_entry [OF "2.prems"(1)] by simp_all
  have x: "snd (try_acquire t (refresh t ?s))" "ps_state (lim_entry ?l key) = RHalfOpen"
    "ps_reset_at_ms (lim_entry ?l key) = ps_reset_at_ms ?s"
    using expired_half_open_acquire [OF "2.prems"(2,3), of t] "2.prems"(4) e(2) by simp_all
  have "snd (acquire_key l key t)" using x(1) by (simp add: acquire_key_def split_beta)
  moreover have "snd (acquire_run ?l key ts) = length ts"
    using "2.IH" [OF refl prod.collapse e(1) x(2)] "2.prems"(3,4) x(3) by simp
  ultimately show ?case by (simp add: split_beta)
qed

theorem expired_lease_admits_all_witness:
  "snd (acquire_run probing_limiter 7 [31000, 31000, 31001]) = 3"
proof -
  have e: "lim_entry probing_limiter 7 = ps_default \<lparr> ps_state := RHalfOpen, ps_reset_at_ms := 1000 \<rparr>"
    by (simp add: probing_limiter_def lim_entry_put lim_ok_new)
  have "lim_ok probing_limiter" by (simp add: probing_limiter_def lim.invar_put lim_ok_new)
  then have "snd (acquire_run probing_limiter 7 [31000, 31000, 31001]) =
     length [31000, 31000, 31001 :: nat]"
    by (rule expired_lease_admits_all) (simp_all add: e)
  then show ?thesis by simp
qed

definition in_window :: "nat \<Rightarrow> target_predictive_state \<Rightarrow> bool" where
  "in_window e s \<longleftrightarrow> ps_state s = RClosed \<and> ps_window_start_ms s \<noteq> 0 \<and>
     ps_window_start_ms s + ps_window_duration_ms s = e \<and> e \<le> U64_MAX \<and>
     ps_window_count s \<le> ps_learned_burst s \<and> ps_learned_burst s \<le> U16_MAX"

lemma in_window_refresh:
  assumes "in_window e s" and "t < e"
  shows "in_window e (refresh t s) \<and> ps_window_count (refresh t s) = ps_window_count s"
proof -
  have "advance_window_if_expired t s = s"
    using assms by (auto simp: in_window_def advance_window_if_expired_def Let_def int_ops)
  then have "refresh t s = apply_memory_decay_if_idle t s"
    using assms by (simp add: refresh_def try_transition_half_open_def in_window_def)
  then show ?thesis
    using assms by (auto simp: in_window_def apply_memory_decay_if_idle_def int_ops limiter_consts)
qed

lemma in_window_try:
  assumes "in_window e s"
  shows "in_window e (fst (try_acquire t s)) \<and>
     ps_window_count (fst (try_acquire t s)) =
       ps_window_count s + (if snd (try_acquire t s) then 1 else 0)"
  using assms
  by (auto simp: in_window_def try_acquire_def take_slot_def int_ops limiter_consts)

lemma acquire_run_window:
  assumes "lim_ok l" and "in_window e (lim_entry l key)" and "list_all (\<lambda>t. t < e) ts"
  shows "lim_ok (fst (acquire_run l key ts)) \<and> in_window e (lim_entry (fst (acquire_run l key ts)) key) \<and>
     ps_window_count (lim_entry (fst (acquire_run l key ts)) key) =
       ps_window_count (lim_entry l key) + snd (acquire_run l key ts)"
  using assms
proof (induction l key ts rule: acquire_run.induct)
  case (1 l key)
  then show ?case by simp
next
  case (2 l key t ts)
  let ?l = "fst (acquire_key l key t)" and ?s = "refresh t (lim_entry l key)"
  have e: "lim_ok ?l" "lim_entry ?l key = fst (try_acquire t ?s)"
    using acquire_key_entry [OF "2.prems"(1)] by simp_all
  have r: "in_window e ?s" "ps_window_count ?s = ps_window_count (lim_entry l key)"
    using in_window_refresh [OF "2.prems"(2), of t] "2.prems"(3) by simp_all
  have w: "in_window e (lim_entry ?l key)"
    "ps_window_count (lim_entry ?l key) =
       ps_window_count (lim_entry l key) + (if snd (acquire_key l key t) then 1 else 0)"
    using in_window_try [OF r(1), of t] r(2) e(2) by (simp_all add: acquire_key_def split_beta)
  have "list_all (\<lambda>t. t < e) ts" using "2.prems"(3) by simp
  from "2.IH" [OF refl prod.collapse e(1) w(1) this] w(2) show ?case
    by (auto simp: split_beta)
qed

text \<open>
  inside one window the learned burst is a hard cap: however many acquisitions are attempted,
  those admitted plus the count so far never exceed the burst in force at the end.
\<close>

theorem window_burst_cap:
  assumes "lim_ok l" and "in_window e (lim_entry l key)" and "list_all (\<lambda>t. t < e) ts"
  shows "ps_window_count (lim_entry l key) + snd (acquire_run l key ts)
     \<le> ps_learned_burst (lim_entry (fst (acquire_run l key ts)) key)"
  using acquire_run_window [OF assms] by (simp add: in_window_def)

definition small_limiter :: limiter where
  "small_limiter =
     lim_put 7 (ps_default \<lparr> ps_window_start_ms := 5000, ps_learned_burst := 2 \<rparr>) limiter_new"

theorem window_burst_cap_witness:
  "snd (acquire_run small_limiter 7 [5000, 5001, 5002, 64999])
     \<le> ps_learned_burst (lim_entry (fst (acquire_run small_limiter 7 [5000, 5001, 5002, 64999])) 7)"
proof -
  have e: "lim_entry small_limiter 7 = ps_default \<lparr> ps_window_start_ms := 5000, ps_learned_burst := 2 \<rparr>"
    by (simp add: small_limiter_def lim_entry_put lim_ok_new)
  have ok: "lim_ok small_limiter" by (simp add: small_limiter_def lim.invar_put lim_ok_new)
  have w: "in_window 65000 (lim_entry small_limiter 7)" by (simp add: e in_window_def)
  show ?thesis using window_burst_cap [OF ok w, of "[5000, 5001, 5002, 64999]"] by simp
qed

subsection \<open>No starvation\<close>

text \<open>
  The operations as the pipeline issues them: successes carry no rate-limit headers
  (\<open>update_predictive_limiter_on_result\<close> passes \<open>None\<close> for both).
\<close>

datatype lim_event =
    LAcquire nat nat
  | LRetry nat nat nat nat
  | LRelease nat
  | LSuccess nat nat
  | LRateLimited nat "nat option" nat
  | LError nat nat nat
  | LPrune nat nat

fun lim_apply :: "lim_event \<Rightarrow> limiter \<Rightarrow> limiter" where
  "lim_apply (LAcquire k t) l = fst (acquire_key l k t)"
| "lim_apply (LRetry k fp n t) l = fst (should_retry_key l k fp n t)"
| "lim_apply (LRelease k) l = release_in_flight_key l k"
| "lim_apply (LSuccess k t) l = report_success_key l k None None t"
| "lim_apply (LRateLimited k ra t) l = report_rate_limited_key l k ra t"
| "lim_apply (LError k fp t) l = report_upstream_error_with_fingerprint_key l k fp t"
| "lim_apply (LPrune t idle) l = fst (limiter_prune_stale t idle l)"

fun lim_event_time :: "lim_event \<Rightarrow> nat option" where
  "lim_event_time (LAcquire _ t) = Some t"
| "lim_event_time (LRetry _ _ _ t) = Some t"
| "lim_event_time (LRelease _) = None"
| "lim_event_time (LSuccess _ t) = Some t"
| "lim_event_time (LRateLimited _ _ t) = Some t"
| "lim_event_time (LError _ _ t) = Some t"
| "lim_event_time (LPrune t _) = Some t"

definition event_by :: "nat \<Rightarrow> lim_event \<Rightarrow> bool" where
  "event_by T ev \<longleftrightarrow> (case lim_event_time ev of None \<Rightarrow> True | Some t \<Rightarrow> 0 < t \<and> t \<le> T)"

definition ps_live :: "nat \<Rightarrow> target_predictive_state \<Rightarrow> bool" where
  "ps_live T s \<longleftrightarrow> 1 \<le> ps_learned_burst s \<and> ps_window_duration_ms s = 60000 \<and>
     ps_reset_at_ms s \<le> T + 600000 \<and> ps_window_start_ms s \<le> T \<and>
     (ps_window_start_ms s = 0 \<longrightarrow> ps_window_count s = 0)"

lemma ps_live_default: "ps_live T ps_default"
  by (simp add: ps_live_def)

lemma ps_live_advance:
  "ps_live T s \<Longrightarrow> 0 < t \<Longrightarrow> t \<le> T \<Longrightarrow> ps_live T (advance_window_if_expired t s)"
  by (simp add: ps_live_def advance_window_if_expired_def Let_def int_ops limiter_consts)

lemma ps_live_half_open: "ps_live T s \<Longrightarrow> ps_live T (try_transition_half_open t s)"
  by (simp add: ps_live_def try_transition_half_open_def)

lemma ps_live_decay: "ps_live T s \<Longrightarrow> ps_live T (apply_memory_decay_if_idle t s)"
  by (simp add: ps_live_def apply_memory_decay_if_idle_def int_ops limiter_consts)

lemma ps_live_refresh: "ps_live T s \<Longrightarrow> 0 < t \<Longrightarrow> t \<le> T \<Longrightarrow> ps_live T (refresh t s)"
  by (simp add: refresh_def ps_live_advance ps_live_half_open ps_live_decay)

lemma refresh_window_start: "0 < t \<Longrightarrow> ps_window_start_ms (refresh t s) \<noteq> 0"
  by (auto simp: refresh_def apply_memory_decay_if_idle_def try_transition_half_open_def
      advance_window_if_expired_def Let_def)

lemma ps_live_acquire:
  assumes "ps_live T s" "0 < t" "t \<le> T"
  shows "ps_live T (fst (try_acquire t (refresh t s)))"
  using ps_live_refresh [OF assms] refresh_window_start [OF assms(2), of s]
  by (auto simp: try_acquire_def take_slot_def ps_live_def split: target_rate_state.splits)

lemma ps_live_success: "ps_live T s \<Longrightarrow> ps_live T (apply_success None None t s)"
  by (auto simp: ps_live_def apply_success_def advance_elastic_streak_def
      calibrate_from_remaining_header_def update_window_duration_def recover_from_success_def
      Let_def int_ops limiter_consts)

lemma ps_live_rate_limited:
  assumes "ps_live T s" and "t \<le> T" and "T + 600000 \<le> U64_MAX"
  shows "ps_live T (apply_rate_limited ra t s)"
proof -
  have "u64_add t (rate_limited_penalty ra) = t + rate_limited_penalty ra"
    using assms rate_limited_penalty_bounds [of ra] by (intro wrapping_add_exact) linarith
  then show ?thesis
    using assms rate_limited_penalty_bounds [of ra] by (simp add: ps_live_def apply_rate_limited_def)
qed

lemma ps_live_error:
  assumes "ps_live T s" and "t \<le> T" and "T + 600000 \<le> U64_MAX"
  shows "ps_live T (report_upstream_error_with_fingerprint fp t s)"
proof -
  have "u64_add t (upstream_error_penalty n) \<le> T + 600000" for n
  proof -
    have "u64_add t (upstream_error_penalty n) = t + upstream_error_penalty n"
      using assms upstream_error_penalty_bounds [of n] by (intro wrapping_add_exact) linarith
    then show ?thesis using assms(2) upstream_error_penalty_bounds [of n] by linarith
  qed
  then show ?thesis
    using assms by (simp add: ps_live_def report_upstream_error_with_fingerprint_def Let_def)
qed

definition lim_live :: "nat \<Rightarrow> limiter \<Rightarrow> bool" where
  "lim_live T l \<longleftrightarrow> lim_ok l \<and> (\<forall>k s. lim_get l k = Some s \<longrightarrow> ps_live T s)"

lemma lim_live_entry: "lim_live T l \<Longrightarrow> ps_live T (lim_entry l k)"
  by (auto simp: lim_live_def lim_entry_def ps_live_default split: option.splits)

lemma lim_live_put: "lim_live T l \<Longrightarrow> ps_live T s \<Longrightarrow> lim_live T (lim_put k s l)"
  by (simp add: lim_live_def lim.invar_put lim.lookup_put)

lemma lim_live_prune:
  assumes "lim_live T l"
  shows "lim_live T (fst (limiter_prune_stale t idle l))"
proof -
  let ?f = "hm_retain (\<lambda>_ s. \<not> is_idle t idle s)"
  have ok: "lim_ok l" and live: "\<And>k s. lim_get l k = Some s \<Longrightarrow> ps_live T s"
    using assms by (auto simp: lim_live_def)
  have idx: "shard_for k < length l" for k
    using ok by (simp add: lim_ok_def shard_for_def SHARD_COUNT_def)
  have "ps_live T s" if "lim_get (map ?f l) k = Some s" for k s
  proof -
    have "hm_ok (l ! shard_for k)" using ok idx [of k] by (simp add: lim_ok_def list_all_length)
    then have "lim_get l k = Some s"
      using that idx [of k] by (auto simp: lim_get_def hm_simps split: option.splits if_splits)
    then show ?thesis by (rule live)
  qed
  moreover have "lim_ok (map ?f l)" using ok by (simp add: lim_ok_def list_all_iff)
  ultimately show ?thesis by (simp add: lim_live_def limiter_prune_stale_def Let_def)
qed

lemma lim_live_apply:
  assumes "lim_live T l" and "event_by T ev" and "T + 600000 \<le> U64_MAX"
  shows "lim_live T (lim_apply ev l)"
proof (cases ev)
  case (LRelease k)
  show ?thesis
  proof (cases "lim_get l k")
    case None
    with LRelease assms show ?thesis by (simp add: release_in_flight_key_def)
  next
    case (Some s)
    then have "ps_live T s" using assms(1) by (simp add: lim_live_def)
    then have "ps_live T (s \<lparr> ps_in_flight := ps_in_flight s - 1 \<rparr>)" by (simp add: ps_live_def)
    with LRelease Some show ?thesis by (simp add: release_in_flight_key_def lim_live_put [OF assms(1)])
  qed
next
  case (LPrune t idle)
  then show ?thesis by (simp add: lim_live_prune assms(1))
qed (use assms lim_live_entry [OF assms(1)] in
    \<open>simp_all add: event_by_def acquire_key_def should_retry_key_def report_success_key_def
       report_rate_limited_key_def report_upstream_error_with_fingerprint_key_def split_beta Let_def
       lim_live_put ps_live_acquire ps_live_refresh ps_live_success ps_live_rate_limited ps_live_error\<close>)

lemma lim_live_run:
  "lim_live T l \<Longrightarrow> list_all (event_by T) evs \<Longrightarrow> T + 600000 \<le> U64_MAX \<Longrightarrow> lim_live T (fold lim_apply evs l)"
  by (induction evs arbitrary: l) (simp_all add: lim_live_apply)

lemma ps_live_ready:
  assumes live: "ps_live T s" and now: "T + 630000 \<le> now" and small: "now + 60000 \<le> U64_MAX"
  shows "\<not> is_saturated (evaluate (refresh now s) now)"
proof (cases "ps_state s")
  case RClosed
  have "ps_window_start_ms s + 60000 \<le> now" "u64_add (ps_window_start_ms s) 60000 = ps_window_start_ms s + 60000"
    using live now small by (auto simp: ps_live_def int_ops)
  then have adv: "ps_state (advance_window_if_expired now s) = RClosed \<and>
      ps_window_count (advance_window_if_expired now s) = 0 \<and>
      1 \<le> ps_learned_burst (advance_window_if_expired now s)"
    using live RClosed
    by (simp add: ps_live_def advance_window_if_expired_def Let_def int_ops limiter_consts)
  then have "ps_state (refresh now s) = RClosed \<and> ps_window_count (refresh now s) = 0 \<and>
      1 \<le> ps_learned_burst (refresh now s)"
    by (simp add: refresh_def apply_memory_decay_if_idle_def try_transition_half_open_def int_ops
        limiter_consts)
  then show ?thesis by (simp add: evaluate_def)
next
  case ROpen
  have "ps_reset_at_ms s + 30000 \<le> U64_MAX" using live now small by (simp add: ps_live_def)
  then show ?thesis using evaluate_open [OF ROpen] live now by (simp add: ps_live_def)
next
  case RHalfOpen
  have "ps_reset_at_ms s + 30000 \<le> U64_MAX" using live now small by (simp add: ps_live_def)
  then show ?thesis
    using refresh_half_open [OF RHalfOpen, of now] probe_lease_free_iff [of "refresh now s" now] live now
    by (simp add: ps_live_def evaluate_def)
qed

text \<open>
  C29: no target starves. After any history of the operations the pipeline performs, with clock
  readings up to \<open>T\<close>, every key admits a request again at any time from \<open>T\<close> plus ten and a half
  minutes on.
\<close>

theorem limiter_no_starvation:
  assumes "list_all (event_by T) evs" and "T + 630000 \<le> now" and "now + 60000 \<le> U64_MAX"
  shows "snd (acquire_key (fold lim_apply evs limiter_new) key now)"
proof -
  let ?l = "fold lim_apply evs limiter_new"
  have "lim_live T limiter_new"
    by (simp add: lim_live_def lim_ok_new) (simp add: lim_get_def limiter_new_def shard_for_def SHARD_COUNT_def)
  then have "lim_live T ?l" using assms by (intro lim_live_run) auto
  then have "ps_live T (lim_entry ?l key)" by (rule lim_live_entry)
  from ps_live_ready [OF this assms(2,3)] show ?thesis
    by (simp add: acquire_key_def split_beta try_acquire_iff)
qed

theorem limiter_no_starvation_witness:
  "snd (acquire_key (fold lim_apply [LAcquire 5 1000, LRateLimited 5 (Some 90000) 2000,
      LError 5 3 2500] limiter_new) 5 632500)"
  using limiter_no_starvation [of 2500 "[LAcquire 5 1000, LRateLimited 5 (Some 90000) 2000, LError 5 3 2500]"
      632500 5]
  by (simp add: event_by_def)

lemma zero_burst_refresh:
  assumes "ps_learned_burst s = 0" "ps_window_count s = 0" "ps_state s = RClosed" "ps_last_429_at_ms s = 0"
  shows "ps_learned_burst (refresh t s) = 0 \<and> ps_state (refresh t s) = RClosed"
  using assms
  by (simp add: refresh_def apply_memory_decay_if_idle_def try_transition_half_open_def
      advance_window_if_expired_def Let_def)

text \<open>
  header calibration can starve a target for good. When a success whose \<open>remaining\<close> header is
  0 is the first event the limiter sees for a key, the learned burst becomes 0 and every later
  prediction, at any time, is saturated.
\<close>

theorem zero_remaining_starves:
  "is_saturated (evaluate_key (report_success_key limiter_new key (Some 0) reset now) key t)"
proof -
  let ?s = "apply_success (Some 0) reset now ps_default"
  have "ps_learned_burst ?s = 0" "ps_window_count ?s = 0" "ps_state ?s = RClosed" "ps_last_429_at_ms ?s = 0"
    by (simp_all add: apply_success_def advance_elastic_streak_def calibrate_from_remaining_header_def
        update_window_duration_def recover_from_success_def Let_def int_ops limiter_consts
        split: option.splits)
  then have "ps_learned_burst (refresh t ?s) = 0 \<and> ps_state (refresh t ?s) = RClosed"
    by (rule zero_burst_refresh)
  then show ?thesis
    by (simp add: evaluate_key_def report_success_key_def lim.lookup_put [OF lim_ok_new] evaluate_def
        saturated_readiness_def)
qed

text \<open>
  the window learned from a reset header is truncated to 32 bits: a reset of 4294968 seconds
  (about fifty days) gives the minimum window of one second instead of a long one.
\<close>

theorem reset_window_truncates:
  "ps_window_duration_ms (update_window_duration (Some 4294968) s) = 1000"
  by (simp add: update_window_duration_def int_ops)

end
