(* ===== verification/Session_Affinity.thy ===== *)
theory Session_Affinity
  imports Predictive_Limiter
begin

text \<open>
  Sticky sessions (openproxy-pipeline/src/session_affinity.rs), synthetic message threads
  (message_threads.rs), and the text extraction of openproxy-types/src/message.rs they hash.
  \<open>to_string\<close> is serde's JSON printer and \<open>hash\<close> the standard hasher, both parameters; instants are
  milliseconds.
\<close>

section \<open>Message text\<close>

record openai_message =
  om_role :: string
  om_content :: "json option"
  om_name :: "string option"
  om_tool_call_id :: "string option"
  om_tool_calls :: "json list option"

definition get_str :: "json \<Rightarrow> string \<Rightarrow> string option" where
  "get_str v k = Option.bind (json_get v k) json_as_str"

definition media_types :: "string list" where
  "media_types =
     [''image_url'', ''input_image'', ''image'', ''input_audio'', ''audio'', ''input_video'',
      ''video_url'', ''video'', ''file'', ''input_file'', ''document'']"

definition extract_content_part_text :: "(json \<Rightarrow> string) \<Rightarrow> json \<Rightarrow> string" where
  "extract_content_part_text to_string part =
     (case first_some (get_str part) [''text'', ''content'', ''thinking'', ''reasoning''] of
        Some s \<Rightarrow> s
      | None \<Rightarrow>
          (if (case get_str part ''type'' of Some ty \<Rightarrow> ty \<in> set media_types | None \<Rightarrow> False) then []
           else if list_ex (\<lambda>k. json_get part k \<noteq> None) [''image_url'', ''video_url'', ''input_audio'', ''file'']
             then []
           else (case part of JStr s \<Rightarrow> s | JNull \<Rightarrow> [] | _ \<Rightarrow> to_string part)))"

definition extract_content_text :: "(json \<Rightarrow> string) \<Rightarrow> json option \<Rightarrow> string" where
  "extract_content_text to_string content =
     (case content of
        Some (JStr s) \<Rightarrow> s
      | Some (JArr parts) \<Rightarrow> concat (map (extract_content_part_text to_string) parts)
      | Some JNull \<Rightarrow> []
      | None \<Rightarrow> []
      | Some v \<Rightarrow> to_string v)"

section \<open>Session fingerprints\<close>

text \<open>What the two registries read of a request: its headers, its user and its messages.\<close>

record affinity_request =
  ar_headers :: "(string, string) hmap"
  ar_user :: "string option"
  ar_messages :: "openai_message list"

definition session_headers :: "string list" where
  "session_headers = [''x-session-id'', ''x-conversation-id'', ''x-thread-id'']"

definition nonblank :: "string \<Rightarrow> string option" where
  "nonblank s = (let t = trim s in if t = [] then None else Some t)"

definition session_identity :: "(json \<Rightarrow> string) \<Rightarrow> affinity_request \<Rightarrow> string option" where
  "session_identity to_string req =
     (case first_some (\<lambda>h. Option.bind (hm_get (ar_headers req) h) nonblank) session_headers of
        Some s \<Rightarrow> Some s
      | None \<Rightarrow>
          (case Option.bind (ar_user req) nonblank of
             Some s \<Rightarrow> Some s
           | None \<Rightarrow>
               first_some
                 (\<lambda>m. if om_role m = ''user'' then nonblank (extract_content_text to_string (om_content m))
                      else None)
                 (ar_messages req)))"

definition extract_session_hash ::
    "(hash_item list \<Rightarrow> nat) \<Rightarrow> (json \<Rightarrow> string) \<Rightarrow> affinity_request \<Rightarrow> nat option" where
  "extract_session_hash hash to_string req =
     map_option (\<lambda>s. hash [HStr s]) (session_identity to_string req)"

definition should_reset :: "affinity_request \<Rightarrow> bool" where
  "should_reset req \<longleftrightarrow>
     (case hm_get (ar_headers req) ''x-openproxy-reset-affinity'' of
        Some v \<Rightarrow> eq_ignore_ascii_case v ''true'' \<or> v = ''1'' | None \<Rightarrow> False) \<or>
     (case hm_get (ar_headers req) ''x-route'' of
        Some v \<Rightarrow> eq_ignore_ascii_case v ''force'' \<or> eq_ignore_ascii_case v ''reset'' | None \<Rightarrow> False)"

section \<open>The affinity registry\<close>

definition DEFAULT_SESSION_AFFINITY_TTL :: nat where
  "DEFAULT_SESSION_AFFINITY_TTL = 900 * 1000"

record session_affinity_entry =
  sa_target_id :: combo_target_id
  sa_expires_at :: nat

type_synonym affinity_key = "nat \<times> combo_id"
type_synonym affinity_registry = "(affinity_key, session_affinity_entry) hmap"

definition affinity_get ::
    "nat \<Rightarrow> affinity_key \<Rightarrow> affinity_registry \<Rightarrow> affinity_registry \<times> combo_target_id option" where
  "affinity_get now key r =
     (case hm_get r key of
        Some e \<Rightarrow>
          (if sa_expires_at e > now
           then (hm_put key (e \<lparr> sa_expires_at := now + DEFAULT_SESSION_AFFINITY_TTL \<rparr>) r,
                 Some (sa_target_id e))
           else (hm_remove key r, None))
      | None \<Rightarrow> (hm_remove key r, None))"

definition affinity_set :: "nat \<Rightarrow> affinity_key \<Rightarrow> combo_target_id \<Rightarrow> affinity_registry \<Rightarrow> affinity_registry" where
  "affinity_set now key tid r =
     hm_put key \<lparr> sa_target_id = tid, sa_expires_at = now + DEFAULT_SESSION_AFFINITY_TTL \<rparr> r"

definition affinity_invalidate :: "affinity_key \<Rightarrow> affinity_registry \<Rightarrow> affinity_registry" where
  "affinity_invalidate key r = hm_remove key r"

definition affinity_prune :: "nat \<Rightarrow> affinity_registry \<Rightarrow> affinity_registry \<times> nat" where
  "affinity_prune now r =
     (let r' = hm_retain (\<lambda>_ e. sa_expires_at e > now) r in (r', length r - length r'))"

section \<open>Synthetic message threads\<close>

definition THREAD_IDLE_TIMEOUT :: nat where
  "THREAD_IDLE_TIMEOUT = 270 * 1000"

record active_thread_state =
  at_target_id :: "combo_target_id option"
  at_last_message_id :: string
  at_message_hashes :: "nat list"
  at_last_activity :: nat
  at_degraded_to_stateless :: bool

type_synonym thread_registry = "(string, active_thread_state) hmap"

definition hash_message :: "(hash_item list \<Rightarrow> nat) \<Rightarrow> (json \<Rightarrow> string) \<Rightarrow> openai_message \<Rightarrow> nat" where
  "hash_message hash to_string m =
     hash ([HStr (om_role m), HStr (extract_content_text to_string (om_content m))] @
       (case om_tool_calls m of
          None \<Rightarrow> []
        | Some tcs \<Rightarrow> map (\<lambda>tc. HStr (case json_as_str tc of Some s \<Rightarrow> s | None \<Rightarrow> to_string tc)) tcs) @
       (case om_tool_call_id m of None \<Rightarrow> [] | Some i \<Rightarrow> [HStr i]))"

definition plan_continuation ::
    "(openai_message \<Rightarrow> nat) \<Rightarrow> nat \<Rightarrow> string \<Rightarrow> openai_message list \<Rightarrow> thread_registry \<Rightarrow>
     thread_registry \<times> (string \<times> nat) option" where
  "plan_continuation hm now session messages r =
     (case hm_get r session of
        None \<Rightarrow> (r, None)
      | Some e \<Rightarrow>
          (if at_degraded_to_stateless e then (r, None)
           else if saturating_sub now (at_last_activity e) \<ge> THREAD_IDLE_TIMEOUT
             then (hm_remove session r, None)
           else
             (let current = map hm messages; cached = at_message_hashes e
              in if cached = [] \<or> length current \<le> length cached then (r, None)
                 else if take (length cached) current \<noteq> cached then (r, None)
                 else (r, Some (at_last_message_id e, length cached)))))"

definition thread_record_success ::
    "(openai_message \<Rightarrow> nat) \<Rightarrow> nat \<Rightarrow> string \<Rightarrow> combo_target_id option \<Rightarrow> openai_message list \<Rightarrow>
     string \<Rightarrow> thread_registry \<Rightarrow> thread_registry" where
  "thread_record_success hm now session tid messages response_id r =
     hm_put session
       \<lparr> at_target_id = tid, at_last_message_id = response_id, at_message_hashes = map hm messages,
         at_last_activity = now, at_degraded_to_stateless = False \<rparr> r"

definition should_opt_in_synthetic_threads :: "string \<Rightarrow> thread_registry \<Rightarrow> bool" where
  "should_opt_in_synthetic_threads session r =
     (case hm_get r session of None \<Rightarrow> True | Some e \<Rightarrow> \<not> at_degraded_to_stateless e)"

definition thread_invalidate :: "string \<Rightarrow> thread_registry \<Rightarrow> thread_registry" where
  "thread_invalidate session r = hm_remove session r"

definition mark_stateless :: "string \<Rightarrow> thread_registry \<Rightarrow> thread_registry" where
  "mark_stateless session r = hm_modify session (\<lambda>e. e \<lparr> at_degraded_to_stateless := True \<rparr>) r"

datatype thread_directive = ThreadCreate | ThreadContinue string

text \<open>
  The plan for one request. \<open>eligible\<close> is the guard on the target (Anthropic format, the claude-code
  adapter, no \<open>thread\<close> in the request).
\<close>

definition resolve_synthetic_thread_plan ::
    "(openai_message \<Rightarrow> nat) \<Rightarrow> nat \<Rightarrow> bool \<Rightarrow> string \<Rightarrow> openai_message list \<Rightarrow> thread_registry \<Rightarrow>
     thread_registry \<times> openai_message list \<times> thread_directive option" where
  "resolve_synthetic_thread_plan hm now eligible session messages r =
     (if \<not> eligible then (r, messages, None)
      else if \<not> should_opt_in_synthetic_threads session r then (r, messages, None)
      else
        (case plan_continuation hm now session messages r of
           (r', Some (prev_id, slice_from)) \<Rightarrow>
             (if slice_from < length messages
              then (r', drop slice_from messages, Some (ThreadContinue prev_id))
              else (r', messages, None))
         | (r', None) \<Rightarrow> (r', messages, Some ThreadCreate)))"

section \<open>Properties\<close>

fun affinity_reads :: "nat \<Rightarrow> affinity_key \<Rightarrow> nat list \<Rightarrow> affinity_registry \<Rightarrow> combo_target_id option list" where
  "affinity_reads t key [] r = []"
| "affinity_reads t key (g # gs) r =
     (let (r', res) = affinity_get (t + g) key r in res # affinity_reads (t + g) key gs r')"

lemma affinity_get_fresh:
  "hm_get r key = Some e \<Longrightarrow> now < sa_expires_at e \<Longrightarrow>
     affinity_get now key r = (affinity_set now key (sa_target_id e) r, Some (sa_target_id e))"
  by (cases e) (simp add: affinity_get_def affinity_set_def)

lemma affinity_reads_none: "hm_get r key = None \<Longrightarrow> affinity_reads t key gs r = replicate (length gs) None"
proof (induction gs arbitrary: t r)
  case (Cons g gs)
  then show ?case by (simp add: affinity_get_def hm_simps)
qed simp

lemma affinity_reads_set:
  "affinity_reads t key gs (affinity_set t key tid r) =
     (let n = length (takeWhile (\<lambda>g. g < DEFAULT_SESSION_AFFINITY_TTL) gs)
      in replicate n (Some tid) @ replicate (length gs - n) None)"
proof (induction gs arbitrary: t r)
  case Nil
  then show ?case by simp
next
  case (Cons g gs)
  let ?r = "affinity_set t key tid r"
  have get: "hm_get ?r key =
      Some \<lparr> sa_target_id = tid, sa_expires_at = t + DEFAULT_SESSION_AFFINITY_TTL \<rparr>"
    by (simp add: affinity_set_def hm_simps)
  show ?case
  proof (cases "g < DEFAULT_SESSION_AFFINITY_TTL")
    case True
    with affinity_get_fresh [OF get, of "t + g"] show ?thesis
      using Cons.IH [of "t + g" ?r] by (simp add: Let_def)
  next
    case False
    then have "affinity_get (t + g) key ?r = (hm_remove key ?r, None)"
      using get by (simp add: affinity_get_def)
    moreover have "affinity_reads (t + g) key gs (hm_remove key ?r) = replicate (length gs) None"
      by (rule affinity_reads_none) (simp add: hm_simps)
    ultimately show ?thesis using False by simp
  qed
qed

text \<open>
  a pinned session reads back its target until 15 minutes pass without use; every read within
  that time renews the pin, and one read too late drops it for good. \<open>gaps\<close> are the times between
  successive reads after the pin was set at \<open>t0\<close>.
\<close>

theorem affinity_pin_lifetime:
  "affinity_reads t0 key gaps (affinity_set t0 key tid r) =
     (let n = length (takeWhile (\<lambda>g. g < 900000) gaps)
      in replicate n (Some tid) @ replicate (length gaps - n) None)"
  using affinity_reads_set [of t0 key gaps tid r] by (simp add: DEFAULT_SESSION_AFFINITY_TTL_def)

text \<open>
  slicing a thread is lossless. When a request is sent as a continuation, the messages sent are
  a non-empty suffix of the request, and the omitted ones carry exactly the hashes recorded for the
  previous turn, under an id recorded for this session less than 270 seconds ago.
\<close>

theorem thread_slice_lossless:
  assumes "resolve_synthetic_thread_plan hm now eligible session messages r =
     (r', sent, Some (ThreadContinue prev_id))"
  shows "\<exists>e omitted. hm_get r session = Some e \<and> prev_id = at_last_message_id e \<and>
     messages = omitted @ sent \<and> sent \<noteq> [] \<and> omitted \<noteq> [] \<and> map hm omitted = at_message_hashes e \<and>
     now - at_last_activity e < 270000 \<and> \<not> at_degraded_to_stateless e \<and> r' = r"
proof -
  obtain e where e: "hm_get r session = Some e" "\<not> at_degraded_to_stateless e"
    and recent: "now - at_last_activity e < 270000"
    and nonempty: "at_message_hashes e \<noteq> []"
    and longer: "length (at_message_hashes e) < length messages"
    and pre: "take (length (at_message_hashes e)) (map hm messages) = at_message_hashes e"
    and res: "prev_id = at_last_message_id e" "sent = drop (length (at_message_hashes e)) messages" "r' = r"
    using assms
    by (auto simp: resolve_synthetic_thread_plan_def plan_continuation_def Let_def not_le
        THREAD_IDLE_TIMEOUT_def split: if_splits option.splits)
  let ?om = "take (length (at_message_hashes e)) messages"
  have "map hm ?om = at_message_hashes e" using pre by (simp add: take_map)
  moreover have "messages = ?om @ sent" "sent \<noteq> []" using res longer by simp_all
  moreover have "?om \<noteq> []" using nonempty longer by auto
  ultimately show ?thesis using e recent res by blast
qed

definition user_msg :: "string \<Rightarrow> openai_message" where
  "user_msg s = \<lparr> om_role = ''user'', om_content = Some (JStr s), om_name = None,
     om_tool_call_id = None, om_tool_calls = None \<rparr>"

definition length_hash :: "openai_message \<Rightarrow> nat" where
  "length_hash m = (case om_content m of Some (JStr s) \<Rightarrow> length s | _ \<Rightarrow> 0)"

theorem thread_slice_lossless_witness:
  "\<exists>omitted. [user_msg ''hi'', user_msg ''more''] = omitted @ [user_msg ''more''] \<and> omitted \<noteq> []"
proof -
  let ?r = "thread_record_success length_hash 0 ''s'' None [user_msg ''hi''] ''msg_1'' []"
  have "resolve_synthetic_thread_plan length_hash 1000 True ''s'' [user_msg ''hi'', user_msg ''more''] ?r =
     (?r, [user_msg ''more''], Some (ThreadContinue ''msg_1''))"
    by (simp add: resolve_synthetic_thread_plan_def plan_continuation_def thread_record_success_def
        should_opt_in_synthetic_threads_def hm_put_def hm_get_def THREAD_IDLE_TIMEOUT_def Let_def)
  from thread_slice_lossless [OF this] show ?thesis by auto
qed

text \<open>
  the message hash does not see media. Two messages whose content differs only in an image
  part have the same hash whatever the hasher, so an edited image earlier in the conversation is
  still sliced away as an identical prefix.
\<close>

theorem hash_message_ignores_images:
  "hash_message hash to_string
     (m \<lparr> om_content := Some (JArr (pre @ JObj [(''type'', JStr ''image_url''), (''image_url'', img)] # post)) \<rparr>) =
   hash_message hash to_string
     (m \<lparr> om_content := Some (JArr (pre @ JObj [(''type'', JStr ''image_url''), (''image_url'', img')] # post)) \<rparr>)"
  by (simp add: hash_message_def extract_content_text_def extract_content_part_text_def get_str_def
      json_get_def json_as_str_def media_types_def)

end
