(* ===== verification/Modality_Gate.thy ===== *)
theory Modality_Gate
  imports Quota_Routing Session_Affinity
begin

text \<open>
  The input-modality gate of the router (openproxy-pipeline/src/stages/modality.rs, with
  \<open>ModalityFlags\<close> of openproxy-types/src/models.rs): which media a request carries, which a model
  declares, and which targets are kept. The flags are an 8-bit word.
\<close>

unbundle bit_operations_syntax

section \<open>Flags\<close>

type_synonym modality_flags = "8 word"

definition FLAG_TEXT :: modality_flags where "FLAG_TEXT = 1"
definition FLAG_IMAGE :: modality_flags where "FLAG_IMAGE = 2"
definition FLAG_AUDIO :: modality_flags where "FLAG_AUDIO = 4"
definition FLAG_VIDEO :: modality_flags where "FLAG_VIDEO = 8"

lemmas flag_defs = FLAG_TEXT_def FLAG_IMAGE_def FLAG_AUDIO_def FLAG_VIDEO_def

definition flag_if :: "bool \<Rightarrow> modality_flags \<Rightarrow> modality_flags \<Rightarrow> modality_flags" where
  "flag_if b f flags = (if b then flags OR f else flags)"

definition parse_from_json :: "string option \<Rightarrow> modality_flags" where
  "parse_from_json json_str =
     (case json_str of
        None \<Rightarrow> FLAG_TEXT
      | Some s \<Rightarrow>
          (let flags = flag_if (str_contains s ''video'') FLAG_VIDEO
                 (flag_if (str_contains s ''audio'') FLAG_AUDIO
                   (flag_if (str_contains s ''image'') FLAG_IMAGE
                     (flag_if (str_contains s ''text'') FLAG_TEXT 0)))
           in if flags = 0 then FLAG_TEXT else flags))"

section \<open>What a request needs\<close>

record required_modalities =
  rq_image :: bool
  rq_video :: bool
  rq_audio :: bool
  rq_file :: bool

definition no_modalities :: required_modalities where
  "no_modalities = \<lparr> rq_image = False, rq_video = False, rq_audio = False, rq_file = False \<rparr>"

definition required_any :: "required_modalities \<Rightarrow> bool" where
  "required_any r \<longleftrightarrow> rq_image r \<or> rq_video r \<or> rq_audio r \<or> rq_file r"

definition required_flags :: "required_modalities \<Rightarrow> modality_flags" where
  "required_flags r =
     flag_if (rq_audio r) FLAG_AUDIO (flag_if (rq_video r) FLAG_VIDEO (flag_if (rq_image r) FLAG_IMAGE 0))"

definition satisfied_by :: "required_modalities \<Rightarrow> modality_flags \<Rightarrow> string option \<Rightarrow> bool" where
  "satisfied_by r declared raw_json =
     (let flags = required_flags r;
          flags' = (if rq_file r then
                      (if (case raw_json of None \<Rightarrow> False
                           | Some s \<Rightarrow> str_contains s ''pdf'' \<or> str_contains s ''file'' \<or> str_contains s ''document'')
                       then flags AND NOT FLAG_IMAGE else flags OR FLAG_IMAGE)
                    else flags)
      in declared AND flags' = flags')"

definition accumulate_part :: "json \<Rightarrow> required_modalities \<Rightarrow> required_modalities" where
  "accumulate_part part r =
     (let kind = Option.bind (json_get part ''type'') json_as_str;
          has = (\<lambda>k. json_get part k \<noteq> None);
          is = (\<lambda>ks. case kind of None \<Rightarrow> False | Some k \<Rightarrow> k \<in> set ks)
      in \<lparr> rq_image = (rq_image r \<or> is [''image_url'', ''input_image'', ''image''] \<or> has ''image_url'' \<or> has ''input_image''),
           rq_video = (rq_video r \<or> is [''input_video'', ''video_url'', ''video''] \<or> has ''video_url'' \<or> has ''input_video''),
           rq_audio = (rq_audio r \<or> is [''input_audio'', ''audio''] \<or> has ''input_audio'' \<or> has ''audio_url''),
           rq_file = (rq_file r \<or> is [''file'', ''input_file'', ''document''] \<or> has ''file'' \<or> has ''file_id'') \<rparr>)"

definition message_modalities :: "openai_message \<Rightarrow> required_modalities \<Rightarrow> required_modalities" where
  "message_modalities m r =
     (case om_content m of
        Some (JArr parts) \<Rightarrow> fold accumulate_part parts r
      | Some (JObj kvs) \<Rightarrow> accumulate_part (JObj kvs) r
      | _ \<Rightarrow> r)"

definition request_required_modalities :: "openai_message list \<Rightarrow> required_modalities" where
  "request_required_modalities messages = fold message_modalities messages no_modalities"

definition request_requires_image_input :: "openai_message list \<Rightarrow> bool" where
  "request_requires_image_input messages = rq_image (request_required_modalities messages)"

section \<open>The gate\<close>

record modality_routing_config =
  mc_enabled :: bool
  mc_fallback_to_text_only :: bool

definition target_accepts :: "required_modalities \<Rightarrow> resolved_target \<Rightarrow> bool" where
  "target_accepts r t =
     (case rt_input_modalities_json t of
        None \<Rightarrow> True
      | Some raw \<Rightarrow> satisfied_by r (parse_from_json (Some raw)) (Some raw))"

definition effective_config :: "modality_routing_config \<Rightarrow> bool option \<Rightarrow> modality_routing_config" where
  "effective_config global override =
     (case override of Some enabled \<Rightarrow> global \<lparr> mc_enabled := enabled \<rparr> | None \<Rightarrow> global)"

definition filter_targets_for_modalities ::
    "resolved_target list \<Rightarrow> required_modalities \<Rightarrow> modality_routing_config \<Rightarrow> resolved_target list" where
  "filter_targets_for_modalities targets r config =
     (if \<not> mc_enabled config \<or> \<not> required_any r then targets
      else
        (let kept = filter (target_accepts r) targets
         in if kept = [] then (if mc_fallback_to_text_only config then targets else kept) else kept))"

definition filter_targets_for_input :: "resolved_target list \<Rightarrow> bool \<Rightarrow> modality_routing_config \<Rightarrow> resolved_target list" where
  "filter_targets_for_input targets requires_image config =
     filter_targets_for_modalities targets (no_modalities \<lparr> rq_image := requires_image \<rparr>) config"

section \<open>What the gate admits\<close>

lemma bit_flag_if: "bit (flag_if b f x) n \<longleftrightarrow> bit x n \<or> b \<and> bit f n"
  by (simp add: flag_if_def bit_or_iff)

lemma bit_flags:
  "bit FLAG_TEXT n \<longleftrightarrow> n = 0" "bit FLAG_IMAGE n \<longleftrightarrow> n = 1" "bit FLAG_AUDIO n \<longleftrightarrow> n = 2" "bit FLAG_VIDEO n \<longleftrightarrow> n = 3"
proof -
  have pow: "FLAG_TEXT = 2 ^ 0" "FLAG_IMAGE = 2 ^ 1" "FLAG_AUDIO = 2 ^ 2" "FLAG_VIDEO = 2 ^ 3" by (simp_all add: flag_defs)
  show "bit FLAG_TEXT n \<longleftrightarrow> n = 0" "bit FLAG_IMAGE n \<longleftrightarrow> n = 1" "bit FLAG_AUDIO n \<longleftrightarrow> n = 2" "bit FLAG_VIDEO n \<longleftrightarrow> n = 3"
    unfolding pow bit_exp_iff by auto
qed

lemma flags_covered: "declared AND flags = flags \<Longrightarrow> bit flags n \<Longrightarrow> bit declared n" for declared :: modality_flags
  by (metis bit_and_iff)

lemma parse_from_json_bits:
  "bit (parse_from_json (Some s)) 1 \<longleftrightarrow> str_contains s ''image''"
  "bit (parse_from_json (Some s)) 2 \<longleftrightarrow> str_contains s ''audio''"
  "bit (parse_from_json (Some s)) 3 \<longleftrightarrow> str_contains s ''video''"
proof -
  define flags where "flags = flag_if (str_contains s ''video'') FLAG_VIDEO
      (flag_if (str_contains s ''audio'') FLAG_AUDIO
        (flag_if (str_contains s ''image'') FLAG_IMAGE
          (flag_if (str_contains s ''text'') FLAG_TEXT 0)))"
  have b: "bit flags 1 \<longleftrightarrow> str_contains s ''image''" "bit flags 2 \<longleftrightarrow> str_contains s ''audio''"
    "bit flags 3 \<longleftrightarrow> str_contains s ''video''"
    by (simp_all add: flags_def bit_flag_if bit_flags)
  have "parse_from_json (Some s) = (if flags = 0 then FLAG_TEXT else flags)"
    by (simp add: parse_from_json_def flags_def Let_def)
  with b show "bit (parse_from_json (Some s)) 1 \<longleftrightarrow> str_contains s ''image''"
    "bit (parse_from_json (Some s)) 2 \<longleftrightarrow> str_contains s ''audio''"
    "bit (parse_from_json (Some s)) 3 \<longleftrightarrow> str_contains s ''video''"
    by (auto simp: bit_flags split: if_splits)
qed

definition names_document :: "string \<Rightarrow> bool" where
  "names_document raw \<longleftrightarrow>
     str_contains raw ''pdf'' \<or> str_contains raw ''file'' \<or> str_contains raw ''document''"

definition reads_request :: "required_modalities \<Rightarrow> string \<Rightarrow> bool" where
  "reads_request r raw \<longleftrightarrow>
     (rq_video r \<longrightarrow> str_contains raw ''video'') \<and> (rq_audio r \<longrightarrow> str_contains raw ''audio'') \<and>
     (if rq_file r then names_document raw \<or> str_contains raw ''image''
      else rq_image r \<longrightarrow> str_contains raw ''image'')"

lemma flags_covered_iff:
  "declared AND flags = flags \<longleftrightarrow> (\<forall>n. bit flags n \<longrightarrow> bit declared n)" for declared :: modality_flags
  unfolding bit_eq_iff bit_and_iff using bit_imp_possible_bit by blast

lemma required_flags_bits:
  "bit (required_flags r) n \<longleftrightarrow> rq_image r \<and> n = 1 \<or> rq_audio r \<and> n = 2 \<or> rq_video r \<and> n = 3"
  by (auto simp: required_flags_def bit_flag_if bit_flags)

lemma satisfied_by_iff: "satisfied_by r (parse_from_json (Some raw)) (Some raw) \<longleftrightarrow> reads_request r raw"
proof -
  define need where "need = (if rq_file r then (if names_document raw then required_flags r AND NOT FLAG_IMAGE
      else required_flags r OR FLAG_IMAGE) else required_flags r)"
  have need: "bit need n \<longleftrightarrow> (if rq_file r then \<not> names_document raw else rq_image r) \<and> n = 1 \<or>
      rq_audio r \<and> n = 2 \<or> rq_video r \<and> n = 3" for n
    by (auto simp: need_def required_flags_bits bit_flags bit_or_iff bit_and_iff bit_not_iff
        dest: bit_imp_le_length split: if_splits)
  have "satisfied_by r (parse_from_json (Some raw)) (Some raw) \<longleftrightarrow>
      parse_from_json (Some raw) AND need = need"
    unfolding satisfied_by_def need_def Let_def option.case names_document_def by (simp only:)
  also have "\<dots> \<longleftrightarrow> (\<forall>n. bit need n \<longrightarrow> bit (parse_from_json (Some raw)) n)" by (rule flags_covered_iff)
  also have "\<dots> \<longleftrightarrow> reads_request r raw"
    unfolding need reads_request_def parse_from_json_bits [symmetric] by auto
  finally show ?thesis .
qed

text \<open>
  the gate keeps exactly the targets that can read the request. When the gate is on, the request
  carries media and some target accepts it, a target is kept if and only if it does not say what it
  reads, or its catalog entry names every medium the request carries, where a document may be
  covered by a document entry or an image entry.
\<close>

theorem modality_gate_exact:
  assumes "mc_enabled config" and "required_any r" and "\<exists>u \<in> set targets. target_accepts r u"
  shows "t \<in> set (filter_targets_for_modalities targets r config) \<longleftrightarrow>
     t \<in> set targets \<and> (\<forall>raw. rt_input_modalities_json t = Some raw \<longrightarrow> reads_request r raw)"
proof -
  have "target_accepts r t \<longleftrightarrow> (\<forall>raw. rt_input_modalities_json t = Some raw \<longrightarrow> reads_request r raw)"
    by (simp add: target_accepts_def satisfied_by_iff split: option.split)
  moreover have "filter (target_accepts r) targets \<noteq> []"
    using assms(3) by (simp add: filter_empty_conv)
  ultimately show ?thesis using assms(1,2) by (simp add: filter_targets_for_modalities_def)
qed

definition vision_target :: "string option \<Rightarrow> resolved_target" where
  "vision_target modalities =
     default_resolved_target \<lparr> rt_model := default_model \<lparr> mo_input_modalities_json := modalities \<rparr> \<rparr>"

theorem modality_gate_exact_witness:
  "vision_target (Some ''text,image'') \<in> set (filter_targets_for_modalities
      [vision_target (Some ''text''), vision_target (Some ''text,image'')]
      \<lparr> rq_image = True, rq_video = False, rq_audio = False, rq_file = False \<rparr>
      \<lparr> mc_enabled = True, mc_fallback_to_text_only = True \<rparr>) \<and>
   vision_target (Some ''text'') \<notin> set (filter_targets_for_modalities
      [vision_target (Some ''text''), vision_target (Some ''text,image'')]
      \<lparr> rq_image = True, rq_video = False, rq_audio = False, rq_file = False \<rparr>
      \<lparr> mc_enabled = True, mc_fallback_to_text_only = True \<rparr>)"
proof -
  let ?r = "\<lparr> rq_image = True, rq_video = False, rq_audio = False, rq_file = False \<rparr>"
  let ?c = "\<lparr> mc_enabled = True, mc_fallback_to_text_only = True \<rparr>"
  let ?ts = "[vision_target (Some ''text''), vision_target (Some ''text,image'')]"
  have reads: "reads_request ?r ''text,image''" "\<not> reads_request ?r ''text''" by code_simp+
  have "target_accepts ?r (vision_target (Some ''text,image''))"
    using reads(1) by (simp add: target_accepts_def vision_target_def satisfied_by_iff)
  then have "\<exists>u \<in> set ?ts. target_accepts ?r u" by simp
  from modality_gate_exact [of ?c ?r ?ts, OF _ _ this] show ?thesis
    using reads by (simp add: required_any_def vision_target_def)
qed

text \<open>
  A request with an image and a document is let through to a model that names \<open>pdf\<close> and no image:
  the document entry clears the image bit the picture had set.
\<close>

lemma document_entry_clears_image:
  "satisfied_by \<lparr> rq_image = True, rq_video = False, rq_audio = False, rq_file = True \<rparr>
     (parse_from_json (Some raw)) (Some raw)" if "names_document raw"
  using that by (simp add: satisfied_by_iff reads_request_def)

end
