(* ===== verification/Selection_Registry.thy ===== *)
theory Selection_Registry
  imports Combos
begin

text \<open>
  Per-target request statistics (openproxy-types/src/selection_registry.rs and \<open>now_ms\<close> of time.rs).
  \<open>fetch_add\<close> on an \<open>AtomicU64\<close> wraps; the clock reading \<open>now\<close> is an argument and is never 0. The
  \<open>f64\<close> arithmetic of the reputation score is kept exact, over the rationals.
\<close>

section \<open>State\<close>

record selection_registry_entry =
  se_last_success_ms :: nat
  se_last_activity_ms :: nat
  se_request_count :: nat
  se_success_count :: nat
  se_failure_count :: nat
  se_timeout_count :: nat
  se_total_latency_ms :: nat
  se_latency_samples :: nat

definition se_default :: selection_registry_entry where
  "se_default = \<lparr> se_last_success_ms = 0, se_last_activity_ms = 0, se_request_count = 0,
     se_success_count = 0, se_failure_count = 0, se_timeout_count = 0, se_total_latency_ms = 0,
     se_latency_samples = 0 \<rparr>"

type_synonym selection_registry = "(combo_target_id, selection_registry_entry) hmap"

record target_reputation_metrics =
  tm_success_count :: nat
  tm_failure_count :: nat
  tm_timeout_count :: nat
  tm_latency_samples :: nat
  tm_total_latency_ms :: nat
  tm_last_success_ms :: nat
  tm_last_activity_ms :: nat

section \<open>Operations\<close>

definition selection_now_ms :: "nat \<Rightarrow> nat" where
  "selection_now_ms elapsed_ms = wrapping_add U64_MAX elapsed_ms 1"

definition update_entry ::
    "combo_target_id \<Rightarrow> (selection_registry_entry \<Rightarrow> selection_registry_entry) \<Rightarrow>
     selection_registry \<Rightarrow> selection_registry" where
  "update_entry tid f r =
     (case hm_get r tid of Some e \<Rightarrow> hm_put tid (f e) r | None \<Rightarrow> hm_entry_update tid se_default f r)"

abbreviation fetch_add :: "nat \<Rightarrow> nat \<Rightarrow> nat" where "fetch_add \<equiv> wrapping_add U64_MAX"

definition record_success_with_latency ::
    "nat \<Rightarrow> combo_target_id \<Rightarrow> nat \<Rightarrow> selection_registry \<Rightarrow> selection_registry" where
  "record_success_with_latency now tid latency_ms r =
     update_entry tid
       (\<lambda>e. let e = e \<lparr> se_last_success_ms := now, se_last_activity_ms := now,
                        se_request_count := fetch_add (se_request_count e) 1,
                        se_success_count := fetch_add (se_success_count e) 1 \<rparr>
            in if latency_ms > 0
               then e \<lparr> se_total_latency_ms := fetch_add (se_total_latency_ms e) latency_ms,
                        se_latency_samples := fetch_add (se_latency_samples e) 1 \<rparr>
               else e) r"

definition record_success :: "nat \<Rightarrow> combo_target_id \<Rightarrow> selection_registry \<Rightarrow> selection_registry" where
  "record_success now tid r = record_success_with_latency now tid 0 r"

definition record_failure_with_kind ::
    "nat \<Rightarrow> combo_target_id \<Rightarrow> bool \<Rightarrow> selection_registry \<Rightarrow> selection_registry" where
  "record_failure_with_kind now tid is_timeout r =
     update_entry tid
       (\<lambda>e. let e = e \<lparr> se_last_activity_ms := now, se_last_success_ms := 0,
                        se_request_count := fetch_add (se_request_count e) 1,
                        se_failure_count := fetch_add (se_failure_count e) 1 \<rparr>
            in if is_timeout then e \<lparr> se_timeout_count := fetch_add (se_timeout_count e) 1 \<rparr> else e) r"

definition record_failure :: "nat \<Rightarrow> combo_target_id \<Rightarrow> selection_registry \<Rightarrow> selection_registry" where
  "record_failure now tid r = record_failure_with_kind now tid False r"

definition record_request :: "nat \<Rightarrow> combo_target_id \<Rightarrow> selection_registry \<Rightarrow> selection_registry" where
  "record_request now tid r =
     update_entry tid
       (\<lambda>e. e \<lparr> se_last_activity_ms := now,
                se_request_count := saturating_add U64_MAX (se_request_count e) 1 \<rparr>) r"

definition clamp :: "rat \<Rightarrow> rat \<Rightarrow> rat \<Rightarrow> rat" where
  "clamp lo hi x = min (max x lo) hi"

definition entry_reputation :: "nat \<Rightarrow> nat \<Rightarrow> selection_registry_entry \<Rightarrow> rat" where
  "entry_reputation now window_secs e =
     (let last_activity = se_last_activity_ms e;
          window_ms = saturating_mul U64_MAX window_secs 1000;
          total = saturating_add U64_MAX (se_success_count e) (se_failure_count e)
      in if last_activity = 0 then 1
         else if saturating_sub now last_activity > window_ms then 1
         else if total = 0 then 1
         else
           (let success_rate = of_nat (se_success_count e) / of_nat total;
                timeout_factor =
                  (if se_timeout_count e > 0
                   then clamp (1/5) 1 (1 - (1/2) * (of_nat (se_timeout_count e) / of_nat total)) else 1);
                recency_penalty =
                  (if se_last_success_ms e < last_activity \<and> saturating_sub now last_activity < 60000
                   then 3/5 else 1);
                latency_factor =
                  (if se_latency_samples e = 0 then 1
                   else (let avg_ms = se_total_latency_ms e div se_latency_samples e
                         in if avg_ms > 10000
                            then clamp (1/5) 1 (1 - of_nat (avg_ms - 10000) / 50000) else 1))
            in clamp (1/20) 1 (success_rate * timeout_factor * recency_penalty * latency_factor)))"

definition reputation_score :: "nat \<Rightarrow> selection_registry \<Rightarrow> combo_target_id \<Rightarrow> nat \<Rightarrow> rat" where
  "reputation_score now r tid window_secs =
     (case hm_get r tid of None \<Rightarrow> 1 | Some e \<Rightarrow> entry_reputation now window_secs e)"

definition target_metrics :: "selection_registry \<Rightarrow> combo_target_id \<Rightarrow> target_reputation_metrics" where
  "target_metrics r tid =
     (let e = (case hm_get r tid of Some e \<Rightarrow> e | None \<Rightarrow> se_default)
      in \<lparr> tm_success_count = se_success_count e, tm_failure_count = se_failure_count e,
           tm_timeout_count = se_timeout_count e, tm_latency_samples = se_latency_samples e,
           tm_total_latency_ms = se_total_latency_ms e, tm_last_success_ms = se_last_success_ms e,
           tm_last_activity_ms = se_last_activity_ms e \<rparr>)"

definition in_recent_window :: "nat \<Rightarrow> nat \<Rightarrow> nat \<Rightarrow> bool" where
  "in_recent_window now window_secs ms \<longleftrightarrow> saturating_sub now ms \<le> saturating_mul U64_MAX window_secs 1000"

definition last_success_within :: "nat \<Rightarrow> selection_registry \<Rightarrow> combo_target_id \<Rightarrow> nat \<Rightarrow> nat" where
  "last_success_within now r tid window_secs =
     (case hm_get r tid of
        None \<Rightarrow> 0
      | Some e \<Rightarrow>
          (let ms = se_last_success_ms e in if ms > 0 \<and> in_recent_window now window_secs ms then ms else 0))"

definition last_activity_within :: "nat \<Rightarrow> selection_registry \<Rightarrow> combo_target_id \<Rightarrow> nat \<Rightarrow> nat" where
  "last_activity_within now r tid window_secs =
     (case hm_get r tid of
        None \<Rightarrow> 0
      | Some e \<Rightarrow>
          (let ms = se_last_activity_ms e in if ms > 0 \<and> in_recent_window now window_secs ms then ms else 0))"

definition resolve_entry_reference_ms :: "selection_registry_entry \<Rightarrow> nat" where
  "resolve_entry_reference_ms e =
     (if se_last_success_ms e > 0 then se_last_success_ms e else se_last_activity_ms e)"

definition get_entry_request_count :: "nat \<Rightarrow> selection_registry_entry \<Rightarrow> nat \<Rightarrow> nat" where
  "get_entry_request_count now e window_secs =
     (if se_request_count e = 0 then 0
      else if resolve_entry_reference_ms e = 0 then se_request_count e
      else if in_recent_window now window_secs (resolve_entry_reference_ms e) then se_request_count e
      else 0)"

definition request_count_within :: "nat \<Rightarrow> selection_registry \<Rightarrow> combo_target_id \<Rightarrow> nat \<Rightarrow> nat" where
  "request_count_within now r tid window_secs =
     (case hm_get r tid of None \<Rightarrow> 0 | Some e \<Rightarrow> get_entry_request_count now e window_secs)"

definition registry_prune_stale :: "nat \<Rightarrow> nat \<Rightarrow> selection_registry \<Rightarrow> selection_registry \<times> nat" where
  "registry_prune_stale now max_age_ms r =
     (let cutoff = saturating_sub now max_age_ms;
          r' = hm_retain (\<lambda>_ e. let last_active = max (se_last_success_ms e) (se_last_activity_ms e)
                               in last_active > 0 \<and> last_active \<ge> cutoff) r
      in (r', length r - length r'))"

section \<open>Facts\<close>

lemma update_entry_get:
  "hm_get (update_entry tid f r) t =
     (if t = tid then Some (f (case hm_get r tid of Some e \<Rightarrow> e | None \<Rightarrow> se_default)) else hm_get r t)"
  by (simp add: update_entry_def hm_simps split: option.splits)

lemma update_entry_ok [simp]: "hm_ok r \<Longrightarrow> hm_ok (update_entry tid f r)"
  by (simp add: update_entry_def split: option.splits)

lemma clamp_bounds: "lo \<le> hi \<Longrightarrow> lo \<le> clamp lo hi x \<and> clamp lo hi x \<le> hi"
  by (simp add: clamp_def)

text \<open>
  The reputation score stays between the documented bounds, 0.05 and 1, whatever the counters hold.
\<close>

lemma reputation_score_bounds:
  "1/20 \<le> reputation_score now r tid w \<and> reputation_score now r tid w \<le> 1"
proof (cases "hm_get r tid")
  case None
  then show ?thesis by (simp add: reputation_score_def)
next
  case (Some e)
  have "(1/20 :: rat) \<le> clamp (1/20) 1 x \<and> clamp (1/20) 1 x \<le> 1" for x
    by (rule clamp_bounds) simp
  with Some show ?thesis
    by (simp add: reputation_score_def entry_reputation_def Let_def)
qed

text \<open>
  A success is the newest success of its target in every window it falls in; a failure erases the
  success mark, and neither touches another target.
\<close>

lemma record_success_newest:
  assumes "0 < now" and "in_recent_window now' w now"
  shows "last_success_within now' (record_success now tid r) tid w = now"
  using assms
  by (simp add: last_success_within_def record_success_def record_success_with_latency_def
      update_entry_get Let_def)

lemma record_failure_erases_success:
  "last_success_within now' (record_failure_with_kind now tid b r) tid w = 0"
  by (simp add: last_success_within_def record_failure_with_kind_def update_entry_get Let_def)

lemma record_frame:
  assumes "t \<noteq> tid"
  shows "hm_get (record_success_with_latency now tid lat r) t = hm_get r t"
    and "hm_get (record_failure_with_kind now tid b r) t = hm_get r t"
    and "hm_get (record_request now tid r) t = hm_get r t"
  using assms
  by (simp_all add: record_success_with_latency_def record_failure_with_kind_def record_request_def
      update_entry_get)

end
