(* ===== verification/Load_Balancing.thy ===== *)
theory Load_Balancing
  imports Selection_Registry
begin

text \<open>
  The order in which a combo's targets are tried (openproxy-pipeline/src/load_balancing.rs). The
  \<open>rand\<close> crate is a parameter, the record \<open>rng\<close> of its draws, with its documented contract \<open>rng_ok\<close>:
  a range draw lies in its range, a unit draw in [0, 1), a shuffle is a permutation. One clock
  reading serves one call.
\<close>

section \<open>Randomness\<close>

record rng =
  rg_unit :: rat
  rg_range :: "nat \<Rightarrow> nat \<Rightarrow> nat"
  rg_shuffle :: "combo_target list \<Rightarrow> combo_target list"

text \<open>\<open>rg_range g k n\<close> is the \<open>k\<close>-th range draw of the call, from \<open>0..n\<close>.\<close>

definition rng_ok :: "rng \<Rightarrow> bool" where
  "rng_ok g \<longleftrightarrow> 0 \<le> rg_unit g \<and> rg_unit g < 1 \<and> (\<forall>k n. 0 < n \<longrightarrow> rg_range g k n < n) \<and>
     (\<forall>xs. mset (rg_shuffle g xs) = mset xs)"

section \<open>Strategies\<close>

definition DEFAULT_SELECTION_WINDOW_SECS :: nat where "DEFAULT_SELECTION_WINDOW_SECS = 3600"
definition DEFAULT_LKGP_EXPLORATION_RATE :: rat where "DEFAULT_LKGP_EXPLORATION_RATE = 1 / 10"

type_synonym rr_counters = "(combo_id, nat) hmap"

definition execute_round_robin ::
    "'t list \<Rightarrow> combo_id \<Rightarrow> rr_counters \<Rightarrow> 't list \<times> rr_counters" where
  "execute_round_robin targets cid rr =
     (if targets = [] then (targets, rr)
      else
        (let val = (case hm_get rr cid of Some c \<Rightarrow> c | None \<Rightarrow> 0);
             rr' = hm_put cid (wrapping_add U64_MAX val 1) rr
         in (rotate (val mod length targets) targets, rr')))"

definition window_of :: "combo \<Rightarrow> nat" where
  "window_of c =
     (case cb_selection_window_secs c of Some w \<Rightarrow> w | None \<Rightarrow> DEFAULT_SELECTION_WINDOW_SECS)"

definition indices_where :: "('t \<Rightarrow> bool) \<Rightarrow> 't list \<Rightarrow> nat list" where
  "indices_where P ts = filter (\<lambda>i. P (ts ! i)) [0..<length ts]"

definition sample_lkgp_exploration_target ::
    "nat \<Rightarrow> combo_target list \<Rightarrow> nat \<Rightarrow> selection_registry \<Rightarrow> rng \<Rightarrow> nat" where
  "sample_lkgp_exploration_target now targets w r g =
     (let untried = indices_where (\<lambda>t. request_count_within now r (ct_id t) w = 0) targets;
          cold = indices_where (\<lambda>t. last_success_within now r (ct_id t) w = 0) targets
      in if untried \<noteq> [] then untried ! rg_range g 0 (length untried)
         else if cold \<noteq> [] then cold ! rg_range g 0 (length cold)
         else rg_range g 0 (length targets))"

definition compare_lkgp_targets ::
    "nat \<Rightarrow> nat \<Rightarrow> selection_registry \<Rightarrow> combo_target \<Rightarrow> combo_target \<Rightarrow> ordering" where
  "compare_lkgp_targets now w r a b =
     (let la = last_success_within now r (ct_id a) w;
          lb = last_success_within now r (ct_id b) w;
          fa = last_activity_within now r (ct_id a) w > 0;
          fb = last_activity_within now r (ct_id b) w > 0
      in if la \<noteq> lb then cmp_nat lb la
         else if \<not> fa \<and> fb then Less
         else if fa \<and> \<not> fb then Greater
         else cmp_int (ct_priority_order a) (ct_priority_order b))"

definition exploration_rate :: "combo \<Rightarrow> rat" where
  "exploration_rate c =
     clamp 0 1 (case cb_lkgp_exploration_rate c of
                  Some x \<Rightarrow> x | None \<Rightarrow> DEFAULT_LKGP_EXPLORATION_RATE)"

definition resolve_lkgp ::
    "nat \<Rightarrow> combo_target list \<Rightarrow> combo \<Rightarrow> selection_registry \<Rightarrow> rng \<Rightarrow> combo_target list" where
  "resolve_lkgp now targets c r g =
     (let rate = exploration_rate c;
          w = window_of c
      in if rate > 0 \<and> rg_unit g < rate \<and> targets \<noteq> []
         then rotate_to_front (sample_lkgp_exploration_target now targets w r g) targets
         else sort_by (compare_lkgp_targets now w r) targets)"

fun pick_weighted_index_from :: "nat \<Rightarrow> nat list \<Rightarrow> nat \<Rightarrow> nat" where
  "pick_weighted_index_from i [] pick = 0"
| "pick_weighted_index_from i (w # ws) pick =
     (if pick < w then i else pick_weighted_index_from (Suc i) ws (pick - w))"

definition pick_weighted_index :: "nat list \<Rightarrow> nat \<Rightarrow> nat" where
  "pick_weighted_index weights pick = pick_weighted_index_from 0 weights pick"

definition target_effective_weight :: "combo_target \<Rightarrow> nat" where
  "target_effective_weight t = (if ct_weight t \<le> 0 then 1 else nat (ct_weight t))"

definition resolve_weighted :: "combo_target list \<Rightarrow> rng \<Rightarrow> combo_target list" where
  "resolve_weighted targets g =
     (if targets = [] then targets
      else
        (let weights = map target_effective_weight targets; total = sum_list weights
         in if total = 0 then targets
            else rotate_to_front (pick_weighted_index weights (rg_range g 0 total)) targets))"

definition compare_least_used ::
    "nat \<Rightarrow> nat \<Rightarrow> selection_registry \<Rightarrow> combo_target \<Rightarrow> combo_target \<Rightarrow> ordering" where
  "compare_least_used now w r a b =
     then_with (cmp_nat (request_count_within now r (ct_id a) w) (request_count_within now r (ct_id b) w))
       (cmp_int (ct_priority_order a) (ct_priority_order b))"

definition resolve_least_used ::
    "nat \<Rightarrow> combo_target list \<Rightarrow> nat \<Rightarrow> selection_registry \<Rightarrow> combo_target list" where
  "resolve_least_used now targets w r = sort_by (compare_least_used now w r) targets"

definition resolve_p2c ::
    "nat \<Rightarrow> combo_target list \<Rightarrow> nat \<Rightarrow> selection_registry \<Rightarrow> rng \<Rightarrow> combo_target list" where
  "resolve_p2c now targets w r g =
     (if length targets < 2 then targets
      else
        (let i = rg_range g 0 (length targets);
             j0 = rg_range g 1 (length targets);
             j = (if i = j0 then (j0 + 1) mod length targets else j0);
             ci = request_count_within now r (ct_id (targets ! i)) w;
             cj = request_count_within now r (ct_id (targets ! j)) w;
             winner = (if ci \<le> cj then i else j)
         in rotate_to_front winner targets))"

definition execute_priority_strategy ::
    "nat \<Rightarrow> combo_target list \<Rightarrow> combo \<Rightarrow> selection_registry \<Rightarrow> rng \<Rightarrow> combo_target list" where
  "execute_priority_strategy now targets c r g =
     (case cb_priority_mode c of
        Strict \<Rightarrow> targets
      | Decision \<Rightarrow> targets
      | Lkgp \<Rightarrow> resolve_lkgp now targets c r g
      | Weighted \<Rightarrow> resolve_weighted targets g
      | LeastUsed \<Rightarrow> resolve_least_used now targets (window_of c) r
      | P2c \<Rightarrow> resolve_p2c now targets (window_of c) r g)"

definition execute_load_balancing ::
    "nat \<Rightarrow> rng \<Rightarrow> combo_target list \<Rightarrow> combo \<Rightarrow> rr_counters \<Rightarrow> selection_registry \<Rightarrow>
     combo_target list \<times> rr_counters" where
  "execute_load_balancing now g targets c rr r =
     (if length targets \<le> 1 then (targets, rr)
      else
        (case cb_strategy c of
           RoundRobin \<Rightarrow> execute_round_robin targets (cb_id c) rr
         | Shuffle \<Rightarrow> (rg_shuffle g targets, rr)
         | Priority \<Rightarrow> (execute_priority_strategy now targets c r g, rr)))"

section \<open>The comparisons are sort comparators\<close>

definition inactive_first :: "bool \<Rightarrow> nat" where
  "inactive_first active = (if active then 1 else 0)"

lemma compare_lkgp_alt:
  "compare_lkgp_targets now w r = (\<lambda>a b.
     then_with (cmp_nat (last_success_within now r (ct_id b) w) (last_success_within now r (ct_id a) w))
       (then_with
         (cmp_nat (inactive_first (last_activity_within now r (ct_id a) w > 0))
                  (inactive_first (last_activity_within now r (ct_id b) w > 0)))
         (cmp_int (ct_priority_order a) (ct_priority_order b))))"
  by (intro ext) (auto simp: compare_lkgp_targets_def then_with_def cmp_nat_def inactive_first_def)

interpretation lkgp: sort_comparator "compare_lkgp_targets now w r" for now w r
  unfolding compare_lkgp_alt
  by (intro sort_comparator_then_with sort_comparator_flip [OF sort_comparator_nat] sort_comparator_nat
      sort_comparator_int)

interpretation least_used: sort_comparator "compare_least_used now w r" for now w r
  unfolding compare_least_used_def
  by (intro sort_comparator_then_with sort_comparator_nat sort_comparator_int)

section \<open>No strategy loses or repeats a target\<close>

lemma rng_range: "rng_ok g \<Longrightarrow> 0 < n \<Longrightarrow> rg_range g k n < n"
  by (simp add: rng_ok_def)

lemma indices_where_lt: "i \<in> set (indices_where P ts) \<Longrightarrow> i < length ts \<and> P (ts ! i)"
  by (simp add: indices_where_def)

lemma indices_where_draw:
  assumes "rng_ok g" and "indices_where P ts \<noteq> []"
  shows "indices_where P ts ! rg_range g k (length (indices_where P ts)) < length ts"
  using indices_where_lt [OF nth_mem [OF rng_range [OF assms(1)]]] assms(2) by blast

lemma sample_lkgp_lt:
  "rng_ok g \<Longrightarrow> targets \<noteq> [] \<Longrightarrow> sample_lkgp_exploration_target now targets w r g < length targets"
  by (auto simp: sample_lkgp_exploration_target_def Let_def indices_where_draw rng_range)

lemma pick_weighted_from_lt:
  "pick < sum_list ws \<Longrightarrow> pick_weighted_index_from i ws pick < i + length ws"
  by (induction i ws pick rule: pick_weighted_index_from.induct) fastforce+

lemma pick_weighted_lt: "pick < sum_list ws \<Longrightarrow> pick_weighted_index ws pick < length ws"
  using pick_weighted_from_lt [of pick ws 0] by (simp add: pick_weighted_index_def)

lemma target_effective_weight_pos: "0 < target_effective_weight t"
  by (simp add: target_effective_weight_def)

lemma total_weight_pos: "ts \<noteq> [] \<Longrightarrow> 0 < sum_list (map target_effective_weight ts)"
  using target_effective_weight_pos by (cases ts) (simp_all add: add_pos_nonneg)

lemma resolve_lkgp_mset: "rng_ok g \<Longrightarrow> mset (resolve_lkgp now ts c r g) = mset ts"
  by (simp add: resolve_lkgp_def Let_def rotate_to_front_mset sample_lkgp_lt)

lemma weighted_pick_lt:
  assumes "rng_ok g" and "ts \<noteq> []"
  shows "pick_weighted_index (map target_effective_weight ts)
     (rg_range g k (sum_list (map target_effective_weight ts))) < length ts"
  using pick_weighted_lt [OF rng_range [OF assms(1) total_weight_pos [OF assms(2)]]] by simp

lemma resolve_weighted_mset: "rng_ok g \<Longrightarrow> mset (resolve_weighted ts g) = mset ts"
  by (simp add: resolve_weighted_def Let_def rotate_to_front_mset weighted_pick_lt)

lemma resolve_p2c_mset: "rng_ok g \<Longrightarrow> mset (resolve_p2c now ts w r g) = mset ts"
  by (cases ts) (simp_all add: resolve_p2c_def Let_def rotate_to_front_mset rng_range)

lemma mset_rotate_slice [simp]: "mset (rotate n xs) = mset xs"
  by (metis add.commute append_take_drop_id mset_append rotate_drop_take)

lemma execute_round_robin_mset: "mset (fst (execute_round_robin ts cid rr)) = mset ts"
  by (simp add: execute_round_robin_def Let_def)

lemma execute_load_balancing_mset:
  assumes "rng_ok g"
  shows "mset (fst (execute_load_balancing now g ts c rr r)) = mset ts"
  using assms
  by (auto simp: execute_load_balancing_def execute_priority_strategy_def resolve_least_used_def
      execute_round_robin_mset resolve_lkgp_mset resolve_weighted_mset resolve_p2c_mset rng_ok_def
      split: strategy.splits priority_mode.splits)

text \<open>
  load balancing only reorders. For every strategy and mode, every registry and every outcome of
  the random draws, the targets tried are exactly the targets given, each once.
\<close>

theorem load_balancing_permutes:
  assumes "rng_ok g"
  shows "mset (fst (execute_load_balancing now g ts c rr r)) = mset ts"
  using assms by (rule execute_load_balancing_mset)

definition sample_rng :: rng where
  "sample_rng = \<lparr> rg_unit = 1 / 2, rg_range = (\<lambda>k n. k mod n), rg_shuffle = rev \<rparr>"

lemma sample_rng_ok: "rng_ok sample_rng"
  by (simp add: rng_ok_def sample_rng_def)

definition tgt :: "int \<Rightarrow> combo_target" where
  "tgt i = default_combo_target \<lparr> ct_id := i, ct_priority_order := i, ct_weight := i \<rparr>"

theorem load_balancing_permutes_witness:
  "mset (fst (execute_load_balancing 5 sample_rng [tgt 1, tgt 2, tgt 3]
     (default_combo \<lparr> cb_priority_mode := P2c \<rparr>) [] [])) = mset [tgt 1, tgt 2, tgt 3]"
  by (rule load_balancing_permutes [OF sample_rng_ok])

section \<open>What each mode promises\<close>

fun round_robin_heads :: "nat \<Rightarrow> 't list \<Rightarrow> combo_id \<Rightarrow> rr_counters \<Rightarrow> 't list" where
  "round_robin_heads 0 ts cid rr = []"
| "round_robin_heads (Suc n) ts cid rr =
     (let (ts', rr') = execute_round_robin ts cid rr in hd ts' # round_robin_heads n ts cid rr')"

definition rr_value :: "rr_counters \<Rightarrow> combo_id \<Rightarrow> nat" where
  "rr_value rr cid = (case hm_get rr cid of Some c \<Rightarrow> c | None \<Rightarrow> 0)"

lemma round_robin_heads_nth:
  assumes "ts \<noteq> []" and "rr_value rr cid + n \<le> U64_MAX"
  shows "round_robin_heads n ts cid rr = map (\<lambda>i. ts ! ((rr_value rr cid + i) mod length ts)) [0..<n]"
  using assms(2)
proof (induction n arbitrary: rr)
  case 0
  then show ?case by simp
next
  case (Suc n)
  let ?v = "rr_value rr cid" and ?rr = "snd (execute_round_robin ts cid rr)"
  have v: "rr_value ?rr cid = Suc ?v"
    using assms(1) Suc.prems
    by (simp add: execute_round_robin_def Let_def rr_value_def hm_simps wrapping_add_exact)
  have hd: "hd (fst (execute_round_robin ts cid rr)) = ts ! (?v mod length ts)"
    using assms(1) by (simp add: execute_round_robin_def Let_def rr_value_def hd_rotate_conv_nth)
  have "round_robin_heads n ts cid ?rr = map (\<lambda>i. ts ! ((Suc ?v + i) mod length ts)) [0..<n]"
    using Suc.IH [of ?rr] v Suc.prems by simp
  then show ?case by (simp add: split_beta hd map_upt_Suc del: upt_Suc)
qed

lemma rotate_as_map: "map (\<lambda>i. ts ! ((v + i) mod length ts)) [0..<length ts] = rotate v ts"
  by (rule nth_equalityI) (simp_all add: nth_rotate)

text \<open>
  round robin is fair. Over as many consecutive calls as there are targets, with the counter
  not wrapping, each target is tried first exactly once.
\<close>

theorem round_robin_fair:
  assumes "ts \<noteq> []" and "rr_value rr cid + length ts \<le> U64_MAX"
  shows "mset (round_robin_heads (length ts) ts cid rr) = mset ts"
  by (simp add: round_robin_heads_nth [OF assms] rotate_as_map)

theorem round_robin_fair_witness:
  "mset (round_robin_heads 3 [tgt 1, tgt 2, tgt 3] 9 [(9, 41)]) = mset [tgt 1, tgt 2, tgt 3]"
  using round_robin_fair [of "[tgt 1, tgt 2, tgt 3]" "[(9, 41)]" 9]
  by (simp add: rr_value_def hm_get_def numeral_3_eq_3)

lemma pick_weighted_index_from_ge: "pick < sum_list ws \<Longrightarrow> k \<le> pick_weighted_index_from k ws pick"
  by (induction k ws pick rule: pick_weighted_index_from.induct) fastforce+

lemma pick_weighted_from_iff:
  "pick < sum_list ws \<Longrightarrow> pick_weighted_index_from k ws pick = k + i \<longleftrightarrow>
     i < length ws \<and> sum_list (take i ws) \<le> pick \<and> pick < sum_list (take (Suc i) ws)"
proof (induction k ws pick arbitrary: i rule: pick_weighted_index_from.induct)
  case (1 k pick)
  then show ?case by simp
next
  case (2 k w ws pick)
  show ?case
  proof (cases "pick < w")
    case True
    then show ?thesis by (cases i) auto
  next
    case False
    with "2.prems" have lt: "pick - w < sum_list ws" by simp
    have gt: "pick_weighted_index_from (Suc k) ws (pick - w) \<noteq> k"
      using pick_weighted_index_from_ge [OF lt, of "Suc k"] by simp
    show ?thesis
    proof (cases i)
      case 0
      then show ?thesis using False gt by simp
    next
      case (Suc j)
      then show ?thesis using False "2.IH" [OF False lt, of j] by auto
    qed
  qed
qed

text \<open>
  weighted choice is proportional to the weights: of all equally likely draws below the total,
  exactly \<open>weights ! i\<close> select target \<open>i\<close>.
\<close>

theorem weighted_choice_proportional:
  assumes "i < length ws"
  shows "card {pick. pick < sum_list ws \<and> pick_weighted_index ws pick = i} = ws ! i"
proof -
  have mono: "sum_list (take (Suc i) ws) \<le> sum_list ws"
    by (metis append_take_drop_id le_add1 sum_list_append)
  have "pick < sum_list ws \<and> pick_weighted_index ws pick = i \<longleftrightarrow>
      sum_list (take i ws) \<le> pick \<and> pick < sum_list (take (Suc i) ws)" for pick
    using pick_weighted_from_iff [of pick ws 0 i] assms mono
    by (auto simp: pick_weighted_index_def)
  then have "{pick. pick < sum_list ws \<and> pick_weighted_index ws pick = i} =
      {sum_list (take i ws) ..< sum_list (take (Suc i) ws)}"
    by (simp add: atLeastLessThan_def atLeast_def lessThan_def Collect_conj_eq)
  then show ?thesis using assms by (simp add: take_Suc_conv_app_nth)
qed

theorem weighted_choice_proportional_witness:
  "card {pick. pick < sum_list [3, 1, 5] \<and> pick_weighted_index [3, 1, 5] pick = 2} = 5"
  using weighted_choice_proportional [of 2 "[3, 1, 5]"] by simp

lemma lkgp_not_greater:
  "compare_lkgp_targets now w r a b \<noteq> Greater \<Longrightarrow>
     last_success_within now r (ct_id b) w \<le> last_success_within now r (ct_id a) w"
  by (auto simp: compare_lkgp_targets_def Let_def cmp_nat_def split: if_splits)

text \<open>
  LKGP, when its draw does not fall under the exploration rate, tries first a target whose last
  success in the window is the newest.
\<close>

theorem lkgp_head_newest_success:
  assumes "resolve_lkgp now ts c r g = t # rest" and "exploration_rate c \<le> rg_unit g"
    and "u \<in> set ts"
  shows "last_success_within now r (ct_id u) (window_of c) \<le> last_success_within now r (ct_id t) (window_of c)"
proof -
  have "sort_by (compare_lkgp_targets now (window_of c) r) ts = t # rest"
    using assms(1,2) by (simp add: resolve_lkgp_def Let_def)
  from lkgp.sort_by_head_least [OF this assms(3)] show ?thesis by (rule lkgp_not_greater)
qed

theorem lkgp_head_newest_success_witness:
  "last_success_within 50 (record_success 40 2 []) 1 3600
     \<le> last_success_within 50 (record_success 40 2 []) 2 3600"
proof -
  let ?c = "default_combo \<lparr> cb_priority_mode := Lkgp, cb_lkgp_exploration_rate := Some 0,
      cb_selection_window_secs := Some 3600 \<rparr>"
  have "resolve_lkgp 50 [tgt 1, tgt 2] ?c (record_success 40 2 []) sample_rng = [tgt 2, tgt 1]"
    by (simp add: resolve_lkgp_def Let_def clamp_def exploration_rate_def sort_by_def compare_lkgp_targets_def
        last_success_within_def record_success_def record_success_with_latency_def update_entry_def
        hm_entry_update_def hm_put_def hm_get_def window_of_def in_recent_window_def cmp_nat_def tgt_def
        int_ops)
  from lkgp_head_newest_success [OF this, of "tgt 1"] show ?thesis
    by (simp add: window_of_def tgt_def exploration_rate_def clamp_def sample_rng_def)
qed

text \<open>
  least-used tries first a target with the smallest request count of the window, ties broken by
  \<open>priority_order\<close>, and keeps the given order among targets equal in both.
\<close>

theorem least_used_order:
  assumes "resolve_least_used now ts w r = t # rest" and "u \<in> set ts"
  shows "(request_count_within now r (ct_id t) w < request_count_within now r (ct_id u) w \<or>
          request_count_within now r (ct_id t) w = request_count_within now r (ct_id u) w \<and>
          ct_priority_order t \<le> ct_priority_order u) \<and>
         filter (\<lambda>b. compare_least_used now w r u b = Equal) (t # rest) =
         filter (\<lambda>b. compare_least_used now w r u b = Equal) ts"
proof -
  have eq: "sort_by (compare_least_used now w r) ts = t # rest"
    using assms(1) by (simp add: resolve_least_used_def)
  have "compare_least_used now w r t u \<noteq> Greater"
    by (rule least_used.sort_by_head_least [OF eq assms(2)])
  then have "request_count_within now r (ct_id t) w < request_count_within now r (ct_id u) w \<or>
          request_count_within now r (ct_id t) w = request_count_within now r (ct_id u) w \<and>
          ct_priority_order t \<le> ct_priority_order u"
    by (auto simp: compare_least_used_def then_with_def cmp_nat_def cmp_int_def split: if_splits)
  moreover have "filter (\<lambda>b. compare_least_used now w r u b = Equal) (t # rest) =
         filter (\<lambda>b. compare_least_used now w r u b = Equal) ts"
    unfolding eq [symmetric] by (rule least_used.sort_by_stable)
  ultimately show ?thesis ..
qed

theorem least_used_order_witness:
  "request_count_within 50 (record_request 40 1 []) 2 3600
     \<le> request_count_within 50 (record_request 40 1 []) 1 3600"
proof -
  have "resolve_least_used 50 [tgt 1, tgt 2] 3600 (record_request 40 1 []) = [tgt 2, tgt 1]"
    by (simp add: resolve_least_used_def sort_by_def compare_least_used_def request_count_within_def
        record_request_def update_entry_def hm_entry_update_def hm_put_def hm_get_def
        get_entry_request_count_def resolve_entry_reference_ms_def in_recent_window_def cmp_nat_def
        then_with_def tgt_def int_ops se_default_def)
  from least_used_order [OF this, of "tgt 1"] show ?thesis by (auto simp: tgt_def)
qed

text \<open>
  power of two choices compares two different targets, and the one tried first has no more
  requests in the window than the other.
\<close>

theorem p2c_two_distinct:
  assumes "rng_ok g" and "2 \<le> length ts"
  shows "\<exists>i j. i \<noteq> j \<and> i < length ts \<and> j < length ts \<and> hd (resolve_p2c now ts w r g) = ts ! i \<and>
     request_count_within now r (ct_id (ts ! i)) w \<le> request_count_within now r (ct_id (ts ! j)) w"
proof -
  define n i j0 where "n = length ts" and "i = rg_range g 0 n" and "j0 = rg_range g 1 n"
  define j where "j = (if i = j0 then (j0 + 1) mod n else j0)"
  have n: "2 \<le> n" "0 < n" using assms(2) by (auto simp: n_def)
  have i: "i < n" and j0: "j0 < n" using rng_range [OF assms(1) n(2)] by (auto simp: i_def j0_def)
  have "(j0 + 1) mod n \<noteq> j0"
    using n j0 by (cases "j0 + 1 = n") auto
  then have j: "j < n" "j \<noteq> i" using j0 n by (auto simp: j_def)
  have hd: "hd (resolve_p2c now ts w r g) =
     ts ! (if request_count_within now r (ct_id (ts ! i)) w \<le> request_count_within now r (ct_id (ts ! j)) w
           then i else j)"
    using n by (simp add: resolve_p2c_def Let_def i_def j_def j0_def n_def)
  show ?thesis
  proof (cases "request_count_within now r (ct_id (ts ! i)) w \<le> request_count_within now r (ct_id (ts ! j)) w")
    case True
    with hd i j show ?thesis by (intro exI [of _ i] exI [of _ j]) (auto simp: n_def)
  next
    case False
    with hd i j show ?thesis by (intro exI [of _ j] exI [of _ i]) (auto simp: n_def)
  qed
qed

theorem p2c_two_distinct_witness:
  "\<exists>i j. i \<noteq> j \<and> i < length [tgt 1, tgt 2] \<and> j < length [tgt 1, tgt 2] \<and>
     hd (resolve_p2c 5 [tgt 1, tgt 2] 10 [] sample_rng) = [tgt 1, tgt 2] ! i \<and>
     request_count_within 5 [] (ct_id ([tgt 1, tgt 2] ! i)) 10
       \<le> request_count_within 5 [] (ct_id ([tgt 1, tgt 2] ! j)) 10"
  by (rule p2c_two_distinct [OF sample_rng_ok]) simp

end
