(* ===== verification/Decision_Routing.thy ===== *)
theory Decision_Routing
  imports Resolved_Targets Load_Balancing Session_Affinity "HOL-Library.Signed_Division"
begin

text \<open>
  Decision routing (openproxy-pipeline/src/stages/decision.rs): a small model is asked which of the
  described targets fits the prompt, and its answer, weighed with the reputation of the targets and
  damped towards the target the session is pinned to, moves one target to the front. The call to that
  model is the parameter \<open>ask\<close>; \<open>f64\<close> values are rationals; the log lines of the walk are results.
\<close>

section \<open>The prompt\<close>

definition DEFAULT_DECISION_TIMEOUT_MS :: nat where "DEFAULT_DECISION_TIMEOUT_MS = 100"
definition MAX_PROMPT_CHARS :: nat where "MAX_PROMPT_CHARS = 2000"
definition ELASTIC_HYSTERESIS_MARGIN :: rat where "ELASTIC_HYSTERESIS_MARGIN = 1/20"
definition ELASTIC_CONFIDENCE_THRESHOLD :: rat where "ELASTIC_CONFIDENCE_THRESHOLD = 1/20"

definition chars_count :: "string \<Rightarrow> nat" where
  "chars_count s = length (filter (\<lambda>c. \<not> is_continuation_byte c) s)"

fun prompt_loop :: "(json \<Rightarrow> string) \<Rightarrow> nat \<Rightarrow> openai_message list \<Rightarrow> string \<Rightarrow> string" where
  "prompt_loop to_string max_chars [] state = state"
| "prompt_loop to_string max_chars (m # ms) state =
     (let trimmed = trim (extract_content_text to_string (om_content m))
      in if trimmed = [] then prompt_loop to_string max_chars ms state
         else
           (let state' = (if state = [] then trimmed else trimmed @ [CHR 0x0A] @ state)
            in if chars_count state' \<ge> max_chars then state' else prompt_loop to_string max_chars ms state'))"

definition extract_prompt_state :: "(json \<Rightarrow> string) \<Rightarrow> openai_message list \<Rightarrow> nat \<Rightarrow> string" where
  "extract_prompt_state to_string messages max_chars =
     (let state = prompt_loop to_string max_chars (rev messages) []
      in if length state > max_chars then take (floor_boundary state max_chars) state else state)"

section \<open>Candidates\<close>

definition excluded_by_cooldown :: "combo \<Rightarrow> combo_target_id set \<Rightarrow> resolved_target \<Rightarrow> bool" where
  "excluded_by_cooldown c cooldowns rt \<longleftrightarrow>
     \<not> is_cooldown_disabled (rt_target rt) c \<and> ct_id (rt_target rt) \<in> cooldowns"

definition rt_active :: "resolved_target \<Rightarrow> bool" where
  "rt_active rt \<longleftrightarrow> ct_active (rt_target rt) \<and> mo_active (rt_model rt)"

definition rt_saturated :: "(hash_item list \<Rightarrow> nat) \<Rightarrow> limiter \<Rightarrow> nat \<Rightarrow> resolved_target \<Rightarrow> bool" where
  "rt_saturated hash l now rt = is_saturated (evaluate_key l (compute_target_key hash (rt_target rt)) now)"

definition has_any_predictive_healthy ::
    "(hash_item list \<Rightarrow> nat) \<Rightarrow> combo \<Rightarrow> combo_target_id set \<Rightarrow> limiter \<Rightarrow> nat \<Rightarrow> resolved_target list \<Rightarrow> bool" where
  "has_any_predictive_healthy hash c cooldowns l now targets =
     (if cb_preventive_rate_limit c
      then list_ex (\<lambda>rt. rt_active rt \<and> \<not> excluded_by_cooldown c cooldowns rt \<and>
             (is_cooldown_disabled (rt_target rt) c \<or> \<not> rt_saturated hash l now rt)) targets
      else False)"

definition candidate_eligible ::
    "(hash_item list \<Rightarrow> nat) \<Rightarrow> combo \<Rightarrow> combo_target_id set \<Rightarrow> limiter \<Rightarrow> nat \<Rightarrow> bool \<Rightarrow> resolved_target \<Rightarrow> bool" where
  "candidate_eligible hash c cooldowns l now healthy rt \<longleftrightarrow>
     rt_active rt \<and> \<not> excluded_by_cooldown c cooldowns rt \<and>
     \<not> (cb_preventive_rate_limit c \<and> \<not> is_cooldown_disabled (rt_target rt) c \<and> healthy \<and> rt_saturated hash l now rt)"

fun described :: "(resolved_target \<Rightarrow> bool) \<Rightarrow> string list \<Rightarrow> resolved_target list \<Rightarrow> (string \<times> string) list" where
  "described eligible seen [] = []"
| "described eligible seen (rt # rts) =
     (if \<not> eligible rt then described eligible seen rts
      else
        (case ct_description (rt_target rt) of
           None \<Rightarrow> described eligible seen rts
         | Some d \<Rightarrow>
             (let desc = trim d
              in if desc \<noteq> [] \<and> desc \<notin> set seen
                 then (show_int (ct_id (rt_target rt)), desc) # described eligible (desc # seen) rts
                 else described eligible seen rts)))"

definition filter_decision_candidates ::
    "(hash_item list \<Rightarrow> nat) \<Rightarrow> resolved_target list \<Rightarrow> combo \<Rightarrow> combo_target_id set \<Rightarrow> limiter \<Rightarrow> nat \<Rightarrow> (string \<times> string) list" where
  "filter_decision_candidates hash targets c cooldowns l now =
     described (candidate_eligible hash c cooldowns l now (has_any_predictive_healthy hash c cooldowns l now targets)) [] targets"

section \<open>Questions and answers\<close>

record system_one_question =
  sq_instructions :: string
  sq_criteria :: "(string \<times> string) list"
  sq_options :: "string list"

record system_one_request =
  sr_state :: string
  sr_model :: string
  sr_question :: system_one_question

record system_one_answer =
  sa_choice :: "string option"
  sa_confidence :: "rat option"
  sa_probabilities :: "(string \<times> rat) list option"

definition pinned_instructions :: "combo_target_id \<Rightarrow> string" where
  "pinned_instructions p =
     ''The current session is actively pinned to target ID '' @ [CHR 0x27] @ show_int p @ [CHR 0x27] @
     ''. Evaluate the recent query requirements: Prefer to keep '' @ [CHR 0x27] @ show_int p @ [CHR 0x27] @
     '' if it adequately fulfills the query (preserve session continuity and KV-cache). '' @
     ''Only select a different target ID if there is a clear necessity to ESCALATE (significantly higher complexity/code/reasoning required) '' @
     ''or DOWNSCALE (pure casual conversation with no technical dependency on previous context).''"

definition default_instructions :: string where
  "default_instructions =
     ''Select the most appropriate target ID to answer this query based on complexity, domain specialization, and requirements.''"

definition decision_request :: "combo \<Rightarrow> string \<Rightarrow> (string \<times> string) list \<Rightarrow> combo_target_id option \<Rightarrow> system_one_request" where
  "decision_request c state candidates pinned =
     \<lparr> sr_state = state,
       sr_model = (case cb_decision_model c of Some m \<Rightarrow> m | None \<Rightarrow> ''jev-latest''),
       sr_question = \<lparr> sq_instructions = (case pinned of Some p \<Rightarrow> pinned_instructions p | None \<Rightarrow> default_instructions),
                       sq_criteria = candidates, sq_options = map fst candidates \<rparr> \<rparr>"

section \<open>Reputation\<close>

definition i32_saturating_sub :: "int \<Rightarrow> int \<Rightarrow> int" where
  "i32_saturating_sub a b = max (- 2147483648) (min 2147483647 (a - b))"

definition position :: "('a \<Rightarrow> bool) \<Rightarrow> 'a list \<Rightarrow> nat option" where
  "position P xs = (let i = length (takeWhile (\<lambda>x. \<not> P x) xs) in if i < length xs then Some i else None)"

definition rt_id :: "resolved_target \<Rightarrow> combo_target_id" where
  "rt_id rt = ct_id (rt_target rt)"

definition rerank_step ::
    "(combo_target_id \<Rightarrow> rat) \<Rightarrow> (string \<times> rat) list \<Rightarrow> resolved_target \<Rightarrow> string \<times> rat \<Rightarrow> string \<times> rat" where
  "rerank_step reputation probs rt best =
     (case map_of probs (show_int (rt_id rt)) of
        None \<Rightarrow> best
      | Some p_sem \<Rightarrow>
          (let score = p_sem * reputation (rt_id rt)
           in if score > snd best then (show_int (rt_id rt), score) else best))"

definition effective_choice ::
    "(combo_target_id \<Rightarrow> rat) \<Rightarrow> resolved_target list \<Rightarrow> system_one_answer \<Rightarrow> string \<Rightarrow> string \<times> string list" where
  "effective_choice reputation targets answer chosen =
     (case sa_probabilities answer of
        Some probs \<Rightarrow>
          (let best = fst (fold (rerank_step reputation probs) targets (chosen, - 1))
           in (best, if best \<noteq> chosen
                     then [''decision_router:reputation_rerank='' @ best @ ''<orig='' @ chosen] else []))
      | None \<Rightarrow>
          (let chosen_tid = (case parse_i64 chosen of Some i \<Rightarrow> i | None \<Rightarrow> 0)
           in if reputation chosen_tid < 2/5 then
                (case find (\<lambda>rt. rt_id rt \<noteq> chosen_tid \<and> reputation (rt_id rt) \<ge> 7/10) targets of
                   Some rt \<Rightarrow>
                     (show_int (rt_id rt),
                      [''decision_router:reputation_guard_failover='' @ show_int (rt_id rt) @ ''<degraded='' @ chosen])
                 | None \<Rightarrow> (chosen, []))
              else (chosen, [])))"

section \<open>Switching\<close>

definition min_priority :: "resolved_target list \<Rightarrow> int" where
  "min_priority rts = (case map (ct_priority_order \<circ> rt_target) rts of [] \<Rightarrow> 1 | p # ps \<Rightarrow> fold min ps p)"

definition promote :: "int \<Rightarrow> nat \<Rightarrow> resolved_target list \<Rightarrow> resolved_target list" where
  "promote min_prio pos rts =
     (let w = rts ! pos
      in (w \<lparr> rt_target := (rt_target w) \<lparr> ct_priority_order := i32_saturating_sub min_prio 1 \<rparr> \<rparr>) #
         (take pos rts @ drop (Suc pos) rts))"

definition should_switch :: "system_one_answer \<Rightarrow> string \<Rightarrow> combo_target_id \<Rightarrow> bool" where
  "should_switch answer choice pinned =
     (case sa_probabilities answer of
        Some probs \<Rightarrow>
          (let prob = (\<lambda>k. case map_of probs k of Some p \<Rightarrow> p | None \<Rightarrow> 0)
           in \<not> (prob choice - prob (show_int pinned) < ELASTIC_HYSTERESIS_MARGIN))
      | None \<Rightarrow>
          (case sa_confidence answer of
             Some confidence \<Rightarrow> \<not> (confidence < ELASTIC_CONFIDENCE_THRESHOLD)
           | None \<Rightarrow> True))"

definition i64_wrap :: "int \<Rightarrow> int" where
  "i64_wrap x = (x + 9223372036854775808) mod 18446744073709551616 - 9223372036854775808"

definition exceeds_capacity :: "(json \<Rightarrow> string) \<Rightarrow> openai_message list \<Rightarrow> resolved_target \<Rightarrow> bool" where
  "exceeds_capacity to_string messages rt =
     (let total_chars = sum_list (map (\<lambda>m. length (extract_content_text to_string (om_content m))) messages);
          est_tokens = as_i64 (total_chars div 3)
      in case mo_context_length (rt_model rt) of
           Some ctx_len \<Rightarrow> est_tokens > i64_wrap (ctx_len * 85) sdiv 100
         | None \<Rightarrow> False)"

definition apply_answer ::
    "(json \<Rightarrow> string) \<Rightarrow> (combo_target_id \<Rightarrow> rat) \<Rightarrow> openai_message list \<Rightarrow> combo_target_id option \<Rightarrow>
     system_one_answer \<Rightarrow> resolved_target list \<Rightarrow> resolved_target list \<times> string list" where
  "apply_answer to_string reputation messages pinned answer targets =
     (case sa_choice answer of
        None \<Rightarrow> (targets, [])
      | Some chosen \<Rightarrow>
          (let (choice, log) = effective_choice reputation targets answer chosen
           in case position (\<lambda>rt. show_int (rt_id rt) = choice) targets of
                None \<Rightarrow> (targets, log)
              | Some pos \<Rightarrow>
                  (if pinned = Some (rt_id (targets ! pos)) then (targets, log @ [''decision_router:keep='' @ choice])
                   else
                     (case pinned of
                        Some p \<Rightarrow>
                          (if \<not> should_switch answer choice p
                           then (targets, log @ [''decision_router:hysteresis_keep='' @ show_int p])
                           else if exceeds_capacity to_string messages (targets ! pos) then (targets, log)
                           else (promote (min_priority (take pos targets @ drop (Suc pos) targets)) pos targets,
                                 log @ [''decision_router:elastic_switch='' @ choice]))
                      | None \<Rightarrow>
                          (if exceeds_capacity to_string messages (targets ! pos) then (targets, log)
                           else (promote (min_priority (take pos targets @ drop (Suc pos) targets)) pos targets,
                                 log @ [''decision_router:elastic_switch='' @ choice]))))))"

definition pinned_is_available ::
    "combo \<Rightarrow> combo_target_id set \<Rightarrow> resolved_target list \<Rightarrow> combo_target_id \<Rightarrow> bool" where
  "pinned_is_available c cooldowns targets p =
     list_ex (\<lambda>rt. rt_id rt = p \<and> rt_active rt \<and> (is_cooldown_disabled (rt_target rt) c \<or> p \<notin> cooldowns)) targets"

text \<open>What decision routing reads besides the request: the clock, the limiter, the selection registry.\<close>

record decision_env =
  de_hash :: "hash_item list \<Rightarrow> nat"
  de_to_string :: "json \<Rightarrow> string"
  de_now_ms :: nat
  de_limiter :: limiter
  de_selection :: selection_registry
  de_ask :: "system_one_request \<Rightarrow> nat \<Rightarrow> core_error + system_one_answer option"

definition pre_promote ::
    "combo \<Rightarrow> combo_target_id set \<Rightarrow> combo_target_id option \<Rightarrow> resolved_target list \<Rightarrow>
     combo_target_id option \<times> resolved_target list" where
  "pre_promote c cooldowns current_pinned targets =
     (case current_pinned of
        None \<Rightarrow> (None, targets)
      | Some p \<Rightarrow>
          (if pinned_is_available c cooldowns targets p then
             (case position (\<lambda>rt. rt_id rt = p) targets of
                Some pos \<Rightarrow> (Some p, promote (min_priority targets) pos targets)
              | None \<Rightarrow> (Some p, targets))
           else (None, targets)))"

definition apply_decision_routing ::
    "decision_env \<Rightarrow> core_error + combo_target_id set \<Rightarrow> openai_message list \<Rightarrow> combo \<Rightarrow> resolved_target list \<Rightarrow>
     combo_target_id option \<Rightarrow> resolved_target list \<times> string list" where
  "apply_decision_routing env cooldown_query messages c targets current_pinned =
     (if length targets < 2 then (targets, [])
      else
        (let cooldowns = (if combo_is_cooldown_disabled c then {}
                          else case cooldown_query of Inr s \<Rightarrow> s | Inl _ \<Rightarrow> {});
             (pinned, targets1) = pre_promote c cooldowns current_pinned targets;
             candidates = filter_decision_candidates (de_hash env) targets1 c cooldowns (de_limiter env) (de_now_ms env)
         in if length candidates < 2 then (targets1, [])
            else
              (let state = extract_prompt_state (de_to_string env) messages MAX_PROMPT_CHARS
               in if state = [] then (targets1, [])
                  else
                    (case de_ask env (decision_request c state candidates pinned)
                            (case cb_decision_timeout_ms c of Some t \<Rightarrow> t | None \<Rightarrow> DEFAULT_DECISION_TIMEOUT_MS) of
                       Inr (Some answer) \<Rightarrow>
                         apply_answer (de_to_string env)
                           (\<lambda>i. reputation_score (de_now_ms env) (de_selection env) i
                              (case cb_selection_window_secs c of Some w \<Rightarrow> w | None \<Rightarrow> DEFAULT_SELECTION_WINDOW_SECS))
                           messages pinned answer targets1
                     | _ \<Rightarrow> (targets1, [])))))"

section \<open>No target is lost\<close>

text \<open>Promotion rewrites the priority number of a target; the rest of it stays.\<close>

definition unranked :: "resolved_target \<Rightarrow> resolved_target" where
  "unranked rt = rt \<lparr> rt_target := (rt_target rt) \<lparr> ct_priority_order := 0 \<rparr> \<rparr>"

lemma position_SomeD: "position P xs = Some i \<Longrightarrow> i < length xs \<and> P (xs ! i)"
  by (auto simp: position_def Let_def split: if_splits dest: nth_length_takeWhile)

lemma position_ex: "list_ex P xs \<Longrightarrow> \<exists>i. position P xs = Some i"
  by (induction xs) (auto simp: position_def Let_def split: if_splits)

lemma mset_remove_nth: "i < length xs \<Longrightarrow> add_mset (xs ! i) (mset (take i xs @ drop (Suc i) xs)) = mset xs"
  by (metis append_assoc id_take_nth_drop mset.simps(2) mset_append union_mset_add_mset_left union_mset_add_mset_right append_Cons)

lemma promote_mset:
  assumes "pos < length rts"
  shows "image_mset unranked (mset (promote m pos rts)) = image_mset unranked (mset rts)"
proof -
  have "unranked (rt \<lparr> rt_target := (rt_target rt) \<lparr> ct_priority_order := q \<rparr> \<rparr>) = unranked rt" for rt q
    by (simp add: unranked_def)
  then have "image_mset unranked (mset (promote m pos rts)) =
      image_mset unranked (add_mset (rts ! pos) (mset (take pos rts @ drop (Suc pos) rts)))"
    by (simp add: promote_def Let_def)
  then show ?thesis unfolding mset_remove_nth [OF assms] .
qed

lemma apply_answer_mset:
  "mset (map unranked (fst (apply_answer ts rep msgs pinned answer targets))) = mset (map unranked targets)"
  by (auto simp: apply_answer_def Let_def split: option.splits prod.splits intro!: promote_mset dest: position_SomeD)

lemma pre_promote_mset: "mset (map unranked (snd (pre_promote c cds pin targets))) = mset (map unranked targets)"
  by (auto simp: pre_promote_def split: option.splits intro!: promote_mset dest: position_SomeD)

definition decision_cooldowns :: "combo \<Rightarrow> core_error + combo_target_id set \<Rightarrow> combo_target_id set" where
  "decision_cooldowns c q = (if combo_is_cooldown_disabled c then {} else case q of Inr s \<Rightarrow> s | Inl _ \<Rightarrow> {})"

lemma decision_cases:
  assumes "2 \<le> length targets" and "pre_promote c (decision_cooldowns c q) pin targets = (p, ts)"
  shows "apply_decision_routing env q messages c targets pin = (ts, []) \<or>
     (\<exists>request timeout answer rep. de_ask env request timeout = Inr (Some answer) \<and>
        apply_decision_routing env q messages c targets pin = apply_answer (de_to_string env) rep messages p answer ts)"
  using assms unfolding apply_decision_routing_def decision_cooldowns_def [symmetric] Let_def
  by (smt (verit) case_prod_conv linorder_not_less option.case_eq_if option.collapse sum.case_eq_if sum.collapse(2))

lemma decision_routing_mset:
  "mset (map unranked (fst (apply_decision_routing env q messages c targets pin))) = mset (map unranked targets)"
proof -
  obtain p ts where pp: "pre_promote c (decision_cooldowns c q) pin targets = (p, ts)" by fastforce
  have ts: "mset (map unranked ts) = mset (map unranked targets)"
    using pre_promote_mset [of c "decision_cooldowns c q" pin targets] pp by simp
  show ?thesis
  proof (cases "2 \<le> length targets")
    case True
    from decision_cases [OF this pp, of env messages] show ?thesis using ts apply_answer_mset by auto
  qed (simp add: apply_decision_routing_def)
qed

text \<open>
  decision routing only reorders. Whatever the small model answers and whatever the registries
  hold, the result has the same targets as the input, with the same credentials; only the priority
  number of promoted targets differs.
\<close>

theorem decision_routing_permutes:
  "mset (map unranked (fst (apply_decision_routing env q messages c targets pin))) = mset (map unranked targets)"
  by (rule decision_routing_mset)

section \<open>Pinned sessions\<close>

definition answer_chance :: "system_one_answer \<Rightarrow> combo_target_id \<Rightarrow> rat" where
  "answer_chance answer i =
     (case sa_probabilities answer of
        None \<Rightarrow> 0 | Some probs \<Rightarrow> (case map_of probs (show_int i) of Some p \<Rightarrow> p | None \<Rightarrow> 0))"

definition switch_justified :: "system_one_answer \<Rightarrow> combo_target_id \<Rightarrow> combo_target_id \<Rightarrow> bool" where
  "switch_justified answer i p \<longleftrightarrow>
     (if sa_probabilities answer = None
      then (case sa_confidence answer of None \<Rightarrow> True | Some confidence \<Rightarrow> 1/20 \<le> confidence)
      else answer_chance answer p + 1/20 \<le> answer_chance answer i)"

lemma should_switch_iff: "should_switch answer (show_int i) p \<longleftrightarrow> switch_justified answer i p"
  by (auto simp: should_switch_def switch_justified_def answer_chance_def Let_def ELASTIC_HYSTERESIS_MARGIN_def
      ELASTIC_CONFIDENCE_THRESHOLD_def split: option.split)

lemma promote_hd: "rt_id (hd (promote m pos rts)) = rt_id (rts ! pos)"
  by (simp add: promote_def Let_def rt_id_def)

lemma promote_ids: "pos < length rts \<Longrightarrow> rt_id ` set (promote m pos rts) = rt_id ` set rts"
proof -
  assume "pos < length rts"
  then have "set rts = insert (rts ! pos) (set (take pos rts @ drop (Suc pos) rts))"
    by (metis mset_remove_nth set_mset_add_mset_insert set_mset_mset)
  then show ?thesis by (simp add: promote_def Let_def rt_id_def)
qed

lemma pre_promote_pinned:
  assumes "pinned_is_available c cds targets p"
  obtains ts where "pre_promote c cds (Some p) targets = (Some p, ts)" "rt_id (hd ts) = p" "rt_id ` set ts = rt_id ` set targets"
proof -
  have "list_ex (\<lambda>rt. rt_id rt = p) targets"
    using assms by (auto simp: pinned_is_available_def list_ex_iff)
  then obtain pos where pos: "position (\<lambda>rt. rt_id rt = p) targets = Some pos" using position_ex by blast
  with position_SomeD [OF pos] assms show ?thesis
    by (intro that [of "promote (min_priority targets) pos targets"]) (simp_all add: pre_promote_def promote_hd promote_ids)
qed

lemma apply_answer_pinned:
  assumes "rt_id (hd targets) = p"
  shows "rt_id (hd (fst (apply_answer ts rep msgs (Some p) answer targets))) = p \<or>
     (\<exists>i \<in> rt_id ` set targets. rt_id (hd (fst (apply_answer ts rep msgs (Some p) answer targets))) = i \<and> switch_justified answer i p)"
proof -
  { fix choice log pos
    assume "position (\<lambda>rt. show_int (rt_id rt) = choice) targets = Some pos"
    then have "pos < length targets" "choice = show_int (rt_id (targets ! pos))" using position_SomeD by blast+
    then have "rt_id (targets ! pos) \<in> rt_id ` set targets" "should_switch answer choice p \<Longrightarrow> switch_justified answer (rt_id (targets ! pos)) p"
      using should_switch_iff by auto }
  then show ?thesis using assms
    by (auto simp: apply_answer_def Let_def promote_hd split: option.splits prod.splits)
qed

lemma pinned_session_head:
  assumes "2 \<le> length targets" and "pinned_is_available c (decision_cooldowns c q) targets p"
  shows "rt_id (hd (fst (apply_decision_routing env q messages c targets (Some p)))) = p \<or>
     (\<exists>request timeout answer. \<exists>i \<in> rt_id ` set targets. de_ask env request timeout = Inr (Some answer) \<and>
        switch_justified answer i p \<and> rt_id (hd (fst (apply_decision_routing env q messages c targets (Some p)))) = i)"
proof -
  obtain ts where pp: "pre_promote c (decision_cooldowns c q) (Some p) targets = (Some p, ts)"
    and hd: "rt_id (hd ts) = p" and ids: "rt_id ` set ts = rt_id ` set targets"
    using pre_promote_pinned [OF assms(2)] .
  show ?thesis
    using decision_cases [OF assms(1) pp, of env messages] hd apply_answer_pinned [OF hd, unfolded ids] by (metis fst_conv)
qed

text \<open>
  a session stays with its target unless leaving it is justified. When the pinned target is
  available, decision routing puts it first, however the query for a better one fails; another
  target comes first only if the small model answered with a margin of at least five percent over the
  pinned one, or, where it gives no probabilities, with a confidence that is not below that.
\<close>

theorem pinned_session_stable:
  assumes "2 \<le> length targets" and "pinned_is_available c (decision_cooldowns c q) targets p"
  shows "rt_id (hd (fst (apply_decision_routing env q messages c targets (Some p)))) = p \<or>
     (\<exists>request timeout answer. \<exists>i \<in> rt_id ` set targets. de_ask env request timeout = Inr (Some answer) \<and>
        switch_justified answer i p \<and> rt_id (hd (fst (apply_decision_routing env q messages c targets (Some p)))) = i)"
  using assms by (rule pinned_session_head)

section \<open>The prompt is a bounded prefix\<close>

text \<open>
  The state sent to the small model has at most the given number of bytes and ends at a character
  boundary of the text it was cut from.
\<close>

lemma prompt_state_bounded:
  "length (extract_prompt_state ts messages n) \<le> n \<and>
   prefix (extract_prompt_state ts messages n) (prompt_loop ts n (rev messages) []) \<and>
   is_char_boundary (prompt_loop ts n (rev messages) []) (length (extract_prompt_state ts messages n))"
proof -
  let ?s = "prompt_loop ts n (rev messages) []"
  have "floor_boundary ?s n \<le> length ?s" if "n < length ?s" using that floor_boundary_le [of ?s n] by simp
  then show ?thesis
    using floor_boundary_le [of ?s n] floor_boundary_is [of ?s n]
    by (auto simp: extract_prompt_state_def Let_def take_is_prefix is_char_boundary_def min_def)
qed

text \<open>
  Older messages are put in front and the cut is made at the end, so a long earlier message pushes
  the newest one out of the state.
\<close>

lemma prompt_state_drops_newest:
  "extract_prompt_state (\<lambda>_. [])
     [\<lparr> om_role = ''user'', om_content = Some (JStr ''aaaaaaaa''), om_name = None, om_tool_call_id = None, om_tool_calls = None \<rparr>,
      \<lparr> om_role = ''user'', om_content = Some (JStr ''new''), om_name = None, om_tool_call_id = None, om_tool_calls = None \<rparr>] 6 = ''aaaaaa''"
  by code_simp

section \<open>A pinned session without an answer\<close>

definition idle_target :: "int \<Rightarrow> resolved_target" where
  "idle_target i = default_resolved_target
     \<lparr> rt_target := default_combo_target \<lparr> ct_id := i \<rparr>, rt_model := default_model \<lparr> mo_active := True \<rparr> \<rparr>"

definition silent_env :: decision_env where
  "silent_env = \<lparr> de_hash = (\<lambda>_. 0), de_to_string = (\<lambda>_. []), de_now_ms = 0, de_limiter = [], de_selection = [],
     de_ask = (\<lambda>_ _. Inl (Internal ''systemone decision timed out'')) \<rparr>"

theorem pinned_session_stable_witness:
  "pinned_is_available default_combo (decision_cooldowns default_combo (Inr {})) [idle_target 1, idle_target 2] 2 \<and>
   rt_id (hd (fst (apply_decision_routing silent_env (Inr {}) [] default_combo [idle_target 1, idle_target 2] (Some 2)))) = 2"
proof -
  have "pinned_is_available default_combo (decision_cooldowns default_combo (Inr {})) [idle_target 1, idle_target 2] 2"
    by (simp add: pinned_is_available_def decision_cooldowns_def idle_target_def rt_id_def rt_active_def default_combo_target_def)
  with pinned_session_stable [OF _ this, of silent_env "[]"] show ?thesis by (simp add: silent_env_def)
qed

end
