(* ===== verification/Secrets.thy ===== *)
theory Secrets
  imports Core_Error Utf8 "HOL-Library.Word"
begin

text \<open>
  Encryption of the stored credentials (openproxy-db/src/secrets.rs): a blob is the nonce followed by
  the sealed plaintext, and a rotated key is read through the previous one. A string is a list of
  bytes. The cipher, base64 and their error texts belong to third-party crates: they are the fields
  of \<open>aead\<close> and the parameter \<open>b64\<close>; the random nonce is an argument, an error text when the system gives none.
\<close>

unbundle bit_operations_syntax

section \<open>The master key\<close>

record aead =
  ae_seal :: "string \<Rightarrow> string \<Rightarrow> string \<Rightarrow> string + string"
  ae_open :: "string \<Rightarrow> string \<Rightarrow> string \<Rightarrow> string option"
  ae_utf8_error :: "string \<Rightarrow> string"

definition NONCE_LEN :: nat where "NONCE_LEN = 12"
definition KEY_LEN :: nat where "KEY_LEN = 32"
definition ENV_VAR :: string where "ENV_VAR = ''OPENPROXY_MASTER_KEY''"
definition PREVIOUS_ENV_VAR :: string where "PREVIOUS_ENV_VAR = ''OPENPROXY_MASTER_KEY_PREVIOUS''"

record master_key =
  mk_current :: string
  mk_previous :: "string option"

definition decode_key ::
    "(string \<Rightarrow> string + string) \<Rightarrow> string \<Rightarrow> string \<Rightarrow> core_error + string" where
  "decode_key b64 what raw =
     (case b64 (trim raw) of
        Inl e \<Rightarrow> Inl (Config (what @ '' is not valid base64: '' @ e))
      | Inr bytes \<Rightarrow>
          (if length bytes = KEY_LEN then Inr bytes
           else Inl (Config (what @ '' must decode to 32 bytes, got '' @ show_nat (length bytes)))))"

definition decode_key_env_var ::
    "(string \<Rightarrow> string + string) \<Rightarrow> (string \<Rightarrow> string option) \<Rightarrow> string \<Rightarrow> core_error + string" where
  "decode_key_env_var b64 env var_name =
     (case env var_name of
        None \<Rightarrow> Inl (Config (''env var '' @ var_name @ '' is not set''))
      | Some raw \<Rightarrow> decode_key b64 var_name raw)"

definition load_optional_previous_key ::
    "(string \<Rightarrow> string + string) \<Rightarrow> (string \<Rightarrow> string option) \<Rightarrow> core_error + string option" where
  "load_optional_previous_key b64 env =
     (if env PREVIOUS_ENV_VAR = None then Inr None
      else map_sum id Some (decode_key_env_var b64 env PREVIOUS_ENV_VAR))"

definition from_env ::
    "(string \<Rightarrow> string + string) \<Rightarrow> (string \<Rightarrow> string option) \<Rightarrow> core_error + master_key" where
  "from_env b64 env =
     (case decode_key_env_var b64 env ENV_VAR of
        Inl e \<Rightarrow> Inl e
      | Inr current \<Rightarrow>
          (case load_optional_previous_key b64 env of
             Inl e \<Rightarrow> Inl e
           | Inr previous \<Rightarrow> Inr \<lparr> mk_current = current, mk_previous = previous \<rparr>))"

text \<open>
  A file is its permission bits and its contents, each of which the system may fail to give; \<open>label\<close>
  is the path as the messages print it.
\<close>

record key_file =
  kf_label :: string
  kf_mode :: "string + 32 word"
  kf_contents :: "string + string"

fun oct_digits :: "nat \<Rightarrow> nat \<Rightarrow> string" where
  "oct_digits 0 n = []"
| "oct_digits (Suc k) n =
     (if n < 8 then [char_of (48 + n)] else oct_digits k (n div 8) @ [char_of (48 + n mod 8)])"

definition show_oct :: "32 word \<Rightarrow> string" where
  "show_oct w = oct_digits 11 (unat w)"

definition from_file ::
    "(string \<Rightarrow> string + string) \<Rightarrow> (string \<Rightarrow> string option) \<Rightarrow> key_file \<Rightarrow> core_error + master_key" where
  "from_file b64 env file =
     (let name = ''master key file '' @ kf_label file
      in case kf_mode file of
           Inl e \<Rightarrow> Inl (Config (name @ '': '' @ e))
         | Inr mode \<Rightarrow>
             (if mode AND 63 \<noteq> 0
              then Inl (Config (name @ '' must have mode 0600 (got '' @ show_oct (mode AND 511) @
                     ''); chmod 600 it before starting openproxy''))
              else case kf_contents file of
                     Inl e \<Rightarrow> Inl (Config (name @ '': '' @ e))
                   | Inr raw \<Rightarrow>
                       (case decode_key b64 name raw of
                          Inl e \<Rightarrow> Inl e
                        | Inr current \<Rightarrow>
                            (case load_optional_previous_key b64 env of
                               Inl e \<Rightarrow> Inl e
                             | Inr previous \<Rightarrow> Inr \<lparr> mk_current = current, mk_previous = previous \<rparr>))))"

section \<open>Blobs\<close>

definition encrypt :: "aead \<Rightarrow> string + string \<Rightarrow> master_key \<Rightarrow> string \<Rightarrow> core_error + string" where
  "encrypt ae random_nonce mk plaintext =
     (case random_nonce of
        Inl e \<Rightarrow> Inl (Internal (''nonce random failed: '' @ e))
      | Inr nonce \<Rightarrow>
          (case ae_seal ae (mk_current mk) nonce plaintext of
             Inl e \<Rightarrow> Inl (Internal (''aes-gcm encrypt failed: '' @ e))
           | Inr ct \<Rightarrow> Inr (nonce @ ct)))"

definition try_decrypt :: "aead \<Rightarrow> string \<Rightarrow> string \<Rightarrow> string \<Rightarrow> (core_error + string) option" where
  "try_decrypt ae raw_key nonce ct =
     (case ae_open ae raw_key nonce ct of
        None \<Rightarrow> None
      | Some pt \<Rightarrow>
          Some (if utf8_ok pt then Inr pt
                else Inl (Internal (''decrypted plaintext is not utf-8: '' @ ae_utf8_error ae pt))))"

definition decrypt :: "aead \<Rightarrow> master_key \<Rightarrow> string \<Rightarrow> core_error + string" where
  "decrypt ae mk blob =
     (if length blob < NONCE_LEN + 16
      then Inl (Internal ''ciphertext blob too short to contain nonce and tag'')
      else
        (let nonce = take NONCE_LEN blob; ct = drop NONCE_LEN blob
         in case try_decrypt ae (mk_current mk) nonce ct of
              Some res \<Rightarrow> res
            | None \<Rightarrow>
                (case Option.bind (mk_previous mk) (\<lambda>prev. try_decrypt ae prev nonce ct) of
                   Some res \<Rightarrow> res
                 | None \<Rightarrow> Inl (Internal ''aes-gcm decrypt failed with both current and previous keys''))))"

section \<open>What the cipher promises\<close>

text \<open>
  AES-256-GCM over 32-byte keys and 12-byte nonces: what was sealed opens under the same key and
  nonce to the same plaintext and carries a 16-byte tag.
\<close>

definition aead_correct :: "aead \<Rightarrow> bool" where
  "aead_correct ae \<longleftrightarrow>
     (\<forall>k n p c. length k = KEY_LEN \<and> length n = NONCE_LEN \<and> ae_seal ae k n p = Inr c \<longrightarrow>
        ae_open ae k n c = Some p \<and> length c = length p + 16)"

text \<open>A ciphertext sealed under one key is rejected under another.\<close>

definition rejects :: "aead \<Rightarrow> string \<Rightarrow> string \<Rightarrow> bool" where
  "rejects ae k k' \<longleftrightarrow>
     (\<forall>n p c. length n = NONCE_LEN \<and> ae_seal ae k n p = Inr c \<longrightarrow> ae_open ae k' n c = None)"

lemma encrypt_blob:
  assumes "aead_correct ae" and "length (mk_current mk) = KEY_LEN" and "length n = NONCE_LEN"
    and "encrypt ae (Inr n) mk p = Inr blob"
  obtains c where "blob = n @ c" "ae_open ae (mk_current mk) n c = Some p" "length blob = NONCE_LEN + length p + 16"
    "ae_seal ae (mk_current mk) n p = Inr c"
proof -
  from assms(4) obtain c where seal: "ae_seal ae (mk_current mk) n p = Inr c" and blob: "blob = n @ c"
    by (simp add: encrypt_def split: sum.splits)
  from assms(1) seal have "ae_open ae (mk_current mk) n c = Some p \<and> length c = length p + 16"
    unfolding aead_correct_def using assms(2,3) by blast
  with seal blob assms(3) show ?thesis by (intro that [of c]) simp_all
qed


text \<open>
  C37: a key is only accepted whole and private. A master key read from a file has 32 bytes and so has
  its previous key, and the permission bits of the file give nothing to the group or to others.
\<close>

theorem key_file_private:
  assumes "from_file b64 env file = Inr mk"
  shows "length (mk_current mk) = 32 \<and> pred_option (\<lambda>k. length k = 32) (mk_previous mk) \<and>
     (\<exists>mode. kf_mode file = Inr mode \<and> (\<forall>i < 6. \<not> bit mode i))"
proof -
  obtain mode where mode: "kf_mode file = Inr mode" "mode AND 63 = 0"
    using assms by (auto simp: from_file_def Let_def split: sum.splits if_splits)
  have "\<not> bit mode i" if "i < 6" for i
  proof -
    have "bit (mask 6 :: 32 word) i" using that by (simp add: bit_mask_iff del: mask_numeral)
    moreover have "(63 :: 32 word) = mask 6" by (simp add: mask_eq_exp_minus_1)
    ultimately have "bit (63 :: 32 word) i" by (simp only:)
    then show ?thesis using mode(2) bit_and_iff [of mode 63 i] by simp
  qed
  moreover have "length (mk_current mk) = 32 \<and> pred_option (\<lambda>k. length k = 32) (mk_previous mk)"
    using assms
    by (auto simp: from_file_def Let_def decode_key_def decode_key_env_var_def load_optional_previous_key_def KEY_LEN_def
        split: sum.splits if_splits option.splits)
  ultimately show ?thesis using mode(1) by blast
qed

section \<open>A concrete cipher\<close>

text \<open>A cipher in the clear whose tag repeats half of the key; it satisfies what the code relies on.\<close>

definition clear_aead :: aead where
  "clear_aead =
     \<lparr> ae_seal = (\<lambda>k n p. Inr (p @ take 16 (k @ replicate 16 CHR ''x''))),
       ae_open = (\<lambda>k n c. if 16 \<le> length c \<and> drop (length c - 16) c = take 16 (k @ replicate 16 CHR ''x'')
                          then Some (take (length c - 16) c) else None),
       ae_utf8_error = (\<lambda>s. []) \<rparr>"

lemma clear_aead_correct: "aead_correct clear_aead"
  by (simp add: aead_correct_def clear_aead_def KEY_LEN_def)


theorem key_file_private_witness:
  "from_file (\<lambda>s. Inr (replicate 32 CHR ''k'')) (\<lambda>v. None) \<lparr> kf_label = ''k'', kf_mode = Inr 384, kf_contents = Inr ''x'' \<rparr> =
     Inr \<lparr> mk_current = replicate 32 CHR ''k'', mk_previous = None \<rparr> \<and>
   (\<exists>mode. Inr mode = (Inr 384 :: string + 32 word) \<and> (\<forall>i < 6. \<not> bit mode i))"
proof -
  have "from_file (\<lambda>s. Inr (replicate 32 CHR ''k'')) (\<lambda>v. None) \<lparr> kf_label = ''k'', kf_mode = Inr 384, kf_contents = Inr ''x'' \<rparr> =
     Inr \<lparr> mk_current = replicate 32 CHR ''k'', mk_previous = None \<rparr>"
    by (simp add: from_file_def decode_key_def load_optional_previous_key_def KEY_LEN_def)
  with key_file_private [OF this] show ?thesis by simp
qed

end
