(* ===== verification/Cooldowns.thy ===== *)
theory Cooldowns
  imports Combo_Store
begin

text \<open>
  The per-target cooldown table (openproxy-db/src/cooldowns.rs): a target that failed is parked until
  an instant that grows with the failures in a row. Times are whole seconds, as \<open>datetime\<close> reads
  them. The addition of a number of seconds to an instant is the parameter \<open>add_secs\<close>; \<open>None\<close> is its
  panic out of range.
\<close>

section \<open>Operations\<close>

definition cooldowns_for_combo :: "database \<Rightarrow> combo_id \<Rightarrow> cooldown_row list" where
  "cooldowns_for_combo db cid =
     filter (\<lambda>c. list_ex (\<lambda>r. ct_id (tg_target r) = cd_target_id c \<and> ct_combo_id (tg_target r) = cid) (db_targets db))
       (db_cooldowns db)"

definition clear_cooldown :: "combo_target_id \<Rightarrow> database \<Rightarrow> database" where
  "clear_cooldown i db = db \<lparr> db_cooldowns := filter (\<lambda>c. cd_target_id c \<noteq> i) (db_cooldowns db) \<rparr>"

definition prune_expired :: "int \<Rightarrow> database \<Rightarrow> database \<times> nat" where
  "prune_expired now db =
     (let live = filter (\<lambda>c. \<not> time_over now (cd_until c)) (db_cooldowns db)
      in (db \<lparr> db_cooldowns := live \<rparr>, length (db_cooldowns db) - length live))"

definition cooldown_secs :: "cooldown_mode \<Rightarrow> nat \<Rightarrow> nat \<Rightarrow> nat \<Rightarrow> nat \<Rightarrow> nat option" where
  "cooldown_secs mode base_secs max_secs factor current_count =
     (case mode of
        NoCooldown \<Rightarrow> None
      | Flat \<Rightarrow> Some base_secs
      | Exponential \<Rightarrow>
          (let exp_secs = saturating_mul U64_MAX base_secs (saturating_pow U64_MAX factor current_count)
           in Some (if exp_secs > max_secs then max_secs else exp_secs)))"

definition upsert_cooldown :: "cooldown_row \<Rightarrow> cooldown_row list \<Rightarrow> cooldown_row list" where
  "upsert_cooldown row rows =
     (if list_ex (\<lambda>c. cd_target_id c = cd_target_id row) rows
      then map (\<lambda>c. if cd_target_id c = cd_target_id row then row else c) rows
      else rows @ [row])"

definition record_cooldown ::
    "(int \<Rightarrow> int \<Rightarrow> int option) \<Rightarrow> int \<Rightarrow> database \<Rightarrow> combo_target_id \<Rightarrow> string \<Rightarrow>
     cooldown_mode \<Rightarrow> nat \<Rightarrow> nat \<Rightarrow> nat \<Rightarrow> database option" where
  "record_cooldown add_secs now db i reason mode base_secs max_secs factor =
     (if mode = NoCooldown \<or> base_secs = 0 then Some db
      else if \<not> list_ex (\<lambda>r. ct_id (tg_target r) = i) (db_targets db) then Some db
      else
        (let current_count = (case find_cooldown db i of None \<Rightarrow> 0 | Some c \<Rightarrow> cd_failure_count c);
             new_count = wrapping_add U32_MAX current_count 1
         in case cooldown_secs mode base_secs max_secs factor current_count of
              None \<Rightarrow> Some db
            | Some secs \<Rightarrow>
                (case add_secs now (as_i64 secs) of
                   None \<Rightarrow> None
                 | Some until \<Rightarrow>
                     Some (db \<lparr> db_cooldowns := upsert_cooldown
                        \<lparr> cd_target_id = i, cd_until = AtSecs until, cd_reason = Some reason,
                          cd_failure_count = new_count \<rparr> (db_cooldowns db) \<rparr>))))"

section \<open>What a cooldown hides\<close>

lemma find_upsert:
  "find (\<lambda>c. cd_target_id c = j) (upsert_cooldown row rows) =
     (if j = cd_target_id row then Some row else find (\<lambda>c. cd_target_id c = j) rows)"
proof -
  have hit: "find (\<lambda>c. cd_target_id c = j) (map (\<lambda>c. if cd_target_id c = cd_target_id row then row else c) rows) =
      (if j = cd_target_id row then (if list_ex (\<lambda>c. cd_target_id c = cd_target_id row) rows then Some row else None)
       else find (\<lambda>c. cd_target_id c = j) rows)"
    by (induction rows) auto
  have app: "find (\<lambda>c. cd_target_id c = j) (rows @ [row]) =
      (case find (\<lambda>c. cd_target_id c = j) rows of None \<Rightarrow> if cd_target_id row = j then Some row else None | Some y \<Rightarrow> Some y)"
    by (induction rows) auto
  have miss: "\<not> list_ex (\<lambda>c. cd_target_id c = cd_target_id row) rows \<Longrightarrow> find (\<lambda>c. cd_target_id c = cd_target_id row) rows = None"
    by (induction rows) auto
  show ?thesis
    unfolding upsert_cooldown_def if_distrib [where f = "find _"] hit app using miss
    by (simp split: option.split)
qed

lemma set_upsert:
  "set (upsert_cooldown row rows) = insert row {c \<in> set rows. cd_target_id c \<noteq> cd_target_id row}"
  by (auto simp: upsert_cooldown_def list_ex_iff)

definition shares_model :: "database \<Rightarrow> combo_target_id \<Rightarrow> combo_target \<Rightarrow> bool" where
  "shares_model db i t \<longleftrightarrow>
     (\<exists>m r. ct_model_row_id t = Some m \<and> r \<in> set (db_targets db) \<and> ct_id (tg_target r) = i \<and>
        ct_model_row_id (tg_target r) = Some m)"

definition with_cooldown :: "cooldown_row \<Rightarrow> database \<Rightarrow> database" where
  "with_cooldown row db = db \<lparr> db_cooldowns := upsert_cooldown row (db_cooldowns db) \<rparr>"

lemma find_cooldown_with:
  "find_cooldown (with_cooldown row db) j = (if j = cd_target_id row then Some row else find_cooldown db j)"
  by (simp add: with_cooldown_def find_cooldown_def find_upsert)

lemma find_cooldown_clear:
  "find_cooldown (clear_cooldown i db) j = (if j = i then None else find_cooldown db j)"
proof -
  have "find P (filter Q xs) = find (\<lambda>x. Q x \<and> P x) xs" for P Q and xs :: "cooldown_row list"
    by (induction xs) auto
  moreover have "find (\<lambda>_. False) xs = None" for xs :: "cooldown_row list" by (induction xs) auto
  ultimately show ?thesis
    by (auto simp: find_cooldown_def clear_cooldown_def intro!: arg_cong [where f = "\<lambda>P. find P _"])
qed

lemma in_model_cooldown_with:
  "in_model_cooldown now (with_cooldown row db) t \<longleftrightarrow>
     (time_ahead now (cd_until row) \<and> shares_model db (cd_target_id row) t) \<or>
     in_model_cooldown now (clear_cooldown (cd_target_id row) db) t"
  by (cases "ct_model_row_id t")
    (auto simp: in_model_cooldown_def model_in_cooldown_def with_cooldown_def clear_cooldown_def shares_model_def
      set_upsert list_ex_iff)

lemma in_model_cooldown_clear:
  "\<not> shares_model db i t \<Longrightarrow> in_model_cooldown now (clear_cooldown i db) t \<longleftrightarrow> in_model_cooldown now db t"
  by (cases "ct_model_row_id t")
    (auto simp: in_model_cooldown_def model_in_cooldown_def clear_cooldown_def shares_model_def list_ex_iff)

lemma cooldown_frame [simp]:
  "provider_is_active (with_cooldown row db) = provider_is_active db" "provider_is_active (clear_cooldown i db) = provider_is_active db"
  "model_is_active (with_cooldown row db) = model_is_active db" "model_is_active (clear_cooldown i db) = model_is_active db"
  "row_to_target (with_cooldown row db) = row_to_target db" "row_to_target (clear_cooldown i db) = row_to_target db"
  "db_targets (with_cooldown row db) = db_targets db" "db_targets (clear_cooldown i db) = db_targets db"
  by (simp_all add: fun_eq_iff provider_is_active_def model_is_active_def row_to_target_def find_provider_def find_model_def
      with_cooldown_def clear_cooldown_def)

lemma target_listed_with:
  assumes "cd_until row = AtSecs u"
  shows "target_listed now (with_cooldown row db) t \<longleftrightarrow>
     (if now < u
      then target_listed now db t \<and> ct_id t \<noteq> cd_target_id row \<and> \<not> shares_model db (cd_target_id row) t
      else target_listed now (clear_cooldown (cd_target_id row) db) t)"
  using assms in_model_cooldown_clear [of db "cd_target_id row" t now]
  unfolding target_listed_def cooldown_frame
  by (cases "shares_model db (cd_target_id row) t"; cases "ct_id t = cd_target_id row")
    (simp_all add: find_cooldown_with find_cooldown_clear in_model_cooldown_with time_ahead_def time_over_def)

lemma set_list_targets:
  "t \<in> set (list_targets now db cid) \<longleftrightarrow>
     (\<exists>r \<in> set (db_targets db). ct_combo_id (tg_target r) = cid \<and> target_listed now db (tg_target r) \<and>
        t = row_to_target db (tg_target r))"
  by (auto simp: list_targets_def)

lemma row_to_target_frame [simp]:
  "ct_id (row_to_target db t) = ct_id t" "shares_model db i (row_to_target db t) = shares_model db i t"
  by (simp_all add: row_to_target_def shares_model_def)

lemma record_cooldown_row:
  assumes "mode \<noteq> NoCooldown" "0 < base" "\<exists>r \<in> set (db_targets db). ct_id (tg_target r) = i"
    and "record_cooldown add_secs now db i reason mode base mx factor = Some db'"
  obtains row u secs where "db' = with_cooldown row db" "cd_target_id row = i" "cd_until row = AtSecs u"
    "cooldown_secs mode base mx factor (case find_cooldown db i of None \<Rightarrow> 0 | Some c \<Rightarrow> cd_failure_count c) = Some secs"
    "add_secs now (as_i64 secs) = Some u"
    "cd_failure_count row = wrapping_add U32_MAX (case find_cooldown db i of None \<Rightarrow> 0 | Some c \<Rightarrow> cd_failure_count c) 1"
proof -
  define n where "n = (case find_cooldown db i of None \<Rightarrow> 0 | Some c \<Rightarrow> cd_failure_count c)"
  obtain secs where secs: "cooldown_secs mode base mx factor n = Some secs"
    using assms(1) by (cases mode) (simp_all add: cooldown_secs_def Let_def)
  from assms(3) have ex: "list_ex (\<lambda>r. ct_id (tg_target r) = i) (db_targets db)" by (simp add: list_ex_iff)
  from assms(4) obtain u where u: "add_secs now (as_i64 secs) = Some u"
    and db': "db' = db \<lparr> db_cooldowns := upsert_cooldown \<lparr> cd_target_id = i, cd_until = AtSecs u, cd_reason = Some reason,
      cd_failure_count = wrapping_add U32_MAX n 1 \<rparr> (db_cooldowns db) \<rparr>"
    using assms(1,2) ex secs unfolding record_cooldown_def n_def [symmetric] Let_def by (auto split: option.splits)
  show ?thesis
    by (rule that [of "\<lparr> cd_target_id = i, cd_until = AtSecs u, cd_reason = Some reason,
        cd_failure_count = wrapping_add U32_MAX n 1 \<rparr>" u secs])
      (use secs u db' in \<open>simp_all add: with_cooldown_def n_def\<close>)
qed

text \<open>
  a cooldown parks its target and every target of the same model, and nothing else. After a
  cooldown that lasts until instant \<open>u\<close> is recorded for a target, before \<open>u\<close> every combo lists the
  targets it listed without it, less that target and those that share its model; from \<open>u\<close> on every
  combo lists what it would list if the target had no cooldown row.
\<close>

theorem cooldown_parks_model:
  assumes "mode \<noteq> NoCooldown" and "0 < base" and "\<exists>r \<in> set (db_targets db). ct_id (tg_target r) = i"
    and "record_cooldown add_secs now db i reason mode base mx factor = Some db'"
  shows "\<exists>u secs. cooldown_secs mode base mx factor (case find_cooldown db i of None \<Rightarrow> 0 | Some c \<Rightarrow> cd_failure_count c) = Some secs \<and>
     add_secs now (as_i64 secs) = Some u \<and>
     (\<forall>later cid t. t \<in> set (list_targets later db' cid) \<longleftrightarrow>
        (if later < u then t \<in> set (list_targets later db cid) \<and> ct_id t \<noteq> i \<and> \<not> shares_model db i t
         else t \<in> set (list_targets later (clear_cooldown i db) cid)))"
proof -
  obtain row u secs where row: "db' = with_cooldown row db" "cd_target_id row = i" "cd_until row = AtSecs u"
    "cooldown_secs mode base mx factor (case find_cooldown db i of None \<Rightarrow> 0 | Some c \<Rightarrow> cd_failure_count c) = Some secs"
    "add_secs now (as_i64 secs) = Some u"
    using record_cooldown_row [OF assms] by metis
  have "t \<in> set (list_targets later db' cid) \<longleftrightarrow>
      (if later < u then t \<in> set (list_targets later db cid) \<and> ct_id t \<noteq> i \<and> \<not> shares_model db i t
       else t \<in> set (list_targets later (clear_cooldown i db) cid))" for later cid t
    unfolding row(1) set_list_targets cooldown_frame target_listed_with [OF row(3)] row(2) by auto
  with row show ?thesis by blast
qed

section \<open>Escalation\<close>

text \<open>Failures of one target in a row, each at its own instant.\<close>

primrec fail_cooldowns ::
    "(int \<Rightarrow> int \<Rightarrow> int option) \<Rightarrow> int list \<Rightarrow> database \<Rightarrow> combo_target_id \<Rightarrow> string \<Rightarrow> cooldown_mode \<Rightarrow> nat \<Rightarrow> nat \<Rightarrow> nat \<Rightarrow> database option" where
  "fail_cooldowns add_secs [] db i reason mode base mx factor = Some db"
| "fail_cooldowns add_secs (now # nows) db i reason mode base mx factor =
     (case record_cooldown add_secs now db i reason mode base mx factor of
        None \<Rightarrow> None
      | Some db' \<Rightarrow> fail_cooldowns add_secs nows db' i reason mode base mx factor)"

lemma fail_cooldowns_snoc:
  "fail_cooldowns add_secs (nows @ [now]) db i reason mode base mx factor =
     Option.bind (fail_cooldowns add_secs nows db i reason mode base mx factor)
       (\<lambda>db'. record_cooldown add_secs now db' i reason mode base mx factor)"
  by (induction nows arbitrary: db) (simp_all split: option.split)

lemma exponential_secs:
  "cooldown_secs Exponential base mx factor n = Some (min mx (base * factor ^ n))" if "mx \<le> U64_MAX"
proof -
  have "base * factor ^ n \<le> U64_MAX \<Longrightarrow> 0 < base \<Longrightarrow> factor ^ n \<le> U64_MAX"
    by (metis One_nat_def Suc_leI mult.commute mult_le_mono2 nat_mult_1_right order_trans)
  with that show ?thesis
    by (cases "base = 0") (auto simp: cooldown_secs_def saturating_mul_def saturating_pow_def Let_def min_def)
qed

lemma fail_cooldowns_count:
  assumes "mode \<noteq> NoCooldown" and "0 < base" and "\<exists>r \<in> set (db_targets db). ct_id (tg_target r) = i"
    and "find_cooldown db i = None" and "length nows < U32_MAX"
    and "fail_cooldowns add_secs nows db i reason mode base mx factor = Some db'"
  shows "(case find_cooldown db' i of None \<Rightarrow> 0 | Some c \<Rightarrow> cd_failure_count c) = length nows \<and>
     db_targets db' = db_targets db"
  using assms(5,6)
proof (induction nows arbitrary: db' rule: rev_induct)
  case Nil
  then show ?case using assms(4) by simp
next
  case (snoc now nows)
  from snoc.prems(2) obtain mid where mid: "fail_cooldowns add_secs nows db i reason mode base mx factor = Some mid"
    and rec: "record_cooldown add_secs now mid i reason mode base mx factor = Some db'"
    by (auto simp: fail_cooldowns_snoc bind_eq_Some_conv)
  from snoc.IH [OF _ mid] snoc.prems(1) have IH: "(case find_cooldown mid i of None \<Rightarrow> 0 | Some c \<Rightarrow> cd_failure_count c) = length nows"
    "db_targets mid = db_targets db" by simp_all
  from assms(3) IH(2) have ex: "\<exists>r \<in> set (db_targets mid). ct_id (tg_target r) = i" by simp
  obtain row where "db' = with_cooldown row mid" "cd_target_id row = i"
    "cd_failure_count row = wrapping_add U32_MAX (length nows) 1"
    using record_cooldown_row [OF assms(1,2) ex rec] unfolding IH(1) by metis
  then show ?case using snoc.prems(1) IH(2) by (simp add: find_cooldown_with wrapping_add_def)
qed

text \<open>
  exponential cooldowns escalate and stay bounded. When a target without a cooldown row fails
  again and again, failure number \<open>n + 1\<close> parks it for \<open>base * factor ^ n\<close> seconds, cut at the
  maximum, and the row counts the failures.
\<close>

theorem cooldown_escalates:
  assumes "0 < base" and "mx \<le> 9223372036854775807" and "\<exists>r \<in> set (db_targets db). ct_id (tg_target r) = i"
    and "find_cooldown db i = None" and "length nows < U32_MAX - 1"
    and "fail_cooldowns add_secs (nows @ [now]) db i reason Exponential base mx factor = Some db'"
  shows "\<exists>c u. find_cooldown db' i = Some c \<and> cd_until c = AtSecs u \<and> cd_failure_count c = Suc (length nows) \<and>
     add_secs now (int (min mx (base * factor ^ length nows))) = Some u"
proof -
  from assms(6) obtain mid where mid: "fail_cooldowns add_secs nows db i reason Exponential base mx factor = Some mid"
    and rec: "record_cooldown add_secs now mid i reason Exponential base mx factor = Some db'"
    by (auto simp: fail_cooldowns_snoc bind_eq_Some_conv)
  have count: "(case find_cooldown mid i of None \<Rightarrow> 0 | Some c \<Rightarrow> cd_failure_count c) = length nows"
    and same: "db_targets mid = db_targets db"
    using fail_cooldowns_count [OF _ assms(1,3,4) _ mid] assms(5) by simp_all
  have ex: "\<exists>r \<in> set (db_targets mid). ct_id (tg_target r) = i" using assms(3) same by simp
  obtain row u secs where row: "db' = with_cooldown row mid" "cd_target_id row = i" "cd_until row = AtSecs u"
    "cooldown_secs Exponential base mx factor (length nows) = Some secs" "add_secs now (as_i64 secs) = Some u"
    "cd_failure_count row = wrapping_add U32_MAX (length nows) 1"
    using record_cooldown_row [OF _ assms(1) ex rec] unfolding count by (metis cooldown_mode.distinct(5))
  have "secs = min mx (base * factor ^ length nows)" using row(4) exponential_secs [of mx base factor "length nows"] assms(2) by simp
  then have "as_i64 secs = int (min mx (base * factor ^ length nows))" using assms(2) by (simp add: as_i64_def min_le_iff_disj)
  with row assms(5) show ?thesis by (simp add: find_cooldown_with wrapping_add_def)
qed

text \<open>
  Pruning removes the rows that are over, and with them the count of failures: the next failure of
  a target whose cooldown has ended and was pruned parks it for the base time again.
\<close>

lemma pruned_cooldown_forgets:
  assumes "find_cooldown db i = Some c" and "time_over now (cd_until c)" and "distinct (map cd_target_id (db_cooldowns db))"
  shows "find_cooldown (fst (prune_expired now db)) i = None"
  using assms unfolding find_cooldown_def prune_expired_def Let_def find_None_iff
  by (auto simp: find_Some_iff distinct_map inj_on_def dest!: nth_mem)

lemma find_filter_live:
  "distinct (map cd_target_id rows) \<Longrightarrow>
     find (\<lambda>c. cd_target_id c = j) (filter P rows) =
       (case find (\<lambda>c. cd_target_id c = j) rows of None \<Rightarrow> None | Some c \<Rightarrow> if P c then Some c else None)"
proof (induction rows)
  case (Cons c rows)
  have "find (\<lambda>c. cd_target_id c = j) rows = None" if "cd_target_id c = j"
    using that Cons.prems by (auto simp: find_None_iff image_iff)
  with Cons show ?case by auto
qed simp

lemma pruned_target_listed:
  assumes "distinct (map cd_target_id (db_cooldowns db))" and "now \<le> later"
  shows "target_listed later (fst (prune_expired now db)) t = target_listed later db t"
proof -
  let ?db = "fst (prune_expired now db)"
  have over: "time_over later u" "\<not> time_ahead later u" if "time_over now u" for u
    using that assms(2) by (cases u; simp add: time_over_def time_ahead_def)+
  have find: "(case find_cooldown ?db j of None \<Rightarrow> True | Some c \<Rightarrow> time_over later (cd_until c)) =
      (case find_cooldown db j of None \<Rightarrow> True | Some c \<Rightarrow> time_over later (cd_until c))" for j
    using over by (simp add: find_cooldown_def prune_expired_def Let_def find_filter_live [OF assms(1)] split: option.split)
  have model: "in_model_cooldown later ?db t = in_model_cooldown later db t"
    using over(2) by (auto simp: in_model_cooldown_def model_in_cooldown_def prune_expired_def Let_def list_ex_iff split: option.split)
  have frame: "provider_is_active ?db = provider_is_active db" "model_is_active ?db = model_is_active db"
    by (simp_all add: fun_eq_iff prune_expired_def Let_def provider_is_active_def model_is_active_def find_provider_def find_model_def)
  show ?thesis unfolding target_listed_def frame model find ..
qed

text \<open>
  pruning is invisible to routing: from the instant of the pruning on, every combo lists the same
  targets in the same order.
\<close>

theorem prune_expired_invisible:
  assumes "distinct (map cd_target_id (db_cooldowns db))" and "now \<le> later"
  shows "list_targets later (fst (prune_expired now db)) cid = list_targets later db cid"
proof -
  have "row_to_target (fst (prune_expired now db)) = row_to_target db"
    "db_targets (fst (prune_expired now db)) = db_targets db"
    by (simp_all add: fun_eq_iff prune_expired_def Let_def row_to_target_def find_provider_def)
  then show ?thesis by (simp add: list_targets_def pruned_target_listed [OF assms])
qed

section \<open>Witnesses\<close>

definition plain_add :: "int \<Rightarrow> int \<Rightarrow> int option" where
  "plain_add now s = Some (now + s)"

definition parked_db :: database where
  "parked_db = two_targets_db \<lparr> db_cooldowns :=
     [\<lparr> cd_target_id = 7, cd_until = AtSecs 50, cd_reason = None, cd_failure_count = 1 \<rparr>] \<rparr>"

lemma parked_db_records:
  "record_cooldown plain_add 30 parked_db 7 ''503'' Exponential 10 300 2 =
     Some (with_cooldown \<lparr> cd_target_id = 7, cd_until = AtSecs 50, cd_reason = Some ''503'', cd_failure_count = 2 \<rparr> parked_db)"
  by (simp add: record_cooldown_def parked_db_def two_targets_db_def find_cooldown_def cooldown_secs_def Let_def
      saturating_mul_def saturating_pow_def plain_add_def as_i64_def with_cooldown_def wrapping_add_def numeral_2_eq_2)

theorem cooldown_parks_model_witness:
  "\<exists>db'. record_cooldown plain_add 30 parked_db 7 ''503'' Exponential 10 300 2 = Some db' \<and>
     (\<forall>cid t. t \<in> set (list_targets 49 db' cid) \<longleftrightarrow>
        t \<in> set (list_targets 49 parked_db cid) \<and> ct_id t \<noteq> 7 \<and> \<not> shares_model parked_db 7 t)"
proof -
  have count: "find_cooldown parked_db 7 = Some \<lparr> cd_target_id = 7, cd_until = AtSecs 50, cd_reason = None, cd_failure_count = 1 \<rparr>"
    by (simp add: parked_db_def find_cooldown_def)
  have secs: "cooldown_secs Exponential 10 300 2 (Suc 0) = Some 20" by (simp add: exponential_secs)
  have ex: "\<exists>r \<in> set (db_targets parked_db). ct_id (tg_target r) = 7" by (simp add: parked_db_def two_targets_db_def)
  show ?thesis
    using cooldown_parks_model [OF _ _ ex parked_db_records] unfolding parked_db_records
    by (simp add: count secs plain_add_def as_i64_def)
qed

theorem cooldown_escalates_witness:
  "\<exists>db' c. fail_cooldowns plain_add [0, 100, 200] two_targets_db 7 ''503'' Exponential 10 35 2 = Some db' \<and>
     find_cooldown db' 7 = Some c \<and> cd_until c = AtSecs 235 \<and> cd_failure_count c = 3"
proof -
  have ex: "\<exists>r \<in> set (db_targets two_targets_db). ct_id (tg_target r) = 7" by (simp add: two_targets_db_def)
  have none: "find_cooldown two_targets_db 7 = None" by (simp add: two_targets_db_def sample_db_def find_cooldown_def)
  have "\<exists>db'. fail_cooldowns plain_add [0, 100, 200] two_targets_db 7 ''503'' Exponential 10 35 2 = Some db'"
    by (simp add: record_cooldown_def cooldown_secs_def plain_add_def Let_def split: option.split)
  then obtain db' where db': "fail_cooldowns plain_add ([0, 100] @ [200]) two_targets_db 7 ''503'' Exponential 10 35 2 = Some db'" by auto
  from cooldown_escalates [OF _ _ ex none _ db'] db' show ?thesis by (auto simp: plain_add_def)
qed

theorem prune_expired_invisible_witness:
  "list_targets 60 (fst (prune_expired 55 parked_db)) 1 = list_targets 60 parked_db 1 \<and>
   find_cooldown (fst (prune_expired 55 parked_db)) 7 = None"
proof -
  have "distinct (map cd_target_id (db_cooldowns parked_db))" by (simp add: parked_db_def)
  from prune_expired_invisible [OF this, of 55 60 1] show ?thesis
    by (simp add: prune_expired_def parked_db_def find_cooldown_def time_over_def)
qed

end
