(* ===== verification/Credentials.thy ===== *)
theory Credentials
  imports Secrets Resolved_Targets Cooldowns
begin

text \<open>
  From targets to credentials (openproxy-pipeline/src/credentials.rs and the batch lookup
  \<open>resolve_combo_targets_full\<close> of execution.rs, with the account columns of
  openproxy-db/src/accounts/oauth.rs, the token deadline of openproxy-pipeline/src/oauth.rs and
  openproxy-adapters/src/jwt.rs): which targets of a combo can be called, with which key, and which
  are parked because they have no account. Base64, JSON and date parsing are fields of \<open>cred_env\<close>.
\<close>

record cred_env =
  ce_aead :: aead
  ce_b64 :: "string \<Rightarrow> string option"
  ce_b64_url_no_pad :: "string \<Rightarrow> string option"
  ce_b64_url :: "string \<Rightarrow> string option"
  ce_parse_json :: "string \<Rightarrow> json option"
  ce_parse_timestamp :: "string \<Rightarrow> int option"
  ce_from_timestamp :: "int \<Rightarrow> int option"
  ce_add_secs :: "int \<Rightarrow> int \<Rightarrow> int option"

section \<open>Provider tables\<close>

text \<open>
  What the built-in adapters declare of themselves: which need OAuth, how many seconds before its end
  a token is renewed, and which are open to requests without an account.
\<close>

definition requires_oauth :: "string \<Rightarrow> bool" where
  "requires_oauth p \<longleftrightarrow>
     p \<in> set [''antigravity'', ''claude-code'', ''cline'', ''codebuddy'', ''codex'', ''kiro'', ''zai'']"

definition oauth_refresh_lead_seconds :: "string \<Rightarrow> int option" where
  "oauth_refresh_lead_seconds p =
     (if p \<in> set [''antigravity'', ''claude-code'', ''cline'', ''codebuddy'', ''codex'', ''kiro'', ''minimax'']
      then Some 300 else None)"

definition is_anonymous_fallback :: "string \<Rightarrow> bool" where
  "is_anonymous_fallback p \<longleftrightarrow> p \<in> set [''embeddinggemma'', ''horde'', ''laya'', ''opencode-go'', ''opencode-zen'']"

section \<open>Token deadlines\<close>

definition payload_json :: "cred_env \<Rightarrow> string \<Rightarrow> json option" where
  "payload_json env token =
     (case split_char CHR ''.'' token of
        _ # payload # _ \<Rightarrow>
          (if payload = [] then None
           else
             Option.bind (case ce_b64_url_no_pad env payload of Some d \<Rightarrow> Some d | None \<Rightarrow> ce_b64_url env payload)
               (ce_parse_json env))
      | _ \<Rightarrow> None)"

definition claim_i64 :: "cred_env \<Rightarrow> string \<Rightarrow> string \<Rightarrow> int option" where
  "claim_i64 env token claim =
     Option.bind (payload_json env token) (\<lambda>payload.
     Option.bind (json_get payload claim) (\<lambda>v.
       case json_as_i64 v of Some i \<Rightarrow> Some i | None \<Rightarrow> Option.bind (json_as_str v) (\<lambda>s. parse_i64 (trim s))))"

definition exp_timestamp :: "cred_env \<Rightarrow> string \<Rightarrow> int option" where
  "exp_timestamp env token = Option.bind (claim_i64 env token ''exp'') (ce_from_timestamp env)"

definition pipeline_token_needs_refresh ::
    "cred_env \<Rightarrow> int \<Rightarrow> string option \<Rightarrow> string option \<Rightarrow> string \<Rightarrow> bool" where
  "pipeline_token_needs_refresh env now db_expires_at access_token provider_id =
     (case (case Option.bind db_expires_at (ce_parse_timestamp env) of
              Some t \<Rightarrow> Some t
            | None \<Rightarrow> Option.bind access_token (exp_timestamp env)) of
        None \<Rightarrow> False
      | Some expires_at \<Rightarrow>
          (let lead = (case oauth_refresh_lead_seconds provider_id of Some l \<Rightarrow> l | None \<Rightarrow> 900)
           in expires_at \<le> now + lead))"

section \<open>Account columns\<close>

record raw_account =
  ra_id :: account_id
  ra_api_key_encrypted :: "string option"
  ra_label :: "string option"
  ra_access_token_encrypted :: "string option"
  ra_refresh_token_encrypted :: "string option"
  ra_expires_at :: "string option"
  ra_oauth_provider_specific :: "string option"
  ra_extra_config_json :: "string option"

record kiro_meta =
  km_region :: "string option"
  km_profile_arn :: "string option"

text \<open>The columns of the tables \<open>accounts\<close> and \<open>providers\<close> that only credentials need.\<close>

record cred_store =
  cs_accounts :: "raw_account list"
  cs_auth_types :: "(string \<times> string) list"

definition json_field :: "json \<Rightarrow> string \<Rightarrow> string \<Rightarrow> json option" where
  "json_field v primary secondary =
     (case json_get v primary of Some x \<Rightarrow> Some x | None \<Rightarrow> json_get v secondary)"

definition extract_json_field :: "json \<Rightarrow> string \<Rightarrow> string \<Rightarrow> string option" where
  "extract_json_field v primary secondary = Option.bind (json_field v primary secondary) json_as_str"

definition extract_kiro_meta :: "cred_env \<Rightarrow> string option \<Rightarrow> kiro_meta option" where
  "extract_kiro_meta env extra_json =
     Option.bind extra_json (\<lambda>cfg. Option.bind (ce_parse_json env cfg) (\<lambda>v.
       let region = extract_json_field v ''region'' ''aws_region'';
           profile_arn = extract_json_field v ''profile_arn'' ''aws_role_arn''
       in if region \<noteq> None \<or> profile_arn \<noteq> None
          then Some \<lparr> km_region = region, km_profile_arn = profile_arn \<rparr> else None))"

text \<open>A batch query: the rows whose id is asked for.\<close>

definition account_rows :: "cred_store \<Rightarrow> account_id list \<Rightarrow> raw_account list" where
  "account_rows store ids = filter (\<lambda>r. ra_id r \<in> set ids) (cs_accounts store)"

definition find_raw :: "raw_account list \<Rightarrow> account_id \<Rightarrow> raw_account option" where
  "find_raw rows i = find (\<lambda>r. ra_id r = i) rows"

definition account_not_found_error :: "account_id \<Rightarrow> core_error" where
  "account_not_found_error i = Validation (''account '' @ show_int i @ '' not found'')"

definition get_accounts_meta ::
    "cred_env \<Rightarrow> cred_store \<Rightarrow> account_id list \<Rightarrow>
     core_error + (account_id \<Rightarrow> raw_account option) \<times> (account_id \<Rightarrow> kiro_meta option)" where
  "get_accounts_meta env store ids =
     (let rows = account_rows store ids
      in case find (\<lambda>i. find_raw rows i = None) ids of
           Some i \<Rightarrow> Inl (account_not_found_error i)
         | None \<Rightarrow>
             Inr (find_raw rows,
                  \<lambda>i. Option.bind (find_raw rows i) (\<lambda>r. extract_kiro_meta env (ra_extra_config_json r))))"

text \<open>
  \<open>AntigravityMeta\<close> as serde reads it: one optional field under either of two names, from an object
  or from a one-element array; \<open>None\<close> is a deserialisation error.
\<close>

definition optional_string :: "json \<Rightarrow> string option option" where
  "optional_string v = (case v of JNull \<Rightarrow> Some None | JStr s \<Rightarrow> Some (Some s) | _ \<Rightarrow> None)"

definition antigravity_meta :: "json \<Rightarrow> string option option" where
  "antigravity_meta v =
     (case v of
        JObj kvs \<Rightarrow>
          (case filter (\<lambda>(k, _). k = ''project_id'' \<or> k = ''projectId'') kvs of
             [] \<Rightarrow> Some None
           | [(_, x)] \<Rightarrow> optional_string x
           | _ \<Rightarrow> None)
      | JArr [x] \<Rightarrow> optional_string x
      | _ \<Rightarrow> None)"

definition read_project_batch ::
    "cred_env \<Rightarrow> raw_account list \<Rightarrow> (account_id \<times> string option) list option" where
  "read_project_batch env rows =
     those (map (\<lambda>(i, raw). map_option (Pair i) (Option.bind (ce_parse_json env raw) antigravity_meta))
       (List.map_filter (\<lambda>r. case ra_oauth_provider_specific r of
            None \<Rightarrow> None | Some raw \<Rightarrow> if raw = [] then None else Some (ra_id r, raw)) rows))"

definition get_antigravity_projects ::
    "cred_env \<Rightarrow> cred_store \<Rightarrow> account_id list \<Rightarrow> (account_id \<Rightarrow> string option) option" where
  "get_antigravity_projects env store ids =
     map_option (\<lambda>kvs i. Option.bind (map_of kvs i) id) (read_project_batch env (account_rows store ids))"

definition get_auth_types :: "cred_store \<Rightarrow> string list \<Rightarrow> string \<Rightarrow> string option" where
  "get_auth_types store ids p = (if p \<in> set ids then map_of (cs_auth_types store) p else None)"

definition decrypt_oauth_provider_specific :: "cred_env \<Rightarrow> master_key \<Rightarrow> string option \<Rightarrow> string option" where
  "decrypt_oauth_provider_specific env mk encrypted_b64 =
     (case encrypted_b64 of
        None \<Rightarrow> None
      | Some b64 \<Rightarrow>
          (case ce_b64 env b64 of
             None \<Rightarrow> Some b64
           | Some blob \<Rightarrow> (case decrypt (ce_aead env) mk blob of Inr d \<Rightarrow> Some d | Inl _ \<Rightarrow> Some b64)))"

section \<open>Resolving one target\<close>

record resolution_maps =
  rm_models :: "model_row_id \<Rightarrow> model_row option"
  rm_accounts :: "account_id \<Rightarrow> raw_account option"
  rm_kiro :: "account_id \<Rightarrow> kiro_meta option"
  rm_antigravity :: "account_id \<Rightarrow> string option"
  rm_providers :: "string \<Rightarrow> string option"

record provider_custom_fields =
  pf_kiro_region :: "string option"
  pf_kiro_profile_arn :: "string option"
  pf_antigravity_project :: "string option"
  pf_antigravity_metadata :: "string option"
  pf_codex_workspace_id :: "string option"
  pf_claude_account_uuid :: "string option"
  pf_claude_metadata :: "string option"
  pf_devin_device_seed :: "string option"

definition default_custom_fields :: provider_custom_fields where
  "default_custom_fields =
     \<lparr> pf_kiro_region = None, pf_kiro_profile_arn = None, pf_antigravity_project = None,
       pf_antigravity_metadata = None, pf_codex_workspace_id = None, pf_claude_account_uuid = None,
       pf_claude_metadata = None, pf_devin_device_seed = None \<rparr>"

definition antigravity_project_from_value :: "json \<Rightarrow> string option" where
  "antigravity_project_from_value v =
     Option.bind (Option.bind (json_get v ''project_id'') json_as_str) (\<lambda>pid.
       if trim pid = [] then None else Some (trim pid))"

text \<open>A non-empty string under either of two keys of the decrypted metadata.\<close>

definition metadata_field :: "cred_env \<Rightarrow> string option \<Rightarrow> string \<Rightarrow> string \<Rightarrow> string option" where
  "metadata_field env decrypted primary secondary =
     Option.bind (Option.bind decrypted (ce_parse_json env)) (\<lambda>meta.
     Option.bind (extract_json_field meta primary secondary) (\<lambda>s. if s = [] then None else Some s))"

definition extract_provider_custom_meta ::
    "cred_env \<Rightarrow> raw_account \<Rightarrow> string \<Rightarrow> account_id \<Rightarrow> resolution_maps \<Rightarrow> master_key \<Rightarrow> provider_custom_fields" where
  "extract_provider_custom_meta env raw provider_id account_id maps mk =
     (let decrypted = decrypt_oauth_provider_specific env mk (ra_oauth_provider_specific raw)
      in if provider_id = ''kiro'' then
           (let meta = rm_kiro maps account_id
            in default_custom_fields
                 \<lparr> pf_kiro_region := Option.bind meta km_region,
                   pf_kiro_profile_arn := Option.bind meta km_profile_arn \<rparr>)
         else if provider_id = ''antigravity'' then
           default_custom_fields
             \<lparr> pf_antigravity_project :=
                 (case rm_antigravity maps account_id of
                    Some p \<Rightarrow> Some p
                  | None \<Rightarrow> Option.bind (Option.bind decrypted (ce_parse_json env)) antigravity_project_from_value),
               pf_antigravity_metadata := decrypted \<rparr>
         else if provider_id = ''codex'' then
           default_custom_fields \<lparr> pf_codex_workspace_id := metadata_field env decrypted ''workspaceId'' ''workspace_id'' \<rparr>
         else if provider_id = ''claude-code'' \<or> provider_id = ''claude'' then
           default_custom_fields
             \<lparr> pf_claude_account_uuid := metadata_field env decrypted ''account_uuid'' ''accountUuid'',
               pf_claude_metadata := decrypted \<rparr>
         else if provider_id = ''devin'' then
           default_custom_fields \<lparr> pf_devin_device_seed := metadata_field env decrypted ''device_seed'' ''deviceSeed'' \<rparr>
         else default_custom_fields)"

definition decrypt_ok :: "cred_env \<Rightarrow> master_key \<Rightarrow> string \<Rightarrow> string option" where
  "decrypt_ok env mk blob = (case decrypt (ce_aead env) mk blob of Inr s \<Rightarrow> Some s | Inl _ \<Rightarrow> None)"

definition resolve_oauth_refresh ::
    "cred_env \<Rightarrow> int \<Rightarrow> raw_account \<Rightarrow> string option \<Rightarrow> string \<Rightarrow> master_key \<Rightarrow> bool \<Rightarrow> string option" where
  "resolve_oauth_refresh env now raw access_token provider_id mk has_registry =
     (if \<not> has_registry then None
      else if \<not> pipeline_token_needs_refresh env now (ra_expires_at raw) access_token provider_id then None
      else Option.bind (ra_refresh_token_encrypted raw) (decrypt_ok env mk))"

definition resolve_account_oauth_meta ::
    "cred_env \<Rightarrow> int \<Rightarrow> raw_account \<Rightarrow> combo_target \<Rightarrow> account_id \<Rightarrow> resolution_maps \<Rightarrow> master_key \<Rightarrow> bool \<Rightarrow>
     custom_provider_meta option" where
  "resolve_account_oauth_meta env now raw t account_id maps mk has_registry =
     Option.bind (Option.bind (ra_access_token_encrypted raw) (decrypt_ok env mk)) (\<lambda>access_token.
       let maybe_refresh = resolve_oauth_refresh env now raw (Some access_token) (ct_provider_id t) mk has_registry;
           fields = extract_provider_custom_meta env raw (ct_provider_id t) account_id maps mk
       in Some \<lparr> cm_access_token = access_token, cm_maybe_refresh = maybe_refresh,
            cm_kiro_region = pf_kiro_region fields, cm_kiro_profile_arn = pf_kiro_profile_arn fields,
            cm_antigravity_project = pf_antigravity_project fields,
            cm_antigravity_metadata = pf_antigravity_metadata fields,
            cm_codex_workspace_id = pf_codex_workspace_id fields,
            cm_claude_account_uuid = pf_claude_account_uuid fields,
            cm_claude_metadata = pf_claude_metadata fields,
            cm_devin_device_seed = pf_devin_device_seed fields \<rparr>)"

definition resolve_account_credentials ::
    "cred_env \<Rightarrow> int \<Rightarrow> combo_target \<Rightarrow> account_id \<Rightarrow> resolution_maps \<Rightarrow> master_key \<Rightarrow> bool \<Rightarrow>
     (string \<times> string option \<times> custom_provider_meta option) option" where
  "resolve_account_credentials env now t account_id maps mk has_registry =
     (case rm_accounts maps account_id of
        None \<Rightarrow> None
      | Some raw \<Rightarrow>
          (case (case ra_api_key_encrypted raw of
                   Some b \<Rightarrow> map_option (\<lambda>k. (k, True)) (decrypt_ok env mk b)
                 | None \<Rightarrow> Some ([], False)) of
             None \<Rightarrow> None
           | Some (key, has_api_key) \<Rightarrow>
               (let is_oauth = (ra_access_token_encrypted raw \<noteq> None \<or> requires_oauth (ct_provider_id t))
                in if \<not> has_api_key \<and> \<not> is_oauth then None
                   else if is_oauth then
                     (case resolve_account_oauth_meta env now raw t account_id maps mk has_registry of
                        None \<Rightarrow> None
                      | Some meta \<Rightarrow> Some (key, ra_label raw, Some meta))
                   else Some (key, ra_label raw, None))))"

definition resolve_target_model :: "combo_target \<Rightarrow> (model_row_id \<Rightarrow> model_row option) \<Rightarrow> model_row option" where
  "resolve_target_model t models =
     (case ct_model_row_id t of
        None \<Rightarrow> None
      | Some i \<Rightarrow> (case models i of Some m \<Rightarrow> if mo_active m then Some m else None | None \<Rightarrow> None))"

definition is_anonymous_target :: "combo_target \<Rightarrow> (string \<Rightarrow> string option) \<Rightarrow> bool" where
  "is_anonymous_target t providers \<longleftrightarrow>
     providers (ct_provider_id t) = Some ''none'' \<or> is_anonymous_fallback (ct_provider_id t)"

section \<open>Resolving the targets of a request\<close>

record rejected_target =
  rj_target :: combo_target
  rj_model :: model_row
  rj_combo_name :: string
  rj_reason :: string

definition format_missing_account_context ::
    "int \<Rightarrow> int \<Rightarrow> string \<Rightarrow> string \<Rightarrow> string \<Rightarrow> int \<Rightarrow> string" where
  "format_missing_account_context target_id combo_id combo_name provider model_id model_row_id =
     ''combo_target '' @ show_int target_id @ '' has no account_id after expansion (combo '' @ [CHR 0x27] @ combo_name @
     [CHR 0x27] @ '' ['' @ show_int combo_id @ ''], provider '' @ [CHR 0x27] @ provider @ [CHR 0x27] @ '', model '' @
     [CHR 0x27] @ model_id @ [CHR 0x27] @ '' [row_id '' @ show_int model_row_id @ ''])''"

datatype target_verdict = Usable resolved_target | Rejected rejected_target | Dropped

definition default_combo_name :: "combo_id \<Rightarrow> string" where
  "default_combo_name cid = ''combo_'' @ show_int cid"

definition target_verdict_of ::
    "cred_env \<Rightarrow> int \<Rightarrow> resolution_maps \<Rightarrow> master_key \<Rightarrow> bool \<Rightarrow> (combo_id, string) hmap \<Rightarrow>
     (combo_id, combo_target_id set) hmap \<Rightarrow> combo_target \<Rightarrow> target_verdict" where
  "target_verdict_of env now maps mk has_registry combo_names active_cooldowns t =
     (case resolve_target_model t (rm_models maps) of
        None \<Rightarrow> Dropped
      | Some model \<Rightarrow>
          (case ct_account_id t of
             Some account_id \<Rightarrow>
               (case resolve_account_credentials env now t account_id maps mk has_registry of
                  Some (api_key, label, custom_meta) \<Rightarrow>
                    Usable \<lparr> rt_target = t, rt_model = model, rt_api_key = api_key, rt_api_key_label = label,
                             rt_custom_meta = custom_meta \<rparr>
                | None \<Rightarrow> Dropped)
           | None \<Rightarrow>
               (if is_anonymous_target t (rm_providers maps) then
                  Usable \<lparr> rt_target = t, rt_model = model, rt_api_key = [], rt_api_key_label = None, rt_custom_meta = None \<rparr>
                else
                  (let is_already_cooled_down =
                         (case hm_get active_cooldowns (ct_combo_id t) of None \<Rightarrow> False | Some s \<Rightarrow> ct_id t \<in> s);
                       combo_name = (case hm_get combo_names (ct_combo_id t) of
                           Some n \<Rightarrow> n | None \<Rightarrow> default_combo_name (ct_combo_id t))
                   in if is_already_cooled_down then Dropped
                      else Rejected \<lparr> rj_target = t, rj_model = model, rj_combo_name = combo_name,
                             rj_reason = format_missing_account_context (ct_id t) (ct_combo_id t) combo_name
                               (ct_provider_id t) (mo_model_id model) (mo_id model) \<rparr>))))"

fun usable_of :: "target_verdict \<Rightarrow> resolved_target option" where
  "usable_of (Usable r) = Some r"
| "usable_of _ = None"

fun rejected_of :: "target_verdict \<Rightarrow> rejected_target option" where
  "rejected_of (Rejected r) = Some r"
| "rejected_of _ = None"

definition resolve_credentials_with_rejects ::
    "cred_env \<Rightarrow> int \<Rightarrow> combo_target list \<Rightarrow> resolution_maps \<Rightarrow> master_key \<Rightarrow> bool \<Rightarrow> (combo_id, string) hmap \<Rightarrow>
     (combo_id, combo_target_id set) hmap \<Rightarrow> resolved_target list \<times> rejected_target list" where
  "resolve_credentials_with_rejects env now eligible maps mk has_registry combo_names active_cooldowns =
     (let verdicts = map (target_verdict_of env now maps mk has_registry combo_names active_cooldowns) eligible
      in (List.map_filter usable_of verdicts, List.map_filter rejected_of verdicts))"

record target_id_collections =
  tc_model_row_ids :: "model_row_id list"
  tc_account_ids :: "account_id list"
  tc_provider_ids_no_account :: "string list"

text \<open>The three id lists are only used as sets of keys; sorting and deduplication keep the set.\<close>

definition collect_and_dedup_target_ids :: "combo_target list \<Rightarrow> target_id_collections" where
  "collect_and_dedup_target_ids eligible =
     \<lparr> tc_model_row_ids = remdups (sort (List.map_filter ct_model_row_id eligible)),
       tc_account_ids = remdups (sort (List.map_filter ct_account_id eligible)),
       tc_provider_ids_no_account = remdups (map ct_provider_id (filter (\<lambda>t. ct_account_id t = None) eligible)) \<rparr>"

record combo_meta =
  cmm_combo :: "combo option"
  cmm_name :: string
  cmm_active_cooldowns :: "combo_target_id set option"
  cmm_metadata_error :: bool

text \<open>
  The two reads may fail; a failure is remembered and stops every later write for the combo.
\<close>

definition combo_meta_of ::
    "(combo_id \<Rightarrow> core_error + combo option) \<Rightarrow> (combo_id \<Rightarrow> core_error + combo_target_id set) \<Rightarrow> combo_id \<Rightarrow> combo_meta" where
  "combo_meta_of load_combo active cid =
     (let combo = (case load_combo cid of Inr c \<Rightarrow> c | Inl _ \<Rightarrow> None)
      in \<lparr> cmm_combo = combo,
           cmm_name = (case combo of Some c \<Rightarrow> cb_name c | None \<Rightarrow> default_combo_name cid),
           cmm_active_cooldowns = (case active cid of Inr s \<Rightarrow> Some s | Inl _ \<Rightarrow> None),
           cmm_metadata_error = (case load_combo cid of Inr _ \<Rightarrow> False | Inl _ \<Rightarrow> True) \<rparr>)"

definition load_candidate_combos ::
    "(combo_id \<Rightarrow> core_error + combo option) \<Rightarrow> (combo_id \<Rightarrow> core_error + combo_target_id set) \<Rightarrow>
     combo_target list \<Rightarrow> (string \<Rightarrow> string option) \<Rightarrow> (combo_id, combo_meta) hmap" where
  "load_candidate_combos load_combo active eligible providers =
     fold (\<lambda>t cache.
        if ct_account_id t = None \<and> \<not> is_anonymous_target t providers
        then (case hm_get cache (ct_combo_id t) of
                Some _ \<Rightarrow> cache
              | None \<Rightarrow> hm_put (ct_combo_id t) (combo_meta_of load_combo active (ct_combo_id t)) cache)
        else cache) eligible []"

record cooldown_defaults =
  cdf_cooldown_secs :: nat
  cdf_cooldown_max_secs :: nat
  cdf_cooldown_factor :: nat

definition or_default :: "'a option \<Rightarrow> 'a option \<Rightarrow> 'a \<Rightarrow> 'a" where
  "or_default a b d = (case a of Some x \<Rightarrow> x | None \<Rightarrow> (case b of Some x \<Rightarrow> x | None \<Rightarrow> d))"

definition effective_mode :: "combo_target \<Rightarrow> combo option \<Rightarrow> cooldown_mode" where
  "effective_mode t combo = or_default (ct_cooldown_mode t) (map_option cb_cooldown_mode combo) Flat"

definition effective_base :: "cooldown_defaults \<Rightarrow> combo_target \<Rightarrow> combo option \<Rightarrow> nat" where
  "effective_base d t combo = or_default (ct_cooldown_base_secs t) (Option.bind combo cb_cooldown_base_secs) (cdf_cooldown_secs d)"

definition effective_max :: "cooldown_defaults \<Rightarrow> combo_target \<Rightarrow> combo option \<Rightarrow> nat" where
  "effective_max d t combo = or_default (ct_cooldown_max_secs t) (Option.bind combo cb_cooldown_max_secs) (cdf_cooldown_max_secs d)"

definition effective_factor :: "cooldown_defaults \<Rightarrow> combo_target \<Rightarrow> combo option \<Rightarrow> nat" where
  "effective_factor d t combo = or_default (ct_cooldown_factor t) (Option.bind combo cb_cooldown_factor) (cdf_cooldown_factor d)"

fun record_missing_account_cooldowns ::
    "cred_env \<Rightarrow> int \<Rightarrow> database \<Rightarrow> rejected_target list \<Rightarrow> (combo_id, combo_meta) hmap \<Rightarrow> cooldown_defaults \<Rightarrow> database option" where
  "record_missing_account_cooldowns env now db [] cache d = Some db"
| "record_missing_account_cooldowns env now db (rej # rejs) cache d =
     (let t = rj_target rej
      in case hm_get cache (ct_combo_id t) of
           None \<Rightarrow> record_missing_account_cooldowns env now db rejs cache d
         | Some meta \<Rightarrow>
             (let combo = cmm_combo meta; mode = effective_mode t combo; base_secs = effective_base d t combo
              in if cmm_metadata_error meta then record_missing_account_cooldowns env now db rejs cache d
                 else if mode = NoCooldown \<or> base_secs = 0 then record_missing_account_cooldowns env now db rejs cache d
                 else case cmm_active_cooldowns meta of
                        None \<Rightarrow> record_missing_account_cooldowns env now db rejs cache d
                      | Some active_set \<Rightarrow>
                          (if ct_id t \<in> active_set then record_missing_account_cooldowns env now db rejs cache d
                           else case record_cooldown (ce_add_secs env) now db (ct_id t) (rj_reason rej) mode base_secs
                                       (effective_max d t combo) (effective_factor d t combo) of
                                  None \<Rightarrow> None
                                | Some db' \<Rightarrow>
                                    record_missing_account_cooldowns env now db' rejs
                                      (hm_put (ct_combo_id t)
                                        (meta \<lparr> cmm_active_cooldowns := Some (insert (ct_id t) active_set) \<rparr>) cache) d)))"

definition resolution_maps_for :: "cred_env \<Rightarrow> database \<Rightarrow> cred_store \<Rightarrow> combo_target list \<Rightarrow> resolution_maps" where
  "resolution_maps_for env db store eligible =
     (let ids = collect_and_dedup_target_ids eligible;
          metas = (case get_accounts_meta env store (tc_account_ids ids) of Inr m \<Rightarrow> m | Inl _ \<Rightarrow> (\<lambda>_. None, \<lambda>_. None))
      in \<lparr> rm_models = (\<lambda>i. if i \<in> set (tc_model_row_ids ids) then find_model db i else None),
           rm_accounts = fst metas, rm_kiro = snd metas,
           rm_antigravity = (case get_antigravity_projects env store (tc_account_ids ids) of Some m \<Rightarrow> m | None \<Rightarrow> (\<lambda>_. None)),
           rm_providers = get_auth_types store (tc_provider_ids_no_account ids) \<rparr>)"

text \<open>
  The caller gives the two reads of the combo tables; the result is \<open>None\<close> when a cooldown deadline is
  out of range and the process stops.
\<close>

definition resolve_combo_targets_full ::
    "cred_env \<Rightarrow> int \<Rightarrow> database \<Rightarrow> cred_store \<Rightarrow> master_key \<Rightarrow> bool \<Rightarrow> cooldown_defaults \<Rightarrow>
     (combo_id \<Rightarrow> core_error + combo option) \<Rightarrow> (combo_id \<Rightarrow> core_error + combo_target_id set) \<Rightarrow>
     combo_target list \<Rightarrow> (resolved_target list \<times> database) option" where
  "resolve_combo_targets_full env now db store mk has_registry d load_combo active eligible =
     (if eligible = [] then Some ([], db)
      else
        (let maps = resolution_maps_for env db store eligible;
             cache = load_candidate_combos load_combo active eligible (rm_providers maps);
             names = map (\<lambda>(c, meta). (c, cmm_name meta)) cache;
             cooldowns = List.map_filter (\<lambda>(c, meta). map_option (Pair c) (cmm_active_cooldowns meta)) cache;
             (resolved, rejected) = resolve_credentials_with_rejects env now eligible maps mk has_registry names cooldowns
         in map_option (Pair resolved) (record_missing_account_cooldowns env now db rejected cache d)))"

section \<open>What is resolved\<close>

text \<open>
  A target can be called when its model is active and it has a key: an anonymous provider without an
  account, or an account whose stored key, if any, decrypts, and whose access token decrypts when
  the account has one or the provider demands one; one of the two must be there.
\<close>

definition decrypts :: "cred_env \<Rightarrow> master_key \<Rightarrow> string option \<Rightarrow> bool" where
  "decrypts env mk b \<longleftrightarrow> (case b of None \<Rightarrow> False | Some blob \<Rightarrow> \<exists>s. decrypt (ce_aead env) mk blob = Inr s)"

definition account_callable :: "cred_env \<Rightarrow> master_key \<Rightarrow> string \<Rightarrow> raw_account \<Rightarrow> bool" where
  "account_callable env mk provider raw \<longleftrightarrow>
     (ra_api_key_encrypted raw = None \<or> decrypts env mk (ra_api_key_encrypted raw)) \<and>
     (if ra_access_token_encrypted raw \<noteq> None \<or> requires_oauth provider
      then decrypts env mk (ra_access_token_encrypted raw) else ra_api_key_encrypted raw \<noteq> None)"

definition target_callable :: "cred_env \<Rightarrow> resolution_maps \<Rightarrow> master_key \<Rightarrow> combo_target \<Rightarrow> bool" where
  "target_callable env maps mk t \<longleftrightarrow>
     (\<exists>m i. ct_model_row_id t = Some i \<and> rm_models maps i = Some m \<and> mo_active m) \<and>
     (case ct_account_id t of
        None \<Rightarrow> is_anonymous_target t (rm_providers maps)
      | Some a \<Rightarrow> (\<exists>raw. rm_accounts maps a = Some raw \<and> account_callable env mk (ct_provider_id t) raw))"

lemma decrypt_ok_iff: "(\<exists>s. decrypt_ok env mk b = Some s) \<longleftrightarrow> (\<exists>s. decrypt (ce_aead env) mk b = Inr s)"
  by (simp add: decrypt_ok_def split: sum.split)

lemma resolve_account_credentials_iff:
  "resolve_account_credentials env now t a maps mk reg \<noteq> None \<longleftrightarrow>
     (\<exists>raw. rm_accounts maps a = Some raw \<and> account_callable env mk (ct_provider_id t) raw)"
  by (cases "rm_accounts maps a")
    (auto simp: resolve_account_credentials_def account_callable_def decrypts_def resolve_account_oauth_meta_def
      decrypt_ok_def Let_def split: option.splits sum.splits)

lemma usable_target: "usable_of (target_verdict_of env now maps mk reg names cds t) = Some r \<Longrightarrow> rt_target r = t"
  by (auto simp: target_verdict_of_def Let_def split: option.splits if_splits)

lemma usable_iff: "usable_of (target_verdict_of env now maps mk reg names cds t) \<noteq> None \<longleftrightarrow> target_callable env maps mk t"
proof (cases "resolve_target_model t (rm_models maps)")
  case None
  then show ?thesis
    by (auto simp: target_verdict_of_def target_callable_def resolve_target_model_def split: option.splits if_splits)
next
  case (Some m)
  then have m: "\<exists>m i. ct_model_row_id t = Some i \<and> rm_models maps i = Some m \<and> mo_active m"
    by (auto simp: resolve_target_model_def split: option.splits if_splits)
  show ?thesis
  proof (cases "ct_account_id t")
    case None
    then show ?thesis using Some m by (simp add: target_verdict_of_def target_callable_def Let_def)
  next
    case (Some a)
    have "usable_of (target_verdict_of env now maps mk reg names cds t) \<noteq> None \<longleftrightarrow>
        resolve_account_credentials env now t a maps mk reg \<noteq> None"
      using Some \<open>resolve_target_model t (rm_models maps) = Some m\<close>
      by (auto simp: target_verdict_of_def split: option.split)
    then show ?thesis using Some m resolve_account_credentials_iff by (simp add: target_callable_def)
  qed
qed

lemma map_filter_targets:
  assumes "\<And>t r. f t = Some r \<Longrightarrow> g r = t"
  shows "map g (List.map_filter f ts) = filter (\<lambda>t. f t \<noteq> None) ts"
  using assms by (induction ts) (auto simp: map_filter_simps split: option.split)

lemma resolved_targets_exact:
  "map rt_target (fst (resolve_credentials_with_rejects env now ts maps mk reg names cds)) = filter (target_callable env maps mk) ts"
proof -
  have "List.map_filter usable_of (map v ts) = List.map_filter (usable_of \<circ> v) ts" for v :: "combo_target \<Rightarrow> target_verdict"
    by (induction ts) (simp_all add: map_filter_simps split: option.split)
  moreover have "map rt_target (List.map_filter (usable_of \<circ> target_verdict_of env now maps mk reg names cds) ts) =
      filter (\<lambda>t. (usable_of \<circ> target_verdict_of env now maps mk reg names cds) t \<noteq> None) ts"
    by (rule map_filter_targets) (simp add: usable_target)
  ultimately show ?thesis using usable_iff by (simp add: resolve_credentials_with_rejects_def)
qed

text \<open>The maps of a batch are the tables themselves, unless one account of the batch is not stored.\<close>

definition table_maps :: "cred_env \<Rightarrow> database \<Rightarrow> cred_store \<Rightarrow> resolution_maps" where
  "table_maps env db store =
     \<lparr> rm_models = find_model db, rm_accounts = find_raw (cs_accounts store),
       rm_kiro = (\<lambda>i. Option.bind (find_raw (cs_accounts store) i) (\<lambda>r. extract_kiro_meta env (ra_extra_config_json r))),
       rm_antigravity = (\<lambda>_. None), rm_providers = map_of (cs_auth_types store) \<rparr>"

lemma find_raw_rows: "i \<in> set ids \<Longrightarrow> find_raw (account_rows store ids) i = find_raw (cs_accounts store) i"
proof -
  have "find P (filter Q xs) = find (\<lambda>x. Q x \<and> P x) xs" for P Q and xs :: "raw_account list"
    by (induction xs) auto
  moreover assume "i \<in> set ids"
  ultimately show ?thesis unfolding find_raw_def account_rows_def by (auto intro: arg_cong [where f = "\<lambda>P. find P _"])
qed

lemma set_collected:
  "set (tc_model_row_ids (collect_and_dedup_target_ids ts)) = {i. \<exists>t \<in> set ts. ct_model_row_id t = Some i}"
  "set (tc_account_ids (collect_and_dedup_target_ids ts)) = {i. \<exists>t \<in> set ts. ct_account_id t = Some i}"
  "set (tc_provider_ids_no_account (collect_and_dedup_target_ids ts)) = {p. \<exists>t \<in> set ts. ct_account_id t = None \<and> ct_provider_id t = p}"
  by (auto simp: collect_and_dedup_target_ids_def set_map_filter)

definition accounts_stored :: "cred_store \<Rightarrow> combo_target list \<Rightarrow> bool" where
  "accounts_stored store ts \<longleftrightarrow> (\<forall>t \<in> set ts. \<forall>a. ct_account_id t = Some a \<longrightarrow> find_raw (cs_accounts store) a \<noteq> None)"

lemma batch_accounts:
  assumes "t \<in> set ts" and "ct_account_id t = Some a"
  shows "rm_accounts (resolution_maps_for env db store ts) a =
     (if accounts_stored store ts then find_raw (cs_accounts store) a else None)"
proof -
  let ?ids = "tc_account_ids (collect_and_dedup_target_ids ts)"
  have a: "a \<in> set ?ids" using assms by (auto simp: set_collected)
  have "find (\<lambda>i. find_raw (account_rows store ?ids) i = None) ?ids = None \<longleftrightarrow> accounts_stored store ts"
  proof -
    have "find (\<lambda>i. find_raw (account_rows store ?ids) i = None) ?ids = None \<longleftrightarrow>
        (\<forall>i \<in> set ?ids. find_raw (cs_accounts store) i \<noteq> None)"
      unfolding find_None_iff by (auto simp: find_raw_rows)
    also have "\<dots> \<longleftrightarrow> accounts_stored store ts" unfolding accounts_stored_def set_collected(2) by blast
    finally show ?thesis .
  qed
  then show ?thesis
    using find_raw_rows [OF a]
    unfolding resolution_maps_for_def get_accounts_meta_def Let_def
    by (cases "find (\<lambda>i. find_raw (account_rows store ?ids) i = None) ?ids") simp_all
qed

lemma batch_callable:
  assumes "t \<in> set ts"
  shows "target_callable env (resolution_maps_for env db store ts) mk t \<longleftrightarrow>
     target_callable env (table_maps env db store) mk t \<and> (ct_account_id t = None \<or> accounts_stored store ts)"
proof -
  have "rm_models (resolution_maps_for env db store ts) i = find_model db i" if "ct_model_row_id t = Some i" for i
    using assms that by (auto simp: resolution_maps_for_def Let_def set_collected)
  then have models: "(\<exists>m i. ct_model_row_id t = Some i \<and> rm_models (resolution_maps_for env db store ts) i = Some m \<and> mo_active m) \<longleftrightarrow>
      (\<exists>m i. ct_model_row_id t = Some i \<and> rm_models (table_maps env db store) i = Some m \<and> mo_active m)"
    unfolding table_maps_def by (metis (no_types, lifting) resolution_maps.select_convs(1))
  have anon: "is_anonymous_target t (rm_providers (resolution_maps_for env db store ts)) =
      is_anonymous_target t (rm_providers (table_maps env db store))" if "ct_account_id t = None"
    using assms that by (auto simp: is_anonymous_target_def resolution_maps_for_def table_maps_def Let_def get_auth_types_def set_collected)
  show ?thesis
  proof (cases "ct_account_id t")
    case None
    then show ?thesis unfolding target_callable_def models by (simp add: anon)
  next
    case (Some a)
    have "rm_accounts (table_maps env db store) a = find_raw (cs_accounts store) a" by (simp add: table_maps_def)
    then show ?thesis using Some batch_accounts [OF assms Some] unfolding target_callable_def models by simp
  qed
qed

text \<open>
  credential resolution keeps exactly the callable targets, in order. When every account the
  targets name is stored, what is handed on are the targets whose model is active and whose key is
  there and decrypts under the master key, or whose provider is open to anonymous requests.
\<close>

theorem credential_resolution_exact:
  assumes "accounts_stored store ts"
    and "resolve_combo_targets_full env now db store mk reg d load_combo active ts = Some (resolved, db')"
  shows "map rt_target resolved = filter (target_callable env (table_maps env db store) mk) ts"
proof (cases "ts = []")
  case True
  with assms(2) show ?thesis by (simp add: resolve_combo_targets_full_def)
next
  case False
  with assms(2) have "\<exists>names cds. resolved = fst (resolve_credentials_with_rejects env now ts (resolution_maps_for env db store ts) mk reg names cds)"
    by (auto simp: resolve_combo_targets_full_def Let_def split: prod.splits option.splits) (metis fst_conv)
  then have "map rt_target resolved = filter (target_callable env (resolution_maps_for env db store ts) mk) ts"
    using resolved_targets_exact by auto
  also have "\<dots> = filter (target_callable env (table_maps env db store) mk) ts"
    using assms(1) by (intro filter_cong refl) (simp add: batch_callable)
  finally show ?thesis .
qed

text \<open>
  The accounts of a batch are read in one query that fails as a whole when one of them is not stored,
  and the failure is taken for an empty result: then every target that has an account is lost.
\<close>

lemma missing_account_drops_all:
  assumes "\<not> accounts_stored store ts"
    and "resolve_combo_targets_full env now db store mk reg d load_combo active ts = Some (resolved, db')"
    and "r \<in> set resolved"
  shows "ct_account_id (rt_target r) = None"
proof -
  have "ts \<noteq> []" using assms(1) by (auto simp: accounts_stored_def)
  with assms(2) have "\<exists>names cds. resolved = fst (resolve_credentials_with_rejects env now ts (resolution_maps_for env db store ts) mk reg names cds)"
    by (auto simp: resolve_combo_targets_full_def Let_def split: prod.splits option.splits) (metis fst_conv)
  then have "rt_target r \<in> set (filter (target_callable env (resolution_maps_for env db store ts) mk) ts)"
    using assms(3) resolved_targets_exact by (metis image_eqI list.set_map)
  then show ?thesis using assms(1) batch_callable by auto
qed

lemma resolve_full_no_rejects:
  assumes "\<And>maps names cds. snd (resolve_credentials_with_rejects env now ts maps mk reg names cds) = []"
  shows "\<exists>resolved. resolve_combo_targets_full env now db store mk reg d load_combo active ts = Some (resolved, db)"
  by (simp add: resolve_combo_targets_full_def Let_def case_prod_beta assms)

section \<open>A concrete batch\<close>

definition demo_key :: master_key where
  "demo_key = \<lparr> mk_current = replicate 32 CHR ''a'', mk_previous = None \<rparr>"

definition demo_env :: cred_env where
  "demo_env = \<lparr> ce_aead = clear_aead, ce_b64 = (\<lambda>_. None), ce_b64_url_no_pad = (\<lambda>_. None), ce_b64_url = (\<lambda>_. None),
     ce_parse_json = (\<lambda>_. None), ce_parse_timestamp = (\<lambda>_. None), ce_from_timestamp = Some, ce_add_secs = plain_add \<rparr>"

definition demo_store :: cred_store where
  "demo_store = \<lparr> cs_accounts = [\<lparr> ra_id = 1, ra_api_key_encrypted = Some (replicate 12 CHR ''n'' @ ''k'' @ replicate 16 CHR ''a''),
       ra_label = None, ra_access_token_encrypted = None, ra_refresh_token_encrypted = None, ra_expires_at = None,
       ra_oauth_provider_specific = None, ra_extra_config_json = None \<rparr>], cs_auth_types = [] \<rparr>"

definition demo_target :: combo_target where
  "demo_target = default_combo_target \<lparr> ct_provider_id := ''p'', ct_account_id := Some 1, ct_model_row_id := Some 5 \<rparr>"

definition demo_cred_db :: database where
  "demo_cred_db = sample_db \<lparr> db_models := [default_model \<lparr> mo_id := 5, mo_active := True \<rparr>] \<rparr>"

theorem credential_resolution_exact_witness:
  "\<exists>resolved db'. resolve_combo_targets_full demo_env 0 demo_cred_db demo_store demo_key False
       \<lparr> cdf_cooldown_secs = 30, cdf_cooldown_max_secs = 300, cdf_cooldown_factor = 2 \<rparr> (\<lambda>_. Inr None) (\<lambda>_. Inr {})
       [demo_target, demo_target \<lparr> ct_model_row_id := Some 6 \<rparr>] = Some (resolved, db') \<and>
     map rt_target resolved = [demo_target]"
proof -
  let ?ts = "[demo_target, demo_target \<lparr> ct_model_row_id := Some 6 \<rparr>]"
  have stored: "accounts_stored demo_store ?ts"
    by (simp add: accounts_stored_def demo_target_def demo_store_def find_raw_def)
  have acc: "ct_account_id t \<noteq> None" if "t \<in> set ?ts" for t using that by (auto simp: demo_target_def)
  have "rejected_of (target_verdict_of demo_env 0 maps demo_key False names cds t) = None" if "t \<in> set ?ts" for maps names cds t
    using acc [OF that] by (auto simp: target_verdict_of_def split: option.splits)
  then have none: "snd (resolve_credentials_with_rejects demo_env 0 ?ts maps demo_key False names cds) = []" for maps names cds
    by (simp add: resolve_credentials_with_rejects_def map_filter_simps)
  obtain resolved db' where run: "resolve_combo_targets_full demo_env 0 demo_cred_db demo_store demo_key False
      \<lparr> cdf_cooldown_secs = 30, cdf_cooldown_max_secs = 300, cdf_cooldown_factor = 2 \<rparr> (\<lambda>_. Inr None) (\<lambda>_. Inr {}) ?ts = Some (resolved, db')"
    using resolve_full_no_rejects [of demo_env 0 ?ts demo_key False demo_cred_db demo_store
        "\<lparr> cdf_cooldown_secs = 30, cdf_cooldown_max_secs = 300, cdf_cooldown_factor = 2 \<rparr>" "\<lambda>_. Inr None" "\<lambda>_. Inr {}", OF none] by blast
  have dec: "decrypt clear_aead demo_key (replicate 12 CHR ''n'' @ ''k'' @ replicate 16 CHR ''a'') = Inr ''k''" by code_simp
  have "target_callable demo_env (table_maps demo_env demo_cred_db demo_store) demo_key demo_target"
    using dec by (auto simp: target_callable_def demo_target_def table_maps_def demo_cred_db_def find_model_def find_raw_def demo_store_def
        account_callable_def decrypts_def demo_env_def requires_oauth_def)
  moreover have "\<not> target_callable demo_env (table_maps demo_env demo_cred_db demo_store) demo_key (demo_target \<lparr> ct_model_row_id := Some 6 \<rparr>)"
    by (simp add: target_callable_def demo_target_def table_maps_def demo_cred_db_def find_model_def)
  ultimately show ?thesis using credential_resolution_exact [OF stored run] run by simp
qed

end
