(* ===== verification/Retry_Policy.thy ===== *)
theory Retry_Policy
  imports Error_Policy
begin

text \<open>
  The retry policy (openproxy-pipeline/src/retry.rs) and the retry decision and delay of one target
  (stages/executor/retry.rs). Durations are milliseconds; the jitter drawn from the \<open>rand\<close> crate is
  an argument, within the range the code asks for.
\<close>

section \<open>Policy\<close>

record retry_policy =
  rp_max_attempts :: nat
  rp_backoff_base :: nat
  rp_backoff_factor :: nat
  rp_backoff_jitter_pct :: nat
  rp_idle_chunk_retryable :: bool

record retries_config =
  rc_max_attempts :: nat
  rc_backoff_base_ms :: nat
  rc_backoff_factor :: nat
  rc_backoff_jitter_pct :: nat
  rc_idle_chunk_retryable :: bool
  rc_combo_max_attempts :: nat

definition retry_policy_from_config :: "retries_config \<Rightarrow> retry_policy" where
  "retry_policy_from_config c =
     \<lparr> rp_max_attempts = rc_max_attempts c, rp_backoff_base = rc_backoff_base_ms c,
       rp_backoff_factor = rc_backoff_factor c, rp_backoff_jitter_pct = rc_backoff_jitter_pct c,
       rp_idle_chunk_retryable = rc_idle_chunk_retryable c \<rparr>"

text \<open>\<open>attempt - 1\<close> on a \<open>u8\<close> wraps: attempt 0 has exponent 255.\<close>

definition backoff_base_ms :: "retry_policy \<Rightarrow> nat \<Rightarrow> nat" where
  "backoff_base_ms p attempt =
     saturating_mul U64_MAX (rp_backoff_base p)
       (saturating_pow U64_MAX (rp_backoff_factor p) (wrapping_add U8_MAX attempt 255))"

definition jitter_amp :: "retry_policy \<Rightarrow> nat \<Rightarrow> nat" where
  "jitter_amp p attempt =
     saturating_mul U64_MAX (backoff_base_ms p attempt) (rp_backoff_jitter_pct p) div 100"

definition delay_after_attempt :: "retry_policy \<Rightarrow> nat \<Rightarrow> int \<Rightarrow> nat option" where
  "delay_after_attempt p attempt jitter =
     (if attempt \<ge> rp_max_attempts p then None
      else Some (nat (max (i64_saturating_add (as_i64 (backoff_base_ms p attempt)) jitter) 0)))"

definition jitter_in_range :: "retry_policy \<Rightarrow> nat \<Rightarrow> int \<Rightarrow> bool" where
  "jitter_in_range p attempt j \<longleftrightarrow>
     - as_i64 (jitter_amp p attempt) \<le> j \<and> j \<le> as_i64 (jitter_amp p attempt)"

definition is_timeout_retryable :: "string \<Rightarrow> bool \<Rightarrow> bool" where
  "is_timeout_retryable phase idle_chunk_retryable =
     (if phase = ''idle_chunk'' then idle_chunk_retryable else True)"

definition is_retryable :: "core_error \<Rightarrow> bool \<Rightarrow> bool" where
  "is_retryable err idle_chunk_retryable =
     (case err of
        UpstreamError status provider _ _ _ _ skip \<Rightarrow>
          (if provider = ''zai'' then False
           else if skip then False
           else status \<noteq> 429 \<and> status \<noteq> 400)
      | UpstreamTimeout phase _ \<Rightarrow> is_timeout_retryable phase idle_chunk_retryable
      | UpstreamConnection msg \<Rightarrow>
          \<not> starts_with (display_upstream_connection msg) ''client disconnected''
      | RateLimited _ _ rotated \<Rightarrow> rotated
      | Cancelled _ \<Rightarrow> False
      | RaceLost \<Rightarrow> False
      | _ \<Rightarrow> True)"

section \<open>Decision for one target\<close>

definition retry_max_attempts :: "core_error \<Rightarrow> retry_policy \<Rightarrow> nat" where
  "retry_max_attempts err p =
     (if is_proxy_rotated err then max (rp_max_attempts p) 150 else rp_max_attempts p)"

definition should_retry_target :: "core_error \<Rightarrow> nat \<Rightarrow> retry_policy \<Rightarrow> bool \<Rightarrow> bool" where
  "should_retry_target err retry_count p idle_chunk_retryable =
     (if \<not> is_retryable err idle_chunk_retryable then False
      else retry_count < retry_max_attempts err p)"

definition resolve_base_retry_delay :: "retry_policy \<Rightarrow> nat \<Rightarrow> bool \<Rightarrow> int \<Rightarrow> nat option" where
  "resolve_base_retry_delay p retry_count rotated jitter =
     (case delay_after_attempt p retry_count jitter of
        Some d \<Rightarrow> Some d
      | None \<Rightarrow> (if rotated then Some 0 else None))"

definition calculate_upstream_delay :: "core_error \<Rightarrow> nat \<Rightarrow> nat" where
  "calculate_upstream_delay err base_delay =
     (case err of
        RateLimited _ retry_after_ms rotated \<Rightarrow>
          (if rotated then 0 else max retry_after_ms base_delay)
      | UpstreamError status _ _ _ rotated _ _ \<Rightarrow>
          (if status = 429 \<and> rotated then 0 else base_delay)
      | _ \<Rightarrow> base_delay)"

definition compute_retry_delay :: "retry_policy \<Rightarrow> nat \<Rightarrow> core_error \<Rightarrow> int \<Rightarrow> nat option" where
  "compute_retry_delay p retry_count err jitter =
     map_option (calculate_upstream_delay err)
       (resolve_base_retry_delay p retry_count (is_proxy_rotated err) jitter)"

definition check_retry_delay :: "retry_policy \<Rightarrow> nat \<Rightarrow> core_error \<Rightarrow> int \<Rightarrow> nat option" where
  "check_retry_delay p retry_count err jitter =
     (case compute_retry_delay p retry_count err jitter of
        None \<Rightarrow> None
      | Some delay \<Rightarrow> (if delay div 1000 > 15 then None else Some delay))"

section \<open>Facts\<close>

lemma as_i64_small: "n \<le> 9223372036854775807 \<Longrightarrow> as_i64 n = int n"
  by (simp add: as_i64_def)

lemma jitter_amp_le: "jitter_amp p attempt \<le> U64_MAX div 100"
  unfolding jitter_amp_def by (rule div_le_mono) simp

text \<open>The range asked of the generator is never empty, so drawing from it never panics.\<close>

lemma jitter_range_nonempty: "jitter_in_range p attempt 0"
  using jitter_amp_le [of p attempt] by (simp add: jitter_in_range_def as_i64_def)

lemma should_retry_below_255:
  "rp_max_attempts p \<le> U8_MAX \<Longrightarrow> should_retry_target err n p b \<Longrightarrow> n < U8_MAX"
  by (auto simp: should_retry_target_def retry_max_attempts_def split: if_splits)

lemma check_retry_delay_cap: "check_retry_delay p n err j = Some d \<Longrightarrow> d < 16000"
  by (auto simp: check_retry_delay_def split: option.splits if_splits)

section \<open>Properties\<close>

text \<open>
  within the range of \<open>i64\<close> the backoff is exponential with bounded jitter: after attempt
  \<open>n\<close> the delay is \<open>base * factor ^ (n - 1)\<close> up or down by at most the configured percentage, and
  there is none once the attempts are used up.
\<close>

theorem backoff_exponential_with_jitter:
  assumes "1 \<le> n" and "n \<le> U8_MAX" and "jitter_in_range p n j" and "rp_backoff_jitter_pct p \<le> 100"
    and "rp_backoff_base p * rp_backoff_factor p ^ (n - 1) \<le> 90000000000000000"
    and "delay_after_attempt p n j = Some d"
  shows "n < rp_max_attempts p \<and>
     100 * \<bar>int d - int (rp_backoff_base p * rp_backoff_factor p ^ (n - 1))\<bar>
       \<le> int (rp_backoff_base p * rp_backoff_factor p ^ (n - 1) * rp_backoff_jitter_pct p)"
proof -
  let ?x = "rp_backoff_base p * rp_backoff_factor p ^ (n - 1)" and ?pct = "rp_backoff_jitter_pct p"
  have exp: "wrapping_add U8_MAX n 255 = n - 1"
  proof -
    obtain m where m: "n = Suc m" using assms(1) by (cases n) auto
    then have "m mod 256 = m" using assms(2) by (intro mod_less) simp
    then have "(m + 256) mod 256 = m" by simp
    then show ?thesis unfolding wrapping_add_def m by (simp add: add.commute)
  qed
  have base: "backoff_base_ms p n = ?x"
  proof (cases "rp_backoff_base p = 0")
    case True
    then show ?thesis by (simp add: backoff_base_ms_def int_ops)
  next
    case False
    then have "rp_backoff_factor p ^ (n - 1) \<le> ?x" by simp
    with assms(5) have "rp_backoff_factor p ^ (n - 1) \<le> U64_MAX" by linarith
    then show ?thesis using assms(5) by (simp add: backoff_base_ms_def exp saturating_pow_def saturating_mul_def)
  qed
  have "?x * ?pct \<le> 90000000000000000 * 100" by (rule mult_le_mono [OF assms(5,4)])
  then have amp: "jitter_amp p n = ?x * ?pct div 100"
    by (simp add: jitter_amp_def base saturating_mul_def)
  have amp_le: "?x * ?pct div 100 \<le> ?x"
  proof -
    have "?x * ?pct \<le> ?x * 100" using assms(4) by (rule mult_le_mono2)
    then have "?x * ?pct div 100 \<le> ?x * 100 div 100" by (rule div_le_mono)
    then show ?thesis by simp
  qed
  have i64: "as_i64 (backoff_base_ms p n) = int ?x" "as_i64 (jitter_amp p n) = int (?x * ?pct div 100)"
    unfolding base amp by (rule as_i64_small, use assms(5) amp_le in linarith)+
  then have j: "\<bar>j\<bar> \<le> int (?x * ?pct div 100)" using assms(3) unfolding jitter_in_range_def by linarith
  have lt: "n < rp_max_attempts p" and d0: "d = nat (max (i64_saturating_add (int ?x) j) 0)"
    using assms(6) unfolding delay_after_attempt_def i64 by (simp_all split: if_splits)
  have lo: "0 \<le> int ?x + j" and hi: "int ?x + j \<le> 2 * 90000000000000000"
    using j amp_le assms(5) by linarith+
  then have d: "int d = int ?x + j"
    unfolding d0 i64_saturating_add_def by (simp del: of_nat_mult of_nat_power)
  have "100 * (?x * ?pct div 100) \<le> ?x * ?pct" by (rule times_div_less_eq_dividend)
  then have "100 * \<bar>j\<bar> \<le> int (?x * ?pct)" using j by linarith
  with d lt show ?thesis by simp
qed

definition default_policy :: retry_policy where
  "default_policy = \<lparr> rp_max_attempts = 3, rp_backoff_base = 500, rp_backoff_factor = 2,
     rp_backoff_jitter_pct = 20, rp_idle_chunk_retryable = True \<rparr>"

theorem backoff_exponential_with_jitter_witness:
  "100 * \<bar>int 1100 - int 1000\<bar> \<le> int (1000 * 20) \<and> delay_after_attempt default_policy 2 100 = Some 1100"
proof -
  have base: "backoff_base_ms default_policy 2 = 1000"
    by (simp add: backoff_base_ms_def default_policy_def int_ops)
  have "delay_after_attempt default_policy 2 100 = Some 1100"
    unfolding delay_after_attempt_def base by (simp add: default_policy_def int_ops)
  moreover have "jitter_in_range default_policy 2 100"
    unfolding jitter_in_range_def jitter_amp_def base by (simp add: default_policy_def int_ops)
  ultimately show ?thesis
    using backoff_exponential_with_jitter [of 2 default_policy 100 1100]
    by (simp add: default_policy_def)
qed

text \<open>
  a backoff too large for \<open>i64\<close> collapses. When the product saturates, the cast to \<open>i64\<close> gives
  -1 and, without jitter, the delay is 0: the retry is immediate and passes the 15-second check.
\<close>

theorem saturated_backoff_collapses:
  assumes "backoff_base_ms p n = U64_MAX" and "n < rp_max_attempts p"
  shows "check_retry_delay p n (UpstreamConnection msg) 0 = Some 0"
  using assms
  by (simp add: check_retry_delay_def compute_retry_delay_def resolve_base_retry_delay_def
      delay_after_attempt_def calculate_upstream_delay_def int_ops)

theorem saturated_backoff_collapses_witness:
  "check_retry_delay (default_policy \<lparr> rp_max_attempts := 20, rp_backoff_factor := 255 \<rparr>) 10
     (UpstreamConnection ''reset'') 0 = Some 0"
proof (rule saturated_backoff_collapses)
  show "backoff_base_ms (default_policy \<lparr> rp_max_attempts := 20, rp_backoff_factor := 255 \<rparr>) 10 = U64_MAX"
    by (simp add: backoff_base_ms_def default_policy_def int_ops)
qed (simp add: default_policy_def)

text \<open>
  the exemption for client disconnects never applies. Every connection error is retryable, also
  one whose message says that the client disconnected, because the printed error starts with
  another prefix.
\<close>

theorem connection_errors_always_retryable:
  "is_retryable (UpstreamConnection msg) b"
  by (simp add: is_retryable_def display_upstream_connection_def starts_with_def)

definition no_retry_error :: "core_error \<Rightarrow> bool" where
  "no_retry_error err \<longleftrightarrow>
     is_hard_skip err \<or> err = RaceLost \<or> (\<exists>r. err = Cancelled r) \<or>
     (\<exists>p ms. err = RateLimited p ms False) \<or>
     (\<exists>st p m b r c s. err = UpstreamError st p m b r c s \<and> (st = 400 \<or> st = 429))"



end
