(* ===== verification/Executor.thy ===== *)
theory Executor
  imports Retry_Policy Session_Affinity
begin

text \<open>
  The executor stage (openproxy-pipeline/src/stages/executor.rs with executor/helpers.rs,
  executor/race.rs and executor/retry.rs): the initial race, the walk over the targets, and the
  retries of one target. What it calls outside this code (an upstream attempt, a race, the provider
  and proxy tables, the usage tracker, the clock, the client's disconnect channel) is the record
  \<open>exec_env\<close>; attempts may change the limiter and commit bytes to the client. \<open>xs_attempts\<close> is a
  history variable: each upstream call with its targets, the commit bit as it stood before the call,
  and whether the call succeeded.
\<close>

section \<open>Results and environment\<close>

record pipeline_result =
  pr_status_code :: nat
  pr_error :: "core_error option"
  pr_final_response :: "json option"
  pr_attempts :: nat
  pr_usage_tuple :: "(nat \<times> nat \<times> combo_target_id) option"

definition pipeline_failure :: "core_error \<Rightarrow> nat \<Rightarrow> pipeline_result" where
  "pipeline_failure err attempts =
     \<lparr> pr_status_code = http_status err, pr_error = Some err, pr_final_response = None,
       pr_attempts = attempts, pr_usage_tuple = None \<rparr>"

definition client_disconnected_result :: "nat \<Rightarrow> cancel_reason \<Rightarrow> pipeline_result" where
  "client_disconnected_result attempts reason = pipeline_failure (Cancelled reason) attempts"

record race_outcome =
  ro_result :: pipeline_result
  ro_failed_targets :: "target_execution_id set"
  ro_failed_models :: "model_row_id set"

record 'w exec_state =
  xs_world :: 'w
  xs_limiter :: limiter
  xs_threads :: thread_registry
  xs_walk_log :: "(combo_target_id \<times> account_id option \<times> nat \<times> core_error) list"
  xs_committed :: bool
  xs_attempts :: "(target_execution_id list \<times> bool \<times> bool) list"

text \<open>An upstream call returns the new world and limiter, whether it committed bytes, and its result.\<close>

type_synonym 'w upstream_call = "'w \<Rightarrow> limiter \<Rightarrow> 'w \<times> limiter \<times> bool \<times> pipeline_result"

record 'w exec_env =
  en_execute_single :: "combo \<Rightarrow> combo_target \<Rightarrow> nat \<Rightarrow> nat \<Rightarrow> nat \<Rightarrow> 'w upstream_call"
  en_run_proxy_race :: "combo \<Rightarrow> combo_target \<Rightarrow> (string \<times> string) list \<Rightarrow> nat \<Rightarrow> 'w upstream_call"
  en_run_race :: "combo \<Rightarrow> combo_target list \<Rightarrow> nat \<Rightarrow> 'w \<Rightarrow> limiter \<Rightarrow> 'w \<times> limiter \<times> bool \<times> race_outcome"
  en_get_provider :: "string \<Rightarrow> 'w \<Rightarrow> (bool \<times> string \<times> string) option"
  en_candidate_proxies :: "string \<Rightarrow> nat \<Rightarrow> 'w \<Rightarrow> (string \<times> string) list"
  en_mark_client_response :: "(nat \<times> nat \<times> combo_target_id) option \<Rightarrow> 'w \<Rightarrow> 'w"
  en_record_predictive_skip :: "combo \<Rightarrow> combo_target \<Rightarrow> nat \<Rightarrow> 'w \<Rightarrow> 'w"
  en_sleep :: "nat \<Rightarrow> 'w \<Rightarrow> 'w"
  en_client_disconnected :: "'w \<Rightarrow> cancel_reason option"
  en_now_ms :: "'w \<Rightarrow> nat"
  en_jitter :: "'w \<Rightarrow> int"
  en_hash :: "hash_item list \<Rightarrow> nat"
  en_canonical_session :: string
  en_ctx_attempt :: nat
  en_retries :: retries_config
  en_idle_chunk_retryable :: bool
  en_max_race_size :: nat

definition upd_world :: "('w \<Rightarrow> 'w) \<Rightarrow> 'w exec_state \<Rightarrow> 'w exec_state" where
  "upd_world f s = s \<lparr> xs_world := f (xs_world s) \<rparr>"

definition run_upstream ::
    "target_execution_id \<Rightarrow> 'w upstream_call \<Rightarrow> 'w exec_state \<Rightarrow> 'w exec_state \<times> pipeline_result" where
  "run_upstream te call s =
     (let (w, l, bytes, r) = call (xs_world s) (xs_limiter s)
      in (s \<lparr> xs_world := w, xs_limiter := l, xs_committed := (xs_committed s \<or> bytes),
              xs_attempts := xs_attempts s @ [([te], xs_committed s, pr_error r = None)] \<rparr>, r))"

section \<open>Helpers\<close>

definition check_client_cancellation :: "'w exec_env \<Rightarrow> 'w exec_state \<Rightarrow> pipeline_result option" where
  "check_client_cancellation env s =
     (case en_client_disconnected env (xs_world s) of
        Some ClientDisconnected \<Rightarrow> Some (client_disconnected_result (en_ctx_attempt env) ClientDisconnected)
      | _ \<Rightarrow> None)"

definition resolve_target_proxy_mode :: "'w exec_env \<Rightarrow> combo_target \<Rightarrow> 'w exec_state \<Rightarrow> bool \<times> string" where
  "resolve_target_proxy_mode env t s =
     (case en_get_provider env (ct_provider_id t) (xs_world s) of
        None \<Rightarrow> (False, [])
      | Some (use_proxies, mode, errors) \<Rightarrow>
          (use_proxies \<and> (mode = ''incremental_race'' \<or> mode = ''incremental'') \<and> ct_account_id t = None,
           errors))"

datatype target_step_result =
    TSuccess pipeline_result
  | TDisconnected pipeline_result
  | TFailed pipeline_result

definition log_target_failure ::
    "combo_target \<Rightarrow> pipeline_result \<Rightarrow> nat \<Rightarrow> 'w exec_state \<Rightarrow> 'w exec_state" where
  "log_target_failure t r retry_count s =
     (case pr_error r of
        None \<Rightarrow> s
      | Some e \<Rightarrow> s \<lparr> xs_walk_log := xs_walk_log s @ [(ct_id t, ct_account_id t, retry_count, e)] \<rparr>)"

definition finalize_target_result ::
    "'w exec_env \<Rightarrow> combo_target \<Rightarrow> pipeline_result \<Rightarrow> nat \<Rightarrow> 'w exec_state \<Rightarrow>
     'w exec_state \<times> target_step_result" where
  "finalize_target_result env t r retry_count s =
     (if pr_error r = None
      then (upd_world (en_mark_client_response env (pr_usage_tuple r)) s, TSuccess r)
      else (log_target_failure t r retry_count s, TFailed r))"

definition finalize_exhausted_combo ::
    "'w exec_env \<Rightarrow> combo_id \<Rightarrow> pipeline_result option \<Rightarrow> 'w exec_state \<Rightarrow>
     'w exec_state \<times> (core_error + pipeline_result)" where
  "finalize_exhausted_combo env cid last_result s =
     (case last_result of
        Some r \<Rightarrow>
          (if pr_error r \<noteq> None
           then (upd_world (en_mark_client_response env (pr_usage_tuple r)) s, Inr r)
           else (s, Inl (NoHealthyTargets cid)))
      | None \<Rightarrow> (s, Inl (NoHealthyTargets cid)))"

definition should_skip_preventive_target ::
    "'w exec_env \<Rightarrow> combo \<Rightarrow> combo_target \<Rightarrow> combo_target list \<Rightarrow> nat \<Rightarrow> limiter \<Rightarrow> bool" where
  "should_skip_preventive_target env c t remaining now l =
     (if \<not> cb_preventive_rate_limit c \<or> is_cooldown_disabled t c then False
      else
        (case evaluate_key l (compute_target_key (en_hash env) t) now of
           Saturated _ _ _ \<Rightarrow>
             list_ex (\<lambda>alt. is_cooldown_disabled alt c \<or>
                \<not> is_saturated (evaluate_key l (compute_target_key (en_hash env) alt) now)) remaining
         | _ \<Rightarrow> False))"

section \<open>Retries of one target\<close>

record target_retry_state =
  tr_policy :: retry_policy
  tr_local_retry_count :: nat
  tr_can_incremental_race :: bool
  tr_proxy_rotation_errors :: string
  tr_consecutive_failures :: nat
  tr_incremental_batch_size :: nat
  tr_race_size :: nat
  tr_total_targets :: nat

definition target_retry_state_new ::
    "'w exec_env \<Rightarrow> combo_target \<Rightarrow> nat \<Rightarrow> nat \<Rightarrow> 'w exec_state \<Rightarrow> target_retry_state" where
  "target_retry_state_new env t race_size ntargets s =
     (let (can_race, errors) = resolve_target_proxy_mode env t s
      in \<lparr> tr_policy = retry_policy_from_config (en_retries env), tr_local_retry_count = 1,
           tr_can_incremental_race = can_race, tr_proxy_rotation_errors = errors,
           tr_consecutive_failures = 0, tr_incremental_batch_size = 2, tr_race_size = race_size,
           tr_total_targets = ntargets \<rparr>)"

definition track_failure :: "core_error \<Rightarrow> target_retry_state \<Rightarrow> target_retry_state" where
  "track_failure err st =
     (if matches_proxy_rotation_errors err (tr_proxy_rotation_errors st)
      then st \<lparr> tr_consecutive_failures := saturating_add U8_MAX (tr_consecutive_failures st) 1 \<rparr>
      else st \<lparr> tr_consecutive_failures := 0 \<rparr>)"

datatype retry_step = Done pipeline_result | Next pipeline_result | Abort | Disconnected pipeline_result

definition as_u8 :: "nat \<Rightarrow> nat" where
  "as_u8 n = n mod 256"

definition execute_single_target ::
    "'w exec_env \<Rightarrow> combo \<Rightarrow> combo_target \<Rightarrow> nat \<Rightarrow> nat \<Rightarrow> nat \<Rightarrow> 'w exec_state \<Rightarrow>
     'w exec_state \<times> pipeline_result" where
  "execute_single_target env c t attempt race_size ntargets s =
     run_upstream (te_from_target t)
       (en_execute_single env c t attempt (as_u8 race_size) (as_u8 ntargets)) s"

definition try_incremental_proxy_race ::
    "'w exec_env \<Rightarrow> combo \<Rightarrow> combo_target \<Rightarrow> target_retry_state \<Rightarrow> nat \<Rightarrow> 'w exec_state \<Rightarrow>
     'w exec_state \<times> target_retry_state \<times> nat \<times> pipeline_result option" where
  "try_incremental_proxy_race env c t st attempt s =
     (let cands = en_candidate_proxies env (ct_provider_id t) (tr_incremental_batch_size st) (xs_world s)
      in if length cands < 2 then (s, st, attempt, None)
         else
           (let attempt' = saturating_add U8_MAX attempt 1;
                st1 = st \<lparr> tr_local_retry_count :=
                             saturating_add U8_MAX (tr_local_retry_count st) (as_u8 (length cands)) \<rparr>;
                (s', r) = run_upstream (te_from_target t) (en_run_proxy_race env c t cands attempt') s;
                st2 = (if pr_error r \<noteq> None
                       then st1 \<lparr> tr_incremental_batch_size := min (tr_incremental_batch_size st1 * 2) 16 \<rparr>
                       else st1)
            in (s', st2, attempt', Some r)))"

definition try_trigger_incremental_race_fallback ::
    "'w exec_env \<Rightarrow> combo \<Rightarrow> combo_target \<Rightarrow> target_retry_state \<Rightarrow> nat \<Rightarrow> 'w exec_state \<Rightarrow>
     'w exec_state \<times> target_retry_state \<times> nat \<times> retry_step option" where
  "try_trigger_incremental_race_fallback env c t st attempt s =
     (if \<not> tr_can_incremental_race st \<or> tr_consecutive_failures st < 3 then (s, st, attempt, None)
      else
        (case try_incremental_proxy_race env c t st attempt s of
           (s', st', attempt', None) \<Rightarrow> (s', st', attempt', None)
         | (s', st', attempt', Some r) \<Rightarrow>
             (s', st', attempt', Some (if pr_error r = None then Done r else Next r))))"

definition compute_and_wait_retry_delay ::
    "'w exec_env \<Rightarrow> combo \<Rightarrow> combo_target \<Rightarrow> target_retry_state \<Rightarrow> core_error \<Rightarrow> nat \<Rightarrow> 'w exec_state \<Rightarrow>
     'w exec_state \<times> target_retry_state \<times> nat \<times> pipeline_result option" where
  "compute_and_wait_retry_delay env c t st err attempt s =
     (case check_retry_delay (tr_policy st) (tr_local_retry_count st) err (en_jitter env (xs_world s)) of
        None \<Rightarrow> (s, st, attempt, None)
      | Some delay \<Rightarrow>
          (let s1 = upd_world (en_sleep env delay) s;
               st' = st \<lparr> tr_local_retry_count := saturating_add U8_MAX (tr_local_retry_count st) 1 \<rparr>;
               attempt' = saturating_add U8_MAX attempt 1;
               (s2, r) = execute_single_target env c t attempt' (tr_race_size st) (tr_total_targets st) s1
           in (s2, st', attempt', Some r)))"

definition preventive_fast_fail ::
    "'w exec_env \<Rightarrow> combo \<Rightarrow> combo_target \<Rightarrow> target_retry_state \<Rightarrow> core_error \<Rightarrow> 'w exec_state \<Rightarrow>
     'w exec_state \<times> bool" where
  "preventive_fast_fail env c t st err s =
     (if cb_preventive_rate_limit c then
        (let (l, ok) = should_retry_key (xs_limiter s) (compute_target_key (en_hash env) t)
               (compute_error_fingerprint (en_hash env) err) (tr_local_retry_count st)
               (en_now_ms env (xs_world s))
         in (s \<lparr> xs_limiter := l \<rparr>, \<not> ok))
      else (s, False))"

definition perform_retry_iteration ::
    "'w exec_env \<Rightarrow> combo \<Rightarrow> combo_target \<Rightarrow> target_retry_state \<Rightarrow> core_error \<Rightarrow> nat \<Rightarrow> 'w exec_state \<Rightarrow>
     'w exec_state \<times> target_retry_state \<times> nat \<times> retry_step" where
  "perform_retry_iteration env c t st err attempt s =
     (if tr_total_targets st > 1 \<and> is_max_request_timeout err then (s, st, attempt, Abort)
      else if \<not> should_retry_target err (tr_local_retry_count st) (tr_policy st)
                  (en_idle_chunk_retryable env)
        then (s, st, attempt, Abort)
      else
        (let (s1, fast_fail) = preventive_fast_fail env c t st err s
         in if fast_fail then (s1, st, attempt, Abort)
            else
              (let st1 = track_failure err st
               in case check_client_cancellation env s1 of
                    Some disc \<Rightarrow> (s1, st1, attempt, Disconnected disc)
                  | None \<Rightarrow>
                      (case try_trigger_incremental_race_fallback env c t st1 attempt s1 of
                         (s2, st2, attempt2, Some step) \<Rightarrow> (s2, st2, attempt2, step)
                       | (s2, st2, attempt2, None) \<Rightarrow>
                           (case compute_and_wait_retry_delay env c t st2 err attempt2 s2 of
                              (s3, st3, attempt3, None) \<Rightarrow> (s3, st3, attempt3, Abort)
                            | (s3, st3, attempt3, Some r) \<Rightarrow> (s3, st3, attempt3, Next r))))))"

text \<open>
  The retry loop, with fuel: \<open>None\<close> is running out of it. \<open>Inl\<close> is a disconnect, \<open>Inr\<close> the result the
  loop ends with.
\<close>

primrec retry_loop ::
    "nat \<Rightarrow> 'w exec_env \<Rightarrow> combo \<Rightarrow> combo_target \<Rightarrow> target_retry_state \<Rightarrow> nat \<Rightarrow> pipeline_result \<Rightarrow>
     'w exec_state \<Rightarrow>
     ('w exec_state \<times> target_retry_state \<times> nat \<times> (pipeline_result + pipeline_result)) option" where
  "retry_loop 0 env c t st attempt r s = None"
| "retry_loop (Suc fuel) env c t st attempt r s =
     (case pr_error r of
        None \<Rightarrow> Some (s, st, attempt, Inr r)
      | Some e \<Rightarrow>
          (if xs_committed s then Some (s, st, attempt, Inr r)
           else
             (case perform_retry_iteration env c t st e attempt s of
                (s', st', attempt', Done r') \<Rightarrow> Some (s', st', attempt', Inr r')
              | (s', st', attempt', Next r') \<Rightarrow> retry_loop fuel env c t st' attempt' r' s'
              | (s', st', attempt', Abort) \<Rightarrow> Some (s', st', attempt', Inr r)
              | (s', st', attempt', Disconnected d) \<Rightarrow> Some (s', st', attempt', Inl d))))"

definition RETRY_FUEL :: nat where "RETRY_FUEL = 256"

definition run_target_with_retries ::
    "'w exec_env \<Rightarrow> combo \<Rightarrow> combo_target \<Rightarrow> nat \<Rightarrow> nat \<Rightarrow> nat \<Rightarrow> 'w exec_state \<Rightarrow>
     ('w exec_state \<times> nat \<times> target_step_result) option" where
  "run_target_with_retries env c t race_size ntargets attempt s =
     (let st = target_retry_state_new env t race_size ntargets s;
          (s1, r) = execute_single_target env c t attempt race_size ntargets s
      in case retry_loop RETRY_FUEL env c t st attempt r s1 of
           None \<Rightarrow> None
         | Some (s2, st', attempt', Inl disc) \<Rightarrow> Some (s2, attempt', TDisconnected disc)
         | Some (s2, st', attempt', Inr r') \<Rightarrow>
             (let (s3, step) = finalize_target_result env t r' (tr_local_retry_count st') s2
              in Some (s3, attempt', step)))"

section \<open>The walk over the targets\<close>

datatype target_loop_outcome =
    Finish pipeline_result
  | Continue "pipeline_result option"
  | Skip

definition te_without_account :: "combo_target \<Rightarrow> target_execution_id" where
  "te_without_account t = \<lparr> te_target_id = ct_id t, te_account_id = None \<rparr>"

definition target_has_failed :: "target_execution_id set \<Rightarrow> combo_target \<Rightarrow> bool" where
  "target_has_failed failed t \<longleftrightarrow> te_from_target t \<in> failed \<or> te_without_account t \<in> failed"

definition check_and_handle_thread_errors ::
    "'w exec_env \<Rightarrow> combo_target \<Rightarrow> core_error \<Rightarrow> 'w exec_state \<Rightarrow> 'w exec_state" where
  "check_and_handle_thread_errors env t err s =
     (if ct_provider_id t \<noteq> ''claude-code'' then s
      else
        (case err of
           UpstreamError status _ _ body _ _ _ \<Rightarrow>
             (if status = 404 \<or> contains_any body [''thread_not_found'', ''thread_fingerprint_mismatch'',
                   ''thread_already_continued'', ''previous_message_id_invalid'']
              then s \<lparr> xs_threads := thread_invalidate (en_canonical_session env) (xs_threads s) \<rparr>
              else if str_contains body ''thread_unsupported_request''
              then s \<lparr> xs_threads := mark_stateless (en_canonical_session env) (xs_threads s) \<rparr>
              else s)
         | _ \<Rightarrow> s))"

definition step_outcome :: "'w exec_state \<Rightarrow> nat \<Rightarrow> nat \<Rightarrow> target_step_result \<Rightarrow> target_loop_outcome" where
  "step_outcome s idx ntargets step =
     (if xs_committed s then
        Finish (case step of TSuccess r \<Rightarrow> r | TDisconnected r \<Rightarrow> r | TFailed r \<Rightarrow> r)
      else
        (case step of
           TSuccess r \<Rightarrow> Finish r
         | TDisconnected r \<Rightarrow>
             (if pr_error r = Some (Cancelled ClientDisconnected) \<or> idx + 1 \<ge> ntargets
              then Finish r else Continue (Some r))
         | TFailed r \<Rightarrow> Continue (Some r)))"

definition execute_single_target_step ::
    "'w exec_env \<Rightarrow> combo \<Rightarrow> combo_target list \<Rightarrow> nat \<Rightarrow> nat \<Rightarrow> nat \<Rightarrow> 'w exec_state \<Rightarrow>
     ('w exec_state \<times> nat \<times> target_loop_outcome) option" where
  "execute_single_target_step env c to_run idx race_size attempt s =
     (let t = to_run ! idx; now = en_now_ms env (xs_world s);
          key = compute_target_key (en_hash env) t
      in case check_client_cancellation env s of
           Some disc \<Rightarrow> Some (s, attempt, Finish disc)
         | None \<Rightarrow>
             (if should_skip_preventive_target env c t (drop (idx + 1) to_run) now (xs_limiter s)
              then Some (upd_world (en_record_predictive_skip env c t attempt) s,
                         saturating_add U8_MAX attempt 1, Skip)
              else
                (let s1 = (if cb_preventive_rate_limit c
                           then s \<lparr> xs_limiter := fst (acquire_key (xs_limiter s) key now) \<rparr> else s)
                 in case run_target_with_retries env c t race_size (length to_run) attempt s1 of
                      None \<Rightarrow> None
                    | Some (s2, attempt', step) \<Rightarrow>
                        Some (s2, saturating_add U8_MAX attempt' 1,
                              step_outcome s2 idx (length to_run) step))))"

record seq_state =
  sq_last_result :: "pipeline_result option"
  sq_failed_targets :: "target_execution_id set"
  sq_failed_models :: "model_row_id set"
  sq_failed_provider_models :: "(string \<times> model_row_id) set"

definition skips_target :: "combo_target list \<Rightarrow> nat \<Rightarrow> seq_state \<Rightarrow> bool" where
  "skips_target to_run idx q =
     (let t = to_run ! idx in
      target_has_failed (sq_failed_targets q) t \<or>
      (case ct_model_row_id t of
         None \<Rightarrow> False
       | Some m \<Rightarrow>
           (let same_target_rotation = list_ex (\<lambda>prev. ct_id prev = ct_id t) (take idx to_run);
                has_untried_account =
                  (case ct_account_id t of
                     None \<Rightarrow> False
                   | Some aid \<Rightarrow> \<not> (\<exists>ft \<in> sq_failed_targets q. te_account_id ft = Some aid))
            in \<not> same_target_rotation \<and>
               (m \<in> sq_failed_models q \<or>
                (\<not> has_untried_account \<and> (ct_provider_id t, m) \<in> sq_failed_provider_models q)))))"

definition is_request_fault :: "core_error \<Rightarrow> bool" where
  "is_request_fault err \<longleftrightarrow>
     (case err of UpstreamError status _ _ _ _ _ _ \<Rightarrow> status = 400 | _ \<Rightarrow> False) \<or>
     upstream_error_class_of err = Some InvalidPayload \<or>
     upstream_error_class_of err = Some MalformedToolCall"

definition record_target_failure :: "combo_target list \<Rightarrow> nat \<Rightarrow> core_error \<Rightarrow> seq_state \<Rightarrow> seq_state" where
  "record_target_failure to_run idx err q =
     (let t = to_run ! idx in
      if \<not> (is_upstream_health_issue err \<or> is_hard_skip err) then q
      else
        (let q1 = q \<lparr> sq_failed_targets := insert (te_from_target t) (sq_failed_targets q) \<rparr> in
         case ct_model_row_id t of
           None \<Rightarrow> q1
         | Some m \<Rightarrow>
             (if list_ex (\<lambda>nx. ct_id nx = ct_id t \<and> \<not> target_has_failed (sq_failed_targets q1) nx)
                   (drop (idx + 1) to_run)
              then q1
              else
                (let q2 = (if is_model_wide_failure t err
                           then q1 \<lparr> sq_failed_models := insert m (sq_failed_models q1) \<rparr> else q1)
                 in if is_request_fault err
                    then q2 \<lparr> sq_failed_provider_models :=
                                insert (ct_provider_id t, m) (sq_failed_provider_models q2) \<rparr>
                    else q2))))"

fun sequential_loop ::
    "'w exec_env \<Rightarrow> combo \<Rightarrow> combo_target list \<Rightarrow> nat \<Rightarrow> nat list \<Rightarrow> nat \<Rightarrow> seq_state \<Rightarrow> 'w exec_state \<Rightarrow>
     ('w exec_state \<times> (core_error + pipeline_result)) option" where
  "sequential_loop env c to_run race_size [] attempt q s =
     Some (finalize_exhausted_combo env (cb_id c) (sq_last_result q) s)"
| "sequential_loop env c to_run race_size (idx # idxs) attempt q s =
     (if skips_target to_run idx q then sequential_loop env c to_run race_size idxs attempt q s
      else
        (case execute_single_target_step env c to_run idx race_size attempt s of
           None \<Rightarrow> None
         | Some (s', attempt', Finish r) \<Rightarrow> Some (s', Inr r)
         | Some (s', attempt', Skip) \<Rightarrow> sequential_loop env c to_run race_size idxs attempt' q s'
         | Some (s', attempt', Continue res) \<Rightarrow>
             (case Option.bind res pr_error of
                None \<Rightarrow>
                  sequential_loop env c to_run race_size idxs attempt' (q \<lparr> sq_last_result := res \<rparr>) s'
              | Some err \<Rightarrow>
                  sequential_loop env c to_run race_size idxs attempt'
                    ((record_target_failure to_run idx err q) \<lparr> sq_last_result := res \<rparr>)
                    (check_and_handle_thread_errors env (to_run ! idx) err s'))))"

definition execute_sequential_targets ::
    "'w exec_env \<Rightarrow> combo \<Rightarrow> combo_target list \<Rightarrow> nat \<Rightarrow> pipeline_result option \<Rightarrow>
     target_execution_id set \<Rightarrow> model_row_id set \<Rightarrow> 'w exec_state \<Rightarrow>
     ('w exec_state \<times> (core_error + pipeline_result)) option" where
  "execute_sequential_targets env c to_run race_size last_result failed_targets failed_models s =
     sequential_loop env c to_run race_size [0..<length to_run]
       (saturating_add U8_MAX (as_u8 (card failed_targets)) 1)
       \<lparr> sq_last_result = last_result, sq_failed_targets = failed_targets,
         sq_failed_models = failed_models, sq_failed_provider_models = {} \<rparr> s"

section \<open>The initial race and the stage\<close>

definition try_initial_race ::
    "'w exec_env \<Rightarrow> combo \<Rightarrow> combo_target list \<Rightarrow> 'w exec_state \<Rightarrow> 'w exec_state \<times> race_outcome option" where
  "try_initial_race env c to_run s =
     (if cb_race_size c \<le> 1 \<or> length to_run < 2 then (s, None)
      else
        (let race_n = min (min (cb_race_size c) (length to_run)) (en_max_race_size env);
             (w, l, bytes, o') = en_run_race env c (take race_n to_run) (as_u8 race_n) (xs_world s) (xs_limiter s);
             s1 = s \<lparr> xs_world := w, xs_limiter := l, xs_committed := (xs_committed s \<or> bytes),
                      xs_attempts := xs_attempts s @
                        [(map te_from_target (take race_n to_run), xs_committed s,
                          pr_error (ro_result o') = None)] \<rparr>
         in if pr_error (ro_result o') = None
            then (upd_world (en_mark_client_response env (pr_usage_tuple (ro_result o'))) s1, Some o')
            else (s1, Some o')))"

definition execution_race_size :: "'w exec_env \<Rightarrow> combo \<Rightarrow> combo_target list \<Rightarrow> nat" where
  "execution_race_size env c to_run = min (min (cb_race_size c) (length to_run)) (en_max_race_size env)"

definition upstream_executor_stage ::
    "'w exec_env \<Rightarrow> combo option \<Rightarrow> combo_target list \<Rightarrow> 'w exec_state \<Rightarrow>
     ('w exec_state \<times> (core_error + pipeline_result)) option" where
  "upstream_executor_stage env combo to_run s =
     (case combo of
        None \<Rightarrow> Some (s, Inl (Validation ''No combo resolved''))
      | Some c \<Rightarrow>
          (if to_run = [] then Some (s, Inl (NoHealthyTargets (cb_id c)))
           else
             (case try_initial_race env c to_run s of
                (s1, None) \<Rightarrow>
                  execute_sequential_targets env c to_run (execution_race_size env c to_run) None {} {} s1
              | (s1, Some o') \<Rightarrow>
                  (if pr_error (ro_result o') = None \<or> xs_committed s1
                   then Some (s1, Inr (ro_result o'))
                   else execute_sequential_targets env c to_run (execution_race_size env c to_run)
                          (Some (ro_result o')) (ro_failed_targets o') (ro_failed_models o') s1))))"

section \<open>The retry loop ends\<close>

definition env_ok :: "'w exec_env \<Rightarrow> bool" where
  "env_ok env \<longleftrightarrow> rc_max_attempts (en_retries env) \<le> U8_MAX \<and>
     (\<forall>p n w. length (en_candidate_proxies env p n w) \<le> n)"

definition trs_ok :: "target_retry_state \<Rightarrow> bool" where
  "trs_ok st \<longleftrightarrow> rp_max_attempts (tr_policy st) \<le> U8_MAX \<and> tr_incremental_batch_size st \<le> 16"

lemma track_failure_simps [simp]:
  "tr_policy (track_failure e st) = tr_policy st"
  "tr_local_retry_count (track_failure e st) = tr_local_retry_count st"
  "tr_incremental_batch_size (track_failure e st) = tr_incremental_batch_size st"
  by (simp_all add: track_failure_def)

lemma proxy_race_progress:
  assumes "env_ok env" and "trs_ok st" and "tr_local_retry_count st < U8_MAX"
    and "try_incremental_proxy_race env c t st a s = (s', st', a', Some r)"
  shows "tr_local_retry_count st < tr_local_retry_count st' \<and> trs_ok st'"
proof -
  let ?cs = "en_candidate_proxies env (ct_provider_id t) (tr_incremental_batch_size st) (xs_world s)"
  have len: "2 \<le> length ?cs" using assms(4)
    by (auto simp: try_incremental_proxy_race_def Let_def split: if_splits prod.splits)
  have "length ?cs \<le> 16" using assms(1,2) le_trans unfolding env_ok_def trs_ok_def by blast
  then have "as_u8 (length ?cs) = length ?cs" by (simp add: as_u8_def)
  then show ?thesis using assms len
    by (auto simp: try_incremental_proxy_race_def Let_def trs_ok_def int_ops split: if_splits prod.splits)
qed

lemma fallback_progress:
  assumes "env_ok env" and "trs_ok st" and "tr_local_retry_count st < U8_MAX"
    and "try_trigger_incremental_race_fallback env c t st a s = (s', st', a', res)"
  shows "case res of
           None \<Rightarrow> st' = st \<and> s' = s
         | Some _ \<Rightarrow> tr_local_retry_count st < tr_local_retry_count st' \<and> trs_ok st'"
proof (cases "\<not> tr_can_incremental_race st \<or> tr_consecutive_failures st < 3")
  case True
  with assms(4) show ?thesis by (auto simp: try_trigger_incremental_race_fallback_def)
next
  case False
  obtain s1 st1 a1 res1 where race: "try_incremental_proxy_race env c t st a s = (s1, st1, a1, res1)"
    by (cases "try_incremental_proxy_race env c t st a s") auto
  show ?thesis
  proof (cases res1)
    case None
    with race False assms(4) show ?thesis
      by (auto simp: try_trigger_incremental_race_fallback_def try_incremental_proxy_race_def Let_def
          split: if_splits prod.splits)
  next
    case (Some r)
    with race False assms(4) proxy_race_progress [OF assms(1-3), of c t a s] show ?thesis
      by (auto simp: try_trigger_incremental_race_fallback_def)
  qed
qed

lemma wait_progress:
  assumes "compute_and_wait_retry_delay env c t st e a s = (s', st', a', Some r)"
    and "tr_local_retry_count st < U8_MAX" and "trs_ok st"
  shows "tr_local_retry_count st < tr_local_retry_count st' \<and> trs_ok st'"
  using assms
  by (auto simp: compute_and_wait_retry_delay_def Let_def trs_ok_def int_ops split: option.splits prod.splits)

lemma iteration_progress:
  assumes env: "env_ok env" and ok: "trs_ok st"
    and it: "perform_retry_iteration env c t st e a s = (s', st', a', Next r)"
  shows "tr_local_retry_count st < tr_local_retry_count st' \<and> trs_ok st'"
proof -
  have count: "tr_local_retry_count st < U8_MAX"
    using it ok should_retry_below_255 [of "tr_policy st" e "tr_local_retry_count st"]
    by (auto simp: perform_retry_iteration_def trs_ok_def split: if_splits)
  obtain s1 ff where pf: "preventive_fast_fail env c t st e s = (s1, ff)" by fastforce
  let ?st = "track_failure e st"
  have ok1: "trs_ok ?st" and count1: "tr_local_retry_count ?st < U8_MAX"
    using ok count by (simp_all add: trs_ok_def)
  obtain s2 st2 a2 res where fb: "try_trigger_incremental_race_fallback env c t ?st a s1 = (s2, st2, a2, res)"
    by (cases "try_trigger_incremental_race_fallback env c t ?st a s1") auto
  note fp = fallback_progress [OF env ok1 count1 fb]
  have unf: "(case res of Some step \<Rightarrow> (s2, st2, a2, step)
       | None \<Rightarrow> (case compute_and_wait_retry_delay env c t st2 e a2 s2 of
                     (s3, st3, a3, None) \<Rightarrow> (s3, st3, a3, Abort)
                   | (s3, st3, a3, Some r) \<Rightarrow> (s3, st3, a3, Next r))) = (s', st', a', Next r)"
    using it pf fb
    by (auto simp: perform_retry_iteration_def Let_def split: if_splits option.splits)
  show ?thesis
  proof (cases res)
    case None
    then have st2: "st2 = ?st" using fp by simp
    obtain s3 st3 a3 r3 where w: "compute_and_wait_retry_delay env c t st2 e a2 s2 = (s3, st3, a3, r3)"
      by (cases "compute_and_wait_retry_delay env c t st2 e a2 s2") auto
    with unf None obtain r' where "r3 = Some r'" and "st3 = st'" by (cases r3) auto
    with wait_progress [of env c t st2 e a2 s2] w st2 ok1 count1 show ?thesis by simp
  next
    case (Some step)
    with unf fp show ?thesis by simp
  qed
qed

lemma retry_loop_returns:
  assumes "env_ok env" and "trs_ok st" and "U8_MAX - tr_local_retry_count st < fuel"
  shows "\<exists>x. retry_loop fuel env c t st a r s = Some x"
  using assms(2,3)
proof (induction fuel arbitrary: st a r s)
  case 0
  then show ?case by simp
next
  case (Suc fuel)
  have next_case: "\<exists>x. retry_loop fuel env c t st' a' r' s' = Some x"
    if it: "perform_retry_iteration env c t st e a s = (s', st', a', Next r')" for e s' st' a' r'
  proof -
    have prog: "tr_local_retry_count st < tr_local_retry_count st'" "trs_ok st'"
      using iteration_progress [OF assms(1) Suc.prems(1) it] by simp_all
    have "tr_local_retry_count st < U8_MAX"
      using it Suc.prems(1) should_retry_below_255 [of "tr_policy st" e "tr_local_retry_count st"]
      by (auto simp: perform_retry_iteration_def trs_ok_def split: if_splits)
    with prog Suc.prems(2) have "U8_MAX - tr_local_retry_count st' < fuel" by linarith
    then show ?thesis using Suc.IH prog(2) by blast
  qed
  then show ?case
    by (auto split: option.splits prod.splits retry_step.splits)
qed

lemma run_target_returns:
  "env_ok env \<Longrightarrow> run_target_with_retries env c t rs n a s \<noteq> None"
  using retry_loop_returns [of env "target_retry_state_new env t rs n s" RETRY_FUEL c t a
      "snd (execute_single_target env c t a rs n s)" "fst (execute_single_target env c t a rs n s)"]
  by (auto simp: run_target_with_retries_def Let_def RETRY_FUEL_def target_retry_state_new_def trs_ok_def
      env_ok_def retry_policy_from_config_def split: option.splits prod.splits sum.splits)

lemma step_returns: "env_ok env \<Longrightarrow> execute_single_target_step env c ts i rs a s \<noteq> None"
  by (auto simp: execute_single_target_step_def Let_def run_target_returns split: option.splits)

lemma sequential_returns: "env_ok env \<Longrightarrow> sequential_loop env c ts rs idxs a q s \<noteq> None"
proof (induction idxs arbitrary: a q s)
  case (Cons i idxs)
  obtain s' a' o' where "execute_single_target_step env c ts i rs a s = Some (s', a', o')"
    using step_returns [OF Cons.prems, of c ts i rs a s] by auto
  then show ?case
    using Cons by (cases o') (simp_all split: option.splits)
qed simp

lemma stage_returns:
  assumes "env_ok env"
  shows "upstream_executor_stage env combo to_run s \<noteq> None"
  by (simp add: upstream_executor_stage_def execute_sequential_targets_def sequential_returns [OF assms]
      del: not_None_eq split: option.splits prod.splits)

text \<open>
  C5: the executor always returns. Whatever the upstreams answer, with the candidate query honouring
  its limit, the walk over the targets and every retry loop end (the loop within 255 attempts of a
  target), so the stage produces a response or an error.
\<close>

theorem executor_returns:
  assumes "env_ok env"
  shows "\<exists>s' res. upstream_executor_stage env combo to_run s = Some (s', res)"
  using stage_returns [OF assms, of combo to_run s] by auto

section \<open>What the history of attempts satisfies\<close>

text \<open>
  A further upstream call is in order when nothing has been committed and the call before it
  failed. A predicate kept by such calls and by the bookkeeping around them holds of every run.
\<close>

definition ready :: "'w exec_state \<Rightarrow> bool" where
  "ready s \<longleftrightarrow> \<not> xs_committed s \<and> (xs_attempts s \<noteq> [] \<longrightarrow> \<not> snd (snd (last (xs_attempts s))))"

definition last_call_matches :: "'w exec_state \<Rightarrow> pipeline_result \<Rightarrow> bool" where
  "last_call_matches s r \<longleftrightarrow> xs_attempts s \<noteq> [] \<and> (snd (snd (last (xs_attempts s))) \<longleftrightarrow> pr_error r = None)"

lemma ready_iff_failed: "last_call_matches s r \<Longrightarrow> \<not> xs_committed s \<Longrightarrow> pr_error r \<noteq> None \<Longrightarrow> ready s"
  by (simp add: ready_def last_call_matches_def)

lemma run_upstream_matches: "last_call_matches (fst (run_upstream te call s)) (snd (run_upstream te call s))"
  by (simp add: run_upstream_def last_call_matches_def split_beta)

lemma ready_world [simp]: "ready (upd_world f s) = ready s"
  by (simp add: ready_def upd_world_def)

lemma ready_limiter [simp]: "ready (s \<lparr> xs_limiter := l \<rparr>) = ready s"
  by (simp add: ready_def)

lemma ready_threads [simp]: "ready (s \<lparr> xs_threads := l \<rparr>) = ready s"
  by (simp add: ready_def)

lemma ready_walk_log [simp]: "ready (s \<lparr> xs_walk_log := l \<rparr>) = ready s"
  by (simp add: ready_def)

locale executor_invariant =
  fixes inv :: "'w exec_state \<Rightarrow> bool"
  assumes inv_upstream: "inv s \<Longrightarrow> ready s \<Longrightarrow> inv (fst (run_upstream te call s))"
    and inv_world: "inv s \<Longrightarrow> inv (upd_world f s)"
    and inv_limiter: "inv s \<Longrightarrow> inv (s \<lparr> xs_limiter := l \<rparr>)"
    and inv_threads: "inv s \<Longrightarrow> inv (s \<lparr> xs_threads := th \<rparr>)"
    and inv_walk_log: "inv s \<Longrightarrow> inv (s \<lparr> xs_walk_log := lg \<rparr>)"
begin

lemma fast_fail_inv:
  "inv s \<Longrightarrow> inv (fst (preventive_fast_fail env c t st e s)) \<and>
     ready (fst (preventive_fast_fail env c t st e s)) = ready s"
  by (auto simp: preventive_fast_fail_def split_beta Let_def intro: inv_limiter)

lemma fallback_inv:
  assumes "inv s" and "ready s"
    and "try_trigger_incremental_race_fallback env c t st a s = (s', st', a', res)"
  shows "inv s' \<and> (case res of None \<Rightarrow> ready s' | Some (Done r) \<Rightarrow> last_call_matches s' r
     | Some (Next r) \<Rightarrow> last_call_matches s' r | Some _ \<Rightarrow> False)"
proof (cases "\<not> tr_can_incremental_race st \<or> tr_consecutive_failures st < 3")
  case True
  then show ?thesis using assms by (auto simp: try_trigger_incremental_race_fallback_def)
next
  case False
  let ?cands = "en_candidate_proxies env (ct_provider_id t) (tr_incremental_batch_size st) (xs_world s)"
  let ?u = "run_upstream (te_from_target t) (en_run_proxy_race env c t ?cands (saturating_add U8_MAX a 1)) s"
  have "inv (fst ?u)" "last_call_matches (fst ?u) (snd ?u)"
    using inv_upstream [OF assms(1,2)] run_upstream_matches by blast+
  with False assms show ?thesis
    by (auto simp: try_trigger_incremental_race_fallback_def try_incremental_proxy_race_def Let_def
        split: if_splits prod.splits)
qed

lemma wait_inv:
  assumes "inv s" and "ready s" and "compute_and_wait_retry_delay env c t st e a s = (s', st', a', res)"
  shows "inv s' \<and> (case res of None \<Rightarrow> ready s' | Some r \<Rightarrow> last_call_matches s' r)"
proof (cases "check_retry_delay (tr_policy st) (tr_local_retry_count st) e (en_jitter env (xs_world s))")
  case None
  with assms show ?thesis by (simp add: compute_and_wait_retry_delay_def)
next
  case (Some d)
  let ?u = "execute_single_target env c t (saturating_add U8_MAX a 1) (tr_race_size st) (tr_total_targets st)
      (upd_world (en_sleep env d) s)"
  have "inv (fst ?u)" "last_call_matches (fst ?u) (snd ?u)"
    unfolding execute_single_target_def
    using inv_upstream [OF inv_world [OF assms(1)]] assms(2) run_upstream_matches by simp_all
  with Some assms show ?thesis
    by (auto simp: compute_and_wait_retry_delay_def Let_def split: prod.splits)
qed

lemma iteration_inv:
  assumes "inv s" and "ready s" and it: "perform_retry_iteration env c t st e a s = (s', st', a', step)"
  shows "inv s' \<and> (case step of Done r \<Rightarrow> last_call_matches s' r | Next r \<Rightarrow> last_call_matches s' r
     | Abort \<Rightarrow> ready s' | Disconnected r \<Rightarrow> ready s')"
proof -
  obtain s1 ff where pf: "preventive_fast_fail env c t st e s = (s1, ff)" by fastforce
  then have s1: "inv s1" "ready s1" using fast_fail_inv [OF assms(1), of env c t st e] assms(2) by simp_all
  let ?st = "track_failure e st"
  obtain s2 st2 a2 res where fb: "try_trigger_incremental_race_fallback env c t ?st a s1 = (s2, st2, a2, res)"
    by (cases "try_trigger_incremental_race_fallback env c t ?st a s1") auto
  note fbi = fallback_inv [OF s1 fb]
  obtain s3 st3 a3 r3 where w: "compute_and_wait_retry_delay env c t st2 e a2 s2 = (s3, st3, a3, r3)"
    by (cases "compute_and_wait_retry_delay env c t st2 e a2 s2") auto
  have wi: "res = None \<Longrightarrow> inv s3 \<and> (case r3 of None \<Rightarrow> ready s3 | Some r \<Rightarrow> last_call_matches s3 r)"
    using wait_inv [OF _ _ w] fbi by simp
  show ?thesis
    using it assms(1,2) s1 fbi wi unfolding perform_retry_iteration_def pf Let_def
    by (cases res; cases r3) (auto simp: fb w split: if_splits option.splits retry_step.splits)
qed

lemma retry_loop_inv:
  assumes "inv s" and "last_call_matches s r"
    and "retry_loop fuel env c t st a r s = Some (s', st', a', res)"
  shows "inv s' \<and> (case res of Inl _ \<Rightarrow> ready s' | Inr r' \<Rightarrow> pr_error r' \<noteq> None \<and> \<not> xs_committed s' \<longrightarrow> ready s')"
  using assms
proof (induction fuel arbitrary: st a r s)
  case 0
  then show ?case by simp
next
  case (Suc fuel)
  show ?case
  proof (cases "pr_error r = None \<or> xs_committed s")
    case True
    then show ?thesis using Suc.prems by (auto split: option.splits)
  next
    case False
    then obtain e where e: "pr_error r = Some e" and nc: "\<not> xs_committed s" by auto
    have rdy: "ready s" using ready_iff_failed [OF Suc.prems(2) nc] e by simp
    obtain s1 st1 a1 step where it: "perform_retry_iteration env c t st e a s = (s1, st1, a1, step)"
      by (cases "perform_retry_iteration env c t st e a s") auto
    note ii = iteration_inv [OF Suc.prems(1) rdy it]
    show ?thesis
    proof (cases step)
      case (Next r')
      with ii Suc.IH [of s1 r' st1 a1] Suc.prems(3) e nc it show ?thesis by simp
    next
      case (Done r')
      with ii Suc.prems(3) e nc it ready_iff_failed [of s1 r'] show ?thesis by auto
    qed (use ii Suc.prems(3) e nc it in auto)
  qed
qed

lemma run_target_inv:
  assumes "inv s" and "ready s" and run: "run_target_with_retries env c t rs n a s = Some (s', a', step)"
  shows "inv s' \<and> (case step of TSuccess _ \<Rightarrow> True | TDisconnected _ \<Rightarrow> ready s'
     | TFailed _ \<Rightarrow> \<not> xs_committed s' \<longrightarrow> ready s')"
proof -
  let ?u = "execute_single_target env c t a rs n s"
  have u: "inv (fst ?u)" "last_call_matches (fst ?u) (snd ?u)"
    unfolding execute_single_target_def using inv_upstream [OF assms(1,2)] run_upstream_matches by blast+
  obtain s2 st2 a2 res
    where loop: "retry_loop RETRY_FUEL env c t (target_retry_state_new env t rs n s) a (snd ?u) (fst ?u) =
       Some (s2, st2, a2, res)"
    using run by (auto simp: run_target_with_retries_def Let_def split_beta split: option.splits)
  note li = retry_loop_inv [OF u loop]
  show ?thesis
  proof (cases res)
    case (Inl d)
    with run loop li show ?thesis by (auto simp: run_target_with_retries_def Let_def split_beta)
  next
    case (Inr r)
    with run loop li show ?thesis
      by (auto simp: run_target_with_retries_def Let_def split_beta finalize_target_result_def
          log_target_failure_def upd_world_def [symmetric] inv_world inv_walk_log split: if_splits)
  qed
qed

lemma step_inv:
  assumes "inv s" and "ready s"
    and st: "execute_single_target_step env c ts i rs a s = Some (s', a', out)"
  shows "inv s' \<and> (case out of Finish _ \<Rightarrow> True | _ \<Rightarrow> ready s')"
proof (cases "check_client_cancellation env s \<noteq> None \<or>
    should_skip_preventive_target env c (ts ! i) (drop (i + 1) ts) (en_now_ms env (xs_world s)) (xs_limiter s)")
  case True
  then show ?thesis
    using assms by (auto simp: execute_single_target_step_def Let_def inv_world split: option.splits)
next
  case False
  define s1 where "s1 = (if cb_preventive_rate_limit c
     then s \<lparr> xs_limiter := fst (acquire_key (xs_limiter s) (compute_target_key (en_hash env) (ts ! i))
                (en_now_ms env (xs_world s))) \<rparr> else s)"
  have s1: "inv s1" "ready s1" using assms by (simp_all add: s1_def inv_limiter)
  obtain a2 step where run: "run_target_with_retries env c (ts ! i) rs (length ts) a s1 = Some (s', a2, step)"
    and out: "out = step_outcome s' i (length ts) step"
    using st False by (auto simp: execute_single_target_step_def Let_def s1_def [symmetric] split: option.splits)
  from run_target_inv [OF s1 run] show ?thesis
    unfolding out by (cases step) (auto simp: step_outcome_def)
qed

lemma thread_errors_inv:
  "inv s \<Longrightarrow> inv (check_and_handle_thread_errors env t e s) \<and>
     ready (check_and_handle_thread_errors env t e s) = ready s"
  by (cases e) (auto simp: check_and_handle_thread_errors_def inv_threads)

lemma finalize_inv: "inv s \<Longrightarrow> inv (fst (finalize_exhausted_combo env cid last_r s))"
  by (simp add: finalize_exhausted_combo_def inv_world split: option.splits)

lemma sequential_inv:
  assumes "inv s" and "ready s" and "sequential_loop env c ts rs idxs a q s = Some (s', res)"
  shows "inv s'"
  using assms
proof (induction idxs arbitrary: a q s)
  case Nil
  then show ?case using finalize_inv [of s env "cb_id c" "sq_last_result q"] by simp
next
  case (Cons i idxs)
  show ?case
  proof (cases "skips_target ts i q")
    case True
    with Cons show ?thesis by simp
  next
    case False
    with Cons.prems(3) obtain s1 a1 out
      where step: "execute_single_target_step env c ts i rs a s = Some (s1, a1, out)"
      by (auto split: option.splits)
    note si = step_inv [OF Cons.prems(1,2) step]
    show ?thesis
    proof (cases out)
      case (Continue res1)
      then have s1: "inv s1" "ready s1" using si by simp_all
      show ?thesis
      proof (cases "Option.bind res1 pr_error")
        case None
        with Continue False step Cons.prems(3) Cons.IH [OF s1] show ?thesis by simp
      next
        case (Some e)
        let ?s = "check_and_handle_thread_errors env (ts ! i) e s1"
        have "inv ?s" "ready ?s" using thread_errors_inv [OF s1(1)] s1(2) by simp_all
        with Some Continue False step Cons.prems(3) Cons.IH [of ?s] show ?thesis by simp
      qed
    qed (use si False step Cons.prems(3) Cons.IH in auto)
  qed
qed

end

definition history_ok :: "'w exec_state \<Rightarrow> bool" where
  "history_ok s \<longleftrightarrow> list_all (\<lambda>(tes, committed, ok). \<not> committed) (xs_attempts s) \<and>
     list_all (\<lambda>(tes, committed, ok). \<not> ok) (butlast (xs_attempts s))"

lemma history_ok_snoc:
  assumes "history_ok s" and "ready s"
  shows "history_ok (s \<lparr> xs_world := w, xs_limiter := l, xs_committed := b,
     xs_attempts := xs_attempts s @ [(tes, xs_committed s, ok)] \<rparr>)"
proof -
  have "list_all (\<lambda>(tes, committed, ok). \<not> ok) (xs_attempts s)"
  proof (cases "xs_attempts s" rule: rev_cases)
    case (snoc xs x)
    then show ?thesis using assms by (auto simp: history_ok_def ready_def split_beta)
  qed simp
  then show ?thesis using assms by (auto simp: history_ok_def ready_def)
qed

interpretation history: executor_invariant history_ok
proof
  fix s :: "'w exec_state" and te :: target_execution_id and call :: "'w upstream_call"
  assume "history_ok s" and "ready s"
  then show "history_ok (fst (run_upstream te call s))"
    by (simp add: run_upstream_def split_beta history_ok_snoc)
qed (simp_all add: history_ok_def upd_world_def)

text \<open>The history only grows: no step forgets an attempt.\<close>

interpretation attempts_grow: executor_invariant "\<lambda>s. prefix h (xs_attempts s)" for h
  by unfold_locales (auto simp: run_upstream_def split_beta upd_world_def)

text \<open>
  C1: one response per request. In every run that starts with nothing sent, no upstream call is
  made after bytes were committed to the client, and every call but the last one failed: the
  executor never appends a second generation to a response and never calls on after a success.
\<close>

theorem single_response:
  assumes "upstream_executor_stage env combo to_run s = Some (s', res)"
    and "xs_attempts s = []" and "\<not> xs_committed s"
  shows "list_all (\<lambda>(tes, committed, ok). \<not> committed) (xs_attempts s') \<and>
     list_all (\<lambda>(tes, committed, ok). \<not> ok) (butlast (xs_attempts s'))"
proof -
  have s: "history_ok s" "ready s" using assms(2,3) by (simp_all add: history_ok_def ready_def)
  have "history_ok s'"
  proof (cases "combo = None \<or> to_run = []")
    case True
    with s assms(1) show ?thesis by (auto simp: upstream_executor_stage_def split: option.splits)
  next
    case False
    then obtain c where c: "combo = Some c" "to_run \<noteq> []" by auto
    obtain s1 o' where race: "try_initial_race env c to_run s = (s1, o')" by fastforce
    have s1: "history_ok s1 \<and> (case o' of None \<Rightarrow> ready s1
        | Some r \<Rightarrow> pr_error (ro_result r) \<noteq> None \<and> \<not> xs_committed s1 \<longrightarrow> ready s1)"
      using race s history_ok_snoc [OF s]
      by (auto simp: try_initial_race_def Let_def split_beta ready_def history.inv_world split: if_splits)
    show ?thesis
      using assms(1) c race s1 history.sequential_inv
      by (auto simp: upstream_executor_stage_def execute_sequential_targets_def split: option.splits if_splits)
  qed
  then show ?thesis by (simp add: history_ok_def)
qed

definition sample_result :: "core_error option \<Rightarrow> pipeline_result" where
  "sample_result e = \<lparr> pr_status_code = (case e of None \<Rightarrow> 200 | Some err \<Rightarrow> http_status err), pr_error = e,
     pr_final_response = None, pr_attempts = 1, pr_usage_tuple = None \<rparr>"

text \<open>An environment for examples: odd targets fail with 503, even ones answer.\<close>

definition sample_env :: "nat exec_env" where
  "sample_env =
     \<lparr> en_execute_single = (\<lambda>c t a r n w l. (w + 1, l, even (ct_id t),
          sample_result (if even (ct_id t) then None else Some (upstream 503 ''p'' ''m'' ''down'')))),
       en_run_proxy_race = (\<lambda>c t ps a w l. (w, l, False, sample_result (Some RaceLost))),
       en_run_race = (\<lambda>c ts n w l. (w, l, False,
          \<lparr> ro_result = sample_result (Some RaceLost), ro_failed_targets = {}, ro_failed_models = {} \<rparr>)),
       en_get_provider = (\<lambda>p w. None), en_candidate_proxies = (\<lambda>p n w. []),
       en_mark_client_response = (\<lambda>u w. w), en_record_predictive_skip = (\<lambda>c t a w. w),
       en_sleep = (\<lambda>d w. w + d), en_client_disconnected = (\<lambda>w. None), en_now_ms = (\<lambda>w. w + 1),
       en_jitter = (\<lambda>w. 0), en_hash = (\<lambda>xs. length xs), en_canonical_session = ''s'',
       en_ctx_attempt = 1,
       en_retries = \<lparr> rc_max_attempts = 2, rc_backoff_base_ms = 10, rc_backoff_factor = 2,
          rc_backoff_jitter_pct = 0, rc_idle_chunk_retryable = True, rc_combo_max_attempts = 1 \<rparr>,
       en_idle_chunk_retryable = True, en_max_race_size = 8 \<rparr>"

definition sample_target :: "int \<Rightarrow> combo_target" where
  "sample_target i = default_combo_target \<lparr> ct_id := i, ct_provider_id := ''p'' \<rparr>"

definition fresh_state :: "'w \<Rightarrow> 'w exec_state" where
  "fresh_state w = \<lparr> xs_world = w, xs_limiter = limiter_new, xs_threads = [], xs_walk_log = [],
     xs_committed = False, xs_attempts = [] \<rparr>"

lemma sample_env_ok: "env_ok sample_env"
  by (simp add: env_ok_def sample_env_def)

theorem executor_returns_witness:
  "\<exists>s' res. upstream_executor_stage sample_env (Some default_combo) [sample_target 1, sample_target 2]
     (fresh_state 0) = Some (s', res)"
  by (rule executor_returns [OF sample_env_ok])

theorem single_response_witness:
  "\<exists>s' res. upstream_executor_stage sample_env (Some default_combo) [sample_target 1, sample_target 2]
     (fresh_state 0) = Some (s', res) \<and>
     list_all (\<lambda>(tes, committed, ok). \<not> committed) (xs_attempts s') \<and>
     list_all (\<lambda>(tes, committed, ok). \<not> ok) (butlast (xs_attempts s'))"
proof -
  obtain s' res
    where run: "upstream_executor_stage sample_env (Some default_combo) [sample_target 1, sample_target 2]
        (fresh_state 0) = Some (s', res)"
    using stage_returns [OF sample_env_ok] by (metis not_None_eq prod.collapse)
  with single_response [OF run] show ?thesis by (auto simp: fresh_state_def)
qed

section \<open>Preventive skipping\<close>

lemma run_target_attempts:
  assumes "ready s" and run: "run_target_with_retries env c t rs n a s = Some (s', a', step)"
  shows "xs_attempts s' \<noteq> []"
proof -
  let ?u = "execute_single_target env c t a rs n s"
  have u: "last_call_matches (fst ?u) (snd ?u)" "xs_attempts (fst ?u) \<noteq> []"
    unfolding execute_single_target_def using run_upstream_matches by (auto simp: last_call_matches_def)
  obtain s2 st2 a2 res
    where loop: "retry_loop RETRY_FUEL env c t (target_retry_state_new env t rs n s) a (snd ?u) (fst ?u) =
       Some (s2, st2, a2, res)"
    using run by (auto simp: run_target_with_retries_def Let_def split_beta split: option.splits)
  have "prefix (xs_attempts (fst ?u)) (xs_attempts s2)"
    using attempts_grow.retry_loop_inv [OF _ u(1) loop] by blast
  then have "xs_attempts s2 \<noteq> []" using u(2) by auto
  with run loop show ?thesis
    by (auto simp: run_target_with_retries_def Let_def split_beta finalize_target_result_def
        log_target_failure_def upd_world_def split: sum.splits option.splits if_splits)
qed

lemma last_target_not_skipped: "\<not> should_skip_preventive_target env c t [] now l"
  by (simp add: should_skip_preventive_target_def split: target_readiness.splits)

lemma sequential_attempts:
  assumes "ready s" and conn: "\<forall>w. en_client_disconnected env w \<noteq> Some ClientDisconnected"
    and q: "sq_failed_targets q = {}" "sq_failed_models q = {}" "sq_failed_provider_models q = {}"
    and "k < length ts"
    and "sequential_loop env c ts rs [k..<length ts] a q s = Some (s', res)"
  shows "xs_attempts s' \<noteq> []"
  using assms(1,6,7)
proof (induction "length ts - k" arbitrary: k a s)
  case 0
  then show ?case by simp
next
  case (Suc m)
  have up: "[k..<length ts] = k # [Suc k..<length ts]" using Suc.prems(2) by (rule upt_conv_Cons)
  have no_skip: "\<not> skips_target ts k q" using q by (simp add: skips_target_def target_has_failed_def Let_def split: option.splits)
  have cc: "check_client_cancellation env s = None"
    using conn by (auto simp: check_client_cancellation_def split: option.splits cancel_reason.splits)
  obtain s1 a1 out where step: "execute_single_target_step env c ts k rs a s = Some (s1, a1, out)"
    using Suc.prems(3) no_skip unfolding up by (auto split: option.splits)
  show ?case
  proof (cases "should_skip_preventive_target env c (ts ! k) (drop (k + 1) ts) (en_now_ms env (xs_world s)) (xs_limiter s)")
    case True
    with step cc have out: "out = Skip" "s1 = upd_world (en_record_predictive_skip env c (ts ! k) a) s"
      by (auto simp: execute_single_target_step_def Let_def)
    have "Suc k < length ts"
      using True last_target_not_skipped [of env c "ts ! k"] Suc.prems(2)
      by (metis Suc_eq_plus1 Suc_lessI drop_all order_refl)
    moreover have "m = length ts - Suc k" using Suc.hyps(2) by simp
    ultimately show ?thesis
      using Suc.hyps(1) [of "Suc k" s1 a1] Suc.prems(1,3) no_skip step out unfolding up by simp
  next
    case False
    define s0 where "s0 = (if cb_preventive_rate_limit c
       then s \<lparr> xs_limiter := fst (acquire_key (xs_limiter s) (compute_target_key (en_hash env) (ts ! k))
                  (en_now_ms env (xs_world s))) \<rparr> else s)"
    have "ready s0" using Suc.prems(1) by (simp add: s0_def)
    moreover obtain a2 st2 where "run_target_with_retries env c (ts ! k) rs (length ts) a s0 = Some (s1, a2, st2)"
      using step cc False by (auto simp: execute_single_target_step_def Let_def s0_def [symmetric] split: option.splits)
    ultimately have ne: "xs_attempts s1 \<noteq> []" by (rule run_target_attempts)
    have rdy: "case out of Finish _ \<Rightarrow> True | _ \<Rightarrow> ready s1"
      using attempts_grow.step_inv [of "[]", OF _ Suc.prems(1) step] by simp
    have te: "xs_attempts (check_and_handle_thread_errors env (ts ! k) e s1) = xs_attempts s1"
      "ready (check_and_handle_thread_errors env (ts ! k) e s1) = ready s1" for e
      using attempts_grow.thread_errors_inv [of "[]" s1]
      by (cases e; simp add: check_and_handle_thread_errors_def)+
    have grow: "prefix (xs_attempts s1) (xs_attempts s')"
      if "sequential_loop env c ts rs is a' q' s2 = Some (s', res)" "ready s2" "xs_attempts s2 = xs_attempts s1"
      for "is" a' q' s2
      using attempts_grow.sequential_inv [OF _ that(2,1), of "xs_attempts s1"] that(3) by simp
    have "prefix (xs_attempts s1) (xs_attempts s')"
    proof (cases out)
      case (Continue res1)
      then show ?thesis
        using Suc.prems(3) no_skip step rdy te grow unfolding up
        by (cases "Option.bind res1 pr_error") simp_all
    qed (use Suc.prems(3) no_skip step rdy grow up in simp_all)
    with ne show ?thesis by auto
  qed
qed

text \<open>
  preventive rate limiting never turns a request away unattempted. Without an initial race and
  while the client stays connected, at least one upstream call is made however saturated the
  targets are, because a target is only skipped in favour of a later one.
\<close>

theorem preventive_limit_still_attempts:
  assumes "upstream_executor_stage env (Some c) to_run s = Some (s', res)"
    and "to_run \<noteq> []" and "cb_race_size c \<le> 1" and "xs_attempts s = []" and "\<not> xs_committed s"
    and "\<forall>w. en_client_disconnected env w \<noteq> Some ClientDisconnected"
  shows "xs_attempts s' \<noteq> []"
proof -
  have rdy: "ready s" using assms(4,5) by (simp add: ready_def)
  have "execute_sequential_targets env c to_run (execution_race_size env c to_run) None {} {} s = Some (s', res)"
    using assms(1-3) by (simp add: upstream_executor_stage_def try_initial_race_def)
  then show ?thesis
    unfolding execute_sequential_targets_def
    using assms(2) by (intro sequential_attempts [OF rdy assms(6)]) simp_all
qed

theorem preventive_limit_still_attempts_witness:
  "\<exists>s' res. upstream_executor_stage sample_env (Some (default_combo \<lparr> cb_preventive_rate_limit := True \<rparr>))
     [sample_target 1, sample_target 2] (fresh_state 0) = Some (s', res) \<and> xs_attempts s' \<noteq> []"
proof -
  let ?c = "default_combo \<lparr> cb_preventive_rate_limit := True \<rparr>"
  obtain s' res
    where run: "upstream_executor_stage sample_env (Some ?c) [sample_target 1, sample_target 2]
        (fresh_state 0) = Some (s', res)"
    using stage_returns [OF sample_env_ok] by (metis not_None_eq prod.collapse)
  from preventive_limit_still_attempts [OF run] run show ?thesis
    by (simp add: fresh_state_def sample_env_def default_combo_def)
qed

end
