(* ===== verification/Router.thy ===== *)
theory Router
  imports Combo_Resolve Circuit_Breaker Modality_Gate Decision_Routing Credentials Executor
begin

text \<open>
  The stages of a request (openproxy-pipeline/src/stages/router.rs, stages/quota.rs,
  stages/telemetry.rs and the target resolution of execution.rs): from the combo of a request to the
  list of targets the executor walks. The database, the breaker registry, the round-robin counters
  and the affinity registry are the state; the clocks, the random draws and the third-party parts are
  the environment. One instant stands for the clock during the routing of a request.
\<close>

section \<open>State and environment\<close>

record router_state =
  rs_db :: database
  rs_breaker :: cb_registry
  rs_rr_counters :: rr_counters
  rs_affinity :: affinity_registry
  rs_walk_log :: "string list"

record router_env =
  re_now_secs :: int
  re_instant :: nat
  re_now_ms :: nat
  re_rng :: rng
  re_selection :: selection_registry
  re_limiter :: limiter
  re_hash :: "hash_item list \<Rightarrow> nat"
  re_to_string :: "json \<Rightarrow> string"
  re_ask :: "system_one_request \<Rightarrow> nat \<Rightarrow> core_error + system_one_answer option"
  re_cred :: cred_env
  re_store :: cred_store
  re_master_key :: master_key
  re_has_oauth_registry :: bool
  re_cooldown_defaults :: cooldown_defaults
  re_modality_routing :: modality_routing_config
  re_quota :: quota_env
  re_quota_protection_enabled :: bool
  re_quota_threshold :: nat
  re_get_account :: "account_id \<Rightarrow> quota_account option"

record pipeline_request =
  pq_combo_id :: combo_id
  pq_combo_override :: "combo option"
  pq_targets_override :: "combo_target list option"
  pq_model :: string
  pq_attempt :: nat
  pq_affinity :: affinity_request

abbreviation pq_messages :: "pipeline_request \<Rightarrow> openai_message list" where
  "pq_messages req \<equiv> ar_messages (pq_affinity req)"

section \<open>The targets of a combo\<close>

definition load_combo :: "database \<Rightarrow> pipeline_request \<Rightarrow> core_error + combo" where
  "load_combo db req =
     (case pq_combo_override req of
        Some c \<Rightarrow> Inr c
      | None \<Rightarrow>
          (case find_combo db (pq_combo_id req) of Some c \<Rightarrow> Inr c | None \<Rightarrow> Inl (ComboNotFound (pq_combo_id req))))"

definition resolve_targets_blocking ::
    "router_env \<Rightarrow> database \<Rightarrow> rr_counters \<Rightarrow> combo \<Rightarrow> combo_target list option \<Rightarrow> combo_target list \<times> rr_counters" where
  "resolve_targets_blocking env db rr c overrides =
     (let targets = (case overrides of Some ts \<Rightarrow> ts | None \<Rightarrow> list_targets (re_now_secs env) db (cb_id c));
          (ordered, rr') = execute_load_balancing (re_now_ms env) (re_rng env) targets c rr (re_selection env)
      in (expand_account_rotation (re_now_secs env) db ordered, rr'))"

definition take_over :: "combo_target \<Rightarrow> combo_target \<Rightarrow> combo_target" where
  "take_over t st =
     (let st1 = (case ct_description t of
            Some d \<Rightarrow> if ct_description st = None then st \<lparr> ct_description := Some d \<rparr> else st | None \<Rightarrow> st)
      in case ct_thinking_effort t of Some e \<Rightarrow> st1 \<lparr> ct_thinking_effort := Some e \<rparr> | None \<Rightarrow> st1)"

fun flatten_each ::
    "int \<Rightarrow> database \<Rightarrow> combo_target list \<Rightarrow> combo_id list \<Rightarrow> core_error + combo_target list" where
  "flatten_each now db [] visited = Inr []"
| "flatten_each now db (t # ts) visited =
     (case ct_sub_combo_id t of
        None \<Rightarrow> map_sum id (Cons t) (flatten_each now db ts visited)
      | Some sub_id \<Rightarrow>
          (case resolve_combo_to_targets now db sub_id visited 0 of
             Inl e \<Rightarrow> Inl e
           | Inr (sub_flat, visited') \<Rightarrow>
               map_sum id (\<lambda>rest. map (take_over t) sub_flat @ rest) (flatten_each now db ts visited')))"

definition flatten_sub_combos :: "int \<Rightarrow> database \<Rightarrow> combo_id \<Rightarrow> combo_target list \<Rightarrow> core_error + combo_target list" where
  "flatten_sub_combos now db root_id targets =
     map_sum id (expand_account_rotation now db) (flatten_each now db targets [root_id])"

definition flatten_targets :: "int \<Rightarrow> database \<Rightarrow> combo_id \<Rightarrow> combo_target list \<Rightarrow> core_error + combo_target list" where
  "flatten_targets now db root_id targets =
     (if \<not> list_ex (\<lambda>t. ct_sub_combo_id t \<noteq> None) targets then Inr targets
      else flatten_sub_combos now db root_id targets)"

definition resolve_initial_targets ::
    "router_env \<Rightarrow> router_state \<Rightarrow> pipeline_request \<Rightarrow> combo \<Rightarrow> router_state \<times> (core_error + combo_target list)" where
  "resolve_initial_targets env s req c =
     (let (targets, rr) = resolve_targets_blocking env (rs_db s) (rs_rr_counters s) c (pq_targets_override req)
      in (s \<lparr> rs_rr_counters := rr \<rparr>, flatten_targets (re_now_secs env) (rs_db s) (cb_id c) targets))"

section \<open>Health\<close>

fun partition_by_health ::
    "router_env \<Rightarrow> cb_registry \<Rightarrow> combo_target list \<Rightarrow> cb_registry \<times> combo_target list \<times> combo_target list" where
  "partition_by_health env r [] = (r, [], [])"
| "partition_by_health env r (t # ts) =
     (let (r1, ok) = is_target_healthy r t (re_instant env) (re_now_ms env);
          (r2, eligible, parked) = partition_by_health env r1 ts
      in if ok then (r2, t # eligible, parked) else (r2, eligible, t # parked))"

definition partition_healthy_targets ::
    "router_env \<Rightarrow> cb_registry \<Rightarrow> combo_target list \<Rightarrow> cb_registry \<times> combo_target list" where
  "partition_healthy_targets env r flat_targets =
     (let (r', eligible, parked) = partition_by_health env r flat_targets
      in if eligible = [] \<and> parked \<noteq> [] then (r', parked)
         else if parked \<noteq> [] then (r', eligible @ parked)
         else (r', eligible))"

definition auto_populate_empty_combo :: "database \<Rightarrow> combo_id \<Rightarrow> nat" where
  "auto_populate_empty_combo db cid = 0"

definition do_auto_populate :: "int \<Rightarrow> database \<Rightarrow> combo_id \<Rightarrow> nat" where
  "do_auto_populate now db cid =
     (if list_targets now db cid \<noteq> [] then 0 else auto_populate_empty_combo db cid)"

definition try_repopulate_targets ::
    "router_env \<Rightarrow> router_state \<Rightarrow> pipeline_request \<Rightarrow> combo \<Rightarrow> router_state \<times> (core_error + combo_target list)" where
  "try_repopulate_targets env s req c =
     (if pq_attempt req \<noteq> 1 \<or> do_auto_populate (re_now_secs env) (rs_db s) (cb_id c) = 0 then (s, Inr [])
      else
        (let (s1, flat) = resolve_initial_targets env s req c
         in case flat of
              Inl e \<Rightarrow> (s1, Inl e)
            | Inr ts \<Rightarrow>
                (let (r, eligible, _) = partition_by_health env (rs_breaker s1) ts
                 in (s1 \<lparr> rs_breaker := r \<rparr>, Inr eligible))))"

section \<open>The router stage\<close>

definition active_cooldown_query :: "router_env \<Rightarrow> router_state \<Rightarrow> combo_id \<Rightarrow> core_error + combo_target_id set" where
  "active_cooldown_query env s cid = Inr (get_active_cooldown_target_ids (re_now_secs env) (rs_db s) cid)"

definition modality_stage ::
    "router_env \<Rightarrow> pipeline_request \<Rightarrow> combo \<Rightarrow> resolved_target list \<Rightarrow> core_error + resolved_target list" where
  "modality_stage env req c resolved =
     (let required = request_required_modalities (pq_messages req)
      in if required_any required then
           (let filtered = filter_targets_for_modalities resolved required
                  (effective_config (re_modality_routing env) (cb_modality_gate c))
            in if filtered = [] then Inl (NoHealthyTargets (cb_id c)) else Inr filtered)
         else Inr resolved)"

definition session_pin ::
    "router_env \<Rightarrow> router_state \<Rightarrow> combo \<Rightarrow> nat option \<Rightarrow> bool \<Rightarrow> resolved_target list \<Rightarrow> router_state \<times> combo_target_id option" where
  "session_pin env s c session_hash reset resolved =
     (case session_hash of
        None \<Rightarrow> (s, None)
      | Some h \<Rightarrow>
          (if reset then (s, None)
           else
             (let (aff, pinned) = affinity_get (re_now_ms env) (h, cb_id c) (rs_affinity s)
              in case pinned of
                   None \<Rightarrow> (s \<lparr> rs_affinity := aff \<rparr>, None)
                 | Some p \<Rightarrow>
                     (if list_ex (\<lambda>rt. rt_id rt = p) resolved
                      then (s \<lparr> rs_affinity := aff, rs_walk_log := rs_walk_log s @ [''session_affinity:active='' @ show_int p] \<rparr>, Some p)
                      else (s \<lparr> rs_affinity := affinity_invalidate (h, cb_id c) aff \<rparr>, None)))))"

definition decision_env_of :: "router_env \<Rightarrow> decision_env" where
  "decision_env_of env =
     \<lparr> de_hash = re_hash env, de_to_string = re_to_string env, de_now_ms = re_now_ms env, de_limiter = re_limiter env,
       de_selection = re_selection env, de_ask = re_ask env \<rparr>"

definition decision_stage ::
    "router_env \<Rightarrow> router_state \<Rightarrow> pipeline_request \<Rightarrow> combo \<Rightarrow> resolved_target list \<Rightarrow>
     router_state \<times> resolved_target list \<times> nat option" where
  "decision_stage env s req c resolved =
     (if cb_priority_mode c = Decision then
        (let session_hash = extract_session_hash (re_hash env) (re_to_string env) (pq_affinity req);
             (s1, pinned) = session_pin env s c session_hash (should_reset (pq_affinity req)) resolved;
             (resolved', log) = apply_decision_routing (decision_env_of env) (active_cooldown_query env s1 (cb_id c))
                (pq_messages req) c resolved pinned
         in (s1 \<lparr> rs_walk_log := rs_walk_log s1 @ log \<rparr>, resolved', session_hash))
      else (s, resolved, None))"

record route_plan =
  rp_combo :: combo
  rp_targets :: "resolved_target list"
  rp_session_hash :: "nat option"

text \<open>The part of the router stage before it hands over to the next stage; \<open>None\<close> is an abort.\<close>

definition route_candidates ::
    "router_env \<Rightarrow> router_state \<Rightarrow> pipeline_request \<Rightarrow> combo \<Rightarrow> router_state \<times> (core_error + combo_target list)" where
  "route_candidates env s req c =
     (case resolve_initial_targets env s req c of
        (s1, Inl e) \<Rightarrow> (s1, Inl e)
      | (s1, Inr flat) \<Rightarrow>
          (let (r, eligible) = partition_healthy_targets env (rs_breaker s1) flat;
               s2 = s1 \<lparr> rs_breaker := r \<rparr>
           in case (if eligible = [] then try_repopulate_targets env s2 req c else (s2, Inr eligible)) of
                (s3, Inl e) \<Rightarrow> (s3, Inl e)
              | (s3, Inr eligible') \<Rightarrow>
                  (if eligible' = [] then (s3, Inl (NoHealthyTargets (cb_id c))) else (s3, Inr eligible'))))"

definition plan_route ::
    "router_env \<Rightarrow> router_state \<Rightarrow> pipeline_request \<Rightarrow> combo \<Rightarrow> (router_state \<times> (core_error + route_plan)) option" where
  "plan_route env s req c =
     (case route_candidates env s req c of
        (s3, Inl e) \<Rightarrow> Some (s3, Inl e)
      | (s3, Inr eligible) \<Rightarrow>
          (case resolve_combo_targets_full (re_cred env) (re_now_secs env) (rs_db s3) (re_store env) (re_master_key env)
                  (re_has_oauth_registry env) (re_cooldown_defaults env) (\<lambda>i. Inr (find_combo (rs_db s3) i))
                  (active_cooldown_query env s3) eligible of
             None \<Rightarrow> None
           | Some (resolved, db) \<Rightarrow>
               (let s4 = s3 \<lparr> rs_db := db \<rparr>
                in if resolved = [] then Some (s4, Inl (NoHealthyTargets (cb_id c)))
                   else
                     (case modality_stage env req c resolved of
                        Inl e \<Rightarrow> Some (s4, Inl e)
                      | Inr filtered \<Rightarrow>
                          (let (s5, targets, session_hash) = decision_stage env s4 req c filtered
                           in Some (s5, Inr \<lparr> rp_combo = c, rp_targets = targets, rp_session_hash = session_hash \<rparr>))))))"

text \<open>After the next stage has answered, a successful session is pinned to the target that served it.\<close>

definition pin_success ::
    "router_env \<Rightarrow> router_state \<Rightarrow> route_plan \<Rightarrow> resolved_target list \<Rightarrow> pipeline_result \<Rightarrow> router_state" where
  "pin_success env s plan targets res =
     (if cb_priority_mode (rp_combo plan) = Decision \<and> pr_error res = None \<and>
         200 \<le> pr_status_code res \<and> pr_status_code res \<le> 299 then
        (case rp_session_hash plan of
           None \<Rightarrow> s
         | Some h \<Rightarrow>
             (case (case pr_usage_tuple res of
                      Some (_, _, tid) \<Rightarrow> Some tid
                    | None \<Rightarrow> (case targets of rt # _ \<Rightarrow> Some (rt_id rt) | [] \<Rightarrow> None)) of
                Some tid \<Rightarrow> s \<lparr> rs_affinity := affinity_set (re_now_ms env) (h, cb_id (rp_combo plan)) tid (rs_affinity s) \<rparr>
              | None \<Rightarrow> s))
      else s)"

section \<open>The quota stage\<close>

definition quota_enforcer_stage ::
    "router_env \<Rightarrow> pipeline_request \<Rightarrow> combo option \<Rightarrow> resolved_target list \<Rightarrow> core_error + resolved_target list" where
  "quota_enforcer_stage env req c eligible =
     (if eligible = [] then Inr eligible
      else
        (let filtered = apply_quota_routing (re_quota env) (nat (re_now_secs env)) (re_quota_protection_enabled env)
               (re_quota_threshold env) (re_get_account env) (pq_model req) eligible
         in case c of
              Some c' \<Rightarrow> if filtered = [] then Inl (NoHealthyTargets (cb_id c')) else Inr filtered
            | None \<Rightarrow> Inr filtered))"

section \<open>The pipeline\<close>

text \<open>
  The chain of \<open>Pipeline::run\<close>: the telemetry stage turns an error into a failed result, the router
  plans, the quota stage filters, the executor walks and takes the targets out of the context, so
  none is left when the router pins the session. The last component says that the usage table gets a
  row for a request without healthy targets.
\<close>

definition pipeline_run ::
    "router_env \<Rightarrow> 'w exec_env \<Rightarrow> pipeline_request \<Rightarrow> router_state \<Rightarrow> 'w exec_state \<Rightarrow>
     (router_state \<times> 'w exec_state \<times> pipeline_result \<times> bool) option" where
  "pipeline_run env xenv req s x =
     (let fail = (\<lambda>s x combo e. Some (s, x, pipeline_failure e (pq_attempt req),
            (case e of NoHealthyTargets _ \<Rightarrow> combo \<noteq> (None :: combo option) | _ \<Rightarrow> False)))
      in case load_combo (rs_db s) req of
           Inl e \<Rightarrow> fail s x None e
         | Inr c \<Rightarrow>
             (case plan_route env s req c of
                None \<Rightarrow> None
              | Some (s1, Inl e) \<Rightarrow> fail s1 x (Some c) e
              | Some (s1, Inr plan) \<Rightarrow>
                  (case quota_enforcer_stage env req (Some c) (rp_targets plan) of
                     Inl e \<Rightarrow> fail s1 x (Some c) e
                   | Inr targets \<Rightarrow>
                       (case upstream_executor_stage xenv (Some c) (map rt_target targets) x of
                          None \<Rightarrow> None
                        | Some (x1, Inl e) \<Rightarrow> fail s1 x1 (Some c) e
                        | Some (x1, Inr res) \<Rightarrow> Some (pin_success env s1 plan [] res, x1, res, False)))))"

section \<open>Healthy targets first\<close>

definition target_healthy :: "router_env \<Rightarrow> cb_registry \<Rightarrow> combo_target \<Rightarrow> bool" where
  "target_healthy env r t = snd (is_target_healthy r t (re_instant env) (re_now_ms env))"

lemma cb_ok_is_healthy: "cb_ok r \<Longrightarrow> cb_ok (fst (is_healthy r k t ms))"
  using cb_ok_read [of r k t ms] cb_ok_write by (auto simp: is_healthy_def split: prod.splits option.splits)

lemma cb_ok_target_healthy: "cb_ok r \<Longrightarrow> cb_ok (fst (is_target_healthy r t i ms))"
  using cb_ok_is_healthy [of r _ i ms] by (auto simp: is_target_healthy_def split: option.split prod.splits) (metis fst_conv)

text \<open>Asking for the health of one target does not change the answer for any.\<close>

lemma target_healthy_stable:
  assumes "cb_ok r"
  shows "target_healthy env (fst (is_target_healthy r t (re_instant env) (re_now_ms env))) u = target_healthy env r u"
proof -
  have poll: "view_poll i (view_poll i v) = view_poll i v" for i v by (cases v) auto
  have key: "snd (is_healthy (fst (is_healthy r k i ms)) k' i ms) = snd (is_healthy r k' i ms)" for k k' i ms
    using is_healthy_view(1) [OF cb_ok_is_healthy [OF assms]] is_healthy_view [OF assms] by (simp add: poll)
  have *: "fst (is_target_healthy r t i ms) = (case ct_account_id t of None \<Rightarrow> r
      | Some a \<Rightarrow> fst (is_healthy r (cb_key_from_target a (ct_rate_limit_scope t) (ct_model_row_id t)) i ms))" for i ms
    by (simp add: is_target_healthy_def split: option.split prod.split)
  have **: "snd (is_target_healthy r' u i ms) = (case ct_account_id u of None \<Rightarrow> True
      | Some a \<Rightarrow> snd (is_healthy r' (cb_key_from_target a (ct_rate_limit_scope u) (ct_model_row_id u)) i ms) = Healthy)" for r' i ms
    by (simp add: is_target_healthy_def split: option.split prod.split)
  show ?thesis unfolding target_healthy_def * ** by (simp add: key split: option.split)
qed

lemma partition_by_health_eq:
  "cb_ok r \<Longrightarrow> snd (partition_by_health env r ts) = (filter (target_healthy env r) ts, filter (\<lambda>t. \<not> target_healthy env r t) ts)"
proof (induction ts arbitrary: r)
  case (Cons t ts)
  let ?q = "is_target_healthy r t (re_instant env) (re_now_ms env)"
  have "target_healthy env (fst ?q) = target_healthy env r" using target_healthy_stable [OF Cons.prems] by blast
  with Cons.IH [OF cb_ok_target_healthy [OF Cons.prems, of t "re_instant env" "re_now_ms env"]]
  show ?case by (auto simp: target_healthy_def Let_def split: prod.splits)
qed simp

text \<open>
  health is a priority, never an exclusion. The router hands on every target exactly once, those
  whose breaker lets them through first and the parked ones after them, each group in its old order.
\<close>

theorem healthy_targets_first:
  assumes "cb_ok r"
  shows "snd (partition_healthy_targets env r ts) =
     filter (target_healthy env r) ts @ filter (\<lambda>t. \<not> target_healthy env r t) ts"
  using partition_by_health_eq [OF assms, of env ts]
  by (auto simp: partition_healthy_targets_def Let_def split: prod.splits)

section \<open>What reaches the executor\<close>

lemma inherit_sub [simp]: "ct_sub_combo_id (inherit_from p st) = ct_sub_combo_id st"
  by (simp add: inherit_from_def Let_def split: option.splits)

lemma take_over_sub [simp]: "ct_sub_combo_id (take_over p st) = ct_sub_combo_id st"
  by (simp add: take_over_def Let_def split: option.splits)

lemma resolve_each_cons:
  "ct_sub_combo_id u = None \<Longrightarrow> resolve_each_target now db (u # us) v d = Inr (ts, v') \<longleftrightarrow>
     (\<exists>rest. resolve_each_target now db us v d = Inr (rest, v') \<and> ts = u # rest)"
  "ct_sub_combo_id u = Some i \<Longrightarrow> resolve_each_target now db (u # us) v d = Inr (ts, v') \<longleftrightarrow>
     (\<exists>sub v1 rest. resolve_combo_to_targets now db i v (Suc d) = Inr (sub, v1) \<and>
        resolve_each_target now db us v1 d = Inr (rest, v') \<and> ts = map (inherit_from u) sub @ rest)"
  by (auto split: sum.splits)

lemma resolve_leaves:
  "resolve_combo_to_targets now db cid v d = Inr (ts, v') \<Longrightarrow> t \<in> set ts \<Longrightarrow> ct_sub_combo_id t = None"
  "resolve_each_target now db us v d = Inr (ts, v') \<Longrightarrow> t \<in> set ts \<Longrightarrow> ct_sub_combo_id t = None"
proof (induction now db cid v d and now db us v d arbitrary: ts v' t and ts v' t rule: resolve_combo_to_targets_resolve_each_target.induct)
  case (1 now db cid visited depth)
  then show ?case by (auto simp: resolve_combo_to_targets.simps split: sum.splits)
next
  case (3 now db u us visited depth)
  show ?case
  proof (cases "ct_sub_combo_id u")
    case None
    then obtain rest where "ts = u # rest" "resolve_each_target now db us visited depth = Inr (rest, v')"
      using 3(3) unfolding resolve_each_cons(1) [OF None] by blast
    with 3(2) [of "([u], visited)" "[u]" visited] 3(4) None show ?thesis by auto
  next
    case (Some i)
    then obtain sub v1 rest where sub: "resolve_combo_to_targets now db i visited (Suc depth) = Inr (sub, v1)"
        "resolve_each_target now db us v1 depth = Inr (rest, v')" "ts = map (inherit_from u) sub @ rest"
      using 3(3) unfolding resolve_each_cons(2) [OF Some] by blast
    from 3(1) [OF Some sub(1)] 3(2) [OF _ refl sub(2)] 3(4) sub Some show ?thesis by auto
  qed
qed (auto simp: resolve_combo_to_targets.simps)

lemma flatten_each_leaves: "flatten_each now db ts v = Inr flat \<Longrightarrow> t \<in> set flat \<Longrightarrow> ct_sub_combo_id t = None"
proof (induction ts arbitrary: flat v)
  case (Cons u us)
  show ?case
  proof (cases "ct_sub_combo_id u")
    case None
    with Cons show ?thesis by (auto simp: map_sum_def split: sum.splits)
  next
    case (Some i)
    then obtain sub v1 rest where sub: "resolve_combo_to_targets now db i v 0 = Inr (sub, v1)"
        "flatten_each now db us v1 = Inr rest" "flat = map (take_over u) sub @ rest"
      using Cons.prems(1) by (auto simp: map_sum_def split: sum.splits)
    with Cons.prems(2) resolve_leaves(1) [OF sub(1)] Cons.IH [OF sub(2)] show ?thesis by auto
  qed
qed simp

text \<open>
  The row a flattened target inherits its system prefixes from is set by the recursive resolution
  only: flattening the targets of the routed combo itself leaves it as it was, so the direct targets of
  a first sub-combo do not know the row that names it.
\<close>

lemma take_over_inherited: "ct_inherited_target_id (take_over p st) = ct_inherited_target_id st"
  by (simp add: take_over_def Let_def split: option.splits)

text \<open>A target the router may hand on: a leaf whose account, when the table knows it, is active.\<close>

definition routable :: "database \<Rightarrow> combo_target \<Rightarrow> bool" where
  "routable db t \<longleftrightarrow> ct_sub_combo_id t = None \<and>
     (case ct_account_id t of None \<Rightarrow> True
      | Some a \<Rightarrow> (case find_account db a of None \<Rightarrow> True | Some r \<Rightarrow> ac_active r))"

lemma rotation_routable:
  assumes "distinct (map ac_id (db_accounts db))" and "\<forall>t \<in> set ts. ct_sub_combo_id t = None"
    and "t \<in> set (expand_account_rotation now db ts)"
  shows "routable db t"
proof -
  obtain u where u: "u \<in> set ts" "t = u \<or> (\<exists>a. t = u \<lparr> ct_account_id := Some a \<rparr>)"
    using expanded_target [OF assms(1,3)] by fast
  have active: "ct_sub_combo_id t = None \<Longrightarrow> (case ct_account_id t of None \<Rightarrow> True
         | Some a \<Rightarrow> (case find_account db a of None \<Rightarrow> True | Some r \<Rightarrow> ac_active r))"
    using expanded_target [OF assms(1,3)] by fast
  have "ct_sub_combo_id t = None" using u assms(2) by auto
  with active show ?thesis by (simp add: routable_def)
qed

lemma flatten_targets_routable:
  assumes "distinct (map ac_id (db_accounts db))" and "ts = expand_account_rotation now db us"
    and "flatten_targets now db cid ts = Inr flat" and "t \<in> set flat"
  shows "routable db t"
proof (cases "list_ex (\<lambda>t. ct_sub_combo_id t \<noteq> None) ts")
  case True
  with assms(3) obtain leaves where "flatten_each now db ts [cid] = Inr leaves" "flat = expand_account_rotation now db leaves"
    by (auto simp: flatten_targets_def flatten_sub_combos_def map_sum_def split: sum.splits)
  moreover from this have "\<forall>t \<in> set leaves. ct_sub_combo_id t = None" using flatten_each_leaves by blast
  ultimately show ?thesis using rotation_routable [OF assms(1)] assms(4) by simp
next
  case False
  then have "flat = ts" and leaf: "ct_sub_combo_id t = None"
    using assms(3,4) by (auto simp: flatten_targets_def list_ex_iff)
  then have "t \<in> set (expand_account_rotation now db us)" using assms(2,4) by simp
  from expanded_target [OF assms(1) this] leaf show ?thesis by (auto simp: routable_def)
qed

lemma initial_targets_routable:
  assumes "distinct (map ac_id (db_accounts (rs_db s)))" and "resolve_initial_targets env s req c = (s1, res)"
  shows "rs_db s1 = rs_db s" and "res = Inr flat \<Longrightarrow> t \<in> set flat \<Longrightarrow> routable (rs_db s) t"
  using assms flatten_targets_routable [OF assms(1) refl]
  by (auto simp: resolve_initial_targets_def resolve_targets_blocking_def Let_def split: prod.splits)

lemma partition_by_health_subset:
  "set (fst (snd (partition_by_health env r ts))) \<union> set (snd (snd (partition_by_health env r ts))) = set ts"
  by (induction ts arbitrary: r) (auto simp: Let_def case_prod_beta)

lemma partition_healthy_subset: "partition_healthy_targets env r ts = (r', el) \<Longrightarrow> set el \<subseteq> set ts"
  using partition_by_health_subset [of env r ts]
  by (auto simp: partition_healthy_targets_def Let_def split: prod.splits if_splits)

text \<open>
  The repopulation of an empty combo never adds a target: the query that should do it answers zero,
  so the branch that would resolve the targets again is not reached.
\<close>

lemma no_repopulation: "try_repopulate_targets env s req c = (s, Inr [])"
proof -
  have "do_auto_populate (re_now_secs env) (rs_db s) (cb_id c) = 0"
    by (simp add: do_auto_populate_def auto_populate_empty_combo_def)
  then show ?thesis by (simp add: try_repopulate_targets_def)
qed

lemma route_candidates_routable:
  assumes "distinct (map ac_id (db_accounts (rs_db s)))" and "route_candidates env s req c = (s3, res)"
  shows "rs_db s3 = rs_db s" and "res = Inr el \<Longrightarrow> t \<in> set el \<Longrightarrow> routable (rs_db s) t"
proof -
  obtain s1 res1 where init: "resolve_initial_targets env s req c = (s1, res1)" by fastforce
  note i = initial_targets_routable [OF assms(1) init]
  have "rs_db s3 = rs_db s \<and> (res = Inr el \<longrightarrow> t \<in> set el \<longrightarrow> routable (rs_db s) t)"
  proof (cases res1)
    case (Inl e)
    with assms(2) init i(1) show ?thesis by (auto simp: route_candidates_def)
  next
    case (Inr flat)
    obtain r el1 where ph: "partition_healthy_targets env (rs_breaker s1) flat = (r, el1)" by fastforce
    from assms(2) init Inr ph i partition_healthy_subset [OF ph] show ?thesis
      by (auto simp: route_candidates_def no_repopulation Let_def split: prod.splits sum.splits if_splits)
  qed
  then show "rs_db s3 = rs_db s" and "res = Inr el \<Longrightarrow> t \<in> set el \<Longrightarrow> routable (rs_db s) t" by auto
qed

text \<open>A target the executor may call: routable, with an active model, and a key or an anonymous provider.\<close>

definition admissible :: "router_env \<Rightarrow> database \<Rightarrow> combo_target \<Rightarrow> bool" where
  "admissible env db t \<longleftrightarrow> routable db t \<and>
     target_callable (re_cred env) (table_maps (re_cred env) db (re_store env)) (re_master_key env) t"

lemma admissible_unranked:
  assumes "unranked r = unranked r'"
  shows "admissible env db (rt_target r) = admissible env db (rt_target r')"
proof -
  have "admissible env db (t \<lparr> ct_priority_order := p \<rparr>) = admissible env db t" for t p
    by (simp add: admissible_def routable_def target_callable_def is_anonymous_target_def split: option.split)
  then show ?thesis using arg_cong [OF assms, of rt_target] unfolding unranked_def by simp metis
qed

lemma resolved_callable:
  assumes "resolve_combo_targets_full env now db store mk reg d load act ts = Some (resolved, db')"
    and "r \<in> set resolved"
  shows "rt_target r \<in> set ts" and "target_callable env (table_maps env db store) mk (rt_target r)"
proof -
  have "ts \<noteq> []" using assms by (auto simp: resolve_combo_targets_full_def)
  with assms(1) have "\<exists>names cds. resolved = fst (resolve_credentials_with_rejects env now ts (resolution_maps_for env db store ts) mk reg names cds)"
    by (auto simp: resolve_combo_targets_full_def Let_def split: prod.splits option.splits) (metis fst_conv)
  then have "rt_target r \<in> set (filter (target_callable env (resolution_maps_for env db store ts) mk) ts)"
    using assms(2) resolved_targets_exact by (metis image_eqI list.set_map)
  then show "rt_target r \<in> set ts" and "target_callable env (table_maps env db store) mk (rt_target r)"
    using batch_callable by auto
qed

lemma modality_stage_subset: "modality_stage env req c ts = Inr ts' \<Longrightarrow> set ts' \<subseteq> set ts"
  by (auto simp: modality_stage_def filter_targets_for_modalities_def Let_def split: if_splits)

lemma decision_stage_unranked:
  assumes "decision_stage env s req c ts = (s', ts', h)" and "r \<in> set ts'"
  shows "\<exists>r' \<in> set ts. unranked r = unranked r'"
proof (cases "cb_priority_mode c = Decision")
  case True
  then obtain q pin where "ts' = fst (apply_decision_routing (decision_env_of env) q (pq_messages req) c ts pin)"
    using assms(1) by (auto simp: decision_stage_def Let_def split: prod.splits) (metis fst_conv)
  then have "unranked ` set ts' = unranked ` set ts"
    using decision_routing_mset by (metis image_set mset_eq_setD)
  then show ?thesis using assms(2) by (metis imageE imageI)
next
  case False
  with assms show ?thesis by (auto simp: decision_stage_def)
qed

lemma plan_route_admissible:
  assumes ids: "distinct (map ac_id (db_accounts (rs_db s)))"
    and plan: "plan_route env s req c = Some (s', Inr plan)" and r: "r \<in> set (rp_targets plan)"
  shows "admissible env (rs_db s) (rt_target r)"
proof -
  obtain s3 el resolved db filtered s5 h where
    cand: "route_candidates env s req c = (s3, Inr el)" and
    full: "resolve_combo_targets_full (re_cred env) (re_now_secs env) (rs_db s3) (re_store env) (re_master_key env)
       (re_has_oauth_registry env) (re_cooldown_defaults env) (\<lambda>i. Inr (find_combo (rs_db s3) i))
       (active_cooldown_query env s3) el = Some (resolved, db)" and
    modal: "modality_stage env req c resolved = Inr filtered" and
    dec: "decision_stage env (s3 \<lparr> rs_db := db \<rparr>) req c filtered = (s5, rp_targets plan, h)"
    using plan by (auto simp: plan_route_def Let_def split: prod.splits sum.splits option.splits if_splits)
  obtain r' where r': "r' \<in> set filtered" "unranked r = unranked r'" using decision_stage_unranked [OF dec r] by blast
  then have "r' \<in> set resolved" using modality_stage_subset [OF modal] by blast
  from resolved_callable [OF full this] route_candidates_routable [OF ids cand]
  have "admissible env (rs_db s) (rt_target r')" unfolding admissible_def by simp
  then show ?thesis using admissible_unranked [OF r'(2)] by simp
qed

lemma quota_stage_subset:
  assumes "quota_enforcer_stage env req c ts = Inr ts'" and "r \<in> set ts'"
  shows "r \<in> set ts" and "tq_status (quota_of (re_quota env) (nat (re_now_secs env)) (re_quota_protection_enabled env)
     (re_quota_threshold env) (re_get_account env) (pq_model req) r) \<noteq> Exhausted"
proof -
  have "r \<in> set (apply_quota_routing (re_quota env) (nat (re_now_secs env)) (re_quota_protection_enabled env)
      (re_quota_threshold env) (re_get_account env) (pq_model req) ts)"
    using assms by (auto simp: quota_enforcer_stage_def Let_def split: if_splits option.splits)
  then show "r \<in> set ts" and "tq_status (quota_of (re_quota env) (nat (re_now_secs env)) (re_quota_protection_enabled env)
     (re_quota_threshold env) (re_get_account env) (pq_model req) r) \<noteq> Exhausted"
    unfolding apply_quota_routing_alt by (auto simp: quota_keeps_def split: if_splits)
qed


section \<open>The pipeline answers\<close>

lemma record_cooldown_total:
  "\<forall>secs. add_secs now secs \<noteq> None \<Longrightarrow> record_cooldown add_secs now db i reason mode b m f \<noteq> None"
  by (simp add: record_cooldown_def Let_def del: not_None_eq split: option.split)

lemma record_missing_total:
  assumes "\<forall>secs. ce_add_secs env now secs \<noteq> None"
  shows "record_missing_account_cooldowns env now db rejs cache d \<noteq> None"
proof (induction rejs arbitrary: db cache)
  case (Cons rej rejs)
  then show ?case using record_cooldown_total [of "ce_add_secs env" now, OF assms]
    by (simp add: Let_def del: not_None_eq split: option.split)
qed simp

lemma plan_route_total:
  assumes "\<forall>secs. ce_add_secs (re_cred env) (re_now_secs env) secs \<noteq> None"
  shows "plan_route env s req c \<noteq> None"
  using record_missing_total [OF assms]
  by (simp add: plan_route_def resolve_combo_targets_full_def Let_def case_prod_beta del: not_None_eq
      split: sum.splits option.splits)


section \<open>Sessions\<close>

text \<open>
  The executor has emptied the target list by the time the router looks for the target to pin, so the
  fallback to the first target never applies and a success without a usage row leaves no pin.
\<close>

lemma unrecorded_success_not_pinned: "pr_usage_tuple res = None \<Longrightarrow> pin_success env s plan [] res = s"
  by (simp add: pin_success_def split: option.split)

lemma session_pin_after_success:
  assumes "cb_priority_mode (rp_combo plan) = Decision" and "rp_session_hash plan = Some h"
    and "pr_error res = None" and "200 \<le> pr_status_code res \<and> pr_status_code res \<le> 299"
    and "pr_usage_tuple res = Some (rid, n, tid)"
    and "rs_affinity s' = rs_affinity (pin_success env s plan [] res)"
    and "re_now_ms env' < re_now_ms env + 900000" and "list_ex (\<lambda>rt. rt_id rt = tid) ts"
  shows "snd (session_pin env' s' (rp_combo plan) (Some h) False ts) = Some tid"
  using assms by (simp add: session_pin_def pin_success_def affinity_get_def affinity_set_def hm_simps
      DEFAULT_SESSION_AFFINITY_TTL_def)

text \<open>
  C28: a decision session sticks to the target that served it. When a request of a session succeeded
  and the next one arrives within fifteen minutes without asking for a reset, the target that
  answered comes first again as long as it is available, unless the decision model justifies a switch
  to another.
\<close>

theorem session_sticks:
  assumes "cb_priority_mode (rp_combo plan) = Decision" and "rp_session_hash plan = Some h"
    and "pr_error res = None" and "200 \<le> pr_status_code res \<and> pr_status_code res \<le> 299"
    and "pr_usage_tuple res = Some (rid, n, tid)"
    and "rs_affinity s' = rs_affinity (pin_success env s plan [] res)"
    and "re_now_ms env' < re_now_ms env + 900000"
    and "extract_session_hash (re_hash env') (re_to_string env') (pq_affinity req) = Some h"
    and "\<not> should_reset (pq_affinity req)" and "2 \<le> length ts"
    and "pinned_is_available (rp_combo plan) (decision_cooldowns (rp_combo plan)
           (active_cooldown_query env' s' (cb_id (rp_combo plan)))) ts tid"
    and "decision_stage env' s' req (rp_combo plan) ts = (s'', ts', h')"
  shows "rt_id (hd ts') = tid \<or>
     (\<exists>request timeout answer. re_ask env' request timeout = Inr (Some answer) \<and> switch_justified answer (rt_id (hd ts')) tid)"
proof -
  have ex: "list_ex (\<lambda>rt. rt_id rt = tid) ts" using assms(11) by (auto simp: pinned_is_available_def list_ex_iff)
  obtain s1 where pin: "session_pin env' s' (rp_combo plan) (Some h) False ts = (s1, Some tid)"
    using session_pin_after_success [OF assms(1-7) ex] by (metis prod.collapse)
  have db: "rs_db s1 = rs_db s'"
    using pin by (auto simp: session_pin_def split: if_splits option.splits prod.splits)
  let ?q = "active_cooldown_query env' s1 (cb_id (rp_combo plan))"
  have q: "?q = active_cooldown_query env' s' (cb_id (rp_combo plan))" by (simp add: active_cooldown_query_def db)
  have "ts' = fst (apply_decision_routing (decision_env_of env') ?q (pq_messages req) (rp_combo plan) ts (Some tid))"
    using assms(1,8,9,12) pin by (auto simp: decision_stage_def split: prod.splits)
  with pinned_session_head [OF assms(10) assms(11) [folded q], of "decision_env_of env'" "pq_messages req"]
  show ?thesis by (auto simp: decision_env_of_def)
qed

section \<open>A concrete request\<close>

definition demo_router_env :: router_env where
  "demo_router_env =
     \<lparr> re_now_secs = 0, re_instant = 0, re_now_ms = 0, re_rng = \<lparr> rg_unit = 0, rg_range = (\<lambda>_ _. 0), rg_shuffle = id \<rparr>,
       re_selection = [], re_limiter = limiter_new, re_hash = (\<lambda>_. 0), re_to_string = (\<lambda>_. []), re_ask = (\<lambda>_ _. Inr None),
       re_cred = demo_env, re_store = demo_store \<lparr> cs_auth_types := [(''open'', ''none'')] \<rparr>, re_master_key = demo_key,
       re_has_oauth_registry = False,
       re_cooldown_defaults = \<lparr> cdf_cooldown_secs = 30, cdf_cooldown_max_secs = 300, cdf_cooldown_factor = 2 \<rparr>,
       re_modality_routing = \<lparr> mc_enabled = True, mc_fallback_to_text_only = True \<rparr>,
       re_quota = \<lparr> qe_parse_timestamp = (\<lambda>_. None), qe_parse_json = (\<lambda>_. None), qe_parse_f64 = (\<lambda>_. None) \<rparr>,
       re_quota_protection_enabled = False, re_quota_threshold = 0, re_get_account = (\<lambda>_. None) \<rparr>"

definition open_target :: combo_target where
  "open_target = default_combo_target \<lparr> ct_id := 3, ct_provider_id := ''open'', ct_model_row_id := Some 5 \<rparr>"

definition demo_request :: pipeline_request where
  "demo_request =
     \<lparr> pq_combo_id = 1, pq_combo_override = None, pq_targets_override = Some [open_target], pq_model = ''m'', pq_attempt = 1,
       pq_affinity = \<lparr> ar_headers = [], ar_user = None, ar_messages = [] \<rparr> \<rparr>"

definition demo_state :: router_state where
  "demo_state = \<lparr> rs_db = demo_cred_db, rs_breaker = cb_new 3 30000, rs_rr_counters = [], rs_affinity = [], rs_walk_log = [] \<rparr>"

lemma demo_rotation: "expand_account_rotation now demo_cred_db [open_target] = [open_target]"
  by (simp add: expand_account_rotation_def expand_single_target_rotation_def fetch_accounts_by_health_priority_def
      accounts_of_tier_def query_accounts_by_health_def account_rows_by_health_def sort_by_def demo_cred_db_def sample_db_def open_target_def default_combo_target_def Let_def)

lemma demo_candidates: "route_candidates demo_router_env demo_state demo_request default_combo = (demo_state, Inr [open_target])"
proof -
  have open_fields: "ct_sub_combo_id open_target = None" "ct_account_id open_target = None"
    by (simp_all add: open_target_def default_combo_target_def)
  have "resolve_initial_targets demo_router_env demo_state demo_request default_combo = (demo_state, Inr [open_target])"
    by (simp add: resolve_initial_targets_def resolve_targets_blocking_def execute_load_balancing_def demo_request_def
        demo_state_def demo_rotation flatten_targets_def open_fields)
  then show ?thesis
    by (simp add: route_candidates_def partition_healthy_targets_def is_target_healthy_def open_fields Let_def demo_state_def)
qed

definition open_resolved :: resolved_target where
  "open_resolved = default_resolved_target \<lparr> rt_target := open_target, rt_model := default_model \<lparr> mo_id := 5, mo_active := True \<rparr> \<rparr>"

lemma demo_full:
  "resolve_combo_targets_full demo_env 0 demo_cred_db (re_store demo_router_env) demo_key False d load act [open_target] =
     Some ([open_resolved], demo_cred_db)"
proof -
  let ?maps = "resolution_maps_for demo_env demo_cred_db (re_store demo_router_env) [open_target]"
  have open_fields: "ct_account_id open_target = None" "ct_model_row_id open_target = Some 5" "ct_provider_id open_target = ''open''"
    by (simp_all add: open_target_def default_combo_target_def)
  have model: "rm_models ?maps 5 = Some (default_model \<lparr> mo_id := 5, mo_active := True \<rparr>)"
    by (simp add: resolution_maps_for_def Let_def set_collected open_fields demo_cred_db_def find_model_def)
  have "rm_providers ?maps ''open'' = Some ''none''"
    by (simp add: resolution_maps_for_def Let_def get_auth_types_def set_collected open_fields demo_router_env_def)
  then have anon: "is_anonymous_target open_target (rm_providers ?maps)" by (simp add: is_anonymous_target_def open_fields)
  have "target_verdict_of demo_env 0 ?maps demo_key False names cds open_target = Usable open_resolved" for names cds
    using anon model by (simp add: target_verdict_of_def resolve_target_model_def open_fields open_resolved_def
        default_resolved_target_def)
  then have "resolve_credentials_with_rejects demo_env 0 [open_target] ?maps demo_key False names cds = ([open_resolved], [])" for names cds
    by (simp add: resolve_credentials_with_rejects_def map_filter_simps)
  then show ?thesis by (simp add: resolve_combo_targets_full_def Let_def)
qed

lemma demo_plan:
  "plan_route demo_router_env demo_state demo_request default_combo =
     Some (demo_state, Inr \<lparr> rp_combo = default_combo, rp_targets = [open_resolved], rp_session_hash = None \<rparr>)"
proof -
  have "target_accepts m open_resolved" for m
    by (simp add: target_accepts_def open_resolved_def default_resolved_target_def default_model_def)
  then have modal: "modality_stage demo_router_env demo_request default_combo [open_resolved] = Inr [open_resolved]"
    by (simp add: modality_stage_def filter_targets_for_modalities_def Let_def)
  have env: "re_cred demo_router_env = demo_env" "re_now_secs demo_router_env = 0" "re_master_key demo_router_env = demo_key"
      "re_has_oauth_registry demo_router_env = False" "rs_db demo_state = demo_cred_db"
      "demo_state \<lparr> rs_db := demo_cred_db \<rparr> = demo_state"
    by (simp_all add: demo_router_env_def demo_state_def)
  have "cb_priority_mode default_combo \<noteq> Decision" by (simp add: default_combo_def)
  then show ?thesis unfolding plan_route_def demo_candidates
    by (simp add: env demo_full modal decision_stage_def Let_def)
qed

lemma demo_quota:
  "quota_enforcer_stage demo_router_env demo_request (Some default_combo) [open_resolved] = Inr [open_resolved]"
proof -
  have "quota_keeps (quota_of q n False 0 (\<lambda>_. None) m) [open_resolved] open_resolved" for q n m
    by (simp add: quota_keeps_def quota_of_def enrich_target_with_quota_def open_resolved_def open_target_def
        default_combo_target_def Let_def)
  then show ?thesis
    by (simp add: quota_enforcer_stage_def apply_quota_routing_alt demo_router_env_def Let_def sort_by_def)
qed



definition tripped :: cb_registry where
  "tripped = force_unhealthy (cb_new 3 3) (cb_key_from_target 1 ScopeAccount (Some 5)) 0 0"

theorem healthy_targets_first_witness:
  "snd (partition_healthy_targets demo_router_env tripped [demo_target, open_target]) = [open_target, demo_target]"
proof -
  have "cb_ok tripped" unfolding tripped_def by (intro cb_ok_force cb_ok_new)
  moreover have "target_healthy demo_router_env r t = snd (is_target_healthy r t 0 0)" for r t
    by (simp add: target_healthy_def demo_router_env_def)
  moreover have "\<not> snd (is_target_healthy tripped demo_target 0 0)" "snd (is_target_healthy tripped open_target 0 0)"
    by code_simp+
  ultimately show ?thesis using healthy_targets_first [of tripped demo_router_env "[demo_target, open_target]"] by simp
qed

definition served :: pipeline_result where
  "served = \<lparr> pr_status_code = 200, pr_error = None, pr_final_response = None, pr_attempts = 1, pr_usage_tuple = Some (0, 1, 2) \<rparr>"

definition decision_plan :: route_plan where
  "decision_plan =
     \<lparr> rp_combo = default_combo \<lparr> cb_priority_mode := Decision \<rparr>, rp_targets = [idle_target 2, idle_target 1], rp_session_hash = Some 0 \<rparr>"

definition session_request :: pipeline_request where
  "session_request = demo_request \<lparr> pq_affinity := \<lparr> ar_headers = [(''x-session-id'', ''s'')], ar_user = None, ar_messages = [] \<rparr> \<rparr>"

theorem session_sticks_witness:
  "rt_id (hd (fst (snd (decision_stage demo_router_env (pin_success demo_router_env demo_state decision_plan [] served)
      session_request (rp_combo decision_plan) [idle_target 1, idle_target 2])))) = 2"
proof -
  let ?s = "pin_success demo_router_env demo_state decision_plan [] served"
  let ?c = "rp_combo decision_plan" and ?ts = "[idle_target 1, idle_target 2]"
  have hash: "extract_session_hash (re_hash demo_router_env) (re_to_string demo_router_env) (pq_affinity session_request) = Some 0"
    by (simp add: demo_router_env_def session_request_def, code_simp)
  have reset: "\<not> should_reset (pq_affinity session_request)" by code_simp
  have db: "rs_db ?s = sample_db \<lparr> db_models := db_models demo_cred_db \<rparr>"
    by (simp add: pin_success_def demo_state_def demo_cred_db_def split: option.split)
  have "decision_cooldowns ?c (active_cooldown_query demo_router_env ?s (cb_id ?c)) = {}"
    by (simp add: decision_cooldowns_def active_cooldown_query_def db get_active_cooldown_target_ids_def sample_db_def)
  then have avail: "pinned_is_available ?c (decision_cooldowns ?c (active_cooldown_query demo_router_env ?s (cb_id ?c))) ?ts 2"
    by (simp add: pinned_is_available_def idle_target_def rt_id_def rt_active_def default_combo_target_def)
  obtain s'' ts' h' where run: "decision_stage demo_router_env ?s session_request ?c ?ts = (s'', ts', h')"
    by (metis prod.collapse)
  have "re_ask demo_router_env request timeout \<noteq> Inr (Some answer)" for request timeout answer
    by (simp add: demo_router_env_def)
  with session_sticks [of decision_plan 0 served 0 1 2 ?s demo_router_env demo_state demo_router_env session_request ?ts,
      OF _ _ _ _ _ refl _ hash reset _ avail run] run
  show ?thesis by (simp add: decision_plan_def served_def)
qed

text \<open>
  The quota stage orders by the first position of a target id, so the parked account of a target that
  also has a healthy one moves ahead of the healthy targets the router had put before it.
\<close>

lemma quota_regroups_accounts:
  "map rt_target (apply_quota_routing q n False 0 (\<lambda>_. None) m
      (map (\<lambda>t. default_resolved_target \<lparr> rt_target := t \<rparr>) [demo_target, open_target, demo_target \<lparr> ct_account_id := Some 2 \<rparr>])) =
     [demo_target, demo_target \<lparr> ct_account_id := Some 2 \<rparr>, open_target]"
  by (simp add: apply_quota_routing_def Let_def hm_simps demo_target_def open_target_def default_combo_target_def
    default_resolved_target_def enrich_target_with_quota_def) code_simp

end
