(* ===== verification/Racing.thy ===== *)
theory Racing
  imports Executor
begin

text \<open>
  Speculative racing (openproxy-pipeline/src/race_sink.rs and racing.rs): several lanes run targets
  from one queue, and an atomic arbiter decides which lane may write to the client. The lanes and
  the waiting task are a step relation; \<open>compare_exchange\<close> with the cancellation it triggers,
  and each lock acquisition, is one step. The two reads of the waiting task, of the winner slot and
  of the number of running lanes, are separate steps, as in the code.
\<close>

section \<open>The arbiter\<close>

datatype stream_sink_error = SinkClosed | SinkLost

record race_sink =
  sk_winner :: nat
  sk_tokens :: "bool list"
  sk_committed :: bool
  sk_output :: "(nat \<times> string) list"

definition race_sink_new :: "bool \<Rightarrow> nat \<Rightarrow> race_sink" where
  "race_sink_new committed num_workers =
     \<lparr> sk_winner = 0, sk_tokens = replicate num_workers False, sk_committed = committed, sk_output = [] \<rparr>"

definition cancel_other_workers :: "nat \<Rightarrow> race_sink \<Rightarrow> race_sink" where
  "cancel_other_workers winner_id k =
     k \<lparr> sk_tokens := map (\<lambda>i. if i \<noteq> winner_id then True else sk_tokens k ! i) [0..<length (sk_tokens k)] \<rparr>"

definition try_register_winner :: "nat \<Rightarrow> nat \<Rightarrow> race_sink \<Rightarrow> race_sink \<times> (stream_sink_error + unit)" where
  "try_register_winner target worker_id k =
     (if sk_winner k = 0 then (cancel_other_workers worker_id (k \<lparr> sk_winner := target \<rparr>), Inr ())
      else if sk_winner k = target then (k, Inr ())
      else (k, Inl SinkLost))"

text \<open>\<open>claim_winner\<close> acts on the value \<open>seen\<close> by its first load, which may be out of date.\<close>

definition claim_winner_seen ::
    "nat \<Rightarrow> nat \<Rightarrow> race_sink \<Rightarrow> race_sink \<times> (stream_sink_error + unit)" where
  "claim_winner_seen seen worker_id k =
     (if seen = 0 then try_register_winner (worker_id + 1) worker_id k
      else if seen = worker_id + 1 then (k, Inr ())
      else (k, Inl SinkLost))"

definition claim_winner :: "nat \<Rightarrow> race_sink \<Rightarrow> race_sink \<times> (stream_sink_error + unit)" where
  "claim_winner worker_id k = claim_winner_seen (sk_winner k) worker_id k"

definition direct_send :: "bool \<Rightarrow> nat \<Rightarrow> string \<Rightarrow> race_sink \<Rightarrow> race_sink \<times> (stream_sink_error + unit)" where
  "direct_send is_closed worker_id chunk k =
     (if is_closed then (k, Inl SinkClosed)
      else (k \<lparr> sk_committed := (sk_committed k \<or> chunk \<noteq> []), sk_output := sk_output k @ [(worker_id, chunk)] \<rparr>,
            Inr ()))"

definition race_send :: "bool \<Rightarrow> nat \<Rightarrow> string \<Rightarrow> race_sink \<Rightarrow> race_sink \<times> (stream_sink_error + unit)" where
  "race_send is_closed worker_id chunk k =
     (case claim_winner worker_id k of
        (k', Inl e) \<Rightarrow> (k', Inl e)
      | (k', Inr _) \<Rightarrow> direct_send is_closed worker_id chunk k')"

definition race_has_output :: "nat \<Rightarrow> race_sink \<Rightarrow> bool" where
  "race_has_output worker_id k \<longleftrightarrow> sk_winner k = worker_id + 1 \<and> sk_committed k"

definition race_claim_result :: "nat \<Rightarrow> race_sink \<Rightarrow> race_sink \<times> bool" where
  "race_claim_result worker_id k = (case claim_winner worker_id k of (k', Inr _) \<Rightarrow> (k', True) | (k', Inl _) \<Rightarrow> (k', False))"

subsection \<open>The arbiter's contract\<close>

text \<open>
  What the lanes rely on: a claim that succeeds makes the claimant the owner, ownership is never
  lost, and a successful claim of one lane refuses every other.
\<close>

locale race_arbiter =
  fixes owner :: "'k \<Rightarrow> nat option"
    and claim :: "nat \<Rightarrow> 'k \<Rightarrow> 'k \<times> bool"
  assumes claim_ok: "snd (claim w k) \<Longrightarrow> owner (fst (claim w k)) = Some w"
    and claim_iff: "snd (claim w k) \<longleftrightarrow> owner k = None \<or> owner k = Some w"
    and claim_keeps: "owner k = Some v \<Longrightarrow> owner (fst (claim w k)) = Some v"
begin

definition run_claims :: "nat list \<Rightarrow> 'k \<Rightarrow> 'k" where
  "run_claims ws k = fold (\<lambda>w k. fst (claim w k)) ws k"

lemma run_claims_keeps: "owner k = Some v \<Longrightarrow> owner (run_claims ws k) = Some v"
  unfolding run_claims_def by (induction ws arbitrary: k) (simp_all add: claim_keeps)

lemma first_claim_wins:
  assumes "owner k = None"
  shows "owner (run_claims (w # ws) k) = Some w"
proof -
  have "owner (fst (claim w k)) = Some w" using claim_ok claim_iff assms by blast
  then show ?thesis using run_claims_keeps [of "fst (claim w k)" w ws] by (simp add: run_claims_def)
qed

lemma at_most_one_success:
  assumes "snd (claim v k)" and "snd (claim w (run_claims ws (fst (claim v k))))"
  shows "v = w"
  using assms claim_iff run_claims_keeps [OF claim_ok [OF assms(1)], of ws] by simp

end

definition sink_owner :: "race_sink \<Rightarrow> nat option" where
  "sink_owner k = (if sk_winner k = 0 then None else Some (sk_winner k - 1))"

interpretation arbiter: race_arbiter sink_owner race_claim_result
  by unfold_locales
    (auto simp: sink_owner_def race_claim_result_def claim_winner_def claim_winner_seen_def
      try_register_winner_def cancel_other_workers_def split: if_splits sum.splits)

text \<open>
  A stale first load is harmless: since ownership is written once, the answer is that of a claim
  made atomically at the time of the compare-exchange.
\<close>

lemma stale_load_harmless:
  assumes "seen = 0 \<or> seen = sk_winner k"
  shows "claim_winner_seen seen w k = claim_winner w k"
  using assms by (auto simp: claim_winner_def claim_winner_seen_def try_register_winner_def)

text \<open>
  the arbiter admits one lane. Whatever claims are made after it, a lane that claimed
  successfully stays the owner, and any later successful claim is its own.
\<close>

theorem arbiter_single_owner:
  assumes "snd (race_claim_result v k)"
  shows "sink_owner (fold (\<lambda>w k. fst (race_claim_result w k)) ws (fst (race_claim_result v k))) = Some v \<and>
     (snd (race_claim_result w (fold (\<lambda>w k. fst (race_claim_result w k)) ws (fst (race_claim_result v k)))) \<longleftrightarrow> w = v)"
  using arbiter.run_claims_keeps [OF arbiter.claim_ok [OF assms], of ws]
  by (auto simp: arbiter.run_claims_def arbiter.claim_iff)

theorem arbiter_single_owner_witness:
  "\<not> snd (race_claim_result 1 (fst (race_claim_result 0 (race_sink_new False 2))))"
proof -
  have "snd (race_claim_result 0 (race_sink_new False 2))"
    by (simp add: arbiter.claim_iff sink_owner_def race_sink_new_def)
  from arbiter_single_owner [OF this, of "[]" 1] show ?thesis by simp
qed

section \<open>Lanes and the waiting task\<close>

datatype worker_pc =
    LoopHead
  | CanPop
  | Popped combo_target
  | Exec combo_target
  | Sending combo_target string
  | Finished

datatype waiter_pc =
    CheckWinner
  | CheckRunning
  | Parked
  | Returned "core_error + pipeline_result"

record race_state =
  rc_sink :: race_sink
  rc_queue :: "combo_target list"
  rc_winner :: "(nat \<times> pipeline_result) option"
  rc_last_err :: "core_error option"
  rc_failed_targets :: "target_execution_id set"
  rc_failed_models :: "model_row_id set"
  rc_running :: nat
  rc_notified :: bool
  rc_pcs :: "worker_pc list"
  rc_waiter :: waiter_pc

definition race_num_workers :: "nat \<Rightarrow> combo_target list \<Rightarrow> nat" where
  "race_num_workers race_size to_run = min race_size (as_u8 (length to_run))"

definition race_init :: "nat \<Rightarrow> combo_target list \<Rightarrow> race_state" where
  "race_init n to_run =
     \<lparr> rc_sink = race_sink_new False n, rc_queue = to_run, rc_winner = None, rc_last_err = None,
       rc_failed_targets = {}, rc_failed_models = {}, rc_running = n, rc_notified = False,
       rc_pcs = replicate n LoopHead, rc_waiter = CheckWinner \<rparr>"

text \<open>
  \<open>run_race\<close> up to the spawning of the lanes: either an immediate outcome or the race to run. The sink
  is a direct one that has committed nothing, since the executor races before anything else.
\<close>

definition race_refused :: "core_error \<Rightarrow> race_outcome" where
  "race_refused e =
     \<lparr> ro_result = \<lparr> pr_status_code = 502, pr_error = Some e, pr_final_response = None, pr_attempts = 0,
                       pr_usage_tuple = None \<rparr>,
       ro_failed_targets = {}, ro_failed_models = {} \<rparr>"

definition run_race_start :: "int \<Rightarrow> bool \<Rightarrow> nat \<Rightarrow> combo_target list \<Rightarrow> race_outcome + race_state" where
  "run_race_start combo_id has_direct_sink race_size to_run =
     (let num_workers = race_num_workers race_size to_run
      in if num_workers = 0 then Inl (race_refused (NoHealthyTargets combo_id))
         else if \<not> has_direct_sink then Inl (race_refused (Internal ''run_race: missing direct stream sink''))
         else Inr (race_init num_workers to_run))"

definition run_race_outcome :: "nat \<Rightarrow> race_state \<Rightarrow> race_outcome option" where
  "run_race_outcome race_size s =
     (case rc_waiter s of
        Returned (Inr r) \<Rightarrow> Some \<lparr> ro_result = r, ro_failed_targets = {}, ro_failed_models = {} \<rparr>
      | Returned (Inl e) \<Rightarrow>
          Some \<lparr> ro_result = \<lparr> pr_status_code = http_status e, pr_error = Some e, pr_final_response = None,
                                pr_attempts = race_size, pr_usage_tuple = None \<rparr>,
                 ro_failed_targets = rc_failed_targets s, ro_failed_models = rc_failed_models s \<rparr>
      | _ \<Rightarrow> None)"

definition set_pc :: "nat \<Rightarrow> worker_pc \<Rightarrow> race_state \<Rightarrow> race_state" where
  "set_pc w pc s = s \<lparr> rc_pcs := (rc_pcs s)[w := pc] \<rparr>"

definition is_cancelled :: "nat \<Rightarrow> race_state \<Rightarrow> bool" where
  "is_cancelled w s \<longleftrightarrow> sk_tokens (rc_sink s) ! w"

text \<open>\<open>notify_worker_done!\<close>: the lane that brings the count from 1 to 0 wakes the waiting task.\<close>

definition notify_worker_done :: "race_state \<Rightarrow> race_state" where
  "notify_worker_done s =
     s \<lparr> rc_running := rc_running s - 1, rc_notified := (rc_notified s \<or> rc_running s = 1) \<rparr>"

definition finish_worker :: "nat \<Rightarrow> race_state \<Rightarrow> race_state" where
  "finish_worker w s = set_pc w Finished (notify_worker_done s)"

definition record_lane_failure :: "combo_target \<Rightarrow> pipeline_result \<Rightarrow> race_state \<Rightarrow> race_state" where
  "record_lane_failure t r s =
     (case pr_error r of
        None \<Rightarrow> s
      | Some e \<Rightarrow>
          (let s1 = s \<lparr> rc_last_err := Some e,
                        rc_failed_targets := insert (te_from_target t) (rc_failed_targets s) \<rparr>
           in case ct_model_row_id t of
                Some m \<Rightarrow> (if is_model_wide_failure t e
                           then s1 \<lparr> rc_failed_models := insert m (rc_failed_models s1) \<rparr> else s1)
              | None \<Rightarrow> s1))"

text \<open>The end of one execution in a lane, with result \<open>r\<close>.\<close>

definition lane_result :: "nat \<Rightarrow> combo_target \<Rightarrow> pipeline_result \<Rightarrow> race_state \<Rightarrow> race_state" where
  "lane_result w t r s =
     (if pr_error r = None \<or> race_has_output w (rc_sink s) then
        (case race_claim_result w (rc_sink s) of
           (k, True) \<Rightarrow>
             (let s1 = s \<lparr> rc_sink := k \<rparr>;
                  s2 = (if rc_winner s1 = None then s1 \<lparr> rc_winner := Some (w, r) \<rparr> else s1)
              in finish_worker w s2)
         | (k, False) \<Rightarrow> set_pc w LoopHead (record_lane_failure t r (s \<lparr> rc_sink := k \<rparr>)))
      else set_pc w LoopHead (record_lane_failure t r s))"

definition cancel_all :: "race_state \<Rightarrow> race_state" where
  "cancel_all s = s \<lparr> rc_sink := (rc_sink s) \<lparr> sk_tokens := map (\<lambda>_. True) (sk_tokens (rc_sink s)) \<rparr> \<rparr>"

text \<open>What a load of the winner made earlier by a lane can have seen: the slot is written once.\<close>

definition loaded_by :: "race_state \<Rightarrow> nat \<Rightarrow> bool" where
  "loaded_by s seen \<longleftrightarrow> seen = 0 \<or> seen = sk_winner (rc_sink s)"

inductive race_step :: "core_error \<Rightarrow> race_state \<Rightarrow> race_state \<Rightarrow> bool" for default_err where
  head_cancelled: "w < length (rc_pcs s) \<Longrightarrow> rc_pcs s ! w = LoopHead \<Longrightarrow> is_cancelled w s \<Longrightarrow>
     race_step default_err s (finish_worker w s)"
| head_go: "w < length (rc_pcs s) \<Longrightarrow> rc_pcs s ! w = LoopHead \<Longrightarrow> \<not> is_cancelled w s \<Longrightarrow>
     race_step default_err s (set_pc w CanPop s)"
| pop_empty: "w < length (rc_pcs s) \<Longrightarrow> rc_pcs s ! w = CanPop \<Longrightarrow> rc_queue s = [] \<Longrightarrow>
     race_step default_err s (finish_worker w s)"
| pop: "w < length (rc_pcs s) \<Longrightarrow> rc_pcs s ! w = CanPop \<Longrightarrow> rc_queue s = t # q \<Longrightarrow>
     race_step default_err s (set_pc w (Popped t) (s \<lparr> rc_queue := q \<rparr>))"
| popped_cancelled: "w < length (rc_pcs s) \<Longrightarrow> rc_pcs s ! w = Popped t \<Longrightarrow> is_cancelled w s \<Longrightarrow>
     race_step default_err s (finish_worker w s)"
| popped_go: "w < length (rc_pcs s) \<Longrightarrow> rc_pcs s ! w = Popped t \<Longrightarrow> \<not> is_cancelled w s \<Longrightarrow>
     race_step default_err s (set_pc w (Exec t) s)"
| send_claim: "w < length (rc_pcs s) \<Longrightarrow> rc_pcs s ! w = Exec t \<Longrightarrow> loaded_by s seen \<Longrightarrow>
     claim_winner_seen seen w (rc_sink s) = (k, Inr ()) \<Longrightarrow>
     race_step default_err s (set_pc w (Sending t chunk) (s \<lparr> rc_sink := k \<rparr>))"
| send_lost: "w < length (rc_pcs s) \<Longrightarrow> rc_pcs s ! w = Exec t \<Longrightarrow> loaded_by s seen \<Longrightarrow>
     claim_winner_seen seen w (rc_sink s) = (k, Inl e) \<Longrightarrow>
     race_step default_err s (s \<lparr> rc_sink := k \<rparr>)"
| send_chunk: "w < length (rc_pcs s) \<Longrightarrow> rc_pcs s ! w = Sending t chunk \<Longrightarrow>
     race_step default_err s
       (set_pc w (Exec t) (s \<lparr> rc_sink := fst (direct_send is_closed w chunk (rc_sink s)) \<rparr>))"
| send_dropped: "w < length (rc_pcs s) \<Longrightarrow> rc_pcs s ! w = Sending t chunk \<Longrightarrow>
     race_step default_err s (set_pc w (Exec t) s)"
| result: "w < length (rc_pcs s) \<Longrightarrow> rc_pcs s ! w = Exec t \<Longrightarrow>
     race_step default_err s (lane_result w t r s)"
| wait_winner: "rc_waiter s = CheckWinner \<Longrightarrow> rc_winner s = Some (w, r) \<Longrightarrow>
     race_step default_err s (cancel_all (s \<lparr> rc_winner := None, rc_waiter := Returned (Inr r) \<rparr>))"
| wait_no_winner: "rc_waiter s = CheckWinner \<Longrightarrow> rc_winner s = None \<Longrightarrow>
     race_step default_err s (s \<lparr> rc_waiter := CheckRunning \<rparr>)"
| wait_none_running: "rc_waiter s = CheckRunning \<Longrightarrow> rc_running s = 0 \<Longrightarrow>
     race_step default_err s
       (cancel_all (s \<lparr> rc_waiter := Returned (Inl (case rc_last_err s of Some e \<Rightarrow> e | None \<Rightarrow> default_err)),
                        rc_last_err := None \<rparr>))"
| wait_park: "rc_waiter s = CheckRunning \<Longrightarrow> rc_running s \<noteq> 0 \<Longrightarrow>
     race_step default_err s (s \<lparr> rc_waiter := Parked \<rparr>)"
| wait_wake: "rc_waiter s = Parked \<Longrightarrow> rc_notified s \<Longrightarrow>
     race_step default_err s (s \<lparr> rc_waiter := CheckWinner, rc_notified := False \<rparr>)"

inductive race_reachable :: "core_error \<Rightarrow> nat \<Rightarrow> combo_target list \<Rightarrow> race_state \<Rightarrow> bool"
  for default_err n to_run where
  init: "race_reachable default_err n to_run (race_init n to_run)"
| step: "race_reachable default_err n to_run s \<Longrightarrow> race_step default_err s s' \<Longrightarrow>
     race_reachable default_err n to_run s'"

section \<open>Invariant of the race\<close>

definition live_lanes :: "race_state \<Rightarrow> nat" where
  "live_lanes s = length (filter (\<lambda>pc. pc \<noteq> Finished) (rc_pcs s))"

fun is_sending :: "worker_pc \<Rightarrow> bool" where
  "is_sending (Sending t chunk) = True"
| "is_sending _ = False"

definition sending_owned :: "worker_pc list \<Rightarrow> nat option \<Rightarrow> bool" where
  "sending_owned pcs own \<longleftrightarrow> (\<forall>w < length pcs. is_sending (pcs ! w) \<longrightarrow> own = Some w)"

lemma sending_owned_update:
  "sending_owned pcs own \<Longrightarrow> (is_sending pc \<Longrightarrow> own = Some w) \<Longrightarrow> sending_owned (pcs[w := pc]) own"
  unfolding sending_owned_def
  by (intro allI impI) (case_tac "w = wa"; simp)

lemma sending_owned_mono:
  "sending_owned pcs own \<Longrightarrow> (\<And>v. own = Some v \<Longrightarrow> own' = Some v) \<Longrightarrow> sending_owned pcs own'"
  by (auto simp: sending_owned_def)

definition race_inv :: "race_state \<Rightarrow> bool" where
  "race_inv s \<longleftrightarrow> rc_running s = live_lanes s \<and>
     list_all (\<lambda>(w, c). sink_owner (rc_sink s) = Some w) (sk_output (rc_sink s)) \<and>
     (\<forall>w r. rc_winner s = Some (w, r) \<longrightarrow> sink_owner (rc_sink s) = Some w) \<and>
     (rc_notified s \<longrightarrow> live_lanes s = 0) \<and>
     (sk_committed (rc_sink s) \<longrightarrow> sink_owner (rc_sink s) \<noteq> None) \<and>
     sending_owned (rc_pcs s) (sink_owner (rc_sink s)) \<and>
     (rc_waiter s = Parked \<longrightarrow> live_lanes s = 0 \<longrightarrow> rc_notified s)"

lemma live_lanes_split:
  assumes "w < length (rc_pcs s)" and "rc_pcs s ! w \<noteq> Finished"
  shows "live_lanes s = Suc (length (filter (\<lambda>pc. pc \<noteq> Finished) (take w (rc_pcs s))) +
      length (filter (\<lambda>pc. pc \<noteq> Finished) (drop (Suc w) (rc_pcs s))))"
  unfolding live_lanes_def by (subst id_take_nth_drop [OF assms(1)]) (simp add: assms(2))

lemma live_lanes_set_pc:
  assumes "w < length (rc_pcs s)" and "rc_pcs s ! w \<noteq> Finished"
  shows "live_lanes (set_pc w pc s) = (if pc = Finished then live_lanes s - 1 else live_lanes s)"
  using live_lanes_split [OF assms] assms(1) by (simp add: live_lanes_def set_pc_def upd_conv_take_nth_drop)

lemma live_lanes_upd [simp]:
  "live_lanes (s \<lparr> rc_sink := k \<rparr>) = live_lanes s" "live_lanes (s \<lparr> rc_queue := q \<rparr>) = live_lanes s"
  "live_lanes (s \<lparr> rc_winner := wn \<rparr>) = live_lanes s" "live_lanes (s \<lparr> rc_last_err := e \<rparr>) = live_lanes s"
  "live_lanes (s \<lparr> rc_failed_targets := fs \<rparr>) = live_lanes s" "live_lanes (s \<lparr> rc_failed_models := ms \<rparr>) = live_lanes s"
  "live_lanes (s \<lparr> rc_running := n \<rparr>) = live_lanes s" "live_lanes (s \<lparr> rc_notified := b \<rparr>) = live_lanes s"
  "live_lanes (s \<lparr> rc_waiter := p \<rparr>) = live_lanes s"
  by (simp_all add: live_lanes_def)

lemma sink_owner_upd [simp]:
  "sink_owner (k \<lparr> sk_tokens := ts \<rparr>) = sink_owner k" "sink_owner (k \<lparr> sk_committed := b \<rparr>) = sink_owner k"
  "sink_owner (k \<lparr> sk_output := cs \<rparr>) = sink_owner k"
  by (simp_all add: sink_owner_def)

lemma set_pc_simps [simp]:
  "rc_sink (set_pc w pc s) = rc_sink s" "rc_winner (set_pc w pc s) = rc_winner s"
  "rc_running (set_pc w pc s) = rc_running s" "rc_notified (set_pc w pc s) = rc_notified s"
  "rc_pcs (set_pc w pc s) = (rc_pcs s)[w := pc]" "rc_waiter (set_pc w pc s) = rc_waiter s"
  by (simp_all add: set_pc_def)

lemma race_inv_set_pc:
  assumes "race_inv s" and "w < length (rc_pcs s)" and "rc_pcs s ! w \<noteq> Finished" and "pc \<noteq> Finished"
    and "is_sending pc \<Longrightarrow> sink_owner (rc_sink s) = Some w"
  shows "race_inv (set_pc w pc s)"
  using assms live_lanes_set_pc [OF assms(2,3), of pc] by (auto simp: race_inv_def intro: sending_owned_update)

lemma race_inv_finish:
  assumes "race_inv s" and "w < length (rc_pcs s)" and "rc_pcs s ! w \<noteq> Finished"
  shows "race_inv (finish_worker w s)"
proof -
  let ?s = "notify_worker_done s"
  have pcs: "rc_pcs ?s = rc_pcs s" and live: "live_lanes ?s = live_lanes s"
    by (simp_all add: notify_worker_done_def live_lanes_def)
  have l: "0 < live_lanes s" "live_lanes (finish_worker w s) = live_lanes s - 1"
    using live_lanes_split [OF assms(2,3)] live_lanes_set_pc [of w ?s Finished] assms(2,3)
    unfolding finish_worker_def pcs live by simp_all
  with assms(1) show ?thesis
    by (auto simp: race_inv_def finish_worker_def notify_worker_done_def intro: sending_owned_update)
qed

lemma race_inv_sink:
  assumes "race_inv s"
    and "list_all (\<lambda>(w, c). sink_owner k = Some w) (sk_output k)"
    and "\<And>v. sink_owner (rc_sink s) = Some v \<Longrightarrow> sink_owner k = Some v"
    and "sk_committed k \<Longrightarrow> sink_owner k \<noteq> None"
  shows "race_inv (s \<lparr> rc_sink := k \<rparr>)"
  unfolding race_inv_def
proof (intro conjI allI impI)
  show "sending_owned (rc_pcs (s \<lparr> rc_sink := k \<rparr>)) (sink_owner (rc_sink (s \<lparr> rc_sink := k \<rparr>)))"
    using assms(1,3) sending_owned_mono [of "rc_pcs s" "sink_owner (rc_sink s)"] by (simp add: race_inv_def)
  show "sink_owner (rc_sink (s \<lparr> rc_sink := k \<rparr>)) = Some w"
    if "rc_winner (s \<lparr> rc_sink := k \<rparr>) = Some (w, r)" for w r
  proof -
    have "sink_owner (rc_sink s) = Some w" using that assms(1) by (simp add: race_inv_def)
    from assms(3) [OF this] show ?thesis by simp
  qed
qed (use assms(1,2,4) in \<open>auto simp: race_inv_def\<close>)

lemma claim_output:
  "sk_output (fst (race_claim_result w k)) = sk_output k \<and> sk_committed (fst (race_claim_result w k)) = sk_committed k"
  by (auto simp: race_claim_result_def claim_winner_def claim_winner_seen_def try_register_winner_def
      cancel_other_workers_def)

lemma race_inv_claim:
  assumes "race_inv s"
  shows "race_inv (s \<lparr> rc_sink := fst (race_claim_result w (rc_sink s)) \<rparr>)"
proof (rule race_inv_sink [OF assms])
  show keeps: "sink_owner (fst (race_claim_result w (rc_sink s))) = Some v"
    if "sink_owner (rc_sink s) = Some v" for v
    using that by (rule arbiter.claim_keeps)
  show "list_all (\<lambda>(w', c). sink_owner (fst (race_claim_result w (rc_sink s))) = Some w')
      (sk_output (fst (race_claim_result w (rc_sink s))))"
    using assms keeps by (auto simp: claim_output race_inv_def list_all_iff)
  show "sink_owner (fst (race_claim_result w (rc_sink s))) \<noteq> None"
    if "sk_committed (fst (race_claim_result w (rc_sink s)))"
    using that assms keeps by (auto simp: claim_output race_inv_def)
qed

lemma claim_winner_result:
  "fst (claim_winner w k) = fst (race_claim_result w k)"
  "claim_winner w k = (k', Inr u) \<Longrightarrow> race_claim_result w k = (k', True)"
  by (simp_all add: race_claim_result_def split: prod.splits sum.splits)

lemma race_inv_direct_send:
  assumes inv: "race_inv s" and own: "sink_owner (rc_sink s) = Some w"
  shows "race_inv (s \<lparr> rc_sink := fst (direct_send is_closed w chunk (rc_sink s)) \<rparr>)"
  using inv own by (intro race_inv_sink [OF inv]) (simp_all add: direct_send_def race_inv_def)

lemma record_lane_failure_inv:
  "race_inv (record_lane_failure t r s) = race_inv s"
  "rc_pcs (record_lane_failure t r s) = rc_pcs s"
  by (simp_all add: record_lane_failure_def race_inv_def Let_def split: option.splits)

lemma race_inv_lane_result:
  assumes inv: "race_inv s" and w: "w < length (rc_pcs s)" "rc_pcs s ! w = Exec t"
  shows "race_inv (lane_result w t r s)"
proof -
  have fail: "race_inv (set_pc w LoopHead (record_lane_failure t r s'))"
    if "race_inv s'" "rc_pcs s' = rc_pcs s" for s'
    using that w by (intro race_inv_set_pc) (simp_all add: record_lane_failure_inv)
  let ?k = "fst (race_claim_result w (rc_sink s))"
  have inv1: "race_inv (s \<lparr> rc_sink := ?k \<rparr>)" by (rule race_inv_claim [OF inv])
  show ?thesis
  proof (cases "(pr_error r = None \<or> race_has_output w (rc_sink s)) \<and> snd (race_claim_result w (rc_sink s))")
    case True
    then have own: "sink_owner ?k = Some w" using arbiter.claim_ok by blast
    define s2 where "s2 = (if rc_winner s = None then s \<lparr> rc_sink := ?k, rc_winner := Some (w, r) \<rparr>
        else s \<lparr> rc_sink := ?k \<rparr>)"
    have "race_inv (s \<lparr> rc_sink := ?k, rc_winner := Some (w, r) \<rparr>)"
      using inv1 own by (simp add: race_inv_def)
    with inv1 have "race_inv s2" by (simp add: s2_def)
    then have "race_inv (finish_worker w s2)"
      using w by (intro race_inv_finish) (simp_all add: s2_def)
    moreover have "lane_result w t r s = finish_worker w s2"
      using True by (auto simp: lane_result_def s2_def Let_def split: prod.splits)
    ultimately show ?thesis by simp
  next
    case False
    then show ?thesis
      using fail [of s] fail [of "s \<lparr> rc_sink := ?k \<rparr>"] inv inv1
      by (auto simp: lane_result_def split: prod.splits)
  qed
qed

lemma race_inv_step: "race_step d s s' \<Longrightarrow> race_inv s \<Longrightarrow> race_inv s'"
proof (induction rule: race_step.induct)
  case (pop w s t q)
  have "race_inv (s \<lparr> rc_queue := q \<rparr>)" using pop by (simp add: race_inv_def)
  then show ?case using pop by (intro race_inv_set_pc) simp_all
next
  case (send_claim w s t seen k chunk)
  then have "claim_winner w (rc_sink s) = (k, Inr ())" by (simp add: loaded_by_def stale_load_harmless)
  then have r: "race_claim_result w (rc_sink s) = (k, True)" using claim_winner_result(2) by blast
  have "race_inv (s \<lparr> rc_sink := k \<rparr>)" using race_inv_claim [OF send_claim.prems, of w] r by simp
  moreover have "sink_owner k = Some w" using arbiter.claim_ok [of w "rc_sink s"] r by simp
  ultimately show ?case using send_claim by (intro race_inv_set_pc) simp_all
next
  case (send_lost w s t seen k e)
  then have "claim_winner w (rc_sink s) = (k, Inl e)" by (simp add: loaded_by_def stale_load_harmless)
  then show ?case using race_inv_claim [OF send_lost.prems, of w] claim_winner_result(1) [of w "rc_sink s"] by simp
next
  case (send_chunk w s t chunk is_closed)
  then have "sink_owner (rc_sink s) = Some w" by (auto simp: race_inv_def sending_owned_def)
  from race_inv_direct_send [OF send_chunk.prems this, of is_closed chunk]
  show ?case using send_chunk by (intro race_inv_set_pc) simp_all
next
  case (result w s t r)
  then show ?case by (intro race_inv_lane_result)
next
  case (wait_none_running s)
  then show ?case by (simp add: race_inv_def cancel_all_def)
next
  case (wait_winner s w r)
  then show ?case by (auto simp: race_inv_def cancel_all_def)
next
  case (wait_no_winner s)
  then show ?case by (simp add: race_inv_def)
next
  case (wait_park s)
  then show ?case by (simp add: race_inv_def)
next
  case (wait_wake s)
  then show ?case by (simp add: race_inv_def)
qed (auto intro!: race_inv_finish race_inv_set_pc)

lemma race_inv_init: "race_inv (race_init n to_run)"
  by (simp add: race_inv_def race_init_def race_sink_new_def live_lanes_def sending_owned_def)

lemma race_reachable_inv: "race_reachable d n to_run s \<Longrightarrow> race_inv s"
  by (induction rule: race_reachable.induct) (auto simp: race_inv_init intro: race_inv_step)

section \<open>Properties of the race\<close>

lemma live_lane:
  assumes "live_lanes s \<noteq> 0"
  obtains w where "w < length (rc_pcs s)" "rc_pcs s ! w \<noteq> Finished"
proof -
  from assms have "\<exists>pc \<in> set (rc_pcs s). pc \<noteq> Finished" by (auto simp: live_lanes_def filter_empty_conv)
  then show thesis using that by (metis in_set_conv_nth)
qed

lemma lane_can_step:
  assumes w: "w < length (rc_pcs s)" and "rc_pcs s ! w \<noteq> Finished"
  shows "\<exists>s'. race_step d s s'"
proof (cases "rc_pcs s ! w")
  case LoopHead
  then show ?thesis using w by (cases "is_cancelled w s") (blast intro: race_step.head_cancelled race_step.head_go)+
next
  case CanPop
  then show ?thesis using w by (cases "rc_queue s") (blast intro: race_step.pop_empty race_step.pop)+
next
  case (Popped t)
  then show ?thesis
    using w by (cases "is_cancelled w s") (blast intro: race_step.popped_cancelled race_step.popped_go)+
qed (use assms in \<open>blast intro: race_step.result race_step.send_dropped\<close>)+

text \<open>
  C17: the client hears one lane. In every reachable state of a race all chunks sent to the client
  come from the lane that owns the arbiter, and the result put in the winner slot is that lane's.
\<close>

theorem race_single_writer:
  assumes "race_reachable d n to_run s"
  shows "list_all (\<lambda>(w, c). sink_owner (rc_sink s) = Some w) (sk_output (rc_sink s)) \<and>
     (\<forall>w r. rc_winner s = Some (w, r) \<longrightarrow> sink_owner (rc_sink s) = Some w)"
  using race_reachable_inv [OF assms] by (simp add: race_inv_def)

text \<open>
  the count of running lanes is exact, and the waiting task is only woken when every lane has
  ended: a race that has parked returns its winner after the last lane, never before.
\<close>

theorem race_wakes_after_all_lanes:
  assumes "race_reachable d n to_run s"
  shows "rc_running s = live_lanes s \<and> (rc_notified s \<longrightarrow> live_lanes s = 0)"
  using race_reachable_inv [OF assms] by (simp add: race_inv_def)

text \<open>
  C38: A race never gets stuck: as long as the waiting task has not returned, some lane or the waiting
  task itself can take a step. In particular the single wake-up of the last lane is never lost.
\<close>

theorem race_never_stuck:
  assumes "race_reachable d n to_run s" and "\<forall>x. rc_waiter s \<noteq> Returned x"
  shows "\<exists>s'. race_step d s s'"
proof (cases "rc_waiter s")
  case CheckWinner
  then show ?thesis
    by (cases "rc_winner s") (auto intro: race_step.wait_winner race_step.wait_no_winner)
next
  case CheckRunning
  then show ?thesis by (cases "rc_running s = 0") (auto intro: race_step.wait_none_running race_step.wait_park)
next
  case Parked
  show ?thesis
  proof (cases "rc_notified s")
    case True
    with Parked show ?thesis by (auto intro: race_step.wait_wake)
  next
    case False
    with Parked race_reachable_inv [OF assms(1)] have "live_lanes s \<noteq> 0" by (simp add: race_inv_def)
    then obtain w where "w < length (rc_pcs s)" "rc_pcs s ! w \<noteq> Finished" by (rule live_lane)
    then show ?thesis by (rule lane_can_step)
  qed
qed (use assms(2) in simp)

definition ok_result :: pipeline_result where
  "ok_result = \<lparr> pr_status_code = 200, pr_error = None, pr_final_response = None, pr_attempts = 1,
     pr_usage_tuple = None \<rparr>"

definition lane_running :: race_state where
  "lane_running = set_pc 0 (Exec default_combo_target) (race_init 1 [default_combo_target] \<lparr> rc_queue := [] \<rparr>)"

lemma lane_running_reachable: "race_reachable d 1 [default_combo_target] lane_running"
proof -
  let ?t = default_combo_target
  let ?R = "race_reachable d 1 [?t]"
  define s0 where "s0 = race_init 1 [?t]"
  define s1 where "s1 = set_pc 0 CanPop s0"
  define s2 where "s2 = set_pc 0 (Popped ?t) (s1 \<lparr> rc_queue := [] \<rparr>)"
  note defs = s0_def s1_def s2_def race_init_def race_sink_new_def set_pc_def is_cancelled_def
  have "?R s0" unfolding s0_def by (rule race_reachable.init)
  moreover have "race_step d s0 s1" unfolding s1_def by (rule head_go) (simp_all add: defs)
  ultimately have "?R s1" by (rule race_reachable.step)
  moreover have "race_step d s1 s2" unfolding s2_def by (rule pop) (simp_all add: defs)
  ultimately have "?R s2" by (rule race_reachable.step)
  moreover have "race_step d s2 (set_pc 0 (Exec ?t) s2)" by (rule popped_go) (simp_all add: defs)
  ultimately have "?R (set_pc 0 (Exec ?t) s2)" by (rule race_reachable.step)
  moreover have "set_pc 0 (Exec ?t) s2 = lane_running" by (simp add: lane_running_def defs)
  ultimately show ?thesis by simp
qed

lemmas lane_defs = lane_running_def race_init_def race_sink_new_def set_pc_def

text \<open>
  a finished race can report failure. The waiting task reads the winner slot and then the count
  of running lanes; when the last lane wins between the two reads, the race returns an error
  although a lane won and its result is in the slot.
\<close>

theorem race_can_drop_winner:
  "run_race_start 1 True 1 [default_combo_target] = Inr (race_init 1 [default_combo_target]) \<and>
   (\<exists>s out. race_reachable (NoHealthyTargets 1) 1 [default_combo_target] s \<and>
     run_race_outcome 1 s = Some out \<and> pr_error (ro_result out) = Some (NoHealthyTargets 1) \<and>
     pr_status_code (ro_result out) = 502 \<and> rc_winner s = Some (0, ok_result))"
proof -
  let ?d = "NoHealthyTargets 1" and ?t = default_combo_target
  let ?R = "race_reachable ?d 1 [?t]"
  define s4 where "s4 = lane_running \<lparr> rc_waiter := CheckRunning \<rparr>"
  define s5 where "s5 = lane_result 0 ?t ok_result s4"
  have "race_step ?d lane_running s4" unfolding s4_def by (rule wait_no_winner) (simp_all add: lane_defs)
  with lane_running_reachable have "?R s4" by (rule race_reachable.step)
  moreover have "race_step ?d s4 s5" unfolding s5_def by (rule result) (simp_all add: s4_def lane_defs)
  ultimately have R5: "?R s5" by (rule race_reachable.step)
  have s5: "rc_waiter s5 = CheckRunning" "rc_running s5 = 0" "rc_winner s5 = Some (0, ok_result)"
    "rc_last_err s5 = None"
    by (simp_all add: s5_def s4_def lane_result_def ok_result_def race_claim_result_def claim_winner_def
        claim_winner_seen_def try_register_winner_def cancel_other_workers_def finish_worker_def
        notify_worker_done_def Let_def lane_defs)
  let ?s = "cancel_all (s5 \<lparr> rc_waiter := Returned (Inl (case rc_last_err s5 of Some e \<Rightarrow> e | None \<Rightarrow> ?d)),
      rc_last_err := None \<rparr>)"
  have "race_step ?d s5 ?s" by (rule wait_none_running) (simp_all add: s5)
  with R5 have "?R ?s" by (rule race_reachable.step)
  moreover have "rc_waiter ?s = Returned (Inl ?d)" "rc_winner ?s = Some (0, ok_result)"
    using s5 by (simp_all add: cancel_all_def)
  ultimately have "\<exists>s out. ?R s \<and> run_race_outcome 1 s = Some out \<and>
      pr_error (ro_result out) = Some ?d \<and> pr_status_code (ro_result out) = 502 \<and> rc_winner s = Some (0, ok_result)"
    by (intro exI [of _ ?s]) (simp add: run_race_outcome_def)
  then show ?thesis by (simp add: run_race_start_def race_num_workers_def as_u8_def)
qed

definition lane_sent :: race_state where
  "lane_sent = lane_running \<lparr> rc_sink := fst (race_send False 0 ''hi'' (rc_sink lane_running)) \<rparr>"

lemma lane_sent_reachable: "race_reachable d 1 [default_combo_target] lane_sent"
proof -
  let ?t = default_combo_target and ?k = "fst (claim_winner 0 (rc_sink lane_running))"
  let ?R = "race_reachable d 1 [?t]"
  let ?s = "set_pc 0 (Sending ?t ''hi'') (lane_running \<lparr> rc_sink := ?k \<rparr>)"
  have claim: "claim_winner 0 (rc_sink lane_running) = (?k, Inr ())"
    by (simp add: claim_winner_def claim_winner_seen_def try_register_winner_def lane_defs)
  have "race_step d lane_running ?s"
    using claim by (intro send_claim [where seen = 0])
      (simp_all add: loaded_by_def claim_winner_def lane_defs)
  with lane_running_reachable have "?R ?s" by (rule race_reachable.step)
  moreover have "race_step d ?s (set_pc 0 (Exec ?t) (?s \<lparr> rc_sink := fst (direct_send False 0 ''hi'' (rc_sink ?s)) \<rparr>))"
    by (rule send_chunk) (simp_all add: lane_defs)
  ultimately have "?R (set_pc 0 (Exec ?t) (?s \<lparr> rc_sink := fst (direct_send False 0 ''hi'' (rc_sink ?s)) \<rparr>))"
    by (rule race_reachable.step)
  moreover have "set_pc 0 (Exec ?t) (?s \<lparr> rc_sink := fst (direct_send False 0 ''hi'' (rc_sink ?s)) \<rparr>) = lane_sent"
    using claim by (cases "claim_winner 0 (rc_sink lane_running)") (simp add: lane_sent_def race_send_def lane_defs)
  ultimately show ?thesis by simp
qed

theorem race_single_writer_witness:
  "sk_output (rc_sink lane_sent) = [(0, ''hi'')] \<and> sink_owner (rc_sink lane_sent) = Some 0"
proof -
  have "sk_output (rc_sink lane_sent) = [(0, ''hi'')]"
    by (simp add: lane_sent_def race_send_def claim_winner_def claim_winner_seen_def try_register_winner_def
        cancel_other_workers_def direct_send_def lane_defs)
  then show ?thesis using race_single_writer [OF lane_sent_reachable [of RaceLost]] by simp
qed

theorem race_wakes_after_all_lanes_witness:
  "rc_running lane_running = live_lanes lane_running"
  using race_wakes_after_all_lanes [OF lane_running_reachable] by blast

theorem race_never_stuck_witness: "\<exists>s'. race_step RaceLost lane_sent s'"
  using race_never_stuck [OF lane_sent_reachable [of RaceLost]]
  by (simp add: lane_sent_def lane_defs)

end
