(* ===== verification/Sse_Framing.thy ===== *)
theory Sse_Framing
  imports Core_Error
begin

text \<open>
  SSE framing over transport bytes (openproxy-pipeline/src/sse/framing.rs): a bounded buffer from
  which complete lines, or complete OpenAI frames, are taken. The position up to which the buffer
  has been searched is part of the state. Framing must not depend on how the transport cut the
  stream: the locale \<open>chunked_decoder\<close> states that contract.
\<close>

section \<open>The parser\<close>

record sse_parser =
  sp_buffer :: string
  sp_max_line_bytes :: nat
  sp_scanned :: nat

definition sse_new :: "nat \<Rightarrow> sse_parser" where
  "sse_new max_line_bytes = \<lparr> sp_buffer = [], sp_max_line_bytes = max_line_bytes, sp_scanned = 0 \<rparr>"

definition push_bytes :: "string \<Rightarrow> sse_parser \<Rightarrow> core_error + sse_parser" where
  "push_bytes chunk p =
     (if length (sp_buffer p) + length chunk > sp_max_line_bytes p
      then Inl (UpstreamConnection (''SSE line buffer exceeded '' @ show_nat (sp_max_line_bytes p) @
                  '' bytes (memory-DoS guard)''))
      else Inr (p \<lparr> sp_buffer := sp_buffer p @ chunk \<rparr>))"

definition sse_push :: "string \<Rightarrow> sse_parser \<Rightarrow> core_error + sse_parser" where
  "sse_push chunk p = push_bytes chunk p"

abbreviation LF :: char where "LF \<equiv> CHR 0x0A"
abbreviation CR :: char where "CR \<equiv> CHR 0x0D"

fun memchr :: "char \<Rightarrow> string \<Rightarrow> nat option" where
  "memchr c [] = None"
| "memchr c (x # xs) = (if x = c then Some 0 else map_option Suc (memchr c xs))"

definition newline :: "sse_parser \<Rightarrow> sse_parser \<times> nat option" where
  "newline p =
     (if sp_scanned p > length (sp_buffer p) then (p, None)
      else
        (case memchr LF (drop (sp_scanned p) (sp_buffer p)) of
           Some relative \<Rightarrow> (p \<lparr> sp_scanned := 0 \<rparr>, Some (sp_scanned p + relative))
         | None \<Rightarrow> (p \<lparr> sp_scanned := length (sp_buffer p) \<rparr>, None)))"

definition next_line :: "sse_parser \<Rightarrow> sse_parser \<times> string option" where
  "next_line p =
     (case newline p of
        (p', None) \<Rightarrow> (p', None)
      | (p', Some pos) \<Rightarrow>
          (p' \<lparr> sp_buffer := drop (pos + 1) (sp_buffer p') \<rparr>, Some (take pos (sp_buffer p'))))"

definition next_openai_frame :: "sse_parser \<Rightarrow> sse_parser \<times> string option" where
  "next_openai_frame p =
     (case newline p of
        (p', None) \<Rightarrow> (p', None)
      | (p', Some pos) \<Rightarrow>
          (let line_end = pos + 1;
               tail = drop line_end (sp_buffer p');
               delimiter = (if starts_with tail [LF] then 1 else if starts_with tail [CR, LF] then 2 else 0)
           in (p' \<lparr> sp_buffer := drop (line_end + delimiter) (sp_buffer p') \<rparr>,
               Some (take (line_end + delimiter) (sp_buffer p')))))"

definition sse_is_empty :: "sse_parser \<Rightarrow> bool" where
  "sse_is_empty p \<longleftrightarrow> sp_buffer p = []"

definition remaining_bytes :: "sse_parser \<Rightarrow> string" where
  "remaining_bytes p = sp_buffer p"

section \<open>Invariant\<close>

text \<open>The buffer is within its bound, and what has been searched holds no newline.\<close>

definition sse_ok :: "sse_parser \<Rightarrow> bool" where
  "sse_ok p \<longleftrightarrow> length (sp_buffer p) \<le> sp_max_line_bytes p \<and> sp_scanned p \<le> length (sp_buffer p) \<and>
     LF \<notin> set (take (sp_scanned p) (sp_buffer p))"

lemma memchr_None: "memchr c s = None \<longleftrightarrow> c \<notin> set s"
  by (induction s) auto

lemma memchr_Some: "memchr c s = Some i \<Longrightarrow> i < length s \<and> s ! i = c \<and> c \<notin> set (take i s)"
  by (induction s arbitrary: i) (auto split: if_splits)

lemma memchr_append: "c \<notin> set a \<Longrightarrow> memchr c (a @ b) = map_option (\<lambda>i. length a + i) (memchr c b)"
  by (cases "memchr c b"; induction a) auto

lemma newline_alt:
  assumes "sse_ok p"
  shows "newline p =
     (case memchr LF (sp_buffer p) of
        Some pos \<Rightarrow> (p \<lparr> sp_scanned := 0 \<rparr>, Some pos)
      | None \<Rightarrow> (p \<lparr> sp_scanned := length (sp_buffer p) \<rparr>, None))"
proof -
  have "memchr LF (sp_buffer p) =
      map_option (\<lambda>i. sp_scanned p + i) (memchr LF (drop (sp_scanned p) (sp_buffer p)))"
    using assms memchr_append [of LF "take (sp_scanned p) (sp_buffer p)" "drop (sp_scanned p) (sp_buffer p)"]
    by (simp add: sse_ok_def min_def)
  then show ?thesis using assms by (simp add: newline_def sse_ok_def split: option.splits)
qed

lemma next_line_alt:
  assumes "sse_ok p"
  shows "next_line p =
     (case memchr LF (sp_buffer p) of
        Some pos \<Rightarrow> (p \<lparr> sp_scanned := 0, sp_buffer := drop (pos + 1) (sp_buffer p) \<rparr>, Some (take pos (sp_buffer p)))
      | None \<Rightarrow> (p \<lparr> sp_scanned := length (sp_buffer p) \<rparr>, None))"
  by (simp add: next_line_def newline_alt [OF assms] split: option.splits)

lemma sse_ok_new: "sse_ok (sse_new m)"
  by (simp add: sse_ok_def sse_new_def)

lemma sse_ok_push: "sse_ok p \<Longrightarrow> push_bytes chunk p = Inr p' \<Longrightarrow> sse_ok p'"
  by (auto simp: sse_ok_def push_bytes_def split: if_splits)

lemma sse_ok_next_line: "sse_ok p \<Longrightarrow> sse_ok (fst (next_line p))"
  by (auto simp: next_line_alt sse_ok_def memchr_None split: option.splits)

lemma sse_ok_next_frame: "sse_ok p \<Longrightarrow> sse_ok (fst (next_openai_frame p))"
  by (auto simp: next_openai_frame_def newline_alt sse_ok_def memchr_None Let_def split: option.splits)

section \<open>Draining\<close>

text \<open>The loop of the callers, \<open>while let Some(line) = parser.next_line()\<close>, and the same over frames.\<close>

lemma next_line_shrinks:
  "next_line p = (p', Some l) \<Longrightarrow> length (sp_buffer p') < length (sp_buffer p)"
  by (auto simp: next_line_def newline_def split: if_splits option.splits dest: memchr_Some)

lemma next_frame_shrinks:
  "next_openai_frame p = (p', Some l) \<Longrightarrow> length (sp_buffer p') < length (sp_buffer p)"
  by (auto simp: next_openai_frame_def newline_def Let_def split: if_splits option.splits dest: memchr_Some)

function drain_lines :: "sse_parser \<Rightarrow> sse_parser \<times> string list" where
  "drain_lines p =
     (case next_line p of
        (p', None) \<Rightarrow> (p', [])
      | (p', Some l) \<Rightarrow> (let (p'', ls) = drain_lines p' in (p'', l # ls)))"
  by pat_completeness auto
termination by (relation "measure (\<lambda>p. length (sp_buffer p))") (auto dest: next_line_shrinks [OF sym])

function drain_frames :: "sse_parser \<Rightarrow> sse_parser \<times> string list" where
  "drain_frames p =
     (case next_openai_frame p of
        (p', None) \<Rightarrow> (p', [])
      | (p', Some l) \<Rightarrow> (let (p'', ls) = drain_frames p' in (p'', l # ls)))"
  by pat_completeness auto
termination by (relation "measure (\<lambda>p. length (sp_buffer p))") (auto dest: next_frame_shrinks [OF sym])

declare drain_lines.simps [simp del] drain_frames.simps [simp del]

section \<open>Chunk independence\<close>

text \<open>
  A decoder fed in pieces: state, feed, output. If feeding a concatenation is feeding the pieces,
  then any two ways to cut the same stream give the same output and the same final state.
\<close>

locale chunked_decoder =
  fixes feed :: "'s \<Rightarrow> 'b list \<Rightarrow> 's \<times> 'o list"
  assumes feed_append:
    "feed s (xs @ ys) = (let (s1, o1) = feed s xs; (s2, o2) = feed s1 ys in (s2, o1 @ o2))"
    and feed_Nil: "feed s [] = (s, [])"
begin

fun feed_all :: "'s \<Rightarrow> 'b list list \<Rightarrow> 's \<times> 'o list" where
  "feed_all s [] = (s, [])"
| "feed_all s (c # cs) = (let (s1, o1) = feed s c; (s2, o2) = feed_all s1 cs in (s2, o1 @ o2))"

lemma feed_all_concat: "feed_all s cs = feed s (concat cs)"
  by (induction cs arbitrary: s) (simp_all add: feed_Nil feed_append split_beta Let_def)

lemma cut_independent: "concat cs = concat ds \<Longrightarrow> feed_all s cs = feed_all s ds"
  by (simp add: feed_all_concat)

end

text \<open>The reference: lines of a byte stream, with the unfinished line as state.\<close>

fun line_feed :: "string \<Rightarrow> string \<Rightarrow> string \<times> string list" where
  "line_feed pending [] = (pending, [])"
| "line_feed pending (c # cs) =
     (if c = LF then (let (p, ls) = line_feed [] cs in (p, pending # ls))
      else line_feed (pending @ [c]) cs)"

interpretation lines: chunked_decoder line_feed
proof
  fix s xs ys :: string
  show "line_feed s (xs @ ys) =
      (let (s1, o1) = line_feed s xs; (s2, o2) = line_feed s1 ys in (s2, o1 @ o2))"
    by (induction s xs rule: line_feed.induct) (auto simp: split_beta Let_def)
qed simp

lemma line_feed_no_newline: "LF \<notin> set xs \<Longrightarrow> line_feed pending (xs @ ys) = line_feed (pending @ xs) ys"
  by (induction xs arbitrary: pending) auto

lemma line_feed_pending: "LF \<notin> set xs \<Longrightarrow> line_feed [] xs = (xs, [])"
  using line_feed_no_newline [of xs "[]" "[]"] by simp

lemma line_feed_rest_no_newline: "LF \<notin> set pending \<Longrightarrow> LF \<notin> set (fst (line_feed pending xs))"
  by (induction pending xs rule: line_feed.induct) (auto simp: split_beta Let_def)

lemma drain_lines_refines:
  "sse_ok p \<Longrightarrow> sp_buffer (fst (drain_lines p)) = fst (line_feed [] (sp_buffer p)) \<and>
     snd (drain_lines p) = snd (line_feed [] (sp_buffer p)) \<and> sse_ok (fst (drain_lines p)) \<and>
     sp_max_line_bytes (fst (drain_lines p)) = sp_max_line_bytes p"
proof (induction p rule: drain_lines.induct)
  case (1 p)
  show ?case
  proof (cases "memchr LF (sp_buffer p)")
    case None
    then have "next_line p = (p \<lparr> sp_scanned := length (sp_buffer p) \<rparr>, None)"
      using "1.prems" by (simp add: next_line_alt)
    with None "1.prems" show ?thesis
      using sse_ok_next_line [OF "1.prems"]
      by (subst drain_lines.simps, subst (2) drain_lines.simps, subst (3) drain_lines.simps,
          subst (4) drain_lines.simps) (simp add: memchr_None line_feed_pending)
  next
    case (Some pos)
    let ?p = "p \<lparr> sp_scanned := 0, sp_buffer := drop (pos + 1) (sp_buffer p) \<rparr>"
    have nl: "next_line p = (?p, Some (take pos (sp_buffer p)))"
      using "1.prems" Some by (simp add: next_line_alt)
    have ok: "sse_ok ?p" using sse_ok_next_line [OF "1.prems"] nl by simp
    have buf: "sp_buffer p = take pos (sp_buffer p) @ LF # drop (pos + 1) (sp_buffer p)"
      using memchr_Some [OF Some] id_take_nth_drop [of pos "sp_buffer p"] by simp
    have lf: "line_feed [] (sp_buffer p) =
        (let (q, ls) = line_feed [] (drop (pos + 1) (sp_buffer p)) in (q, take pos (sp_buffer p) # ls))"
      using memchr_Some [OF Some] line_feed_no_newline [of "take pos (sp_buffer p)" "[]"]
      by (subst buf) simp
    have dr: "drain_lines p = (let (q, ls) = drain_lines ?p in (q, take pos (sp_buffer p) # ls))"
      by (subst drain_lines.simps) (simp add: nl)
    show ?thesis
      using "1.IH" [OF nl [symmetric] refl ok] lf by (simp add: dr split_beta Let_def)
  qed
qed

text \<open>A stream in transport chunks: each is pushed, then all complete lines are taken.\<close>

fun sse_run :: "sse_parser \<Rightarrow> string list \<Rightarrow> core_error + sse_parser \<times> string list" where
  "sse_run p [] = Inr (p, [])"
| "sse_run p (c # cs) =
     (case push_bytes c p of
        Inl e \<Rightarrow> Inl e
      | Inr p1 \<Rightarrow>
          (let (p2, ls) = drain_lines p1
           in case sse_run p2 cs of Inl e \<Rightarrow> Inl e | Inr (p3, ls') \<Rightarrow> Inr (p3, ls @ ls')))"

lemma push_drain:
  assumes "sse_ok p" and "LF \<notin> set (sp_buffer p)" and "push_bytes c p = Inr p1"
  shows "sse_ok (fst (drain_lines p1)) \<and> LF \<notin> set (sp_buffer (fst (drain_lines p1))) \<and>
     (sp_buffer (fst (drain_lines p1)), snd (drain_lines p1)) = line_feed (sp_buffer p) c \<and>
     sp_max_line_bytes (fst (drain_lines p1)) = sp_max_line_bytes p"
proof -
  have ok: "sse_ok p1" using sse_ok_push assms(1,3) by blast
  have buf: "sp_buffer p1 = sp_buffer p @ c" "sp_max_line_bytes p1 = sp_max_line_bytes p"
    using assms(3) by (auto simp: push_bytes_def split: if_splits)
  have "line_feed [] (sp_buffer p1) = line_feed (sp_buffer p) c"
    using line_feed_no_newline [OF assms(2), of "[]" c] buf by simp
  with drain_lines_refines [OF ok] line_feed_rest_no_newline [OF assms(2), of c] buf(2) show ?thesis
    by simp
qed

lemma sse_run_refines:
  assumes "sse_ok p" and "LF \<notin> set (sp_buffer p)" and "sse_run p cs = Inr (p', ls)"
  shows "(sp_buffer p', ls) = lines.feed_all (sp_buffer p) cs"
  using assms
proof (induction cs arbitrary: p ls)
  case Nil
  then show ?case by simp
next
  case (Cons c cs)
  then obtain p1 where push: "push_bytes c p = Inr p1" by (auto split: sum.splits)
  note pd = push_drain [OF Cons.prems(1,2) push]
  obtain ls' where rest: "sse_run (fst (drain_lines p1)) cs = Inr (p', ls')"
    and ls: "ls = snd (drain_lines p1) @ ls'"
    using Cons.prems(3) push by (auto simp: split_beta Let_def split: sum.splits)
  have "(sp_buffer p', ls') = lines.feed_all (sp_buffer (fst (drain_lines p1))) cs"
    using Cons.IH pd rest by blast
  with pd ls show ?case by (cases "line_feed (sp_buffer p) c") (auto split: prod.splits)
qed

lemma sse_run_succeeds:
  assumes "sse_ok p" and "LF \<notin> set (sp_buffer p)"
    and "length (sp_buffer p) + length (concat cs) \<le> sp_max_line_bytes p"
  shows "\<exists>x. sse_run p cs = Inr x"
  using assms
proof (induction cs arbitrary: p)
  case Nil
  then show ?case by simp
next
  case (Cons c cs)
  then obtain p1 where push: "push_bytes c p = Inr p1" by (simp add: push_bytes_def)
  note pd = push_drain [OF Cons.prems(1,2) push]
  have "length (fst (line_feed q c)) \<le> length q + length c" for q
    by (induction q c rule: line_feed.induct) (fastforce simp: split_beta Let_def)+
  then have "length (sp_buffer (fst (drain_lines p1))) \<le> length (sp_buffer p) + length c"
    using pd by (metis fst_conv)
  then obtain x where "sse_run (fst (drain_lines p1)) cs = Inr x"
    using Cons.IH [of "fst (drain_lines p1)"] pd Cons.prems(3) by auto
  then show ?case using push by (cases x) (simp add: split_beta)
qed

text \<open>
  line framing does not depend on the transport. However a stream that fits the buffer bound is
  cut into chunks, pushing them one by one and taking the complete lines yields exactly the lines
  of the whole stream, with the unfinished last line left in the buffer.
\<close>

theorem sse_cut_independent:
  assumes "length (concat cs) \<le> m"
  shows "\<exists>p. sse_run (sse_new m) cs = Inr (p, snd (line_feed [] (concat cs))) \<and>
     remaining_bytes p = fst (line_feed [] (concat cs))"
proof -
  have ok: "sse_ok (sse_new m)" "LF \<notin> set (sp_buffer (sse_new m))"
    by (simp_all add: sse_ok_new) (simp add: sse_new_def)
  obtain p ls where run: "sse_run (sse_new m) cs = Inr (p, ls)"
    using sse_run_succeeds [OF ok, of cs] assms by (auto simp: sse_new_def)
  have "(sp_buffer p, ls) = lines.feed_all [] cs"
    using sse_run_refines [OF ok run] by (simp add: sse_new_def)
  then have "line_feed [] (concat cs) = (sp_buffer p, ls)" by (simp add: lines.feed_all_concat)
  with run show ?thesis by (simp add: remaining_bytes_def)
qed

theorem sse_cut_independent_witness:
  "\<exists>p. sse_run (sse_new 16) [''da'', ''ta'' @ [LF], ''x''] = Inr (p, [''data'']) \<and> remaining_bytes p = ''x''"
  using sse_cut_independent [of "[''da'', ''ta'' @ [LF], ''x'']" 16] by simp

lemma drain_frames_lossless:
  "sse_ok p \<Longrightarrow> concat (snd (drain_frames p)) @ sp_buffer (fst (drain_frames p)) = sp_buffer p \<and>
     LF \<notin> set (sp_buffer (fst (drain_frames p))) \<and> sse_ok (fst (drain_frames p))"
proof (induction p rule: drain_frames.induct)
  case (1 p)
  obtain p' res where nf: "next_openai_frame p = (p', res)" by fastforce
  have ok: "sse_ok p'" using sse_ok_next_frame [OF "1.prems"] nf by simp
  show ?case
  proof (cases res)
    case None
    then have dr: "drain_frames p = (p', [])" by (subst drain_frames.simps) (simp add: nf)
    have "sp_buffer p' = sp_buffer p" "LF \<notin> set (sp_buffer p)"
      using nf None "1.prems"
      by (auto simp: next_openai_frame_def newline_alt memchr_None Let_def split: option.splits)
    with dr ok show ?thesis by simp
  next
    case (Some f)
    have dr: "drain_frames p = (let (q, fs) = drain_frames p' in (q, f # fs))"
      by (subst drain_frames.simps) (simp add: nf Some)
    have "f @ sp_buffer p' = sp_buffer p"
      using nf Some "1.prems"
      by (auto simp: next_openai_frame_def newline_alt Let_def split: option.splits)
    with "1.IH" [OF nf [symmetric] Some ok] show ?thesis by (simp add: dr split_beta Let_def)
  qed
qed

text \<open>
  OpenAI framing loses nothing. For any push the frames taken, followed by what stays in the
  buffer, are exactly the bytes that were there, and no complete line is left behind.
\<close>

theorem openai_frames_lossless:
  assumes "sse_ok p" and "push_bytes chunk p = Inr p'"
  shows "concat (snd (drain_frames p')) @ remaining_bytes (fst (drain_frames p')) = remaining_bytes p @ chunk \<and>
     LF \<notin> set (remaining_bytes (fst (drain_frames p')))"
proof -
  have "sse_ok p'" using sse_ok_push assms by blast
  moreover have "sp_buffer p' = sp_buffer p @ chunk"
    using assms(2) by (auto simp: push_bytes_def split: if_splits)
  ultimately show ?thesis using drain_frames_lossless by (simp add: remaining_bytes_def)
qed

theorem openai_frames_lossless_witness:
  "\<exists>p'. push_bytes (''data: x'' @ [LF, LF] @ ''da'') (sse_new 32) = Inr p' \<and>
     concat (snd (drain_frames p')) @ remaining_bytes (fst (drain_frames p')) = ''data: x'' @ [LF, LF] @ ''da''"
proof -
  let ?c = "''data: x'' @ [LF, LF] @ ''da''"
  have push: "push_bytes ?c (sse_new 32) = Inr ((sse_new 32) \<lparr> sp_buffer := ?c \<rparr>)"
    by (simp add: push_bytes_def sse_new_def)
  from openai_frames_lossless [OF sse_ok_new push] push show ?thesis
    by (intro exI conjI) (auto simp: remaining_bytes_def sse_new_def)
qed

text \<open>
  the buffer is bounded. A push never leaves more than the limit in the buffer; over the limit it
  is refused and nothing is taken in.
\<close>

theorem sse_buffer_bounded:
  "(case push_bytes chunk p of
      Inr p' \<Rightarrow> length (remaining_bytes p') \<le> sp_max_line_bytes p \<and> remaining_bytes p' = remaining_bytes p @ chunk
    | Inl e \<Rightarrow> sp_max_line_bytes p < length (remaining_bytes p) + length chunk \<and> http_status e = 502)"
  by (simp add: push_bytes_def remaining_bytes_def)

end
