(* ===== verification/Think_Extractor.thy ===== *)
theory Think_Extractor
  imports Core_Error Utf8
begin

text \<open>
  Reasoning blocks in the answer text (openproxy-pipeline/src/think_extractor.rs): \<open>think\<close> tags are
  moved out of the content of a whole response, or of a stream of deltas whose tags may span chunks.
  A string is a list of bytes, as everywhere.
\<close>

section \<open>Tags\<close>

definition THINK_OPEN_TAGS :: "string list" where
  "THINK_OPEN_TAGS = [''<think>'', ''<thinking>'', ''<reasoning>'', ''<thought>'']"

definition THINK_CLOSE_TAGS :: "string list" where
  "THINK_CLOSE_TAGS = [''</think>'', ''</thinking>'', ''</reasoning>'', ''</thought>'']"

definition find_ignore_ascii_case :: "string \<Rightarrow> string \<Rightarrow> nat option" where
  "find_ignore_ascii_case haystack needle =
     (if needle = [] then Some 0
      else if length haystack < length needle then None
      else find (\<lambda>i. eq_ignore_ascii_case (take (length needle) (drop i haystack)) needle)
             [0..<Suc (length haystack - length needle)])"

definition safe_slice_to :: "string \<Rightarrow> nat \<Rightarrow> string" where
  "safe_slice_to s end = take (floor_boundary s (min end (length s))) s"

definition safe_slice_from :: "string \<Rightarrow> nat \<Rightarrow> string" where
  "safe_slice_from s start = drop (ceil_boundary s (min start (length s))) s"

text \<open>\<open>min_by_key\<close> keeps the first of the equally early tags.\<close>

fun earliest :: "(nat \<times> string) list \<Rightarrow> (nat \<times> string) option" where
  "earliest [] = None"
| "earliest (x # xs) = (case earliest xs of None \<Rightarrow> Some x | Some y \<Rightarrow> Some (if fst y < fst x then y else x))"

definition find_earliest_tag :: "string \<Rightarrow> string list \<Rightarrow> (nat \<times> string) option" where
  "find_earliest_tag s tags =
     earliest (List.map_filter (\<lambda>tag. map_option (\<lambda>pos. (pos, tag)) (find_ignore_ascii_case s tag)) tags)"

section \<open>A whole response\<close>

record extracted_think =
  et_content :: string
  et_reasoning :: string

definition find_matching_close_tag :: "string \<Rightarrow> string option" where
  "find_matching_close_tag after_open =
     map_option snd (find (\<lambda>(ot, ct). length ot \<le> length after_open \<and> eq_ignore_ascii_case (take (length ot) after_open) ot)
       (zip THINK_OPEN_TAGS THINK_CLOSE_TAGS))"

definition str_find_char :: "string \<Rightarrow> char \<Rightarrow> nat option" where
  "str_find_char s c = (let i = length (takeWhile (\<lambda>x. x \<noteq> c) s) in if i < length s then Some i else None)"

definition parse_think_segment :: "string \<Rightarrow> nat \<Rightarrow> string \<times> string \<times> string" where
  "parse_think_segment remaining tag_idx =
     (let content_before = safe_slice_to remaining tag_idx;
          after_open = safe_slice_from remaining tag_idx;
          close_tag = find_matching_close_tag after_open;
          after_tag_content = safe_slice_from after_open
            (case str_find_char after_open CHR ''>'' of None \<Rightarrow> length after_open | Some p \<Rightarrow> p + 1);
          (think_text, rest) = (case close_tag of
             Some ct \<Rightarrow>
               (case find_ignore_ascii_case after_tag_content ct of
                  Some pos \<Rightarrow> (safe_slice_to after_tag_content pos, safe_slice_from after_tag_content (pos + length ct))
                | None \<Rightarrow> (after_tag_content, []))
           | None \<Rightarrow> (after_tag_content, []))
      in (content_before, think_text, rest))"

definition append_think_segment_reasoning :: "string \<Rightarrow> string \<Rightarrow> string" where
  "append_think_segment_reasoning reasoning think_text =
     (let trimmed = trim think_text
      in if trimmed = [] then reasoning
         else (if reasoning = [] then [] else reasoning @ [CHR 0x0A]) @ trimmed)"

section \<open>Occurrences\<close>

definition occurs_at :: "string \<Rightarrow> string \<Rightarrow> nat \<Rightarrow> bool" where
  "occurs_at t s p \<longleftrightarrow> p + length t \<le> length s \<and> eq_ignore_ascii_case (take (length t) (drop p s)) t"

lemma find_upt:
  "find P [0..<n] = Some p \<longleftrightarrow> p < n \<and> P p \<and> (\<forall>q < p. \<not> P q)"
  "find P [0..<n] = None \<longleftrightarrow> (\<forall>q < n. \<not> P q)"
  by (auto simp: find_Some_iff find_None_iff)

lemma find_tag_Some:
  "find_ignore_ascii_case s t = Some p \<longleftrightarrow> occurs_at t s p \<and> (\<forall>q < p. \<not> occurs_at t s q)"
  by (auto simp: find_ignore_ascii_case_def occurs_at_def find_upt simp del: upt_Suc) (auto simp: eq_ignore_ascii_case_def)

lemma find_tag_None: "t \<noteq> [] \<Longrightarrow> find_ignore_ascii_case s t = None \<longleftrightarrow> (\<forall>q. \<not> occurs_at t s q)"
  by (auto simp: find_ignore_ascii_case_def occurs_at_def find_upt simp del: upt_Suc)

lemma earliest_in: "earliest xs = Some x \<Longrightarrow> x \<in> set xs"
  by (induction xs arbitrary: x) (auto split: option.splits if_splits)

lemma in_tag_hits:
  "(p, t) \<in> set (List.map_filter (\<lambda>tag. map_option (\<lambda>pos. (pos, tag)) (find_ignore_ascii_case s tag)) tags) \<longleftrightarrow>
     t \<in> set tags \<and> find_ignore_ascii_case s t = Some p"
  by (induction tags) (auto simp: map_filter_simps split: option.split)

lemma find_earliest_tag_in: "find_earliest_tag s tags = Some (p, t) \<Longrightarrow> t \<in> set tags \<and> find_ignore_ascii_case s t = Some p"
  unfolding find_earliest_tag_def by (drule earliest_in) (simp only: in_tag_hits)

lemma open_tags_nonempty: "t \<in> set THINK_OPEN_TAGS \<Longrightarrow> t \<noteq> []"
  by (auto simp: THINK_OPEN_TAGS_def)

lemma safe_slice_from_length: "length (safe_slice_from s i) \<le> length s - min i (length s)"
  using ceil_boundary_ge [of "min i (length s)" s] by (simp add: safe_slice_from_def)

lemma find_ignore_ascii_case_length: "find_ignore_ascii_case s t = Some p \<Longrightarrow> p + length t \<le> length s"
  by (simp add: find_tag_Some occurs_at_def)

section \<open>The loop over a whole response\<close>

lemma parse_think_segment_shorter:
  assumes "find_earliest_tag s THINK_OPEN_TAGS = Some (i, t)" and "parse_think_segment s i = (before, txt, rest)"
  shows "length rest < length s"
proof -
  let ?o = "safe_slice_from s i"
  let ?a = "safe_slice_from ?o (case str_find_char ?o CHR ''>'' of None \<Rightarrow> length ?o | Some p \<Rightarrow> p + 1)"
  have "t \<noteq> []" using find_earliest_tag_in [OF assms(1)] open_tags_nonempty by blast
  then have "0 < length s" using find_earliest_tag_in [OF assms(1)] find_ignore_ascii_case_length by fastforce
  moreover have "length ?o \<le> length s" using safe_slice_from_length [of s i] by linarith
  moreover have "length ?a < length ?o \<or> ?o = []"
    using safe_slice_from_length [of ?o "case str_find_char ?o CHR ''>'' of None \<Rightarrow> length ?o | Some p \<Rightarrow> p + 1"]
    by (cases ?o) (auto split: option.splits)
  moreover have "?o = [] \<Longrightarrow> ?a = []" by (simp add: safe_slice_from_def)
  moreover have "length rest \<le> length ?a"
  proof -
    have "rest = [] \<or> (\<exists>k. rest = safe_slice_from ?a k)"
      using assms(2) by (auto simp: parse_think_segment_def Let_def split: option.splits)
    moreover have "length (safe_slice_from ?a k) \<le> length ?a" for k
      using safe_slice_from_length [of ?a k] by linarith
    ultimately show ?thesis by auto
  qed
  ultimately show ?thesis by auto
qed

function think_loop :: "string \<Rightarrow> extracted_think \<Rightarrow> extracted_think" where
  "think_loop remaining result =
     (case find_earliest_tag remaining THINK_OPEN_TAGS of
        None \<Rightarrow> result \<lparr> et_content := et_content result @ remaining \<rparr>
      | Some (tag_idx, _) \<Rightarrow>
          (let (content_before, think_text, rest) = parse_think_segment remaining tag_idx
           in think_loop rest
                \<lparr> et_content = et_content result @ content_before,
                  et_reasoning = append_think_segment_reasoning (et_reasoning result) think_text \<rparr>))"
  by auto
termination
  by (relation "measure (\<lambda>(remaining, _). length remaining)") (auto dest!: parse_think_segment_shorter dest: sym)

declare think_loop.simps [simp del]

text \<open>A close tag without its open tag before it is cut out, again and again.\<close>

function strip_close_tag :: "string \<Rightarrow> string \<Rightarrow> string \<Rightarrow> string" where
  "strip_close_tag open_tag close_tag s =
     (case find_ignore_ascii_case s close_tag of
        None \<Rightarrow> s
      | Some pos \<Rightarrow>
          (if close_tag = [] \<or> find_ignore_ascii_case (safe_slice_to s pos) open_tag \<noteq> None then s
           else strip_close_tag open_tag close_tag (take pos s @ drop (pos + length close_tag) s)))"
  by auto
termination
  by (relation "measure (\<lambda>(_, _, s). length s)") (auto dest!: find_ignore_ascii_case_length simp flip: length_greater_0_conv)

declare strip_close_tag.simps [simp del]

definition strip_orphaned_close_tags :: "string \<Rightarrow> string" where
  "strip_orphaned_close_tags content =
     (if CHR ''<'' \<notin> set content then content
      else fold (\<lambda>(ot, ct). strip_close_tag ot ct) (zip THINK_OPEN_TAGS THINK_CLOSE_TAGS) content)"

definition extract_think_from_content :: "string \<Rightarrow> extracted_think" where
  "extract_think_from_content content =
     (let result = think_loop content \<lparr> et_content = [], et_reasoning = [] \<rparr>
      in result \<lparr> et_content := dropWhile (\<lambda>c. c = CHR 0x0A) (strip_orphaned_close_tags (et_content result)) \<rparr>)"

section \<open>Messages of a response\<close>

definition json_insert :: "(string \<times> json) list \<Rightarrow> string \<Rightarrow> json \<Rightarrow> (string \<times> json) list" where
  "json_insert kvs k v =
     (if list_ex (\<lambda>(j, _). j = k) kvs then map (\<lambda>(j, w). (j, if j = k then v else w)) kvs else kvs @ [(k, v)])"

definition str_field :: "(string \<times> json) list \<Rightarrow> string \<Rightarrow> string" where
  "str_field kvs k = (case Option.bind (map_of kvs k) json_as_str of Some s \<Rightarrow> s | None \<Rightarrow> [])"

record choice_message =
  cm_role :: string
  cm_content :: "json option"
  cm_extra :: "(string \<times> json) list"

definition apply_extracted_reasoning :: "choice_message \<Rightarrow> string \<Rightarrow> choice_message" where
  "apply_extracted_reasoning m reasoning =
     (if str_field (cm_extra m) ''reasoning_content'' = []
      then m \<lparr> cm_extra := json_insert (cm_extra m) ''reasoning_content'' (JStr reasoning) \<rparr> else m)"

definition unblocked :: "string \<Rightarrow> string \<Rightarrow> string" where
  "unblocked content reasoning =
     (if trim content = ''DANGEROUS_ACTIVITY_BLOCKED'' \<and> reasoning \<noteq> [] then ''Task processed successfully.'' else content)"

definition process_choice_think :: "choice_message \<Rightarrow> choice_message" where
  "process_choice_think m =
     (if cm_role m \<noteq> ''assistant'' then m
      else
        (case cm_content m of
           Some (JStr raw) \<Rightarrow>
             (let content_str = unblocked raw (str_field (cm_extra m) ''reasoning_content'');
                  m1 = m \<lparr> cm_content := Some (JStr content_str) \<rparr>;
                  extracted = extract_think_from_content content_str;
                  m2 = m1 \<lparr> cm_content := Some (JStr (et_content extracted)) \<rparr>
              in if et_reasoning extracted = [] then m2 else apply_extracted_reasoning m2 (et_reasoning extracted))
         | _ \<Rightarrow> m))"

definition extract_think_from_response :: "choice_message list \<Rightarrow> choice_message list" where
  "extract_think_from_response choices = map process_choice_think choices"

definition process_message_value :: "(string \<times> json) list \<Rightarrow> (string \<times> json) list" where
  "process_message_value message =
     (if Option.bind (map_of message ''role'') json_as_str \<noteq> Some ''assistant'' then message
      else
        (case Option.bind (map_of message ''content'') json_as_str of
           None \<Rightarrow> message
         | Some raw \<Rightarrow>
             (let content = unblocked raw (str_field message ''reasoning_content'');
                  message1 = (if content = raw then message else json_insert message ''content'' (JStr content));
                  extracted = extract_think_from_content content;
                  message2 = (if et_content extracted = content then message1
                              else json_insert message1 ''content'' (JStr (et_content extracted)))
              in if et_reasoning extracted = [] \<or> str_field message2 ''reasoning_content'' \<noteq> [] then message2
                 else json_insert message2 ''reasoning_content'' (JStr (et_reasoning extracted)))))"

definition process_choice_value :: "json \<Rightarrow> json" where
  "process_choice_value choice =
     (case choice of
        JObj kvs \<Rightarrow>
          (case map_of kvs ''message'' of
             Some (JObj message) \<Rightarrow> JObj (json_insert kvs ''message'' (JObj (process_message_value message)))
           | _ \<Rightarrow> choice)
      | _ \<Rightarrow> choice)"

definition extract_think_from_response_value :: "json \<Rightarrow> json" where
  "extract_think_from_response_value val =
     (case val of
        JObj kvs \<Rightarrow>
          (case map_of kvs ''choices'' of
             Some (JArr choices) \<Rightarrow> JObj (json_insert kvs ''choices'' (JArr (map process_choice_value choices)))
           | _ \<Rightarrow> val)
      | _ \<Rightarrow> val)"

section \<open>A stream of deltas\<close>

record think_stream =
  tx_inside_think :: bool
  tx_tag_buffer :: string
  tx_close_tag :: "string option"

definition think_stream_new :: think_stream where
  "think_stream_new = \<lparr> tx_inside_think = False, tx_tag_buffer = [], tx_close_tag = None \<rparr>"

definition is_partial_open_tag_tail :: "string \<Rightarrow> bool" where
  "is_partial_open_tag_tail tail \<longleftrightarrow>
     list_ex (\<lambda>tag. starts_with tag tail \<or>
       (length tail \<le> length tag \<and> eq_ignore_ascii_case (take (length tail) tag) tail)) THINK_OPEN_TAGS"

definition find_safe_split_point :: "string \<Rightarrow> nat" where
  "find_safe_split_point input =
     (if CHR ''<'' \<notin> set input then length input
      else
        (let max_tag_len = foldr max (map length THINK_OPEN_TAGS) 0;
             check_len = min (max_tag_len - 1) (length input)
         in case find (\<lambda>split. is_char_boundary input split \<and> is_partial_open_tag_tail (drop split input))
                   (map (\<lambda>partial_len. length input - partial_len) (rev [1..<Suc check_len])) of
              Some split \<Rightarrow> split
            | None \<Rightarrow> length input))"

definition find_safe_split_point_close :: "string \<Rightarrow> string \<Rightarrow> nat" where
  "find_safe_split_point_close input close_tag =
     (if CHR ''<'' \<notin> set input then length input
      else
        (let check_len = min (length close_tag - 1) (length input)
         in case find (\<lambda>split. is_char_boundary input split \<and>
                     eq_ignore_ascii_case (take (length (drop split input)) close_tag) (drop split input))
                   (map (\<lambda>partial_len. length input - partial_len) (rev [1..<Suc check_len])) of
              Some split \<Rightarrow> split
            | None \<Rightarrow> length input))"

text \<open>\<open>str::get(i..)\<close>: nothing when the index is out of range or inside a character.\<close>

definition str_get_from :: "string \<Rightarrow> nat \<Rightarrow> string" where
  "str_get_from s i = (if i \<le> length s \<and> is_char_boundary s i then drop i s else [])"

definition close_tag_for :: "string \<Rightarrow> string option" where
  "close_tag_for tag_str =
     map_option snd (find (\<lambda>(ot, ct). eq_ignore_ascii_case tag_str ot) (zip THINK_OPEN_TAGS THINK_CLOSE_TAGS))"

function (sequential) process_outside_think :: "think_stream \<Rightarrow> string \<Rightarrow> think_stream \<times> string \<times> string"
and process_inside_think :: "think_stream \<Rightarrow> string \<Rightarrow> think_stream \<times> string \<times> string"
where
  "process_outside_think x input =
     (case find_earliest_tag input THINK_OPEN_TAGS of
        None \<Rightarrow>
          (let safe_len = find_safe_split_point input
           in (x \<lparr> tx_tag_buffer := safe_slice_from input safe_len \<rparr>,
               strip_orphaned_close_tags (safe_slice_to input safe_len), []))
      | Some (tag_pos, tag_str) \<Rightarrow>
          (let content_before = safe_slice_to input tag_pos;
               after_tag = safe_slice_from input tag_pos;
               x1 = x \<lparr> tx_close_tag := close_tag_for tag_str, tx_inside_think := True \<rparr>;
               after_tag_content = str_get_from after_tag (length tag_str)
           in if after_tag_content = [] then (x1, content_before, [])
              else
                (let (x2, more_content, reasoning) = process_inside_think x1 after_tag_content
                 in (x2, content_before @ more_content, reasoning))))"
| "process_inside_think x input =
     (case tx_close_tag x of
        None \<Rightarrow> (x \<lparr> tx_inside_think := False \<rparr>, input, [])
      | Some close_tag \<Rightarrow>
          (case find_ignore_ascii_case input close_tag of
             Some pos \<Rightarrow>
               (let reasoning = safe_slice_to input pos;
                    after_close = safe_slice_from input (pos + length close_tag);
                    x1 = x \<lparr> tx_inside_think := False, tx_close_tag := None \<rparr>
                in if after_close = [] then (x1, [], reasoning)
                   else
                     (let (x2, more_content, more_reasoning) = process_outside_think x1 after_close
                      in (x2, more_content, reasoning @ more_reasoning)))
           | None \<Rightarrow>
               (let safe_len = find_safe_split_point_close input close_tag
                in (x \<lparr> tx_tag_buffer := safe_slice_from input safe_len \<rparr>, [], safe_slice_to input safe_len))))"
  by pat_completeness auto
termination
proof (relation "measures [\<lambda>y. case y of Inl (_, s) \<Rightarrow> length s | Inr (_, s) \<Rightarrow> length s, \<lambda>y. case y of Inl _ \<Rightarrow> 0 | Inr _ \<Rightarrow> 1]",
    goal_cases)
  case (2 x input hit tag_pos tag_str content_before after_tag x1 after_tag_content)
  then have t: "tag_str \<noteq> []" "length tag_str \<le> length input"
    using find_earliest_tag_in find_ignore_ascii_case_length open_tags_nonempty by fastforce+
  have "length after_tag \<le> length input" using 2 safe_slice_from_length [of input tag_pos] by simp
  moreover have "length after_tag_content \<le> length after_tag - length tag_str"
    using 2 by (simp add: str_get_from_def)
  moreover have "0 < length tag_str" using t by simp
  ultimately have "length after_tag_content < length input" using t(2) by linarith
  then show ?case by simp
next
  case (3 x input close_tag pos reasoning after_close x1)
  then show ?case using safe_slice_from_length [of input "pos + length close_tag"] by (simp, linarith)
qed simp

declare process_outside_think.simps [simp del] process_inside_think.simps [simp del]

definition process_fast_path :: "think_stream \<Rightarrow> string \<Rightarrow> string \<times> string" where
  "process_fast_path x delta = (if tx_inside_think x then ([], delta) else (delta, []))"

definition process_delta :: "think_stream \<Rightarrow> string \<Rightarrow> think_stream \<times> string \<times> string" where
  "process_delta x delta =
     (if delta = [] then (x, [], [])
      else if tx_tag_buffer x = [] \<and> CHR ''<'' \<notin> set delta then (x, process_fast_path x delta)
      else
        (let input = tx_tag_buffer x @ delta; x1 = x \<lparr> tx_tag_buffer := [] \<rparr>
         in if tx_inside_think x then process_inside_think x1 input else process_outside_think x1 input))"

definition think_flush :: "think_stream \<Rightarrow> think_stream \<times> string \<times> string" where
  "think_flush x =
     (let x1 = x \<lparr> tx_tag_buffer := [] \<rparr>
      in if tx_tag_buffer x = [] then (x1, [], [])
         else if tx_inside_think x then (x1, [], tx_tag_buffer x)
         else (x1, tx_tag_buffer x, []))"

definition has_active_state_or_tag :: "think_stream \<Rightarrow> string \<Rightarrow> bool" where
  "has_active_state_or_tag x txt \<longleftrightarrow> tx_inside_think x \<or> tx_tag_buffer x \<noteq> [] \<or> CHR ''<'' \<in> set txt"

datatype stream_action = Mutate string | Passthrough

definition process_chunk :: "think_stream \<Rightarrow> string \<Rightarrow> think_stream \<times> stream_action" where
  "process_chunk x payload =
     (let (x1, clean_text, reasoning) = process_delta x payload
      in (x1, if clean_text \<noteq> payload \<or> reasoning \<noteq> [] then Mutate clean_text else Passthrough))"

definition finalize :: "think_stream \<Rightarrow> think_stream \<times> string option" where
  "finalize x = (let (x1, clean_text, _) = think_flush x in (x1, if clean_text = [] then None else Some clean_text))"

section \<open>A reference for the stream\<close>

text \<open>
  What the stream means, chunks and stray close tags aside: text up to an open tag is content, text up
  to the close tag of that name is reasoning, an open block ends with the text.
\<close>

definition both :: "string \<times> string \<Rightarrow> string \<times> string \<Rightarrow> string \<times> string" where
  "both a b = (fst a @ fst b, snd a @ snd b)"

lemma both_assoc [simp]: "both (both a b) c = both a (both b c)" "both ([], []) a = a" "both a ([], []) = a"
  by (simp_all add: both_def)

function split_outside :: "string \<Rightarrow> string \<times> string" and split_inside :: "string \<Rightarrow> string \<Rightarrow> string \<times> string" where
  "split_outside s =
     (case find_earliest_tag s THINK_OPEN_TAGS of
        None \<Rightarrow> (s, [])
      | Some (p, t) \<Rightarrow> both (take p s, []) (split_inside (the (close_tag_for t)) (drop (p + length t) s)))"
| "split_inside ct s =
     (case find_ignore_ascii_case s ct of
        None \<Rightarrow> ([], s)
      | Some p \<Rightarrow> both ([], take p s) (split_outside (drop (p + length ct) s)))"
  by pat_completeness auto
termination
proof (relation "measures [\<lambda>y. case y of Inl s \<Rightarrow> length s | Inr (_, s) \<Rightarrow> length s, \<lambda>y. case y of Inl _ \<Rightarrow> 0 | Inr _ \<Rightarrow> 1]",
    goal_cases)
  case (2 s hit p t)
  then have "0 < length t" "p + length t \<le> length s"
    using find_earliest_tag_in find_ignore_ascii_case_length open_tags_nonempty by fastforce+
  then have "length s - (p + length t) < length s" by linarith
  with 2 show ?case by simp
qed auto

declare split_outside.simps [simp del] split_inside.simps [simp del]

section \<open>Tags do not overlap\<close>

lemma occurs_at_append: "occurs_at t a p \<Longrightarrow> occurs_at t (a @ b) p"
  by (auto simp: occurs_at_def)

lemma occurs_at_shift: "occurs_at t (a @ b) (length a + p) \<longleftrightarrow> occurs_at t b p"
  by (auto simp: occurs_at_def)

lemma occurs_at_within: "occurs_at t (a @ b) p \<Longrightarrow> p + length t \<le> length a \<Longrightarrow> occurs_at t a p"
  by (auto simp: occurs_at_def)

lemma lower_lt: "ascii_lower c = CHR ''<'' \<longleftrightarrow> c = CHR ''<''"
  by (auto simp: ascii_lower_def Let_def split: if_splits dest!: arg_cong [where f = "of_char :: char \<Rightarrow> nat"])

lemma occurs_at_nth:
  "occurs_at t s p \<Longrightarrow> j < length t \<Longrightarrow> ascii_lower (s ! (p + j)) = ascii_lower (t ! j)"
proof -
  assume o: "occurs_at t s p" and j: "j < length t"
  then have "map ascii_lower (take (length t) (drop p s)) ! j = map ascii_lower t ! j"
    by (simp add: occurs_at_def eq_ignore_ascii_case_def to_ascii_lowercase_def)
  moreover have "j < length (take (length t) (drop p s))" using o j by (auto simp: occurs_at_def)
  ultimately show ?thesis using j by simp
qed

text \<open>A tag starts with \<open><\<close>, has none after it and ends with \<open>>\<close>.\<close>

definition taglike :: "string \<Rightarrow> bool" where
  "taglike t \<longleftrightarrow> t \<noteq> [] \<and> hd t = CHR ''<'' \<and> CHR ''<'' \<notin> set (tl t) \<and> last t = CHR ''>'' \<and>
     CHR ''>'' \<notin> set (butlast t) \<and> 2 \<le> length t \<and> length t \<le> 12"

lemma tags_taglike: "t \<in> set THINK_OPEN_TAGS \<Longrightarrow> taglike t" "t \<in> set THINK_CLOSE_TAGS \<Longrightarrow> taglike t"
  by (auto simp: THINK_OPEN_TAGS_def THINK_CLOSE_TAGS_def taglike_def)

lemma taglike_occurs:
  assumes "taglike t" and "occurs_at t s p"
  shows "s ! p = CHR ''<''" and "0 < j \<Longrightarrow> j < length t \<Longrightarrow> s ! (p + j) \<noteq> CHR ''<''"
proof -
  have "t ! 0 = CHR ''<''" "0 < length t" using assms(1) by (auto simp: taglike_def hd_conv_nth)
  moreover have "ascii_lower CHR ''<'' = CHR ''<''" by (simp add: lower_lt)
  ultimately show "s ! p = CHR ''<''" using occurs_at_nth [OF assms(2), of 0] lower_lt by (metis add.right_neutral)
next
  assume j: "0 < j" "j < length t"
  then have "t ! j \<in> set (tl t)" by (metis Suc_pred in_set_conv_nth length_tl less_diff_conv nth_tl One_nat_def Suc_eq_plus1)
  then have "t ! j \<noteq> CHR ''<''" using assms(1) by (auto simp: taglike_def)
  then show "s ! (p + j) \<noteq> CHR ''<''" using occurs_at_nth [OF assms(2) j(2)] lower_lt by metis
qed

lemma taglike_apart:
  assumes "taglike t" "taglike t'" "occurs_at t s p" "occurs_at t' s q" "q < p"
  shows "q + length t' \<le> p"
proof (rule ccontr)
  assume "\<not> ?thesis"
  then have "s ! (q + (p - q)) \<noteq> CHR ''<''" using taglike_occurs(2) [OF assms(2,4), of "p - q"] assms(5) by simp
  with taglike_occurs(1) [OF assms(1,3)] assms(5) show False by simp
qed

lemma lower_gt: "ascii_lower c = CHR ''>'' \<longleftrightarrow> c = CHR ''>''"
  by (auto simp: ascii_lower_def Let_def split: if_splits dest!: arg_cong [where f = "of_char :: char \<Rightarrow> nat"])

lemma taglike_last:
  assumes "taglike t" and "occurs_at t s p"
  shows "s ! (p + length t - 1) = CHR ''>''" and "j < length t - 1 \<Longrightarrow> s ! (p + j) \<noteq> CHR ''>''"
proof -
  have t: "t ! (length t - 1) = CHR ''>''" "length t - 1 < length t" using assms(1) by (auto simp: taglike_def last_conv_nth)
  have "ascii_lower CHR ''>'' = CHR ''>''" by (simp add: lower_gt)
  then have "s ! (p + (length t - 1)) = CHR ''>''" using occurs_at_nth [OF assms(2) t(2)] t(1) lower_gt by metis
  then show "s ! (p + length t - 1) = CHR ''>''" using t(2) by simp
next
  assume j: "j < length t - 1"
  then have "t ! j \<in> set (butlast t)" by (metis in_set_conv_nth length_butlast nth_butlast)
  then have "t ! j \<noteq> CHR ''>''" using assms(1) by (auto simp: taglike_def)
  moreover have "j < length t" using j by linarith
  ultimately show "s ! (p + j) \<noteq> CHR ''>''" using occurs_at_nth [OF assms(2)] lower_gt by metis
qed

lemma taglike_same_length:
  assumes "taglike t" "taglike t'" "occurs_at t s p" "occurs_at t' s p"
  shows "length t \<le> length t'"
proof (rule ccontr)
  assume "\<not> ?thesis"
  moreover have "2 \<le> length t'" using assms(2) by (simp add: taglike_def)
  ultimately have "s ! (p + (length t' - 1)) \<noteq> CHR ''>''" by (intro taglike_last(2) [OF assms(1,3)]) simp
  with taglike_last(1) [OF assms(2,4)] \<open>2 \<le> length t'\<close> show False by simp
qed

lemma open_tag_unique:
  assumes "t \<in> set THINK_OPEN_TAGS" "t' \<in> set THINK_OPEN_TAGS" "occurs_at t s p" "occurs_at t' s p"
  shows "t = t'"
proof -
  have "length t = length t'"
    using taglike_same_length tags_taglike(1) assms by (metis order_antisym)
  then show ?thesis using assms(1,2) by (auto simp: THINK_OPEN_TAGS_def)
qed

section \<open>The earliest tag\<close>

lemma earliest_None: "earliest xs = None \<longleftrightarrow> xs = []"
  by (cases xs) (auto split: option.split)

lemma earliest_min: "earliest xs = Some x \<Longrightarrow> y \<in> set xs \<Longrightarrow> fst x \<le> fst y"
  by (induction xs arbitrary: x) (fastforce simp: earliest_None split: option.splits if_splits)+

lemma map_filter_Nil: "List.map_filter f xs = [] \<longleftrightarrow> (\<forall>x \<in> set xs. f x = None)"
  by (induction xs) (auto simp: map_filter_simps split: option.split)

lemma tag_hit: "t \<noteq> [] \<Longrightarrow> occurs_at t s q \<Longrightarrow> \<exists>p \<le> q. find_ignore_ascii_case s t = Some p"
  using find_tag_None find_tag_Some by (metis not_le option.exhaust)

lemma earliest_tag_None:
  "find_earliest_tag s THINK_OPEN_TAGS = None \<longleftrightarrow> (\<forall>t \<in> set THINK_OPEN_TAGS. \<forall>q. \<not> occurs_at t s q)"
proof -
  have "find_earliest_tag s THINK_OPEN_TAGS = None \<longleftrightarrow> (\<forall>t \<in> set THINK_OPEN_TAGS. find_ignore_ascii_case s t = None)"
    unfolding find_earliest_tag_def earliest_None by (simp add: map_filter_Nil)
  then show ?thesis using find_tag_None open_tags_nonempty by blast
qed

lemma earliest_tag_Some:
  "find_earliest_tag s THINK_OPEN_TAGS = Some (p, t) \<longleftrightarrow>
     t \<in> set THINK_OPEN_TAGS \<and> occurs_at t s p \<and> (\<forall>t' \<in> set THINK_OPEN_TAGS. \<forall>q < p. \<not> occurs_at t' s q)"
proof -
  have fwd: "t \<in> set THINK_OPEN_TAGS \<and> occurs_at t s p \<and> (\<forall>t' \<in> set THINK_OPEN_TAGS. \<forall>q < p. \<not> occurs_at t' s q)"
    if "find_earliest_tag s THINK_OPEN_TAGS = Some (p, t)" for p t
  proof (intro conjI ballI allI impI notI)
    show "t \<in> set THINK_OPEN_TAGS" "occurs_at t s p" using find_earliest_tag_in [OF that] find_tag_Some by auto
    fix t' q assume t': "t' \<in> set THINK_OPEN_TAGS" "q < p" "occurs_at t' s q"
    then obtain p' where p': "p' \<le> q" "find_ignore_ascii_case s t' = Some p'" using tag_hit open_tags_nonempty by blast
    then have "p \<le> p'" using earliest_min [OF that [unfolded find_earliest_tag_def], of "(p', t')"] t'(1) in_tag_hits by simp
    with p' t' show False by linarith
  qed
  show ?thesis
  proof
    assume r: "t \<in> set THINK_OPEN_TAGS \<and> occurs_at t s p \<and> (\<forall>t' \<in> set THINK_OPEN_TAGS. \<forall>q < p. \<not> occurs_at t' s q)"
    then obtain p' t' where f: "find_earliest_tag s THINK_OPEN_TAGS = Some (p', t')"
      using earliest_tag_None by (metis not_None_eq prod.exhaust)
    with fwd [OF f] r have "p = p'" by (metis linorder_neqE_nat)
    with fwd [OF f] r open_tag_unique f show "find_earliest_tag s THINK_OPEN_TAGS = Some (p, t)" by metis
  qed (rule fwd)
qed

lemma earliest_tag_append:
  assumes "find_earliest_tag s THINK_OPEN_TAGS = Some (p, t)"
  shows "find_earliest_tag (s @ rest) THINK_OPEN_TAGS = Some (p, t)"
proof -
  from assms have t: "t \<in> set THINK_OPEN_TAGS" "occurs_at t s p" "\<forall>t' \<in> set THINK_OPEN_TAGS. \<forall>q < p. \<not> occurs_at t' s q"
    by (auto simp: earliest_tag_Some)
  have "\<not> occurs_at t' (s @ rest) q" if t': "t' \<in> set THINK_OPEN_TAGS" and q: "q < p" for t' q
  proof
    assume o: "occurs_at t' (s @ rest) q"
    have "q + length t' \<le> p"
      using taglike_apart [OF tags_taglike(1) [OF t(1)] tags_taglike(1) [OF t'] occurs_at_append [OF t(2)] o q] .
    also have "p \<le> length s" using t(2) by (simp add: occurs_at_def)
    finally show False using occurs_at_within [OF o] t(3) t' q by blast
  qed
  then show ?thesis using t occurs_at_append [OF t(2)] by (simp add: earliest_tag_Some)
qed

lemma close_tag_append:
  assumes "taglike ct" and "find_ignore_ascii_case s ct = Some p"
  shows "find_ignore_ascii_case (s @ rest) ct = Some p"
proof -
  from assms(2) have p: "occurs_at ct s p" "\<forall>q < p. \<not> occurs_at ct s q" by (auto simp: find_tag_Some)
  have "\<not> occurs_at ct (s @ rest) q" if q: "q < p" for q
  proof
    assume o: "occurs_at ct (s @ rest) q"
    have "q + length ct \<le> p" using taglike_apart [OF assms(1,1) occurs_at_append [OF p(1)] o q] .
    also have "p \<le> length s" using p(1) by (simp add: occurs_at_def)
    finally show False using occurs_at_within [OF o] p(2) q by blast
  qed
  then show ?thesis using occurs_at_append [OF p(1)] by (simp add: find_tag_Some)
qed

lemma occurs_at_behind: "occurs_at t (a @ b) q \<Longrightarrow> length a \<le> q \<Longrightarrow> occurs_at t b (q - length a)"
  using occurs_at_shift [of t a b "q - length a"] by simp

lemma split_outside_skip:
  assumes "\<forall>t \<in> set THINK_OPEN_TAGS. \<forall>q < length a. \<not> occurs_at t (a @ b) q"
  shows "split_outside (a @ b) = both (a, []) (split_outside b)"
proof (cases "find_earliest_tag b THINK_OPEN_TAGS")
  case None
  then have "find_earliest_tag (a @ b) THINK_OPEN_TAGS = None"
    using assms occurs_at_behind unfolding earliest_tag_None by (metis not_le)
  with None show ?thesis by (simp add: split_outside.simps both_def)
next
  case (Some hit)
  then obtain p t where hit: "find_earliest_tag b THINK_OPEN_TAGS = Some (p, t)" by (cases hit) auto
  then have h: "t \<in> set THINK_OPEN_TAGS" "occurs_at t b p" "\<forall>t' \<in> set THINK_OPEN_TAGS. \<forall>q < p. \<not> occurs_at t' b q"
    by (auto simp: earliest_tag_Some)
  have "\<not> occurs_at t' (a @ b) q" if "t' \<in> set THINK_OPEN_TAGS" "q < length a + p" for t' q
    using assms h(3) that occurs_at_behind [of t' a b q] by (cases "q < length a") auto
  then have "find_earliest_tag (a @ b) THINK_OPEN_TAGS = Some (length a + p, t)"
    using h(1,2) by (simp add: earliest_tag_Some occurs_at_shift)
  with hit show ?thesis by (simp add: split_outside.simps [of "a @ b"] split_outside.simps [of b] both_def)
qed

lemma split_inside_skip:
  assumes "ct \<noteq> []" and "\<forall>q < length a. \<not> occurs_at ct (a @ b) q"
  shows "split_inside ct (a @ b) = both ([], a) (split_inside ct b)"
proof (cases "find_ignore_ascii_case b ct")
  case None
  then have "find_ignore_ascii_case (a @ b) ct = None"
    using assms occurs_at_behind unfolding find_tag_None [OF assms(1)] by (metis not_le)
  with None show ?thesis by (simp add: split_inside.simps both_def)
next
  case (Some p)
  then have h: "occurs_at ct b p" "\<forall>q < p. \<not> occurs_at ct b q" by (auto simp: find_tag_Some)
  have "\<not> occurs_at ct (a @ b) q" if "q < length a + p" for q
    using assms(2) h(2) that occurs_at_behind [of ct a b q] by (cases "q < length a") auto
  then have "find_ignore_ascii_case (a @ b) ct = Some (length a + p)"
    using h(1) by (simp add: find_tag_Some occurs_at_shift)
  with Some show ?thesis by (simp add: split_inside.simps [of ct "a @ b"] split_inside.simps [of ct b] both_def)
qed

section \<open>Where the buffer starts\<close>

lemma positions_upt: "c \<le> n \<Longrightarrow> map (\<lambda>k. n - k) (rev [1..<Suc c]) = [n - c..<n]"
  by (rule nth_equalityI) (auto simp: rev_nth simp del: upt_Suc)

lemma find_upt_from:
  "find P [m..<n] = Some p \<longleftrightarrow> m \<le> p \<and> p < n \<and> P p \<and> (\<forall>q. m \<le> q \<and> q < p \<longrightarrow> \<not> P q)"
  "find P [m..<n] = None \<longleftrightarrow> (\<forall>q. m \<le> q \<and> q < n \<longrightarrow> \<not> P q)"
proof -
  have "find P [m..<n] = Some p \<Longrightarrow> m \<le> p \<and> p < n \<and> P p \<and> (\<forall>q. m \<le> q \<and> q < p \<longrightarrow> \<not> P q)" for p
    by (auto simp: find_Some_iff) (metis add_diff_inverse_nat le_add_diff_inverse less_diff_conv2 nat_add_left_cancel_less not_less)
  moreover show "find P [m..<n] = None \<longleftrightarrow> (\<forall>q. m \<le> q \<and> q < n \<longrightarrow> \<not> P q)" by (auto simp: find_None_iff)
  ultimately show "find P [m..<n] = Some p \<longleftrightarrow> m \<le> p \<and> p < n \<and> P p \<and> (\<forall>q. m \<le> q \<and> q < p \<longrightarrow> \<not> P q)"
    by (metis linorder_neqE_nat option.exhaust)
qed

lemma occurs_lt: "taglike t \<Longrightarrow> occurs_at t (a @ b) q \<Longrightarrow> q < length a \<Longrightarrow> CHR ''<'' \<in> set a \<and> is_char_boundary a q"
  using taglike_occurs(1) [of t "a @ b" q] nth_mem [of q a]
  by (auto simp: nth_append is_char_boundary_def is_continuation_byte_def)

text \<open>A tag that starts in \<open>a\<close> and ends behind it leaves a proper prefix of itself at the end of \<open>a\<close>.\<close>

lemma occurs_cut:
  assumes "occurs_at t (a @ b) q" and "q < length a" and "\<not> occurs_at t a q"
  shows "length a - q < length t" and "eq_ignore_ascii_case (take (length (drop q a)) t) (drop q a)"
proof -
  show l: "length a - q < length t"
    using assms occurs_at_within by (metis leI le_diff_conv2 less_imp_le_nat add.commute)
  have "map ascii_lower (take (length t) (drop q (a @ b))) = map ascii_lower t"
    using assms(1) by (simp add: occurs_at_def eq_ignore_ascii_case_def to_ascii_lowercase_def)
  then have "map ascii_lower (take (length a - q) (take (length t) (drop q (a @ b)))) = map ascii_lower (take (length a - q) t)"
    unfolding take_map [symmetric] by simp
  moreover have "take (length a - q) (take (length t) (drop q (a @ b))) = drop q a" using l assms(2) by simp
  ultimately have "map ascii_lower (drop q a) = map ascii_lower (take (length a - q) t)" by (simp only:)
  then show "eq_ignore_ascii_case (take (length (drop q a)) t) (drop q a)"
    by (simp add: eq_ignore_ascii_case_def to_ascii_lowercase_def)
qed

lemma open_split:
  fixes input :: string
  defines "k \<equiv> find_safe_split_point input"
  shows "k \<le> length input" and "is_char_boundary input k" and "length input - k \<le> 10"
    and "find_earliest_tag input THINK_OPEN_TAGS = None \<Longrightarrow> t \<in> set THINK_OPEN_TAGS \<Longrightarrow> q < k \<Longrightarrow> \<not> occurs_at t (input @ rest) q"
proof -
  let ?n = "length input" and ?c = "min 10 (length input)"
  let ?P = "\<lambda>split. is_char_boundary input split \<and> is_partial_open_tag_tail (drop split input)"
  have longest: "foldr max (map length THINK_OPEN_TAGS) 0 - 1 = 10" by (simp add: THINK_OPEN_TAGS_def)
  have pos: "map (\<lambda>k. ?n - k) (rev [1..<Suc ?c]) = [?n - ?c..<?n]" by (rule positions_upt) simp
  have k: "k = (if CHR ''<'' \<notin> set input then ?n else (case find ?P [?n - ?c..<?n] of Some split \<Rightarrow> split | None \<Rightarrow> ?n))"
    unfolding k_def find_safe_split_point_def Let_def longest pos ..
  have "k = ?n \<or> (?P k \<and> ?n - ?c \<le> k \<and> k < ?n)"
    unfolding k by (auto simp: find_upt_from split: option.split)
  then show "k \<le> ?n" "is_char_boundary input k" "?n - k \<le> 10" by (auto simp: is_char_boundary_def)
  assume none: "find_earliest_tag input THINK_OPEN_TAGS = None" and t: "t \<in> set THINK_OPEN_TAGS" and q: "q < k"
  show "\<not> occurs_at t (input @ rest) q"
  proof
    assume o: "occurs_at t (input @ rest) q"
    have qn: "q < ?n" using q \<open>k \<le> ?n\<close> by simp
    have lt: "CHR ''<'' \<in> set input" "is_char_boundary input q" using occurs_lt [OF tags_taglike(1) [OF t] o qn] by auto
    have "\<not> occurs_at t input q" using none t by (simp add: earliest_tag_None)
    from occurs_cut [OF o qn this] have cut: "?n - q < length t" "eq_ignore_ascii_case (take (length (drop q input)) t) (drop q input)" .
    then have "?P q" using lt t less_imp_le [OF cut(1)] unfolding is_partial_open_tag_tail_def list_ex_iff length_drop by blast
    moreover have "length t \<le> 11" using t by (auto simp: THINK_OPEN_TAGS_def)
    then have "?n - ?c \<le> q" using cut(1) by linarith
    ultimately have "k \<le> q" unfolding k using lt(1) qn by (auto simp: find_upt_from split: option.split)
    with q show False by simp
  qed
qed

lemma close_split:
  fixes input :: string
  assumes "taglike ct"
  defines "k \<equiv> find_safe_split_point_close input ct"
  shows "k \<le> length input" and "is_char_boundary input k" and "length input - k < length ct"
    and "find_ignore_ascii_case input ct = None \<Longrightarrow> q < k \<Longrightarrow> \<not> occurs_at ct (input @ rest) q"
proof -
  let ?n = "length input" and ?c = "min (length ct - 1) (length input)"
  let ?P = "\<lambda>split. is_char_boundary input split \<and> eq_ignore_ascii_case (take (length (drop split input)) ct) (drop split input)"
  have ct: "0 < length ct" "ct \<noteq> []" using assms(1) by (auto simp: taglike_def)
  have pos: "map (\<lambda>k. ?n - k) (rev [1..<Suc ?c]) = [?n - ?c..<?n]" by (rule positions_upt) simp
  have k: "k = (if CHR ''<'' \<notin> set input then ?n else (case find ?P [?n - ?c..<?n] of Some split \<Rightarrow> split | None \<Rightarrow> ?n))"
    unfolding k_def find_safe_split_point_close_def Let_def pos ..
  have "k = ?n \<or> (?P k \<and> ?n - ?c \<le> k \<and> k < ?n)"
    unfolding k by (auto simp: find_upt_from split: option.split)
  moreover have "?c < length ct" using ct by linarith
  ultimately have b: "k \<le> ?n \<and> is_char_boundary input k \<and> ?n - k < length ct" using ct by (auto simp: is_char_boundary_def simp del: length_greater_0_conv)
  then show "k \<le> ?n" "is_char_boundary input k" "?n - k < length ct" by auto
  assume none: "find_ignore_ascii_case input ct = None" and q: "q < k"
  show "\<not> occurs_at ct (input @ rest) q"
  proof
    assume o: "occurs_at ct (input @ rest) q"
    have qn: "q < ?n" using q \<open>k \<le> ?n\<close> by simp
    have lt: "CHR ''<'' \<in> set input" "is_char_boundary input q" using occurs_lt [OF assms(1) o qn] by auto
    have "\<not> occurs_at ct input q" using none ct by (simp add: find_tag_None)
    from occurs_cut [OF o qn this] have cut: "?n - q < length ct" "eq_ignore_ascii_case (take (length (drop q input)) ct) (drop q input)" .
    then have "?P q" using lt by simp
    moreover have "?n - ?c \<le> q" using cut(1) by linarith
    ultimately have "k \<le> q" unfolding k using lt(1) qn by (auto simp: find_upt_from split: option.split)
    with q show False by simp
  qed
qed

section \<open>Slices at tags\<close>

lemma slices:
  "is_char_boundary s i \<Longrightarrow> i \<le> length s \<Longrightarrow> safe_slice_to s i = take i s"
  "is_char_boundary s i \<Longrightarrow> i \<le> length s \<Longrightarrow> safe_slice_from s i = drop i s"
  by (simp_all add: safe_slice_to_def safe_slice_from_def)

lemma clean_drop: "clean s \<Longrightarrow> is_char_boundary s k \<Longrightarrow> clean (drop k s)"
proof -
  assume "clean s" "is_char_boundary s k"
  moreover have "clean (drop k s)" if "k < length s" "\<not> is_continuation_byte (s ! k)"
    using clean_suffix_hd [of "take k s" "s ! k" "drop (Suc k) s"] that \<open>clean s\<close> by (simp add: Cons_nth_drop_Suc)
  ultimately show ?thesis by (auto simp: is_char_boundary_def clean_def)
qed

lemma tag_slices:
  assumes "taglike t" and "occurs_at t s p" and "clean s"
  shows "safe_slice_to s p = take p s" and "safe_slice_from s p = drop p s"
    and "clean (drop (p + length t) s)" and "safe_slice_from s (p + length t) = drop (p + length t) s"
    and "str_get_from (drop p s) (length t) = drop (p + length t) s"
proof -
  have len: "p + length t \<le> length s" "0 < length t" using assms(1,2) by (auto simp: occurs_at_def taglike_def)
  have "is_char_boundary s p"
    using taglike_occurs(1) [OF assms(1,2)] len by (auto simp: is_char_boundary_def is_continuation_byte_def)
  then show "safe_slice_to s p = take p s" "safe_slice_from s p = drop p s" using len by (auto intro: slices)
  let ?a = "take (p + length t) s"
  have "?a \<noteq> []" using len by auto
  moreover have "last ?a = CHR ''>''"
    unfolding last_conv_nth [OF \<open>?a \<noteq> []\<close>] using taglike_last(1) [OF assms(1,2)] len by (simp del: length_greater_0_conv)
  ultimately show c: "clean (drop (p + length t) s)" using clean_suffix [of ?a "drop (p + length t) s"] assms(3) by simp
  have "length ?a = p + length t" using len by simp
  with clean_boundary [OF c, of ?a] have b: "is_char_boundary s (p + length t)" by simp
  then show "safe_slice_from s (p + length t) = drop (p + length t) s" using len by (intro slices)
  have "is_char_boundary (drop p s) (length t)"
    using b len by (auto simp: is_char_boundary_def)
  then show "str_get_from (drop p s) (length t) = drop (p + length t) s" using len by (simp add: str_get_from_def add.commute)
qed

lemma close_tag_for_open: "t \<in> set THINK_OPEN_TAGS \<Longrightarrow> \<exists>ct \<in> set THINK_CLOSE_TAGS. close_tag_for t = Some ct"
  by (auto simp: THINK_OPEN_TAGS_def) (code_simp)+

section \<open>One delta\<close>

definition no_close :: "string \<Rightarrow> bool" where
  "no_close s \<longleftrightarrow> (\<forall>t \<in> set THINK_CLOSE_TAGS. \<forall>q. \<not> occurs_at t s q)"

lemma no_close_append: "no_close (a @ b) \<Longrightarrow> no_close a \<and> no_close b"
  unfolding no_close_def using occurs_at_append occurs_at_shift by blast

lemma strip_no_close: "no_close s \<Longrightarrow> strip_orphaned_close_tags s = s"
proof -
  assume "no_close s"
  then have "strip_close_tag ot ct s = s" if "ct \<in> set THINK_CLOSE_TAGS" for ot ct
    using that by (subst strip_close_tag.simps) (auto simp: no_close_def find_tag_Some split: option.split)
  then show ?thesis by (simp add: strip_orphaned_close_tags_def THINK_OPEN_TAGS_def THINK_CLOSE_TAGS_def)
qed

text \<open>What a state still owes, when \<open>rest\<close> is all the text to come.\<close>

definition owed :: "think_stream \<Rightarrow> string \<Rightarrow> string \<times> string" where
  "owed x rest =
     (if tx_inside_think x then split_inside (the (tx_close_tag x)) (tx_tag_buffer x @ rest)
      else split_outside (tx_tag_buffer x @ rest))"

definition tx_ok :: "think_stream \<Rightarrow> bool" where
  "tx_ok x \<longleftrightarrow> clean (tx_tag_buffer x) \<and>
     (if tx_inside_think x
      then \<exists>ct \<in> set THINK_CLOSE_TAGS. tx_close_tag x = Some ct \<and> (\<forall>q. \<not> occurs_at ct (tx_tag_buffer x) q)
      else \<forall>t \<in> set THINK_OPEN_TAGS. \<forall>q. \<not> occurs_at t (tx_tag_buffer x) q)"

lemma not_occurs_drop: "\<forall>q. \<not> occurs_at t s q \<Longrightarrow> \<not> occurs_at t (drop k s) q"
  using occurs_at_shift [of t "take k s" "drop k s" q] by (metis append_take_drop_id)

lemma not_occurs_Nil: "taglike t \<Longrightarrow> \<not> occurs_at t [] q"
  by (auto simp: occurs_at_def taglike_def)

lemma take_drop_rest: "take k s @ drop k s @ rest = s @ rest"
  by (metis append.assoc append_take_drop_id)

lemma process_owed:
  "clean input \<Longrightarrow> tx_tag_buffer x = [] \<Longrightarrow> \<not> tx_inside_think x \<Longrightarrow> no_close (fst (split_outside (input @ rest))) \<Longrightarrow>
     process_outside_think x input = (x', c, r) \<Longrightarrow> split_outside (input @ rest) = both (c, r) (owed x' rest) \<and> tx_ok x'"
  "clean input \<Longrightarrow> tx_tag_buffer x = [] \<Longrightarrow> tx_inside_think x \<Longrightarrow> tx_close_tag x = Some ct \<Longrightarrow> ct \<in> set THINK_CLOSE_TAGS \<Longrightarrow>
     no_close (fst (split_inside ct (input @ rest))) \<Longrightarrow>
     process_inside_think x input = (x', c, r) \<Longrightarrow> split_inside ct (input @ rest) = both (c, r) (owed x' rest) \<and> tx_ok x'"
proof (induction x input and x input arbitrary: x' c r and x' c r ct rule: process_outside_think_process_inside_think.induct)
  case (1 x input)
  show ?case
  proof (cases "find_earliest_tag input THINK_OPEN_TAGS")
    case None
    let ?k = "find_safe_split_point input"
    note k = open_split(1,2) [of input]
    have "\<forall>t \<in> set THINK_OPEN_TAGS. \<forall>q < length (take ?k input). \<not> occurs_at t (take ?k input @ (drop ?k input @ rest)) q"
      unfolding take_drop_rest using open_split(4) [OF None] by (simp del: append_assoc)
    from split_outside_skip [OF this, unfolded take_drop_rest]
    have skip: "split_outside (input @ rest) = both (take ?k input, []) (split_outside (drop ?k input @ rest))" .
    then have "no_close (take ?k input @ fst (split_outside (drop ?k input @ rest)))" using "1.prems"(4) by (simp add: both_def)
    then have "no_close (take ?k input)" using no_close_append by blast
    then have res: "x' = x \<lparr> tx_tag_buffer := drop ?k input \<rparr>" "c = take ?k input" "r = []"
      using "1.prems"(5) None k strip_no_close
      by (auto simp: process_outside_think.simps [of x input] slices Let_def)
    have "tx_ok x'"
      using None "1.prems"(1,3) clean_drop [OF _ k(2)] not_occurs_drop res(1) by (auto simp: tx_ok_def earliest_tag_None)
    with skip res "1.prems"(3) show ?thesis by (simp add: owed_def)
  next
    case (Some hit)
    then obtain p t where hit: "find_earliest_tag input THINK_OPEN_TAGS = Some (p, t)" by (cases hit) auto
    then have t: "t \<in> set THINK_OPEN_TAGS" "occurs_at t input p" by (auto simp: earliest_tag_Some)
    obtain ct where ct: "ct \<in> set THINK_CLOSE_TAGS" "close_tag_for t = Some ct" using close_tag_for_open [OF t(1)] by blast
    note sl = tag_slices [OF tags_taglike(1) [OF t(1)] t(2) "1.prems"(1)]
    let ?in = "drop (p + length t) input" and ?x1 = "x \<lparr> tx_close_tag := Some ct, tx_inside_think := True \<rparr>"
    have len: "p + length t \<le> length input" using t(2) by (simp add: occurs_at_def)
    have ref: "split_outside (input @ rest) = both (take p input, []) (split_inside ct (?in @ rest))"
      using earliest_tag_append [OF hit, of rest] ct(2) len by (simp add: split_outside.simps [of "input @ rest"])
    have run: "process_outside_think x input = (if ?in = [] then (?x1, take p input, []) else
        (let (x2, more, reasoning) = process_inside_think ?x1 ?in in (x2, take p input @ more, reasoning)))"
      using hit ct(2) sl by (simp add: process_outside_think.simps [of x input] Let_def)
    show ?thesis
    proof (cases "?in = []")
      case True
      with run ref "1.prems"(2,5) ct not_occurs_Nil [OF tags_taglike(2) [OF ct(1)]] show ?thesis
        by (auto simp: owed_def tx_ok_def clean_def)
    next
      case False
      obtain x2 more reas where rec: "process_inside_think ?x1 ?in = (x2, more, reas)" by (metis prod.collapse)
      have "no_close (take p input @ fst (split_inside ct (?in @ rest)))" using "1.prems"(4) ref by (simp add: both_def)
      then have "no_close (fst (split_inside ct (?in @ rest)))" using no_close_append by blast
      then have "split_inside ct (?in @ rest) = both (more, reas) (owed x2 rest) \<and> tx_ok x2"
        using "1.IH" [OF hit refl refl refl refl] False sl ct rec "1.prems"(2) by simp
      with run ref False rec "1.prems"(5) show ?thesis by (simp add: both_def)
    qed
  qed
next
  case (2 x input)
  let ?x1 = "x \<lparr> tx_inside_think := False, tx_close_tag := None \<rparr>"
  have tl: "taglike ct" using tags_taglike(2) "2.prems"(5) .
  then have ne: "ct \<noteq> []" by (simp add: taglike_def)
  show ?case
  proof (cases "find_ignore_ascii_case input ct")
    case None
    let ?k = "find_safe_split_point_close input ct"
    note k = close_split(1,2) [OF tl, of input]
    have "\<forall>q < length (take ?k input). \<not> occurs_at ct (take ?k input @ (drop ?k input @ rest)) q"
      unfolding take_drop_rest using close_split(4) [OF tl None] by simp
    from split_inside_skip [OF ne this, unfolded take_drop_rest]
    have skip: "split_inside ct (input @ rest) = both ([], take ?k input) (split_inside ct (drop ?k input @ rest))" .
    have res: "x' = x \<lparr> tx_tag_buffer := drop ?k input \<rparr>" "c = []" "r = take ?k input"
      using "2.prems"(4,7) None k by (auto simp: process_inside_think.simps [of x input] slices Let_def)
    moreover have "tx_ok x'"
      using None "2.prems"(1,3,4,5) clean_drop [OF _ k(2)] not_occurs_drop res(1) ne by (auto simp: tx_ok_def find_tag_None)
    ultimately show ?thesis using skip "2.prems"(3,4) by (simp add: owed_def)
  next
    case (Some p)
    then have o: "occurs_at ct input p" by (simp add: find_tag_Some)
    note sl = tag_slices [OF tl o "2.prems"(1)]
    let ?out = "drop (p + length ct) input"
    have len: "p + length ct \<le> length input" using o by (simp add: occurs_at_def)
    have ref: "split_inside ct (input @ rest) = both ([], take p input) (split_outside (?out @ rest))"
      using close_tag_append [OF tl Some, of rest] len by (simp add: split_inside.simps [of ct "input @ rest"])
    have run: "process_inside_think x input = (if ?out = [] then (?x1, [], take p input) else
        (let (x2, more, reasoning) = process_outside_think ?x1 ?out in (x2, more, take p input @ reasoning)))"
      using Some "2.prems"(4) sl by (simp add: process_inside_think.simps [of x input] Let_def)
    show ?thesis
    proof (cases "?out = []")
      case True
      with run ref "2.prems"(2,7) not_occurs_Nil tags_taglike(1) show ?thesis
        by (auto simp: owed_def tx_ok_def clean_def)
    next
      case False
      obtain x2 more reas where rec: "process_outside_think ?x1 ?out = (x2, more, reas)" by (metis prod.collapse)
      have "no_close (fst (split_outside (?out @ rest)))" using "2.prems"(6) ref by (simp add: both_def)
      then have "split_outside (?out @ rest) = both (more, reas) (owed x2 rest) \<and> tx_ok x2"
        using "2.IH" [OF "2.prems"(4) Some refl refl refl] False sl rec "2.prems"(2) by simp
      with run ref False rec "2.prems"(7) show ?thesis by (simp add: both_def)
    qed
  qed
qed

section \<open>A whole stream\<close>

lemma delta_owed:
  assumes "tx_ok x" and "clean delta" and "no_close (fst (owed x (delta @ rest)))" and "process_delta x delta = (x', c, r)"
  shows "owed x (delta @ rest) = both (c, r) (owed x' rest) \<and> tx_ok x'"
proof -
  let ?input = "tx_tag_buffer x @ delta" and ?x1 = "x \<lparr> tx_tag_buffer := [] \<rparr>"
  have clean: "clean ?input" using assms(1,2) by (auto simp: tx_ok_def intro: clean_append)
  consider "delta = []" | "delta \<noteq> []" "tx_tag_buffer x = []" "CHR ''<'' \<notin> set delta"
    | "delta \<noteq> []" "tx_tag_buffer x \<noteq> [] \<or> CHR ''<'' \<in> set delta" by blast
  then show ?thesis
  proof cases
    case 1
    with assms(1,4) show ?thesis by (auto simp: process_delta_def)
  next
    case 2
    have no: "\<forall>q < length delta. \<not> occurs_at t (delta @ rest) q" if "taglike t" for t
      using occurs_lt [OF that, of delta rest] 2(3) by blast
    have res: "x' = x" "(c, r) = process_fast_path x delta" using 2 assms(4) by (auto simp: process_delta_def)
    have "owed x (delta @ rest) = both (process_fast_path x delta) (owed x rest)"
    proof (cases "tx_inside_think x")
      case True
      then obtain ct where ct: "ct \<in> set THINK_CLOSE_TAGS" "tx_close_tag x = Some ct" using assms(1) by (auto simp: tx_ok_def)
      then have "ct \<noteq> []" using tags_taglike(2) by (auto simp: taglike_def)
      from split_inside_skip [OF this no [OF tags_taglike(2) [OF ct(1)]]] True ct 2(2) show ?thesis
        by (simp add: owed_def process_fast_path_def)
    next
      case False
      with split_outside_skip [of delta rest] no tags_taglike(1) 2(2) show ?thesis
        by (simp add: owed_def process_fast_path_def)
    qed
    with res assms(1) show ?thesis by simp
  next
    case 3
    then have run: "(if tx_inside_think x then process_inside_think ?x1 ?input else process_outside_think ?x1 ?input) = (x', c, r)"
      using assms(4) by (auto simp: process_delta_def Let_def split: if_splits)
    show ?thesis
    proof (cases "tx_inside_think x")
      case True
      then obtain ct where ct: "ct \<in> set THINK_CLOSE_TAGS" "tx_close_tag x = Some ct" using assms(1) by (auto simp: tx_ok_def)
      with process_owed(2) [OF clean, of ?x1 ct rest x' c r] True run assms(3) show ?thesis by (simp add: owed_def)
    next
      case False
      with process_owed(1) [OF clean, of ?x1 rest x' c r] run assms(3) show ?thesis by (simp add: owed_def)
    qed
  qed
qed

fun think_run :: "think_stream \<Rightarrow> string list \<Rightarrow> string \<times> string" where
  "think_run x [] = snd (think_flush x)"
| "think_run x (d # ds) = (let (x', out) = process_delta x d in both out (think_run x' ds))"

lemma flush_owed:
  assumes "tx_ok x"
  shows "snd (think_flush x) = owed x []"
proof (cases "tx_inside_think x")
  case True
  with assms obtain ct where ct: "ct \<in> set THINK_CLOSE_TAGS" "tx_close_tag x = Some ct" "\<forall>q. \<not> occurs_at ct (tx_tag_buffer x) q"
    by (auto simp: tx_ok_def)
  then have "find_ignore_ascii_case (tx_tag_buffer x) ct = None"
    using tags_taglike(2) [OF ct(1)] by (simp add: find_tag_None taglike_def)
  with True ct show ?thesis by (simp add: think_flush_def owed_def split_inside.simps Let_def)
next
  case False
  with assms have "find_earliest_tag (tx_tag_buffer x) THINK_OPEN_TAGS = None" by (simp add: tx_ok_def earliest_tag_None)
  with False show ?thesis by (simp add: think_flush_def owed_def split_outside.simps Let_def)
qed

lemma run_owed:
  assumes "tx_ok x" and "list_all clean ds" and "no_close (fst (owed x (concat ds)))"
  shows "think_run x ds = owed x (concat ds)"
  using assms
proof (induction ds arbitrary: x)
  case Nil
  then show ?case by (simp add: flush_owed)
next
  case (Cons d ds)
  obtain x' c r where d: "process_delta x d = (x', c, r)" by (metis prod.collapse)
  have step: "owed x (d @ concat ds) = both (c, r) (owed x' (concat ds))" "tx_ok x'"
    using delta_owed [OF Cons.prems(1) _ _ d, of "concat ds"] Cons.prems(2,3) by auto
  then have "no_close (c @ fst (owed x' (concat ds)))" using Cons.prems(3) by (simp add: both_def)
  then have "no_close (fst (owed x' (concat ds)))" using no_close_append by blast
  with Cons.IH [OF step(2)] Cons.prems(2) step d show ?case by simp
qed

section \<open>The whole response again\<close>

lemma open_tag_end:
  assumes "t \<in> set THINK_OPEN_TAGS" and "occurs_at t s p"
  shows "str_find_char (drop p s) CHR ''>'' = Some (length t - 1)" and "find_matching_close_tag (drop p s) = close_tag_for t"
proof -
  have tl: "taglike t" using assms(1) tags_taglike(1) by blast
  then have len: "p + length t \<le> length s" "2 \<le> length t" using assms(2) by (auto simp: occurs_at_def taglike_def)
  let ?s = "drop p s"
  have "takeWhile (\<lambda>c. c \<noteq> CHR ''>'') ?s = take (length t - 1) ?s"
  proof (rule takeWhile_eq_take_P_nth)
    show "?s ! i \<noteq> CHR ''>''" if "i < length t - 1" "i < length ?s" for i
      using taglike_last(2) [OF tl assms(2), of i] that len by simp
    show "length t - 1 < length ?s \<Longrightarrow> \<not> ?s ! (length t - 1) \<noteq> CHR ''>''"
      using taglike_last(1) [OF tl assms(2)] len by simp
  qed
  then show "str_find_char ?s CHR ''>'' = Some (length t - 1)" using len by (simp add: str_find_char_def Let_def)
  have "(length ot \<le> length ?s \<and> eq_ignore_ascii_case (take (length ot) ?s) ot) \<longleftrightarrow> ot = t" if "ot \<in> set THINK_OPEN_TAGS" for ot
    using open_tag_unique [OF that assms(1), of s p] assms(2) len by (auto simp: occurs_at_def)
  moreover have "eq_ignore_ascii_case t ot \<longleftrightarrow> ot = t" if "ot \<in> set THINK_OPEN_TAGS" for ot
  proof
    assume e: "eq_ignore_ascii_case t ot"
    then have "length t = length ot" using to_ascii_lowercase_length by (metis eq_ignore_ascii_case_def)
    with e have "occurs_at ot t 0" "occurs_at t t 0" by (auto simp: occurs_at_def eq_ignore_ascii_case_def)
    then show "ot = t" using open_tag_unique that assms(1) by blast
  qed (simp add: eq_ignore_ascii_case_def)
  ultimately show "find_matching_close_tag ?s = close_tag_for t"
    unfolding find_matching_close_tag_def close_tag_for_def
    by (intro arg_cong [where f = "map_option snd"] find_cong refl) (auto dest!: set_zip_leftD)
qed

lemma parse_segment_split:
  assumes "clean s" and "find_earliest_tag s THINK_OPEN_TAGS = Some (p, t)" and "parse_think_segment s p = (before, txt, rest)"
  shows "clean rest" and "fst (split_outside s) = before @ fst (split_outside rest)"
proof -
  have t: "t \<in> set THINK_OPEN_TAGS" "occurs_at t s p" using assms(2) by (auto simp: earliest_tag_Some)
  have tl: "taglike t" using t(1) tags_taglike(1) by blast
  then have len: "0 < length t" by (simp add: taglike_def)
  obtain ct where ct: "ct \<in> set THINK_CLOSE_TAGS" "close_tag_for t = Some ct" using close_tag_for_open [OF t(1)] by blast
  have tlc: "taglike ct" using ct(1) tags_taglike(2) by blast
  note sl = tag_slices [OF tl t(2) assms(1)]
  let ?o = "drop p s" and ?a = "drop (p + length t) s"
  have o: "occurs_at t ?o 0" using t(2) by (auto simp: occurs_at_def)
  have "is_char_boundary s p" using taglike_occurs(1) [OF tl t(2)] t(2) len
    by (auto simp: is_char_boundary_def is_continuation_byte_def occurs_at_def)
  then have "clean ?o" using assms(1) clean_drop by blast
  from tag_slices(4) [OF tl o this] have a: "safe_slice_from ?o (length t) = ?a" by (simp add: add.commute)
  have seg: "(before, txt, rest) = (take p s,
      (case find_ignore_ascii_case ?a ct of Some pos \<Rightarrow> (safe_slice_to ?a pos, safe_slice_from ?a (pos + length ct)) | None \<Rightarrow> (?a, [])))"
    using assms(3) open_tag_end [OF t] sl a ct(2) len unfolding parse_think_segment_def Let_def
    by (auto split: option.splits)
  have sp: "fst (split_outside s) = take p s @ fst (split_inside ct ?a)"
    using assms(2) ct(2) by (simp add: split_outside.simps [of s] both_def)
  have nil: "split_outside [] = ([], [])"
    by (simp add: split_outside.simps [of "[]"] find_earliest_tag_def THINK_OPEN_TAGS_def find_ignore_ascii_case_def map_filter_simps)
  have "clean rest \<and> fst (split_outside s) = before @ fst (split_outside rest)"
  proof (cases "find_ignore_ascii_case ?a ct")
    case None
    with seg sp nil show ?thesis by (simp add: split_inside.simps [of ct ?a] clean_def)
  next
    case (Some pos)
    then have "occurs_at ct ?a pos" by (simp add: find_tag_Some)
    from tag_slices [OF tlc this sl(3)] Some seg sp show ?thesis by (simp add: split_inside.simps [of ct ?a] both_def)
  qed
  then show "clean rest" and "fst (split_outside s) = before @ fst (split_outside rest)" by auto
qed

lemma loop_content: "clean s \<Longrightarrow> et_content (think_loop s res) = et_content res @ fst (split_outside s)"
proof (induction s res rule: think_loop.induct)
  case (1 s res)
  show ?case
  proof (cases "find_earliest_tag s THINK_OPEN_TAGS")
    case None
    then show ?thesis by (simp add: think_loop.simps [of s res] split_outside.simps [of s])
  next
    case (Some hit)
    then obtain p t where hit: "find_earliest_tag s THINK_OPEN_TAGS = Some (p, t)" by (cases hit) auto
    obtain pre blk rest where seg: "parse_think_segment s p = (pre, blk, rest)" by (metis prod.collapse)
    note ps = parse_segment_split [OF "1.prems" hit seg]
    from "1.IH" [OF hit refl refl seg [symmetric] refl ps(1)] ps(2) hit seg show ?thesis by (simp add: think_loop.simps [of s res])
  qed
qed



section \<open>What the buffer holds\<close>

definition tx_bounded :: "think_stream \<Rightarrow> bool" where
  "tx_bounded x \<longleftrightarrow> length (tx_tag_buffer x) \<le> 11 \<and> (\<forall>ct. tx_close_tag x = Some ct \<longrightarrow> ct \<in> set THINK_CLOSE_TAGS)"

lemma slice_rest_length: "k \<le> length s \<Longrightarrow> length (safe_slice_from s k) \<le> length s - k"
  using safe_slice_from_length [of s k] by (simp add: min_def)

lemma process_bounded:
  "tx_bounded x \<Longrightarrow> tx_bounded (fst (process_outside_think x input))"
  "tx_bounded x \<Longrightarrow> tx_bounded (fst (process_inside_think x input))"
proof (induction x input and x input rule: process_outside_think_process_inside_think.induct)
  case (1 x input)
  show ?case
  proof (cases "find_earliest_tag input THINK_OPEN_TAGS")
    case None
    then show ?thesis
      using "1.prems" slice_rest_length [OF open_split(1), of input] open_split(3) [of input]
      by (simp add: process_outside_think.simps [of x input] Let_def tx_bounded_def)
  next
    case (Some hit)
    then obtain p t where hit: "find_earliest_tag input THINK_OPEN_TAGS = Some (p, t)" by (cases hit) auto
    then obtain ct where ct: "ct \<in> set THINK_CLOSE_TAGS" "close_tag_for t = Some ct"
      using close_tag_for_open earliest_tag_Some by blast
    then have "tx_bounded (x \<lparr> tx_close_tag := close_tag_for t, tx_inside_think := True \<rparr>)"
      using "1.prems" by (simp add: tx_bounded_def)
    with "1.IH" [OF hit refl refl refl refl] hit show ?thesis
      by (simp add: process_outside_think.simps [of x input] Let_def case_prod_beta)
  qed
next
  case (2 x input)
  show ?case
  proof (cases "tx_close_tag x")
    case None
    with "2.prems" show ?thesis by (simp add: process_inside_think.simps [of x input] tx_bounded_def)
  next
    case (Some ct)
    then have ct: "ct \<in> set THINK_CLOSE_TAGS" using "2.prems" by (simp add: tx_bounded_def)
    then have "length ct \<le> 12" by (auto simp: THINK_CLOSE_TAGS_def)
    show ?thesis
    proof (cases "find_ignore_ascii_case input ct")
      case None
      have "length (safe_slice_from input (find_safe_split_point_close input ct)) \<le> 11"
        using slice_rest_length [OF close_split(1) [OF tags_taglike(2) [OF ct]], of input]
          close_split(3) [OF tags_taglike(2) [OF ct], of input] \<open>length ct \<le> 12\<close> by linarith
      with None Some "2.prems" show ?thesis by (simp add: process_inside_think.simps [of x input] Let_def tx_bounded_def)
    next
      case (Some pos)
      have "tx_bounded (x \<lparr> tx_inside_think := False, tx_close_tag := None \<rparr>)" using "2.prems" by (simp add: tx_bounded_def)
      with "2.IH" [OF \<open>tx_close_tag x = Some ct\<close> Some refl refl refl] Some \<open>tx_close_tag x = Some ct\<close> show ?thesis
        by (auto simp: process_inside_think.simps [of x input] Let_def case_prod_beta)
    qed
  qed
qed

text \<open>
  the extractor holds back at most eleven bytes, the length of the longest tag less one, however
  long the stream and whatever it contains.
\<close>

theorem think_buffer_bounded:
  "length (tx_tag_buffer (fold (\<lambda>d x. fst (process_delta x d)) ds think_stream_new)) \<le> 11"
proof -
  have "tx_bounded (fst (process_delta x d))" if "tx_bounded x" for x d
    using that process_bounded [of "x \<lparr> tx_tag_buffer := [] \<rparr>"]
    by (simp add: process_delta_def Let_def) (simp add: tx_bounded_def)
  then have "tx_bounded (fold (\<lambda>d x. fst (process_delta x d)) ds x)" if "tx_bounded x" for x
    using that by (induction ds arbitrary: x) auto
  moreover have "tx_bounded think_stream_new" by (simp add: tx_bounded_def think_stream_new_def)
  ultimately show ?thesis by (simp add: tx_bounded_def)
qed

section \<open>Where the two differ\<close>

text \<open>A stray close tag is cut from a whole response, but not from a stream that splits it between two deltas.\<close>

lemma stray_close_tag_split:
  "think_run think_stream_new [''</thi'', ''nk>x''] = (''</think>x'', [])" "et_content (extract_think_from_content ''</think>x'') = ''x''"
  by code_simp+

text \<open>Removing a block can join the text around it to a new tag, which stays in the content.\<close>

lemma removal_forms_tag: "et_content (extract_think_from_content ''<thi<think>a</think>nk>b'') = ''<think>b''"
  by code_simp

text \<open>The blocks of interleaved reasoning are joined by a newline.\<close>

lemma blocks_joined_by_newline:
  "extract_think_from_content ''<think>A</think>B<think>C</think>D'' = \<lparr> et_content = ''BD'', et_reasoning = [CHR ''A'', CHR 0x0A, CHR ''C''] \<rparr>"
  by code_simp

end
