(* ===== verification/Pricing.thy ===== *)
theory Pricing
  imports Complex_Main Model_Names Utf8
begin

text \<open>
  Prices and costs (openproxy-db/src/pricing.rs and the cost computation of openproxy-db/src/cost.rs):
  the audio and token catalogues, the lookup ladder over the catalogue and the synchronised price
  table, and what a request costs. \<open>f64\<close> values are rationals, without rounding. The static catalogue
  is a hash map whose iteration order changes from run to run: that order is a parameter.
\<close>

section \<open>Prices\<close>

datatype price_kind = PriceChat | PriceAudio | PriceImage | PriceVideo | PriceOther

record price =
  pc_input_per_1m :: rat
  pc_output_per_1m :: rat
  pc_kind :: price_kind
  pc_audio_per_hour :: "rat option"

definition token_price :: "rat \<Rightarrow> rat \<Rightarrow> price" where
  "token_price inp out = \<lparr> pc_input_per_1m = inp, pc_output_per_1m = out, pc_kind = PriceChat, pc_audio_per_hour = None \<rparr>"

type_synonym price_table = "((string \<times> string) \<times> price) list"

definition PRICING_TABLE :: price_table where
  "PRICING_TABLE =
    [((''openrouter'', ''anthropic/claude-sonnet-4''), token_price 3 15),
     ((''openrouter'', ''anthropic/claude-3-5-sonnet''), token_price 3 15),
     ((''openrouter'', ''anthropic/claude-3-haiku''), token_price (25/100) (125/100)),
     ((''openrouter'', ''openai/gpt-4o''), token_price (25/10) 10),
     ((''openrouter'', ''openai/gpt-4o-mini''), token_price (15/100) (6/10)),
     ((''openrouter'', ''openai/gpt-4.1''), token_price 2 8),
     ((''openrouter'', ''openai/gpt-4.1-mini''), token_price (4/10) (16/10)),
     ((''openrouter'', ''google/gemini-2.5-pro''), token_price (125/100) 10),
     ((''openrouter'', ''google/gemini-2.5-flash''), token_price (75/1000) (30/100)),
     ((''openrouter'', ''meta-llama/llama-3.3-70b-instruct''), token_price (59/100) (79/100)),
     ((''openrouter'', ''deepseek/deepseek-chat''), token_price (14/100) (28/100)),
     ((''openrouter'', ''deepseek/deepseek-r1''), token_price (55/100) (219/100)),
     ((''openrouter'', ''qwen/qwen-2.5-72b-instruct''), token_price (23/100) (40/100)),
     ((''openrouter'', ''mistralai/mistral-large''), token_price 2 6),
     ((''openrouter'', ''x-ai/grok-2''), token_price 2 10),
     ((''minimax'', ''minimax-m2.1''), token_price (2/10) (2/10)),
     ((''minimax'', ''MiniMax-M2''), token_price (2/10) (2/10)),
     ((''minimax'', ''MiniMax-M3''), token_price 1 1),
     ((''nvidia-nim'', ''minimaxai/minimax-m3''), token_price 1 1),
     ((''tokenrouter'', ''MiniMax-M3''), token_price 1 1),
     ((''nvidia-nim'', ''meta/llama-3.3-70b-instruct''), token_price (77/100) (77/100)),
     ((''nvidia-nim'', ''meta/llama-3.1-8b-instruct''), token_price (18/100) (18/100)),
     ((''nvidia-nim'', ''nvidia/nemotron-3-ultra-550b-a55b''), token_price (77/100) (77/100)),
     ((''nvidia-nim'', ''moonshotai/kimi-k2.6''), token_price (60/100) (250/100)),
     ((''nvidia-nim'', ''z-ai/glm-5.1''), token_price (14/100) (28/100)),
     ((''nvidia-nim'', ''z-ai/glm-4.6''), token_price (14/100) (28/100)),
     ((''zenmux'', ''z-ai/glm-5.2''), token_price (14/100) (28/100)),
     ((''vercel-gateway'', ''zai/glm-5.2''), token_price 0 0),
     ((''vercel-gateway'', ''zai/glm-5.2-fast''), token_price 0 0)]"

section \<open>Audio models\<close>

definition AUDIO_SUFFIXES :: "string list" where
  "AUDIO_SUFFIXES = ['':free'', ''-free'', '':beta'', ''-beta'', '':latest'', ''-latest'', '':online'', ''-online'']"

text \<open>The first suffix that the name has, removed.\<close>

definition strip_first_suffix :: "string list \<Rightarrow> string \<Rightarrow> string option" where
  "strip_first_suffix sufs s = first_some (strip_suffix s) sufs"

lemma strip_first_suffix_shorter:
  assumes "strip_first_suffix AUDIO_SUFFIXES s = Some r"
  shows "length r < length s"
proof -
  obtain suf where suf: "suf \<in> set AUDIO_SUFFIXES" "strip_suffix s suf = Some r"
    using assms first_some_Some unfolding strip_first_suffix_def by metis
  have "suf \<noteq> []" using suf(1) by (auto simp: AUDIO_SUFFIXES_def)
  then show ?thesis using suf(2) by (auto simp: strip_suffix_def suffix_def split: if_splits)
qed

function strip_variants :: "string \<Rightarrow> string" where
  "strip_variants s =
     (case strip_first_suffix AUDIO_SUFFIXES s of
        Some rest \<Rightarrow> if rest \<noteq> [] then strip_variants rest else s
      | None \<Rightarrow> s)"
  by pat_completeness auto
termination
  by (relation "measure length") (auto dest: strip_first_suffix_shorter)

declare strip_variants.simps [simp del]

definition normalize_audio_model_id :: "string \<Rightarrow> string" where
  "normalize_audio_model_id model =
     (let s = (case rsplit_once ''/'' model of Some (_, rest) \<Rightarrow> rest | None \<Rightarrow> model)
      in to_ascii_lowercase (strip_variants (trim s)))"

definition AUDIO_PRICING_TABLE :: "(string \<times> rat) list" where
  "AUDIO_PRICING_TABLE =
     map (\<lambda>(model, rate). (normalize_audio_model_id model, rate))
       [(''whisper-large-v3'', 111/1000), (''whisper-large-v3-turbo'', 4/100), (''whisper-1'', 36/100),
        (''gpt-4o-transcribe'', 36/100), (''gpt-4o-mini-transcribe'', 18/100)]"

definition lookup_audio_price_per_hour :: "string \<Rightarrow> rat option" where
  "lookup_audio_price_per_hour model = map_of AUDIO_PRICING_TABLE (normalize_audio_model_id model)"

definition lookup_audio_price :: "string \<Rightarrow> price option" where
  "lookup_audio_price model =
     map_option (\<lambda>per_hour. \<lparr> pc_input_per_1m = per_hour, pc_output_per_1m = 0, pc_kind = PriceAudio,
                              pc_audio_per_hour = Some per_hour \<rparr>) (lookup_audio_price_per_hour model)"

section \<open>Lookup\<close>

text \<open>\<open>PRICING_TABLE.get\<close>, then a search of the table in its iteration order.\<close>

definition lookup_price :: "price_table \<Rightarrow> string \<Rightarrow> string \<Rightarrow> price option" where
  "lookup_price table provider model =
     (case map_of table (provider, model) of
        Some p \<Rightarrow> Some p
      | None \<Rightarrow>
          (case find (\<lambda>e. snd (fst e) = model) table of
             Some (_, p) \<Rightarrow> Some p
           | None \<Rightarrow>
               map_option snd (find (\<lambda>e. normalize_model_id (snd (fst e)) = normalize_model_id model) table)))"

record price_row =
  pw_provider_id :: string
  pw_model_id :: string
  pw_model_id_normalized :: string
  pw_input_per_1m :: "rat option"
  pw_output_per_1m :: "rat option"

text \<open>The first row of the query that has both prices.\<close>

definition priced_row :: "(price_row \<Rightarrow> bool) \<Rightarrow> price_row list \<Rightarrow> price option" where
  "priced_row p rows =
     (case find (\<lambda>r. p r \<and> pw_input_per_1m r \<noteq> None \<and> pw_output_per_1m r \<noteq> None) rows of
        None \<Rightarrow> None
      | Some r \<Rightarrow> Some (token_price (the (pw_input_per_1m r)) (the (pw_output_per_1m r))))"

definition lookup_exact_in_db :: "price_row list \<Rightarrow> string \<Rightarrow> string \<Rightarrow> price option" where
  "lookup_exact_in_db rows provider model = priced_row (\<lambda>r. pw_provider_id r = provider \<and> pw_model_id r = model) rows"

definition lookup_by_normalized :: "price_row list \<Rightarrow> string \<Rightarrow> price option" where
  "lookup_by_normalized rows normalized = priced_row (\<lambda>r. pw_model_id_normalized r = normalized) rows"

definition lookup_db_variants :: "price_row list \<Rightarrow> string \<Rightarrow> string \<Rightarrow> price option" where
  "lookup_db_variants rows provider model =
     first_some (lookup_exact_in_db rows provider)
       (model # candidate_normalized_forms model @ [model @ ''-free'', model @ '':free''])"

definition lookup_db_normalized_variants :: "price_row list \<Rightarrow> string \<Rightarrow> price option" where
  "lookup_db_normalized_variants rows model =
     first_some (\<lambda>m. lookup_by_normalized rows (normalize_model_id m)) (model # candidate_normalized_forms model)"

definition lookup_static_variants :: "price_table \<Rightarrow> string \<Rightarrow> string \<Rightarrow> price option" where
  "lookup_static_variants table provider model =
     first_some (lookup_price table provider) (model # candidate_normalized_forms model)"

definition lookup_with_db :: "price_table \<Rightarrow> price_row list \<Rightarrow> string \<Rightarrow> string \<Rightarrow> price option" where
  "lookup_with_db table rows provider model =
     (case lookup_audio_price model of
        Some p \<Rightarrow> Some p
      | None \<Rightarrow>
          (case lookup_db_variants rows provider model of
             Some p \<Rightarrow> Some p
           | None \<Rightarrow>
               (case lookup_db_normalized_variants rows model of
                  Some p \<Rightarrow> Some p
                | None \<Rightarrow> lookup_static_variants table provider model)))"

section \<open>Costs\<close>

definition compute_cost_opt_with_cache :: "price option \<Rightarrow> nat \<Rightarrow> nat \<Rightarrow> nat option \<Rightarrow> rat option" where
  "compute_cost_opt_with_cache price prompt_tokens completion_tokens cached_tokens =
     (case price of
        None \<Rightarrow> None
      | Some p \<Rightarrow>
          (case pc_kind p of
             PriceAudio \<Rightarrow>
               (let per_hour = (case pc_audio_per_hour p of Some r \<Rightarrow> r | None \<Rightarrow> pc_input_per_1m p)
                in Some (per_hour * (of_nat prompt_tokens / 3600000)))
           | PriceImage \<Rightarrow> Some (pc_input_per_1m p * of_nat prompt_tokens / 1000000)
           | _ \<Rightarrow>
               (let cached = min (case cached_tokens of Some c \<Rightarrow> c | None \<Rightarrow> 0) prompt_tokens;
                    non_cached = saturating_sub prompt_tokens cached;
                    cached_price_per_1m = pc_input_per_1m p * (1/2);
                    input_cost = (pc_input_per_1m p * of_nat non_cached + cached_price_per_1m * of_nat cached) / 1000000;
                    output_cost = pc_output_per_1m p * of_nat completion_tokens / 1000000
                in Some (input_cost + output_cost))))"

definition compute_cost_opt :: "price option \<Rightarrow> nat \<Rightarrow> nat \<Rightarrow> rat option" where
  "compute_cost_opt price prompt_tokens completion_tokens =
     compute_cost_opt_with_cache price prompt_tokens completion_tokens None"

definition compute_cost_with_cache :: "price option \<Rightarrow> nat \<Rightarrow> nat \<Rightarrow> nat option \<Rightarrow> rat" where
  "compute_cost_with_cache price prompt_tokens completion_tokens cached_tokens =
     (case compute_cost_opt_with_cache price prompt_tokens completion_tokens cached_tokens of Some c \<Rightarrow> c | None \<Rightarrow> 0)"

definition compute_cost :: "price option \<Rightarrow> nat \<Rightarrow> nat \<Rightarrow> rat" where
  "compute_cost price prompt_tokens completion_tokens =
     (case compute_cost_opt price prompt_tokens completion_tokens of Some c \<Rightarrow> c | None \<Rightarrow> 0)"

section \<open>Properties\<close>

text \<open>The cost of a token price lies between the price with every prompt token cached and with none.\<close>

lemma token_cost_value:
  assumes "pc_kind p = PriceChat"
  shows "compute_cost_opt_with_cache (Some p) prompt completion cached =
    Some ((pc_input_per_1m p * (of_nat prompt - of_nat (min (case cached of Some c \<Rightarrow> c | None \<Rightarrow> 0) prompt) / 2) +
           pc_output_per_1m p * of_nat completion) / 1000000)"
  using assms by (simp add: compute_cost_opt_with_cache_def Let_def field_simps of_nat_diff)

text \<open>Cost accounting: a request priced by tokens costs its uncached prompt tokens at the input
  price, its cached ones at half of it and its completion tokens at the output price; the cost is
  never negative, never above the cost without a cache, never below the output plus half the input,
  and what the upstream reports as cached beyond the prompt changes nothing.\<close>

theorem token_cost_bounds:
  assumes "pc_kind p = PriceChat" and "pc_input_per_1m p \<ge> 0" and "pc_output_per_1m p \<ge> 0"
  shows "\<exists>cost full.
    compute_cost_opt_with_cache (Some p) prompt completion cached = Some cost \<and>
    compute_cost_opt (Some p) prompt completion = Some full \<and>
    full = (pc_input_per_1m p * of_nat prompt + pc_output_per_1m p * of_nat completion) / 1000000 \<and>
    0 \<le> cost \<and> cost \<le> full \<and> full - cost \<le> pc_input_per_1m p * of_nat prompt / 2000000 \<and>
    (case cached of Some c \<Rightarrow> full - cost = pc_input_per_1m p * of_nat (min c prompt) / 2000000 | None \<Rightarrow> cost = full)"
proof -
  let ?hit = "min (case cached of Some c \<Rightarrow> c | None \<Rightarrow> 0) prompt"
  let ?full = "(pc_input_per_1m p * of_nat prompt + pc_output_per_1m p * of_nat completion) / 1000000"
  let ?cost = "?full - pc_input_per_1m p * of_nat ?hit / 2000000"
  have cost: "compute_cost_opt_with_cache (Some p) prompt completion cached = Some ?cost"
    using token_cost_value [OF assms(1), of prompt completion cached] by (simp add: field_simps)
  have full: "compute_cost_opt (Some p) prompt completion = Some ?full"
    using token_cost_value [OF assms(1), of prompt completion None] by (simp add: compute_cost_opt_def)
  have "of_nat ?hit \<le> (of_nat prompt :: rat)" by (rule of_nat_mono) simp
  then have saved: "pc_input_per_1m p * of_nat ?hit \<le> pc_input_per_1m p * of_nat prompt" "0 \<le> pc_input_per_1m p * of_nat ?hit"
    using assms(2) by (auto intro: mult_left_mono)
  have out: "0 \<le> pc_output_per_1m p * of_nat completion" using assms(3) by simp
  have "0 \<le> ?cost \<and> ?cost \<le> ?full \<and> ?full - ?cost \<le> pc_input_per_1m p * of_nat prompt / 2000000"
    using saved out by (simp add: field_simps)
  then show ?thesis using cost full by (intro exI [of _ ?cost] exI [of _ ?full]) (auto split: option.splits)
qed

section \<open>The order of the static catalogue\<close>

lemma table_keys_distinct: "distinct (map fst PRICING_TABLE)"
  by (simp add: PRICING_TABLE_def)

lemma table_prices_by_model:
  "list_all (\<lambda>((_, m), p). list_all (\<lambda>((_, m'), p'). m = m' \<longrightarrow> p = p') PRICING_TABLE) PRICING_TABLE"
  by (simp add: PRICING_TABLE_def token_price_def)

lemma glm_names:
  "normalize_model_id ''z-ai/glm-5.2'' = ''glm-5.2''"
  "normalize_model_id ''zai/glm-5.2'' = ''glm-5.2''"
  "normalize_model_id ''glm-5.2'' = ''glm-5.2''"
  by code_simp+

lemma find_hit: "find P xs = Some x \<Longrightarrow> x \<in> set xs \<and> P x"
  by (induction xs) (auto split: if_splits)

definition to_front :: "'a \<Rightarrow> 'a list \<Rightarrow> 'a list" where
  "to_front x xs = x # remove1 x xs"

lemma mset_to_front: "x \<in> set xs \<Longrightarrow> mset (to_front x xs) = mset xs"
  by (simp add: to_front_def)

lemma lookup_price_normalized:
  assumes "\<forall>e \<in> set table. snd (fst e) \<noteq> model" and "table = ((pr, m), p) # rest"
    and "normalize_model_id m = normalize_model_id model"
  shows "lookup_price table provider model = Some p"
proof -
  have "map_of table (provider, model) = None" using assms(1) by (force simp: map_of_eq_None_iff)
  moreover have "find (\<lambda>e. snd (fst e) = model) table = None" using assms(1) by (force simp: find_None_iff)
  ultimately show ?thesis using assms(2,3) by (simp add: lookup_price_def)
qed

lemma glm_not_listed: "\<forall>e \<in> set PRICING_TABLE. snd (fst e) \<noteq> ''glm-5.2''"
  by (simp add: PRICING_TABLE_def)

text \<open>The bare name of a model that two providers list at different prices has no fixed price.\<close>

lemma glm_price_depends_on_order:
  "\<exists>t1 t2. mset t1 = mset PRICING_TABLE \<and> mset t2 = mset PRICING_TABLE \<and>
     lookup_price t1 ''custom'' ''glm-5.2'' = Some (token_price (14/100) (28/100)) \<and>
     lookup_price t2 ''custom'' ''glm-5.2'' = Some (token_price 0 0)"
proof -
  let ?a = "((''zenmux'', ''z-ai/glm-5.2''), token_price (14/100) (28/100))"
  let ?b = "((''vercel-gateway'', ''zai/glm-5.2''), token_price 0 0)"
  have mem: "?a \<in> set PRICING_TABLE" "?b \<in> set PRICING_TABLE" by (simp_all add: PRICING_TABLE_def)
  have "lookup_price (to_front ?a PRICING_TABLE) ''custom'' ''glm-5.2'' = Some (token_price (14/100) (28/100))"
    using glm_not_listed mset_eq_setD [OF mset_to_front [OF mem(1)]]
    by (intro lookup_price_normalized [OF _ to_front_def]) (simp_all only: glm_names)
  moreover have "lookup_price (to_front ?b PRICING_TABLE) ''custom'' ''glm-5.2'' = Some (token_price 0 0)"
    using glm_not_listed mset_eq_setD [OF mset_to_front [OF mem(2)]]
    by (intro lookup_price_normalized [OF _ to_front_def]) (simp_all only: glm_names)
  ultimately show ?thesis
    by (intro exI [of _ "to_front ?a PRICING_TABLE"] exI [of _ "to_front ?b PRICING_TABLE"] conjI mset_to_front mem)
qed

text \<open>The static price of a model that the catalogue names is the same in every run: it does not
  depend on the iteration order of the hash map, whichever provider asks.\<close>

theorem static_price_stable:
  assumes "mset table = mset PRICING_TABLE" and "\<exists>e \<in> set PRICING_TABLE. snd (fst e) = model"
  shows "lookup_price table provider model = lookup_price PRICING_TABLE provider model"
proof -
  have set_eq: "set table = set PRICING_TABLE" using assms(1) by (rule mset_eq_setD)
  have "distinct (map fst table)" using assms(1) table_keys_distinct
    by (metis distinct_map mset_eq_imp_distinct_iff mset_map set_eq)
  then have exact: "map_of table = map_of PRICING_TABLE"
    using map_of_inject_set [OF _ table_keys_distinct] set_eq by blast
  have found: "\<exists>k p. find (\<lambda>e. snd (fst e) = model) t = Some (k, p) \<and> (k, p) \<in> set PRICING_TABLE \<and> snd k = model"
    if "set t = set PRICING_TABLE" for t
  proof (cases "find (\<lambda>e. snd (fst e) = model) t")
    case None
    then show ?thesis using assms(2) that by (auto simp: find_None_iff)
  next
    case (Some x)
    then have "x \<in> set t" "snd (fst x) = model" using find_hit [OF Some] by auto
    then show ?thesis using Some that by (intro exI [of _ "fst x"] exI [of _ "snd x"]) simp
  qed
  obtain k p where one: "find (\<lambda>e. snd (fst e) = model) table = Some (k, p)" "(k, p) \<in> set PRICING_TABLE" "snd k = model"
    using found [OF set_eq] by blast
  obtain k' p' where two: "find (\<lambda>e. snd (fst e) = model) PRICING_TABLE = Some (k', p')" "(k', p') \<in> set PRICING_TABLE" "snd k' = model"
    using found [OF refl] by blast
  have "p = p'" using table_prices_by_model one(2,3) two(2,3) unfolding list_all_iff by fastforce
  then show ?thesis using exact one(1) two(1) by (simp add: lookup_price_def split: option.splits)
qed

theorem static_price_stable_witness:
  "lookup_price (rev PRICING_TABLE) ''x'' ''MiniMax-M3'' = Some (token_price 1 1)"
proof -
  have "\<exists>e \<in> set PRICING_TABLE. snd (fst e) = ''MiniMax-M3''" by (simp add: PRICING_TABLE_def)
  from static_price_stable [OF _ this, of "rev PRICING_TABLE" "''x''"]
  show ?thesis by (simp add: lookup_price_def PRICING_TABLE_def)
qed

theorem token_cost_bounds_witness:
  "\<exists>cost full. compute_cost_opt_with_cache (Some (token_price 3 15)) 1000 100 (Some 600) = Some cost \<and>
     compute_cost_opt (Some (token_price 3 15)) 1000 100 = Some full \<and> 0 \<le> cost \<and> cost \<le> full"
  using token_cost_bounds [of "token_price 3 15" 1000 100 "Some 600"] by (auto simp: token_price_def)

text \<open>An audio model has its published hourly rate whoever resells it and whatever the price table says.\<close>

lemma audio_price_wins:
  assumes "lookup_audio_price_per_hour model = Some r"
  shows "lookup_with_db table rows provider model =
    Some \<lparr> pc_input_per_1m = r, pc_output_per_1m = 0, pc_kind = PriceAudio, pc_audio_per_hour = Some r \<rparr>"
  using assms by (simp add: lookup_with_db_def lookup_audio_price_def)

end
