(* ===== verification/Usage_Rows.thy ===== *)
theory Usage_Rows
  imports Core_Error Combos Pricing
begin

text \<open>
  Usage records (openproxy-types/src/usage.rs and openproxy-db/src/cost.rs): the input a request leaves
  behind, its cost and throughput, the row that is inserted, the marks set on it later, and the backfill
  of prices that were unknown when the row was written. The secret patterns of the regex crate and the
  errors of the SQL engine are parameters; columns copied from the input are the input of the row.
\<close>

section \<open>Input\<close>

datatype endpoint_kind = EkChat | EkAudio | EkImage | EkEmbedding | EkVideo | EkSystemOne

fun endpoint_kind_as_str :: "endpoint_kind \<Rightarrow> string" where
  "endpoint_kind_as_str EkChat = ''chat''"
| "endpoint_kind_as_str EkAudio = ''audio''"
| "endpoint_kind_as_str EkImage = ''image''"
| "endpoint_kind_as_str EkEmbedding = ''embedding''"
| "endpoint_kind_as_str EkVideo = ''video''"
| "endpoint_kind_as_str EkSystemOne = ''systemone''"

definition endpoint_kind_parse :: "string \<Rightarrow> string + endpoint_kind" where
  "endpoint_kind_parse s =
     (if s = ''chat'' then Inr EkChat else if s = ''audio'' then Inr EkAudio else if s = ''image'' then Inr EkImage
      else if s = ''embedding'' then Inr EkEmbedding else if s = ''video'' then Inr EkVideo
      else if s = ''systemone'' then Inr EkSystemOne else Inl (''invalid endpoint kind: '' @ s))"

interpretation endpoint_enum: string_enum endpoint_kind_as_str endpoint_kind_parse "\<lambda>_. {}"
proof unfold_locales
  fix v show "endpoint_kind_parse (endpoint_kind_as_str v) = Inr v"
    by (cases v) (simp_all add: endpoint_kind_parse_def)
qed (auto simp: endpoint_kind_parse_def split: if_splits)

definition USAGE_FLAG_CLIENT_RESPONSE :: "8 word" where
  "USAGE_FLAG_CLIENT_RESPONSE = push_bit 3 1"

record usage_input =
  ui_request_id :: string
  ui_trace_id :: string
  ui_attempt :: nat
  ui_provider_id :: string
  ui_account_id :: "account_id option"
  ui_combo_id :: "combo_id option"
  ui_combo_target_id :: "combo_target_id option"
  ui_model_row_id :: "model_row_id option"
  ui_upstream_model_id :: string
  ui_prompt_tokens :: "nat option"
  ui_completion_tokens :: "nat option"
  ui_cached_tokens :: "nat option"
  ui_connect_ms :: "nat option"
  ui_ttft_ms :: "nat option"
  ui_total_ms :: nat
  ui_status_code :: nat
  ui_error_msg :: "string option"
  ui_race_total :: nat
  ui_api_key_id :: "int option"
  ui_request_body_json :: "string option"
  ui_response_body_json :: "json option"
  ui_request_headers :: "(string \<times> string) list option"
  ui_response_headers :: "(string \<times> string) list option"
  ui_error_message :: "string option"
  ui_race_attempts :: nat
  ui_stop_reason :: "string option"
  ui_compression_savings_pct :: "rat option"
  ui_compression_techniques :: "string option"
  ui_pii_redacted :: "string option"
  ui_endpoint_kind :: endpoint_kind
  ui_proxy_url :: "string option"
  ui_proxy_status :: "string option"
  ui_flags :: "8 word"
  ui_audio_ms :: "nat option"

definition has_flag :: "usage_input \<Rightarrow> 8 word \<Rightarrow> bool" where
  "has_flag input flag = (and (ui_flags input) flag \<noteq> 0)"

definition set_flag :: "usage_input \<Rightarrow> 8 word \<Rightarrow> usage_input" where
  "set_flag input flag = input \<lparr> ui_flags := or (ui_flags input) flag \<rparr>"

section \<open>Cost and throughput\<close>

abbreviation tokens_or_zero :: "nat option \<Rightarrow> nat" where
  "tokens_or_zero t \<equiv> case t of Some n \<Rightarrow> n | None \<Rightarrow> 0"

definition compute_usage :: "price option \<Rightarrow> usage_input \<Rightarrow> rat option \<times> rat option" where
  "compute_usage price input =
     ((if ui_status_code input \<ge> 200 \<and> ui_status_code input < 400
       then compute_cost_opt_with_cache price (tokens_or_zero (ui_prompt_tokens input))
              (tokens_or_zero (ui_completion_tokens input)) (ui_cached_tokens input)
       else Some 0),
      (case ui_completion_tokens input of
         Some c \<Rightarrow>
           if c > 0 \<and> ui_total_ms input > 0 \<and> ui_status_code input < 400
           then Some (of_nat c * 1000 / of_nat (ui_total_ms input)) else None
       | None \<Rightarrow> None))"

text \<open>Audio is billed by the milliseconds of audio, in the place of the prompt tokens.\<close>

definition billable_input :: "price option \<Rightarrow> usage_input \<Rightarrow> usage_input" where
  "billable_input price input =
     (case map_option pc_kind price of
        Some PriceAudio \<Rightarrow>
          input \<lparr> ui_prompt_tokens := Some (tokens_or_zero (ui_audio_ms input)), ui_completion_tokens := Some 0 \<rparr>
      | _ \<Rightarrow> input)"

section \<open>Error texts\<close>

definition truncate_sanitized :: "string \<Rightarrow> nat \<Rightarrow> string" where
  "truncate_sanitized sanitized max_len =
     (if length sanitized \<le> max_len then sanitized
      else take (floor_boundary sanitized max_len) sanitized @ ''...[truncated]'')"

record usage_env =
  ue_redact_secrets :: "string \<Rightarrow> string"
  ue_insert_error :: "usage_input \<Rightarrow> int option \<Rightarrow> string option"
  ue_price_table :: price_table

definition redact_error_msg :: "usage_env \<Rightarrow> string \<Rightarrow> string" where
  "redact_error_msg env raw = truncate_sanitized (ue_redact_secrets env raw) 2048"

definition prepare_usage_error_msg :: "usage_env \<Rightarrow> string option \<Rightarrow> string option" where
  "prepare_usage_error_msg env error_msg = map_option (redact_error_msg env) error_msg"

section \<open>Rows\<close>

record usage_row =
  ur_id :: int
  ur_input :: usage_input
  ur_api_key_id :: "int option"
  ur_cost_usd :: "rat option"
  ur_tokens_per_sec :: "rat option"
  ur_error_msg :: "string option"
  ur_error_message :: "string option"
  ur_client_response :: bool
  ur_was_winner :: bool

record usage_tables =
  ut_usage :: "usage_row list"
  ut_next_id :: int
  ut_api_keys :: "int list"
  ut_prices :: "price_row list"

definition usage_row_of ::
    "'a usage_tables_scheme \<Rightarrow> usage_input \<Rightarrow> rat option \<Rightarrow> rat option \<Rightarrow> string option \<Rightarrow> int option \<Rightarrow> usage_row" where
  "usage_row_of db input cost tps error_msg key_id =
     \<lparr> ur_id = ut_next_id db, ur_input = input, ur_api_key_id = key_id, ur_cost_usd = cost, ur_tokens_per_sec = tps,
       ur_error_msg = error_msg, ur_error_message = ui_error_message input,
       ur_client_response = has_flag input USAGE_FLAG_CLIENT_RESPONSE,
       ur_was_winner = has_flag input USAGE_FLAG_CLIENT_RESPONSE \<rparr>"

text \<open>A key that is gone is left out, and an insert that fails with a key is tried once without.\<close>

definition insert_usage_record ::
    "usage_env \<Rightarrow> 'a usage_tables_scheme \<Rightarrow> usage_input \<Rightarrow> rat option \<Rightarrow> rat option \<Rightarrow> string option \<Rightarrow>
     core_error + ('a usage_tables_scheme \<times> usage_row)" where
  "insert_usage_record env db input cost tps error_msg =
     (let api_key_id = (case ui_api_key_id input of
            Some k \<Rightarrow> if k \<in> set (ut_api_keys db) then Some k else None | None \<Rightarrow> None);
          execute_insert = (\<lambda>key. case ue_insert_error env input key of
            Some e \<Rightarrow> Inl e
          | None \<Rightarrow> (let row = usage_row_of db input cost tps error_msg key
                    in Inr (db \<lparr> ut_usage := ut_usage db @ [row], ut_next_id := ut_next_id db + 1 \<rparr>, row)))
      in (case execute_insert api_key_id of
            Inr r \<Rightarrow> Inr r
          | Inl e \<Rightarrow>
              (if api_key_id \<noteq> None
               then (case execute_insert None of Inr r \<Rightarrow> Inr r | Inl e' \<Rightarrow> Inl (Database e' None))
               else Inl (Database e None))))"

definition record_row ::
    "usage_env \<Rightarrow> 'a usage_tables_scheme \<Rightarrow> usage_input \<Rightarrow> core_error + ('a usage_tables_scheme \<times> usage_row)" where
  "record_row env db input =
     (let price = lookup_with_db (ue_price_table env) (ut_prices db) (ui_provider_id input) (ui_upstream_model_id input);
          (cost, tps) = compute_usage price (billable_input price input)
      in insert_usage_record env db input cost tps (prepare_usage_error_msg env (ui_error_msg input)))"

definition mark_client_response :: "int \<Rightarrow> 'a usage_tables_scheme \<Rightarrow> 'a usage_tables_scheme" where
  "mark_client_response row_id db =
     db \<lparr> ut_usage := map (\<lambda>r. if ur_id r = row_id then r \<lparr> ur_was_winner := True, ur_client_response := True \<rparr> else r)
            (ut_usage db) \<rparr>"

definition mark_winner_usage_row :: "string \<Rightarrow> nat \<Rightarrow> combo_target_id \<Rightarrow> 'a usage_tables_scheme \<Rightarrow> 'a usage_tables_scheme" where
  "mark_winner_usage_row request_id attempt target_id db =
     db \<lparr> ut_usage := map (\<lambda>r. if ui_request_id (ur_input r) = request_id \<and> ui_attempt (ur_input r) = attempt \<and>
              ui_combo_target_id (ur_input r) = Some target_id
            then r \<lparr> ur_was_winner := True, ur_client_response := True \<rparr> else r) (ut_usage db) \<rparr>"

section \<open>Backfill\<close>

text \<open>SQL comparisons with NULL are not true.\<close>

definition positive :: "nat option \<Rightarrow> bool" where
  "positive t = (case t of Some n \<Rightarrow> n > 0 | None \<Rightarrow> False)"

definition unpriced :: "usage_row \<Rightarrow> bool" where
  "unpriced r = (ur_cost_usd r = Some 0 \<or> ur_cost_usd r = None)"

definition row_key :: "usage_row \<Rightarrow> string \<times> string" where
  "row_key r = (ui_provider_id (ur_input r), ui_upstream_model_id (ur_input r))"

definition backfill_row :: "price option \<Rightarrow> usage_row \<Rightarrow> usage_row" where
  "backfill_row price r =
     (let input = ur_input r in
      case price of
        Some p \<Rightarrow>
          (if pc_kind p = PriceAudio
           then (let per_hour = (case pc_audio_per_hour p of Some x \<Rightarrow> x | None \<Rightarrow> pc_input_per_1m p)
                 in if positive (ui_audio_ms input) \<and> unpriced r
                    then r \<lparr> ur_cost_usd := Some (per_hour * of_nat (tokens_or_zero (ui_audio_ms input)) / 3600000) \<rparr> else r)
           else if positive (ui_prompt_tokens input) \<and> unpriced r
           then r \<lparr> ur_cost_usd := Some (pc_input_per_1m p * of_nat (tokens_or_zero (ui_prompt_tokens input)) / 1000000 +
                                        pc_output_per_1m p * of_nat (tokens_or_zero (ui_completion_tokens input)) / 1000000) \<rparr>
           else r)
      | None \<Rightarrow> if positive (ui_prompt_tokens input) \<and> ur_cost_usd r = Some 0 then r \<lparr> ur_cost_usd := None \<rparr> else r)"

definition update_backfill_price :: "string \<times> string \<Rightarrow> price option \<Rightarrow> 'a usage_tables_scheme \<Rightarrow> 'a usage_tables_scheme" where
  "update_backfill_price key price db =
     db \<lparr> ut_usage := map (\<lambda>r. if row_key r = key then backfill_row price r else r) (ut_usage db) \<rparr>"

definition backfill_usage_pricing :: "usage_env \<Rightarrow> 'a usage_tables_scheme \<Rightarrow> 'a usage_tables_scheme" where
  "backfill_usage_pricing env db =
     (let pairs = remdups (map row_key (filter (\<lambda>r. (positive (ui_prompt_tokens (ur_input r)) \<or> positive (ui_audio_ms (ur_input r))) \<and>
                    unpriced r) (ut_usage db)))
      in fold (\<lambda>(provider, model) d.
           update_backfill_price (provider, model) (lookup_with_db (ue_price_table env) (ut_prices d) provider model) d) pairs db)"

section \<open>What a recording does\<close>

lemma record_row_effect:
  assumes "record_row env db input = Inr (db', row)"
  shows "db' = db \<lparr> ut_usage := ut_usage db @ [row], ut_next_id := ut_next_id db + 1 \<rparr> \<and> ur_input row = input"
  using assms
  by (auto simp: record_row_def insert_usage_record_def usage_row_of_def Let_def split: option.splits if_splits sum.splits prod.splits)

section \<open>What the backfill does\<close>

lemma map_input_mark [simp]: "map ur_input (ut_usage (mark_winner_usage_row r a t db)) = map ur_input (ut_usage db)"
  by (simp add: mark_winner_usage_row_def o_def if_distrib cong: if_cong)

lemma backfill_row_input [simp]: "ur_input (backfill_row p r) = ur_input r" "row_key (backfill_row p r) = row_key r"
  by (auto simp: backfill_row_def row_key_def Let_def split: option.splits)

text \<open>The cost that the backfill computes, as a function of the input alone.\<close>

definition backfill_cost :: "price option \<Rightarrow> usage_input \<Rightarrow> rat option" where
  "backfill_cost price input = (case price of
     None \<Rightarrow> None
   | Some p \<Rightarrow> Some (if pc_kind p = PriceAudio
       then (case pc_audio_per_hour p of Some x \<Rightarrow> x | None \<Rightarrow> pc_input_per_1m p) * of_nat (tokens_or_zero (ui_audio_ms input)) / 3600000
       else pc_input_per_1m p * of_nat (tokens_or_zero (ui_prompt_tokens input)) / 1000000 +
            pc_output_per_1m p * of_nat (tokens_or_zero (ui_completion_tokens input)) / 1000000))"

definition backfill_selects :: "price option \<Rightarrow> usage_row \<Rightarrow> bool" where
  "backfill_selects price r = (case price of
     None \<Rightarrow> positive (ui_prompt_tokens (ur_input r)) \<and> ur_cost_usd r = Some 0
   | Some p \<Rightarrow> positive (if pc_kind p = PriceAudio then ui_audio_ms (ur_input r) else ui_prompt_tokens (ur_input r)) \<and> unpriced r)"

lemma backfill_row_alt:
  "backfill_row p r = (if backfill_selects p r then r \<lparr> ur_cost_usd := backfill_cost p (ur_input r) \<rparr> else r)"
  by (cases p) (simp_all add: backfill_row_def backfill_cost_def backfill_selects_def Let_def)

lemma backfill_row_idem: "backfill_row p (backfill_row p r) = backfill_row p r"
  by (simp add: backfill_row_alt)

lemma backfill_row_settled:
  "\<not> ((positive (ui_prompt_tokens (ur_input r)) \<or> positive (ui_audio_ms (ur_input r))) \<and> unpriced r) \<Longrightarrow> backfill_row p r = r"
  by (cases p) (auto simp: backfill_row_alt backfill_selects_def unpriced_def split: if_splits)

abbreviation (input) price_for :: "usage_env \<Rightarrow> 'a usage_tables_scheme \<Rightarrow> string \<times> string \<Rightarrow> price option" where
  "price_for env db key \<equiv> lookup_with_db (ue_price_table env) (ut_prices db) (fst key) (snd key)"

definition backfill_all :: "usage_env \<Rightarrow> 'a usage_tables_scheme \<Rightarrow> 'a usage_tables_scheme" where
  "backfill_all env db = db \<lparr> ut_usage := map (\<lambda>r. backfill_row (price_for env db (row_key r)) r) (ut_usage db) \<rparr>"

lemma update_backfill_keeps [simp]: "ut_prices (update_backfill_price k p db) = ut_prices db"
  by (simp add: update_backfill_price_def)

lemma fold_backfill:
  assumes "distinct pairs"
  shows "fold (\<lambda>(provider, model) d. update_backfill_price (provider, model)
            (lookup_with_db (ue_price_table env) (ut_prices d) provider model) d) pairs db =
    db \<lparr> ut_usage := map (\<lambda>r. if row_key r \<in> set pairs then backfill_row (price_for env db (row_key r)) r else r) (ut_usage db) \<rparr>"
  using assms
proof (induction pairs arbitrary: db)
  case (Cons k pairs)
  obtain provider model where k: "k = (provider, model)" by (cases k)
  show ?case using Cons.prems
    by (simp add: Cons.IH k) (auto simp: update_backfill_price_def o_def intro!: arg_cong [where f = "\<lambda>u. db \<lparr> ut_usage := u \<rparr>"])
qed simp

lemma backfill_as_map: "backfill_usage_pricing env db = backfill_all env db"
  unfolding backfill_usage_pricing_def backfill_all_def Let_def
  by (subst fold_backfill)
    (auto intro!: arg_cong [where f = "\<lambda>u. db \<lparr> ut_usage := u \<rparr>"] map_cong backfill_row_settled [symmetric])

text \<open>Running the price backfill again changes nothing, as long as the prices are the same.\<close>

theorem backfill_idempotent:
  "backfill_usage_pricing env (backfill_usage_pricing env db) = backfill_usage_pricing env db"
  by (simp add: backfill_as_map backfill_all_def o_def backfill_row_idem)

text \<open>A successful request recorded while its price was unknown gets from the backfill exactly the
  cost the recording would have given it at that price, when none of its prompt was served from a
  cache: by tokens for a chat model, by the hour for an audio model.\<close>

theorem backfill_matches_recording:
  assumes "pc_kind p = PriceChat \<or> pc_kind p = PriceAudio"
    and "200 \<le> ui_status_code (ur_input r)" "ui_status_code (ur_input r) < 400"
    and "tokens_or_zero (ui_cached_tokens (ur_input r)) = 0" and "unpriced r"
    and "if pc_kind p = PriceAudio then positive (ui_audio_ms (ur_input r)) else positive (ui_prompt_tokens (ur_input r))"
  shows "ur_cost_usd (backfill_row (Some p) r) = fst (compute_usage (Some p) (billable_input (Some p) (ur_input r)))"
proof -
  have "backfill_selects (Some p) r" using assms by (simp add: backfill_selects_def)
  then have "ur_cost_usd (backfill_row (Some p) r) = backfill_cost (Some p) (ur_input r)" by (simp add: backfill_row_alt)
  also have "\<dots> = fst (compute_usage (Some p) (billable_input (Some p) (ur_input r)))"
    using assms(1-4)
    by (elim disjE) (simp_all add: backfill_cost_def compute_usage_def billable_input_def compute_cost_opt_with_cache_def add_divide_distrib)
  finally show ?thesis .
qed

text \<open>A failed request is recorded at no cost, and the backfill charges it.\<close>

lemma backfill_charges_failures:
  assumes "400 \<le> ui_status_code input" and "ui_prompt_tokens input = Some n" and "n > 0"
    and "lookup_with_db (ue_price_table env) (ut_prices db) (ui_provider_id input) (ui_upstream_model_id input) = Some p"
    and "pc_kind p = PriceChat" and "pc_input_per_1m p > 0" and "pc_output_per_1m p \<ge> 0"
    and "record_row env db input = Inr (db', row)"
  shows "ur_cost_usd row = Some 0 \<and> (\<exists>c > 0. ur_cost_usd (backfill_row (Some p) row) = Some c)"
proof -
  have "ur_cost_usd row = Some 0 \<and> ur_input row = input"
    using assms by (auto simp: record_row_def insert_usage_record_def usage_row_of_def compute_usage_def billable_input_def Let_def
        split: option.splits if_splits sum.splits)
  then show ?thesis using assms
    by (auto simp: backfill_row_def unpriced_def positive_def Let_def split: option.splits intro!: add_pos_nonneg)
qed

text \<open>The stored error text is bounded and cut at a character; the other error column is not redacted.\<close>

lemma redacted_length: "length (redact_error_msg env raw) \<le> 2062"
proof (cases "length (ue_redact_secrets env raw) \<le> 2048")
  case False
  have "floor_boundary (ue_redact_secrets env raw) 2048 \<le> 2048" by (rule floor_boundary_le)
  then show ?thesis using False by (simp add: redact_error_msg_def truncate_sanitized_def)
qed (simp add: redact_error_msg_def truncate_sanitized_def)

lemma error_message_column_raw:
  "record_row env db input = Inr (db', row) \<Longrightarrow> ur_error_message row = ui_error_message input"
  by (auto simp: record_row_def insert_usage_record_def usage_row_of_def Let_def split: option.splits if_splits sum.splits prod.splits)

section \<open>Witnesses\<close>

definition demo_input :: usage_input where
  "demo_input = \<lparr> ui_request_id = ''r'', ui_trace_id = ''t'', ui_attempt = 1, ui_provider_id = ''p'', ui_account_id = None,
     ui_combo_id = None, ui_combo_target_id = None, ui_model_row_id = None, ui_upstream_model_id = ''m'', ui_prompt_tokens = Some 1000,
     ui_completion_tokens = Some 200, ui_cached_tokens = None, ui_connect_ms = None, ui_ttft_ms = None, ui_total_ms = 3,
     ui_status_code = 200, ui_error_msg = None, ui_race_total = 1, ui_api_key_id = None, ui_request_body_json = None,
     ui_response_body_json = None, ui_request_headers = None, ui_response_headers = None, ui_error_message = None,
     ui_race_attempts = 1, ui_stop_reason = None, ui_compression_savings_pct = None, ui_compression_techniques = None,
     ui_pii_redacted = None, ui_endpoint_kind = EkChat, ui_proxy_url = None, ui_proxy_status = None, ui_flags = 0,
     ui_audio_ms = None \<rparr>"

definition demo_row :: usage_row where
  "demo_row = \<lparr> ur_id = 1, ur_input = demo_input, ur_api_key_id = None, ur_cost_usd = None, ur_tokens_per_sec = None,
     ur_error_msg = None, ur_error_message = None, ur_client_response = False, ur_was_winner = False \<rparr>"

theorem backfill_matches_recording_witness:
  "ur_cost_usd (backfill_row (Some (token_price 3 15)) demo_row) =
     fst (compute_usage (Some (token_price 3 15)) (billable_input (Some (token_price 3 15)) demo_input)) \<and>
   ur_cost_usd (backfill_row (Some (token_price 3 15)) demo_row) = Some (6 / 1000)"
proof -
  have "ur_cost_usd (backfill_row (Some (token_price 3 15)) demo_row) =
      fst (compute_usage (Some (token_price 3 15)) (billable_input (Some (token_price 3 15)) (ur_input demo_row)))"
    by (rule backfill_matches_recording) (simp_all add: token_price_def demo_row_def demo_input_def unpriced_def positive_def)
  moreover have "ur_cost_usd (backfill_row (Some (token_price 3 15)) demo_row) = Some (6 / 1000)"
    by (simp add: demo_row_def backfill_row_def token_price_def demo_input_def positive_def unpriced_def)
  ultimately show ?thesis by (simp add: demo_row_def)
qed

end
