(* ===== verification/Usage_Journal.thy ===== *)
theory Usage_Journal
  imports Cooldowns Usage_Rows
begin

text \<open>
  The durable usage journal (openproxy-db/src/usage_journal.rs, usage_writer.rs and
  openproxy-pipeline/src/worker.rs, worker/coordinator.rs): jobs are admitted to a table, and a worker
  applies them in transactions that also acknowledge them. A transaction is a function from tables to
  tables whose result is kept only when it succeeds. The serialisation of jobs and the errors of the
  SQL engine are parameters; one instant stands for the clock during a replay.
\<close>

section \<open>Jobs and tables\<close>

record attempt_cooldown =
  at_target :: combo_target_id
  at_combo_id :: combo_id
  at_error :: "string option"
  at_is_upstream_health_issue :: bool
  at_mode :: cooldown_mode
  at_base_secs :: nat
  at_max_secs :: nat
  at_factor :: nat

datatype background_job =
    JournalWake
  | RecordUsage usage_input
  | RecordAttempt usage_input attempt_cooldown
  | MarkClientResponse string nat combo_target_id

record journal_db = usage_tables +
  jd_journal :: "(int \<times> string) list"
  jd_next_id :: int
  jd_routing :: database

record journal_env =
  je_encode :: "background_job \<Rightarrow> string"
  je_decode :: "string \<Rightarrow> string + background_job"
  je_usage :: usage_env
  je_add_secs :: "int \<Rightarrow> int \<Rightarrow> int option"

section \<open>The journal table\<close>

definition MAX_PENDING_JOBS :: nat where
  "MAX_PENDING_JOBS = 100000"

definition journal_depth :: "journal_db \<Rightarrow> nat" where
  "journal_depth db = length (jd_journal db)"

definition insert_entry :: "string \<Rightarrow> journal_db \<Rightarrow> journal_db" where
  "insert_entry payload db =
     db \<lparr> jd_journal := jd_journal db @ [(jd_next_id db, payload)], jd_next_id := jd_next_id db + 1 \<rparr>"

definition journal_append :: "journal_db \<Rightarrow> string \<Rightarrow> journal_db \<times> (core_error + int)" where
  "journal_append db payload =
     (if journal_depth db \<ge> MAX_PENDING_JOBS then (db, Inl JournalCapacityExhausted)
      else (insert_entry payload db, Inr (jd_next_id db)))"

text \<open>The loop of \<open>append_batch\<close> over the payloads, with the index of the next one.\<close>

fun append_each :: "nat \<Rightarrow> nat \<Rightarrow> journal_db \<Rightarrow> string list \<Rightarrow> journal_db \<times> (core_error + int) list" where
  "append_each free index db [] = (db, [])"
| "append_each free index db (p # ps) =
     (if index \<ge> free
      then (let (db', rs) = append_each free (Suc index) db ps in (db', Inl JournalCapacityExhausted # rs))
      else (let (db', rs) = append_each free (Suc index) (insert_entry p db) ps in (db', Inr (jd_next_id db) # rs)))"

definition append_batch :: "journal_db \<Rightarrow> string list \<Rightarrow> journal_db \<times> (core_error + int) list" where
  "append_batch db payloads = append_each (MAX_PENDING_JOBS - journal_depth db) 0 db payloads"

definition journal_pending :: "journal_db \<Rightarrow> nat \<Rightarrow> (int \<times> string) list" where
  "journal_pending db limit = take limit (jd_journal db)"

definition acknowledge :: "int \<Rightarrow> journal_db \<Rightarrow> journal_db" where
  "acknowledge i db = db \<lparr> jd_journal := filter (\<lambda>(j, _). j \<noteq> i) (jd_journal db) \<rparr>"

definition journal_contains :: "journal_db \<Rightarrow> int \<Rightarrow> bool" where
  "journal_contains db i = list_ex (\<lambda>(j, _). j = i) (jd_journal db)"

section \<open>Usage rows\<close>

text \<open>\<open>None\<close> stands for the panic of a cooldown deadline out of the range of the clock.\<close>

definition apply_cooldown :: "journal_env \<Rightarrow> int \<Rightarrow> attempt_cooldown option \<Rightarrow> journal_db \<Rightarrow> journal_db option" where
  "apply_cooldown env now cooldown db =
     (case cooldown of
        None \<Rightarrow> Some db
      | Some p \<Rightarrow>
          (if at_combo_id p = -1 then Some db
           else
             (case at_error p of
                None \<Rightarrow> Some (db \<lparr> jd_routing := clear_cooldown (at_target p) (jd_routing db) \<rparr>)
              | Some reason \<Rightarrow>
                  (if at_is_upstream_health_issue p
                   then map_option (\<lambda>r. db \<lparr> jd_routing := r \<rparr>)
                          (record_cooldown (je_add_secs env) now (jd_routing db) (at_target p) reason (at_mode p)
                            (at_base_secs p) (at_max_secs p) (at_factor p))
                   else Some db))))"

definition record_in_transaction ::
    "journal_env \<Rightarrow> int \<Rightarrow> journal_db \<Rightarrow> usage_input \<Rightarrow> attempt_cooldown option \<Rightarrow> int option \<Rightarrow>
     (core_error + (journal_db \<times> usage_row option)) option" where
  "record_in_transaction env now db input cooldown journal_id =
     (if (case journal_id of Some i \<Rightarrow> \<not> journal_contains db i | None \<Rightarrow> False) then Some (Inr (db, None))
      else
        (case record_row (je_usage env) db input of
           Inl e \<Rightarrow> Some (Inl e)
         | Inr (db1, row) \<Rightarrow>
             (case apply_cooldown env now cooldown db1 of
                None \<Rightarrow> None
              | Some db2 \<Rightarrow>
                  Some (Inr ((case journal_id of Some i \<Rightarrow> acknowledge i db2 | None \<Rightarrow> db2), Some row)))))"

section \<open>Applying entries\<close>

definition apply_entry ::
    "journal_env \<Rightarrow> int \<Rightarrow> journal_db \<Rightarrow> background_job \<Rightarrow> int \<Rightarrow> (core_error + (journal_db \<times> usage_row option)) option" where
  "apply_entry env now db job journal_id =
     (case job of
        JournalWake \<Rightarrow> Some (Inl (Internal ''wake cannot be journaled''))
      | RecordUsage input \<Rightarrow> record_in_transaction env now db input None (Some journal_id)
      | RecordAttempt input cooldown \<Rightarrow> record_in_transaction env now db input (Some cooldown) (Some journal_id)
      | MarkClientResponse request_id attempt target_id \<Rightarrow>
          Some (Inr (if journal_contains db journal_id
                     then (acknowledge journal_id (mark_winner_usage_row request_id attempt target_id db), None)
                     else (db, None))))"

definition decode_entry :: "journal_env \<Rightarrow> int \<Rightarrow> string \<Rightarrow> core_error + background_job" where
  "decode_entry env i payload =
     (case je_decode env payload of
        Inl e \<Rightarrow> Inl (Internal (''invalid usage journal entry '' @ show_int i @ '': '' @ e))
      | Inr job \<Rightarrow> Inr job)"

text \<open>A transaction over several entries: the first error leaves nothing of it.\<close>

fun apply_batch ::
    "journal_env \<Rightarrow> int \<Rightarrow> journal_db \<Rightarrow> (int \<times> string) list \<Rightarrow> (core_error + (journal_db \<times> usage_row list)) option" where
  "apply_batch env now db [] = Some (Inr (db, []))"
| "apply_batch env now db ((i, payload) # es) =
     (case decode_entry env i payload of
        Inl e \<Rightarrow> Some (Inl e)
      | Inr job \<Rightarrow>
          (case apply_entry env now db job i of
             None \<Rightarrow> None
           | Some (Inl e) \<Rightarrow> Some (Inl e)
           | Some (Inr (db1, row)) \<Rightarrow>
               (case apply_batch env now db1 es of
                  None \<Rightarrow> None
                | Some (Inl e) \<Rightarrow> Some (Inl e)
                | Some (Inr (db2, rows)) \<Rightarrow> Some (Inr (db2, (case row of Some r \<Rightarrow> [r] | None \<Rightarrow> []) @ rows)))))"

definition REPLAY_BATCH :: nat where
  "REPLAY_BATCH = 256"

record replay_result =
  rr_db :: journal_db
  rr_published :: "usage_row list"
  rr_drained :: nat
  rr_outcome :: "core_error option"

text \<open>Entry by entry: each success is committed and published, the first error ends the loop.\<close>

fun replay_one_by_one ::
    "journal_env \<Rightarrow> int \<Rightarrow> journal_db \<Rightarrow> (int \<times> string) list \<Rightarrow> replay_result option" where
  "replay_one_by_one env now db [] = Some \<lparr> rr_db = db, rr_published = [], rr_drained = 0, rr_outcome = None \<rparr>"
| "replay_one_by_one env now db (e # es) =
     (case apply_batch env now db [e] of
        None \<Rightarrow> None
      | Some (Inl err) \<Rightarrow> Some \<lparr> rr_db = db, rr_published = [], rr_drained = 0, rr_outcome = Some err \<rparr>
      | Some (Inr (db1, rows)) \<Rightarrow>
          map_option (\<lambda>r. r \<lparr> rr_published := rows @ rr_published r, rr_drained := Suc (rr_drained r) \<rparr>)
            (replay_one_by_one env now db1 es))"

section \<open>What a batch does to the journal\<close>

lemma apply_cooldown_keeps:
  assumes "apply_cooldown env now c db = Some db'"
  shows "jd_journal db' = jd_journal db \<and> ut_usage db' = ut_usage db \<and> jd_next_id db' = jd_next_id db"
  using assms unfolding apply_cooldown_def by (auto split: option.splits if_splits)

lemma mark_winner_keeps [simp]:
  "jd_journal (mark_winner_usage_row r a t db) = jd_journal db"
  "jd_next_id (mark_winner_usage_row r a t db) = jd_next_id db"
  by (simp_all add: mark_winner_usage_row_def)

lemma acknowledge_simps [simp]:
  "jd_journal (acknowledge i db) = filter (\<lambda>e. fst e \<noteq> i) (jd_journal db)"
  "ut_usage (acknowledge i db) = ut_usage db"
  "jd_next_id (acknowledge i db) = jd_next_id db"
  by (simp_all add: acknowledge_def case_prod_unfold)

lemma filter_notin_insert:
  "filter (\<lambda>e. fst e \<notin> S) (filter (\<lambda>e. fst e \<noteq> i) xs) = filter (\<lambda>e. fst e \<notin> insert i S) xs"
  by (induction xs) auto

lemma filter_notin_union:
  "filter (\<lambda>e. fst e \<notin> S) (filter (\<lambda>e. fst e \<notin> R) xs) = filter (\<lambda>e. fst e \<notin> R \<union> S) xs"
  by (induction xs) auto

lemma journal_contains_iff [simp]: "journal_contains db i \<longleftrightarrow> i \<in> fst ` set (jd_journal db)"
  by (force simp: journal_contains_def list_ex_iff)

lemma filter_absent: "i \<notin> fst ` set xs \<Longrightarrow> filter (\<lambda>e. fst e \<noteq> i) xs = xs"
  by (induction xs) auto

text \<open>The usage rows an entry stands for.\<close>

definition entry_inputs :: "journal_env \<Rightarrow> int \<times> string \<Rightarrow> usage_input list" where
  "entry_inputs env e =
     (case je_decode env (snd e) of
        Inr (RecordUsage u) \<Rightarrow> [u]
      | Inr (RecordAttempt u c) \<Rightarrow> [u]
      | _ \<Rightarrow> [])"

lemma apply_entry_effect:
  assumes "apply_entry env now db job i = Some (Inr (db', row))"
  shows "jd_journal db' = filter (\<lambda>e. fst e \<noteq> i) (jd_journal db) \<and> jd_next_id db' = jd_next_id db \<and>
    (i \<notin> fst ` set (jd_journal db) \<longrightarrow> db' = db) \<and>
    (i \<in> fst ` set (jd_journal db) \<longrightarrow>
       map ur_input (ut_usage db') = map ur_input (ut_usage db) @
         (case job of RecordUsage u \<Rightarrow> [u] | RecordAttempt u c \<Rightarrow> [u] | _ \<Rightarrow> []))"
  using assms
  by (auto simp: apply_entry_def record_in_transaction_def filter_absent
      dest!: apply_cooldown_keeps record_row_effect split: background_job.splits if_splits option.splits sum.splits)

lemma apply_batch_consE:
  assumes "apply_batch env now db ((i, payload) # es) = Some (Inr (db', rows))"
  obtains job db1 row rows' where "decode_entry env i payload = Inr job"
    "apply_entry env now db job i = Some (Inr (db1, row))" "apply_batch env now db1 es = Some (Inr (db', rows'))"
    "rows = (case row of Some r \<Rightarrow> [r] | None \<Rightarrow> []) @ rows'"
  using assms by (auto split: sum.splits option.splits prod.splits)

lemma replay_one_by_one_consE:
  assumes "replay_one_by_one env now db (e # es) = Some r" and "rr_outcome r = None"
  obtains db1 rows r1 where "apply_batch env now db [e] = Some (Inr (db1, rows))"
    "replay_one_by_one env now db1 es = Some r1" "rr_outcome r1 = None" "rr_db r = rr_db r1"
  using assms by (auto simp del: apply_batch.simps split: sum.splits option.splits prod.splits)

lemma apply_batch_journal:
  "apply_batch env now db es = Some (Inr (db', rows)) \<Longrightarrow>
   jd_journal db' = filter (\<lambda>e. fst e \<notin> fst ` set es) (jd_journal db) \<and> jd_next_id db' = jd_next_id db"
proof (induction env now db es arbitrary: db' rows rule: apply_batch.induct)
  case (2 env now db i payload es)
  from apply_batch_consE [OF "2.prems"] obtain job db1 row rows' where
    "decode_entry env i payload = Inr job" and one: "apply_entry env now db job i = Some (Inr (db1, row))"
    and "apply_batch env now db1 es = Some (Inr (db', rows'))" .
  then have "jd_journal db' = filter (\<lambda>e. fst e \<notin> fst ` set es) (jd_journal db1) \<and> jd_next_id db' = jd_next_id db1"
    by (rule "2.IH" [OF _ _ refl refl])
  moreover have "jd_journal db1 = filter (\<lambda>e. fst e \<noteq> i) (jd_journal db)" "jd_next_id db1 = jd_next_id db"
    using apply_entry_effect [OF one] by blast+
  ultimately show ?case by (simp only: filter_notin_insert list.set image_insert fst_conv)
qed simp

lemma replay_one_by_one_journal:
  "replay_one_by_one env now db es = Some r \<Longrightarrow> rr_outcome r = None \<Longrightarrow>
   jd_journal (rr_db r) = filter (\<lambda>e. fst e \<notin> fst ` set es) (jd_journal db)"
proof (induction env now db es arbitrary: r rule: replay_one_by_one.induct)
  case (2 env now db e es)
  from replay_one_by_one_consE [OF "2.prems"]
  obtain db1 rows r1 where one: "apply_batch env now db [e] = Some (Inr (db1, rows))"
    and "replay_one_by_one env now db1 es = Some r1" and "rr_outcome r1 = None" and "rr_db r = rr_db r1" .
  then have "jd_journal (rr_db r) = filter (\<lambda>e. fst e \<notin> fst ` set es) (jd_journal db1)"
    using "2.IH" by (simp del: apply_batch.simps)
  moreover have "jd_journal db1 = filter (\<lambda>x. fst x \<notin> fst ` set [e]) (jd_journal db)"
    using apply_batch_journal [OF one] by blast
  ultimately show ?case by (simp only: filter_notin_union list.set image_insert image_empty Un_insert_left Un_empty_left)
qed simp

lemma pending_removed_shorter:
  assumes "journal_pending db n = e # es"
  shows "length (filter (\<lambda>x. fst x \<noteq> fst e \<and> fst x \<notin> fst ` set es) (jd_journal db)) < length (jd_journal db)"
proof -
  have "e \<in> set (jd_journal db)" using assms unfolding journal_pending_def by (metis in_set_takeD list.set_intros(1))
  then show ?thesis by (intro length_filter_less [of e]) auto
qed

section \<open>The replay loop\<close>

function replay_pending :: "journal_env \<Rightarrow> int \<Rightarrow> journal_db \<Rightarrow> replay_result option" where
  "replay_pending env now db =
     (case journal_pending db REPLAY_BATCH of
        [] \<Rightarrow> Some \<lparr> rr_db = db, rr_published = [], rr_drained = 0, rr_outcome = None \<rparr>
      | e # es \<Rightarrow>
          (case apply_batch env now db (e # es) of
             None \<Rightarrow> None
           | Some (Inr (db1, rows)) \<Rightarrow>
               map_option (\<lambda>r. r \<lparr> rr_published := rows @ rr_published r, rr_drained := length (e # es) + rr_drained r \<rparr>)
                 (replay_pending env now db1)
           | Some (Inl err) \<Rightarrow>
               (if length (e # es) > 1
                then (case replay_one_by_one env now db (e # es) of
                        None \<Rightarrow> None
                      | Some r1 \<Rightarrow>
                          (case rr_outcome r1 of
                             Some err1 \<Rightarrow> Some r1
                           | None \<Rightarrow>
                               map_option (\<lambda>r. r \<lparr> rr_published := rr_published r1 @ rr_published r,
                                                   rr_drained := rr_drained r1 + rr_drained r \<rparr>)
                                 (replay_pending env now (rr_db r1))))
                else Some \<lparr> rr_db = db, rr_published = [], rr_drained = 0, rr_outcome = Some err \<rparr>)))"
  by pat_completeness auto
termination
  by (relation "measure (\<lambda>(env, now, db). length (jd_journal db))")
    (auto simp del: apply_batch.simps replay_one_by_one.simps
      simp: apply_batch_journal replay_one_by_one_journal dest!: pending_removed_shorter)

declare replay_pending.simps [simp del]

definition replay_append :: "replay_result \<Rightarrow> replay_result \<Rightarrow> replay_result" where
  "replay_append a b = b \<lparr> rr_published := rr_published a @ rr_published b, rr_drained := rr_drained a + rr_drained b \<rparr>"

lemma replay_one_by_one_append:
  "replay_one_by_one env now db (es @ fs) =
     (case replay_one_by_one env now db es of
        None \<Rightarrow> None
      | Some r \<Rightarrow>
          (if rr_outcome r = None then map_option (replay_append r) (replay_one_by_one env now (rr_db r) fs) else Some r))"
proof (induction env now db es rule: replay_one_by_one.induct)
  case (1 env now db)
  then show ?case by (cases "replay_one_by_one env now db fs") (simp_all add: replay_append_def)
next
  case (2 env now db e es)
  show ?case
  proof (cases "apply_batch env now db [e]")
    case (Some res)
    then show ?thesis
    proof (cases res)
      case (Inr p)
      obtain db1 rows where p: "p = (db1, rows)" by (cases p)
      show ?thesis using "2.IH" [OF Some Inr p [symmetric]] Some Inr p
        by (auto simp: replay_append_def [abs_def] option.map_comp o_def simp del: apply_batch.simps split: option.splits)
    qed (simp del: apply_batch.simps)
  qed (simp del: apply_batch.simps)
qed

lemma apply_batch_one:
  "apply_batch env now db ((i, payload) # es) =
     (case apply_batch env now db [(i, payload)] of
        Some (Inr (db1, rows)) \<Rightarrow>
          (case apply_batch env now db1 es of
             Some (Inr (db2, rows2)) \<Rightarrow> Some (Inr (db2, rows @ rows2))
           | other \<Rightarrow> other)
      | other \<Rightarrow> other)"
  by (auto split: sum.splits option.splits prod.splits)

lemma batch_result_one_by_one:
  "(case apply_batch env now db es of
      None \<Rightarrow> replay_one_by_one env now db es = None
    | Some (Inl err) \<Rightarrow> \<exists>r. replay_one_by_one env now db es = Some r \<and> rr_outcome r = Some err
    | Some (Inr (db', rows)) \<Rightarrow> replay_one_by_one env now db es =
        Some \<lparr> rr_db = db', rr_published = rows, rr_drained = length es, rr_outcome = None \<rparr>)"
proof (induction es arbitrary: db)
  case (Cons e es)
  obtain i payload where e: "e = (i, payload)" by (cases e)
  show ?case
  proof (cases "apply_batch env now db [e]")
    case (Some res)
    then show ?thesis
    proof (cases res)
      case (Inr p)
      obtain db1 rows where p: "p = (db1, rows)" by (cases p)
      show ?thesis using Cons.IH [of db1] Some Inr p unfolding e apply_batch_one [of env now db i payload es]
        by (auto simp del: apply_batch.simps split: option.splits sum.splits prod.splits)
    qed (simp add: e apply_batch_one [of env now db i payload es] del: apply_batch.simps)
  qed (simp add: e apply_batch_one [of env now db i payload es] del: apply_batch.simps)
qed simp

lemma drop_pending:
  assumes "distinct (map fst js)"
  shows "filter (\<lambda>x. fst x \<notin> fst ` set (take n js)) js = drop n js"
proof -
  have "distinct (map fst (take n js @ drop n js))" using assms by simp
  then have disjoint: "fst ` set (take n js) \<inter> fst ` set (drop n js) = {}"
    by (metis distinct_append map_append set_map)
  have "filter (\<lambda>x. fst x \<notin> fst ` set (take n js)) (take n js @ drop n js) = drop n js"
    unfolding filter_append using disjoint by (auto simp: filter_empty_conv filter_id_conv)
  then show ?thesis by simp
qed

text \<open>Batching is invisible: a replay does what applying the journal one entry at a time does.\<close>

lemma replay_batched_unbatched:
  "distinct (map fst (jd_journal db)) \<Longrightarrow>
   replay_pending env now db = replay_one_by_one env now db (jd_journal db)"
proof (induction env now db rule: replay_pending.induct)
  case (1 env now db)
  let ?es = "journal_pending db REPLAY_BATCH" and ?rest = "drop REPLAY_BATCH (jd_journal db)"
  have split: "jd_journal db = ?es @ ?rest" by (simp add: journal_pending_def)
  show ?case
  proof (cases "?es")
    case Nil
    then have "jd_journal db = []" by (simp add: journal_pending_def REPLAY_BATCH_def)
    then show ?thesis using Nil by (simp add: replay_pending.simps [of env now db])
  next
    case (Cons e es)
    have whole: "replay_one_by_one env now db (jd_journal db) = replay_one_by_one env now db ((e # es) @ ?rest)"
      using split Cons by simp
    note batch = batch_result_one_by_one [of env now db "e # es"]
    show ?thesis
    proof (cases "apply_batch env now db (e # es)")
      case None
      then have "replay_one_by_one env now db (e # es) = None" using batch by simp
      then show ?thesis using None Cons
        by (simp only: whole replay_one_by_one_append replay_pending.simps [of env now db] list.case option.case)
    next
      case (Some res)
      show ?thesis
      proof (cases res)
        case (Inl err)
        then obtain r where r: "replay_one_by_one env now db (e # es) = Some r" "rr_outcome r = Some err"
          using batch Some by auto
        have single: "r = \<lparr> rr_db = db, rr_published = [], rr_drained = 0, rr_outcome = Some err \<rparr>" if "es = []"
          using r Some Inl that by (simp del: apply_batch.simps)
        show ?thesis using Cons Some Inl r single
          by (cases "es = []") (simp_all only: whole replay_one_by_one_append replay_pending.simps [of env now db]
              list.case option.case sum.case, simp_all del: apply_batch.simps replay_one_by_one.simps)
      next
        case (Inr p)
        obtain db1 rows where p: "p = (db1, rows)" by (cases p)
        have ok: "apply_batch env now db (e # es) = Some (Inr (db1, rows))" using Some Inr p by simp
        have one: "replay_one_by_one env now db (e # es) =
            Some \<lparr> rr_db = db1, rr_published = rows, rr_drained = length (e # es), rr_outcome = None \<rparr>"
          using batch ok by (simp del: apply_batch.simps replay_one_by_one.simps)
        have rest: "jd_journal db1 = ?rest"
          using apply_batch_journal [OF ok] drop_pending [OF "1.prems", of REPLAY_BATCH] Cons
          unfolding journal_pending_def by (simp del: apply_batch.simps)
        have "distinct (map fst (jd_journal db1))" using "1.prems" rest by (simp add: drop_map [symmetric])
        then have "replay_pending env now db1 = replay_one_by_one env now db1 ?rest"
          using "1.IH"(2) [OF Cons Some Inr p [symmetric]] rest by simp
        then show ?thesis using Cons ok one
          by (simp only: whole replay_one_by_one_append replay_pending.simps [of env now db] list.case option.case sum.case prod.case)
            (simp add: replay_append_def cong: option.map_cong)
      qed
    qed
  qed
qed

section \<open>Admission\<close>

definition admit_job :: "journal_env \<Rightarrow> journal_db \<Rightarrow> background_job \<Rightarrow> journal_db \<times> (core_error + int)" where
  "admit_job env db job = journal_append db (je_encode env job)"

definition process_job :: "journal_env \<Rightarrow> int \<Rightarrow> journal_db \<Rightarrow> background_job \<Rightarrow> replay_result option" where
  "process_job env now db job =
     (case job of
        JournalWake \<Rightarrow> replay_pending env now db
      | _ \<Rightarrow>
          (case admit_job env db job of
             (db1, Inl e) \<Rightarrow> Some \<lparr> rr_db = db1, rr_published = [], rr_drained = 0, rr_outcome = Some e \<rparr>
           | (db1, Inr i) \<Rightarrow> replay_pending env now db1))"

text \<open>Appending payloads one by one.\<close>

fun append_seq :: "journal_db \<Rightarrow> string list \<Rightarrow> journal_db \<times> (core_error + int) list" where
  "append_seq db [] = (db, [])"
| "append_seq db (p # ps) =
     (let (db1, r) = journal_append db p; (db2, rs) = append_seq db1 ps in (db2, r # rs))"

lemma append_each_seq:
  "index + journal_depth db0 = journal_depth db \<Longrightarrow> index \<le> MAX_PENDING_JOBS - journal_depth db0 \<Longrightarrow>
   append_each (MAX_PENDING_JOBS - journal_depth db0) index db ps = append_seq db ps"
proof (induction ps arbitrary: index db)
  case (Cons p ps)
  show ?case
  proof (cases "index \<ge> MAX_PENDING_JOBS - journal_depth db0")
    case True
    have full: "append_each (MAX_PENDING_JOBS - journal_depth db0) k db qs =
        (db, map (\<lambda>_. Inl JournalCapacityExhausted) qs)" if "k \<ge> MAX_PENDING_JOBS - journal_depth db0" for k qs
      using that by (induction qs arbitrary: k) simp_all
    have full_db: "MAX_PENDING_JOBS \<le> journal_depth db" using True Cons.prems by linarith
    have seq: "append_seq db qs = (db, map (\<lambda>_. Inl JournalCapacityExhausted) qs)" for qs
      using full_db by (induction qs) (simp_all add: journal_append_def)
    show ?thesis using True by (simp only: full seq)
  next
    case False
    have "append_each (MAX_PENDING_JOBS - journal_depth db0) (Suc index) (insert_entry p db) ps = append_seq (insert_entry p db) ps"
      using False Cons.prems by (intro Cons.IH) (simp_all add: journal_depth_def insert_entry_def)
    moreover have "journal_append db p = (insert_entry p db, Inr (jd_next_id db))"
      using False Cons.prems by (auto simp: journal_append_def)
    ultimately show ?thesis using False by simp
  qed
qed simp

text \<open>A batch is admitted as the same payloads appended one after the other are.\<close>

lemma append_batch_seq: "append_batch db ps = append_seq db ps"
  unfolding append_batch_def by (rule append_each_seq) simp_all

text \<open>The entries of a batch that were admitted, with the ids their producers were told.\<close>

definition admitted_entries :: "string list \<Rightarrow> (core_error + int) list \<Rightarrow> (int \<times> string) list" where
  "admitted_entries ps rs = concat (map (\<lambda>(p, r). case r of Inr i \<Rightarrow> [(i, p)] | Inl e \<Rightarrow> []) (zip ps rs))"

lemma admitted_entries_Cons [simp]:
  "admitted_entries (p # ps) (Inr i # rs) = (i, p) # admitted_entries ps rs"
  "admitted_entries (p # ps) (Inl e # rs) = admitted_entries ps rs"
  "admitted_entries [] rs = []"
  by (simp_all add: admitted_entries_def)

definition ids_below :: "int \<Rightarrow> (int \<times> string) list \<Rightarrow> bool" where
  "ids_below n es = (sorted_wrt (<) (map fst es) \<and> (\<forall>e \<in> set es. fst e < n))"

lemma ids_below_snoc: "ids_below n es \<Longrightarrow> ids_below (n + 1) (es @ [(n, p)])"
  by (fastforce simp: ids_below_def sorted_wrt_append)

lemma ids_below_distinct: "ids_below n es \<Longrightarrow> distinct (map fst es)"
  unfolding ids_below_def using strict_sorted_iff by blast

lemma append_seq_entries:
  "append_seq db ps = (db', rs) \<Longrightarrow> ids_below (jd_next_id db) es \<Longrightarrow>
   jd_journal db' = jd_journal db @ admitted_entries ps rs \<and> ut_usage db' = ut_usage db \<and>
   ids_below (jd_next_id db') (es @ admitted_entries ps rs) \<and>
   (journal_depth db \<le> MAX_PENDING_JOBS \<longrightarrow> journal_depth db' \<le> MAX_PENDING_JOBS)"
proof (induction ps arbitrary: db rs es)
  case (Cons p ps)
  show ?case
  proof (cases "journal_depth db \<ge> MAX_PENDING_JOBS")
    case True
    then obtain rs' where "append_seq db ps = (db', rs')" "rs = Inl JournalCapacityExhausted # rs'"
      using Cons.prems(1) by (auto simp: journal_append_def split: prod.splits)
    then show ?thesis using Cons.IH [of db rs' es] Cons.prems(2) by simp
  next
    case False
    then obtain rs' where seq: "append_seq (insert_entry p db) ps = (db', rs')" and rs: "rs = Inr (jd_next_id db) # rs'"
      using Cons.prems(1) by (auto simp: journal_append_def split: prod.splits)
    have "ids_below (jd_next_id (insert_entry p db)) (es @ [(jd_next_id db, p)])"
      using ids_below_snoc [OF Cons.prems(2)] by (simp add: insert_entry_def)
    from Cons.IH [OF seq this] show ?thesis
      using False rs by (auto simp: insert_entry_def journal_depth_def)
  qed
qed simp

section \<open>Producers and replayers interleaved\<close>

text \<open>
  The journal under any interleaving of producers and replayers. A replayer reads a page, then commits
  it whole, or entry by entry after a failed batch; it may fail or crash at any point, which leaves the
  tables as they were. Pages go stale when another replayer commits first. \<open>sys_admitted\<close> records the
  entries whose producers were answered with an id, in the order of their commits.
\<close>

record journal_system =
  sys_db :: journal_db
  sys_readers :: "(int \<times> string) list list"
  sys_admitted :: "(int \<times> string) list"

inductive journal_step :: "journal_env \<Rightarrow> journal_system \<Rightarrow> journal_system \<Rightarrow> bool" for env where
  admit: "append_batch (sys_db s) ps = (db', rs) \<Longrightarrow>
    journal_step env s (s \<lparr> sys_db := db', sys_admitted := sys_admitted s @ admitted_entries ps rs \<rparr>)"
| read_page: "journal_step env s (s \<lparr> sys_readers := sys_readers s @ [journal_pending (sys_db s) REPLAY_BATCH] \<rparr>)"
| commit_page: "\<lbrakk> i < length (sys_readers s); apply_batch env now (sys_db s) (sys_readers s ! i) = Some (Inr (db', rows)) \<rbrakk> \<Longrightarrow>
    journal_step env s (s \<lparr> sys_db := db', sys_readers := (sys_readers s)[i := []] \<rparr>)"
| commit_entry: "\<lbrakk> i < length (sys_readers s); sys_readers s ! i = e # es; apply_batch env now (sys_db s) [e] = Some (Inr (db', rows)) \<rbrakk> \<Longrightarrow>
    journal_step env s (s \<lparr> sys_db := db', sys_readers := (sys_readers s)[i := es] \<rparr>)"
| abort: "i < length (sys_readers s) \<Longrightarrow> journal_step env s (s \<lparr> sys_readers := (sys_readers s)[i := []] \<rparr>)"

definition journal_init :: "database \<Rightarrow> journal_system" where
  "journal_init d =
     \<lparr> sys_db = \<lparr> ut_usage = [], ut_next_id = 1, ut_api_keys = [], ut_prices = [], jd_journal = [], jd_next_id = 1, jd_routing = d \<rparr>,
       sys_readers = [], sys_admitted = [] \<rparr>"

inductive journal_reachable :: "journal_env \<Rightarrow> database \<Rightarrow> journal_system \<Rightarrow> bool" for env d where
  start: "journal_reachable env d (journal_init d)"
| step: "journal_reachable env d s \<Longrightarrow> journal_step env s s' \<Longrightarrow> journal_reachable env d s'"

text \<open>The first \<open>k\<close> admitted entries are applied, the others wait, and every page starts among the applied.\<close>

definition usage_of :: "journal_env \<Rightarrow> (int \<times> string) list \<Rightarrow> usage_input list" where
  "usage_of env es = concat (map (entry_inputs env) es)"

definition applied_upto :: "journal_env \<Rightarrow> (int \<times> string) list \<Rightarrow> nat \<Rightarrow> journal_db \<Rightarrow> bool" where
  "applied_upto env adm k db =
     (k \<le> length adm \<and> jd_journal db = drop k adm \<and> map ur_input (ut_usage db) = usage_of env (take k adm) \<and>
      ids_below (jd_next_id db) adm \<and> journal_depth db \<le> MAX_PENDING_JOBS)"

definition page_at :: "(int \<times> string) list \<Rightarrow> nat \<Rightarrow> (int \<times> string) list \<Rightarrow> bool" where
  "page_at adm p es = (p + length es \<le> length adm \<and> es = take (length es) (drop p adm))"

lemma entry_absent:
  assumes "ids_below n adm" "p < k" "k \<le> length adm"
  shows "fst (adm ! p) \<notin> fst ` set (drop k adm)"
proof
  assume "fst (adm ! p) \<in> fst ` set (drop k adm)"
  then obtain q where q: "q < length (drop k adm)" "fst (drop k adm ! q) = fst (adm ! p)"
    by (metis (no_types, opaque_lifting) imageE in_set_conv_nth)
  then have "map fst adm ! (k + q) = map fst adm ! p" using assms by simp
  then show False using ids_below_distinct [OF assms(1)] q assms by (simp add: nth_eq_iff_index_eq del: nth_map)
qed

lemma usage_of_take_Suc: "k < length adm \<Longrightarrow> usage_of env (take (Suc k) adm) = usage_of env (take k adm) @ entry_inputs env (adm ! k)"
  by (simp add: usage_of_def take_Suc_conv_app_nth)

lemma drop_Suc_ack:
  assumes "ids_below n adm" "k < length adm"
  shows "filter (\<lambda>e. fst e \<noteq> fst (adm ! k)) (drop k adm) = drop (Suc k) adm"
proof -
  have "fst (adm ! k) \<notin> fst ` set (drop (Suc k) adm)" using entry_absent [OF assms(1), of k "Suc k"] assms by simp
  then show ?thesis using assms by (simp add: Cons_nth_drop_Suc [symmetric] filter_absent)
qed

lemma decoded_inputs:
  "decode_entry env i payload = Inr job \<Longrightarrow>
   (case job of RecordUsage u \<Rightarrow> [u] | RecordAttempt u c \<Rightarrow> [u] | _ \<Rightarrow> []) = entry_inputs env (i, payload)"
  by (auto simp: decode_entry_def entry_inputs_def split: sum.splits background_job.splits)

lemma apply_page_upto:
  "apply_batch env now db es = Some (Inr (db', rows)) \<Longrightarrow> applied_upto env adm k db \<Longrightarrow> page_at adm p es \<Longrightarrow> p \<le> k \<Longrightarrow>
   applied_upto env adm (max k (p + length es)) db'"
proof (induction es arbitrary: db rows k p)
  case Nil
  then show ?case by (simp add: max_absorb1)
next
  case (Cons e es)
  obtain i payload where e: "e = (i, payload)" by (cases e)
  from Cons.prems(1) obtain job db1 row rows' where dec: "decode_entry env i payload = Inr job"
    and one: "apply_entry env now db job i = Some (Inr (db1, row))"
    and more: "apply_batch env now db1 es = Some (Inr (db', rows'))"
    unfolding e by (rule apply_batch_consE)
  have p: "p < length adm" and at: "adm ! p = e" and page: "page_at adm (Suc p) es"
    using Cons.prems(3) by (auto simp: page_at_def Cons_nth_drop_Suc [symmetric])
  note effect = apply_entry_effect [OF one]
  have "applied_upto env adm (max k (Suc p)) db1"
  proof (cases "p < k")
    case True
    then have "i \<notin> fst ` set (jd_journal db)"
      using Cons.prems(2) entry_absent [of "jd_next_id db" adm p k] at e unfolding applied_upto_def by simp
    then show ?thesis using effect Cons.prems(2) True by (simp add: max_absorb1)
  next
    case False
    then have k: "k = p" using Cons.prems(4) by simp
    have "(i, payload) \<in> set (drop p adm)" using at e p by (metis Cons_nth_drop_Suc list.set_intros(1))
    then have "i \<in> fst ` set (jd_journal db)" using Cons.prems(2) k unfolding applied_upto_def by force
    then have "map ur_input (ut_usage db1) = map ur_input (ut_usage db) @ entry_inputs env e"
      using effect decoded_inputs [OF dec] e by simp
    moreover have "jd_journal db1 = drop (Suc p) adm"
      using effect drop_Suc_ack [of "jd_next_id db" adm p] Cons.prems(2) k p at e unfolding applied_upto_def by simp
    moreover have "journal_depth db1 \<le> MAX_PENDING_JOBS"
      using Cons.prems(2) k calculation(2) by (auto simp: applied_upto_def journal_depth_def)
    ultimately show ?thesis using Cons.prems(2) k p at effect
      by (simp add: applied_upto_def usage_of_take_Suc)
  qed
  from Cons.IH [OF more this page] show ?case by (simp add: max.assoc)
qed

definition journal_inv :: "journal_env \<Rightarrow> journal_system \<Rightarrow> bool" where
  "journal_inv env s = (\<exists>k. applied_upto env (sys_admitted s) k (sys_db s) \<and>
     (\<forall>es \<in> set (sys_readers s). \<exists>p \<le> k. page_at (sys_admitted s) p es))"

lemma page_at_extend: "page_at adm p es \<Longrightarrow> page_at (adm @ adm') p es"
  by (simp add: page_at_def)

lemma page_at_tail: "page_at adm p (e # es) \<Longrightarrow> page_at adm (Suc p) es"
  by (auto simp: page_at_def Cons_nth_drop_Suc [symmetric])

lemma page_at_Nil: "k \<le> length adm \<Longrightarrow> page_at adm k []"
  by (simp add: page_at_def)

lemma readers_updated:
  assumes "\<forall>es \<in> set rs. \<exists>p \<le> k. page_at adm p es" and "\<exists>p \<le> k'. page_at adm p es'" and "k \<le> k'"
  shows "\<forall>es \<in> set (rs[i := es']). \<exists>p \<le> k'. page_at adm p es"
proof
  fix es assume "es \<in> set (rs[i := es'])"
  then have "es = es' \<or> es \<in> set rs" using set_update_subset_insert by fastforce
  then show "\<exists>p \<le> k'. page_at adm p es" using assms by (meson le_trans)
qed

lemma journal_inv_step: "journal_step env s s' \<Longrightarrow> journal_inv env s \<Longrightarrow> journal_inv env s'"
proof (induction rule: journal_step.induct)
  case (admit s ps db' rs)
  then obtain k where k: "applied_upto env (sys_admitted s) k (sys_db s)"
    and pages: "\<forall>es \<in> set (sys_readers s). \<exists>p \<le> k. page_at (sys_admitted s) p es" unfolding journal_inv_def by blast
  have "append_seq (sys_db s) ps = (db', rs)" using admit.hyps by (simp add: append_batch_seq)
  then have "applied_upto env (sys_admitted s @ admitted_entries ps rs) k db'"
    using append_seq_entries [of "sys_db s" ps db' rs "sys_admitted s"] k by (auto simp: applied_upto_def)
  then show ?case using pages page_at_extend unfolding journal_inv_def by fastforce
next
  case (read_page s)
  then obtain k where k: "applied_upto env (sys_admitted s) k (sys_db s)"
    and pages: "\<forall>es \<in> set (sys_readers s). \<exists>p \<le> k. page_at (sys_admitted s) p es" unfolding journal_inv_def by blast
  have "page_at (sys_admitted s) k (journal_pending (sys_db s) REPLAY_BATCH)"
    using k by (auto simp: applied_upto_def page_at_def journal_pending_def min_def take_all_iff)
  then show ?case using k pages unfolding journal_inv_def by auto
next
  case (commit_page i s now db' rows)
  then obtain k where k: "applied_upto env (sys_admitted s) k (sys_db s)"
    and pages: "\<forall>es \<in> set (sys_readers s). \<exists>p \<le> k. page_at (sys_admitted s) p es" unfolding journal_inv_def by blast
  then obtain p where "p \<le> k" "page_at (sys_admitted s) p (sys_readers s ! i)" using commit_page.hyps(1) nth_mem by blast
  from apply_page_upto [OF commit_page.hyps(2) k this(2,1)] obtain k'
    where k': "applied_upto env (sys_admitted s) k' db'" "k \<le> k'" by (meson max.cobounded1)
  then have "\<exists>p \<le> k'. page_at (sys_admitted s) p []" using page_at_Nil unfolding applied_upto_def by blast
  from readers_updated [OF pages this k'(2), of i] show ?case using k' unfolding journal_inv_def by auto
next
  case (commit_entry i s e es now db' rows)
  then obtain k where k: "applied_upto env (sys_admitted s) k (sys_db s)"
    and pages: "\<forall>es \<in> set (sys_readers s). \<exists>p \<le> k. page_at (sys_admitted s) p es" unfolding journal_inv_def by blast
  have "e # es \<in> set (sys_readers s)" using commit_entry.hyps(1,2) by (metis nth_mem)
  then obtain p where p: "p \<le> k" "page_at (sys_admitted s) p (e # es)" using pages by blast
  then have "page_at (sys_admitted s) p [e]" by (cases "drop p (sys_admitted s)") (auto simp: page_at_def)
  then have k': "applied_upto env (sys_admitted s) (max k (Suc p)) db'"
    using apply_page_upto [OF commit_entry.hyps(3) k _ p(1)] by simp
  have "\<exists>q \<le> max k (Suc p). page_at (sys_admitted s) q es" using page_at_tail [OF p(2)] max.cobounded2 by blast
  from readers_updated [OF pages this, of i] show ?case using k' unfolding journal_inv_def by auto
next
  case (abort i s)
  then obtain k where k: "applied_upto env (sys_admitted s) k (sys_db s)"
    and pages: "\<forall>es \<in> set (sys_readers s). \<exists>p \<le> k. page_at (sys_admitted s) p es" unfolding journal_inv_def by blast
  have "\<exists>p \<le> k. page_at (sys_admitted s) p []" using k page_at_Nil unfolding applied_upto_def by blast
  from readers_updated [OF pages this, of i] show ?case using k unfolding journal_inv_def by auto
qed

lemma journal_inv_reachable: "journal_reachable env d s \<Longrightarrow> journal_inv env s"
proof (induction rule: journal_reachable.induct)
  case start
  then show ?case by (auto simp: journal_inv_def journal_init_def applied_upto_def usage_of_def ids_below_def journal_depth_def)
qed (rule journal_inv_step)

section \<open>Producers that wait for room\<close>

text \<open>
  \<open>enqueue_with_backpressure\<close> against the worker. \<open>notify_waiters\<close> of the tokio library resolves
  every \<open>Notified\<close> future created before the call, polled or not, and none created later: the epoch
  counts its calls, and a future remembers the epoch of its creation. A producer is at the head of its
  loop, admits after subscribing, waits for a drain, or has returned. The worker commits, then notifies;
  a worker that dies closes the channel.
\<close>

datatype producer =
    AtLoop string
  | Admitting string nat
  | Waiting string nat
  | Returned "core_error + unit"

record admission_system =
  as_db :: journal_db
  as_epoch :: nat
  as_acked :: nat
  as_unnotified :: nat
  as_closed :: bool
  as_producers :: "producer list"

definition notify_drained :: "nat \<Rightarrow> admission_system \<Rightarrow> admission_system" where
  "notify_drained n s =
     (if n > 0 then s \<lparr> as_acked := wrapping_add U64_MAX (as_acked s) n, as_epoch := Suc (as_epoch s) \<rparr> else s)"

definition notify_closed :: "admission_system \<Rightarrow> admission_system" where
  "notify_closed s = s \<lparr> as_epoch := Suc (as_epoch s) \<rparr>"

definition set_producer :: "nat \<Rightarrow> producer \<Rightarrow> admission_system \<Rightarrow> admission_system" where
  "set_producer i p s = s \<lparr> as_producers := (as_producers s)[i := p] \<rparr>"

inductive admission_step :: "journal_env \<Rightarrow> admission_system \<Rightarrow> admission_system \<Rightarrow> bool" for env where
  enqueue: "\<not> as_closed s \<Longrightarrow>
    admission_step env s (s \<lparr> as_producers := as_producers s @ [AtLoop payload] \<rparr>)"
| closed_at_loop: "\<lbrakk> i < length (as_producers s); as_producers s ! i = AtLoop payload; as_closed s \<rbrakk> \<Longrightarrow>
    admission_step env s (set_producer i (Returned (Inl (Internal ''usage worker is closed; record was not accepted''))) s)"
| subscribe: "\<lbrakk> i < length (as_producers s); as_producers s ! i = AtLoop payload; \<not> as_closed s \<rbrakk> \<Longrightarrow>
    admission_step env s (set_producer i (Admitting payload (as_epoch s)) s)"
| admitted: "\<lbrakk> i < length (as_producers s); as_producers s ! i = Admitting payload e;
      journal_append (as_db s) payload = (db', Inr j) \<rbrakk> \<Longrightarrow>
    admission_step env s (set_producer i (Returned (Inr ())) (s \<lparr> as_db := db' \<rparr>))"
| at_capacity: "\<lbrakk> i < length (as_producers s); as_producers s ! i = Admitting payload e;
      journal_append (as_db s) payload = (db', Inl JournalCapacityExhausted) \<rbrakk> \<Longrightarrow>
    admission_step env s (set_producer i (Waiting payload e) (s \<lparr> as_db := db' \<rparr>))"
| db_error: "\<lbrakk> i < length (as_producers s); as_producers s ! i = Admitting payload e;
      \<not> is_journal_capacity_exhausted err \<rbrakk> \<Longrightarrow>
    admission_step env s (set_producer i (Returned (Inl err)) s)"
| woken: "\<lbrakk> i < length (as_producers s); as_producers s ! i = Waiting payload e; \<not> as_closed s; e < as_epoch s \<rbrakk> \<Longrightarrow>
    admission_step env s (set_producer i (AtLoop payload) s)"
| closed_waiting: "\<lbrakk> i < length (as_producers s); as_producers s ! i = Waiting payload e; as_closed s \<rbrakk> \<Longrightarrow>
    admission_step env s (set_producer i (Returned (Inl (Internal ''usage worker closed while journal at capacity''))) s)"
| commit: "\<lbrakk> as_unnotified s = 0; page \<noteq> []; page = journal_pending (as_db s) n;
      apply_batch env now (as_db s) page = Some (Inr (db', rows)) \<rbrakk> \<Longrightarrow>
    admission_step env s (s \<lparr> as_db := db', as_unnotified := length page \<rparr>)"
| notify: "as_unnotified s > 0 \<Longrightarrow>
    admission_step env s (notify_drained (as_unnotified s) (s \<lparr> as_unnotified := 0 \<rparr>))"
| close: "admission_step env s (notify_closed (s \<lparr> as_closed := True \<rparr>))"
| die: "admission_step env s (s \<lparr> as_closed := True, as_unnotified := 0 \<rparr>)"

definition admission_init :: "journal_db \<Rightarrow> admission_system" where
  "admission_init db =
     \<lparr> as_db = db, as_epoch = 0, as_acked = 0, as_unnotified = 0, as_closed = False, as_producers = [] \<rparr>"

inductive admission_reachable :: "journal_env \<Rightarrow> journal_db \<Rightarrow> admission_system \<Rightarrow> bool" for env db where
  start: "admission_reachable env db (admission_init db)"
| step: "admission_reachable env db s \<Longrightarrow> admission_step env s s' \<Longrightarrow> admission_reachable env db s'"

text \<open>A producer asleep at the current epoch sleeps in front of a full journal, or a wakeup is due.\<close>

definition wake_due :: "admission_system \<Rightarrow> nat \<Rightarrow> bool" where
  "wake_due s e =
     (e < as_epoch s \<or> as_closed s \<or> as_unnotified s > 0 \<or> journal_depth (as_db s) \<ge> MAX_PENDING_JOBS)"

definition producer_ok :: "admission_system \<Rightarrow> producer \<Rightarrow> bool" where
  "producer_ok s p =
     (case p of Waiting _ e \<Rightarrow> e \<le> as_epoch s \<and> wake_due s e | Admitting _ e \<Rightarrow> e \<le> as_epoch s | _ \<Rightarrow> True)"

definition admission_inv :: "admission_system \<Rightarrow> bool" where
  "admission_inv s = list_all (producer_ok s) (as_producers s)"

lemma set_producer_simps [simp]:
  "as_db (set_producer i p s) = as_db s" "as_epoch (set_producer i p s) = as_epoch s"
  "as_unnotified (set_producer i p s) = as_unnotified s" "as_closed (set_producer i p s) = as_closed s"
  "as_producers (set_producer i p s) = (as_producers s)[i := p]"
  by (simp_all add: set_producer_def)

lemma append_keeps_full:
  assumes "journal_append db payload = (db', r)" and "journal_depth db \<ge> MAX_PENDING_JOBS"
  shows "journal_depth db' \<ge> MAX_PENDING_JOBS"
  using assms by (simp add: journal_append_def)

lemma append_exhausted:
  assumes "journal_append db payload = (db', Inl e)"
  shows "db' = db \<and> journal_depth db \<ge> MAX_PENDING_JOBS"
  using assms by (simp add: journal_append_def split: if_splits)

lemma same_producers_inv:
  assumes "admission_inv s" and "\<And>p. producer_ok s p \<Longrightarrow> producer_ok s' p"
    and "as_producers s' = as_producers s"
  shows "admission_inv s'"
  using assms unfolding admission_inv_def by (auto simp: list_all_iff)

lemma set_producer_inv:
  assumes "admission_inv s" and "\<And>p. producer_ok s p \<Longrightarrow> producer_ok s' p"
    and "as_producers s' = (as_producers s)[i := q]" and "producer_ok s' q"
  shows "admission_inv s'"
  using assms set_update_subset_insert [of "as_producers s" i q] unfolding admission_inv_def list_all_iff by auto

lemma set_one_producer_inv: "admission_inv s \<Longrightarrow> producer_ok s q \<Longrightarrow> admission_inv (set_producer i q s)"
  by (rule set_producer_inv) (auto simp: producer_ok_def wake_due_def split: producer.splits)

lemmas producer_defs = producer_ok_def wake_due_def notify_drained_def notify_closed_def

lemma admission_inv_step: "admission_step env s s' \<Longrightarrow> admission_inv s \<Longrightarrow> admission_inv s'"
proof (induction rule: admission_step.induct)
  case (enqueue s payload)
  then show ?case by (auto simp: admission_inv_def list_all_iff producer_defs split: producer.splits)
next
  case (admitted i s payload e db' j)
  show ?case using admitted.prems append_keeps_full [OF admitted.hyps(3)]
    by (elim set_producer_inv [where i = i and q = "Returned (Inr ())"]) (auto simp: producer_defs split: producer.splits)
next
  case (at_capacity i s payload e db')
  have "producer_ok s (Admitting payload e)"
    using at_capacity.prems at_capacity.hyps(1,2) unfolding admission_inv_def list_all_iff by (metis nth_mem)
  then show ?case using at_capacity.prems append_exhausted [OF at_capacity.hyps(3)]
    by (elim set_producer_inv [where i = i and q = "Waiting payload e"]) (auto simp: producer_defs split: producer.splits)
next
  case (commit s page n now db' rows)
  then show ?case by (elim same_producers_inv) (auto simp: producer_defs split: producer.splits)
next
  case (notify s)
  then show ?case by (elim same_producers_inv) (auto simp: producer_defs split: producer.splits)
next
  case (close s)
  then show ?case by (elim same_producers_inv) (auto simp: producer_defs split: producer.splits)
next
  case (die s)
  then show ?case by (elim same_producers_inv) (auto simp: producer_defs split: producer.splits)
qed (erule set_one_producer_inv, simp add: producer_ok_def)+

lemma admission_inv_reachable: "admission_reachable env db s \<Longrightarrow> admission_inv s"
proof (induction rule: admission_reachable.induct)
  case start
  then show ?case by (simp add: admission_inv_def admission_init_def)
qed (rule admission_inv_step)

section \<open>Group commit\<close>

text \<open>
  The leader of the admission queue takes the oldest requests of one connection, commits them as a
  group and answers each of them. \<open>fails\<close> is the error of a transaction that does not commit.
\<close>

record admission =
  ad_conn :: nat
  ad_payload :: string

definition MAX_ADMISSION_BATCH :: nat where
  "MAX_ADMISSION_BATCH = 512"

fun take_batch :: "nat \<Rightarrow> nat \<Rightarrow> admission list \<Rightarrow> admission list \<times> admission list" where
  "take_batch n c [] = ([], [])"
| "take_batch n c (x # xs) =
     (if n < MAX_ADMISSION_BATCH \<and> ad_conn x = c
      then (let (batch, rest) = take_batch (Suc n) c xs in (x # batch, rest))
      else (let (batch, rest) = take_batch n c xs in (batch, x # rest)))"

definition commit_group ::
    "(nat \<Rightarrow> string list \<Rightarrow> core_error option) \<Rightarrow> (nat \<Rightarrow> journal_db) \<Rightarrow> nat \<Rightarrow> admission list \<Rightarrow>
     (nat \<Rightarrow> journal_db) \<times> (core_error + int) list" where
  "commit_group fails dbs c batch =
     (let payloads = map ad_payload batch in
      (case fails c payloads of
         Some e \<Rightarrow> (dbs, map (\<lambda>_. Inl e) batch)
       | None \<Rightarrow> (let (db', results) = append_batch (dbs c) payloads in (dbs(c := db'), results))))"

lemma take_batch_shorter: "length (snd (take_batch n c xs)) \<le> length xs"
  by (induction n c xs rule: take_batch.induct) (auto simp: case_prod_unfold Let_def)

function leader_drain ::
    "(nat \<Rightarrow> string list \<Rightarrow> core_error option) \<Rightarrow> (nat \<Rightarrow> journal_db) \<Rightarrow> admission list \<Rightarrow>
     (nat \<Rightarrow> journal_db) \<times> (admission \<times> (core_error + int)) list" where
  "leader_drain fails dbs [] = (dbs, [])"
| "leader_drain fails dbs (first # pending) =
     (let (batch, rest) = take_batch 0 (ad_conn first) (first # pending);
          (dbs1, results) = commit_group fails dbs (ad_conn first) batch;
          (dbs2, replies) = leader_drain fails dbs1 rest
      in (dbs2, zip batch results @ replies))"
  by pat_completeness auto
termination
  by (relation "measure (\<lambda>(fails, dbs, pending). length pending)")
    (auto simp: MAX_ADMISSION_BATCH_def case_prod_unfold Let_def less_Suc_eq_le dest!: sym [of _ "snd _"] intro: take_batch_shorter)

lemma take_batch_filter:
  "take_batch n c xs = (batch, rest) \<Longrightarrow>
   list_all (\<lambda>x. ad_conn x = c) batch \<and> mset batch + mset rest = mset xs \<and>
   (\<forall>d. d \<noteq> c \<longrightarrow> filter (\<lambda>x. ad_conn x = d) rest = filter (\<lambda>x. ad_conn x = d) xs)"
  by (induction n c xs arbitrary: batch rest rule: take_batch.induct)
    (auto split: if_splits prod.splits)

lemma take_batch_full: "n \<ge> MAX_ADMISSION_BATCH \<Longrightarrow> take_batch n c xs = ([], xs)"
  by (induction xs) auto

lemma take_batch_order:
  "take_batch n c xs = (batch, rest) \<Longrightarrow>
   filter (\<lambda>x. ad_conn x = c) xs = batch @ filter (\<lambda>x. ad_conn x = c) rest"
proof (induction n c xs arbitrary: batch rest rule: take_batch.induct)
  case (2 n c x xs)
  show ?case
  proof (cases "n < MAX_ADMISSION_BATCH")
    case False
    then show ?thesis using "2.prems" take_batch_full [of n c "x # xs"] by simp
  next
    case True
    then show ?thesis using 2 by (auto split: if_splits prod.splits)
  qed
qed simp

lemma append_seq_append:
  "append_seq db (xs @ ys) =
     (let (db1, rs) = append_seq db xs; (db2, rs') = append_seq db1 ys in (db2, rs @ rs'))"
  by (induction xs arbitrary: db) (simp_all add: case_prod_unfold Let_def)

lemma append_seq_length: "length (snd (append_seq db xs)) = length xs"
  by (induction xs arbitrary: db) (simp_all add: case_prod_unfold Let_def)

lemma filter_zip_all:
  "list_all P xs \<Longrightarrow> length rs = length xs \<Longrightarrow> filter (\<lambda>(a, r). P a) (zip xs rs) = zip xs rs"
  "list_all (\<lambda>x. \<not> P x) xs \<Longrightarrow> filter (\<lambda>(a, r). P a) (zip xs rs) = []"
  by (auto simp: list_all_iff filter_id_conv filter_empty_conv dest: set_zip_leftD)

definition replies_of :: "nat \<Rightarrow> (admission \<times> 'r) list \<Rightarrow> 'r list" where
  "replies_of c replies = map snd (filter (\<lambda>(a, r). ad_conn a = c) replies)"

definition payloads_of :: "nat \<Rightarrow> admission list \<Rightarrow> string list" where
  "payloads_of c pending = map ad_payload (filter (\<lambda>a. ad_conn a = c) pending)"

lemma leader_drain_seq:
  assumes "leader_drain (\<lambda>_ _. None) dbs pending = (dbs', replies)"
  shows "(dbs' c, replies_of c replies) = append_seq (dbs c) (payloads_of c pending) \<and>
    mset (map fst replies) = mset pending"
  using assms
proof (induction "\<lambda>(_::nat) (_::string list). None :: core_error option" dbs pending arbitrary: dbs' replies rule: leader_drain.induct)
  case (1 dbs)
  then show ?case by (simp add: replies_of_def payloads_of_def)
next
  case (2 dbs first pending)
  let ?d = "ad_conn first"
  obtain batch rest where batch: "take_batch 0 ?d (first # pending) = (batch, rest)" by (cases "take_batch 0 ?d (first # pending)")
  obtain db1 results where group: "append_seq (dbs ?d) (map ad_payload batch) = (db1, results)"
    by (cases "append_seq (dbs ?d) (map ad_payload batch)")
  have commit: "commit_group (\<lambda>_ _. None) dbs ?d batch = (dbs(?d := db1), results)"
    using group by (simp add: commit_group_def append_batch_seq)
  obtain dbs2 replies2 where more: "leader_drain (\<lambda>_ _. None) (dbs(?d := db1)) rest = (dbs2, replies2)"
    by (cases "leader_drain (\<lambda>_ _. None) (dbs(?d := db1)) rest")
  have result: "dbs' = dbs2" "replies = zip batch results @ replies2"
    using "2.prems" batch commit more by simp_all
  have len: "length results = length batch" using append_seq_length [of "dbs ?d" "map ad_payload batch"] group by simp
  have IH: "(dbs2 c, replies_of c replies2) = append_seq ((dbs(?d := db1)) c) (payloads_of c rest)"
    "mset (map fst replies2) = mset rest"
    using "2.hyps" [OF batch [symmetric] refl commit [symmetric] refl more] by blast+
  note parts = take_batch_filter [OF batch] take_batch_order [OF batch]
  have "(dbs' c, replies_of c replies) = append_seq (dbs c) (payloads_of c (first # pending))"
  proof (cases "c = ?d")
    case True
    have "payloads_of c (first # pending) = map ad_payload batch @ payloads_of c rest"
      using parts(2) True unfolding payloads_of_def by (metis map_append)
    moreover have "replies_of c replies = results @ replies_of c replies2"
      using parts(1) True len unfolding result replies_of_def by (simp add: filter_zip_all)
    ultimately show ?thesis using IH(1) True group unfolding result
      by (simp add: append_seq_append case_prod_unfold Let_def) (metis fst_conv snd_conv)
  next
    case False
    have "list_all (\<lambda>x. ad_conn x \<noteq> c) batch" using parts(1) False by (auto simp: list_all_iff)
    then have "replies_of c replies = replies_of c replies2"
      unfolding result replies_of_def by (simp add: filter_zip_all)
    moreover have "payloads_of c rest = payloads_of c (first # pending)"
      unfolding payloads_of_def using parts(1) False by auto
    ultimately show ?thesis using IH(1) False result by simp
  qed
  moreover have "mset (map fst replies) = mset (first # pending)"
    unfolding result using IH(2) len parts(1) by simp
  ultimately show ?case by blast
qed

section \<open>Properties\<close>

text \<open>C22: Batching never shows: replaying the journal in pages of 256 entries per transaction, with the
  entry-by-entry fallback for a page that fails, ends with the same tables, the same published rows in the
  same order, the same count and the same first error as applying the pending entries one transaction
  each, oldest first, until one fails.\<close>

theorem replay_equals_unbatched:
  assumes "distinct (map fst (jd_journal db))"
  shows "replay_pending env now db = replay_one_by_one env now db (jd_journal db)"
  using assms by (rule replay_batched_unbatched)

text \<open>C21: Every entry a producer was told is admitted is applied exactly once and in the order of
  admission, under every interleaving of producers, several replayers with stale pages, failures and
  crashes: some prefix of the admitted entries is applied, the usage rows are exactly the records of that
  prefix, the journal holds exactly the rest, ids increase, and the journal stays within its bound.\<close>

theorem journal_exactly_once:
  assumes "journal_reachable env d s"
  shows "\<exists>k \<le> length (sys_admitted s).
    jd_journal (sys_db s) = drop k (sys_admitted s) \<and>
    map ur_input (ut_usage (sys_db s)) = usage_of env (take k (sys_admitted s)) \<and>
    sorted_wrt (<) (map fst (sys_admitted s)) \<and> journal_depth (sys_db s) \<le> MAX_PENDING_JOBS"
  using journal_inv_reachable [OF assms] unfolding journal_inv_def applied_upto_def ids_below_def by blast

text \<open>C23: A producer blocked on a full journal is never forgotten: in every reachable state a waiting
  producer either still faces a full journal, or can leave its wait without any further drain (the
  worker's notification is due, has been given, or the channel is closed).\<close>

theorem admission_no_lost_wakeup:
  assumes "admission_reachable env db s" and "i < length (as_producers s)" and "as_producers s ! i = Waiting payload e"
  shows "journal_depth (as_db s) \<ge> MAX_PENDING_JOBS \<or>
    (\<exists>s'. (admission_step env)\<^sup>*\<^sup>* s s' \<and> as_db s' = as_db s \<and>
       (as_producers s' ! i = AtLoop payload \<or> (\<exists>err. as_producers s' ! i = Returned (Inl err))))"
proof -
  have ok: "e \<le> as_epoch s" "wake_due s e"
    using admission_inv_reachable [OF assms(1)] assms(2,3) nth_mem [OF assms(2)]
    unfolding admission_inv_def list_all_iff producer_ok_def by fastforce+
  have wake: "\<exists>s'. admission_step env t s' \<and> as_db s' = as_db t \<and>
      (as_producers s' ! i = AtLoop payload \<or> (\<exists>err. as_producers s' ! i = Returned (Inl err)))"
    if t: "as_producers t = as_producers s" "e < as_epoch t \<or> as_closed t" for t
    using admission_step.woken [of i t payload e env] admission_step.closed_waiting [of i t payload e env] t assms(2,3)
    by (cases "as_closed t") (force simp: set_producer_def)+
  consider "e < as_epoch s \<or> as_closed s" | "as_unnotified s > 0" | "journal_depth (as_db s) \<ge> MAX_PENDING_JOBS"
    using ok(2) unfolding wake_due_def by metis
  then show ?thesis
  proof cases
    case 1
    then show ?thesis using wake [of s] by blast
  next
    case 2
    let ?t = "notify_drained (as_unnotified s) (s \<lparr> as_unnotified := 0 \<rparr>)"
    have "as_producers ?t = as_producers s" "e < as_epoch ?t" "as_db ?t = as_db s"
      using 2 ok(1) by (simp_all add: notify_drained_def)
    then show ?thesis using admission_step.notify [OF 2] wake [of ?t] by (metis converse_rtranclp_into_rtranclp r_into_rtranclp)
  qed simp
qed

text \<open>Group commit is invisible to producers: for every connection, the leader that drains the
  admission queue leaves the journal, and answers the producers of that connection, exactly as appending
  their payloads one transaction each in arrival order would; and every queued producer is answered once.\<close>

theorem group_commit_sequential:
  assumes "leader_drain (\<lambda>_ _. None) dbs pending = (dbs', replies)"
  shows "(dbs' c, replies_of c replies) = append_seq (dbs c) (payloads_of c pending) \<and>
    mset (map fst replies) = mset pending"
  using assms by (rule leader_drain_seq)

section \<open>Witnesses\<close>

definition demo_journal_env :: journal_env where
  "demo_journal_env = \<lparr> je_encode = (\<lambda>_. ''u''),
     je_decode = (\<lambda>s. if s = ''u'' then Inr (RecordUsage demo_input) else if s = ''w'' then Inr (MarkClientResponse ''r'' 1 5) else Inl ''bad''),
     je_usage = \<lparr> ue_redact_secrets = (\<lambda>s. s), ue_insert_error = (\<lambda>_ _. None), ue_price_table = [] \<rparr>, je_add_secs = (\<lambda>a b. Some (a + b)) \<rparr>"

definition demo_tables :: database where
  "demo_tables = \<lparr> db_providers = [], db_models = [], db_accounts = [], db_combos = [], db_targets = [], db_cooldowns = [],
     db_next_target_id = 1 \<rparr>"

definition demo_journal :: journal_db where
  "demo_journal = \<lparr> ut_usage = [], ut_next_id = 1, ut_api_keys = [], ut_prices = [], jd_journal = [(4, ''w''), (7, ''x'')], jd_next_id = 8, jd_routing = demo_tables \<rparr>"

theorem replay_equals_unbatched_witness:
  "distinct (map fst (jd_journal demo_journal)) \<and>
   map_option (\<lambda>r. (rr_drained r, jd_journal (rr_db r), rr_outcome r)) (replay_pending demo_journal_env 0 demo_journal) =
     Some (1, [(7, ''x'')], Some (Internal ''invalid usage journal entry 7: bad''))"
proof -
  have "distinct (map fst (jd_journal demo_journal))" by (simp add: demo_journal_def)
  then show ?thesis unfolding replay_equals_unbatched [OF \<open>distinct _\<close>]
    by code_simp
qed

definition demo_admitted :: journal_system where
  "demo_admitted = \<lparr> sys_db = \<lparr> ut_usage = [], ut_next_id = 1, ut_api_keys = [], ut_prices = [], jd_journal = [(1, ''u'')], jd_next_id = 2, jd_routing = demo_tables \<rparr>,
     sys_readers = [], sys_admitted = [(1, ''u'')] \<rparr>"

lemma demo_admitted_reachable: "journal_reachable demo_journal_env demo_tables demo_admitted"
proof -
  have "append_batch (sys_db (journal_init demo_tables)) [''u''] = (sys_db demo_admitted, [Inr 1])"
    by (simp add: append_batch_seq journal_append_def journal_depth_def MAX_PENDING_JOBS_def insert_entry_def
        journal_init_def demo_admitted_def)
  from journal_step.admit [OF this, of demo_journal_env]
  have "journal_step demo_journal_env (journal_init demo_tables) demo_admitted"
    by (simp add: journal_init_def demo_admitted_def)
  then show ?thesis using journal_reachable.start journal_reachable.step by blast
qed

theorem journal_exactly_once_witness:
  "\<exists>k \<le> 1. jd_journal (sys_db demo_admitted) = drop k [(1, ''u'')] \<and>
     map ur_input (ut_usage (sys_db demo_admitted)) = usage_of demo_journal_env (take k [(1, ''u'')])"
  using journal_exactly_once [OF demo_admitted_reachable] by (simp add: demo_admitted_def) metis

text \<open>A full journal and one producer that found it full.\<close>

definition demo_full :: journal_db where
  "demo_full = demo_journal \<lparr> jd_journal := replicate MAX_PENDING_JOBS (1, ''u'') \<rparr>"

definition demo_waiting :: admission_system where
  "demo_waiting = (admission_init demo_full) \<lparr> as_producers := [Waiting ''u'' 0] \<rparr>"

lemma demo_waiting_reachable: "admission_reachable demo_journal_env demo_full demo_waiting"
proof -
  let ?i = "admission_init demo_full"
  have full: "journal_append demo_full ''u'' = (demo_full, Inl JournalCapacityExhausted)"
    by (simp add: journal_append_def journal_depth_def demo_full_def)
  have "admission_step demo_journal_env ?i (?i \<lparr> as_producers := [AtLoop ''u''] \<rparr>)"
    using admission_step.enqueue [of ?i demo_journal_env "''u''"] by (simp add: admission_init_def)
  moreover have "admission_step demo_journal_env (?i \<lparr> as_producers := [AtLoop ''u''] \<rparr>) (?i \<lparr> as_producers := [Admitting ''u'' 0] \<rparr>)"
    using admission_step.subscribe [of 0 "?i \<lparr> as_producers := [AtLoop ''u''] \<rparr>" "''u''" demo_journal_env]
    by (simp add: admission_init_def set_producer_def)
  moreover have "admission_step demo_journal_env (?i \<lparr> as_producers := [Admitting ''u'' 0] \<rparr>) demo_waiting"
    using admission_step.at_capacity [of 0 "?i \<lparr> as_producers := [Admitting ''u'' 0] \<rparr>" "''u''" 0 demo_full demo_journal_env] full
    by (simp add: admission_init_def set_producer_def demo_waiting_def)
  ultimately show ?thesis using admission_reachable.start admission_reachable.step by metis
qed

theorem admission_no_lost_wakeup_witness:
  "as_producers demo_waiting ! 0 = Waiting ''u'' 0 \<and>
   (journal_depth (as_db demo_waiting) \<ge> MAX_PENDING_JOBS \<or>
    (\<exists>s'. (admission_step demo_journal_env)\<^sup>*\<^sup>* demo_waiting s' \<and> as_db s' = as_db demo_waiting \<and>
       (as_producers s' ! 0 = AtLoop ''u'' \<or> (\<exists>err. as_producers s' ! 0 = Returned (Inl err)))))"
proof -
  have "0 < length (as_producers demo_waiting)" "as_producers demo_waiting ! 0 = Waiting ''u'' 0"
    by (simp_all add: demo_waiting_def)
  then show ?thesis using admission_no_lost_wakeup [OF demo_waiting_reachable] by blast
qed

definition demo_queue :: "admission list" where
  "demo_queue = [\<lparr> ad_conn = 0, ad_payload = ''a'' \<rparr>, \<lparr> ad_conn = 1, ad_payload = ''b'' \<rparr>, \<lparr> ad_conn = 0, ad_payload = ''c'' \<rparr>]"

theorem group_commit_sequential_witness:
  "fst (append_seq demo_journal (payloads_of 0 demo_queue)) = fst (leader_drain (\<lambda>_ _. None) (\<lambda>_. demo_journal) demo_queue) 0 \<and>
   map fst (jd_journal (fst (append_seq demo_journal (payloads_of 0 demo_queue)))) = [4, 7, 8, 9]"
proof -
  obtain dbs' replies where run: "leader_drain (\<lambda>_ _. None) (\<lambda>_. demo_journal) demo_queue = (dbs', replies)"
    by (cases "leader_drain (\<lambda>_ _. None) (\<lambda>_. demo_journal) demo_queue")
  then show ?thesis using group_commit_sequential [OF run, of 0]
    by (auto simp: demo_queue_def payloads_of_def journal_append_def journal_depth_def MAX_PENDING_JOBS_def insert_entry_def
        demo_journal_def dest!: arg_cong [of _ _ fst])
qed

end
