(* ===== verification/Pii_Validators.thy ===== *)
theory Pii_Validators
  imports Model_Names Utf8
begin

text \<open>
  Checks of the PII engine (openproxy-pipeline/src/pii/engine/validators.rs, protected.rs and
  stopwords.rs): check digits of cards, IBANs and national ids, what counts as a secret value, and the
  ranges of a text that redaction leaves alone. Card and id texts are byte lists; the panic of a slice
  inside a character is \<open>None\<close>.
\<close>

section \<open>Ranges\<close>

type_synonym range = "nat \<times> nat"

fun merge_into :: "range list \<Rightarrow> range list \<Rightarrow> range list" where
  "merge_into merged [] = rev merged"
| "merge_into merged (r # rs) =
     (case merged of
        (s, e) # ms \<Rightarrow>
          (if fst r \<le> e then merge_into ((s, max e (snd r)) # ms) rs else merge_into (r # merged) rs)
      | [] \<Rightarrow> merge_into [r] rs)"

definition cmp_start :: "range \<Rightarrow> range \<Rightarrow> ordering" where
  "cmp_start a b = cmp_nat (fst a) (fst b)"

definition merge_ranges :: "range list \<Rightarrow> range list" where
  "merge_ranges ranges = (if length ranges \<le> 1 then ranges else merge_into [] (sort_by cmp_start ranges))"

text \<open>\<open>partition_point\<close> on a list that the predicate partitions is the length of the part where it holds.\<close>

definition is_in_protected_range :: "range list \<Rightarrow> nat \<Rightarrow> nat \<Rightarrow> bool" where
  "is_in_protected_range ranges start end' =
     (let idx = length (takeWhile (\<lambda>r. snd r \<le> start) ranges)
      in idx < length ranges \<and> start < snd (ranges ! idx) \<and> end' > fst (ranges ! idx))"

section \<open>Words\<close>

definition STOPWORDS :: "string list" where
  "STOPWORDS =
    [''about'', ''above'', ''action'', ''after'', ''again'', ''against'', ''agent'', ''all'', ''almost'',
     ''already'', ''also'', ''alter'', ''although'', ''always'', ''am'', ''an'', ''and'', ''android'', ''another'',
     ''anthropic'', ''any'', ''api'', ''april'', ''are'', ''array'', ''as'', ''at'', ''august'', ''aws'', ''azure'',
     ''bad'', ''be'', ''because'', ''been'', ''before'', ''below'', ''best'', ''between'', ''big'', ''boolean'',
     ''both'', ''box'', ''break'', ''but'', ''by'', ''can'', ''case'', ''class'', ''claude'', ''client'',
     ''cloudflare'', ''comment'', ''comments'', ''config'', ''const'', ''continue'', ''could'', ''create'',
     ''cross'', ''css'', ''data'', ''database'', ''dear'', ''debug'', ''december'', ''default'', ''delegation'',
     ''delete'', ''delivery'', ''did'', ''different'', ''directive'', ''directives'', ''directory'', ''dns'', ''do'',
     ''docker'', ''does'', ''drop'', ''during'', ''each'', ''early'', ''earth'', ''either'', ''else'', ''enum'',
     ''error'', ''even'', ''ever'', ''every'', ''false'', ''february'', ''few'', ''file'', ''final'', ''first'',
     ''friday'', ''from'', ''full'', ''function'', ''gemini'', ''git'', ''global'', ''good'', ''google'', ''gpt'',
     ''grammar'', ''great'', ''grounding'', ''group'', ''had'', ''has'', ''have'', ''he'', ''hello'', ''her'',
     ''here'', ''hey'', ''hi'', ''high'', ''him'', ''his'', ''how'', ''html'', ''http'', ''https'', ''if'', ''impl'',
     ''in'', ''index'', ''info'', ''inner'', ''insert'', ''intent'', ''interception'', ''interface'', ''into'',
     ''ios'', ''ip'', ''is'', ''it'', ''item'', ''its'', ''january'', ''java'', ''javascript'', ''join'', ''json'',
     ''july'', ''june'', ''just'', ''key'', ''kotlin'', ''kubernetes'', ''large'', ''last'', ''late'', ''left'',
     ''let'', ''limit'', ''linux'', ''list'', ''little'', ''llama'', ''local'', ''long'', ''low'', ''macos'',
     ''many'', ''map'', ''march'', ''mariadb'', ''match'', ''may'', ''me'', ''memory'', ''message'', ''might'',
     ''mistral'', ''model'', ''monday'', ''mongodb'', ''more'', ''most'', ''much'', ''must'', ''my'', ''mysql'',
     ''name'', ''neither'', ''never'', ''new'', ''next'', ''none'', ''nor'', ''not'', ''november'', ''null'',
     ''number'', ''object'', ''october'', ''offset'', ''often'', ''old'', ''on'', ''once'', ''only'', ''openai'',
     ''or'', ''order'', ''other'', ''our'', ''outer'', ''over'', ''path'', ''please'', ''policy'', ''postgres'',
     ''postgresql'', ''private'', ''prompt'', ''protocol'', ''public'', ''python'', ''quite'', ''really'', ''redis'',
     ''regards'', ''request'', ''response'', ''rest'', ''result'', ''return'', ''right'', ''ruby'', ''rule'',
     ''rules'', ''rust'', ''same'', ''sandbox'', ''saturday'', ''schema'', ''security'', ''select'', ''september'',
     ''server'', ''shall'', ''she'', ''short'', ''should'', ''since'', ''sincerely'', ''small'', ''so'', ''society'',
     ''some'', ''sometimes'', ''sql'', ''sqlite'', ''static'', ''status'', ''still'', ''string'', ''struct'',
     ''such'', ''sunday'', ''swift'', ''switch'', ''system'', ''table'', ''task'', ''tcp'', ''thanks'', ''that'',
     ''the'', ''their'', ''them'', ''then'', ''there'', ''these'', ''they'', ''this'', ''those'', ''through'',
     ''thursday'', ''to'', ''trace'', ''trait'', ''true'', ''truth'', ''tuesday'', ''twice'', ''type'',
     ''typescript'', ''udp'', ''under'', ''union'', ''update'', ''uri'', ''url'', ''us'', ''user'', ''usually'',
     ''value'', ''var'', ''verification'', ''very'', ''view'', ''warning'', ''was'', ''we'', ''wednesday'',
     ''welcome'', ''were'', ''what'', ''when'', ''where'', ''which'', ''while'', ''who'', ''why'', ''will'',
     ''windows'', ''with'', ''within'', ''without'', ''workspace'', ''world'', ''worst'', ''would'', ''xml'',
     ''yet'', ''your'']"

text \<open>The table is sorted, and the binary search on it decides membership.\<close>

definition is_stopword :: "string \<Rightarrow> bool" where
  "is_stopword word = (to_ascii_lowercase word \<in> set STOPWORDS)"

definition ends_with :: "string \<Rightarrow> string \<Rightarrow> bool" where
  "ends_with s suf = suffix suf s"

definition is_alnum :: "char \<Rightarrow> bool" where
  "is_alnum c = (let n = of_char c :: nat in (48 \<le> n \<and> n \<le> 57) \<or> (65 \<le> n \<and> n \<le> 90) \<or> (97 \<le> n \<and> n \<le> 122))"

definition is_alpha :: "char \<Rightarrow> bool" where
  "is_alpha c = (let n = of_char c :: nat in (65 \<le> n \<and> n \<le> 90) \<or> (97 \<le> n \<and> n \<le> 122))"

definition RESERVED_VALUES :: "string list" where
  "RESERVED_VALUES =
    [''true'', ''false'', ''null'', ''none'', ''default'', ''undefined'', ''yes'', ''no'', ''enabled'', ''disabled'',
     ''optional'', ''required'', ''str'', ''int'', ''bool'', ''float'', ''bytes'', ''list'', ''dict'', ''set'',
     ''tuple'', ''any'', ''object'', ''string'', ''number'', ''boolean'', ''array'', ''char'', ''void'', ''unknown'',
     ''never'', ''symbol'',
     [CHR 0x63, CHR 0xC3, CHR 0xA1, CHR 0x6D, CHR 0x62, CHR 0x69, CHR 0x61, CHR 0x6C, CHR 0x6F], ''cambialo'',
     ''cambiar'', ''change'', ''changeme'', ''change_me'', ''change-me'', ''example'', ''ejemplo'', ''sample'',
     ''template'', ''placeholder'', ''secret'', ''password'', ''pass'',
     [CHR 0x63, CHR 0x6F, CHR 0x6E, CHR 0x74, CHR 0x72, CHR 0x61, CHR 0x73, CHR 0x65, CHR 0xC3, CHR 0xB1, CHR 0x61],
     ''contrasena'', ''clave'']"

definition wrapped_in :: "string \<Rightarrow> string \<Rightarrow> string \<Rightarrow> bool" where
  "wrapped_in a b v = (starts_with v a \<and> ends_with v b)"

definition is_shell_var :: "string \<Rightarrow> bool" where
  "is_shell_var v =
     (starts_with v ''$'' \<and>
      (let stripped = drop 1 v; unescaped = (if starts_with stripped ''$'' then drop 1 stripped else stripped)
       in unescaped \<noteq> [] \<and> list_all (\<lambda>c. is_alnum c \<or> c = CHR ''_'') unescaped))"

definition is_valid_secret_value :: "string \<Rightarrow> string \<Rightarrow> bool" where
  "is_valid_secret_value key v =
     (let lower_key = to_ascii_lowercase key; lower_val = to_ascii_lowercase v in
      if list_ex (ends_with lower_key) [''_user'', ''_username'', ''_name'', ''_file'', ''_path'', ''_url''] then False
      else if wrapped_in ''<'' ''>'' v then False
      else if wrapped_in ''{'' ''}'' v \<or> wrapped_in ''${'' ''}'' v \<or> wrapped_in ''{{'' ''}}'' v \<or> wrapped_in ''%'' ''%'' v \<or>
              wrapped_in ''['' '']'' v \<or> wrapped_in ''('' '')'' v \<or> CHR ''{'' \<in> set v \<or> CHR ''}'' \<in> set v \<or> CHR 0x5C \<in> set v then False
      else if starts_with v ''${'' then False
      else if is_shell_var v then False
      else if is_stopword lower_val then False
      else if lower_val \<in> set RESERVED_VALUES then False
      else if starts_with v ''/'' \<or> starts_with v ''./'' then False
      else if (case rsplit_once ''.'' v of
                 Some (_, ext) \<Rightarrow> to_ascii_lowercase ext \<in> set [''txt'', ''json'', ''yml'', ''yaml'', ''conf'', ''toml'', ''log'', ''sh'']
               | None \<Rightarrow> False) then False
      else if key \<noteq> ''-p_sshpass'' \<and> length v < 10 \<and> list_all is_digit v then False
      else True)"

section \<open>Check digits\<close>

definition ascii_upper :: "char \<Rightarrow> char" where
  "ascii_upper c = (let n = of_char c :: nat in if 97 \<le> n \<and> n \<le> 122 then char_of (n - 32) else c)"

definition is_valid_spanish_id :: "string \<Rightarrow> bool option" where
  "is_valid_spanish_id s =
     (if length s \<noteq> 9 then Some False
      else
        (let c0 = hd s;
             middle = (\<lambda>d. if is_char_boundary s 1 \<and> is_char_boundary s 8 then Some (Some (d # take 7 (drop 1 s))) else None);
             num_str = (if c0 = CHR ''X'' \<or> c0 = CHR ''x'' then middle (CHR ''0'')
                        else if c0 = CHR ''Y'' \<or> c0 = CHR ''y'' then middle (CHR ''1'')
                        else if c0 = CHR ''Z'' \<or> c0 = CHR ''z'' then middle (CHR ''2'')
                        else if is_digit c0 then (if is_char_boundary s 8 then Some (Some (take 8 s)) else None)
                        else Some None)
         in (case num_str of
               None \<Rightarrow> None
             | Some None \<Rightarrow> Some False
             | Some (Some ds) \<Rightarrow>
                 (case parse_unsigned U64_MAX ds of
                    None \<Rightarrow> Some False
                  | Some num \<Rightarrow> Some (ascii_upper (s ! 8) = ''TRWAGMYFPDXBNJZSQVHLCKE'' ! (num mod 23))))))"

fun rut_sum :: "string \<Rightarrow> nat \<Rightarrow> nat \<Rightarrow> nat option" where
  "rut_sum [] multiplier acc = Some acc"
| "rut_sum (c # cs) multiplier acc =
     (case digit_val c of
        None \<Rightarrow> None
      | Some d \<Rightarrow> rut_sum cs (if multiplier = 7 then 2 else multiplier + 1) (acc + d * multiplier))"

definition is_valid_chilean_rut :: "string \<Rightarrow> char \<Rightarrow> bool" where
  "is_valid_chilean_rut digits_str verifier =
     (if \<not> (7 \<le> length digits_str \<and> length digits_str \<le> 8) then False
      else
        (case rut_sum (rev digits_str) 2 0 of
           None \<Rightarrow> False
         | Some acc \<Rightarrow>
             (let remainder = 11 - acc mod 11;
                  expected = (if remainder = 11 then CHR ''0'' else if remainder = 10 then CHR ''K'' else char_of (48 + remainder))
              in ascii_upper verifier = expected)))"

definition is_valid_ssn :: "string \<Rightarrow> bool" where
  "is_valid_ssn s =
     (if length s \<noteq> 11 then False
      else
        (case split_char (CHR ''-'') s of
           [area_str, group_str, serial_str] \<Rightarrow>
             (case (parse_unsigned U16_MAX area_str, parse_unsigned U16_MAX group_str, parse_unsigned U16_MAX serial_str) of
                (Some area, Some grp, Some serial) \<Rightarrow>
                  \<not> (area = 0 \<or> area = 666 \<or> area \<ge> 900) \<and> grp \<noteq> 0 \<and> serial \<noteq> 0
              | _ \<Rightarrow> False)
         | _ \<Rightarrow> False))"

fun iban_remainder :: "nat \<Rightarrow> string \<Rightarrow> nat option" where
  "iban_remainder r [] = Some r"
| "iban_remainder r (b # bs) =
     (case digit_val b of
        Some d \<Rightarrow> iban_remainder ((r * 10 + d) mod 97) bs
      | None \<Rightarrow>
          (if is_alpha b then iban_remainder ((r * 100 + (of_char (ascii_upper b) - 65 + 10)) mod 97) bs else None))"

definition is_valid_iban :: "string \<Rightarrow> bool" where
  "is_valid_iban iban =
     (if \<not> (15 \<le> length iban \<and> length iban \<le> 34) then False
      else if \<not> is_alpha (iban ! 0) \<or> \<not> is_alpha (iban ! 1) then False
      else if \<not> is_digit (iban ! 2) \<or> \<not> is_digit (iban ! 3) then False
      else iban_remainder 0 (drop 4 iban @ take 4 iban) = Some 1)"

text \<open>The value of the first digits; a byte below \<open>0\<close> wraps in its \<open>u8\<close>.\<close>

definition byte_digit :: "char \<Rightarrow> nat" where
  "byte_digit c = (of_char c + 256 - 48) mod 256"

definition prefix_value :: "nat \<Rightarrow> string \<Rightarrow> nat" where
  "prefix_value n d = foldl (\<lambda>v c. v * 10 + byte_digit c) 0 (take n d)"

definition has_card_iin_prefix :: "string \<Rightarrow> bool" where
  "has_card_iin_prefix d =
     (if d = [] then False
      else if hd d = CHR ''4'' then True
      else
        (length d \<ge> 2 \<and> (let p2 = prefix_value 2 d in (51 \<le> p2 \<and> p2 \<le> 55) \<or> p2 \<in> {34, 37, 36, 38, 65})) \<or>
        (length d \<ge> 3 \<and> (let p3 = prefix_value 3 d in (300 \<le> p3 \<and> p3 \<le> 305) \<or> (644 \<le> p3 \<and> p3 \<le> 649))) \<or>
        (length d \<ge> 4 \<and> (let p4 = prefix_value 4 d in (2221 \<le> p4 \<and> p4 \<le> 2720) \<or> p4 = 6011 \<or> (3528 \<le> p4 \<and> p4 \<le> 3589))))"

definition luhn_double :: "nat \<Rightarrow> nat" where
  "luhn_double d = (if d * 2 > 9 then d * 2 - 9 else d * 2)"

fun luhn_sum :: "string \<Rightarrow> bool \<Rightarrow> nat \<Rightarrow> nat option" where
  "luhn_sum [] alternate acc = Some acc"
| "luhn_sum (c # cs) alternate acc =
     (case digit_val c of
        None \<Rightarrow> None
      | Some d \<Rightarrow> luhn_sum cs (\<not> alternate) (acc + (if alternate then luhn_double d else d)))"

definition luhn_check :: "string \<Rightarrow> bool" where
  "luhn_check digits_only =
     (if \<not> (13 \<le> length digits_only \<and> length digits_only \<le> 19) then False
      else if list_all (\<lambda>c. c = CHR ''0'') digits_only then False
      else if \<not> has_card_iin_prefix digits_only then False
      else (case luhn_sum (rev digits_only) False 0 of None \<Rightarrow> False | Some acc \<Rightarrow> acc mod 10 = 0))"

section \<open>Protected ranges\<close>

definition overlaps :: "nat \<Rightarrow> nat \<Rightarrow> range \<Rightarrow> bool" where
  "overlaps start end' r = (fst r < end' \<and> start < snd r)"

definition proper :: "range list \<Rightarrow> bool" where
  "proper rs = list_all (\<lambda>r. fst r \<le> snd r) rs"

definition separated :: "range list \<Rightarrow> bool" where
  "separated rs = sorted_wrt (\<lambda>a b. snd a < fst b) rs"

lemma overlaps_merge:
  assumes "s1 \<le> s2" "s2 \<le> e1" "start < end'"
  shows "overlaps start end' (s1, max e1 e2) \<longleftrightarrow> overlaps start end' (s1, e1) \<or> overlaps start end' (s2, e2)"
  using assms by (auto simp: overlaps_def)

text \<open>The merged part is kept in reverse: its head is the last range.\<close>

lemma merge_into_spec:
  assumes "proper rs" "sorted_wrt (\<lambda>a b. fst a \<le> fst b) (rev merged @ rs)" "proper merged" "separated (rev merged)" "start < end'"
  shows "separated (merge_into merged rs) \<and> proper (merge_into merged rs) \<and>
    (list_ex (overlaps start end') (merge_into merged rs) \<longleftrightarrow> list_ex (overlaps start end') (merged @ rs))"
  using assms(1-4)
proof (induction merged rs rule: merge_into.induct)
  case (1 merged)
  then show ?case by (simp add: proper_def list_all_iff list_ex_iff)
next
  case (2 merged r rs)
  show ?case
  proof (cases merged)
    case Nil
    then show ?thesis using 2 by (simp add: proper_def separated_def)
  next
    case (Cons m ms)
    obtain s e where m: "m = (s, e)" by (cases m)
    have start: "s \<le> fst r" using 2 Cons m by (auto simp: sorted_wrt_append)
    show ?thesis
    proof (cases "fst r \<le> e")
      case True
      have "separated (rev ((s, max e (snd r)) # ms))" "proper ((s, max e (snd r)) # ms)" "proper rs"
        using 2 Cons m by (auto simp: separated_def proper_def sorted_wrt_append)
      moreover have "sorted_wrt (\<lambda>a b. fst a \<le> fst b) (rev ((s, max e (snd r)) # ms) @ rs)"
        using 2 Cons m start by (auto simp: sorted_wrt_append)
      ultimately have "separated (merge_into ((s, max e (snd r)) # ms) rs) \<and> proper (merge_into ((s, max e (snd r)) # ms) rs) \<and>
          (list_ex (overlaps start end') (merge_into ((s, max e (snd r)) # ms) rs) \<longleftrightarrow>
           list_ex (overlaps start end') (((s, max e (snd r)) # ms) @ rs))"
        using "2.IH"(2) [OF Cons m [symmetric] True] by blast
      then show ?thesis using Cons m True overlaps_merge [OF start True assms(5), of "snd r"] by auto
    next
      case False
      have "proper rs" "proper (r # merged)" using 2 by (auto simp: proper_def)
      moreover have "separated (rev (r # merged))"
      proof -
        have "snd x < fst r" if "x \<in> set merged" for x
        proof (cases "x = m")
          case True
          then show ?thesis using False m by simp
        next
          case False
          then have "snd x < s" using that 2 Cons m by (auto simp: separated_def sorted_wrt_append)
          then show ?thesis using start by simp
        qed
        then show ?thesis using 2 by (auto simp: separated_def sorted_wrt_append)
      qed
      moreover have "sorted_wrt (\<lambda>a b. fst a \<le> fst b) (rev (r # merged) @ rs)" using 2 by simp
      ultimately show ?thesis using "2.IH"(3) [OF Cons m [symmetric] False] Cons m False by auto
    qed
  qed
qed

interpretation start_order: sort_comparator cmp_start
  by unfold_locales (auto simp: cmp_start_def cmp_nat_def split: if_splits)

lemma sorted_starts: "sorted_wrt (\<lambda>a b. fst a \<le> fst b) (sort_by cmp_start rs)"
proof -
  have "sorted_wrt (\<lambda>a b. cmp_start a b \<noteq> Greater) (sort_by cmp_start rs)" by (rule start_order.sort_by_sorted)
  then show ?thesis by (rule sorted_wrt_mono_rel [rotated]) (auto simp: cmp_start_def cmp_nat_def split: if_splits)
qed

lemma merge_ranges_spec:
  assumes "proper rs" "start < end'"
  shows "separated (merge_ranges rs) \<and> proper (merge_ranges rs) \<and>
    (list_ex (overlaps start end') (merge_ranges rs) \<longleftrightarrow> list_ex (overlaps start end') rs)"
proof (cases "length rs \<le> 1")
  case True
  then show ?thesis using assms by (cases rs) (auto simp: merge_ranges_def separated_def)
next
  case False
  have "proper (sort_by cmp_start rs)" using assms(1) by (simp add: proper_def list_all_iff)
  then show ?thesis using merge_into_spec [of "sort_by cmp_start rs" "[]"] sorted_starts [of rs] False assms(2)
    by (simp add: merge_ranges_def proper_def separated_def list_ex_iff)
qed

lemma in_protected_separated:
  assumes "separated rs" "proper rs"
  shows "is_in_protected_range rs start end' \<longleftrightarrow> list_ex (overlaps start end') rs"
  using assms
proof (induction rs)
  case Nil
  then show ?case by (simp add: is_in_protected_range_def)
next
  case (Cons r rs)
  show ?case
  proof (cases "snd r \<le> start")
    case True
    then have "is_in_protected_range (r # rs) start end' = is_in_protected_range rs start end'"
      by (simp add: is_in_protected_range_def Let_def)
    then show ?thesis using Cons True by (auto simp: overlaps_def separated_def proper_def)
  next
    case False
    have "fst r < fst x" if "x \<in> set rs" for x
      using that Cons.prems by (force simp: separated_def proper_def)
    then have "list_ex (overlaps start end') (r # rs) \<longleftrightarrow> overlaps start end' r"
      using False by (force simp: overlaps_def list_ex_iff)
    moreover have "is_in_protected_range (r # rs) start end' \<longleftrightarrow> overlaps start end' r"
      using False by (auto simp: is_in_protected_range_def overlaps_def)
    ultimately show ?thesis by simp
  qed
qed

lemma protected_exact:
  assumes "list_all (\<lambda>r. fst r \<le> snd r) ranges" and "start < end'"
  shows "is_in_protected_range (merge_ranges ranges) start end' \<longleftrightarrow>
    list_ex (\<lambda>r. fst r < end' \<and> start < snd r) ranges"
  using merge_ranges_spec [of ranges start end'] in_protected_separated [of "merge_ranges ranges"] assms
  unfolding proper_def overlaps_def by simp

text \<open>The protection test is exact: on the merged ranges, the binary search answers that a span is
  protected if and only if the span overlaps one of the ranges that were found, however they overlap,
  touch or nest.\<close>

theorem protected_ranges_exact:
  assumes "list_all (\<lambda>r. fst r \<le> snd r) ranges" and "start < end'"
  shows "is_in_protected_range (merge_ranges ranges) start end' \<longleftrightarrow>
    list_ex (\<lambda>r. fst r < end' \<and> start < snd r) ranges"
  using assms by (rule protected_exact)

theorem protected_ranges_exact_witness:
  "is_in_protected_range (merge_ranges [(10, 20), (3, 12), (30, 31)]) 15 16"
  using protected_ranges_exact [of "[(10, 20), (3, 12), (30, 31)]" 15 16] by simp

end
