(* ===== verification/Pii_Session.thy ===== *)
theory Pii_Session
  imports Pii_Validators
begin

text \<open>
  The request-scoped map between personal data and its placeholders
  (openproxy-pipeline/src/pii/session.rs): seeding of the counters from a text, creation of a placeholder
  for a value, with its collision loops, and the aliases of person names. A loop that does not end is
  \<open>None\<close>. Whether a text has an upper-case letter is the standard library's Unicode table, the parameter
  \<open>has_upper\<close>. Iterating the forward map takes its entries in the order of the list.
\<close>

section \<open>State\<close>

datatype pii_entity = PiiEmail | PiiPhone | PiiIp | PiiCreditCard | PiiSecret | PiiPerson

definition PII_ALL :: "pii_entity list" where
  "PII_ALL = [PiiEmail, PiiPhone, PiiIp, PiiCreditCard, PiiSecret, PiiPerson]"

fun placeholder_prefix :: "pii_entity \<Rightarrow> string" where
  "placeholder_prefix PiiEmail = ''EMAIL''"
| "placeholder_prefix PiiPhone = ''PHONE''"
| "placeholder_prefix PiiIp = ''IP''"
| "placeholder_prefix PiiCreditCard = ''CARD''"
| "placeholder_prefix PiiSecret = ''KEY''"
| "placeholder_prefix PiiPerson = ''PERSON''"

record pii_session =
  pi_forward :: "(string, string) hmap"
  pi_reverse :: "(string, string) hmap"
  pi_counts :: "(pii_entity, nat) hmap"
  pi_reversible :: bool
  pi_placeholder_entities :: "(string, pii_entity) hmap"
  pi_ambiguous_aliases :: "string list"

definition pii_session_new :: "bool \<Rightarrow> pii_session" where
  "pii_session_new reversible =
     \<lparr> pi_forward = [], pi_reverse = [], pi_counts = [], pi_reversible = reversible, pi_placeholder_entities = [],
       pi_ambiguous_aliases = [] \<rparr>"

definition pii_count :: "pii_session \<Rightarrow> pii_entity \<Rightarrow> nat" where
  "pii_count s entity = (case hm_get (pi_counts s) entity of Some n \<Rightarrow> n | None \<Rightarrow> 0)"

definition raise_count :: "pii_entity \<Rightarrow> nat \<Rightarrow> pii_session \<Rightarrow> pii_session" where
  "raise_count entity n s = s \<lparr> pi_counts := hm_entry_update entity 0 (\<lambda>c. max c n) (pi_counts s) \<rparr>"

section \<open>Seeding the counters\<close>

text \<open>
  The numbers that a scan finds, in order. Every scan continues behind an ASCII character or behind a
  match, so the search for the next character boundary never moves.
\<close>

lemma split_once_shorter: "split_once n s = Some (a, b) \<Longrightarrow> length b + length n \<le> length s"
  by (drule split_once_join) simp

lemma split_once_less: "split_once n s = Some (a, b) \<Longrightarrow> n \<noteq> [] \<Longrightarrow> length b < length s"
  by (drule split_once_join) simp

lemma split_once_drop_less: "split_once n s = Some (a, b) \<Longrightarrow> n \<noteq> [] \<Longrightarrow> length b - k < length s"
  using split_once_less [of n s a b] by simp

definition parsed :: "string \<Rightarrow> nat list" where
  "parsed s = (case parse_unsigned U64_MAX s of Some n \<Rightarrow> [n] | None \<Rightarrow> [])"

function delimited_numbers :: "string \<Rightarrow> char \<Rightarrow> string \<Rightarrow> nat list" where
  "delimited_numbers open' close' s =
     (case split_once open' s of
        None \<Rightarrow> []
      | Some (_, after) \<Rightarrow>
          (case split_once [close'] after of
             None \<Rightarrow> []
           | Some (num, rest) \<Rightarrow> parsed num @ delimited_numbers open' close' rest))"
  by pat_completeness auto
termination
  by (relation "measure (\<lambda>(a, b, s). length s)") (auto dest!: split_once_shorter)

function email_numbers :: "string \<Rightarrow> string \<Rightarrow> nat list" where
  "email_numbers domain s =
     (case split_once domain s of
        None \<Rightarrow> []
      | Some (name, rest) \<Rightarrow>
          (if domain = [] then []
           else (let digits = rev (takeWhile is_digit (rev name))
                 in (if digits = [] then [] else parsed digits) @ email_numbers domain rest)))"
  by pat_completeness auto
termination
  by (relation "measure (\<lambda>(d, s). length s)") (auto dest: split_once_less)

definition IP_PREFIX :: string where
  "IP_PREFIX = ''10.240.''"

function ip_numbers :: "string \<Rightarrow> nat list" where
  "ip_numbers s =
     (case split_once IP_PREFIX s of
        None \<Rightarrow> []
      | Some (_, after) \<Rightarrow>
          (case split_once ''.'' after of
             None \<Rightarrow> []
           | Some (first, rest) \<Rightarrow>
               (case (parse_unsigned U64_MAX first, parse_unsigned U64_MAX (takeWhile is_digit rest)) of
                  (Some x, Some y) \<Rightarrow> [saturating_add U64_MAX (saturating_mul U64_MAX x 254) y]
                | _ \<Rightarrow> []))
          @ ip_numbers after)"
  by pat_completeness auto
termination
  by (relation "measure length") (auto simp: IP_PREFIX_def dest!: split_once_shorter)

function secret_numbers :: "string \<Rightarrow> string \<Rightarrow> nat list" where
  "secret_numbers sec_prefix s =
     (case split_once sec_prefix s of
        None \<Rightarrow> []
      | Some (_, after) \<Rightarrow>
          (if sec_prefix = [] then []
           else (let token = takeWhile (\<lambda>c. is_alnum c \<or> c = CHR ''_'') after
                 in (if length token \<ge> 2 then parsed (drop (length token - 2) token) else []) @
                    secret_numbers sec_prefix (drop (length token) after))))"
  by pat_completeness auto
termination
  by (relation "measure (\<lambda>(p, s). length s)") (auto intro: split_once_drop_less)

definition NUM_SECRET_PREFIX :: string where
  "NUM_SECRET_PREFIX = ''89410294''"

function numeric_secret_numbers :: "string \<Rightarrow> nat list" where
  "numeric_secret_numbers s =
     (case split_once NUM_SECRET_PREFIX s of
        None \<Rightarrow> []
      | Some (_, after) \<Rightarrow>
          (let digits = takeWhile is_digit after
           in (if digits = [] then [] else parsed digits) @ numeric_secret_numbers (drop (length digits) after)))"
  by pat_completeness auto
termination
  by (relation "measure length") (auto simp: NUM_SECRET_PREFIX_def dest!: split_once_shorter)

declare delimited_numbers.simps [simp del] email_numbers.simps [simp del] ip_numbers.simps [simp del]
  secret_numbers.simps [simp del] numeric_secret_numbers.simps [simp del]

definition seeds :: "string \<Rightarrow> (pii_entity \<times> nat) list" where
  "seeds s =
     (if CHR ''<'' \<in> set s \<and> CHR ''>'' \<in> set s
      then concat (map (\<lambda>e. map (Pair e) (delimited_numbers (''<'' @ placeholder_prefix e @ ''_'') (CHR ''>'') s)) PII_ALL)
      else []) @
     map (Pair PiiPerson) (delimited_numbers '' (P'' (CHR '')'') s @ delimited_numbers '' [P'' (CHR '']'') s) @
     map (Pair PiiEmail) (email_numbers ''@outlook.com'' s @ email_numbers ''@fastmail.com'' s) @
     map (Pair PiiIp) (ip_numbers s) @
     map (Pair PiiSecret) (concat (map (\<lambda>p. secret_numbers p s) [''sec_'', ''sk-proj-'', ''sk-'', ''op_live_'', ''op_test_'']) @
       numeric_secret_numbers s)"

definition seed_existing_placeholders :: "string \<Rightarrow> pii_session \<Rightarrow> pii_session" where
  "seed_existing_placeholders s session =
     (if s = [] then session else fold (\<lambda>(e, n). raise_count e n) (seeds s) session)"

section \<open>Placeholders of a number\<close>

text \<open>Formatting with zeros on the left, and lower-case hexadecimal.\<close>

definition pad_zero :: "nat \<Rightarrow> string \<Rightarrow> string" where
  "pad_zero w s = replicate (w - length s) (CHR ''0'') @ s"

fun show_hex_digits :: "nat \<Rightarrow> nat \<Rightarrow> string" where
  "show_hex_digits 0 n = []"
| "show_hex_digits (Suc k) n = show_hex_digits k (n div 16) @ [''0123456789abcdef'' ! (n mod 16)]"

definition fnv1a_hash :: "string \<Rightarrow> 64 word" where
  "fnv1a_hash s = foldl (\<lambda>h c. (xor h (of_nat (of_char c))) * 0x100000001b3) 0xcbf29ce484222325 s"

fun luhn_total :: "string \<Rightarrow> bool \<Rightarrow> nat \<Rightarrow> nat" where
  "luhn_total [] double n = n"
| "luhn_total (c # cs) double n =
     (let d = (case digit_val c of Some d \<Rightarrow> d | None \<Rightarrow> 0)
      in luhn_total cs (\<not> double) (n + (if double then luhn_double d else d)))"

definition compute_luhn_check_digit :: "string \<Rightarrow> nat" where
  "compute_luhn_check_digit digits = (10 - luhn_total (rev digits) True 0 mod 10) mod 10"

definition generate_fake_credit_card :: "nat \<Rightarrow> bool \<Rightarrow> string" where
  "generate_fake_credit_card n spaced =
     (let base = (if n \<le> 900 then ''453201511283'' @ pad_zero 3 (show_nat (n mod 900 + 100))
                  else ''4532015'' @ pad_zero 8 (show_nat ((n - 900) mod 90000000 + 1000)));
          full = base @ show_nat (compute_luhn_check_digit base)
      in if spaced
         then take 4 full @ '' '' @ take 4 (drop 4 full) @ '' '' @ take 4 (drop 8 full) @ '' '' @ take 4 (drop 12 full)
         else full)"

definition ip_placeholder :: "string \<Rightarrow> nat \<Rightarrow> string" where
  "ip_placeholder original c =
     (if CHR '':'' \<in> set original then ''fd00:10:240::'' @ show_nat c
      else (let z = c - 1 in ''10.240.'' @ show_nat (z div 254 mod 254) @ ''.'' @ show_nat (z mod 254 + 1)))"

definition EMAIL_NAMES :: "string list" where
  "EMAIL_NAMES = [''alex.turner'', ''jordan.lee'', ''morgan.reed'', ''sam.taylor'', ''chris.evans'', ''pat.parker'',
     ''casey.miller'', ''riley.cooper'']"

definition email_placeholder :: "nat \<Rightarrow> string" where
  "email_placeholder c =
     EMAIL_NAMES ! ((c - 1) mod 8) @ show_nat c @ ''@'' @ (if even c then ''outlook.com'' else ''fastmail.com'')"

definition numeric_secret_placeholder :: "string \<Rightarrow> string" where
  "numeric_secret_placeholder original =
     (let len = length original;
          prefix0 = (if len = 20 \<and> parse_unsigned U64_MAX original \<noteq> None then ''10'' else ''89410294'');
          (prefix, width) = (if len > length prefix0 then (prefix0, len - length prefix0) else (''9'', len - 1));
          decimal = show_nat (unat (fnv1a_hash original));
          suffix = drop (length decimal - width) decimal
      in prefix @ pad_zero width suffix)"

definition SECRET_PREFIX_MAP :: "(string \<times> string) list" where
  "SECRET_PREFIX_MAP = [(''sk-proj-'', ''sk-proj-''), (''sk-'', ''sk-''), (''op_live_'', ''op_live_''), (''op_test_'', ''op_test_''),
     (''mcp_live_'', ''mcp_live_''), (''mcp_test_'', ''mcp_test_''), (''ghp_'', ''ghp_''), (''gho_'', ''gho_''),
     (''xoxb-'', ''xoxb_''), (''Bearer '', ''Bearer sec_'')]"

definition secret_placeholder :: "string \<Rightarrow> string" where
  "secret_placeholder original =
     (if list_all is_digit original \<and> length original \<ge> 6 then numeric_secret_placeholder original
      else (case find (\<lambda>(pattern, _). starts_with original pattern) SECRET_PREFIX_MAP of
              Some (_, out_prefix) \<Rightarrow> out_prefix | None \<Rightarrow> ''sec_'')
           @ show_hex_digits 8 (unat (fnv1a_hash original) mod 4294967296))"

definition AREA_CODES :: "nat list" where
  "AREA_CODES = [212, 312, 415, 617, 206, 512, 305, 404, 702, 214]"

definition phone_placeholder :: "nat \<Rightarrow> string" where
  "phone_placeholder c =
     (if c \<le> 89 then ''+1-202-555-01'' @ pad_zero 2 (show_nat (c mod 90 + 10))
      else (let offset = c - 90
            in ''+1-'' @ show_nat (AREA_CODES ! (offset div 9000 mod 10)) @ ''-555-'' @ pad_zero 4 (show_nat (offset mod 9000 + 1000))))"

definition FIRST_NAMES :: "string list" where
  "FIRST_NAMES = [''Alex'', ''David'', ''Sarah'', ''Michael'', ''Elena'', ''James'', ''Marcus'', ''Laura'', ''Carlos'', ''Emily'',
     ''Robert'', ''Anna'', ''Daniel'', ''Rachel'', ''Thomas'', ''Sofia'', ''Lucas'', ''Maria'', ''Brian'', ''Jessica'']"

definition LAST_NAMES :: "string list" where
  "LAST_NAMES = [''Vance'', ''Chen'', ''Jenkins'', ''Sterling'', ''Mercer'', ''Wilson'', ''Reed'', ''Bennett'', ''Lindqvist'',
     ''Hawthorne'', ''Taylor'', ''Kowalski'', ''Anderson'', ''Martinez'', ''Wright'', ''Scott'', ''Torres'', ''Nguyen'', ''Murphy'',
     ''Rivera'']"

text \<open>The index is reduced in \<open>usize\<close>: index 0, after a wrap, counts as the largest.\<close>

definition gen_name :: "nat \<Rightarrow> string" where
  "gen_name idx =
     (let z = (idx + U64_MAX) mod (U64_MAX + 1); first_idx = z mod 20; cycle = z div 20; last_idx = (first_idx + cycle) mod 20
      in FIRST_NAMES ! first_idx @ '' '' @ LAST_NAMES ! last_idx)"

section \<open>Collision loops\<close>

partial_function (option) first_from :: "(nat \<Rightarrow> bool) \<Rightarrow> nat \<Rightarrow> nat option" where
  "first_from ok k = (if ok k then Some k else first_from ok (Suc k))"

fun inc_digits :: "string \<Rightarrow> string" where
  "inc_digits [] = []"
| "inc_digits (c # cs) = (if c = CHR ''9'' then CHR ''0'' # inc_digits cs else char_of (of_char c + 1 :: nat) # cs)"

definition next_numeric :: "string \<Rightarrow> string" where
  "next_numeric p =
     (let q = rev (inc_digits (rev p)) in if starts_with q ''0'' then CHR ''9'' # tl q else q)"

definition numeric_candidate :: "string \<Rightarrow> nat \<Rightarrow> string" where
  "numeric_candidate p k = (next_numeric ^^ k) p"

definition tie_candidate :: "string \<Rightarrow> nat \<Rightarrow> string" where
  "tie_candidate base k = (if k = 0 then base else base @ ''_'' @ show_nat k)"

definition taken :: "pii_session \<Rightarrow> string \<Rightarrow> string \<Rightarrow> bool" where
  "taken s original p = (p = original \<or> hm_get (pi_reverse s) p \<noteq> None)"

definition resolve_collision :: "pii_session \<Rightarrow> string \<Rightarrow> string \<Rightarrow> string option" where
  "resolve_collision s original p =
     (if list_all is_digit p
      then map_option (numeric_candidate p) (first_from (\<lambda>k. \<not> taken s original (numeric_candidate p k)) 0)
      else if p = original \<or> (case hm_get (pi_reverse s) p of Some existing \<Rightarrow> existing \<noteq> original | None \<Rightarrow> False)
      then map_option (tie_candidate p) (first_from (\<lambda>k. \<not> taken s original (tie_candidate p k)) 0)
      else Some p)"

section \<open>Aliases of persons\<close>

definition register_person_alias :: "string \<Rightarrow> string \<Rightarrow> pii_session \<Rightarrow> pii_session" where
  "register_person_alias alias original s =
     (if alias \<in> set (pi_ambiguous_aliases s) then s
      else
        (case hm_get (pi_reverse s) alias of
           Some existing \<Rightarrow>
             (if existing \<noteq> original
              then (if eq_ignore_ascii_case existing original
                    then s \<lparr> pi_reverse := hm_put alias original (pi_reverse s) \<rparr>
                    else s \<lparr> pi_reverse := hm_remove alias (pi_reverse s),
                             pi_ambiguous_aliases := alias # pi_ambiguous_aliases s \<rparr>)
              else s \<lparr> pi_reverse := hm_put alias original (pi_reverse s) \<rparr>)
         | None \<Rightarrow> s \<lparr> pi_reverse := hm_put alias original (pi_reverse s) \<rparr>))"

text \<open>\<open>split_whitespace\<close>; \<open>cur\<close> is the current word, reversed.\<close>

function split_whitespace_from :: "string \<Rightarrow> string \<Rightarrow> string list" where
  "split_whitespace_from cur s =
     (case s of
        [] \<Rightarrow> (if cur = [] then [] else [rev cur])
      | c # cs \<Rightarrow>
          (case find (\<lambda>w. w \<noteq> [] \<and> starts_with s w) whitespace_seqs of
             Some w \<Rightarrow> (if cur = [] then [] else [rev cur]) @ split_whitespace_from [] (drop (length w) s)
           | None \<Rightarrow> split_whitespace_from (c # cur) cs))"
  by pat_completeness auto
termination
  by (relation "measure (\<lambda>(cur, s). length s)") (auto simp: find_Some_iff intro: diff_less_Suc split: if_splits)

declare split_whitespace_from.simps [simp del]

definition split_whitespace :: "string \<Rightarrow> string list" where
  "split_whitespace s = split_whitespace_from [] s"

definition register_aliases :: "string \<Rightarrow> string \<Rightarrow> pii_session \<Rightarrow> pii_session" where
  "register_aliases placeholder original s =
     (case split_once '' '' placeholder of
        None \<Rightarrow> s
      | Some (first_ph, last_ph) \<Rightarrow>
          (let ws = split_whitespace original;
               orig_first = (if ws = [] then original else hd ws);
               orig_last = (if ws = [] then original else last ws)
           in register_person_alias last_ph orig_last (register_person_alias first_ph orig_first s)))"

section \<open>Placeholder of a value\<close>

text \<open>The base placeholder and the counter after it.\<close>

definition base_placeholder :: "pii_entity \<Rightarrow> string \<Rightarrow> nat \<Rightarrow> (string \<times> nat) option" where
  "base_placeholder entity original c =
     (case entity of
        PiiIp \<Rightarrow> Some (ip_placeholder original c, c)
      | PiiEmail \<Rightarrow> Some (email_placeholder c, c)
      | PiiSecret \<Rightarrow> Some (secret_placeholder original, c)
      | PiiPhone \<Rightarrow> Some (phone_placeholder c, c)
      | PiiCreditCard \<Rightarrow> Some (generate_fake_credit_card c (CHR '' '' \<in> set original \<or> CHR ''-'' \<in> set original), c)
      | PiiPerson \<Rightarrow>
          map_option (\<lambda>k. (gen_name ((c + k) mod (U64_MAX + 1)), (c + k) mod (U64_MAX + 1)))
            (first_from (\<lambda>k. \<not> eq_ignore_ascii_case (gen_name ((c + k) mod (U64_MAX + 1))) original) 0))"

definition create_placeholder :: "pii_session \<Rightarrow> pii_entity \<Rightarrow> string \<Rightarrow> (pii_session \<times> string) option" where
  "create_placeholder s entity original =
     (let c = saturating_add U64_MAX (pii_count s entity) 1 in
      case base_placeholder entity original c of
        None \<Rightarrow> None
      | Some (base, c') \<Rightarrow>
          (case resolve_collision s original base of
             None \<Rightarrow> None
           | Some p \<Rightarrow>
               (let s1 = s \<lparr> pi_counts := hm_put entity c' (pi_counts s), pi_forward := hm_put original p (pi_forward s),
                            pi_reverse := hm_put p original (pi_reverse s),
                            pi_placeholder_entities := hm_put p entity (pi_placeholder_entities s) \<rparr>
                in Some ((if entity = PiiPerson then register_aliases p original s1 else s1), p))))"

definition get_or_create_placeholder ::
    "(string \<Rightarrow> bool) \<Rightarrow> pii_session \<Rightarrow> pii_entity \<Rightarrow> string \<Rightarrow> (pii_session \<times> string) option" where
  "get_or_create_placeholder has_upper s entity original =
     (case hm_get (pi_forward s) original of
        Some existing \<Rightarrow> Some (s, existing)
      | None \<Rightarrow>
          (case (if entity = PiiPerson then find (\<lambda>(k, _). eq_ignore_ascii_case k original) (pi_forward s) else None) of
             Some (existing_key, p) \<Rightarrow>
               (let s1 = s \<lparr> pi_forward := hm_put original p (pi_forward s) \<rparr>
                in Some (if has_upper original \<and> \<not> has_upper existing_key
                         then register_aliases p original (s1 \<lparr> pi_reverse := hm_put p original (pi_reverse s1) \<rparr>)
                         else s1, p))
           | None \<Rightarrow> create_placeholder s entity original))"

section \<open>Generated cards are well formed\<close>

lemma digit_val_char [simp]: "(d :: nat) < 10 \<Longrightarrow> digit_val (char_of (48 + d)) = Some d"
  by (simp add: digit_val_def of_char_of)

lemma is_digit_char [simp]: "(d :: nat) < 10 \<Longrightarrow> is_digit (char_of (48 + d))"
  by (simp add: is_digit_def)

lemma zero_is_digit [simp]: "is_digit (CHR ''0'')"
  by code_simp

lemma show_nat_digits [simp]: "list_all is_digit (show_nat n)"
  by (induction n rule: show_nat.induct) (subst show_nat.simps, simp)

lemma show_nat_nonempty [simp]: "show_nat n \<noteq> []"
  by (subst show_nat.simps) simp

lemma show_nat_length_le: "n < 10 ^ Suc k \<Longrightarrow> length (show_nat n) \<le> Suc k"
proof (induction k arbitrary: n)
  case 0
  then show ?case by (subst show_nat.simps) simp
next
  case (Suc k)
  show ?case
  proof (cases "n < 10")
    case True
    then show ?thesis by (subst show_nat.simps) simp
  next
    case False
    have "n div 10 < 10 ^ Suc k" using Suc.prems by (simp add: less_mult_imp_div_less)
    then show ?thesis using Suc.IH [of "n div 10"] False by (subst show_nat.simps) simp
  qed
qed

lemma pad_zero_length: "length s \<le> w \<Longrightarrow> length (pad_zero w s) = w"
  by (simp add: pad_zero_def)

lemma pad_zero_digits: "list_all is_digit s \<Longrightarrow> list_all is_digit (pad_zero w s)"
  by (auto simp: pad_zero_def list_all_iff)

lemma check_digit_less [simp]: "compute_luhn_check_digit ds < 10"
  by (simp add: compute_luhn_check_digit_def)

lemma luhn_sum_total: "list_all is_digit ds \<Longrightarrow> luhn_sum ds b n = Some (luhn_total ds b n)"
  by (induction ds b n rule: luhn_sum.induct) (auto simp: is_digit_def)

lemma luhn_total_acc: "luhn_total ds b (n + m) = luhn_total ds b n + m"
proof (induction ds arbitrary: b n)
  case (Cons c cs)
  have "n + m + x = n + x + m" for x :: nat by simp
  then show ?case using Cons by (simp only: luhn_total.simps Let_def)
qed simp

definition card_digits :: "nat \<Rightarrow> string" where
  "card_digits n =
     (let base = (if n \<le> 900 then ''453201511283'' @ pad_zero 3 (show_nat (n mod 900 + 100))
                  else ''4532015'' @ pad_zero 8 (show_nat ((n - 900) mod 90000000 + 1000)))
      in base @ show_nat (compute_luhn_check_digit base))"

lemma check_digit_char: "show_nat (compute_luhn_check_digit ds) = [char_of (48 + compute_luhn_check_digit ds)]"
  by (subst show_nat.simps) (simp add: compute_luhn_check_digit_def)

lemma card_base:
  "\<exists>base. card_digits n = base @ show_nat (compute_luhn_check_digit base) \<and> length base = 15 \<and> list_all is_digit base \<and>
     take 5 base = ''45320''"
proof (cases "n \<le> 900")
  case True
  have "length (show_nat (n mod 900 + 100)) \<le> 3" using show_nat_length_le [of _ 2] by simp
  then show ?thesis using True
    by (intro exI [of _ "''453201511283'' @ pad_zero 3 (show_nat (n mod 900 + 100))"])
      (simp add: card_digits_def pad_zero_length pad_zero_digits is_digit_def digit_val_def)
next
  case False
  have "(n - 900) mod 90000000 + 1000 < 10 ^ Suc 7" using mod_less_divisor [of 90000000 "n - 900"] by simp
  then have "length (show_nat ((n - 900) mod 90000000 + 1000)) \<le> 8" using show_nat_length_le [of _ 7] by simp
  then show ?thesis using False
    by (intro exI [of _ "''4532015'' @ pad_zero 8 (show_nat ((n - 900) mod 90000000 + 1000))"])
      (simp add: card_digits_def pad_zero_length pad_zero_digits is_digit_def digit_val_def)
qed

lemma card_digits_facts: "length (card_digits n) = 16" "list_all is_digit (card_digits n)" "take 5 (card_digits n) = ''45320''"
  using card_base [of n] by (auto simp: check_digit_char)

lemma card_luhn: "luhn_sum (rev (card_digits n)) False 0 = Some m \<Longrightarrow> m mod 10 = 0"
proof -
  assume sum: "luhn_sum (rev (card_digits n)) False 0 = Some m"
  obtain base where base: "card_digits n = base @ show_nat (compute_luhn_check_digit base)" "list_all is_digit base"
    using card_base [of n] by blast
  let ?c = "compute_luhn_check_digit base" and ?t = "luhn_total (rev base) True 0"
  have "luhn_sum (rev (card_digits n)) False 0 = Some (luhn_total (rev base) True (0 + ?c))"
    using base luhn_sum_total [of "rev base" True ?c] by (simp add: check_digit_char)
  then have "m = ?t + ?c" using sum luhn_total_acc [of "rev base" True 0 ?c] by simp
  moreover have "(t + (10 - t mod 10) mod 10) mod 10 = 0" for t :: nat
  proof -
    have "t mod 10 < 10" by simp
    then have "t + (10 - t mod 10) = 10 * (t div 10 + 1)"
      using mult_div_mod_eq [of 10 t] unfolding distrib_left by linarith
    then have "(t + (10 - t mod 10)) mod 10 = 0" by (simp only: mod_mult_self1_is_0)
    then show ?thesis by (simp only: mod_add_right_eq)
  qed
  ultimately show ?thesis by (simp only: compute_luhn_check_digit_def)
qed

lemma filter_digits_card: "filter is_digit (generate_fake_credit_card n spaced) = card_digits n"
proof -
  let ?f = "card_digits n"
  have split: "take 4 ?f @ take 4 (drop 4 ?f) @ take 4 (drop 8 ?f) @ take 4 (drop 12 ?f) = ?f"
    using card_digits_facts(1) [of n] by (simp add: take_add [symmetric] append_assoc [symmetric] del: append_assoc)
  have dig: "filter is_digit xs = xs" if "set xs \<subseteq> set ?f" for xs
    using that card_digits_facts(2) [of n] by (auto simp: list_all_iff filter_id_conv)
  have sub: "filter is_digit (take 4 (drop k ?f)) = take 4 (drop k ?f)" for k
    by (rule dig) (meson order_trans set_drop_subset set_take_subset)
  have "generate_fake_credit_card n spaced = (if spaced
      then take 4 ?f @ '' '' @ take 4 (drop 4 ?f) @ '' '' @ take 4 (drop 8 ?f) @ '' '' @ take 4 (drop 12 ?f) else ?f)"
    by (simp add: generate_fake_credit_card_def card_digits_def Let_def)
  moreover have "\<not> is_digit (CHR '' '')" by (simp add: is_digit_def digit_val_def)
  ultimately show ?thesis using sub [of 0] sub [of 4] sub [of 8] sub [of 12] split dig [of ?f] by simp
qed

text \<open>Every card number the session makes up is a plausible card number: whatever the counter and the
  spacing, its digits pass the engine's own check (length, issuer prefix and Luhn checksum), so a
  restored or repeated text is recognised again.\<close>

theorem fake_card_passes_check: "luhn_check (filter is_digit (generate_fake_credit_card n spaced))"
proof -
  let ?f = "card_digits n"
  have first: "hd ?f = CHR ''4''" "?f \<noteq> []"
    using card_digits_facts(1,3) [of n] by (cases ?f; simp)+
  then have "\<not> list_all (\<lambda>c. c = CHR ''0'') ?f" by (cases ?f) auto
  moreover have "has_card_iin_prefix ?f" using first by (simp add: has_card_iin_prefix_def)
  moreover obtain m where "luhn_sum (rev ?f) False 0 = Some m" using luhn_sum_total [of "rev ?f"] card_digits_facts(2) [of n] by simp
  ultimately show ?thesis using card_luhn [of n m] card_digits_facts(1) [of n] by (simp add: filter_digits_card luhn_check_def)
qed

section \<open>The shape of placeholders\<close>

definition is_upper :: "char \<Rightarrow> bool" where
  "is_upper c = (let n = of_char c :: nat in 65 \<le> n \<and> n \<le> 90)"

text \<open>A placeholder can be told from an alias of a person: an alias is a capitalised word.\<close>

definition shaped :: "string \<Rightarrow> bool" where
  "shaped p = (p \<noteq> [] \<and> (if is_upper (hd p) then CHR '' '' \<in> set p else hd p \<noteq> CHR ''0'' \<and> length p \<ge> 5))"

definition alias_last :: "string \<Rightarrow> bool" where
  "alias_last b = (b \<noteq> [] \<and> (if is_upper (hd b) then CHR '' '' \<notin> set b else hd b = CHR ''0''))"

definition split_ok :: "string \<Rightarrow> string \<Rightarrow> bool" where
  "split_ok original p =
     ((case split_once '' '' p of None \<Rightarrow> True | Some (a, b) \<Rightarrow> \<not> shaped a \<and> alias_last b) \<or>
      starts_with (to_ascii_lowercase original) ''bearer '')"

lemma alias_last_unshaped: "alias_last b \<Longrightarrow> \<not> shaped b"
  by (auto simp: alias_last_def shaped_def split: if_splits)

lemma shaped_append: "shaped p \<Longrightarrow> shaped (p @ q)"
  by (auto simp: shaped_def split: if_splits)

lemma split_once_none: "CHR '' '' \<notin> set p \<Longrightarrow> split_once '' '' p = None"
  by (induction p) (auto simp: starts_with_def)

lemma split_once_at: "CHR '' '' \<notin> set a \<Longrightarrow> split_once '' '' (a @ CHR '' '' # b) = Some (a, b)"
  by (induction a) (auto simp: starts_with_def)

lemma split_once_cases:
  obtains "CHR '' '' \<notin> set p" "split_once '' '' p = None"
  | a b where "p = a @ CHR '' '' # b" "CHR '' '' \<notin> set a" "split_once '' '' p = Some (a, b)"
proof (cases "CHR '' '' \<in> set p")
  case True
  then obtain a b where "p = a @ CHR '' '' # b" "CHR '' '' \<notin> set a" by (meson split_list_first)
  then show ?thesis using split_once_at that(2) by blast
next
  case False
  then show ?thesis using that(1) split_once_none by simp
qed

lemma split_ok_append:
  assumes "split_ok original p" and "CHR '' '' \<notin> set q"
  shows "split_ok original (p @ q)"
proof (cases p rule: split_once_cases)
  case 1
  then have "split_once '' '' (p @ q) = None" using assms(2) by (intro split_once_none) simp
  then show ?thesis by (simp add: split_ok_def)
next
  case (2 a b)
  then have "split_once '' '' (p @ q) = Some (a, b @ q)" using split_once_at [of a "b @ q"] by simp
  moreover have "alias_last b \<Longrightarrow> alias_last (b @ q)" using assms(2) by (auto simp: alias_last_def split: if_splits)
  ultimately show ?thesis using assms(1) 2 by (auto simp: split_ok_def)
qed

lemma digits_no_space: "list_all is_digit s \<Longrightarrow> CHR '' '' \<notin> set s"
  by (auto simp: list_all_iff is_digit_def digit_val_def)

lemma show_nat_no_space [simp]: "CHR '' '' \<notin> set (show_nat n)"
  by (rule digits_no_space) simp

lemma pad_no_space: "CHR '' '' \<notin> set (pad_zero w (show_nat n))"
  by (rule digits_no_space) (simp add: pad_zero_digits)

lemma no_space_split_ok: "CHR '' '' \<notin> set p \<Longrightarrow> split_ok original p"
  by (simp add: split_ok_def split_once_none)

lemma hex_no_space: "length (show_hex_digits k n) = k" "CHR '' '' \<notin> set (show_hex_digits k n)"
proof -
  have "CHR '' '' \<noteq> ''0123456789abcdef'' ! m" if "m < 16" for m
  proof -
    have "''0123456789abcdef'' ! m \<in> set ''0123456789abcdef''" using that by (intro nth_mem) simp
    then show ?thesis by auto
  qed
  then show "CHR '' '' \<notin> set (show_hex_digits k n)" by (induction k n rule: show_hex_digits.induct) auto
qed (induction k n rule: show_hex_digits.induct; simp)

lemma ip_shape: "shaped (ip_placeholder original c)" "split_ok original (ip_placeholder original c)"
  by (auto simp: ip_placeholder_def shaped_def is_upper_def Let_def intro: no_space_split_ok)

lemma email_shape: "shaped (email_placeholder c)" "split_ok original (email_placeholder c)"
proof -
  have "EMAIL_NAMES ! ((c - 1) mod 8) \<in> set EMAIL_NAMES" by (intro nth_mem) (simp add: EMAIL_NAMES_def)
  moreover have "\<forall>n \<in> set EMAIL_NAMES. shaped n \<and> CHR '' '' \<notin> set n" by (simp add: EMAIL_NAMES_def shaped_def is_upper_def)
  ultimately have n: "shaped (EMAIL_NAMES ! ((c - 1) mod 8))" "CHR '' '' \<notin> set (EMAIL_NAMES ! ((c - 1) mod 8))" by blast+
  show "shaped (email_placeholder c)" unfolding email_placeholder_def using n(1) by (rule shaped_append)
  show "split_ok original (email_placeholder c)" using n(2) by (auto simp: email_placeholder_def intro!: no_space_split_ok)
qed

lemma phone_shape: "shaped (phone_placeholder c)" "split_ok original (phone_placeholder c)"
  by (auto simp: phone_placeholder_def shaped_def is_upper_def Let_def pad_no_space intro!: no_space_split_ok)

lemma numeric_secret_shape:
  assumes "length original \<ge> 6"
  shows "shaped (numeric_secret_placeholder original)" "split_ok original (numeric_secret_placeholder original)"
    "list_all is_digit (numeric_secret_placeholder original)"
proof -
  have suf: "list_all is_digit (drop k (show_nat n))" for k n
    using show_nat_digits [of n] by (auto simp: list_all_iff dest: in_set_dropD)
  show digits: "list_all is_digit (numeric_secret_placeholder original)"
    using suf by (auto simp: numeric_secret_placeholder_def Let_def pad_zero_digits is_digit_def digit_val_def)
  show "split_ok original (numeric_secret_placeholder original)" using digits digits_no_space no_space_split_ok by blast
  show "shaped (numeric_secret_placeholder original)"
    using assms by (auto simp: numeric_secret_placeholder_def Let_def shaped_def is_upper_def pad_zero_def)
qed

lemma lower_bearer: "map ascii_lower ''Bearer '' = ''bearer ''"
  by code_simp

lemma secret_shape: "shaped (secret_placeholder original)" "split_ok original (secret_placeholder original)"
proof -
  let ?hex = "show_hex_digits 8 (unat (fnv1a_hash original) mod 4294967296)"
  let ?pre = "case find (\<lambda>(pattern, _). starts_with original pattern) SECRET_PREFIX_MAP of Some (_, out_prefix) \<Rightarrow> out_prefix | None \<Rightarrow> ''sec_''"
  have len: "length ?hex = 8" by (simp add: hex_no_space)
  have pre: "(?pre = ''Bearer sec_'' \<and> starts_with original ''Bearer '') \<or> (?pre \<noteq> [] \<and> \<not> is_upper (hd ?pre) \<and> hd ?pre \<noteq> CHR ''0'' \<and> CHR '' '' \<notin> set ?pre)"
    by (simp add: SECRET_PREFIX_MAP_def is_upper_def)
  have sh: "shaped (?pre @ ?hex)" using pre len by (auto simp: shaped_def is_upper_def)
  have sp: "split_ok original (?pre @ ?hex)"
    using pre
  proof
    assume "?pre = ''Bearer sec_'' \<and> starts_with original ''Bearer ''"
    then have "take (length ''Bearer '') original = ''Bearer ''" by (simp only: starts_with_def)
    then have "map ascii_lower (take (length ''Bearer '') original) = ''bearer ''" by (simp only: lower_bearer)
    moreover have "length ''Bearer '' = length ''bearer ''" by simp
    ultimately have "starts_with (to_ascii_lowercase original) ''bearer ''"
      unfolding starts_with_def to_ascii_lowercase_def take_map by (simp only:)
    then show ?thesis by (simp add: split_ok_def)
  next
    assume "?pre \<noteq> [] \<and> \<not> is_upper (hd ?pre) \<and> hd ?pre \<noteq> CHR ''0'' \<and> CHR '' '' \<notin> set ?pre"
    then show ?thesis using hex_no_space(2) by (intro no_space_split_ok) simp
  qed
  show "shaped (secret_placeholder original)" "split_ok original (secret_placeholder original)"
    using sh sp numeric_secret_shape(1,2) [of original] by (auto simp: secret_placeholder_def)
qed

lemma card_shape: "shaped (generate_fake_credit_card n spaced)" "split_ok original (generate_fake_credit_card n spaced)"
proof -
  define rest where "rest = drop 5 (card_digits n)"
  have "take 5 (card_digits n) @ rest = card_digits n" unfolding rest_def by (rule append_take_drop_id)
  then have f: "card_digits n = ''45320'' @ rest" "length rest = 11"
    using card_digits_facts(1,3) [of n] by (simp_all add: rest_def)
  have digits: "CHR '' '' \<notin> set (card_digits n)" by (rule digits_no_space) (rule card_digits_facts(2))
  define tail where "tail = (CHR ''0'' # take 3 rest) @ '' '' @ take 4 (drop 3 rest) @ '' '' @ take 4 (drop 7 rest)"
  have gen: "generate_fake_credit_card n sp = (if sp then ''4532'' @ CHR '' '' # tail else card_digits n)" for sp
    using f by (simp add: generate_fake_credit_card_def card_digits_def Let_def numeral_eq_Suc tail_def)
  show "shaped (generate_fake_credit_card n spaced)" using f by (simp add: gen shaped_def is_upper_def tail_def)
  have "split_once '' '' (generate_fake_credit_card n True) = Some (''4532'', tail)"
    unfolding gen if_True by (rule split_once_at) simp
  moreover have "alias_last tail" "\<not> shaped ''4532''" by (simp_all add: tail_def alias_last_def shaped_def is_upper_def)
  ultimately show "split_ok original (generate_fake_credit_card n spaced)"
    using no_space_split_ok [OF digits] gen [of False] by (cases spaced) (simp_all add: split_ok_def)
qed

lemma gen_name_split: "\<exists>a b. gen_name i = a @ CHR '' '' # b \<and> is_upper (hd a) \<and> a \<noteq> [] \<and> CHR '' '' \<notin> set a \<and> is_upper (hd b) \<and> b \<noteq> [] \<and> CHR '' '' \<notin> set b"
proof -
  let ?z = "(i + U64_MAX) mod (U64_MAX + 1)"
  have "FIRST_NAMES ! (?z mod 20) \<in> set FIRST_NAMES" "LAST_NAMES ! ((?z mod 20 + ?z div 20) mod 20) \<in> set LAST_NAMES"
    by (intro nth_mem; simp add: FIRST_NAMES_def LAST_NAMES_def)+
  moreover have "\<forall>n \<in> set FIRST_NAMES \<union> set LAST_NAMES. is_upper (hd n) \<and> n \<noteq> [] \<and> CHR '' '' \<notin> set n"
    by (simp add: FIRST_NAMES_def LAST_NAMES_def is_upper_def)
  ultimately show ?thesis unfolding gen_name_def Let_def by (metis UnI1 UnI2 append_Cons append_Nil)
qed

lemma person_shape: "shaped (gen_name i)" "split_ok original (gen_name i)"
proof -
  obtain a b where n: "gen_name i = a @ CHR '' '' # b" "is_upper (hd a)" "a \<noteq> []" "CHR '' '' \<notin> set a" "is_upper (hd b)" "b \<noteq> []" "CHR '' '' \<notin> set b"
    using gen_name_split by blast
  then show "shaped (gen_name i)" by (simp add: shaped_def)
  have "split_once '' '' (gen_name i) = Some (a, b)" using split_once_at n by simp
  then show "split_ok original (gen_name i)" using n by (simp add: split_ok_def shaped_def alias_last_def)
qed

lemma base_shape:
  assumes "base_placeholder entity original c = Some (base, c')"
  shows "shaped base" "split_ok original base"
  using assms ip_shape email_shape secret_shape phone_shape card_shape person_shape
  by (cases entity; auto simp: base_placeholder_def)+

section \<open>The collision loops\<close>

lemma first_from_sound:
  assumes "first_from ok k = Some m"
  shows "ok m \<and> k \<le> m"
  using assms
proof (induction ok k m rule: first_from.raw_induct [rotated, consumes 1, case_names step])
  case (step f ok k m)
  then show ?case by (cases "ok k") (simp, use Suc_leD in fastforce)
qed

lemma first_from_returns: "ok n \<Longrightarrow> k \<le> n \<Longrightarrow> \<exists>m. first_from ok k = Some m"
proof (induction "n - k" arbitrary: k)
  case 0
  then show ?case by (subst first_from.simps) simp
next
  case (Suc d)
  then show ?case by (subst first_from.simps) (cases "ok k"; simp)
qed

lemma first_from_diverges: "(\<And>n. \<not> ok n) \<Longrightarrow> first_from ok k = None"
  using first_from_sound by (cases "first_from ok k") blast+

text \<open>The number that digits stand for, last digit first.\<close>

fun low_value :: "string \<Rightarrow> nat" where
  "low_value [] = 0"
| "low_value (c # cs) = (of_char c - 48) + 10 * low_value cs"

lemma digit_bounds: "is_digit c \<longleftrightarrow> 48 \<le> (of_char c :: nat) \<and> (of_char c :: nat) \<le> 57"
  by (simp add: is_digit_def digit_val_def Let_def)

lemma nine_code: "c = CHR ''9'' \<longleftrightarrow> (of_char c :: nat) = 57"
proof -
  have "(of_char (CHR ''9'') :: nat) = 57" by simp
  then show ?thesis using of_char_eq_iff [of c "CHR ''9''", where ?'a = nat] by simp
qed

lemma inc_digits_length [simp]: "length (inc_digits cs) = length cs"
  by (induction cs) simp_all

lemma inc_digits_digits: "list_all is_digit cs \<Longrightarrow> list_all is_digit (inc_digits cs)"
  by (induction cs) (auto simp: digit_bounds nine_code of_char_of)

lemma low_value_less: "list_all is_digit cs \<Longrightarrow> low_value cs < 10 ^ length cs"
  by (induction cs) (auto simp: digit_bounds)

lemma low_value_inc: "list_all is_digit cs \<Longrightarrow> low_value (inc_digits cs) = (low_value cs + 1) mod 10 ^ length cs"
proof (induction cs)
  case (Cons c cs)
  show ?case
  proof (cases "c = CHR ''9''")
    case True
    then have "low_value (inc_digits (c # cs)) = 10 * ((low_value cs + 1) mod 10 ^ length cs)" using Cons by simp
    also have "\<dots> = (10 * (low_value cs + 1)) mod (10 * 10 ^ length cs)" by (rule mult_mod_right)
    finally show ?thesis using True by simp
  next
    case False
    have "low_value cs < 10 ^ length cs" using Cons.prems low_value_less by simp
    moreover have "48 \<le> (of_char c :: nat)" "(of_char c :: nat) < 57" using Cons.prems False by (auto simp: digit_bounds nine_code)
    ultimately show ?thesis using False by (simp add: of_char_of)
  qed
qed simp

lemma inc_digits_snoc: "\<exists>h'. inc_digits (cs @ [h]) = inc_digits cs @ [h'] \<and> (is_digit h \<longrightarrow> is_digit h') \<and> (h = CHR ''9'' \<longrightarrow> h' = CHR ''9'' \<or> h' = CHR ''0'')"
proof (induction cs)
  case Nil
  have "is_digit (CHR ''0'')" by simp
  then show ?case by (auto simp: digit_bounds nine_code of_char_of)
qed auto

text \<open>A step of the loop keeps a number of the same length without a leading zero, and adds one to
  everything but its first digit.\<close>

definition plain_number :: "string \<Rightarrow> bool" where
  "plain_number p = (list_all is_digit p \<and> p \<noteq> [] \<and> hd p \<noteq> CHR ''0'')"

lemma next_numeric_step:
  assumes "plain_number p"
  shows "plain_number (next_numeric p)" "length (next_numeric p) = length p"
    "low_value (rev (tl (next_numeric p))) = (low_value (rev (tl p)) + 1) mod 10 ^ (length p - 1)"
    "hd p = CHR ''9'' \<Longrightarrow> hd (next_numeric p) = CHR ''9''"
proof -
  obtain h t where p: "p = h # t" "is_digit h" "h \<noteq> CHR ''0''" "list_all is_digit t"
    using assms by (cases p) (auto simp: plain_number_def)
  have t: "list_all is_digit (rev t)" using p(4) by simp
  obtain h' where h': "inc_digits (rev t @ [h]) = inc_digits (rev t) @ [h']" "is_digit h'" "h = CHR ''9'' \<Longrightarrow> h' = CHR ''9'' \<or> h' = CHR ''0''"
    using inc_digits_snoc [of "rev t" h] p by blast
  have q: "next_numeric p = (if h' = CHR ''0'' then CHR ''9'' else h') # rev (inc_digits (rev t))"
    by (simp add: next_numeric_def p(1) h'(1) Let_def starts_with_def)
  have nine: "is_digit (CHR ''9'')" by (simp add: is_digit_def digit_val_def)
  show "plain_number (next_numeric p)" using inc_digits_digits [OF t] h'(2) nine by (simp add: plain_number_def q)
  show "length (next_numeric p) = length p" unfolding q by (simp add: p(1))
  show "low_value (rev (tl (next_numeric p))) = (low_value (rev (tl p)) + 1) mod 10 ^ (length p - 1)"
    using low_value_inc [OF t] unfolding q by (simp add: p(1))
  show "hd p = CHR ''9'' \<Longrightarrow> hd (next_numeric p) = CHR ''9''" using h'(3) unfolding q by (auto simp: p(1))
qed

lemma numeric_candidate_step:
  assumes "plain_number p"
  shows "plain_number (numeric_candidate p k) \<and> length (numeric_candidate p k) = length p \<and>
    low_value (rev (tl (numeric_candidate p k))) = (low_value (rev (tl p)) + k) mod 10 ^ (length p - 1) \<and>
    (hd p = CHR ''9'' \<longrightarrow> hd (numeric_candidate p k) = CHR ''9'')"
proof (induction k)
  case 0
  have "low_value (rev (tl p)) < 10 ^ length (rev (tl p))"
    using assms by (intro low_value_less) (auto simp: plain_number_def list_all_iff dest: list.set_sel(2))
  then show ?case using assms by (simp add: numeric_candidate_def)
next
  case (Suc k)
  have "numeric_candidate p (Suc k) = next_numeric (numeric_candidate p k)" by (simp add: numeric_candidate_def)
  then show ?case using next_numeric_step [of "numeric_candidate p k"] Suc by (simp add: mod_Suc_eq)
qed

lemma numeric_candidates_distinct: "plain_number p \<Longrightarrow> inj_on (numeric_candidate p) {..< 10 ^ (length p - 1)}"
proof (rule inj_onI)
  fix i j assume p: "plain_number p" and ij: "i \<in> {..< 10 ^ (length p - 1)}" "j \<in> {..< 10 ^ (length p - 1)}"
    and eq: "numeric_candidate p i = numeric_candidate p j"
  let ?m = "10 ^ (length p - 1) :: nat" and ?v = "low_value (rev (tl p))"
  have "(?v + i) mod ?m = (?v + j) mod ?m" using numeric_candidate_step [OF p] eq by metis
  then have "i mod ?m = j mod ?m" by (simp add: nat_mod_eq_iff)
  then show "i = j" using ij by simp
qed

lemma show_nat_value: "low_value (rev (show_nat n)) = n"
proof (induction n rule: show_nat.induct)
  case (1 n)
  then show ?case by (subst show_nat.simps) (simp add: of_char_of)
qed

lemma tie_candidates_distinct: "inj (tie_candidate p)"
proof (rule injI)
  fix i j assume "tie_candidate p i = tie_candidate p j"
  then have "i = j \<or> show_nat i = show_nat j" by (auto simp: tie_candidate_def split: if_splits)
  then show "i = j" using show_nat_value by metis
qed

lemma plain_number_shaped: "plain_number p \<Longrightarrow> 5 \<le> length p \<Longrightarrow> shaped p"
  by (cases p) (auto simp: plain_number_def shaped_def is_upper_def digit_bounds)

lemma shaped_plain_number: "shaped p \<Longrightarrow> list_all is_digit p \<Longrightarrow> plain_number p \<and> 5 \<le> length p"
  by (cases p) (auto simp: plain_number_def shaped_def is_upper_def digit_bounds split: if_splits)

lemma tie_candidate_shape:
  assumes "shaped p" and "split_ok original p"
  shows "shaped (tie_candidate p k)" "split_ok original (tie_candidate p k)"
  using assms by (auto simp: tie_candidate_def intro!: shaped_append split_ok_append)

lemma numeric_candidate_shape:
  assumes "shaped p" and "list_all is_digit p"
  shows "shaped (numeric_candidate p k)" "split_ok original (numeric_candidate p k)"
proof -
  have n: "plain_number (numeric_candidate p k)" "5 \<le> length (numeric_candidate p k)"
    using numeric_candidate_step [of p k] shaped_plain_number [OF assms] by auto
  then show "shaped (numeric_candidate p k)" by (rule plain_number_shaped)
  have "list_all is_digit (numeric_candidate p k)" using n(1) by (simp add: plain_number_def)
  then show "split_ok original (numeric_candidate p k)" by (rule no_space_split_ok [OF digits_no_space])
qed

lemma resolve_collision_shape:
  assumes q: "resolve_collision s original p = Some q" and p: "shaped p" "split_ok original p"
  shows "shaped q" "split_ok original q" "q \<noteq> original" "hm_get (pi_reverse s) q \<in> {None, Some original}"
proof -
  have found: "f k \<noteq> original \<and> hm_get (pi_reverse s) (f k) = None"
    if "first_from (\<lambda>k. \<not> taken s original (f k)) 0 = Some k" for f k
    using first_from_sound [OF that] by (simp add: taken_def)
  consider (num) k where "list_all is_digit p" "q = numeric_candidate p k" "q \<noteq> original" "hm_get (pi_reverse s) q = None"
    | (tie) k where "q = tie_candidate p k" "q \<noteq> original" "hm_get (pi_reverse s) q = None"
    | (free) "q = p" "p \<noteq> original" "hm_get (pi_reverse s) p \<in> {None, Some original}"
    using q found by (auto simp: resolve_collision_def split: if_splits option.splits)
  then have "shaped q \<and> split_ok original q \<and> q \<noteq> original \<and> hm_get (pi_reverse s) q \<in> {None, Some original}"
    using p tie_candidate_shape [OF p] numeric_candidate_shape [OF p(1)] by cases auto
  then show "shaped q" "split_ok original q" "q \<noteq> original" "hm_get (pi_reverse s) q \<in> {None, Some original}" by auto
qed

section \<open>Placeholders stay reversible\<close>

definition pii_inv :: "pii_session \<Rightarrow> bool" where
  "pii_inv s \<longleftrightarrow>
     (\<forall>x p. hm_get (pi_forward s) x = Some p \<longrightarrow>
        shaped p \<and> split_ok x p \<and>
        (\<exists>y. hm_get (pi_reverse s) p = Some y \<and> hm_get (pi_forward s) y = Some p \<and> eq_ignore_ascii_case y x)) \<and>
     (\<forall>x p. shaped p \<and> hm_get (pi_reverse s) p = Some x \<longrightarrow> hm_get (pi_forward s) x = Some p)"

lemma pii_inv_forward:
  assumes "pii_inv s" and "hm_get (pi_forward s) x = Some p"
  obtains y where "shaped p" "split_ok x p" "hm_get (pi_reverse s) p = Some y" "hm_get (pi_forward s) y = Some p"
    "eq_ignore_ascii_case y x"
  using assms unfolding pii_inv_def by blast

lemma pii_inv_reverse: "pii_inv s \<Longrightarrow> shaped p \<Longrightarrow> hm_get (pi_reverse s) p = Some x \<Longrightarrow> hm_get (pi_forward s) x = Some p"
  unfolding pii_inv_def by blast

text \<open>The invariant reads the reverse map at placeholders only.\<close>

lemma pii_inv_cong:
  assumes "pii_inv s" and "pi_forward s' = pi_forward s"
    and "\<And>p. shaped p \<Longrightarrow> hm_get (pi_reverse s') p = hm_get (pi_reverse s) p"
  shows "pii_inv s'"
  using assms unfolding pii_inv_def by metis

lemma register_person_alias_keeps:
  "pi_forward (register_person_alias a x s) = pi_forward s"
  "p \<noteq> a \<Longrightarrow> hm_get (pi_reverse (register_person_alias a x s)) p = hm_get (pi_reverse s) p"
  by (auto simp: register_person_alias_def hm_simps split: option.splits)

lemma register_aliases_keeps:
  assumes "split_ok x p" and "\<not> starts_with (to_ascii_lowercase x) ''bearer ''"
  shows "pi_forward (register_aliases p x s) = pi_forward s"
    "shaped q \<Longrightarrow> hm_get (pi_reverse (register_aliases p x s)) q = hm_get (pi_reverse s) q"
proof -
  show "pi_forward (register_aliases p x s) = pi_forward s"
    by (auto simp: register_aliases_def register_person_alias_keeps Let_def split: option.splits)
  assume q: "shaped q"
  show "hm_get (pi_reverse (register_aliases p x s)) q = hm_get (pi_reverse s) q"
  proof (cases "split_once '' '' p")
    case (Some ab)
    obtain a b where ab: "ab = (a, b)" by fastforce
    then have "\<not> shaped a" "\<not> shaped b" using assms Some alias_last_unshaped by (auto simp: split_ok_def)
    then have "q \<noteq> a" "q \<noteq> b" using q by auto
    then show ?thesis using Some ab by (simp add: register_aliases_def Let_def register_person_alias_keeps)
  qed (simp add: register_aliases_def)
qed

lemma raise_count_keeps [simp]: "pi_forward (raise_count e n s) = pi_forward s" "pi_reverse (raise_count e n s) = pi_reverse s"
  by (simp_all add: raise_count_def)

lemma fold_raise_keeps:
  "pi_forward (fold (\<lambda>(e, n). raise_count e n) l s) = pi_forward s" "pi_reverse (fold (\<lambda>(e, n). raise_count e n) l s) = pi_reverse s"
  by (induction l arbitrary: s) auto

lemma seed_keeps:
  "pi_forward (seed_existing_placeholders t s) = pi_forward s" "pi_reverse (seed_existing_placeholders t s) = pi_reverse s"
  by (simp_all add: seed_existing_placeholders_def fold_raise_keeps)

lemma eq_ignore_ascii_case_sym: "eq_ignore_ascii_case a b \<Longrightarrow> eq_ignore_ascii_case b a"
  by (simp add: eq_ignore_ascii_case_def)

lemma eq_ignore_ascii_case_trans: "eq_ignore_ascii_case a b \<Longrightarrow> eq_ignore_ascii_case b c \<Longrightarrow> eq_ignore_ascii_case a c"
  by (simp add: eq_ignore_ascii_case_def)

lemma split_ok_case: "eq_ignore_ascii_case x y \<Longrightarrow> split_ok x p \<longleftrightarrow> split_ok y p"
  by (simp add: split_ok_def eq_ignore_ascii_case_def)

lemma create_placeholder_elim:
  assumes "create_placeholder s entity x = Some (s', p)"
  obtains base s1 where "shaped base" "split_ok x base" "resolve_collision s x base = Some p"
    "pi_forward s1 = hm_put x p (pi_forward s)" "pi_reverse s1 = hm_put p x (pi_reverse s)"
    "s' = (if entity = PiiPerson then register_aliases p x s1 else s1)"
proof -
  let ?c = "saturating_add U64_MAX (pii_count s entity) 1"
  obtain base c' where base: "base_placeholder entity x ?c = Some (base, c')"
    using assms by (auto simp: create_placeholder_def Let_def split: option.splits)
  let ?s1 = "s \<lparr> pi_counts := hm_put entity c' (pi_counts s), pi_forward := hm_put x p (pi_forward s),
    pi_reverse := hm_put p x (pi_reverse s), pi_placeholder_entities := hm_put p entity (pi_placeholder_entities s) \<rparr>"
  have "resolve_collision s x base = Some p" "s' = (if entity = PiiPerson then register_aliases p x ?s1 else ?s1)"
    using assms base by (auto simp: create_placeholder_def Let_def split: option.splits)
  then show ?thesis using base_shape [OF base] by (intro that [of base ?s1]) simp_all
qed

lemma create_keeps_inv:
  assumes inv: "pii_inv s" and new: "hm_get (pi_forward s) x = None"
    and create: "create_placeholder s entity x = Some (s', p)"
    and person: "entity = PiiPerson \<Longrightarrow> \<not> starts_with (to_ascii_lowercase x) ''bearer ''"
  shows "pii_inv s' \<and> hm_get (pi_reverse s') p = Some x \<and> pi_forward s' = hm_put x p (pi_forward s) \<and> p \<noteq> x"
proof -
  obtain base s1 where base: "shaped base" "split_ok x base" "resolve_collision s x base = Some p"
    and s1: "pi_forward s1 = hm_put x p (pi_forward s)" "pi_reverse s1 = hm_put p x (pi_reverse s)"
    and s': "s' = (if entity = PiiPerson then register_aliases p x s1 else s1)"
    using create by (rule create_placeholder_elim)
  note p = resolve_collision_shape [OF base(3,1,2)]
  have fresh: "hm_get (pi_reverse s) p = None" using p(1,4) new pii_inv_reverse [OF inv p(1), of x] by auto
  have "pii_inv s1"
    unfolding pii_inv_def
  proof (intro conjI allI impI)
    fix y q assume "hm_get (pi_forward s1) y = Some q"
    then have "y = x \<and> q = p \<or> y \<noteq> x \<and> hm_get (pi_forward s) y = Some q" by (auto simp: s1 hm_simps split: if_splits)
    then have "shaped q \<and> split_ok y q \<and>
        (\<exists>z. hm_get (pi_reverse s1) q = Some z \<and> hm_get (pi_forward s1) z = Some q \<and> eq_ignore_ascii_case z y)"
    proof (elim disjE conjE)
      assume "y = x" "q = p"
      then show ?thesis using p(1,2) by (auto simp: s1 hm_simps eq_ignore_ascii_case_def)
    next
      assume "hm_get (pi_forward s) y = Some q"
      with inv obtain z where z: "shaped q" "split_ok y q" "hm_get (pi_reverse s) q = Some z" "hm_get (pi_forward s) z = Some q" "eq_ignore_ascii_case z y"
        by (rule pii_inv_forward)
      then have "q \<noteq> p" "z \<noteq> x" using fresh new by auto
      then show ?thesis using z by (auto simp: s1 hm_simps)
    qed
    then show "shaped q" "split_ok y q"
      "\<exists>z. hm_get (pi_reverse s1) q = Some z \<and> hm_get (pi_forward s1) z = Some q \<and> eq_ignore_ascii_case z y" by auto
  next
    fix y q assume "shaped q \<and> hm_get (pi_reverse s1) q = Some y"
    then have "q = p \<and> y = x \<or> hm_get (pi_forward s) y = Some q" using pii_inv_reverse [OF inv] by (auto simp: s1 hm_simps split: if_splits)
    then show "hm_get (pi_forward s1) y = Some q" using new by (auto simp: s1 hm_simps)
  qed
  then have "pii_inv s'" using register_aliases_keeps [OF p(2) person] s' pii_inv_cong [of s1 s'] by auto
  moreover have "hm_get (pi_reverse s') p = Some x" "pi_forward s' = hm_put x p (pi_forward s)"
    using register_aliases_keeps [OF p(2) person] s' s1 p(1) by (auto simp: hm_simps)
  ultimately show ?thesis using p(3) by simp
qed

lemma merge_keeps_inv:
  assumes inv: "pii_inv s" and new: "hm_get (pi_forward s) x = None" and key: "hm_get (pi_forward s) k = Some p"
    and case': "eq_ignore_ascii_case k x" and r: "pi_forward s1 = hm_put x p (pi_forward s)"
    "pi_reverse s1 = pi_reverse s \<or> pi_reverse s1 = hm_put p x (pi_reverse s)"
  shows "pii_inv s1"
proof -
  obtain k' where k': "shaped p" "split_ok k p" "hm_get (pi_reverse s) p = Some k'" "hm_get (pi_forward s) k' = Some p" "eq_ignore_ascii_case k' k"
    using inv key by (rule pii_inv_forward)
  have rev_p: "\<exists>z \<in> {k', x}. hm_get (pi_reverse s1) p = Some z" using r(2) k'(3) by (auto simp: hm_simps)
  have rev_other: "q \<noteq> p \<Longrightarrow> hm_get (pi_reverse s1) q = hm_get (pi_reverse s) q" for q using r(2) by (auto simp: hm_simps)
  have fwd: "hm_get (pi_forward s1) y = (if y = x then Some p else hm_get (pi_forward s) y)" for y by (simp add: r hm_simps)
  have "k' \<noteq> x" using k'(4) new by auto
  show ?thesis
    unfolding pii_inv_def
  proof (intro conjI allI impI)
    fix y q assume y: "hm_get (pi_forward s1) y = Some q"
    have "shaped q \<and> split_ok y q \<and>
        (\<exists>z. hm_get (pi_reverse s1) q = Some z \<and> hm_get (pi_forward s1) z = Some q \<and> eq_ignore_ascii_case z y)"
    proof (cases "q = p")
      case True
      have "eq_ignore_ascii_case k y"
      proof (cases "y = x")
        case False
        then have "hm_get (pi_forward s) y = Some p" using y True fwd by simp
        with inv obtain z where "hm_get (pi_reverse s) p = Some z" "eq_ignore_ascii_case z y" by (rule pii_inv_forward)
        then show ?thesis using k'(3,5) by (simp add: eq_ignore_ascii_case_def)
      qed (use case' in simp)
      then have "split_ok y p" using k'(2) split_ok_case by blast
      moreover have "eq_ignore_ascii_case k' y" "eq_ignore_ascii_case x y"
        using \<open>eq_ignore_ascii_case k y\<close> k'(5) case' by (simp_all add: eq_ignore_ascii_case_def)
      ultimately show ?thesis using True rev_p k'(1,4) fwd \<open>k' \<noteq> x\<close> by auto
    next
      case False
      then have "hm_get (pi_forward s) y = Some q" using y fwd by (auto split: if_splits)
      with inv obtain z where z: "shaped q" "split_ok y q" "hm_get (pi_reverse s) q = Some z" "hm_get (pi_forward s) z = Some q" "eq_ignore_ascii_case z y"
        by (rule pii_inv_forward)
      moreover have "z \<noteq> x" using z(4) new by auto
      ultimately show ?thesis using rev_other [OF False] fwd by auto
    qed
    then show "shaped q" "split_ok y q"
      "\<exists>z. hm_get (pi_reverse s1) q = Some z \<and> hm_get (pi_forward s1) z = Some q \<and> eq_ignore_ascii_case z y" by auto
  next
    fix y q assume q: "shaped q \<and> hm_get (pi_reverse s1) q = Some y"
    show "hm_get (pi_forward s1) y = Some q"
    proof (cases "q = p")
      case True
      then show ?thesis using q rev_p k'(4) fwd by auto
    next
      case False
      then have "hm_get (pi_forward s) y = Some q" using q rev_other pii_inv_reverse [OF inv] by auto
      then show ?thesis using fwd new by auto
    qed
  qed
qed

lemma find_key_get:
  assumes "hm_ok m" and "find (\<lambda>(k, _). P k) m = Some (k, v)"
  shows "P k" "hm_get m k = Some v"
  using assms by (auto simp: find_Some_iff hm_ok_def hm_get_def intro!: map_of_is_SomeI) (metis nth_mem)

text \<open>The sessions of a request: new, seeded with a text, or after a placeholder.\<close>

inductive pii_reach :: "(string \<Rightarrow> bool) \<Rightarrow> pii_session \<Rightarrow> bool" for has_upper where
  pii_new: "pii_reach has_upper (pii_session_new reversible)"
| pii_seed: "pii_reach has_upper s \<Longrightarrow> pii_reach has_upper (seed_existing_placeholders text' s)"
| pii_get: "pii_reach has_upper s \<Longrightarrow> get_or_create_placeholder has_upper s entity x = Some (s', p) \<Longrightarrow>
    (entity = PiiPerson \<Longrightarrow> \<not> starts_with (to_ascii_lowercase x) ''bearer '') \<Longrightarrow> pii_reach has_upper s'"

lemma get_or_create_keeps:
  assumes inv: "pii_inv s" "hm_ok (pi_forward s)" and get: "get_or_create_placeholder has_upper s entity x = Some (s', p)"
    and person: "entity = PiiPerson \<Longrightarrow> \<not> starts_with (to_ascii_lowercase x) ''bearer ''"
  shows "pii_inv s' \<and> hm_ok (pi_forward s') \<and> hm_get (pi_forward s') x = Some p \<and>
    (\<forall>y q. hm_get (pi_forward s) y = Some q \<longrightarrow> hm_get (pi_forward s') y = Some q)"
proof (cases "hm_get (pi_forward s) x")
  case None
  show ?thesis
  proof (cases "if entity = PiiPerson then find (\<lambda>(k, _). eq_ignore_ascii_case k x) (pi_forward s) else None")
    case n: None
    then have create: "create_placeholder s entity x = Some (s', p)" using get None by (simp add: get_or_create_placeholder_def)
    show ?thesis using create_keeps_inv [OF inv(1) None create person] inv(2) None by (auto simp: hm_simps)
  next
    case (Some kp)
    obtain k q where kp: "kp = (k, q)" by fastforce
    have e: "entity = PiiPerson" and fnd: "find (\<lambda>(k, _). eq_ignore_ascii_case k x) (pi_forward s) = Some (k, q)"
      using Some kp by (auto split: if_splits)
    note k = find_key_get [OF inv(2) fnd]
    let ?s1 = "s \<lparr> pi_forward := hm_put x q (pi_forward s) \<rparr>"
    let ?s2 = "?s1 \<lparr> pi_reverse := hm_put q x (pi_reverse ?s1) \<rparr>"
    have r: "p = q" "s' = (if has_upper x \<and> \<not> has_upper k then register_aliases q x ?s2 else ?s1)"
      using get None e fnd by (auto simp: get_or_create_placeholder_def Let_def)
    have "split_ok x q" using k split_ok_case inv(1) by (metis pii_inv_forward)
    note al = register_aliases_keeps [OF this person [OF e]]
    have "pii_inv ?s1" "pii_inv ?s2" using merge_keeps_inv [OF inv(1) None k(2,1)] by simp_all
    then have "pii_inv s'" using r(2) al pii_inv_cong [of ?s2 s'] by auto
    moreover have "pi_forward s' = hm_put x q (pi_forward s)" using r(2) al(1) by simp
    ultimately show ?thesis using r(1) inv(2) None by (auto simp: hm_simps)
  qed
qed (use get inv in \<open>auto simp: get_or_create_placeholder_def\<close>)

lemma pii_reach_inv: "pii_reach has_upper s \<Longrightarrow> pii_inv s \<and> hm_ok (pi_forward s)"
proof (induction rule: pii_reach.induct)
  case (pii_new reversible)
  then show ?case by (simp add: pii_inv_def pii_session_new_def)
next
  case (pii_seed s t)
  then show ?case using pii_inv_cong [of s "seed_existing_placeholders t s"] by (simp add: seed_keeps)
next
  case (pii_get s entity x s' p)
  then show ?case using get_or_create_keeps by blast
qed

section \<open>The loops end\<close>

lemma free_candidate:
  assumes "inj_on f {..< n}" and "length (pi_reverse s) + 1 < n"
  shows "\<exists>k. \<not> taken s x (f k)"
proof (rule ccontr)
  assume "\<nexists>k. \<not> taken s x (f k)"
  then have "f ` {..< n} \<subseteq> insert x (fst ` set (pi_reverse s))" by (auto simp: taken_def hm_get_def map_of_eq_None_iff)
  then have "card (f ` {..< n}) \<le> card (insert x (fst ` set (pi_reverse s)))" by (intro card_mono) auto
  also have "\<dots> \<le> Suc (length (pi_reverse s))"
    using card_length [of "map fst (pi_reverse s)"] by (simp add: card_insert_if)
  finally show False using assms by (simp add: card_image)
qed

lemma candidate_found:
  assumes "inj_on f {..< n}" and "length (pi_reverse s) + 1 < n"
  shows "\<exists>k. first_from (\<lambda>k. \<not> taken s x (f k)) 0 = Some k"
proof -
  obtain k where "\<not> taken s x (f k)" using free_candidate [OF assms] by blast
  then show ?thesis using first_from_returns [of "\<lambda>k. \<not> taken s x (f k)" k 0] by simp
qed

lemma resolve_collision_returns:
  assumes "length (pi_reverse s) < 99999" and "list_all is_digit p \<Longrightarrow> plain_number p \<and> 6 \<le> length p"
  shows "\<exists>q. resolve_collision s x p = Some q"
proof (cases "list_all is_digit p")
  case True
  then have "6 \<le> length p" "plain_number p" using assms(2) by auto
  have "(10 :: nat) ^ 5 \<le> 10 ^ (length p - 1)" using \<open>6 \<le> length p\<close> by (intro power_increasing) auto
  then have "length (pi_reverse s) + 1 < 10 ^ (length p - 1)" using assms(1) by simp
  then show ?thesis using True candidate_found [OF numeric_candidates_distinct [OF \<open>plain_number p\<close>]]
    by (fastforce simp: resolve_collision_def)
next
  case False
  have "inj_on (tie_candidate p) {..< length (pi_reverse s) + 2}" by (rule inj_on_subset [OF tie_candidates_distinct]) simp
  then have "\<exists>k. first_from (\<lambda>k. \<not> taken s x (tie_candidate p k)) 0 = Some k" by (rule candidate_found) simp
  then show ?thesis using False by (auto simp: resolve_collision_def)
qed

lemma base_number:
  assumes "base_placeholder entity x c = Some (base, c')" and "list_all is_digit base"
  shows "plain_number base \<and> 6 \<le> length base"
proof -
  have secret: "6 \<le> length (numeric_secret_placeholder x)" if "6 \<le> length x"
    using that by (auto simp: numeric_secret_placeholder_def Let_def pad_zero_def)
  have hex: "length (secret_placeholder x) \<ge> 6"
    using secret by (auto simp: secret_placeholder_def hex_no_space split: option.splits)
  have no: "\<not> list_all is_digit (ip_placeholder x c)" "\<not> list_all is_digit (email_placeholder c)"
    "\<not> list_all is_digit (phone_placeholder c)"
    by (auto simp: ip_placeholder_def email_placeholder_def phone_placeholder_def Let_def is_digit_def digit_val_def)
  have card: "length (generate_fake_credit_card n b) \<ge> 6" for n b
    using filter_digits_card [of n b] card_digits_facts(1) [of n] length_filter_le [of is_digit "generate_fake_credit_card n b"] by simp
  have person: "\<not> list_all is_digit (gen_name i)" for i
    using gen_name_split [of i] by (auto simp: is_digit_def digit_val_def)
  have "6 \<le> length base"
    using assms hex no card person by (cases entity) (auto simp: base_placeholder_def)
  then show ?thesis using shaped_plain_number [OF base_shape(1) [OF assms(1)] assms(2)] by simp
qed

lemma lower_first_names: "distinct (map to_ascii_lowercase FIRST_NAMES)" "\<forall>n \<in> set (map to_ascii_lowercase FIRST_NAMES). CHR '' '' \<notin> set n"
  by code_simp+

lemma gen_name_first:
  assumes "to_ascii_lowercase (gen_name i) = to_ascii_lowercase (gen_name j)"
  shows "((i + U64_MAX) mod (U64_MAX + 1)) mod 20 = ((j + U64_MAX) mod (U64_MAX + 1)) mod 20"
proof -
  define idx where "idx i = ((i + U64_MAX) mod (U64_MAX + 1)) mod 20" for i
  let ?F = "map to_ascii_lowercase FIRST_NAMES"
  have len: "length ?F = 20" by (simp add: FIRST_NAMES_def)
  have first: "\<exists>b. to_ascii_lowercase (gen_name i) = ?F ! idx i @ CHR '' '' # b" for i
    using len by (simp add: gen_name_def Let_def to_ascii_lowercase_def idx_def ascii_lower_def)
  have "split_once '' '' (?F ! idx i @ CHR '' '' # b) = Some (?F ! idx i, b)" for i b
  proof (rule split_once_at)
    have "idx i < 20" by (simp add: idx_def)
    then have "?F ! idx i \<in> set ?F" using len by (intro nth_mem) simp
    then show "CHR '' '' \<notin> set (?F ! idx i)" using lower_first_names(2) by blast
  qed
  then have "?F ! idx i = ?F ! idx j" using first [of i] first [of j] assms by (metis option.inject prod.inject)
  moreover have "idx i < length ?F" "idx j < length ?F" unfolding len by (simp_all add: idx_def)
  ultimately show ?thesis using nth_eq_iff_index_eq [OF lower_first_names(1)] by (simp add: idx_def)
qed

text \<open>Over an index of \<open>m + 1\<close> values, the next index has another remainder.\<close>

lemma mod_twenty_next:
  assumes "m mod 20 \<noteq> 0"
  shows "((c + m) mod (m + 1)) mod 20 \<noteq> (((c + 1) mod (m + 1) + m) mod (m + 1)) mod (20 :: nat)"
proof -
  define z where "z = (c + m) mod (m + 1)"
  have z: "z \<le> m" using mod_less_divisor [of "m + 1" "c + m"] by (simp add: z_def)
  have "((c + 1) mod (m + 1) + m) mod (m + 1) = (c + m + 1) mod (m + 1)" by (simp only: mod_add_left_eq add.assoc add.commute [of 1])
  also have "\<dots> = (z + 1) mod (m + 1)" by (simp only: z_def mod_add_left_eq)
  finally have n: "((c + 1) mod (m + 1) + m) mod (m + 1) = (if z = m then 0 else z + 1)" using z by simp
  have "z mod 20 \<noteq> (z + 1) mod 20" using mod_Suc [of z 20] by auto
  then show ?thesis unfolding n z_def [symmetric] using assms by simp
qed

lemma base_placeholder_returns: "\<exists>base c'. base_placeholder entity x c = Some (base, c')"
proof (cases "entity = PiiPerson")
  case True
  let ?ok = "\<lambda>k. \<not> eq_ignore_ascii_case (gen_name ((c + k) mod (U64_MAX + 1))) x"
  have "?ok 0 \<or> ?ok 1"
  proof (rule ccontr)
    assume "\<not> (?ok 0 \<or> ?ok 1)"
    then have "to_ascii_lowercase (gen_name (c mod (U64_MAX + 1))) = to_ascii_lowercase (gen_name ((c + 1) mod (U64_MAX + 1)))"
      by (simp add: eq_ignore_ascii_case_def)
    from gen_name_first [OF this] have "((c + U64_MAX) mod (U64_MAX + 1)) mod 20 = (((c + 1) mod (U64_MAX + 1) + U64_MAX) mod (U64_MAX + 1)) mod 20"
      by (simp only: mod_add_left_eq)
    moreover have "U64_MAX mod 20 \<noteq> 0" by simp
    ultimately show False using mod_twenty_next [of U64_MAX c] by blast
  qed
  then obtain n where "?ok n" by blast
  then show ?thesis using True first_from_returns [of ?ok n 0] by (auto simp: base_placeholder_def)
qed (cases entity; simp add: base_placeholder_def)

text \<open>A placeholder is always found while the session holds fewer than 99999 replacements: neither the
  search for another name nor the loops that resolve a collision run forever, whatever the value, its
  kind and the counters.\<close>

theorem placeholder_found:
  assumes "length (pi_reverse s) < 99999"
  shows "\<exists>s' p. get_or_create_placeholder has_upper s entity x = Some (s', p)"
proof -
  obtain base c' where base: "base_placeholder entity x (saturating_add U64_MAX (pii_count s entity) 1) = Some (base, c')"
    using base_placeholder_returns by blast
  obtain q where "resolve_collision s x base = Some q"
    using resolve_collision_returns [OF assms] base_number [OF base] by blast
  then have "\<exists>s' p. create_placeholder s entity x = Some (s', p)" using base by (simp add: create_placeholder_def Let_def)
  then show ?thesis by (auto simp: get_or_create_placeholder_def Let_def split: option.splits)
qed

lemma placeholder_found_witness:
  "length (pi_reverse (pii_session_new True)) < 99999 \<and>
   (\<exists>s' p. get_or_create_placeholder (\<lambda>_. True) (pii_session_new True) PiiPerson ''alex vance'' = Some (s', p))"
  using placeholder_found [of "pii_session_new True" "\<lambda>_. True" PiiPerson "''alex vance''"] by (simp add: pii_session_new_def)

text \<open>The bound is not slack: when every number of six digits that starts with 9 is a placeholder, the loop
  for another secret of six digits never ends.\<close>

lemma six_digit_secret_base: "length x = 6 \<Longrightarrow> plain_number (numeric_secret_placeholder x) \<and> length (numeric_secret_placeholder x) = 6 \<and>
    hd (numeric_secret_placeholder x) = CHR ''9''"
  using numeric_secret_shape(1,3) [of x] shaped_plain_number [of "numeric_secret_placeholder x"]
  by (auto simp: numeric_secret_placeholder_def Let_def pad_zero_def)

lemma numeric_collision_diverges:
  assumes "\<And>p. plain_number p \<Longrightarrow> length p = 6 \<Longrightarrow> hd p = CHR ''9'' \<Longrightarrow> hm_get (pi_reverse s) p \<noteq> None"
    and "list_all is_digit x" "length x = 6" "hm_get (pi_forward s) x = None"
  shows "get_or_create_placeholder has_upper s PiiSecret x = None"
proof -
  let ?b = "numeric_secret_placeholder x"
  note b = six_digit_secret_base [OF assms(3)]
  have "taken s x (numeric_candidate ?b k)" for k
    using assms(1) numeric_candidate_step [of ?b k] b by (simp add: taken_def)
  then have "resolve_collision s x ?b = None"
    using numeric_secret_shape(3) [of x] assms(3) first_from_diverges [of "\<lambda>k. \<not> taken s x (numeric_candidate ?b k)"]
    by (simp add: resolve_collision_def)
  then show ?thesis using assms(2-4)
    by (simp add: get_or_create_placeholder_def create_placeholder_def base_placeholder_def secret_placeholder_def Let_def)
qed

text \<open>C31: Replacement is reversible for the whole request. In every session reached by seeding and
  replacing, the placeholder of a value maps back to that value, up to the case of ASCII letters, and
  no other value (up to case) shares it; earlier placeholders keep their meaning; and for a new value that
  is not a person's name the map back is exact and the placeholder is not the value itself. A person's
  value must not begin with the word that marks a bearer token.\<close>

theorem pii_placeholders_reversible:
  assumes "pii_reach has_upper s" and "get_or_create_placeholder has_upper s entity x = Some (s', p)"
    and "entity = PiiPerson \<Longrightarrow> \<not> starts_with (to_ascii_lowercase x) ''bearer ''"
  shows "(\<exists>y. hm_get (pi_reverse s') p = Some y \<and> eq_ignore_ascii_case y x) \<and>
    (\<forall>y. hm_get (pi_forward s') y = Some p \<longrightarrow> eq_ignore_ascii_case y x) \<and>
    (\<forall>y q. hm_get (pi_forward s) y = Some q \<longrightarrow>
       hm_get (pi_forward s') y = Some q \<and> (\<exists>z. hm_get (pi_reverse s') q = Some z \<and> eq_ignore_ascii_case z y)) \<and>
    (entity \<noteq> PiiPerson \<and> hm_get (pi_forward s) x = None \<longrightarrow> hm_get (pi_reverse s') p = Some x \<and> p \<noteq> x)"
proof (intro conjI allI impI)
  note inv = pii_reach_inv [OF assms(1)]
  note k = get_or_create_keeps [OF conjunct1 [OF inv] conjunct2 [OF inv] assms(2,3)]
  have restores: "\<exists>z. hm_get (pi_reverse s') q = Some z \<and> eq_ignore_ascii_case z y" if "hm_get (pi_forward s') y = Some q" for y q
    using conjunct1 [OF k] that unfolding pii_inv_def by blast
  show "\<exists>y. hm_get (pi_reverse s') p = Some y \<and> eq_ignore_ascii_case y x" using k restores by blast
  show "eq_ignore_ascii_case y x" if "hm_get (pi_forward s') y = Some p" for y
    using restores [OF that] restores [of x p] k by (auto simp: eq_ignore_ascii_case_def)
  show "hm_get (pi_forward s') y = Some q" "\<exists>z. hm_get (pi_reverse s') q = Some z \<and> eq_ignore_ascii_case z y"
    if "hm_get (pi_forward s) y = Some q" for y q using k restores that by blast+
  assume new: "entity \<noteq> PiiPerson \<and> hm_get (pi_forward s) x = None"
  then have "create_placeholder s entity x = Some (s', p)" using assms(2) by (simp add: get_or_create_placeholder_def)
  from create_keeps_inv [OF conjunct1 [OF inv] _ this assms(3)] new
  show "hm_get (pi_reverse s') p = Some x" "p \<noteq> x" by auto
qed

lemma pii_placeholders_reversible_witness:
  "\<exists>s1 s2. get_or_create_placeholder (\<lambda>_. False) (pii_session_new True) PiiPhone ''555'' = Some (s1, ''+1-202-555-0111'') \<and>
     get_or_create_placeholder (\<lambda>_. False) s1 PiiEmail ''bob@x.org'' = Some (s2, ''alex.turner1@fastmail.com'') \<and>
     hm_get (pi_reverse s2) ''alex.turner1@fastmail.com'' = Some ''bob@x.org'' \<and>
     hm_get (pi_forward s2) ''555'' = Some ''+1-202-555-0111''"
proof -
  have one: "show_nat (Suc 0) = ''1''" "show_nat 11 = ''11''" by code_simp+
  note sim = get_or_create_placeholder_def create_placeholder_def base_placeholder_def resolve_collision_def Let_def pii_count_def
    phone_placeholder_def email_placeholder_def EMAIL_NAMES_def pad_zero_def one saturating_add_def is_digit_def digit_val_def hm_simps
  obtain s1 where s1: "get_or_create_placeholder (\<lambda>_. False) (pii_session_new True) PiiPhone ''555'' = Some (s1, ''+1-202-555-0111'')"
    "pi_forward s1 = [(''555'', ''+1-202-555-0111'')]" "pi_reverse s1 = [(''+1-202-555-0111'', ''555'')]" "pi_counts s1 = [(PiiPhone, 1)]"
    by (simp add: sim pii_session_new_def hm_put_def)
  obtain s2 where s2: "get_or_create_placeholder (\<lambda>_. False) s1 PiiEmail ''bob@x.org'' = Some (s2, ''alex.turner1@fastmail.com'')"
    by (simp add: sim s1 hm_get_def)
  have "pii_reach (\<lambda>_. False) s1" using pii_get [OF pii_new s1(1)] by simp
  from pii_placeholders_reversible [OF this s2] show ?thesis using s1 s2 by (auto simp: hm_get_def)
qed

end
