(* ===== verification/Pii_Candidates.thy ===== *)
theory Pii_Candidates
  imports Pii_Session Core_Error
begin

text \<open>
  What the PII engine finds in a text (openproxy-pipeline/src/pii/engine/candidates and the range
  searches of protected.rs). The regular expressions are run by the regex crate: the field
  \<open>captures_iter\<close> of the environment gives the matches of one of the compiled expressions, each as the
  list of its groups, group 0 (the whole match) first. The Unicode tables of \<open>char\<close> and the logarithm
  are fields too; a character is the list of its bytes. Floating point is taken over the rationals.
\<close>

section \<open>Matches\<close>

datatype regex_name =
    REGEX_FENCED_CODE | REGEX_INLINE_CODE | REGEX_URL | REGEX_DATA_URI | REGEX_URI_USERINFO_PASSWORD
    | REGEX_URL_SENSITIVE_PARAM | REGEX_DSN_PASSWORD | REGEX_JSON_KEY | REGEX_EMAIL | REGEX_IPV4 | REGEX_IPV6
    | REGEX_PHONE_INTL | REGEX_PHONE_REGIONAL | REGEX_DATE_OR_TIME | REGEX_CREDIT_CARD_CANDIDATE | REGEX_SECRET_BEARER
    | REGEX_SECRET_AWS | REGEX_SECRET_OPENAI | REGEX_SECRET_ANTHROPIC | REGEX_SECRET_GITHUB | REGEX_SECRET_SLACK
    | REGEX_SECRET_GOOGLE | REGEX_SECRET_CLOUDFLARE | REGEX_SECRET_TELEGRAM | REGEX_SECRET_PRIVATE_KEY_PEM
    | REGEX_SECRET_BASIC_AUTH | REGEX_SECRET_AI_CLOUD_PLATFORMS | REGEX_SECRET_CLI_FLAGS | REGEX_SECRET_SSHPASS
    | REGEX_SECRET_PLATFORM_ID | REGEX_SECRET_PASSWORD_HASH | REGEX_IBAN_CANDIDATE | REGEX_NATIONAL_ID_ES
    | REGEX_NATIONAL_ID_CL | REGEX_NATIONAL_ID_US | REGEX_SECRET_LABELED | REGEX_SECRET_HIGH_ENTROPY
    | REGEX_SECRET_JWT | REGEX_HONORIFIC_NAME | REGEX_CAPITALIZED_SEQUENCE | REGEX_CONTEXTUAL_PERSON
    | REGEX_SINGLE_WORD_CAPITALIZED

type_synonym capture = "range option list"

record pii_env =
  captures_iter :: "regex_name \<Rightarrow> string \<Rightarrow> capture list"
  is_alphanumeric :: "string \<Rightarrow> bool"
  is_alphabetic :: "string \<Rightarrow> bool"
  log2_f64 :: "rat \<Rightarrow> rat"

definition cap_get :: "capture \<Rightarrow> nat \<Rightarrow> range option" where
  "cap_get c n = (if n < length c then c ! n else None)"

definition cap_first :: "nat list \<Rightarrow> capture \<Rightarrow> range option" where
  "cap_first ns c = first_some (cap_get c) ns"

text \<open>\<open>find_iter\<close> and the matches of one group.\<close>

definition group_iter :: "pii_env \<Rightarrow> regex_name \<Rightarrow> nat list \<Rightarrow> string \<Rightarrow> range list" where
  "group_iter env rx ns t = List.map_filter (cap_first ns) (captures_iter env rx t)"

definition find_iter :: "pii_env \<Rightarrow> regex_name \<Rightarrow> string \<Rightarrow> range list" where
  "find_iter env rx t = group_iter env rx [0] t"

definition slice :: "string \<Rightarrow> range \<Rightarrow> string" where
  "slice t r = take (snd r - fst r) (drop (fst r) t)"

fun utf8_chars :: "string \<Rightarrow> string list" where
  "utf8_chars [] = []"
| "utf8_chars (c # cs) =
     (case utf8_chars cs of
        [] \<Rightarrow> [[c]]
      | w # ws \<Rightarrow> (if is_continuation_byte (hd w) then (c # w) # ws else [c] # w # ws))"

definition trim_end_chars :: "string \<Rightarrow> string \<Rightarrow> string" where
  "trim_end_chars cs s = rev (dropWhile (\<lambda>c. c \<in> set cs) (rev s))"

definition trim_start_chars :: "string \<Rightarrow> string \<Rightarrow> string" where
  "trim_start_chars cs s = dropWhile (\<lambda>c. c \<in> set cs) s"

text \<open>The first of \<open>str::lines\<close>.\<close>

definition first_line :: "string \<Rightarrow> string" where
  "first_line s = (let l = takeWhile (\<lambda>c. c \<noteq> CHR 0x0A) s
     in if length l < length s \<and> ends_with l [CHR 0x0D] then butlast l else l)"

section \<open>Protected ranges of a text\<close>

fun url_gaps :: "nat \<Rightarrow> nat \<Rightarrow> range list \<Rightarrow> range list" where
  "url_gaps pos end' [] = (if pos < end' then [(pos, end')] else [])"
| "url_gaps pos end' (r # rs) = (if fst r > pos then [(pos, fst r)] else []) @ url_gaps (max pos (snd r)) end' rs"

definition shift_range :: "nat \<Rightarrow> range \<Rightarrow> range" where
  "shift_range n r = (n + fst r, n + snd r)"

definition url_carveouts :: "pii_env \<Rightarrow> string \<Rightarrow> range \<Rightarrow> range list" where
  "url_carveouts env t m =
     (let url = slice t m in
      map (shift_range (fst m))
        ((case captures_iter env REGEX_URI_USERINFO_PASSWORD url of
            c # _ \<Rightarrow> (case cap_get c 1 of Some p \<Rightarrow> [p] | None \<Rightarrow> [])
          | [] \<Rightarrow> []) @
         group_iter env REGEX_URL_SENSITIVE_PARAM [1] url))"

definition url_ranges :: "range \<Rightarrow> range list \<Rightarrow> range list" where
  "url_ranges m carveouts =
     (if carveouts = [] then [m] else url_gaps (fst m) (snd m) (sort_by cmp_start carveouts))"

definition syntax_ranges :: "pii_env \<Rightarrow> string \<Rightarrow> range list" where
  "syntax_ranges env t =
     concat (map (\<lambda>m. url_ranges m (url_carveouts env t m)) (find_iter env REGEX_URL t)) @
     find_iter env REGEX_DATA_URI t @ group_iter env REGEX_JSON_KEY [1] t"

definition find_syntax_protected_ranges :: "pii_env \<Rightarrow> string \<Rightarrow> range list" where
  "find_syntax_protected_ranges env t = merge_ranges (syntax_ranges env t)"

definition find_code_protected_ranges :: "pii_env \<Rightarrow> string \<Rightarrow> range list" where
  "find_code_protected_ranges env t = merge_ranges (find_iter env REGEX_FENCED_CODE t @ find_iter env REGEX_INLINE_CODE t)"

section \<open>Candidates\<close>

record pii_candidate =
  cd_start :: nat
  cd_end :: nat
  cd_entity :: pii_entity
  cd_text :: string

text \<open>A span becomes a candidate when it is outside the protected ranges.\<close>

definition push_spans :: "range list \<Rightarrow> pii_entity \<Rightarrow> string \<Rightarrow> range list \<Rightarrow> pii_candidate list" where
  "push_spans prot entity t spans =
     map (\<lambda>r. \<lparr> cd_start = fst r, cd_end = snd r, cd_entity = entity, cd_text = slice t r \<rparr>)
       (filter (\<lambda>r. \<not> is_in_protected_range prot (fst r) (snd r)) spans)"

definition shannon_entropy :: "(rat \<Rightarrow> rat) \<Rightarrow> string \<Rightarrow> rat" where
  "shannon_entropy log2 s =
     (if s = [] then 0
      else foldl (\<lambda>entropy b. let c = length (filter (\<lambda>x. of_char x = (b :: nat)) s) in
                    if c > 0 then (let p = of_nat c / of_nat (length s) in entropy - p * log2 p) else entropy)
             0 [0..<256])"

definition is_hexdigit :: "char \<Rightarrow> bool" where
  "is_hexdigit c = (let n = of_char c :: nat in (48 \<le> n \<and> n \<le> 57) \<or> (65 \<le> n \<and> n \<le> 70) \<or> (97 \<le> n \<and> n \<le> 102))"

definition is_high_entropy_secret :: "(rat \<Rightarrow> rat) \<Rightarrow> string \<Rightarrow> bool" where
  "is_high_entropy_secret log2 s =
     (32 \<le> length s \<and> length s \<le> 64 \<and> list_ex is_alpha s \<and> list_ex is_digit s \<and> \<not> str_contains s ''__'' \<and>
      (if list_all is_hexdigit s then shannon_entropy log2 s \<ge> 33 / 10 else shannon_entropy log2 s \<ge> 38 / 10))"

section \<open>Secrets\<close>

definition SECRET_TAIL :: string where
  "SECRET_TAIL = [CHR 0x5C, CHR '';'', CHR '','', CHR ''.'', CHR '')'', CHR '']'', CHR ''}'', CHR 0x22, CHR 0x27]"

text \<open>A span without the trailing characters.\<close>

definition trim_span :: "string \<Rightarrow> string \<Rightarrow> range \<Rightarrow> range" where
  "trim_span cs t r = (fst r, fst r + length (trim_end_chars cs (slice t r)))"

definition labeled_span :: "pii_env \<Rightarrow> string \<Rightarrow> capture \<Rightarrow> range option" where
  "labeled_span env t cap =
     (case cap_first [1, 5] cap of
        None \<Rightarrow> None
      | Some key_m \<Rightarrow>
          (case cap_first [2, 3, 4, 6, 7, 8] cap of
             None \<Rightarrow> None
           | Some val_m \<Rightarrow>
               (let trimmed_val = trim_end_chars SECRET_TAIL (slice t val_m);
                    tail = trim (first_line (drop (snd val_m) t));
                    prose = (cap_get cap 4 \<noteq> None \<or> cap_get cap 8 \<noteq> None) \<and> snd val_m < length t \<and>
                            tail \<noteq> [] \<and> \<not> starts_with tail ''#'' \<and>
                            list_all (is_alphabetic env) (utf8_chars trimmed_val) \<and>
                            \<not> is_high_entropy_secret (log2_f64 env) trimmed_val
                in if prose then None
                   else if length trimmed_val \<ge> 4 \<and> is_valid_secret_value (slice t key_m) trimmed_val
                   then Some (trim_span SECRET_TAIL t val_m) else None)))"

text \<open>A value behind a dash is left to the expression for command line flags.\<close>

definition after_flag_dash :: "string \<Rightarrow> range \<Rightarrow> bool" where
  "after_flag_dash t r =
     (fst r > 0 \<and> t ! (fst r - 1) = CHR ''-'' \<and>
      (fst r \<ge> 2 \<longrightarrow>
         t ! (fst r - 2) \<in> {CHR 0x09, CHR 0x0A, CHR 0x0C, CHR 0x0D, CHR '' '', CHR 0x22, CHR 0x27, CHR ''['', CHR '','', CHR ''-''}))"

definition spanish_spans :: "pii_env \<Rightarrow> string \<Rightarrow> range list option" where
  "spanish_spans env t =
     (let ms = find_iter env REGEX_NATIONAL_ID_ES t
      in if list_all (\<lambda>r. is_valid_spanish_id (slice t r) \<noteq> None) ms
         then Some (filter (\<lambda>r. is_valid_spanish_id (slice t r) = Some True) ms) else None)"

definition chilean_span :: "string \<Rightarrow> capture \<Rightarrow> range option" where
  "chilean_span t cap =
     (case (cap_get cap 0, cap_get cap 1, cap_get cap 2) of
        (Some m_full, Some m_digits, Some m_verif) \<Rightarrow>
          (let v = utf8_chars (slice t m_verif);
               verif_char = (case v of [] \<Rightarrow> CHR ''?'' | [c] # _ \<Rightarrow> c | _ \<Rightarrow> CHR 0x00)
           in if is_valid_chilean_rut (slice t m_digits) verif_char then Some m_full else None)
      | _ \<Rightarrow> None)"

definition vendor_key_spans :: "pii_env \<Rightarrow> string \<Rightarrow> range list" where
  "vendor_key_spans env t =
     filter (\<lambda>r. snd r - fst r \<ge> 20) (map (trim_span ''.'' t) (group_iter env REGEX_SECRET_BEARER [1] t)) @
     concat (map (\<lambda>rx. find_iter env rx t)
       [REGEX_SECRET_AWS, REGEX_SECRET_OPENAI, REGEX_SECRET_ANTHROPIC, REGEX_SECRET_GITHUB, REGEX_SECRET_SLACK,
        REGEX_SECRET_GOOGLE, REGEX_SECRET_CLOUDFLARE, REGEX_SECRET_TELEGRAM, REGEX_SECRET_PRIVATE_KEY_PEM])"

definition password_spans :: "pii_env \<Rightarrow> string \<Rightarrow> range list" where
  "password_spans env t =
     filter (\<lambda>r. snd r - fst r \<ge> 6 \<and> is_valid_secret_value ''token'' (slice t r))
       (map (trim_span SECRET_TAIL t) (group_iter env REGEX_URL_SENSITIVE_PARAM [1] t)) @
     filter (\<lambda>r. \<not> after_flag_dash t r \<and> is_high_entropy_secret (log2_f64 env) (slice t r)) (find_iter env REGEX_SECRET_HIGH_ENTROPY t) @
     find_iter env REGEX_SECRET_JWT t @
     group_iter env REGEX_URI_USERINFO_PASSWORD [1] t @
     filter (\<lambda>r. is_valid_secret_value ''password'' (slice t r)) (group_iter env REGEX_DSN_PASSWORD [1] t) @
     group_iter env REGEX_SECRET_PASSWORD_HASH [1] t @
     group_iter env REGEX_SECRET_BASIC_AUTH [1] t"

definition flag_spans :: "pii_env \<Rightarrow> string \<Rightarrow> range list" where
  "flag_spans env t =
     find_iter env REGEX_SECRET_AI_CLOUD_PLATFORMS t @
     filter (\<lambda>r. is_valid_secret_value ''-p'' (slice t r)) (group_iter env REGEX_SECRET_CLI_FLAGS [1, 2] t) @
     filter (\<lambda>r. slice t r \<noteq> [] \<and> is_valid_secret_value ''-p_sshpass'' (slice t r)) (group_iter env REGEX_SECRET_SSHPASS [1, 2] t) @
     group_iter env REGEX_SECRET_PLATFORM_ID [1, 2] t"

definition secret_spans :: "pii_env \<Rightarrow> string \<Rightarrow> range list option" where
  "secret_spans env t =
     map_option (\<lambda>es.
         vendor_key_spans env t @
         List.map_filter (labeled_span env t) (captures_iter env REGEX_SECRET_LABELED t) @
         password_spans env t @
         flag_spans env t @
         es @
         List.map_filter (chilean_span t) (captures_iter env REGEX_NATIONAL_ID_CL t) @
         filter (\<lambda>r. is_valid_ssn (slice t r)) (find_iter env REGEX_NATIONAL_ID_US t))
       (spanish_spans env t)"

definition collect_secret_candidates :: "pii_env \<Rightarrow> string \<Rightarrow> range list \<Rightarrow> pii_candidate list option" where
  "collect_secret_candidates env t prot = map_option (push_spans prot PiiSecret t) (secret_spans env t)"

section \<open>Addresses\<close>

text \<open>\<open>Ipv4Addr::from_str\<close> and \<open>Ipv6Addr::from_str\<close>: the parser of the standard library, on the rest of the text.\<close>

definition hex_val :: "char \<Rightarrow> nat" where
  "hex_val c = (let n = of_char c in if n \<le> 57 then n - 48 else if n \<le> 70 then n - 55 else n - 87)"

definition read_number :: "nat \<Rightarrow> nat \<Rightarrow> bool \<Rightarrow> nat \<Rightarrow> string \<Rightarrow> (nat \<times> string) option" where
  "read_number radix max_digits zero_prefix bound s =
     (let ds = takeWhile (if radix = 16 then is_hexdigit else is_digit) s;
          n = foldl (\<lambda>acc d. acc * radix + hex_val d) 0 ds
      in if ds = [] \<or> length ds > max_digits \<or> (\<not> zero_prefix \<and> hd ds = CHR ''0'' \<and> length ds > 1) \<or> n > bound then None
         else Some (n, drop (length ds) s))"

text \<open>With a separator before all but the first part.\<close>

definition read_after :: "char \<Rightarrow> nat \<Rightarrow> (string \<Rightarrow> 'a option) \<Rightarrow> string \<Rightarrow> 'a option" where
  "read_after sep i f s =
     (if i = 0 then f s else (case s of c # cs \<Rightarrow> (if c = sep then f cs else None) | [] \<Rightarrow> None))"

fun read_octets :: "nat \<Rightarrow> nat \<Rightarrow> string \<Rightarrow> (nat list \<times> string) option" where
  "read_octets 0 i s = Some ([], s)"
| "read_octets (Suc k) i s =
     (case read_after (CHR ''.'') i (read_number 10 3 False 255) s of
        None \<Rightarrow> None
      | Some (n, rest) \<Rightarrow> map_option (\<lambda>(ns, r). (n # ns, r)) (read_octets k (Suc i) rest))"

definition parse_ipv4 :: "string \<Rightarrow> nat list option" where
  "parse_ipv4 s =
     (if length s > 15 then None
      else (case read_octets 4 0 s of Some (ns, []) \<Rightarrow> Some ns | _ \<Rightarrow> None))"

text \<open>Groups of an IPv6 address: at most \<open>k\<close>, the flag says that the last two are an IPv4 address.\<close>

fun read_groups :: "nat \<Rightarrow> nat \<Rightarrow> string \<Rightarrow> nat list \<times> bool \<times> string" where
  "read_groups 0 i s = ([], False, s)"
| "read_groups (Suc k) i s =
     (case (if k > 0 then read_after (CHR '':'') i (read_octets 4 0) s else None) of
        Some (ns, rest) \<Rightarrow> ([ns ! 0 * 256 + ns ! 1, ns ! 2 * 256 + ns ! 3], True, rest)
      | None \<Rightarrow>
          (case read_after (CHR '':'') i (read_number 16 4 True 65535) s of
             None \<Rightarrow> ([], False, s)
           | Some (g, rest) \<Rightarrow> (let (gs, v4, r) = read_groups k (Suc i) rest in (g # gs, v4, r))))"

definition parse_ipv6 :: "string \<Rightarrow> nat list option" where
  "parse_ipv6 s =
     (let (head, head_ipv4, rest) = read_groups 8 0 s in
      if length head = 8 then (if rest = [] then Some head else None)
      else if head_ipv4 \<or> \<not> starts_with rest ''::'' then None
      else (let (tail, _, rest') = read_groups (7 - length head) 0 (drop 2 rest)
            in if rest' = [] then Some (head @ replicate (8 - length head - length tail) 0 @ tail) else None))"

section \<open>Contacts and cards\<close>

text \<open>A run of digits stands next to the span, behind separators.\<close>

definition digits_before :: "string \<Rightarrow> string \<Rightarrow> range \<Rightarrow> bool" where
  "digits_before seps t r =
     (let head = take (fst r) t; trimmed = trim_end_chars seps head
      in fst r > 0 \<and> head \<noteq> [] \<and> last head \<in> set seps \<and> trimmed \<noteq> [] \<and> is_digit (last trimmed))"

definition digits_behind :: "string \<Rightarrow> string \<Rightarrow> range \<Rightarrow> bool" where
  "digits_behind seps t r =
     (let tail = drop (snd r) t; trimmed = trim_start_chars seps tail
      in snd r < length t \<and> hd tail \<in> set seps \<and> trimmed \<noteq> [] \<and> is_digit (hd trimmed))"

definition card_spans :: "pii_env \<Rightarrow> string \<Rightarrow> range list" where
  "card_spans env t =
     filter (\<lambda>r. \<not> digits_before ''- '' t r \<and> \<not> digits_behind ''- '' t r \<and> luhn_check (filter is_digit (slice t r)))
       (find_iter env REGEX_CREDIT_CARD_CANDIDATE t) @
     filter (\<lambda>r. is_valid_iban (slice t r)) (find_iter env REGEX_IBAN_CANDIDATE t)"

definition ipv4_span :: "string \<Rightarrow> range \<Rightarrow> bool" where
  "ipv4_span t r =
     (\<not> (fst r > 0 \<and> t ! (fst r - 1) \<in> {CHR ''v'', CHR ''V''}) \<and>
      \<not> (fst r > 1 \<and> t ! (fst r - 1) = CHR ''.'' \<and> is_digit (t ! (fst r - 2))) \<and>
      \<not> (snd r + 1 < length t \<and> t ! snd r = CHR ''.'' \<and> is_digit (t ! (snd r + 1))) \<and>
      parse_ipv4 (slice t r) \<noteq> None)"

definition NETWORK_LABELS :: "string list" where
  "NETWORK_LABELS = [''ip'', ''ipv6'', ''host'', ''address'', ''bind'', ''listen'', ''listening'', ''interface'', ''gateway'',
     ''ip_address'', ''bind_address'']"

definition is_word_char :: "pii_env \<Rightarrow> string \<Rightarrow> bool" where
  "is_word_char env c = (is_alphanumeric env c \<or> c = ''_'')"

definition unspecified_in_context :: "pii_env \<Rightarrow> string \<Rightarrow> range \<Rightarrow> bool" where
  "unspecified_in_context env t r =
     (let before = rev (utf8_chars (take (fst r) t)); after = utf8_chars (drop (snd r) t);
          attached = (before \<noteq> [] \<and> is_word_char env (hd before)) \<or> (after \<noteq> [] \<and> is_word_char env (hd after));
          previous_word = concat (rev (takeWhile (is_word_char env)
            (dropWhile (\<lambda>c. c \<in> set whitespace_seqs \<or> c = '':'' \<or> c = ''='') before)));
          network_context = list_ex (eq_ignore_ascii_case previous_word) NETWORK_LABELS
      in \<not> (attached \<or> (trim t \<noteq> ''::'' \<and> \<not> network_context)))"

definition ipv6_span :: "pii_env \<Rightarrow> string \<Rightarrow> range \<Rightarrow> bool" where
  "ipv6_span env t r =
     (\<not> (fst r > 0 \<and> (t ! (fst r - 1) = CHR '':'' \<or> is_hexdigit (t ! (fst r - 1)))) \<and>
      \<not> (snd r < length t \<and> (t ! snd r = CHR '':'' \<or> is_hexdigit (t ! snd r))) \<and>
      (slice t r = ''::'' \<longrightarrow> unspecified_in_context env t r) \<and>
      CHR '':'' \<in> set (slice t r) \<and> parse_ipv6 (slice t r) \<noteq> None)"

definition FULLWIDTH_DIGITS :: "string list" where
  "FULLWIDTH_DIGITS = map (\<lambda>i. [CHR 0xEF, CHR 0xBC, char_of i]) [144..<154 :: nat]"

definition phone_digits :: "pii_env \<Rightarrow> string \<Rightarrow> bool" where
  "phone_digits env s =
     (let n = length (filter (\<lambda>c. (length c = 1 \<and> is_digit (hd c)) \<or> c \<in> set FULLWIDTH_DIGITS) (utf8_chars s))
      in 7 \<le> n \<and> n \<le> 15 \<and> captures_iter env REGEX_DATE_OR_TIME s = [])"

definition phone_spans :: "pii_env \<Rightarrow> string \<Rightarrow> range list" where
  "phone_spans env t =
     filter (\<lambda>r. \<not> (fst r > 0 \<and> is_alnum (t ! (fst r - 1))) \<and> \<not> (snd r < length t \<and> is_digit (t ! snd r)) \<and>
         \<not> digits_behind ''-. '' t r \<and> phone_digits env (slice t r))
       (find_iter env REGEX_PHONE_INTL t) @
     filter (\<lambda>r. \<not> (fst r > 0 \<and> (is_alnum (t ! (fst r - 1)) \<or> t ! (fst r - 1) \<in> set ''+*/=%'')) \<and>
         \<not> digits_before ''-. '' t r \<and> \<not> digits_behind ''-. '' t r \<and> phone_digits env (slice t r))
       (find_iter env REGEX_PHONE_REGIONAL t)"

definition collect_network_finance_candidates :: "pii_env \<Rightarrow> pii_entity list \<Rightarrow> string \<Rightarrow> range list \<Rightarrow> pii_candidate list" where
  "collect_network_finance_candidates env entities t prot =
     (if PiiEmail \<in> set entities then push_spans prot PiiEmail t (find_iter env REGEX_EMAIL t) else []) @
     (if PiiCreditCard \<in> set entities then push_spans prot PiiCreditCard t (card_spans env t) else []) @
     (if PiiIp \<in> set entities
      then push_spans prot PiiIp t (filter (ipv4_span t) (find_iter env REGEX_IPV4 t) @ filter (ipv6_span env t) (find_iter env REGEX_IPV6 t))
      else []) @
     (if PiiPhone \<in> set entities then push_spans prot PiiPhone t (phone_spans env t) else [])"

section \<open>Persons\<close>

definition COMMON_FIRST_NAMES :: "string list" where
  "COMMON_FIRST_NAMES =
    [''Miguel'', ''Carlos'', ''Alejandro'', ''Javier'', ''Fernando'', ''Alvaro'',
     [CHR 0xC3, CHR 0x81, CHR 0x6C, CHR 0x76, CHR 0x61, CHR 0x72, CHR 0x6F], ''Andres'',
     [CHR 0x41, CHR 0x6E, CHR 0x64, CHR 0x72, CHR 0xC3, CHR 0xA9, CHR 0x73], ''Diego'', ''Mateo'', ''Gabriel'',
     ''Santiago'', ''Manuel'', ''Lucas'', ''Rodrigo'', ''Gonzalo'', ''Ignacio'', ''Pablo'', ''Pedro'', ''Juan'',
     ''Jose'', [CHR 0x4A, CHR 0x6F, CHR 0x73, CHR 0xC3, CHR 0xA9], ''Luis'', ''Maria'',
     [CHR 0x4D, CHR 0x61, CHR 0x72, CHR 0xC3, CHR 0xAD, CHR 0x61], ''Carmen'', ''Ana'', ''Laura'', ''Sofia'',
     [CHR 0x53, CHR 0x6F, CHR 0x66, CHR 0xC3, CHR 0xAD, CHR 0x61], ''Isabel'', ''Elena'', ''Marta'', ''Lucia'',
     [CHR 0x4C, CHR 0x75, CHR 0x63, CHR 0xC3, CHR 0xAD, CHR 0x61], ''Paula'', ''Sara'', ''Claudia'', ''Beatriz'',
     ''Teresa'', ''Patricia'', ''David'', ''Daniel'', ''Alex'', ''Alexander'', ''Michael'', ''John'', ''James'',
     ''Robert'', ''William'', ''Thomas'', ''Richard'', ''Charles'', ''Joseph'', ''Sarah'', ''Emily'', ''Jessica'',
     ''Emma'', ''Olivia'', ''Ava'', ''Isabella'', [CHR 0x4A, CHR 0x65, CHR 0x73, CHR 0xC3, CHR 0xBA, CHR 0x73],
     [CHR 0xC3, CHR 0x81, CHR 0x6E, CHR 0x67, CHR 0x65, CHR 0x6C], [CHR 0x52, CHR 0x61, CHR 0xC3, CHR 0xBA, CHR 0x6C],
     [CHR 0x4D, CHR 0x61, CHR 0x72, CHR 0x74, CHR 0xC3, CHR 0xAD, CHR 0x6E],
     [CHR 0x4A, CHR 0x6F, CHR 0x61, CHR 0x71, CHR 0x75, CHR 0xC3, CHR 0xAD, CHR 0x6E],
     [CHR 0x54, CHR 0x6F, CHR 0x6D, CHR 0xC3, CHR 0xA1, CHR 0x73], [CHR 0x49, CHR 0x6E, CHR 0xC3, CHR 0xA9, CHR 0x73],
     [CHR 0x4D, CHR 0x61, CHR 0x74, CHR 0xC3, CHR 0xAD, CHR 0x61, CHR 0x73],
     [CHR 0x53, CHR 0x65, CHR 0x62, CHR 0x61, CHR 0x73, CHR 0x74, CHR 0x69, CHR 0xC3, CHR 0xA1, CHR 0x6E]]"

definition is_heading_or_bracket :: "string \<Rightarrow> range \<Rightarrow> bool" where
  "is_heading_or_bracket t r =
     (fst r > 0 \<and> list_ex (ends_with (trim_end (take (fst r) t)))
        [[CHR 0xE2, CHR 0x80, CHR 0xA2], ''-'', ''*'', ''['', ''#'', '':''])"

definition collect_person_candidates :: "pii_env \<Rightarrow> string \<Rightarrow> range list \<Rightarrow> range list \<Rightarrow> pii_candidate list" where
  "collect_person_candidates env t prot code =
     (let outside_code = filter (\<lambda>r. \<not> is_in_protected_range code (fst r) (snd r)) in
      push_spans prot PiiPerson t (filter (\<lambda>r. \<not> is_stopword (slice t r)) (group_iter env REGEX_CONTEXTUAL_PERSON [1, 2, 3] t)) @
      push_spans prot PiiPerson t (outside_code
        (filter (\<lambda>r. slice t r \<in> set COMMON_FIRST_NAMES) (group_iter env REGEX_SINGLE_WORD_CAPITALIZED [1] t))) @
      push_spans prot PiiPerson t (outside_code
        (filter (\<lambda>r. list_all (\<lambda>w. \<not> is_stopword w) (split_whitespace (slice t r))) (group_iter env REGEX_HONORIFIC_NAME [1] t))) @
      push_spans prot PiiPerson t (outside_code
        (filter (\<lambda>r. let words = split_whitespace (slice t r) in
             length words \<ge> 2 \<and> hd words \<in> set COMMON_FIRST_NAMES \<and> list_all (\<lambda>w. \<not> is_stopword w) words \<and>
             \<not> is_heading_or_bracket t r) (group_iter env REGEX_CAPITALIZED_SEQUENCE [1] t))))"

section \<open>All candidates\<close>

definition collect_candidates ::
    "pii_env \<Rightarrow> pii_entity list \<Rightarrow> string \<Rightarrow> range list \<Rightarrow> range list \<Rightarrow> pii_candidate list option" where
  "collect_candidates env entities t prot code =
     map_option (\<lambda>secrets.
         secrets @
         (if list_ex (\<lambda>e. e \<in> set entities) [PiiEmail, PiiCreditCard, PiiIp, PiiPhone]
          then collect_network_finance_candidates env entities t prot else []) @
         (if PiiPerson \<in> set entities then collect_person_candidates env t prot code else []))
       (if PiiSecret \<in> set entities then collect_secret_candidates env t prot else Some [])"

section \<open>What the matches promise\<close>

text \<open>The regex crate reports spans that lie in the searched text.\<close>

definition spans_in :: "string \<Rightarrow> range list \<Rightarrow> bool" where
  "spans_in t = list_all (\<lambda>r. fst r \<le> snd r \<and> snd r \<le> length t)"

definition regex_law :: "pii_env \<Rightarrow> bool" where
  "regex_law env \<longleftrightarrow> (\<forall>rx t. \<forall>c \<in> set (captures_iter env rx t). spans_in t (List.map_filter id c))"

lemma spans_in_simps [simp]:
  "spans_in t []" "spans_in t (r # rs) \<longleftrightarrow> fst r \<le> snd r \<and> snd r \<le> length t \<and> spans_in t rs"
  "spans_in t (xs @ ys) \<longleftrightarrow> spans_in t xs \<and> spans_in t ys"
  by (auto simp: spans_in_def)

lemma spans_in_filter [simp]: "spans_in t xs \<Longrightarrow> spans_in t (filter P xs)"
  by (auto simp: spans_in_def list_all_iff)

lemma spans_in_concat: "(\<And>xs. xs \<in> set xss \<Longrightarrow> spans_in t xs) \<Longrightarrow> spans_in t (concat xss)"
  by (induction xss) auto

lemma cap_get_in:
  assumes "regex_law env" "c \<in> set (captures_iter env rx t)" "cap_get c n = Some r"
  shows "fst r \<le> snd r" "snd r \<le> length t"
proof -
  have "Some r \<in> set c" using assms(3) by (auto simp: cap_get_def split: if_splits) (metis nth_mem)
  then have "r \<in> set (List.map_filter id c)" by (force simp: List.map_filter_def)
  moreover have "spans_in t (List.map_filter id c)" using assms(1,2) by (auto simp: regex_law_def)
  ultimately show "fst r \<le> snd r" "snd r \<le> length t" by (auto simp: spans_in_def list_all_iff)
qed

lemma cap_first_in:
  assumes "regex_law env" "c \<in> set (captures_iter env rx t)" "cap_first ns c = Some r"
  shows "fst r \<le> snd r \<and> snd r \<le> length t"
  using assms(3) cap_get_in [OF assms(1,2)] first_some_Some unfolding cap_first_def by fast

lemma map_filter_spans_in:
  assumes "\<And>c r. c \<in> set cs \<Longrightarrow> f c = Some r \<Longrightarrow> fst r \<le> snd r \<and> snd r \<le> length t"
  shows "spans_in t (List.map_filter f cs)"
  using assms by (auto simp: spans_in_def list_all_iff List.map_filter_def)

lemma group_iter_in: "regex_law env \<Longrightarrow> spans_in t (group_iter env rx ns t)"
  unfolding group_iter_def by (rule map_filter_spans_in) (rule cap_first_in)

lemma find_iter_in: "regex_law env \<Longrightarrow> spans_in t (find_iter env rx t)"
  unfolding find_iter_def by (rule group_iter_in)

lemma trim_end_chars_length: "length (trim_end_chars cs s) \<le> length s"
  using length_dropWhile_le [of _ "rev s"] by (simp add: trim_end_chars_def)

lemma trim_span_in: "fst r \<le> snd r \<Longrightarrow> snd r \<le> length t \<Longrightarrow> fst (trim_span cs t r) \<le> snd (trim_span cs t r) \<and> snd (trim_span cs t r) \<le> length t"
  using trim_end_chars_length [of cs "slice t r"] by (auto simp: trim_span_def slice_def)

lemma trim_spans_in: "spans_in t rs \<Longrightarrow> spans_in t (map (trim_span cs t) rs)"
  by (induction rs) (auto simp: trim_span_in)

lemma labeled_span_in:
  assumes "regex_law env" "c \<in> set (captures_iter env rx t)" "labeled_span env t c = Some r"
  shows "fst r \<le> snd r \<and> snd r \<le> length t"
proof -
  obtain v where "cap_first [2, 3, 4, 6, 7, 8] c = Some v" "r = trim_span SECRET_TAIL t v"
    using assms(3) by (auto simp: labeled_span_def Let_def split: option.splits if_splits)
  then show ?thesis using cap_first_in [OF assms(1,2)] trim_span_in by blast
qed

lemma chilean_span_in:
  assumes "regex_law env" "c \<in> set (captures_iter env rx t)" "chilean_span t c = Some r"
  shows "fst r \<le> snd r \<and> snd r \<le> length t"
  using cap_get_in [OF assms(1,2)] assms(3) by (fastforce simp: chilean_span_def Let_def split: option.splits if_splits)

lemma map_filter_in:
  assumes "regex_law env"
  shows "spans_in t (List.map_filter (labeled_span env t) (captures_iter env rx t))"
    "spans_in t (List.map_filter (chilean_span t) (captures_iter env rx t))"
  by (rule map_filter_spans_in, erule (1) labeled_span_in [OF assms] chilean_span_in [OF assms])+

lemmas spans_found = group_iter_in find_iter_in trim_spans_in map_filter_in

lemma secret_spans_in: "regex_law env \<Longrightarrow> secret_spans env t = Some rs \<Longrightarrow> spans_in t rs"
  unfolding secret_spans_def vendor_key_spans_def password_spans_def flag_spans_def spanish_spans_def Let_def by (auto simp: spans_found split: if_splits)

definition candidate_ok :: "range list \<Rightarrow> string \<Rightarrow> pii_candidate \<Rightarrow> bool" where
  "candidate_ok prot t c \<longleftrightarrow> cd_start c \<le> cd_end c \<and> cd_end c \<le> length t \<and> cd_text c = slice t (cd_start c, cd_end c) \<and>
     \<not> is_in_protected_range prot (cd_start c) (cd_end c)"

lemma push_spans_ok: "spans_in t rs \<Longrightarrow> list_all (candidate_ok prot t) (push_spans prot e t rs)"
  by (auto simp: push_spans_def spans_in_def list_all_iff candidate_ok_def)

lemma collect_candidates_ok:
  assumes "regex_law env" and "collect_candidates env entities t prot code = Some cs"
  shows "list_all (candidate_ok prot t) cs"
proof -
  have "list_all (candidate_ok prot t) (collect_network_finance_candidates env entities t prot)"
    unfolding collect_network_finance_candidates_def card_spans_def phone_spans_def
    by (simp add: push_spans_ok spans_found assms(1))
  moreover have "list_all (candidate_ok prot t) (collect_person_candidates env t prot code)"
    unfolding collect_person_candidates_def Let_def by (simp add: push_spans_ok spans_found assms(1) del: filter_filter)
  moreover have "collect_secret_candidates env t prot = Some sc \<Longrightarrow> list_all (candidate_ok prot t) sc" for sc
    using secret_spans_in [OF assms(1)] by (auto simp: collect_secret_candidates_def push_spans_ok)
  ultimately show ?thesis using assms(2) by (auto simp: collect_candidates_def split: if_splits)
qed

section \<open>Redaction leaves structure alone\<close>

abbreviation covers :: "nat \<Rightarrow> range list \<Rightarrow> bool" where
  "covers i \<equiv> list_ex (\<lambda>r. fst r \<le> i \<and> i < snd r)"

lemma url_gaps_exact:
  "sorted_wrt (\<lambda>a b. fst a \<le> fst b) rs \<Longrightarrow> list_all (\<lambda>r. fst r \<le> snd r \<and> snd r \<le> end') rs \<Longrightarrow>
   covers i (url_gaps pos end' rs) \<longleftrightarrow> pos \<le> i \<and> i < end' \<and> \<not> covers i rs"
proof (induction rs arbitrary: pos)
  case (Cons r rs)
  have "covers i (url_gaps (max pos (snd r)) end' rs) \<longleftrightarrow> max pos (snd r) \<le> i \<and> i < end' \<and> \<not> covers i rs" using Cons by simp
  moreover have "i < fst r \<Longrightarrow> \<not> covers i rs" using Cons.prems by (auto simp: list_ex_iff)
  ultimately show ?case using Cons.prems by auto
qed auto

lemma url_gaps_proper: "r \<in> set (url_gaps pos end' rs) \<Longrightarrow> fst r < snd r"
  by (induction rs arbitrary: pos) (auto split: if_splits)

text \<open>Inside a URL exactly the carved-out parts (the password of the user info and the values of
  sensitive query parameters) are open to redaction: a byte of the match is protected if and only if no
  carve-out holds it, whatever their number, order and overlap.\<close>

theorem url_ranges_exact:
  assumes "list_all (\<lambda>r. fst m \<le> fst r \<and> fst r \<le> snd r \<and> snd r \<le> snd m) carveouts"
  shows "list_ex (\<lambda>r. fst r \<le> i \<and> i < snd r) (url_ranges m carveouts) \<longleftrightarrow>
    fst m \<le> i \<and> i < snd m \<and> \<not> list_ex (\<lambda>r. fst r \<le> i \<and> i < snd r) carveouts"
proof (cases "carveouts = []")
  case False
  have "list_all (\<lambda>r. fst r \<le> snd r \<and> snd r \<le> snd m) (sort_by cmp_start carveouts)" using assms by (auto simp: list_all_iff)
  from url_gaps_exact [OF sorted_starts this] show ?thesis using False by (simp add: url_ranges_def list_ex_iff)
qed (simp add: url_ranges_def)

lemma url_ranges_exact_witness:
  "list_ex (\<lambda>r. fst r \<le> 4 \<and> 4 < snd r) (url_ranges (2, 20) [(9, 12), (5, 7)]) \<and>
   \<not> list_ex (\<lambda>r. fst r \<le> 5 \<and> 5 < snd r) (url_ranges (2, 20) [(9, 12), (5, 7)])"
  using url_ranges_exact [of "(2, 20)" "[(9, 12), (5, 7)]" 4] url_ranges_exact [of "(2, 20)" "[(9, 12), (5, 7)]" 5] by simp

lemma syntax_ranges_proper: "regex_law env \<Longrightarrow> list_all (\<lambda>r. fst r \<le> snd r) (syntax_ranges env t)"
proof -
  assume law: "regex_law env"
  have "fst r \<le> snd r" if "r \<in> set (url_ranges m cs)" "fst m \<le> snd m" for r m and cs
    using that url_gaps_proper [of r] by (fastforce simp: url_ranges_def split: if_splits)
  then show ?thesis using find_iter_in [OF law, of t] group_iter_in [OF law, of t]
    by (fastforce simp: syntax_ranges_def list_all_iff spans_in_def)
qed

lemma candidate_outside_syntax:
  assumes "regex_law env" and "candidate_ok (find_syntax_protected_ranges env t) t c" and "cd_start c < cd_end c"
  shows "\<not> list_ex (\<lambda>r. fst r < cd_end c \<and> cd_start c < snd r) (syntax_ranges env t)"
  using assms protected_exact [OF syntax_ranges_proper [OF assms(1)] assms(3), of t]
  by (simp add: candidate_ok_def find_syntax_protected_ranges_def)

end
