(* ===== verification/Pii_Engine.thy ===== *)
theory Pii_Engine
  imports Pii_Candidates Session_Affinity
begin

text \<open>
  The PII engine (openproxy-pipeline/src/pii/engine/mod.rs): redaction of a text, of JSON values and of
  the messages of a request, with the session of placeholders threaded through. Parsing and printing of
  JSON are serde's, the parameters \<open>from_str\<close> and \<open>to_string\<close>; a placeholder search that does not end
  and a panic are \<open>None\<close>.
\<close>

section \<open>Texts\<close>

definition cmp_candidate :: "pii_candidate \<Rightarrow> pii_candidate \<Rightarrow> ordering" where
  "cmp_candidate a b = then_with (cmp_nat (cd_start a) (cd_start b)) (cmp_nat (cd_end b) (cd_end a))"

fun drop_overlaps :: "nat \<Rightarrow> pii_candidate list \<Rightarrow> pii_candidate list" where
  "drop_overlaps last_end [] = []"
| "drop_overlaps last_end (c # cs) =
     (if cd_start c \<ge> last_end then c # drop_overlaps (cd_end c) cs else drop_overlaps last_end cs)"

definition non_overlapping :: "pii_candidate list \<Rightarrow> pii_candidate list" where
  "non_overlapping cands = drop_overlaps 0 (sort_by cmp_candidate cands)"

fun replace_spans :: "(string \<Rightarrow> bool) \<Rightarrow> string \<Rightarrow> nat \<Rightarrow> pii_candidate list \<Rightarrow> pii_session \<Rightarrow> (string \<times> pii_session) option" where
  "replace_spans has_upper t pos [] s = Some (drop pos t, s)"
| "replace_spans has_upper t pos (c # cs) s =
     (case get_or_create_placeholder has_upper s (cd_entity c) (cd_text c) of
        None \<Rightarrow> None
      | Some (s1, p) \<Rightarrow>
          map_option (\<lambda>(out, s2). (slice t (pos, cd_start c) @ p @ out, s2)) (replace_spans has_upper t (cd_end c) cs s1))"

definition redact_text ::
    "pii_env \<Rightarrow> (string \<Rightarrow> bool) \<Rightarrow> pii_entity list \<Rightarrow> string \<Rightarrow> pii_session \<Rightarrow> (string \<times> pii_session) option" where
  "redact_text env has_upper entities t s =
     (if t = [] \<or> entities = [] then Some (t, s)
      else
        (let s1 = seed_existing_placeholders t s in
         case collect_candidates env entities t (find_syntax_protected_ranges env t) (find_code_protected_ranges env t) of
           None \<Rightarrow> None
         | Some candidates \<Rightarrow>
             (if candidates = [] then Some (t, s1) else replace_spans has_upper t 0 (non_overlapping candidates) s1)))"

section \<open>JSON values\<close>

record pii_serde =
  pj_from_str :: "string \<Rightarrow> json option"
  pj_to_string :: "json \<Rightarrow> string option"
  pj_number :: "string \<Rightarrow> json option"

record pii_engine =
  pe_entities :: "pii_entity list"
  pe_env :: pii_env
  pe_upper :: "string \<Rightarrow> bool"
  pe_serde :: pii_serde

definition is_probable_base64_payload :: "string \<Rightarrow> bool" where
  "is_probable_base64_payload s =
     (let trimmed = trim s;
          is64 = (\<lambda>c. is_alnum c \<or> c = CHR ''+'' \<or> c = CHR ''/'' \<or> c = CHR ''='')
      in length trimmed \<ge> 64 \<and> list_all (\<lambda>c. is64 c \<or> c = CHR 0x0D \<or> c = CHR 0x0A) trimmed \<and>
         length (filter is64 trimmed) \<ge> 64)"

definition PROTOCOL_FIELDS :: "string list" where
  "PROTOCOL_FIELDS = [''id'', ''type'', ''name'', ''role'', ''model'', ''mime_type'', ''mimeType'', ''media_type'', ''mediaType'',
     ''format'', ''detail'', ''tool_call_id'', ''finish_reason'']"

definition is_protocol_metadata_field :: "string \<Rightarrow> bool" where
  "is_protocol_metadata_field key = (key \<in> set PROTOCOL_FIELDS)"

definition SECRET_FIELDS :: "string list" where
  "SECRET_FIELDS = [''secret'', ''password'', ''passwd'', ''passphrase'', ''pass'', ''pwd'', ''token'', ''api_key'', ''apikey'',
     ''private_key'', ''access_key'', ''master_key'', ''signing_key'', ''encryption_key'', ''auth_key'', ''client_secret'',
     ''app_secret'', ''webhook_secret'', ''signing_secret'', ''api_hash'', ''app_hash'',
     [CHR 0x63, CHR 0x6F, CHR 0x6E, CHR 0x74, CHR 0x72, CHR 0x61, CHR 0x73, CHR 0x65, CHR 0xC3, CHR 0xB1, CHR 0x61],
     ''contrasena'', ''clave'']"

definition is_secret_field_name :: "string \<Rightarrow> bool" where
  "is_secret_field_name key =
     (let lower = to_ascii_lowercase key
      in lower \<in> set SECRET_FIELDS \<or>
         list_ex (ends_with lower) [''_secret'', ''_token'', ''_key'', ''_password'', ''_passwd'', ''_hash''] \<or>
         list_ex (starts_with lower) [''secret_'', ''token_'', ''api_key_''])"

definition should_redact_secret_leaf :: "string \<Rightarrow> string \<Rightarrow> bool" where
  "should_redact_secret_leaf key s = (let trimmed = trim s in length trimmed \<ge> 4 \<and> is_valid_secret_value key trimmed)"

definition is_multimodal_payload_field :: "string \<Rightarrow> json \<Rightarrow> bool" where
  "is_multimodal_payload_field key v =
     (key \<in> set [''inline_data'', ''inlineData'', ''input_audio'', ''audio''] \<or>
      (key = ''source'' \<and> Option.bind (json_get v ''type'') json_as_str = Some ''base64'') \<or>
      key \<in> set [''b64_json'', ''images''] \<or>
      (key = ''url'' \<and> (case json_as_str v of Some s \<Rightarrow> starts_with s ''data:'' | None \<Rightarrow> False)) \<or>
      (key = ''data'' \<and> (case json_as_str v of Some s \<Rightarrow> starts_with s ''data:'' \<or> is_probable_base64_payload s | None \<Rightarrow> False)))"

definition is_multimodal_or_metadata_field :: "string \<Rightarrow> json \<Rightarrow> bool" where
  "is_multimodal_or_metadata_field key v = (is_protocol_metadata_field key \<or> is_multimodal_payload_field key v)"

definition looks_like_json :: "string \<Rightarrow> bool" where
  "looks_like_json s = (let trimmed = trim s in wrapped_in ''{'' ''}'' trimmed \<or> wrapped_in ''['' '']'' trimmed)"

text \<open>A number of a payload that is a platform id or the value of a secret field.\<close>

definition sensitive_number :: "pii_engine \<Rightarrow> string \<Rightarrow> json \<Rightarrow> string option" where
  "sensitive_number e key v =
     (case v of
        JInt i \<Rightarrow>
          (if PiiSecret \<in> set (pe_entities e) \<and> 0 \<le> i \<and> nat i \<le> U64_MAX
           then (let token = show_nat (nat i); labeled = [CHR 0x22] @ key @ [CHR 0x22] @ '': '' @ token
                 in if captures_iter (pe_env e) REGEX_SECRET_PLATFORM_ID labeled \<noteq> [] \<or>
                       (is_secret_field_name key \<and> should_redact_secret_leaf key token)
                    then Some token else None)
           else None)
      | _ \<Rightarrow> None)"

definition secret_leaf :: "pii_engine \<Rightarrow> string \<Rightarrow> json \<Rightarrow> string option" where
  "secret_leaf e key v =
     (case v of
        JStr s \<Rightarrow> (if PiiSecret \<in> set (pe_entities e) \<and> is_secret_field_name key \<and> should_redact_secret_leaf key s then Some s else None)
      | _ \<Rightarrow> None)"

text \<open>
  The fuel bounds how deep JSON texts are nested in strings; the values inside a string that parses are
  shorter than it, so the length of the longest string is enough.
\<close>

fun redact_json :: "pii_engine \<Rightarrow> nat \<Rightarrow> bool \<Rightarrow> json \<Rightarrow> pii_session \<Rightarrow> (json \<times> pii_session) option"
  and redact_items :: "pii_engine \<Rightarrow> nat \<Rightarrow> bool \<Rightarrow> json list \<Rightarrow> pii_session \<Rightarrow> (json list \<times> pii_session) option"
  and redact_fields :: "pii_engine \<Rightarrow> nat \<Rightarrow> bool \<Rightarrow> (string \<times> json) list \<Rightarrow> pii_session \<Rightarrow> ((string \<times> json) list \<times> pii_session) option"
where
  "redact_json e fuel in_payload (JStr t) s =
     (let trimmed = trim t in
      if starts_with trimmed ''data:'' \<and> str_contains trimmed '';base64,'' then Some (JStr t, s)
      else if length trimmed \<ge> 256 \<and> is_probable_base64_payload trimmed then Some (JStr t, s)
      else
        (case (if looks_like_json t then pj_from_str (pe_serde e) t else None) of
           None \<Rightarrow> map_option (\<lambda>(t', s1). (JStr t', s1)) (redact_text (pe_env e) (pe_upper e) (pe_entities e) t s)
         | Some inner \<Rightarrow>
             (case fuel of
                0 \<Rightarrow> None
              | Suc fuel' \<Rightarrow>
                  (case redact_json e fuel' True inner s of
                     None \<Rightarrow> None
                   | Some (v, s1) \<Rightarrow>
                       (case pj_to_string (pe_serde e) v of
                          Some serialized \<Rightarrow> Some (JStr serialized, s1)
                        | None \<Rightarrow> map_option (\<lambda>(t', s2). (JStr t', s2)) (redact_text (pe_env e) (pe_upper e) (pe_entities e) t s1))))))"
| "redact_json e fuel in_payload (JArr vs) s = map_option (\<lambda>(vs', s1). (JArr vs', s1)) (redact_items e fuel in_payload vs s)"
| "redact_json e fuel in_payload (JObj kvs) s = map_option (\<lambda>(kvs', s1). (JObj kvs', s1)) (redact_fields e fuel in_payload kvs s)"
| "redact_json e fuel in_payload JNull s = Some (JNull, s)"
| "redact_json e fuel in_payload (JBool b) s = Some (JBool b, s)"
| "redact_json e fuel in_payload (JInt i) s = Some (JInt i, s)"
| "redact_json e fuel in_payload (JFloat x) s = Some (JFloat x, s)"
| "redact_items e fuel in_payload [] s = Some ([], s)"
| "redact_items e fuel in_payload (v # vs) s =
     (case redact_json e fuel in_payload v s of
        None \<Rightarrow> None
      | Some (v', s1) \<Rightarrow> map_option (\<lambda>(vs', s2). (v' # vs', s2)) (redact_items e fuel in_payload vs s1))"
| "redact_fields e fuel in_payload [] s = Some ([], s)"
| "redact_fields e fuel in_payload ((k, v) # kvs) s =
     (case (if in_payload
            then (if is_multimodal_payload_field k v then Some (v, s)
                  else (case secret_leaf e k v of
                          Some t \<Rightarrow> map_option (\<lambda>(s1, p). (JStr p, s1)) (get_or_create_placeholder (pe_upper e) s PiiSecret t)
                        | None \<Rightarrow>
                            (case sensitive_number e k v of
                               Some token \<Rightarrow>
                                 map_option (\<lambda>(s1, p). (case pj_number (pe_serde e) p of Some n \<Rightarrow> n | None \<Rightarrow> v, s1))
                                   (get_or_create_placeholder (pe_upper e) s PiiSecret token)
                             | None \<Rightarrow> redact_json e fuel True v s)))
            else if is_multimodal_or_metadata_field k v then Some (v, s)
            else redact_json e fuel (k = ''arguments'') v s) of
        None \<Rightarrow> None
      | Some (v', s1) \<Rightarrow> map_option (\<lambda>(kvs', s2). ((k, v') # kvs', s2)) (redact_fields e fuel in_payload kvs s1))"

fun leaf_bound :: "json \<Rightarrow> nat" where
  "leaf_bound (JStr t) = length t"
| "leaf_bound (JArr vs) = foldr (\<lambda>v n. max (leaf_bound v) n) vs 0"
| "leaf_bound (JObj kvs) = foldr (\<lambda>kv n. max (leaf_bound (snd kv)) n) kvs 0"
| "leaf_bound v = 0"

definition redact_json_in :: "pii_engine \<Rightarrow> bool \<Rightarrow> json \<Rightarrow> pii_session \<Rightarrow> (json \<times> pii_session) option" where
  "redact_json_in e in_payload v s = redact_json e (leaf_bound v) in_payload v s"

definition redact_json_value :: "pii_engine \<Rightarrow> json \<Rightarrow> pii_session \<Rightarrow> (json \<times> pii_session) option" where
  "redact_json_value e v s = redact_json_in e False v s"

fun seed_json :: "pii_serde \<Rightarrow> nat \<Rightarrow> json \<Rightarrow> pii_session \<Rightarrow> pii_session" where
  "seed_json sd fuel (JStr t) s =
     (let s1 = seed_existing_placeholders t s in
      case (if looks_like_json t then pj_from_str sd t else None) of
        None \<Rightarrow> s1
      | Some inner \<Rightarrow> (case fuel of 0 \<Rightarrow> s1 | Suc fuel' \<Rightarrow> seed_json sd fuel' inner s1))"
| "seed_json sd fuel (JArr vs) s = fold (seed_json sd fuel) vs s"
| "seed_json sd fuel (JObj kvs) s = fold (\<lambda>kv. seed_json sd fuel (snd kv)) kvs s"
| "seed_json sd fuel v s = s"

definition seed_json_value :: "pii_serde \<Rightarrow> json \<Rightarrow> pii_session \<Rightarrow> pii_session" where
  "seed_json_value sd v s = seed_json sd (leaf_bound v) v s"

section \<open>Messages\<close>

record pii_message = openai_message +
  om_extra :: "(string \<times> json) list"

definition is_reasoning_key :: "string \<Rightarrow> bool" where
  "is_reasoning_key k = (k = ''reasoning_content'' \<or> k = ''thought'')"

definition seed_message :: "pii_serde \<Rightarrow> pii_message \<Rightarrow> pii_session \<Rightarrow> pii_session" where
  "seed_message sd m s =
     (let s1 = (case om_content m of Some c \<Rightarrow> seed_json_value sd c s | None \<Rightarrow> s);
          s2 = fold (\<lambda>(k, v). if is_reasoning_key k then seed_json_value sd v else id) (om_extra m) s1
      in (case om_tool_calls m of Some tcs \<Rightarrow> fold (seed_json_value sd) tcs s2 | None \<Rightarrow> s2))"

text \<open>A list of values, one after the other.\<close>

fun redact_each :: "('a \<Rightarrow> pii_session \<Rightarrow> ('b \<times> pii_session) option) \<Rightarrow> 'a list \<Rightarrow> pii_session \<Rightarrow> ('b list \<times> pii_session) option" where
  "redact_each f [] s = Some ([], s)"
| "redact_each f (x # xs) s =
     (case f x s of None \<Rightarrow> None | Some (y, s1) \<Rightarrow> map_option (\<lambda>(ys, s2). (y # ys, s2)) (redact_each f xs s1))"

definition redact_extra :: "pii_engine \<Rightarrow> string \<times> json \<Rightarrow> pii_session \<Rightarrow> ((string \<times> json) \<times> pii_session) option" where
  "redact_extra e kv s =
     (if is_reasoning_key (fst kv) then map_option (\<lambda>(v, s1). ((fst kv, v), s1)) (redact_json_value e (snd kv) s) else Some (kv, s))"

definition redact_opt :: "('a \<Rightarrow> pii_session \<Rightarrow> ('a \<times> pii_session) option) \<Rightarrow> 'a option \<Rightarrow> pii_session \<Rightarrow> ('a option \<times> pii_session) option" where
  "redact_opt f x s = (case x of None \<Rightarrow> Some (None, s) | Some v \<Rightarrow> map_option (\<lambda>(v', s1). (Some v', s1)) (f v s))"

definition redact_message :: "pii_engine \<Rightarrow> pii_message \<Rightarrow> pii_session \<Rightarrow> (pii_message \<times> pii_session) option" where
  "redact_message e m s =
     Option.bind (redact_opt (redact_json_in e (om_role m = ''tool'')) (om_content m) s) (\<lambda>(content, s1).
     Option.bind (redact_each (redact_extra e) (om_extra m) s1) (\<lambda>(extra, s2).
     Option.bind (redact_opt (redact_each (redact_json_value e)) (om_tool_calls m) s2) (\<lambda>(tool_calls, s3).
       Some (m \<lparr> om_content := content, om_extra := extra, om_tool_calls := tool_calls \<rparr>, s3))))"

definition redact_messages :: "pii_engine \<Rightarrow> pii_message list \<Rightarrow> pii_session \<Rightarrow> (pii_message list \<times> pii_session) option" where
  "redact_messages e ms s = redact_each (redact_message e) ms (fold (seed_message (pe_serde e)) ms s)"

section \<open>The chosen spans\<close>

interpretation candidate_order: sort_comparator cmp_candidate
  by unfold_locales (auto simp: cmp_candidate_def cmp_nat_def then_with_def split: if_splits ordering.splits)

lemma candidates_sorted: "sorted_wrt (\<lambda>a b. cd_start a \<le> cd_start b) (sort_by cmp_candidate cs)"
proof -
  have "sorted_wrt (\<lambda>a b. cmp_candidate a b \<noteq> Greater) (sort_by cmp_candidate cs)" by (rule candidate_order.sort_by_sorted)
  then show ?thesis
    by (rule sorted_wrt_mono_rel [rotated]) (auto simp: cmp_candidate_def cmp_nat_def then_with_def split: if_splits)
qed

lemma drop_overlaps_subset: "set (drop_overlaps e cs) \<subseteq> set cs"
  by (induction e cs rule: drop_overlaps.induct) auto

lemma drop_overlaps_separated:
  assumes "list_all (\<lambda>c. cd_start c \<le> cd_end c) cs"
  shows "sorted_wrt (\<lambda>a b. cd_end a \<le> cd_start b) (drop_overlaps e cs) \<and> list_all (\<lambda>c. e \<le> cd_start c) (drop_overlaps e cs)"
  using assms by (induction e cs rule: drop_overlaps.induct) (force simp: list_all_iff)+

lemma drop_overlaps_covers:
  assumes "sorted_wrt (\<lambda>a b. cd_start a \<le> cd_start b) cs" and "c \<in> set cs"
  shows "cd_start c < e \<or> c \<in> set (drop_overlaps e cs) \<or>
    (\<exists>d \<in> set (drop_overlaps e cs). cd_start d \<le> cd_start c \<and> cd_start c < cd_end d)"
  using assms
proof (induction e cs rule: drop_overlaps.induct)
  case (2 e d ds)
  show ?case
  proof (cases "cd_start d \<ge> e")
    case True
    show ?thesis
    proof (cases "c = d")
      case False
      then have "c \<in> set ds" "cd_start d \<le> cd_start c" using 2(3,4) by auto
      then show ?thesis using 2(1) [OF True] 2(3) True by auto
    qed (use True in simp)
  next
    case False
    then show ?thesis using 2 by (cases "c = d") auto
  qed
qed simp

text \<open>C33: What redaction touches. The spans it replaces are disjoint and in order; none of them meets a
  URL outside its carve-outs, a data URI or a JSON key; each stands for exactly the text it covers; and
  every candidate that was found is replaced or begins inside a span that is.\<close>

theorem redacted_spans_safe:
  assumes "regex_law env"
    and "collect_candidates env entities t (find_syntax_protected_ranges env t) code = Some cands"
  shows "sorted_wrt (\<lambda>a b. cd_end a \<le> cd_start b) (non_overlapping cands) \<and>
    (\<forall>c \<in> set (non_overlapping cands). c \<in> set cands \<and> cd_end c \<le> length t \<and> cd_text c = slice t (cd_start c, cd_end c) \<and>
       (cd_start c < cd_end c \<longrightarrow> \<not> list_ex (\<lambda>r. fst r < cd_end c \<and> cd_start c < snd r) (syntax_ranges env t))) \<and>
    (\<forall>c \<in> set cands. c \<in> set (non_overlapping cands) \<or>
       (\<exists>d \<in> set (non_overlapping cands). cd_start d \<le> cd_start c \<and> cd_start c < cd_end d))"
proof -
  have ok: "list_all (candidate_ok (find_syntax_protected_ranges env t) t) cands" by (rule collect_candidates_ok [OF assms])
  then have "list_all (\<lambda>c. cd_start c \<le> cd_end c) (sort_by cmp_candidate cands)" by (auto simp: list_all_iff candidate_ok_def)
  then have sep: "sorted_wrt (\<lambda>a b. cd_end a \<le> cd_start b) (non_overlapping cands)"
    unfolding non_overlapping_def using drop_overlaps_separated by blast
  have sub: "c \<in> set cands" if "c \<in> set (non_overlapping cands)" for c
    using that drop_overlaps_subset [of 0 "sort_by cmp_candidate cands"] by (auto simp: non_overlapping_def)
  have "c \<in> set cands \<and> cd_end c \<le> length t \<and> cd_text c = slice t (cd_start c, cd_end c) \<and>
       (cd_start c < cd_end c \<longrightarrow> \<not> list_ex (\<lambda>r. fst r < cd_end c \<and> cd_start c < snd r) (syntax_ranges env t))"
    if "c \<in> set (non_overlapping cands)" for c
    using sub [OF that] ok candidate_outside_syntax [OF assms(1)] by (auto simp: list_all_iff candidate_ok_def)
  moreover have "c \<in> set (non_overlapping cands) \<or>
       (\<exists>d \<in> set (non_overlapping cands). cd_start d \<le> cd_start c \<and> cd_start c < cd_end d)" if "c \<in> set cands" for c
    using drop_overlaps_covers [OF candidates_sorted, of c cands 0] that by (auto simp: non_overlapping_def)
  ultimately show ?thesis using sep by blast
qed

text \<open>A candidate that begins inside a chosen span and ends behind it is dropped whole: its tail stays in the text.\<close>

lemma overlap_tail_survives:
  "non_overlapping
     [\<lparr> cd_start = 3, cd_end = 10, cd_entity = PiiSecret, cd_text = ''secret1'' \<rparr>,
      \<lparr> cd_start = 0, cd_end = 5, cd_entity = PiiPerson, cd_text = ''Annse'' \<rparr>] =
   [\<lparr> cd_start = 0, cd_end = 5, cd_entity = PiiPerson, cd_text = ''Annse'' \<rparr>]"
  by (simp add: non_overlapping_def sort_by_def cmp_candidate_def cmp_nat_def then_with_def)

section \<open>Redaction is reversible\<close>

text \<open>A text with its spans filled by given strings.\<close>

fun weave :: "string \<Rightarrow> nat \<Rightarrow> pii_candidate list \<Rightarrow> string list \<Rightarrow> string" where
  "weave t pos (c # cs) (p # ps) = slice t (pos, cd_start c) @ p @ weave t (cd_end c) cs ps"
| "weave t pos _ _ = drop pos t"

lemma weave_original:
  assumes "sorted_wrt (\<lambda>a b. cd_end a \<le> cd_start b) cs" "list_all (\<lambda>c. pos \<le> cd_start c) cs"
    "list_all (\<lambda>c. cd_start c \<le> cd_end c \<and> cd_end c \<le> length t \<and> cd_text c = slice t (cd_start c, cd_end c)) cs"
  shows "weave t pos cs (map cd_text cs) = drop pos t"
  using assms
proof (induction cs arbitrary: pos)
  case (Cons c cs)
  have IH: "weave t (cd_end c) cs (map cd_text cs) = drop (cd_end c) t" using Cons by (auto simp: list_all_iff)
  have a: "drop pos t = slice t (pos, cd_start c) @ drop (cd_start c) t" if "pos \<le> cd_start c"
    using that append_take_drop_id [of "cd_start c - pos" "drop pos t"] by (simp add: slice_def)
  have b: "drop (cd_start c) t = slice t (cd_start c, cd_end c) @ drop (cd_end c) t" if "cd_start c \<le> cd_end c"
    using that append_take_drop_id [of "cd_end c - cd_start c" "drop (cd_start c) t"] by (simp add: slice_def)
  show ?case using Cons.prems IH a b by simp
qed simp

lemma replace_spans_weave:
  assumes "pii_reach has_upper s" and "replace_spans has_upper t pos cs s = Some (t', s')"
    and "\<And>c. c \<in> set cs \<Longrightarrow> cd_entity c = PiiPerson \<Longrightarrow> \<not> starts_with (to_ascii_lowercase (cd_text c)) ''bearer ''"
  shows "\<exists>ps. t' = weave t pos cs ps \<and> length ps = length cs \<and> pii_reach has_upper s' \<and>
    (\<forall>x p. hm_get (pi_forward s) x = Some p \<longrightarrow> hm_get (pi_forward s') x = Some p) \<and>
    (\<forall>i < length cs. hm_get (pi_forward s') (cd_text (cs ! i)) = Some (ps ! i))"
  using assms
proof (induction cs arbitrary: pos s t')
  case (Cons c cs)
  obtain s1 p out where g: "get_or_create_placeholder has_upper s (cd_entity c) (cd_text c) = Some (s1, p)"
    and r: "replace_spans has_upper t (cd_end c) cs s1 = Some (out, s')" and t': "t' = slice t (pos, cd_start c) @ p @ out"
    using Cons.prems(2) by (auto split: option.splits)
  have person: "cd_entity c = PiiPerson \<Longrightarrow> \<not> starts_with (to_ascii_lowercase (cd_text c)) ''bearer ''" using Cons.prems(3) by simp
  have reach: "pii_reach has_upper s1" using pii_get [OF Cons.prems(1) g person] .
  note inv = pii_reach_inv [OF Cons.prems(1)]
  note k = get_or_create_keeps [OF conjunct1 [OF inv] conjunct2 [OF inv] g person]
  obtain ps where ps: "out = weave t (cd_end c) cs ps" "length ps = length cs" "pii_reach has_upper s'"
    "\<forall>x p. hm_get (pi_forward s1) x = Some p \<longrightarrow> hm_get (pi_forward s') x = Some p"
    "\<forall>i < length cs. hm_get (pi_forward s') (cd_text (cs ! i)) = Some (ps ! i)"
    using Cons.IH [OF reach r] Cons.prems(3) by auto
  have "\<forall>i < length (c # cs). hm_get (pi_forward s') (cd_text ((c # cs) ! i)) = Some ((p # ps) ! i)"
    using ps(4,5) k by (auto simp: nth_Cons split: nat.splits)
  then show ?case using ps k t' by (intro exI [of _ "p # ps"]) auto
qed auto

lemma redact_text_cases:
  assumes "redact_text env has_upper entities t s = Some (t', s')"
  obtains "t' = t" "s' = s \<or> s' = seed_existing_placeholders t s"
  | cands where "collect_candidates env entities t (find_syntax_protected_ranges env t) (find_code_protected_ranges env t) = Some cands"
      "replace_spans has_upper t 0 (non_overlapping cands) (seed_existing_placeholders t s) = Some (t', s')"
  using assms by (auto simp: redact_text_def Let_def split: if_splits option.splits)


text \<open>An environment that finds the address in one text and nothing else.\<close>

definition demo_text :: string where
  "demo_text = ''hi bob@x.org''"

definition demo_env :: pii_env where
  "demo_env = \<lparr> captures_iter = (\<lambda>rx t. if rx = REGEX_EMAIL \<and> t = demo_text then [[Some (3, 12)]] else []),
     is_alphanumeric = (\<lambda>_. False), is_alphabetic = (\<lambda>_. False), log2_f64 = (\<lambda>_. 0) \<rparr>"

lemma demo_env_law: "regex_law demo_env"
  by (auto simp: regex_law_def demo_env_def demo_text_def List.map_filter_def split: if_splits)

lemma demo_ranges: "syntax_ranges demo_env t = []" "find_syntax_protected_ranges demo_env t = []"
  by (simp_all add: syntax_ranges_def find_syntax_protected_ranges_def find_iter_def group_iter_def demo_env_def merge_ranges_def
      List.map_filter_def)

lemma demo_found:
  "collect_candidates demo_env [PiiEmail] demo_text [] code =
     Some [\<lparr> cd_start = 3, cd_end = 12, cd_entity = PiiEmail, cd_text = ''bob@x.org'' \<rparr>]"
  by (simp add: collect_candidates_def collect_network_finance_candidates_def push_spans_def find_iter_def group_iter_def
      cap_first_def cap_get_def is_in_protected_range_def slice_def List.map_filter_def demo_env_def demo_text_def)

lemma redacted_spans_safe_witness:
  "non_overlapping [\<lparr> cd_start = 3, cd_end = 12, cd_entity = PiiEmail, cd_text = ''bob@x.org'' \<rparr>] \<noteq> [] \<and>
   cd_text (hd (non_overlapping [\<lparr> cd_start = 3, cd_end = 12, cd_entity = PiiEmail, cd_text = ''bob@x.org'' \<rparr>])) = slice demo_text (3, 12)"
  using redacted_spans_safe [OF demo_env_law, of "[PiiEmail]" demo_text "[]"] demo_found [of "[]"]
  by (simp add: demo_ranges non_overlapping_def sort_by_def)

lemma demo_seeds: "seeds demo_text = []"
  by code_simp

lemma demo_redacts:
  "\<exists>s'. redact_text demo_env (\<lambda>_. False) [PiiEmail] demo_text (pii_session_new True) = Some (''hi alex.turner1@fastmail.com'', s')"
proof -
  have one: "show_nat (Suc 0) = ''1''" by code_simp
  have parts: "demo_text \<noteq> []" "take 3 demo_text = ''hi ''" "drop 12 demo_text = []" by (simp_all add: demo_text_def)
  show ?thesis
    by (simp add: redact_text_def demo_ranges demo_found seed_existing_placeholders_def demo_seeds non_overlapping_def sort_by_def
        get_or_create_placeholder_def create_placeholder_def base_placeholder_def resolve_collision_def Let_def pii_count_def
        email_placeholder_def EMAIL_NAMES_def one saturating_add_def is_digit_def digit_val_def pii_session_new_def slice_def parts)
qed


section \<open>What redaction of messages keeps\<close>

text \<open>Nesting of JSON in strings: what a text parses to has only shorter strings.\<close>

definition serde_law :: "pii_serde \<Rightarrow> bool" where
  "serde_law sd \<longleftrightarrow> (\<forall>t v. pj_from_str sd t = Some v \<longrightarrow> leaf_bound v < length t)"

definition is_number :: "json \<Rightarrow> bool" where
  "is_number v = (case v of JInt _ \<Rightarrow> True | JFloat _ \<Rightarrow> True | _ \<Rightarrow> False)"

definition number_law :: "pii_serde \<Rightarrow> bool" where
  "number_law sd \<longleftrightarrow> (\<forall>t v. pj_number sd t = Some v \<longrightarrow> is_number v)"

text \<open>The fuel does not matter once it reaches the longest string.\<close>

lemma leaf_bound_simps:
  "leaf_bound (JArr (v # vs)) = max (leaf_bound v) (leaf_bound (JArr vs))"
  "leaf_bound (JObj ((k, v) # kvs)) = max (leaf_bound v) (leaf_bound (JObj kvs))"
  by simp_all

lemma redact_fuel:
  assumes "serde_law (pe_serde e)"
  shows "leaf_bound v \<le> n \<Longrightarrow> leaf_bound v \<le> m \<Longrightarrow> redact_json e n b v s = redact_json e m b v s"
    and "leaf_bound (JArr vs) \<le> n \<Longrightarrow> leaf_bound (JArr vs) \<le> m \<Longrightarrow> redact_items e n b vs s = redact_items e m b vs s"
    and "leaf_bound (JObj kvs) \<le> n \<Longrightarrow> leaf_bound (JObj kvs) \<le> m \<Longrightarrow> redact_fields e n b kvs s = redact_fields e m b kvs s"
  using assms
proof (induction e n b v s and e n b vs s and e n b kvs s arbitrary: m and m and m
    rule: redact_json_redact_items_redact_fields.induct)
  case (1 e fuel b t s)
  show ?case
  proof (cases "if looks_like_json t then pj_from_str (pe_serde e) t else None")
    case (Some inner)
    then have "leaf_bound inner < length t" using 1(4) by (auto simp: serde_law_def split: if_splits)
    then obtain f m' where f: "fuel = Suc f" "m = Suc m'" "leaf_bound inner \<le> f" "leaf_bound inner \<le> m'"
      using 1(2,3) by (cases fuel; cases m) auto
    show ?thesis
    proof (cases "(starts_with (trim t) ''data:'' \<and> str_contains (trim t) '';base64,'') \<or> (length (trim t) \<ge> 256 \<and> is_probable_base64_payload (trim t))")
      case False
      then have "redact_json e f True inner s = redact_json e m' True inner s"
        by (intro 1(1) [OF refl _ _ Some f(1) f(3,4) 1(4)]) auto
      then show ?thesis using f Some by (simp add: Let_def)
    qed (auto simp: Let_def)
  qed (simp add: Let_def)
next
  case (2 e fuel b vs s)
  from 2(1) [OF 2(2-4)] show ?case by (simp only: redact_json.simps)
next
  case (3 e fuel b kvs s)
  from 3(1) [OF 3(2-4)] show ?case by (simp only: redact_json.simps)
next
  case (9 e fuel b v vs s)
  have v: "redact_json e fuel b v s = redact_json e m b v s" using 9(1,3-5) by (simp add: leaf_bound_simps)
  show ?case
  proof (cases "redact_json e fuel b v s")
    case (Some r)
    obtain v' s1 where r: "r = (v', s1)" by fastforce
    have "redact_items e fuel b vs s1 = redact_items e m b vs s1"
      using 9(2) [OF Some r [symmetric]] 9(3-5) by (simp add: leaf_bound_simps)
    moreover have "redact_json e fuel b v s = Some (v', s1)" "redact_json e m b v s = Some (v', s1)" using v Some r by simp_all
    ultimately show ?thesis by (simp only: redact_items.simps option.case prod.case)
  qed (use v in \<open>simp only: redact_items.simps option.case\<close>)
next
  case (11 e fuel b k v kvs s)
  have v: "redact_json e fuel True v s = redact_json e m True v s"
    if "b" "\<not> is_multimodal_payload_field k v" "secret_leaf e k v = None" "sensitive_number e k v = None"
    using 11(1) that 11(4-6) by (simp add: leaf_bound_simps)
  have w: "redact_json e fuel (k = ''arguments'') v s = redact_json e m (k = ''arguments'') v s"
    if "\<not> b" "\<not> is_multimodal_or_metadata_field k v"
    using 11(2) that 11(4-6) by (simp add: leaf_bound_simps)
  let ?f = "\<lambda>fuel. if b
      then (if is_multimodal_payload_field k v then Some (v, s)
            else (case secret_leaf e k v of
                    Some t \<Rightarrow> map_option (\<lambda>(s1, p). (JStr p, s1)) (get_or_create_placeholder (pe_upper e) s PiiSecret t)
                  | None \<Rightarrow>
                      (case sensitive_number e k v of
                         Some token \<Rightarrow>
                           map_option (\<lambda>(s1, p). (case pj_number (pe_serde e) p of Some n \<Rightarrow> n | None \<Rightarrow> v, s1))
                             (get_or_create_placeholder (pe_upper e) s PiiSecret token)
                       | None \<Rightarrow> redact_json e fuel True v s)))
      else if is_multimodal_or_metadata_field k v then Some (v, s)
      else redact_json e fuel (k = ''arguments'') v s"
  have f: "?f fuel = ?f m" using v w by (cases "secret_leaf e k v"; cases "sensitive_number e k v") auto
  show ?case
  proof (cases "?f m")
    case None
    then show ?thesis using f by (simp only: redact_fields.simps option.case)
  next
    case (Some r)
    obtain v' s1 where r: "r = (v', s1)" by fastforce
    have "redact_fields e fuel b kvs s1 = redact_fields e m b kvs s1"
      using 11(3) [OF f [unfolded Some] r [symmetric]] 11(4-6) by (simp add: leaf_bound_simps)
    moreover have "?f fuel = Some (v', s1)" "?f m = Some (v', s1)" using f Some r by simp_all
    ultimately show ?thesis by (simp only: redact_fields.simps option.case prod.case)
  qed
qed simp_all

text \<open>
  The structure that redaction keeps: kinds of values, array lengths, keys and their order; outside of
  tool arguments also every number, and the protocol and media fields as they are.
\<close>

fun kept :: "bool \<Rightarrow> json \<Rightarrow> json \<Rightarrow> bool"
  and kept_items :: "bool \<Rightarrow> json list \<Rightarrow> json list \<Rightarrow> bool"
  and kept_fields :: "bool \<Rightarrow> (string \<times> json) list \<Rightarrow> (string \<times> json) list \<Rightarrow> bool"
where
  "kept b (JStr t) w = (case w of JStr _ \<Rightarrow> True | _ \<Rightarrow> False)"
| "kept b (JArr vs) w = (case w of JArr ws \<Rightarrow> kept_items b vs ws | _ \<Rightarrow> False)"
| "kept b (JObj kvs) w = (case w of JObj kws \<Rightarrow> kept_fields b kvs kws | _ \<Rightarrow> False)"
| "kept b v w = (if b \<and> is_number v then is_number w else w = v)"
| "kept_items b [] ws = (ws = [])"
| "kept_items b (v # vs) ws = (case ws of [] \<Rightarrow> False | w # ws' \<Rightarrow> kept b v w \<and> kept_items b vs ws')"
| "kept_fields b [] kws = (kws = [])"
| "kept_fields b ((k, v) # kvs) kws =
     (case kws of
        [] \<Rightarrow> False
      | (k', w) # kws' \<Rightarrow>
          k' = k \<and>
          (if (if b then is_multimodal_payload_field k v else is_multimodal_or_metadata_field k v) then w = v
           else kept (b \<or> k = ''arguments'') v w) \<and>
          kept_fields b kvs kws')"

lemma secret_leaf_str: "secret_leaf e k v = Some t \<Longrightarrow> v = JStr t"
  by (auto simp: secret_leaf_def split: json.splits if_splits)

lemma sensitive_number_int: "sensitive_number e k v = Some t \<Longrightarrow> \<exists>i. v = JInt i"
  by (auto simp: sensitive_number_def split: json.splits if_splits)

lemma redact_kept:
  assumes "number_law (pe_serde e)"
  shows "redact_json e n b v s = Some (v', s') \<Longrightarrow> kept b v v'"
    and "redact_items e n b vs s = Some (vs', s') \<Longrightarrow> kept_items b vs vs'"
    and "redact_fields e n b kvs s = Some (kvs', s') \<Longrightarrow> kept_fields b kvs kvs'"
  using assms
proof (induction e n b v s and e n b vs s and e n b kvs s arbitrary: v' s' and vs' s' and kvs' s'
    rule: redact_json_redact_items_redact_fields.induct)
  case (1 e fuel b t s)
  then have "\<exists>t'. v' = JStr t'" by (auto simp: Let_def split: if_splits option.splits nat.splits)
  then show ?case by auto
next
  case (2 e fuel b vs s)
  from 2(2) obtain ws where "v' = JArr ws" "redact_items e fuel b vs s = Some (ws, s')" by auto
  then show ?case using 2(1,3) by simp
next
  case (3 e fuel b kvs s)
  from 3(2) obtain ws where "v' = JObj ws" "redact_fields e fuel b kvs s = Some (ws, s')" by auto
  then show ?case using 3(1,3) by simp
next
  case (9 e fuel b v vs s)
  from 9(3) obtain w s1 ws where w: "redact_json e fuel b v s = Some (w, s1)" and ws: "redact_items e fuel b vs s1 = Some (ws, s')" "vs' = w # ws"
    by (auto split: option.splits)
  then show ?case using 9(1) [OF w 9(4)] 9(2) [OF w refl ws(1) 9(4)] by simp
next
  case (11 e fuel b k v kvs s)
  let ?f = "if b
      then (if is_multimodal_payload_field k v then Some (v, s)
            else (case secret_leaf e k v of
                    Some t \<Rightarrow> map_option (\<lambda>(s1, p). (JStr p, s1)) (get_or_create_placeholder (pe_upper e) s PiiSecret t)
                  | None \<Rightarrow>
                      (case sensitive_number e k v of
                         Some token \<Rightarrow>
                           map_option (\<lambda>(s1, p). (case pj_number (pe_serde e) p of Some n \<Rightarrow> n | None \<Rightarrow> v, s1))
                             (get_or_create_placeholder (pe_upper e) s PiiSecret token)
                       | None \<Rightarrow> redact_json e fuel True v s)))
      else if is_multimodal_or_metadata_field k v then Some (v, s)
      else redact_json e fuel (k = ''arguments'') v s"
  obtain w s1 where w: "?f = Some (w, s1)" using 11(4) by (cases ?f) (auto simp only: redact_fields.simps option.case)
  from 11(4) obtain ws where ws: "redact_fields e fuel b kvs s1 = Some (ws, s')" "kvs' = (k, w) # ws"
    unfolding redact_fields.simps w by auto
  have "(if (if b then is_multimodal_payload_field k v else is_multimodal_or_metadata_field k v) then w = v
           else kept (b \<or> k = ''arguments'') v w)"
  proof (cases b)
    case True
    consider "is_multimodal_payload_field k v" | "secret_leaf e k v \<noteq> None" | "secret_leaf e k v = None" "sensitive_number e k v \<noteq> None"
      | "\<not> is_multimodal_payload_field k v" "secret_leaf e k v = None" "sensitive_number e k v = None" by blast
    then show ?thesis
    proof cases
      case 2
      then show ?thesis using w True secret_leaf_str [of e k v] by (auto split: if_splits)
    next
      case 3
      then show ?thesis using w True sensitive_number_int [of e k v] 11(5)
        by (auto simp: number_law_def is_number_def split: if_splits option.splits)
    next
      case 4
      then show ?thesis using w True 11(1) 11(5) by simp
    qed (use w True in simp)
  next
    case False
    then show ?thesis using w 11(2) 11(5) by (auto split: if_splits)
  qed
  then show ?case using 11(3) [OF w refl ws(1) 11(5)] ws(2) by simp
qed simp_all

lemma redact_each_all2:
  assumes "\<And>x s y s'. f x s = Some (y, s') \<Longrightarrow> R x y"
  shows "redact_each f xs s = Some (ys, s') \<Longrightarrow> list_all2 R xs ys"
  by (induction xs arbitrary: s ys) (auto split: option.splits dest: assms)

lemma redact_opt_rel:
  assumes "\<And>v s w s'. f v s = Some (w, s') \<Longrightarrow> R v w"
  shows "redact_opt f x s = Some (y, s') \<Longrightarrow> rel_option R x y"
  by (auto simp: redact_opt_def split: option.splits dest: assms)

definition message_kept :: "pii_message \<Rightarrow> pii_message \<Rightarrow> bool" where
  "message_kept m m' \<longleftrightarrow>
     om_role m' = om_role m \<and> om_name m' = om_name m \<and> om_tool_call_id m' = om_tool_call_id m \<and>
     rel_option (kept (om_role m = ''tool'')) (om_content m) (om_content m') \<and>
     rel_option (list_all2 (kept False)) (om_tool_calls m) (om_tool_calls m') \<and>
     list_all2 (\<lambda>kv kw. fst kw = fst kv \<and> (if is_reasoning_key (fst kv) then kept False (snd kv) (snd kw) else kw = kv))
       (om_extra m) (om_extra m')"

lemma redact_message_kept:
  assumes "number_law (pe_serde e)" and "redact_message e m s = Some (m', s')"
  shows "message_kept m m'"
proof -
  have v: "redact_json_in e b v s = Some (w, s') \<Longrightarrow> kept b v w" for b v s w s'
    using redact_kept(1) [OF assms(1)] by (simp add: redact_json_in_def)
  have x: "redact_extra e kv s = Some (kw, s') \<Longrightarrow>
      fst kw = fst kv \<and> (if is_reasoning_key (fst kv) then kept False (snd kv) (snd kw) else kw = kv)" for kv s kw s'
    using v by (auto simp: redact_extra_def redact_json_value_def split: if_splits)
  obtain c s1 ex s2 tc where r: "redact_opt (redact_json_in e (om_role m = ''tool'')) (om_content m) s = Some (c, s1)"
    "redact_each (redact_extra e) (om_extra m) s1 = Some (ex, s2)"
    "redact_opt (redact_each (redact_json_value e)) (om_tool_calls m) s2 = Some (tc, s')"
    "m' = m \<lparr> om_content := c, om_extra := ex, om_tool_calls := tc \<rparr>"
    using assms(2) by (auto simp: redact_message_def Option.bind_eq_Some_conv)
  have "rel_option (kept (om_role m = ''tool'')) (om_content m) c" by (rule redact_opt_rel [OF _ r(1)]) (erule v)
  moreover have "rel_option (list_all2 (kept False)) (om_tool_calls m) tc"
    by (rule redact_opt_rel [OF _ r(3)], erule redact_each_all2 [rotated]) (auto simp: redact_json_value_def dest: v)
  moreover have "list_all2 (\<lambda>kv kw. fst kw = fst kv \<and> (if is_reasoning_key (fst kv) then kept False (snd kv) (snd kw) else kw = kv))
      (om_extra m) ex"
    by (rule redact_each_all2 [OF _ r(2)]) (erule x)
  ultimately show ?thesis using r(4) by (simp add: message_kept_def)
qed

text \<open>Redaction of a conversation keeps the protocol: messages stay in number and order with their role,
  name and tool call id; content, tool calls and reasoning keep the kinds of their values, the lengths of
  arrays and the keys; protocol fields (ids, types, function names) and media payloads stay as they are,
  and so does every other field of the message.\<close>

theorem redacted_messages_keep_protocol:
  assumes "number_law (pe_serde e)" and "redact_messages e ms s = Some (ms', s')"
  shows "list_all2 message_kept ms ms'"
  by (rule redact_each_all2 [OF _ assms(2) [unfolded redact_messages_def]]) (erule redact_message_kept [OF assms(1)])

definition demo_engine :: pii_engine where
  "demo_engine = \<lparr> pe_entities = [PiiEmail], pe_env = demo_env, pe_upper = (\<lambda>_. False),
     pe_serde = \<lparr> pj_from_str = (\<lambda>_. None), pj_to_string = (\<lambda>_. None), pj_number = (\<lambda>_. None) \<rparr> \<rparr>"

definition demo_message :: pii_message where
  "demo_message = \<lparr> om_role = ''user'', om_content = Some (JStr demo_text), om_name = None, om_tool_call_id = None,
     om_tool_calls = None, om_extra = [] \<rparr>"

lemma redacted_messages_keep_protocol_witness:
  "\<exists>m s'. redact_messages demo_engine [demo_message] (pii_session_new True) = Some ([m], s') \<and>
     om_content m = Some (JStr ''hi alex.turner1@fastmail.com'') \<and> message_kept demo_message m"
proof -
  obtain s' where r: "redact_text demo_env (\<lambda>_. False) [PiiEmail] demo_text (pii_session_new True) = Some (''hi alex.turner1@fastmail.com'', s')"
    using demo_redacts by blast
  have law: "number_law (pe_serde demo_engine)" by (simp add: number_law_def demo_engine_def)
  have t: "\<not> starts_with (trim demo_text) ''data:''" "\<not> length (trim demo_text) \<ge> 256" "\<not> looks_like_json demo_text" by code_simp+
  have s: "seed_existing_placeholders demo_text s = s" for s by (simp add: seed_existing_placeholders_def demo_seeds)
  have "redact_messages demo_engine [demo_message] (pii_session_new True) =
      Some ([demo_message \<lparr> om_content := Some (JStr ''hi alex.turner1@fastmail.com'') \<rparr>], s')"
    using r t s by (simp add: redact_messages_def redact_message_def redact_opt_def demo_message_def demo_engine_def seed_message_def
        seed_json_value_def redact_json_in_def Let_def)
  from redacted_messages_keep_protocol [OF law this] this show ?thesis by (auto simp: demo_message_def)
qed

end
