(* ===== verification/Pii_Replacer.thy ===== *)
theory Pii_Replacer
  imports Pii_Candidates
begin

text \<open>
  Restoration of placeholders in what a model answers (openproxy-pipeline/src/pii/replacer.rs,
  replacer/contact.rs and the restoration half of session.rs): the mapping from placeholders and their
  formatting variants to the originals, and the replacer that works on a stream cut into chunks. The
  automaton is the aho-corasick crate's: \<open>ac_build\<close> gives, for a list of patterns, the search for their
  leftmost-longest occurrences up to ASCII case, as pattern index, start and end. The restoration of
  SSE payloads, JSON and responses is not modelled.
\<close>

section \<open>Restoration mapping\<close>

fun longest_zeros :: "nat \<Rightarrow> nat \<times> nat \<Rightarrow> nat \<times> nat \<Rightarrow> nat list \<Rightarrow> nat \<times> nat" where
  "longest_zeros i cur best [] = best"
| "longest_zeros i cur best (g # gs) =
     (if g = 0
      then (let cur' = (if snd cur = 0 then i else fst cur, snd cur + 1)
            in longest_zeros (Suc i) cur' (if snd cur' > snd best then cur' else best) gs)
      else longest_zeros (Suc i) (0, 0) best gs)"

function show_hex :: "nat \<Rightarrow> string" where
  "show_hex n = (if n < 16 then [''0123456789abcdef'' ! n] else show_hex (n div 16) @ [''0123456789abcdef'' ! (n mod 16)])"
  by pat_completeness auto
termination
  by (relation "measure id") auto

declare show_hex.simps [simp del]

fun join_colon :: "string list \<Rightarrow> string" where
  "join_colon [] = []"
| "join_colon [x] = x"
| "join_colon (x # y # xs) = x @ '':'' @ join_colon (y # xs)"

text \<open>\<open>Display\<close> of an IPv6 address.\<close>

definition show_ipv6 :: "nat list \<Rightarrow> string" where
  "show_ipv6 gs =
     (if take 6 gs = [0, 0, 0, 0, 0, 65535]
      then ''::ffff:'' @ show_nat (gs ! 6 div 256) @ ''.'' @ show_nat (gs ! 6 mod 256) @ ''.'' @
           show_nat (gs ! 7 div 256) @ ''.'' @ show_nat (gs ! 7 mod 256)
      else (let (start, len) = longest_zeros 0 (0, 0) (0, 0) gs
            in if len > 1
               then join_colon (map show_hex (take start gs)) @ ''::'' @ join_colon (map show_hex (drop (start + len) gs))
               else join_colon (map show_hex gs)))"

record alias_state =
  al_aliases :: "(string, string) hmap"
  al_ambiguous :: "string list"

definition add_alias :: "pii_session \<Rightarrow> string \<Rightarrow> string \<Rightarrow> alias_state \<Rightarrow> alias_state" where
  "add_alias s alias original st =
     (if hm_get (pi_reverse s) alias \<noteq> None \<or> alias \<in> set (al_ambiguous st) then st
      else (case hm_get (al_aliases st) alias of
              Some existing \<Rightarrow>
                (if existing \<noteq> original
                 then st \<lparr> al_aliases := hm_remove alias (al_aliases st), al_ambiguous := alias # al_ambiguous st \<rparr>
                 else st \<lparr> al_aliases := hm_put alias original (al_aliases st) \<rparr>)
            | None \<Rightarrow> st \<lparr> al_aliases := hm_put alias original (al_aliases st) \<rparr>))"

definition replace_chars :: "string \<Rightarrow> string \<Rightarrow> string \<Rightarrow> string" where
  "replace_chars cs r s = concat (map (\<lambda>c. if c \<in> set cs then r else [c]) s)"

definition entity_aliases :: "pii_session \<Rightarrow> string \<Rightarrow> string \<Rightarrow> (string \<times> string) list" where
  "entity_aliases s placeholder original =
     (case hm_get (pi_placeholder_entities s) placeholder of
        Some PiiPhone \<Rightarrow>
          (let digits = filter is_digit placeholder
           in [(''+'' @ digits, original), (digits, original), (replace_chars ''-'' '' '' placeholder, original)])
      | Some PiiSecret \<Rightarrow> [(''-p'' @ placeholder, ''-p'' @ original)]
      | Some PiiCreditCard \<Rightarrow> [(replace_chars '' -'' [] placeholder, original), (replace_chars '' '' ''-'' placeholder, original)]
      | Some PiiIp \<Rightarrow>
          (case parse_ipv6 placeholder of
             Some gs \<Rightarrow> [(show_ipv6 gs, original), (join_colon (map (show_hex_digits 4) gs), original), (join_colon (map show_hex gs), original)]
           | None \<Rightarrow> [])
      | _ \<Rightarrow> [])"

definition markup_alias :: "string \<Rightarrow> string \<Rightarrow> (string \<times> string) list" where
  "markup_alias placeholder original =
     (if starts_with placeholder ''<'' \<and> ends_with placeholder ''>''
      then [(replace_chars ''>'' ''&gt;'' (replace_chars ''<'' ''&lt;'' placeholder), original)] else [])"

definition restoration_aliases :: "pii_session \<Rightarrow> alias_state" where
  "restoration_aliases s =
     fold (\<lambda>(alias, original). add_alias s alias original)
       (concat (map (\<lambda>(p, x). entity_aliases s p x @ markup_alias p x) (pi_reverse s)))
       \<lparr> al_aliases = [], al_ambiguous = [] \<rparr>"

definition restoration_mapping :: "pii_session \<Rightarrow> (string, string) hmap" where
  "restoration_mapping s =
     (if \<not> pi_reversible s then []
      else fold (\<lambda>(p, x). hm_put p x) (pi_reverse s) (al_aliases (restoration_aliases s)))"

section \<open>Contacts\<close>

datatype contact_kind = CkEmail | CkIpv4 | CkIpv6

definition contact_kind_of :: "string \<Rightarrow> contact_kind option" where
  "contact_kind_of pat =
     (if CHR ''@'' \<in> set pat then Some CkEmail
      else if parse_ipv4 pat \<noteq> None then Some CkIpv4
      else if parse_ipv6 pat \<noteq> None then Some CkIpv6
      else None)"

definition one_of :: "string \<Rightarrow> string \<Rightarrow> bool" where
  "one_of cs c = (length c = 1 \<and> hd c \<in> set cs)"

fun extends_contact_left :: "contact_kind \<Rightarrow> string \<Rightarrow> bool" where
  "extends_contact_left CkEmail c = one_of [CHR ''.'', CHR ''+'', CHR ''%'', CHR ''-'', CHR 0x27, CHR ''@''] c"
| "extends_contact_left CkIpv4 c = one_of ''.+%'' c"
| "extends_contact_left CkIpv6 c = (c = '':'')"

definition extends_contact_right :: "pii_env \<Rightarrow> contact_kind \<Rightarrow> string \<Rightarrow> bool \<Rightarrow> bool option" where
  "extends_contact_right env kind tail is_eof =
     (case utf8_chars tail of
        [] \<Rightarrow> Some False
      | c # cs \<Rightarrow>
          (if kind = CkEmail \<and> one_of ''-+%@'' c then Some True
           else if kind = CkIpv6 then Some (c = '':'' \<or> c = ''%'')
           else if c = ''.''
           then (case cs of
                   n # _ \<Rightarrow> Some (is_word_char env n \<or> n = ''-'')
                 | [] \<Rightarrow> (if is_eof then Some False else None))
           else Some False))"

section \<open>The streaming replacer\<close>

type_synonym ac_match = "nat \<times> nat \<times> nat"

record window_replacer =
  wr_automaton :: "(string \<Rightarrow> ac_match list) option"
  wr_patterns :: "string list"
  wr_replacements :: "string list"
  wr_pending :: string
  wr_max_len :: nat
  wr_last_char :: "string option"

definition cmp_string :: "string \<Rightarrow> string \<Rightarrow> ordering" where
  "cmp_string a b = (if a = b then Equal else if lexordp (\<lambda>x y. (of_char x :: nat) < of_char y) a b then Less else Greater)"

definition cmp_pair :: "string \<times> string \<Rightarrow> string \<times> string \<Rightarrow> ordering" where
  "cmp_pair a b =
     then_with (then_with (cmp_nat (length (fst b)) (length (fst a))) (cmp_string (fst a) (fst b))) (cmp_string (snd a) (snd b))"

definition replacer_new :: "(string list \<Rightarrow> (string \<Rightarrow> ac_match list) option) \<Rightarrow> (string, string) hmap \<Rightarrow> window_replacer" where
  "replacer_new ac_build mapping =
     (if mapping = []
      then \<lparr> wr_automaton = None, wr_patterns = [], wr_replacements = [], wr_pending = [], wr_max_len = 0, wr_last_char = None \<rparr>
      else (let pairs = sort_by cmp_pair mapping
            in \<lparr> wr_automaton = ac_build (map fst pairs), wr_patterns = map fst pairs, wr_replacements = map snd pairs,
                 wr_pending = [], wr_max_len = length (fst (hd pairs)), wr_last_char = None \<rparr>))"

text \<open>The proper prefixes of the patterns, in lower case.\<close>

definition is_prefix_of_pattern :: "window_replacer \<Rightarrow> string \<Rightarrow> bool" where
  "is_prefix_of_pattern w x =
     list_ex (\<lambda>pat. list_ex (\<lambda>i. is_char_boundary pat i \<and> x = to_ascii_lowercase (take i pat)) [1..<length pat]) (wr_patterns w)"

definition char_positions :: "string \<Rightarrow> nat \<Rightarrow> nat list" where
  "char_positions s from = filter (is_char_boundary s) [from..<length s]"

definition undecidable_start :: "window_replacer \<Rightarrow> string \<Rightarrow> nat option" where
  "undecidable_start w input =
     find (\<lambda>pos. is_prefix_of_pattern w (to_ascii_lowercase (drop pos input)))
       (char_positions input (ceil_boundary input (length input - (wr_max_len w - 1))))"

definition last_char_of :: "string \<Rightarrow> string option" where
  "last_char_of s = (if s = [] then None else Some (last (utf8_chars s)))"

definition first_char_of :: "string \<Rightarrow> string option" where
  "first_char_of s = (if s = [] then None else Some (hd (utf8_chars s)))"

definition or_else :: "'a option \<Rightarrow> 'a option \<Rightarrow> 'a option" where
  "or_else a b = (case a of None \<Rightarrow> b | Some x \<Rightarrow> Some x)"

definition opt_is :: "('a \<Rightarrow> bool) \<Rightarrow> 'a option \<Rightarrow> bool" where
  "opt_is p x = (case x of None \<Rightarrow> False | Some v \<Rightarrow> p v)"

text \<open>What becomes of one match: left alone, replaced, or kept for the next chunk.\<close>

datatype verdict = Leave | Replace | Hold

definition judge_match :: "pii_env \<Rightarrow> window_replacer \<Rightarrow> bool \<Rightarrow> string \<Rightarrow> string option \<Rightarrow> ac_match \<Rightarrow> verdict" where
  "judge_match env w is_eof input last_char m =
     (case m of (pat_idx, mat_start, mat_end) \<Rightarrow>
        (let pat = wr_patterns w ! pat_idx;
             prev_char = (if mat_start > 0 then last_char_of (take mat_start input) else last_char);
             pat_starts_token = opt_is (is_word_char env) (first_char_of pat) \<or> starts_with pat ''+'' \<or> starts_with pat ''-p'';
             pat_ends_token = opt_is (is_word_char env) (last_char_of pat);
             contact = contact_kind_of pat
         in if pat_starts_token \<and> opt_is (is_word_char env) prev_char then Leave
            else if opt_is (\<lambda>kind. opt_is (extends_contact_left kind) prev_char) contact then Leave
            else if mat_end = length input
            then (if \<not> is_eof \<and> (is_prefix_of_pattern w (to_ascii_lowercase (drop mat_start input)) \<or> pat_ends_token) then Hold else Replace)
            else if pat_ends_token \<and> opt_is (is_word_char env) (first_char_of (drop mat_end input)) then Leave
            else (case contact of
                    None \<Rightarrow> Replace
                  | Some kind \<Rightarrow>
                      (case extends_contact_right env kind (drop mat_end input) is_eof of
                         Some True \<Rightarrow> Leave | Some False \<Rightarrow> Replace | None \<Rightarrow> Hold))))"

text \<open>The loop over the matches: the text so far, the end of the last replacement and, when a match is held, its start.\<close>

fun match_loop ::
    "pii_env \<Rightarrow> window_replacer \<Rightarrow> bool \<Rightarrow> string \<Rightarrow> nat option \<Rightarrow> ac_match list \<Rightarrow> string \<Rightarrow> nat \<Rightarrow> string option \<Rightarrow>
     string \<times> nat \<times> string option \<times> nat option" where
  "match_loop env w is_eof input undecidable [] out last_end last_char = (out, last_end, last_char, None)"
| "match_loop env w is_eof input undecidable (m # ms) out last_end last_char =
     (case m of (pat_idx, mat_start, mat_end) \<Rightarrow>
        if opt_is (\<lambda>start. mat_start \<ge> start) undecidable then (out, last_end, last_char, None)
        else if mat_start < last_end then match_loop env w is_eof input undecidable ms out last_end last_char
        else (case judge_match env w is_eof input last_char m of
                Leave \<Rightarrow> match_loop env w is_eof input undecidable ms out last_end last_char
              | Hold \<Rightarrow> (out @ slice input (last_end, mat_start), last_end, or_else (last_char_of (take mat_start input)) last_char, Some mat_start)
              | Replace \<Rightarrow>
                  (let out' = out @ slice input (last_end, mat_start) @ wr_replacements w ! pat_idx
                   in match_loop env w is_eof input undecidable ms out' mat_end (or_else (last_char_of out') last_char))))"

text \<open>What is emitted after the loop, and what is kept because it may become a pattern.\<close>

definition finish_window :: "window_replacer \<Rightarrow> bool \<Rightarrow> string \<Rightarrow> string \<times> nat \<times> string option \<times> nat option \<Rightarrow> window_replacer \<times> string" where
  "finish_window w is_eof input result =
     (case result of (out, last_end, last_char, held) \<Rightarrow>
        (case held of
           Some start \<Rightarrow> (w \<lparr> wr_last_char := last_char, wr_pending := drop start input \<rparr>, out)
         | None \<Rightarrow>
             (let trailing = drop last_end input in
              if trailing = [] then (w \<lparr> wr_last_char := or_else (last_char_of out) last_char \<rparr>, out)
              else if is_eof \<or> wr_max_len w = 0
              then (w \<lparr> wr_last_char := or_else (last_char_of (out @ trailing)) last_char \<rparr>, out @ trailing)
              else
                (let scan_start = (if length trailing \<ge> wr_max_len w
                                   then ceil_boundary trailing (length trailing - (wr_max_len w - 1)) else 0);
                     offset = (case find (\<lambda>pos. length trailing - pos < wr_max_len w \<and>
                                       is_prefix_of_pattern w (to_ascii_lowercase (drop pos trailing)))
                                     (char_positions trailing scan_start) of
                                 Some pos \<Rightarrow> pos | None \<Rightarrow> length trailing);
                     pending = drop offset trailing;
                     emitted = take (length input - length pending) input
                 in (w \<lparr> wr_pending := pending, wr_last_char := or_else (last_char_of emitted) last_char \<rparr>,
                     out @ take offset trailing)))))"

definition process_internal :: "pii_env \<Rightarrow> window_replacer \<Rightarrow> string \<Rightarrow> bool \<Rightarrow> window_replacer \<times> string" where
  "process_internal env w chunk is_eof =
     (case wr_automaton w of
        None \<Rightarrow> (w, chunk)
      | Some find_matches \<Rightarrow>
          (let input = wr_pending w @ chunk; w0 = w \<lparr> wr_pending := [] \<rparr> in
           if input = [] then (w0, [])
           else finish_window w0 is_eof input
                  (match_loop env w is_eof input (if is_eof then None else undecidable_start w input) (find_matches input) [] 0
                    (wr_last_char w))))"

definition replacer_process :: "pii_env \<Rightarrow> window_replacer \<Rightarrow> string \<Rightarrow> window_replacer \<times> string" where
  "replacer_process env w chunk = process_internal env w chunk False"

definition replacer_flush :: "pii_env \<Rightarrow> window_replacer \<Rightarrow> window_replacer \<times> string" where
  "replacer_flush env w =
     (if wr_pending w = [] then (w, [])
      else (let (w', out) = process_internal env (w \<lparr> wr_pending := [] \<rparr>) (wr_pending w) True in (w' \<lparr> wr_last_char := None \<rparr>, out)))"

definition restore_text :: "pii_env \<Rightarrow> (string list \<Rightarrow> (string \<Rightarrow> ac_match list) option) \<Rightarrow> pii_session \<Rightarrow> string \<Rightarrow> string" where
  "restore_text env ac_build s t =
     (if \<not> pi_reversible s \<or> pi_reverse s = [] \<or> t = [] then t
      else (let (w, restored) = replacer_process env (replacer_new ac_build (restoration_mapping s)) t
            in restored @ snd (replacer_flush env w)))"

section \<open>Only placeholders are replaced\<close>

text \<open>A text restored from another: pieces are kept, or are a pattern up to case and become its replacement.\<close>

inductive restores :: "(string \<times> string) list \<Rightarrow> string \<Rightarrow> string \<Rightarrow> bool" for mapping where
  restores_nil: "restores mapping [] []"
| restores_keep: "restores mapping a b \<Longrightarrow> restores mapping (a @ x) (b @ x)"
| restores_replace: "restores mapping a b \<Longrightarrow> (p, r) \<in> set mapping \<Longrightarrow> eq_ignore_ascii_case m p \<Longrightarrow> restores mapping (a @ m) (b @ r)"

lemma restores_append: "restores mapping c d \<Longrightarrow> restores mapping a b \<Longrightarrow> restores mapping (a @ c) (b @ d)"
proof (induction rule: restores.induct)
  case (restores_keep c d x)
  then show ?case using restores.restores_keep [of mapping "a @ c" "b @ d" x] by simp
next
  case (restores_replace c d p r m)
  then show ?case using restores.restores_replace [of mapping "a @ c" "b @ d" p r m] by simp
qed simp

lemma restores_slice:
  assumes "restores mapping (take i t) out" and "i \<le> j" "j \<le> length t"
  shows "restores mapping (take j t) (out @ slice t (i, j))"
proof -
  have "take j t = take i t @ slice t (i, j)" using assms(2,3) take_add [of i "j - i" t] by (simp add: slice_def)
  then show ?thesis using restores_keep [OF assms(1)] by simp
qed

text \<open>What the automaton reports: spans of the text that are a pattern, up to case.\<close>

definition match_ok :: "string list \<Rightarrow> string \<Rightarrow> ac_match \<Rightarrow> bool" where
  "match_ok pats t m =
     (case m of (i, a, b) \<Rightarrow> i < length pats \<and> a \<le> b \<and> b \<le> length t \<and> eq_ignore_ascii_case (slice t (a, b)) (pats ! i))"

definition matches_law :: "string list \<Rightarrow> (string \<Rightarrow> ac_match list) \<Rightarrow> bool" where
  "matches_law pats f \<longleftrightarrow> (\<forall>t. \<forall>m \<in> set (f t). match_ok pats t m)"

text \<open>The replacer holds a mapping.\<close>

definition replacer_ok :: "(string \<times> string) list \<Rightarrow> window_replacer \<Rightarrow> bool" where
  "replacer_ok mapping w \<longleftrightarrow>
     length (wr_replacements w) = length (wr_patterns w) \<and>
     (\<forall>i < length (wr_patterns w). (wr_patterns w ! i, wr_replacements w ! i) \<in> set mapping) \<and>
     (case wr_automaton w of None \<Rightarrow> wr_pending w = [] | Some f \<Rightarrow> matches_law (wr_patterns w) f)"

lemma extends_contact_right_eof: "extends_contact_right env kind tail True \<noteq> None"
  by (auto simp: extends_contact_right_def split: list.splits)

lemma no_hold_at_eof: "judge_match env w True input lc m \<noteq> Hold"
  by (auto simp: judge_match_def Let_def extends_contact_right_eof split: prod.splits option.splits bool.splits)

lemma match_loop_restores:
  assumes "replacer_ok mapping w" and "\<forall>m \<in> set ms. match_ok (wr_patterns w) input m"
    and "restores mapping (take last_end input) out" "last_end \<le> length input"
    and "match_loop env w is_eof input und ms out last_end lc = (out', e', lc', held)"
  shows "case held of None \<Rightarrow> e' \<le> length input \<and> restores mapping (take e' input) out'
     | Some start \<Rightarrow> \<not> is_eof \<and> start \<le> length input \<and> restores mapping (take start input) out'"
  using assms(2-)
proof (induction ms arbitrary: out last_end lc)
  case (Cons m ms)
  obtain i a b where m: "m = (i, a, b)" by (cases m)
  have ok: "i < length (wr_patterns w)" "a \<le> b" "b \<le> length input" "eq_ignore_ascii_case (slice input (a, b)) (wr_patterns w ! i)"
    using Cons.prems(1) m by (auto simp: match_ok_def)
  consider "opt_is (\<lambda>start. a \<ge> start) und" | "\<not> opt_is (\<lambda>start. a \<ge> start) und" "a < last_end"
    | (judge) "\<not> opt_is (\<lambda>start. a \<ge> start) und" "last_end \<le> a" by linarith
  then show ?case
  proof cases
    case judge
    have gap: "restores mapping (take a input) (out @ slice input (last_end, a))"
      using restores_slice [OF Cons.prems(2) judge(2)] ok by simp
    show ?thesis
    proof (cases "judge_match env w is_eof input lc m")
      case Leave
      then show ?thesis using Cons.IH [OF _ Cons.prems(2,3)] Cons.prems(1,4) judge m by simp
    next
      case Hold
      then have "\<not> is_eof" using no_hold_at_eof by metis
      then show ?thesis using Cons.prems(4) judge m Hold gap ok by auto
    next
      case Replace
      let ?out = "out @ slice input (last_end, a) @ wr_replacements w ! i"
      have "(wr_patterns w ! i, wr_replacements w ! i) \<in> set mapping" using assms(1) ok(1) by (simp add: replacer_ok_def)
      from restores_replace [OF gap this ok(4)] have "restores mapping (take b input) ?out"
        using ok(2,3) take_add [of a "b - a" input] by (simp add: slice_def)
      then show ?thesis using Cons.IH [of b ?out] Cons.prems(1,4) judge m Replace ok(3) by (simp add: Let_def)
    qed
  qed (use Cons m in auto)
qed auto

lemma finish_window_split:
  assumes "finish_window w is_eof input (o1, e, lc, held) = (w', out)" and "wr_pending w = []" and "held \<noteq> None \<Longrightarrow> \<not> is_eof"
  shows "\<exists>k lc'. w' = w \<lparr> wr_pending := drop k (drop (case held of Some _ \<Rightarrow> 0 | None \<Rightarrow> e) input), wr_last_char := lc' \<rparr> \<and>
    (case held of Some start \<Rightarrow> k = start \<and> out = o1 | None \<Rightarrow> out = o1 @ take k (drop e input)) \<and>
    (is_eof \<longrightarrow> wr_pending w' = [])"
proof (cases held)
  case (Some start)
  then show ?thesis using assms by (intro exI [of _ start] exI [of _ lc]) (auto simp: finish_window_def)
next
  case None
  let ?t = "drop e input"
  show ?thesis
  proof (cases "?t = [] \<or> is_eof \<or> wr_max_len w = 0")
    case True
    then have "\<exists>lc'. w' = w \<lparr> wr_last_char := lc' \<rparr> \<and> out = o1 @ ?t"
      using assms(1) None by (cases "?t = []") (auto simp: finish_window_def Let_def)
    then obtain lc' where "w' = w \<lparr> wr_last_char := lc' \<rparr>" "out = o1 @ ?t" by blast
    then show ?thesis using None assms(2) by (intro exI [of _ "length ?t"] exI [of _ lc']) (cases w, simp)
  next
    case False
    then show ?thesis using assms(1) None by (auto simp: finish_window_def Let_def)
  qed
qed

lemma process_internal_restores:
  assumes ok: "replacer_ok mapping w" and p: "process_internal env w chunk is_eof = (w', out)"
  shows "replacer_ok mapping w' \<and> (\<exists>done'. wr_pending w @ chunk = done' @ wr_pending w' \<and> restores mapping done' out) \<and>
    (is_eof \<longrightarrow> wr_pending w' = [])"
proof (cases "wr_automaton w")
  case None
  then show ?thesis using assms restores_keep [OF restores_nil, of mapping chunk] by (auto simp: process_internal_def replacer_ok_def)
next
  case (Some f)
  define input where "input = wr_pending w @ chunk"
  let ?w0 = "w \<lparr> wr_pending := [] \<rparr>"
  have frame: "replacer_ok mapping (?w0 \<lparr> wr_pending := x, wr_last_char := y \<rparr>)" for x y
    using ok Some by (simp add: replacer_ok_def)
  show ?thesis
  proof (cases "input = []")
    case True
    then show ?thesis using p Some ok restores_nil by (auto simp: process_internal_def replacer_ok_def input_def)
  next
    case False
    obtain o1 e lc held where loop:
      "match_loop env w is_eof input (if is_eof then None else undecidable_start w input) (f input) [] 0 (wr_last_char w) = (o1, e, lc, held)"
      by (metis prod_cases4)
    have "\<forall>m \<in> set (f input). match_ok (wr_patterns w) input m" using ok Some by (simp add: replacer_ok_def matches_law_def)
    then have r: "case held of None \<Rightarrow> e \<le> length input \<and> restores mapping (take e input) o1
        | Some start \<Rightarrow> \<not> is_eof \<and> start \<le> length input \<and> restores mapping (take start input) o1"
      using match_loop_restores [OF ok _ _ _ loop] restores_nil by simp
    have fin: "finish_window ?w0 is_eof input (o1, e, lc, held) = (w', out)"
      using p unfolding process_internal_def Some Let_def input_def [symmetric] option.case if_not_P [OF False] loop .
    have held: "held \<noteq> None \<Longrightarrow> \<not> is_eof" and pend: "wr_pending ?w0 = []" using r by (auto split: option.splits)
    obtain k lc' where
      w': "w' = ?w0 \<lparr> wr_pending := drop k (drop (case held of Some _ \<Rightarrow> 0 | None \<Rightarrow> e) input), wr_last_char := lc' \<rparr>"
      and k: "case held of Some start \<Rightarrow> k = start \<and> out = o1 | None \<Rightarrow> out = o1 @ take k (drop e input)"
      and eof: "is_eof \<longrightarrow> wr_pending w' = []"
      using finish_window_split [OF fin pend held] by blast
    have "\<exists>done'. input = done' @ wr_pending w' \<and> restores mapping done' out"
    proof (cases held)
      case h: None
      then have "restores mapping (take e input @ take k (drop e input)) out" using restores_keep r k by simp
      moreover have "input = (take e input @ take k (drop e input)) @ wr_pending w'" using w' h by (simp del: drop_drop)
      ultimately show ?thesis by blast
    next
      case h: (Some start)
      then show ?thesis using r k w' by (intro exI [of _ "take start input"]) simp
    qed
    then show ?thesis using frame w' eof by (simp add: input_def)
  qed
qed

section \<open>A whole stream\<close>

fun replacer_stream :: "pii_env \<Rightarrow> window_replacer \<Rightarrow> string list \<Rightarrow> string" where
  "replacer_stream env w [] = snd (replacer_flush env w)"
| "replacer_stream env w (chunk # chunks) =
     (let (w', out) = replacer_process env w chunk in out @ replacer_stream env w' chunks)"

lemma replacer_flush_restores:
  assumes "replacer_ok mapping w"
  shows "restores mapping (wr_pending w) (snd (replacer_flush env w))"
proof (cases "wr_pending w = []")
  case True
  then show ?thesis by (simp add: replacer_flush_def restores_nil)
next
  case False
  obtain w' out where p: "process_internal env (w \<lparr> wr_pending := [] \<rparr>) (wr_pending w) True = (w', out)" by fastforce
  have "replacer_ok mapping (w \<lparr> wr_pending := [] \<rparr>)" using assms by (simp add: replacer_ok_def split: option.splits)
  from process_internal_restores [OF this p] have "restores mapping (wr_pending w) out" by auto
  then show ?thesis using False p by (simp add: replacer_flush_def)
qed

lemma replacer_stream_restores:
  "replacer_ok mapping w \<Longrightarrow> restores mapping (wr_pending w @ concat chunks) (replacer_stream env w chunks)"
proof (induction chunks arbitrary: w)
  case Nil
  then show ?case by (simp add: replacer_flush_restores)
next
  case (Cons chunk chunks)
  obtain w' out where p: "process_internal env w chunk False = (w', out)" by fastforce
  from process_internal_restores [OF Cons.prems p] obtain d where d: "replacer_ok mapping w'" "wr_pending w @ chunk = d @ wr_pending w'" "restores mapping d out"
    by auto
  have eq: "wr_pending w @ concat (chunk # chunks) = d @ wr_pending w' @ concat chunks" using d(2) by (simp flip: append_assoc)
  show ?case unfolding eq using restores_append [OF Cons.IH [OF d(1)] d(3)] p by (simp add: replacer_process_def)
qed

lemma replacer_new_ok:
  assumes "\<And>pats f. ac_build pats = Some f \<Longrightarrow> matches_law pats f"
  shows "replacer_ok mapping (replacer_new ac_build mapping)" "wr_pending (replacer_new ac_build mapping) = []"
proof -
  have "(fst (sort_by cmp_pair mapping ! i), snd (sort_by cmp_pair mapping ! i)) \<in> set mapping" if "i < length mapping" for i
    using that nth_mem [of i "sort_by cmp_pair mapping"] by simp
  then show "replacer_ok mapping (replacer_new ac_build mapping)"
    using assms by (auto simp: replacer_ok_def replacer_new_def Let_def split: option.splits)
qed (simp add: replacer_new_def Let_def)

text \<open>C34: However the answer of a model is cut into chunks, restoration changes nothing but placeholders:
  the restored stream is the stream with some pieces that equal a placeholder, up to the case of ASCII
  letters, exchanged for what the mapping says; all other bytes come out unchanged, in order, none lost
  and none held back at the end.\<close>

theorem streamed_restoration_sound:
  assumes "\<And>pats f. ac_build pats = Some f \<Longrightarrow> matches_law pats f"
  shows "restores mapping (concat chunks) (replacer_stream env (replacer_new ac_build mapping) chunks)"
  using replacer_stream_restores [OF replacer_new_ok(1) [OF assms], of ac_build mapping chunks env]
    replacer_new_ok(2) [OF assms, of ac_build mapping] by simp

section \<open>A placeholder comes back\<close>

lemma add_alias_ok: "hm_ok (al_aliases st) \<Longrightarrow> hm_ok (al_aliases (add_alias s a x st))"
  by (auto simp: add_alias_def split: option.splits)

lemma restoration_aliases_ok: "hm_ok (al_aliases (restoration_aliases s))"
proof -
  have "hm_ok (al_aliases (fold (\<lambda>(a, x). add_alias s a x) l st))" if "hm_ok (al_aliases st)" for l st
    using that by (induction l arbitrary: st) (auto simp: add_alias_ok)
  then show ?thesis unfolding restoration_aliases_def by (simp add: hm_ok_def)
qed

lemma hm_Cons: "hm_ok ((a, b) # l) \<longleftrightarrow> hm_get l a = None \<and> hm_ok l" "hm_get ((a, b) # l) p = (if p = a then Some b else hm_get l p)"
  by (auto simp: hm_ok_def hm_get_def map_of_eq_None_iff)

lemma fold_put:
  assumes "hm_ok m" and "hm_ok l"
  shows "hm_ok (fold (\<lambda>(p, x). hm_put p x) l m) \<and>
    hm_get (fold (\<lambda>(p, x). hm_put p x) l m) p = (case hm_get l p of Some x \<Rightarrow> Some x | None \<Rightarrow> hm_get m p)"
  using assms
proof (induction l arbitrary: m)
  case (Cons ab l)
  obtain a b where ab: "ab = (a, b)" by fastforce
  have "hm_get l a = None" "hm_ok l" using Cons.prems(2) ab by (simp_all add: hm_Cons)
  then show ?case using Cons.IH [of "hm_put a b m"] Cons.prems(1) ab by (simp add: hm_Cons hm_simps split: option.split)
qed simp

text \<open>Exact placeholders win over formatting variants.\<close>

lemma restoration_mapping_exact:
  assumes "pi_reversible s" "hm_ok (pi_reverse s)" "hm_get (pi_reverse s) p = Some x"
  shows "hm_ok (restoration_mapping s)" "hm_get (restoration_mapping s) p = Some x"
  using assms fold_put [OF restoration_aliases_ok [of s] assms(2), of p] by (simp_all add: restoration_mapping_def)

lemma prefix_frame [simp]: "is_prefix_of_pattern (w \<lparr> wr_pending := x \<rparr>) = is_prefix_of_pattern w"
  by (rule ext) (simp add: is_prefix_of_pattern_def)

lemma flush_whole:
  assumes "wr_automaton w = Some f" "f p = [(i, 0, length p)]" "wr_replacements w ! i = x" "wr_pending w = p" "wr_last_char w = None" "p \<noteq> []"
  shows "snd (replacer_flush env w) = x"
proof -
  have "judge_match env (w \<lparr> wr_pending := [] \<rparr>) True p None (i, 0, length p) = Replace"
    by (auto simp: judge_match_def Let_def opt_is_def split: option.splits)
  then show ?thesis using assms
    by (simp add: replacer_flush_def process_internal_def finish_window_def opt_is_def slice_def Let_def split: prod.splits)
qed

lemma process_whole:
  assumes w: "wr_automaton w = Some f" "f p = [(i, 0, length p)]" "wr_replacements w ! i = x" "wr_pending w = []" "wr_last_char w = None" "p \<noteq> []"
    and len: "length p \<le> wr_max_len w" and proc: "replacer_process env w p = (w', out)"
  shows "out @ snd (replacer_flush env w') = x"
proof -
  have held: "out @ snd (replacer_flush env w') = x"
    if "w' = w \<lparr> wr_pending := p, wr_last_char := None \<rparr>" "out = []"
    using that flush_whole [of w' f p i x env] w by simp
  consider (wait) "undecidable_start w p = Some 0" | (judge) "\<not> opt_is (\<lambda>start. 0 \<ge> start) (undecidable_start w p)"
    by (cases "undecidable_start w p") (auto simp: opt_is_def)
  then show ?thesis
  proof cases
    case wait
    let ?start = "ceil_boundary p (length p - (wr_max_len w - 1))"
    have f0: "0 \<in> set (char_positions p ?start)" "is_prefix_of_pattern w (to_ascii_lowercase p)"
      using wait by (auto simp: undecidable_start_def find_Some_iff dest: nth_mem)
    then have "?start = 0" by (auto simp: char_positions_def)
    then have "length p \<le> wr_max_len w - 1" using ceil_boundary_ge [of "length p - (wr_max_len w - 1)" p] by simp
    moreover have "0 < length p" using w(6) by simp
    ultimately have short: "length p < wr_max_len w" by linarith
    have "char_positions p 0 = 0 # filter (is_char_boundary p) [1..<length p]"
      using w(6) by (simp add: char_positions_def upt_conv_Cons is_char_boundary_def)
    then have "find (\<lambda>pos. length p - pos < wr_max_len w \<and> is_prefix_of_pattern w (to_ascii_lowercase (drop pos p))) (char_positions p 0) = Some 0"
      using short f0(2) by simp
    then have "w' = w \<lparr> wr_pending := p, wr_last_char := None \<rparr> \<and> out = []"
      using proc w wait short by (auto simp: replacer_process_def process_internal_def finish_window_def opt_is_def or_else_def last_char_of_def Let_def)
    then show ?thesis using held by blast
  next
    case judge
    have "judge_match env w False p None (i, 0, length p) \<in> {Hold, Replace}"
      by (auto simp: judge_match_def Let_def opt_is_def split: option.splits)
    then show ?thesis
    proof
      assume "judge_match env w False p None (i, 0, length p) = Hold"
      then have "w' = w \<lparr> wr_pending := p, wr_last_char := None \<rparr> \<and> out = []"
        using proc w judge by (auto simp: replacer_process_def process_internal_def finish_window_def or_else_def last_char_of_def slice_def Let_def)
      then show ?thesis using held by blast
    next
      assume "judge_match env w False p None (i, 0, length p) \<in> {Replace}"
      then have "wr_pending w' = [] \<and> out = x"
        using proc w judge by (auto simp: replacer_process_def process_internal_def finish_window_def slice_def Let_def)
      then show ?thesis by (simp add: replacer_flush_def)
    qed
  qed
qed

lemma sorted_pairs_head:
  assumes "(p, x) \<in> set mapping"
  shows "length p \<le> length (fst (hd (sort_by cmp_pair mapping)))"
proof -
  let ?c = "\<lambda>a b :: string \<times> string. cmp_nat (length (fst b)) (length (fst a))"
  have "length (fst b) \<le> length (fst (hd (sort_by cmp_pair m)))" if "b \<in> set m" for b and m :: "(string \<times> string) list"
    using that
  proof (induction m arbitrary: b)
    case (Cons a m)
    have ins: "hd (insert_by cmp_pair a ys) = (if ys = [] \<or> cmp_pair a (hd ys) \<noteq> Greater then a else hd ys)" for ys
      by (cases ys) simp_all
    have gt: "cmp_pair a b = Greater \<Longrightarrow> length (fst a) \<le> length (fst b)" "cmp_pair a b \<noteq> Greater \<Longrightarrow> length (fst b) \<le> length (fst a)" for b
      by (auto simp: cmp_pair_def then_with_def cmp_nat_def split: if_splits)
    show ?case
    proof (cases "m = []")
      case False
      then have "sort_by cmp_pair m \<noteq> []" by (metis length_0_conv length_sort_by)
      then show ?thesis using Cons ins [of "sort_by cmp_pair m"] gt [of "hd (sort_by cmp_pair m)"]
        by (fastforce simp: sort_by_def)
    qed (use Cons in \<open>simp add: sort_by_def\<close>)
  qed simp
  then show ?thesis using assms by fastforce
qed

lemma restore_text_whole:
  assumes rv: "pi_reversible s" "hm_ok (pi_reverse s)" "hm_get (pi_reverse s) p = Some x" "p \<noteq> []"
    and ac: "ac_build (map fst (sort_by cmp_pair (restoration_mapping s))) = Some f" "f p = [(i, 0, length p)]"
      "i < length (restoration_mapping s)" "map fst (sort_by cmp_pair (restoration_mapping s)) ! i = p"
  shows "restore_text env ac_build s p = x"
proof -
  let ?m = "restoration_mapping s"
  let ?w = "replacer_new ac_build ?m"
  note m = restoration_mapping_exact [OF rv(1-3)]
  have "?m \<noteq> []" using ac(3) by auto
  then have w: "wr_automaton ?w = Some f" "wr_pending ?w = []" "wr_last_char ?w = None" "wr_replacements ?w ! i = snd (sort_by cmp_pair ?m ! i)"
    "wr_max_len ?w = length (fst (hd (sort_by cmp_pair ?m)))"
    using ac by (simp_all add: replacer_new_def Let_def)
  have "sort_by cmp_pair ?m ! i \<in> set ?m" using ac(3) nth_mem [of i "sort_by cmp_pair ?m"] by simp
  moreover have "fst (sort_by cmp_pair ?m ! i) = p" using ac(3,4) by simp
  ultimately have pm: "(p, snd (sort_by cmp_pair ?m ! i)) \<in> set ?m" by (metis prod.collapse)
  then have x: "snd (sort_by cmp_pair ?m ! i) = x" using m by (simp add: hm_ok_def hm_get_def)
  obtain w' out where proc: "replacer_process env ?w p = (w', out)" by fastforce
  have "out @ snd (replacer_flush env w') = x"
    using process_whole [OF w(1) ac(2) _ w(2,3) rv(4) _ proc] w(4,5) x sorted_pairs_head [OF pm] by simp
  then show ?thesis using rv proc by (auto simp: restore_text_def)
qed

lemma register_aliases_ok: "hm_ok (pi_reverse s) \<Longrightarrow> hm_ok (pi_reverse (register_aliases p x s))"
  by (auto simp: register_aliases_def register_person_alias_def Let_def split: option.splits)

lemma get_or_create_reverse_ok:
  assumes "get_or_create_placeholder has_upper s entity x = Some (s', p)" and "hm_ok (pi_reverse s)"
  shows "hm_ok (pi_reverse s')"
proof (cases "\<exists>s1. create_placeholder s entity x = Some (s', p)")
  case True
  then have "create_placeholder s entity x = Some (s', p)" by blast
  then obtain base s1 where "pi_reverse s1 = hm_put p x (pi_reverse s)" "s' = (if entity = PiiPerson then register_aliases p x s1 else s1)"
    by (rule create_placeholder_elim)
  then show ?thesis using assms(2) register_aliases_ok by auto
next
  case False
  then show ?thesis using assms
    by (auto simp: get_or_create_placeholder_def Let_def intro!: register_aliases_ok split: option.splits if_splits)
qed

lemma pii_reach_reverse_ok: "pii_reach has_upper s \<Longrightarrow> hm_ok (pi_reverse s)"
proof (induction rule: pii_reach.induct)
  case (pii_new reversible)
  then show ?case by (simp add: pii_session_new_def hm_ok_def)
next
  case (pii_get s entity x s' p)
  then show ?case using get_or_create_reverse_ok by blast
qed (simp add: seed_keeps)



lemma streamed_restoration_sound_witness:
  "\<forall>env. restores [(''Alex'', ''Bob'')] ''hi Alex''
     (replacer_stream env (replacer_new (\<lambda>pats. Some (\<lambda>t. if pats = [''Alex''] \<and> t = ''Alex'' then [(0, 0, 4)] else [])) [(''Alex'', ''Bob'')]) [''hi Al'', ''ex''])"
  using streamed_restoration_sound [of "\<lambda>pats. Some (\<lambda>t. if pats = [''Alex''] \<and> t = ''Alex'' then [(0, 0, 4)] else [])" "[(''Alex'', ''Bob'')]" "[''hi Al'', ''ex'']"]
  by (auto simp: matches_law_def match_ok_def slice_def eq_ignore_ascii_case_def)

text \<open>
  The counter is written in decimal into the last group of a fake IPv6 address, so from 10000 on the
  placeholder is no address any more: its formatting variants are not registered and the border rules
  for addresses do not apply to it. An IPv4 placeholder seen in the text is enough to get there.
\<close>

lemmas read_numeral = read_groups.simps(2) [of "pred_numeral v" for v, folded numeral_eq_Suc]
  read_octets.simps(2) [of "pred_numeral v" for v, folded numeral_eq_Suc]

lemma fake_ipv6_overflows: "parse_ipv6 ''fd00:10:240::9999'' \<noteq> None" "parse_ipv6 ''fd00:10:240::10000'' = None"
  by (simp_all add: parse_ipv6_def read_numeral read_after_def read_number_def is_hexdigit_def is_digit_def digit_val_def
      hex_val_def starts_with_def Let_def)

end
