(* ===== verification/Client_Ip.thy ===== *)
theory Client_Ip
  imports OP_Prelude
begin

unbundle bit_operations_syntax

text \<open>
  Which address a request is attributed to (openproxy-server/src/client_ip.rs). The parsers of
  \<open>IpAddr\<close> and \<open>SocketAddr\<close> are those of the standard library: they read from the front of the byte
  string and return the rest. A header is its value when \<open>to_str\<close> accepts it (\<open>Visible\<close>) and
  \<open>Opaque\<close> otherwise.
\<close>

section \<open>Addresses and their text\<close>

datatype ip_addr = V4 "32 word" | V6 "128 word"

datatype header_value = Visible string | Opaque

type_synonym header_map = "string \<Rightarrow> header_value option"

definition to_str_ok :: "header_value \<Rightarrow> string option" where
  "to_str_ok v = (case v of Visible s \<Rightarrow> Some s | Opaque \<Rightarrow> None)"

definition header_str :: "header_map \<Rightarrow> string \<Rightarrow> string option" where
  "header_str h name = Option.bind (h name) to_str_ok"

text \<open>\<open>char::to_digit\<close>.\<close>

definition to_digit :: "nat \<Rightarrow> char \<Rightarrow> nat option" where
  "to_digit radix c =
     (let n = of_char c :: nat;
          d = (if 48 \<le> n \<and> n \<le> 57 then n - 48
               else if 97 \<le> n \<and> n \<le> 122 then n - 87
               else if 65 \<le> n \<and> n \<le> 90 then n - 55 else radix)
      in if d < radix then Some d else None)"

text \<open>Digits up to the first other character; more than \<open>lim\<close> of them, or a value over \<open>bound\<close>, is an error.\<close>

fun read_digits :: "nat \<Rightarrow> nat option \<Rightarrow> nat \<Rightarrow> nat \<Rightarrow> nat \<Rightarrow> string \<Rightarrow> (nat \<times> nat \<times> string) option" where
  "read_digits radix lim bound k acc [] = Some (acc, k, [])"
| "read_digits radix lim bound k acc (c # cs) =
     (case to_digit radix c of
        None \<Rightarrow> Some (acc, k, c # cs)
      | Some d \<Rightarrow>
          (if (case lim of None \<Rightarrow> False | Some l \<Rightarrow> l < k + 1) \<or> bound < acc * radix + d then None
           else read_digits radix lim bound (k + 1) (acc * radix + d) cs))"

definition read_number :: "nat \<Rightarrow> nat option \<Rightarrow> nat \<Rightarrow> bool \<Rightarrow> string \<Rightarrow> (nat \<times> string) option" where
  "read_number radix lim bound allow_zero_prefix s =
     (case read_digits radix lim bound 0 0 s of
        None \<Rightarrow> None
      | Some (v, k, rest) \<Rightarrow>
          (if k = 0 then None
           else if \<not> allow_zero_prefix \<and> take 1 s = ''0'' \<and> 1 < k then None
           else Some (v, rest)))"

definition read_given_char :: "char \<Rightarrow> string \<Rightarrow> string option" where
  "read_given_char c s = (case s of [] \<Rightarrow> None | x # xs \<Rightarrow> if x = c then Some xs else None)"

definition read_octet :: "string \<Rightarrow> (nat \<times> string) option" where
  "read_octet = read_number 10 (Some 3) 255 False"

definition read_ipv4_addr :: "string \<Rightarrow> (nat list \<times> string) option" where
  "read_ipv4_addr s =
     Option.bind (read_octet s) (\<lambda>(a, s1). Option.bind (read_given_char CHR ''.'' s1) (\<lambda>s2.
     Option.bind (read_octet s2) (\<lambda>(b, s3). Option.bind (read_given_char CHR ''.'' s3) (\<lambda>s4.
     Option.bind (read_octet s4) (\<lambda>(c, s5). Option.bind (read_given_char CHR ''.'' s5) (\<lambda>s6.
     Option.bind (read_octet s6) (\<lambda>(d, s7). Some ([a, b, c, d], s7))))))))"

text \<open>Colon-separated groups into \<open>r\<close> slots; a dotted quad may fill the last two of them.\<close>

definition read_colon :: "bool \<Rightarrow> string \<Rightarrow> string option" where
  "read_colon leading s = (if leading then Some s else read_given_char CHR '':'' s)"

fun read_groups :: "nat \<Rightarrow> bool \<Rightarrow> string \<Rightarrow> nat list \<times> bool \<times> string" where
  "read_groups 0 leading s = ([], False, s)"
| "read_groups (Suc r) leading s =
     (case (if 0 < r then Option.bind (read_colon leading s) read_ipv4_addr else None) of
        Some (o4, rest) \<Rightarrow>
          ([o4 ! 0 * 256 + o4 ! 1, o4 ! 2 * 256 + o4 ! 3], True, rest)
      | None \<Rightarrow>
          (case Option.bind (read_colon leading s) (read_number 16 (Some 4) 65535 True) of
             None \<Rightarrow> ([], False, s)
           | Some (g, rest) \<Rightarrow>
               (let (gs, v4, rest') = read_groups r False rest in (g # gs, v4, rest'))))"

definition read_ipv6_addr :: "string \<Rightarrow> (nat list \<times> string) option" where
  "read_ipv6_addr s =
     (let (front, v4, s1) = read_groups 8 True s
      in if length front = 8 then Some (front, s1)
         else if v4 then None
         else Option.bind (read_given_char CHR '':'' s1) (\<lambda>s2.
              Option.bind (read_given_char CHR '':'' s2) (\<lambda>s3.
                let (rear, _, s4) = read_groups (7 - length front) True s3
                in Some (front @ replicate (8 - length front - length rear) 0 @ rear, s4))))"

definition be_value :: "nat \<Rightarrow> nat list \<Rightarrow> nat" where
  "be_value base ds = foldl (\<lambda>acc d. acc * base + d) 0 ds"

definition parse_ip :: "string \<Rightarrow> ip_addr option" where
  "parse_ip s =
     (case read_ipv4_addr s of
        Some (o4, rest) \<Rightarrow> if rest = [] then Some (V4 (of_nat (be_value 256 o4))) else None
      | None \<Rightarrow>
          (case read_ipv6_addr s of
             Some (gs, rest) \<Rightarrow> if rest = [] then Some (V6 (of_nat (be_value 65536 gs))) else None
           | None \<Rightarrow> None))"

text \<open>
  \<open>SocketAddr\<close> from text without a bracket, which leaves the IPv4 form: the address and its port.
\<close>

definition parse_socket_ip :: "string \<Rightarrow> ip_addr option" where
  "parse_socket_ip s =
     Option.bind (read_ipv4_addr s) (\<lambda>(o4, s1).
     Option.bind (read_given_char CHR '':'' s1) (\<lambda>s2.
     Option.bind (read_number 10 None 65535 True s2) (\<lambda>(port, s3).
       if s3 = [] then Some (V4 (of_nat (be_value 256 o4))) else None)))"

section \<open>Trusted proxies\<close>

definition is_ip_in_cidr :: "ip_addr \<Rightarrow> string \<Rightarrow> bool" where
  "is_ip_in_cidr ip cidr0 =
     (let cidr = trim cidr0 in
      case split_once ''/'' cidr of
        None \<Rightarrow> parse_ip cidr = Some ip
      | Some (net_str, prefix_str) \<Rightarrow>
          (case parse_unsigned U8_MAX prefix_str of
             None \<Rightarrow> False
           | Some prefix_len \<Rightarrow>
               (case (ip, parse_ip net_str) of
                  (V4 ip4, Some (V4 net4)) \<Rightarrow>
                    (if prefix_len \<le> 32 then
                       (let m = (if prefix_len = 0 then 0 else push_bit (32 - prefix_len) (NOT 0))
                        in ip4 AND m = net4 AND m)
                     else False)
                | (V6 ip6, Some (V6 net6)) \<Rightarrow>
                    (if prefix_len \<le> 128 then
                       (let m = (if prefix_len = 0 then 0 else push_bit (128 - prefix_len) (NOT 0))
                        in ip6 AND m = net6 AND m)
                     else False)
                | _ \<Rightarrow> False)))"

definition is_trusted_proxy :: "ip_addr \<Rightarrow> string list \<Rightarrow> bool" where
  "is_trusted_proxy ip trusted_proxies = list_ex (is_ip_in_cidr ip) trusted_proxies"

definition trim_quotes :: "string \<Rightarrow> string" where
  "trim_quotes s = rev (dropWhile (\<lambda>c. c = CHR 0x22) (rev (dropWhile (\<lambda>c. c = CHR 0x22) s)))"

definition parse_ip_or_bracketed :: "string \<Rightarrow> ip_addr option" where
  "parse_ip_or_bracketed val0 =
     (let val = trim_quotes (trim val0) in
      if val = [] then None
      else case (if starts_with val ''['' then split_once '']'' (drop 1 val) else None) of
        Some (ipv6_str, _) \<Rightarrow> parse_ip ipv6_str
      | None \<Rightarrow>
          (case parse_socket_ip val of
             Some ip \<Rightarrow> Some ip
           | None \<Rightarrow> parse_ip val))"

fun rightmost_untrusted_in :: "string list \<Rightarrow> ip_addr option list \<Rightarrow> ip_addr option" where
  "rightmost_untrusted_in trusted [] = None"
| "rightmost_untrusted_in trusted (e # es) =
     (case e of
        Some ip \<Rightarrow> if is_trusted_proxy ip trusted then rightmost_untrusted_in trusted es else Some ip
      | None \<Rightarrow> rightmost_untrusted_in trusted es)"

definition rightmost_untrusted :: "ip_addr option list \<Rightarrow> string list \<Rightarrow> ip_addr option" where
  "rightmost_untrusted entries trusted_proxies = rightmost_untrusted_in trusted_proxies (rev entries)"

text \<open>The first \<open>for=\<close> of a section of the \<open>Forwarded\<close> header that holds an address.\<close>

definition forwarded_for :: "string \<Rightarrow> ip_addr option" where
  "forwarded_for sect =
     first_some (\<lambda>part. let p = trim part in
                   if starts_with p ''for='' then parse_ip_or_bracketed (drop 4 p) else None)
       (split_char CHR '';'' sect)"

definition resolve_client_ip :: "header_map \<Rightarrow> ip_addr option \<Rightarrow> string list \<Rightarrow> ip_addr option" where
  "resolve_client_ip headers peer_ip trusted_proxies =
     (if (case peer_ip of Some ip \<Rightarrow> is_trusted_proxy ip trusted_proxies | None \<Rightarrow> False) then
        (case Option.bind (header_str headers ''x-real-ip'') parse_ip_or_bracketed of
           Some real_ip \<Rightarrow> Some real_ip
         | None \<Rightarrow>
             (case Option.bind (header_str headers ''x-forwarded-for'')
                     (\<lambda>xff. rightmost_untrusted
                        (map parse_ip_or_bracketed (split_char CHR '','' xff)) trusted_proxies) of
                Some ip \<Rightarrow> Some ip
              | None \<Rightarrow>
                  (case Option.bind (header_str headers ''forwarded'')
                          (\<lambda>fwd. rightmost_untrusted
                             (map Some (List.map_filter forwarded_for (split_char CHR '','' fwd)))
                             trusted_proxies) of
                     Some ip \<Rightarrow> Some ip
                   | None \<Rightarrow> peer_ip)))
      else peer_ip)"

section \<open>Networks\<close>

text \<open>The mask comparison is the comparison of the leading \<open>prefix_len\<close> bits.\<close>

lemma masked_eq_iff:
  fixes a b :: "'a::len word"
  shows "a AND push_bit n (NOT 0) = b AND push_bit n (NOT 0) \<longleftrightarrow> drop_bit n a = drop_bit n b"
proof -
  have up: "a AND push_bit n (NOT 0) = push_bit n (drop_bit n a)" for a :: "'a word"
    by (rule bit_word_eqI)
      (auto simp: bit_and_iff bit_push_bit_iff bit_drop_bit_eq bit_not_iff bit_mask_iff)
  have down: "drop_bit n (push_bit n (drop_bit n a)) = drop_bit n a" for a :: "'a word"
    by (rule bit_word_eqI)
      (auto simp: bit_push_bit_iff bit_drop_bit_eq dest: bit_imp_le_length)
  show ?thesis unfolding up using down by metis
qed

lemma cidr_mask_eq:
  fixes a b :: "'a::len word"
  assumes "w = LENGTH('a)" "p \<le> w"
  shows "a AND (if p = 0 then 0 else push_bit (w - p) (NOT 0)) =
         b AND (if p = 0 then 0 else push_bit (w - p) (NOT 0)) \<longleftrightarrow>
         drop_bit (w - p) a = drop_bit (w - p) b"
proof (cases "p = 0")
  case True
  then show ?thesis using assms by (simp add: drop_bit_word_beyond)
next
  case False
  then show ?thesis using masked_eq_iff [of a "w - p" b] by simp
qed

lemma is_ip_in_cidr_v4:
  assumes "split_once ''/'' (trim cidr) = Some (net_str, prefix_str)"
    and "parse_unsigned U8_MAX prefix_str = Some p" and "parse_ip net_str = Some (V4 net)" and "p \<le> 32"
  shows "is_ip_in_cidr (V4 ip) cidr \<longleftrightarrow> drop_bit (32 - p) ip = drop_bit (32 - p) net"
  using assms cidr_mask_eq [of 32 p ip net] by (simp add: is_ip_in_cidr_def Let_def)

lemma is_ip_in_cidr_v6:
  assumes "split_once ''/'' (trim cidr) = Some (net_str, prefix_str)"
    and "parse_unsigned U8_MAX prefix_str = Some p" and "parse_ip net_str = Some (V6 net)" and "p \<le> 128"
  shows "is_ip_in_cidr (V6 ip) cidr \<longleftrightarrow> drop_bit (128 - p) ip = drop_bit (128 - p) net"
  using assms cidr_mask_eq [of 128 p ip net] by (simp add: is_ip_in_cidr_def Let_def)

section \<open>Attribution\<close>

lemma split_char_nonempty [simp]: "split_char d s \<noteq> []"
  by (induction s) (auto split: list.splits)

lemma split_char_none: "d \<notin> set s \<Longrightarrow> split_char d s = [s]"
  by (induction s) auto

text \<open>What stands before the last separator does not touch what stands behind it.\<close>

lemma split_char_append: "split_char d (a @ d # b) = split_char d a @ split_char d b"
proof (induction a)
  case Nil
  then show ?case by simp
next
  case (Cons c a)
  then show ?case by (cases "split_char d a") auto
qed

lemma rightmost_untrusted_last:
  "\<not> is_trusted_proxy ip trusted \<Longrightarrow> rightmost_untrusted (es @ [Some ip]) trusted = Some ip"
  by (simp add: rightmost_untrusted_def)

lemma rightmost_untrusted_in_sound:
  "rightmost_untrusted_in trusted es = Some ip \<Longrightarrow> Some ip \<in> set es \<and> \<not> is_trusted_proxy ip trusted"
proof (induction es)
  case Nil
  then show ?case by simp
next
  case (Cons e es)
  then show ?case by (cases e) (auto split: if_splits)
qed

lemma rightmost_untrusted_sound:
  "rightmost_untrusted es trusted = Some ip \<Longrightarrow> Some ip \<in> set es \<and> \<not> is_trusted_proxy ip trusted"
  unfolding rightmost_untrusted_def by (drule rightmost_untrusted_in_sound) simp


definition demo_headers :: header_map where
  "demo_headers name =
     (if name = ''x-forwarded-for'' then Some (Visible ''9.9.9.9, 203.0.113.7:4711'') else None)"

lemma demo_reads:
  "read_ipv4_addr ''203.0.113.7:4711'' = Some ([203, 0, 113, 7], '':4711'')"
  "read_number 10 None 65535 True ''4711'' = Some (4711, [])"
  "read_ipv4_addr ''10.0.0.0'' = Some ([10, 0, 0, 0], [])"
  "parse_unsigned U8_MAX ''8'' = Some 8"
  by (simp_all add: read_ipv4_addr_def read_octet_def read_number_def to_digit_def read_given_char_def
      parse_unsigned_def digit_val_def)

lemma demo_trims:
  "trim_quotes (trim '' 203.0.113.7:4711'') = ''203.0.113.7:4711''"
  "split_once ''/'' (trim ''10.0.0.0/8'') = Some (''10.0.0.0'', ''8'')"
  by code_simp+

lemma demo_parses:
  "parse_ip_or_bracketed '' 203.0.113.7:4711'' = Some (V4 0xCB007107)"
  "is_trusted_proxy (V4 0x0A000001) [''10.0.0.0/8'']"
  "\<not> is_trusted_proxy (V4 0xCB007107) [''10.0.0.0/8'']"
  by (simp_all add: parse_ip_or_bracketed_def demo_reads demo_trims starts_with_def parse_socket_ip_def
      read_given_char_def be_value_def is_trusted_proxy_def parse_ip_def
      is_ip_in_cidr_v4 [OF demo_trims(2) demo_reads(4)])


end
