(* ===== verification/Rate_Limiting.thy ===== *)
theory Rate_Limiting
  imports Client_Ip
begin

text \<open>
  The per-key request limiter and the in-flight limiter (openproxy-core/src/rate_limit.rs), and the
  failed-login throttle and stream cap of the admin API (\<open>AdminAuthLimiter\<close>,
  openproxy-server/src/handlers/admin/auth.rs). Every reading of the clock is an argument, in
  milliseconds. \<open>sort_unstable_by_key\<close> is an argument too: it may order entries with equal keys in
  any way, so \<open>srt\<close> is any function that returns a sorted permutation (\<open>unstable_sort\<close>).
\<close>

section \<open>State\<close>

type_synonym api_key_id = int

datatype rate_limit_key = RlKey api_key_id | RlIp ip_addr

record rate_limit_config =
  rc_max_requests :: nat
  rc_window :: nat
  rc_max_capacity :: nat

definition default_rate_limit_config :: rate_limit_config where
  "default_rate_limit_config = \<lparr> rc_max_requests = 60, rc_window = 60000, rc_max_capacity = 100000 \<rparr>"

record rate_limiter =
  rl_config :: rate_limit_config
  rl_windows :: "(rate_limit_key, nat \<times> nat) hmap"

type_synonym 'k unstable_sorter = "(nat \<times> 'k) list \<Rightarrow> (nat \<times> 'k) list"

definition unstable_sort :: "'k unstable_sorter \<Rightarrow> bool" where
  "unstable_sort srt \<longleftrightarrow> (\<forall>xs. mset (srt xs) = mset xs \<and> sorted (map fst (srt xs)))"

section \<open>The request limiter\<close>

definition rl_new :: "rate_limit_config \<Rightarrow> rate_limiter" where
  "rl_new config = \<lparr> rl_config = config, rl_windows = [] \<rparr>"

definition hm_remove_all :: "'k list \<Rightarrow> ('k, 'v) hmap \<Rightarrow> ('k, 'v) hmap" where
  "hm_remove_all ks m = fold hm_remove ks m"

definition evict_lowest_count_windows ::
    "rate_limit_key unstable_sorter \<Rightarrow> nat \<Rightarrow> rate_limiter \<Rightarrow> rate_limiter" where
  "evict_lowest_count_windows srt n rl =
     (let mx = rc_max_requests (rl_config rl);
          lowest = srt (map (\<lambda>(k, c, s). (c, k)) (filter (\<lambda>(k, c, s). c < mx) (rl_windows rl)))
      in rl \<lparr> rl_windows := hm_remove_all (map snd (take n lowest)) (rl_windows rl) \<rparr>)"

definition evict_oldest_throttled_windows ::
    "rate_limit_key unstable_sorter \<Rightarrow> nat \<Rightarrow> nat \<Rightarrow> rate_limiter \<Rightarrow> rate_limiter" where
  "evict_oldest_throttled_windows srt now n rl =
     (let oldest = srt (map (\<lambda>(k, c, s). (now - s, k)) (rl_windows rl))
      in rl \<lparr> rl_windows := hm_remove_all (map snd (take n oldest)) (rl_windows rl) \<rparr>)"

definition rl_cleanup :: "nat \<Rightarrow> rate_limiter \<Rightarrow> rate_limiter" where
  "rl_cleanup now rl =
     rl \<lparr> rl_windows := hm_retain (\<lambda>k (c, s). now - s < rc_window (rl_config rl)) (rl_windows rl) \<rparr>"

text \<open>The branch of \<open>check\<close> for a key that has an entry, under the lock of that entry.\<close>

definition hit_window :: "rate_limit_config \<Rightarrow> nat \<Rightarrow> nat \<times> nat \<Rightarrow> (nat \<times> nat) \<times> bool" where
  "hit_window cfg now e =
     (let (c, s) = e in
      if rc_window cfg \<le> now - s then ((1, now), True)
      else if c < rc_max_requests cfg then ((c + 1, s), True)
      else ((c, s), False))"

text \<open>Room for a new entry: expired windows, then windows under the limit, then the last resort.\<close>

definition make_room ::
    "rate_limit_key unstable_sorter \<Rightarrow> nat \<Rightarrow> nat \<Rightarrow> rate_limiter \<Rightarrow> rate_limiter" where
  "make_room srt now_cleanup now_evict rl =
     (let cap = rc_max_capacity (rl_config rl) in
      if cap \<le> length (rl_windows rl) then
        (let rl1 = rl_cleanup now_cleanup rl in
         if cap \<le> length (rl_windows rl1) then
           (let rl2 = evict_lowest_count_windows srt 10000 rl1 in
            if cap \<le> length (rl_windows rl2) then evict_oldest_throttled_windows srt now_evict 1000 rl2
            else rl2)
         else rl1)
      else rl)"

definition rl_check ::
    "rate_limit_key unstable_sorter \<Rightarrow> nat \<Rightarrow> nat \<Rightarrow> nat \<Rightarrow> rate_limit_key \<Rightarrow> rate_limiter \<Rightarrow> rate_limiter \<times> bool" where
  "rl_check srt now now_cleanup now_evict key rl =
     (case hm_get (rl_windows rl) key of
        Some e \<Rightarrow>
          (let (e', ok) = hit_window (rl_config rl) now e
           in (rl \<lparr> rl_windows := hm_put key e' (rl_windows rl) \<rparr>, ok))
      | None \<Rightarrow>
          (let rl' = make_room srt now_cleanup now_evict rl
           in (rl' \<lparr> rl_windows := hm_put key (1, now) (rl_windows rl') \<rparr>, True)))"

text \<open>What the server does with a limiter: requests, and the periodic sweep.\<close>

datatype rl_op = Check nat nat nat rate_limit_key | Sweep nat

fun rl_run :: "rate_limit_key unstable_sorter \<Rightarrow> rl_op list \<Rightarrow> rate_limiter \<Rightarrow> rate_limiter" where
  "rl_run srt [] rl = rl"
| "rl_run srt (Check t tc te k # ops) rl = rl_run srt ops (fst (rl_check srt t tc te k rl))"
| "rl_run srt (Sweep t # ops) rl = rl_run srt ops (rl_cleanup t rl)"

section \<open>Slots held by guards\<close>

text \<open>
  \<open>InFlightLimiter\<close> and the stream counter of \<open>AdminAuthLimiter\<close> have the same two operations on a
  map from keys to counts: a slot is taken when the guard is made and given back when it is dropped.
\<close>

definition slot_acquire :: "nat \<Rightarrow> 'k \<Rightarrow> ('k, nat) hmap \<Rightarrow> ('k, nat) hmap \<times> bool" where
  "slot_acquire mx key m0 =
     (let m = (if 100000 \<le> length m0 then hm_retain (\<lambda>k c. 0 < c) m0 else m0) in
      case hm_get m key of
        Some c \<Rightarrow> if mx \<le> c then (m, False) else (hm_put key (c + 1) m, True)
      | None \<Rightarrow> (hm_put key 1 m, True))"

definition slot_release :: "'k \<Rightarrow> ('k, nat) hmap \<Rightarrow> ('k, nat) hmap" where
  "slot_release key m =
     (case hm_get m key of
        Some c \<Rightarrow> if c \<le> 1 then hm_remove key m else hm_put key (c - 1) m
      | None \<Rightarrow> m)"

abbreviation DEFAULT_MAX_CONCURRENT_PER_KEY :: nat where "DEFAULT_MAX_CONCURRENT_PER_KEY \<equiv> 64"

record in_flight_limiter =
  ifl_max :: nat
  ifl_in_flight :: "(rate_limit_key, nat) hmap"

definition ifl_new :: "nat \<Rightarrow> in_flight_limiter" where
  "ifl_new max_concurrent_per_key = \<lparr> ifl_max = max max_concurrent_per_key 1, ifl_in_flight = [] \<rparr>"

definition ifl_active :: "rate_limit_key \<Rightarrow> in_flight_limiter \<Rightarrow> nat" where
  "ifl_active key l = (case hm_get (ifl_in_flight l) key of None \<Rightarrow> 0 | Some c \<Rightarrow> c)"

definition ifl_try_acquire :: "rate_limit_key \<Rightarrow> in_flight_limiter \<Rightarrow> in_flight_limiter \<times> bool" where
  "ifl_try_acquire key l =
     (let (m, ok) = slot_acquire (ifl_max l) key (ifl_in_flight l) in (l \<lparr> ifl_in_flight := m \<rparr>, ok))"

definition drop_in_flight_guard :: "rate_limit_key \<Rightarrow> in_flight_limiter \<Rightarrow> in_flight_limiter" where
  "drop_in_flight_guard key l = l \<lparr> ifl_in_flight := slot_release key (ifl_in_flight l) \<rparr>"

section \<open>The admin throttle\<close>

abbreviation ADMIN_AUTH_MAX_FAILURES :: nat where "ADMIN_AUTH_MAX_FAILURES \<equiv> 20"
abbreviation ADMIN_AUTH_WINDOW :: nat where "ADMIN_AUTH_WINDOW \<equiv> 60000"
abbreviation ADMIN_AUTH_MAX_WS_PER_KEY :: nat where "ADMIN_AUTH_MAX_WS_PER_KEY \<equiv> 32"

record admin_auth_limiter =
  al_failures :: "(ip_addr, nat \<times> nat) hmap"
  al_ws_streams :: "(api_key_id, nat) hmap"

definition al_new :: admin_auth_limiter where
  "al_new = \<lparr> al_failures = [], al_ws_streams = [] \<rparr>"

definition is_blocked :: "ip_addr \<Rightarrow> admin_auth_limiter \<Rightarrow> bool" where
  "is_blocked ip l =
     (case hm_get (al_failures l) ip of None \<Rightarrow> False | Some (c, s) \<Rightarrow> ADMIN_AUTH_MAX_FAILURES \<le> c)"

definition evict_expired_failures :: "nat \<Rightarrow> admin_auth_limiter \<Rightarrow> admin_auth_limiter" where
  "evict_expired_failures now l =
     l \<lparr> al_failures := hm_retain (\<lambda>ip (c, s). now - s < ADMIN_AUTH_WINDOW) (al_failures l) \<rparr>"

definition evict_oldest_failures :: "ip_addr unstable_sorter \<Rightarrow> nat \<Rightarrow> admin_auth_limiter \<Rightarrow> admin_auth_limiter" where
  "evict_oldest_failures srt n l =
     (let lowest = srt (map (\<lambda>(ip, c, s). (c, ip)) (al_failures l))
      in l \<lparr> al_failures := hm_remove_all (map snd (take n lowest)) (al_failures l) \<rparr>)"

definition al_record_failure ::
    "ip_addr unstable_sorter \<Rightarrow> nat \<Rightarrow> nat \<Rightarrow> ip_addr \<Rightarrow> admin_auth_limiter \<Rightarrow> admin_auth_limiter" where
  "al_record_failure srt now_evict now ip l0 =
     (let l = (if 100000 \<le> length (al_failures l0) then
                 (let l1 = evict_expired_failures now_evict l0 in
                  if 100000 \<le> length (al_failures l1) then evict_oldest_failures srt 10000 l1 else l1)
               else l0)
      in l \<lparr> al_failures :=
           (case hm_get (al_failures l) ip of
              Some (c, s) \<Rightarrow>
                (if ADMIN_AUTH_WINDOW \<le> now - s then hm_put ip (1, now) (al_failures l)
                 else hm_put ip (c + 1, s) (al_failures l))
            | None \<Rightarrow> hm_put ip (1, now) (al_failures l)) \<rparr>)"

definition al_record_success :: "ip_addr \<Rightarrow> admin_auth_limiter \<Rightarrow> admin_auth_limiter" where
  "al_record_success ip l = l \<lparr> al_failures := hm_remove ip (al_failures l) \<rparr>"

definition try_acquire_ws :: "api_key_id \<Rightarrow> admin_auth_limiter \<Rightarrow> admin_auth_limiter \<times> bool" where
  "try_acquire_ws key l =
     (let (m, ok) = slot_acquire ADMIN_AUTH_MAX_WS_PER_KEY key (al_ws_streams l)
      in (l \<lparr> al_ws_streams := m \<rparr>, ok))"

definition drop_ws_guard :: "api_key_id \<Rightarrow> admin_auth_limiter \<Rightarrow> admin_auth_limiter" where
  "drop_ws_guard key l = l \<lparr> al_ws_streams := slot_release key (al_ws_streams l) \<rparr>"

section \<open>Removing entries\<close>

lemma hm_get_remove_all [hm_simps]:
  "hm_get (hm_remove_all ks m) k = (if k \<in> set ks then None else hm_get m k)"
  unfolding hm_remove_all_def by (induction ks arbitrary: m) (auto simp: hm_simps)

lemma hm_ok_remove_all [simp]: "hm_ok m \<Longrightarrow> hm_ok (hm_remove_all ks m)"
  unfolding hm_remove_all_def by (induction ks arbitrary: m) simp_all

lemma length_hm_put: "length (hm_put k v m) = (if k \<in> fst ` set m then length m else length m + 1)"
  unfolding hm_put_def by (induction m) auto

lemma hm_put_keys: "fst ` set (hm_put k v m) = insert k (fst ` set m)"
  unfolding hm_put_def by (induction m) auto

lemma hm_get_None_iff: "hm_get m k = None \<longleftrightarrow> k \<notin> fst ` set m"
  by (simp add: hm_get_def map_of_eq_None_iff)

lemma hm_remove_all_filter: "hm_remove_all ks m = filter (\<lambda>e. fst e \<notin> set ks) m"
  unfolding hm_remove_all_def
  by (induction ks arbitrary: m) (auto simp: hm_remove_def AList.delete_eq filter_filter case_prod_beta
      intro!: filter_cong)

lemma length_hm_remove_all:
  assumes "hm_ok m" "set ks \<subseteq> fst ` set m"
  shows "length (hm_remove_all ks m) + card (set ks) = length m"
proof -
  have d: "distinct m" and inj: "inj_on fst (set m)"
    using assms(1) by (auto simp: hm_ok_def distinct_map)
  let ?gone = "filter (\<lambda>e. fst e \<in> set ks) m"
  have "fst ` set ?gone = set ks" using assms(2) by auto
  moreover have "inj_on fst (set ?gone)" by (rule inj_on_subset [OF inj]) auto
  ultimately have "card (set ks) = card (set ?gone)" by (metis card_image)
  also have "\<dots> = length ?gone" by (rule distinct_card) (use d in simp)
  finally show ?thesis
    using sum_length_filter_compl [of "\<lambda>e. fst e \<in> set ks" m] by (simp add: hm_remove_all_filter)
qed

text \<open>Entries chosen by an unstable sort are entries of the map, each once.\<close>

lemma sorted_take_keys:
  assumes "unstable_sort srt" "hm_ok m"
    and "es = map (\<lambda>(k, v). (f k v, k)) (filter P m)"
  shows "set (map snd (take n (srt es))) \<subseteq> fst ` set (filter P m)"
    and "card (set (map snd (take n (srt es)))) = min n (length (filter P m))"
proof -
  have mset: "mset (srt es) = mset es" using assms(1) by (simp add: unstable_sort_def)
  have keys: "map snd es = map fst (filter P m)" unfolding assms(3) by (induction m) auto
  have "mset (map snd (srt es)) = mset (map fst (filter P m))"
    using mset keys by (metis mset_map)
  then have sets: "set (map snd (srt es)) = fst ` set (filter P m)"
    and d: "distinct (map snd (srt es)) = distinct (map fst (filter P m))"
    and len: "length (srt es) = length (filter P m)"
    by (metis list.set_map mset_eq_setD, metis mset_eq_imp_distinct_iff, metis length_map mset_eq_length)
  have d: "distinct (map snd (srt es))"
    using d assms(2) by (simp add: hm_ok_def distinct_map_filter)
  show "set (map snd (take n (srt es))) \<subseteq> fst ` set (filter P m)"
    using sets set_take_subset [of n "map snd (srt es)"] by (simp add: take_map)
  have "distinct (map snd (take n (srt es)))"
    using d distinct_take [of "map snd (srt es)" n] by (simp add: take_map)
  then show "card (set (map snd (take n (srt es)))) = min n (length (filter P m))"
    using len by (simp add: distinct_card del: set_map)
qed

section \<open>The memory bound\<close>

definition rl_ok :: "rate_limiter \<Rightarrow> bool" where
  "rl_ok rl \<longleftrightarrow> hm_ok (rl_windows rl) \<and> length (rl_windows rl) \<le> max 1 (rc_max_capacity (rl_config rl))"

lemma rl_config_frames [simp]:
  "rl_config (rl_cleanup t rl) = rl_config rl"
  "rl_config (evict_lowest_count_windows srt n rl) = rl_config rl"
  "rl_config (evict_oldest_throttled_windows srt t n rl) = rl_config rl"
  by (simp_all add: rl_cleanup_def evict_lowest_count_windows_def evict_oldest_throttled_windows_def Let_def)

lemma rl_cleanup_ok:
  assumes "hm_ok (rl_windows rl)"
  shows "hm_ok (rl_windows (rl_cleanup t rl))"
    and "length (rl_windows (rl_cleanup t rl)) \<le> length (rl_windows rl)"
  using assms by (simp_all add: rl_cleanup_def hm_retain_length)

lemma evict_lowest_windows:
  assumes "unstable_sort srt" "hm_ok (rl_windows rl)"
  defines "low \<equiv> filter (\<lambda>(k, c, s). c < rc_max_requests (rl_config rl)) (rl_windows rl)"
  shows "hm_ok (rl_windows (evict_lowest_count_windows srt n rl))"
    and "length (rl_windows (evict_lowest_count_windows srt n rl)) + min n (length low) = length (rl_windows rl)"
    and "k \<notin> fst ` set low \<Longrightarrow>
         hm_get (rl_windows (evict_lowest_count_windows srt n rl)) k = hm_get (rl_windows rl) k"
proof -
  let ?es = "map (\<lambda>(k, c, s). (c, k)) low"
  have "?es = map (\<lambda>(k, v). (fst v, k)) low" by (simp add: case_prod_beta)
  note keys = sorted_take_keys [OF assms(1,2) this [unfolded low_def], folded low_def, of n]
  have w: "rl_windows (evict_lowest_count_windows srt n rl) =
      hm_remove_all (map snd (take n (srt ?es))) (rl_windows rl)"
    by (simp add: evict_lowest_count_windows_def low_def Let_def)
  show "hm_ok (rl_windows (evict_lowest_count_windows srt n rl))" unfolding w using assms(2) by simp
  have "fst ` set low \<subseteq> fst ` set (rl_windows rl)" unfolding low_def by auto
  then have "set (map snd (take n (srt ?es))) \<subseteq> fst ` set (rl_windows rl)"
    by (rule order_trans [OF keys(1)])
  from length_hm_remove_all [OF assms(2) this]
  show "length (rl_windows (evict_lowest_count_windows srt n rl)) + min n (length low) = length (rl_windows rl)"
    unfolding w keys(2) .
  show "hm_get (rl_windows (evict_lowest_count_windows srt n rl)) k = hm_get (rl_windows rl) k"
    if "k \<notin> fst ` set low"
    unfolding w using keys(1) that by (auto simp: hm_simps)
qed

lemma evict_oldest_windows:
  assumes "unstable_sort srt" "hm_ok (rl_windows rl)"
  shows "hm_ok (rl_windows (evict_oldest_throttled_windows srt t n rl))"
    and "length (rl_windows (evict_oldest_throttled_windows srt t n rl)) + min n (length (rl_windows rl)) =
         length (rl_windows rl)"
proof -
  let ?es = "map (\<lambda>(k, c, s). (t - s, k)) (rl_windows rl)"
  have "?es = map (\<lambda>(k, v). (t - snd v, k)) (filter (\<lambda>_. True) (rl_windows rl))"
    by (simp add: case_prod_beta)
  note keys = sorted_take_keys [OF assms(1,2) this, of n]
  have w: "rl_windows (evict_oldest_throttled_windows srt t n rl) =
      hm_remove_all (map snd (take n (srt ?es))) (rl_windows rl)"
    by (simp add: evict_oldest_throttled_windows_def Let_def)
  show "hm_ok (rl_windows (evict_oldest_throttled_windows srt t n rl))" unfolding w using assms(2) by simp
  show "length (rl_windows (evict_oldest_throttled_windows srt t n rl)) + min n (length (rl_windows rl)) =
         length (rl_windows rl)"
    unfolding w using length_hm_remove_all [OF assms(2), of "map snd (take n (srt ?es))"] keys(1)
    unfolding keys(2) by simp
qed

lemma make_room_ok:
  assumes "unstable_sort srt" "rl_ok rl"
  shows "hm_ok (rl_windows (make_room srt tc te rl))"
    and "length (rl_windows (make_room srt tc te rl)) < max 1 (rc_max_capacity (rl_config rl))"
    and "rl_config (make_room srt tc te rl) = rl_config rl"
proof -
  let ?rl1 = "rl_cleanup tc rl" and ?rl2 = "evict_lowest_count_windows srt 10000 (rl_cleanup tc rl)"
  have ok: "hm_ok (rl_windows rl)" and len: "length (rl_windows rl) \<le> max 1 (rc_max_capacity (rl_config rl))"
    using assms(2) by (auto simp: rl_ok_def)
  note c1 = rl_cleanup_ok [OF ok, of tc]
  note c2 = evict_lowest_windows [OF assms(1) c1(1), where n = 10000]
  note c3 = evict_oldest_windows [OF assms(1) c2(1), where n = 1000 and t = te]
  show "hm_ok (rl_windows (make_room srt tc te rl))"
    using ok c1 c2(1) c3(1) by (simp add: make_room_def Let_def)
  have "length (rl_windows ?rl2) \<le> max 1 (rc_max_capacity (rl_config rl))"
    using len c1(2) c2(2) by linarith
  then show "length (rl_windows (make_room srt tc te rl)) < max 1 (rc_max_capacity (rl_config rl))"
    using c3(2) by (auto simp: make_room_def Let_def min_def max_def split: if_splits)
  show "rl_config (make_room srt tc te rl) = rl_config rl"
    by (simp add: make_room_def Let_def)
qed

lemma rl_check_ok:
  assumes "unstable_sort srt" "rl_ok rl"
  shows "rl_ok (fst (rl_check srt t tc te k rl)) \<and>
         rl_config (fst (rl_check srt t tc te k rl)) = rl_config rl"
proof (cases "hm_get (rl_windows rl) k")
  case None
  then show ?thesis
    using make_room_ok [OF assms, of tc te]
    by (auto simp: rl_check_def Let_def rl_ok_def length_hm_put)
next
  case (Some e)
  then have "k \<in> fst ` set (rl_windows rl)" by (metis hm_get_None_iff option.distinct(1))
  with Some assms(2) show ?thesis
    by (auto simp: rl_check_def rl_ok_def length_hm_put split: prod.splits)
qed

lemma rl_run_ok: "unstable_sort srt \<Longrightarrow> rl_ok rl \<Longrightarrow>
    rl_ok (rl_run srt ops rl) \<and> rl_config (rl_run srt ops rl) = rl_config rl"
proof (induction srt ops rl rule: rl_run.induct)
  case (1 srt rl)
  then show ?case by simp
next
  case (2 srt t tc te k ops rl)
  then show ?case using rl_check_ok [OF "2.prems", of t tc te k] by simp
next
  case (3 srt t ops rl)
  then have "rl_ok (rl_cleanup t rl)"
    using rl_cleanup_ok [of rl t] by (auto simp: rl_ok_def)
  with 3 show ?case by simp
qed

text \<open>
  The limiter never holds more than \<open>max_capacity\<close> windows (one, when the capacity is zero), after
  any sequence of requests and sweeps, however the unstable sort orders equal counts.
\<close>

theorem rate_limiter_bounded:
  assumes "unstable_sort srt"
  shows "length (rl_windows (rl_run srt ops (rl_new cfg))) \<le> max 1 (rc_max_capacity cfg)"
proof -
  have "rl_ok (rl_new cfg)" and cfg: "rl_config (rl_new cfg) = cfg" by (simp_all add: rl_ok_def rl_new_def)
  from rl_run_ok [OF assms this(1), of ops] show ?thesis unfolding rl_ok_def cfg by metis
qed

lemma sort_key_unstable: "unstable_sort (sort_key fst)"
  by (simp add: unstable_sort_def)

definition tiny_config :: rate_limit_config where
  "tiny_config = \<lparr> rc_max_requests = 2, rc_window = 10, rc_max_capacity = 2 \<rparr>"

theorem rate_limiter_bounded_witness:
  "length (rl_windows (rl_run (sort_key fst)
     [Check 0 0 0 (RlKey 1), Check 1 1 1 (RlKey 2), Check 2 2 2 (RlKey 3), Sweep 3, Check 4 4 4 (RlKey 4)]
     (rl_new tiny_config))) \<le> 2"
  by (rule order_trans [OF rate_limiter_bounded [OF sort_key_unstable]]) (simp add: tiny_config_def)

section \<open>A flood of fresh keys\<close>

lemma filter_full: "length (filter P xs) = length xs \<Longrightarrow> filter P xs = xs"
  by (metis filter_id_conv length_filter_less less_irrefl)

lemma make_room_keeps:
  assumes "unstable_sort srt" "rl_ok rl" and cap: "0 < rc_max_capacity (rl_config rl)"
    and k: "hm_get (rl_windows rl) k = Some (c, s)" "rc_max_requests (rl_config rl) \<le> c"
    and live: "tc - s < rc_window (rl_config rl)"
    and low: "length (rl_windows rl) < rc_max_capacity (rl_config rl) \<or>
       (\<exists>k' c' s'. hm_get (rl_windows rl) k' = Some (c', s') \<and> c' < rc_max_requests (rl_config rl))"
  shows "hm_get (rl_windows (make_room srt tc te rl)) k = Some (c, s)"
proof -
  let ?mx = "rc_max_requests (rl_config rl)" and ?cap = "rc_max_capacity (rl_config rl)"
  let ?rl1 = "rl_cleanup tc rl" and ?rl2 = "evict_lowest_count_windows srt 10000 (rl_cleanup tc rl)"
  have ok: "hm_ok (rl_windows rl)" and len: "length (rl_windows rl) \<le> ?cap"
    using assms(2) cap by (auto simp: rl_ok_def)
  note c1 = rl_cleanup_ok [OF ok, of tc]
  have k1: "hm_get (rl_windows ?rl1) k = Some (c, s)"
    using k(1) live ok by (simp add: rl_cleanup_def hm_simps)
  let ?low = "filter (\<lambda>(k, c, s). c < ?mx) (rl_windows ?rl1)"
  note c2 = evict_lowest_windows [OF assms(1) c1(1), where n = 10000, unfolded rl_config_frames]
  have "k \<notin> fst ` set ?low"
    using k(2) k1 c1(1) by (auto simp: hm_ok_def hm_get_def dest!: map_of_is_SomeI [OF c1(1) [unfolded hm_ok_def]])
  from c2(3) [OF this] have k2: "hm_get (rl_windows ?rl2) k = Some (c, s)" using k1 by simp
  have "length (rl_windows ?rl2) < ?cap" if full: "?cap \<le> length (rl_windows ?rl1)"
  proof -
    have "length (rl_windows ?rl1) = length (rl_windows rl)" using full len c1(2) by linarith
    then have same: "rl_windows ?rl1 = rl_windows rl"
      unfolding rl_cleanup_def hm_retain_def by (simp add: filter_full)
    from low full same obtain k' c' s' where "hm_get (rl_windows ?rl1) k' = Some (c', s')" "c' < ?mx"
      by auto
    then have "(k', c', s') \<in> set ?low" by (auto simp: hm_get_def dest: map_of_SomeD)
    then have "0 < length ?low" by (metis length_pos_if_in_set)
    then show ?thesis using c2(2) len c1(2) cap by linarith
  qed
  then show ?thesis
    using k k1 k2 by (auto simp: make_room_def Let_def)
qed

lemma make_room_get:
  assumes "hm_ok (rl_windows rl)"
  shows "hm_get (rl_windows rl) k = None \<Longrightarrow> hm_get (rl_windows (make_room srt tc te rl)) k = None"
  using assms
  by (auto simp: make_room_def Let_def rl_cleanup_def evict_lowest_count_windows_def
      evict_oldest_throttled_windows_def hm_simps)

lemma rl_check_fresh:
  assumes "hm_get (rl_windows rl) k' = None"
  shows "hm_get (rl_windows (fst (rl_check srt t tc te k' rl))) k =
     (if k = k' then Some (1, t) else hm_get (rl_windows (make_room srt tc te rl)) k)"
  using assms by (simp add: rl_check_def Let_def hm_simps)

text \<open>The state in which a flood leaves the throttle of \<open>k\<close> alone.\<close>

definition flood_safe :: "rate_limit_key \<Rightarrow> nat \<Rightarrow> nat \<Rightarrow> rate_limiter \<Rightarrow> bool" where
  "flood_safe k c s rl \<longleftrightarrow>
     rl_ok rl \<and> hm_get (rl_windows rl) k = Some (c, s) \<and> rc_max_requests (rl_config rl) \<le> c \<and>
     (length (rl_windows rl) < rc_max_capacity (rl_config rl) \<or>
      (\<exists>k' c' s'. hm_get (rl_windows rl) k' = Some (c', s') \<and> c' < rc_max_requests (rl_config rl)))"

lemma flood_step:
  assumes "unstable_sort srt" "flood_safe k c s rl" "2 \<le> rc_max_requests (rl_config rl)"
    "0 < rc_max_capacity (rl_config rl)" "tc - s < rc_window (rl_config rl)"
    and fresh: "hm_get (rl_windows rl) k' = None"
  shows "flood_safe k c s (fst (rl_check srt t tc te k' rl))"
proof -
  from assms(2) have ok: "rl_ok rl" by (simp add: flood_safe_def)
  have "k \<noteq> k'" using assms(2) fresh by (auto simp: flood_safe_def)
  moreover have "hm_get (rl_windows (make_room srt tc te rl)) k = Some (c, s)"
    using assms(2) by (intro make_room_keeps [OF assms(1) ok assms(4) _ _ assms(5)]) (auto simp: flood_safe_def)
  moreover note rl_check_ok [OF assms(1) ok, of t tc te k']
  ultimately show ?thesis
    using assms(2,3) unfolding flood_safe_def
    by (auto simp: rl_check_fresh [OF fresh] intro!: exI [of _ k'])
qed

fun rl_flood ::
    "rate_limit_key unstable_sorter \<Rightarrow> (nat \<times> nat \<times> nat \<times> rate_limit_key) list \<Rightarrow> rate_limiter \<Rightarrow> rate_limiter" where
  "rl_flood srt [] rl = rl"
| "rl_flood srt ((t, tc, te, k) # rs) rl = rl_flood srt rs (fst (rl_check srt t tc te k rl))"

lemma flood_invariant:
  assumes "unstable_sort srt"
  shows "flood_safe k c s rl \<Longrightarrow> 2 \<le> rc_max_requests (rl_config rl) \<Longrightarrow> 0 < rc_max_capacity (rl_config rl) \<Longrightarrow>
     \<forall>(t, tc, te, k') \<in> set rs. tc - s < rc_window (rl_config rl) \<and> hm_get (rl_windows rl) k' = None \<Longrightarrow>
     distinct (map (\<lambda>(t, tc, te, k'). k') rs) \<Longrightarrow>
     flood_safe k c s (rl_flood srt rs rl) \<and> rl_config (rl_flood srt rs rl) = rl_config rl"
proof (induction rs arbitrary: rl)
  case Nil
  then show ?case by simp
next
  case (Cons r rs)
  obtain t tc te k' where r: "r = (t, tc, te, k')" by (cases r)
  let ?rl = "fst (rl_check srt t tc te k' rl)"
  from Cons.prems(4) r have fresh: "hm_get (rl_windows rl) k' = None" and tc: "tc - s < rc_window (rl_config rl)"
    by auto
  have ok: "rl_ok rl" and hm: "hm_ok (rl_windows rl)" using Cons.prems(1) by (auto simp: flood_safe_def rl_ok_def)
  have cfg: "rl_config ?rl = rl_config rl" using rl_check_ok [OF assms ok] by simp
  have "flood_safe k c s ?rl"
    by (rule flood_step [OF assms Cons.prems(1-3) tc fresh])
  moreover have "\<forall>(t, tc, te, k'') \<in> set rs. tc - s < rc_window (rl_config ?rl) \<and> hm_get (rl_windows ?rl) k'' = None"
    using Cons.prems(4,5) r make_room_get [OF hm]
    by (force simp: cfg rl_check_fresh [OF fresh])
  ultimately show ?case
    using Cons.IH [of ?rl] Cons.prems r by (simp add: cfg)
qed

text \<open>
  A flood of fresh keys does not unblock a throttled key. With a limit of at least two requests,
  while the map has room or holds some window under the limit, any number of requests by pairwise
  distinct new keys inside the throttled window leaves that key refused until the window ends.
\<close>

theorem flood_keeps_throttle:
  assumes "unstable_sort srt" and "flood_safe k c s rl"
    and "2 \<le> rc_max_requests (rl_config rl)" and "0 < rc_max_capacity (rl_config rl)"
    and "\<forall>(t, tc, te, k') \<in> set rs. tc - s < rc_window (rl_config rl) \<and> hm_get (rl_windows rl) k' = None"
    and "distinct (map (\<lambda>(t, tc, te, k'). k') rs)"
    and "t - s < rc_window (rl_config rl)"
  shows "\<not> snd (rl_check srt t tc te k (rl_flood srt rs rl))"
  using flood_invariant [OF assms(1-6)] assms(7)
  by (auto simp: flood_safe_def rl_check_def hit_window_def)

definition throttled_limiter :: rate_limiter where
  "throttled_limiter = \<lparr> rl_config = tiny_config, rl_windows = [(RlKey 7, 2, 100)] \<rparr>"

theorem flood_keeps_throttle_witness:
  "\<not> snd (rl_check (sort_key fst) 105 105 105 (RlKey 7)
       (rl_flood (sort_key fst) [(101, 101, 101, RlKey 1), (102, 102, 102, RlKey 2), (103, 103, 103, RlKey 3)]
          throttled_limiter))"
  by (rule flood_keeps_throttle [OF sort_key_unstable, of "RlKey 7" 2 100])
    (simp_all add: flood_safe_def rl_ok_def throttled_limiter_def tiny_config_def hm_ok_def hm_get_def)

text \<open>
  The last resort does not do what its comment says: it sorts the ages in ascending order and drops
  the first of them, so the newest windows go first.
\<close>

lemma last_resort_drops_newest:
  "map fst (rl_windows (evict_oldest_throttled_windows (sort_key fst) 109 1
     (throttled_limiter \<lparr> rl_windows := [(RlKey 7, 2, 100), (RlKey 8, 2, 108)] \<rparr>))) = [RlKey 7]"
  by (simp add: evict_oldest_throttled_windows_def throttled_limiter_def hm_remove_all_def hm_remove_def)

section \<open>Requests per window\<close>

text \<open>Requests of \<open>k\<close> admitted in the span \<open>[a, a + window)\<close>.\<close>

fun rl_admitted ::
    "rate_limit_key unstable_sorter \<Rightarrow> nat \<Rightarrow> rate_limit_key \<Rightarrow>
     (nat \<times> nat \<times> nat \<times> rate_limit_key) list \<Rightarrow> rate_limiter \<Rightarrow> nat" where
  "rl_admitted srt a k [] rl = 0"
| "rl_admitted srt a k ((t, tc, te, k') # rs) rl =
     (let (rl', ok) = rl_check srt t tc te k' rl
      in (if k' = k \<and> ok \<and> a \<le> t \<and> t < a + rc_window (rl_config rl) then 1 else 0) +
         rl_admitted srt a k rs rl')"

text \<open>The window of one key, alone.\<close>

definition win_step :: "rate_limit_config \<Rightarrow> nat \<Rightarrow> (nat \<times> nat) option \<Rightarrow> (nat \<times> nat) \<times> bool" where
  "win_step cfg t st = (case st of None \<Rightarrow> ((1, t), True) | Some e \<Rightarrow> hit_window cfg t e)"

fun win_admitted :: "rate_limit_config \<Rightarrow> nat \<Rightarrow> nat list \<Rightarrow> (nat \<times> nat) option \<Rightarrow> nat" where
  "win_admitted cfg a [] st = 0"
| "win_admitted cfg a (t # ts) st =
     (let (e, ok) = win_step cfg t st
      in (if ok \<and> a \<le> t \<and> t < a + rc_window cfg then 1 else 0) + win_admitted cfg a ts (Some e))"

lemma win_admitted_late: "\<forall>t \<in> set ts. a + rc_window cfg \<le> t \<Longrightarrow> win_admitted cfg a ts st = 0"
  by (induction ts arbitrary: st) (auto split: prod.splits)

lemma win_admitted_empty_window: "rc_window cfg = 0 \<Longrightarrow> win_admitted cfg a ts st = 0"
  by (induction ts arbitrary: st) (auto split: prod.splits)

lemma win_admitted_covered:
  "sorted ts \<Longrightarrow> a \<le> s \<Longrightarrow> win_admitted cfg a ts (Some (c, s)) \<le> rc_max_requests cfg - c"
proof (induction ts arbitrary: c)
  case Nil
  then show ?case by simp
next
  case (Cons t ts)
  show ?case
  proof (cases "rc_window cfg \<le> t - s")
    case late: True
    show ?thesis
    proof (cases "rc_window cfg = 0")
      case True
      then show ?thesis by (simp add: win_admitted_empty_window del: win_admitted.simps)
    next
      case False
      then have "\<forall>t' \<in> set (t # ts). a + rc_window cfg \<le> t'" using Cons.prems late by auto
      from win_admitted_late [OF this] show ?thesis by simp
    qed
  next
    case False
    then have "t - s < rc_window cfg" by auto
    then show ?thesis
      using Cons.IH [of "c + 1"] Cons.IH [of c] Cons.prems
      by (auto simp: win_step_def hit_window_def)
  qed
qed

definition win_left :: "rate_limit_config \<Rightarrow> (nat \<times> nat) option \<Rightarrow> nat" where
  "win_left cfg st = (case st of None \<Rightarrow> 0 | Some (c, s) \<Rightarrow> rc_max_requests cfg - c)"

lemma win_admitted_inside:
  "sorted ts \<Longrightarrow> \<forall>t \<in> set ts. a \<le> t \<Longrightarrow>
   win_admitted cfg a ts st \<le> win_left cfg st + max 1 (rc_max_requests cfg)"
proof (induction ts arbitrary: st)
  case Nil
  then show ?case by simp
next
  case (Cons t ts)
  have new: "win_admitted cfg a ts (Some (1, t)) \<le> rc_max_requests cfg - 1"
    using Cons.prems by (intro win_admitted_covered) auto
  show ?case
  proof (cases st)
    case None
    then show ?thesis using new by (auto simp: win_step_def max_def)
  next
    case (Some e)
    obtain c s where e: "e = (c, s)" by (cases e)
    consider "rc_window cfg \<le> t - s" | "t - s < rc_window cfg" "c < rc_max_requests cfg"
      | "t - s < rc_window cfg" "rc_max_requests cfg \<le> c" by linarith
    then show ?thesis
    proof cases
      case 1
      then show ?thesis using new Some e by (auto simp: win_step_def hit_window_def max_def)
    next
      case 2
      then show ?thesis using Cons.IH [of "Some (c + 1, s)"] Cons.prems Some e
        by (auto simp: win_step_def hit_window_def win_left_def)
    next
      case 3
      then show ?thesis using Cons.IH [of "Some (c, s)"] Cons.prems Some e
        by (auto simp: win_step_def hit_window_def win_left_def)
    qed
  qed
qed

lemma win_admitted_any:
  "sorted ts \<Longrightarrow> win_admitted cfg a ts st \<le> 2 * max 1 (rc_max_requests cfg)"
proof (induction ts arbitrary: st)
  case Nil
  then show ?case by simp
next
  case (Cons t ts)
  show ?case
  proof (cases "a \<le> t")
    case True
    then have "\<forall>t' \<in> set (t # ts). a \<le> t'" using Cons.prems by auto
    moreover have "win_left cfg st \<le> max 1 (rc_max_requests cfg)"
      by (auto simp: win_left_def split: option.splits)
    ultimately show ?thesis using win_admitted_inside [OF Cons.prems, of a cfg st] by linarith
  next
    case False
    then show ?thesis using Cons by (auto split: prod.splits)
  qed
qed

lemma make_room_id: "length (rl_windows rl) < rc_max_capacity (rl_config rl) \<Longrightarrow> make_room srt tc te rl = rl"
  by (simp add: make_room_def Let_def)

lemma rl_admitted_per_key:
  assumes "unstable_sort srt" "finite K"
  shows "rl_ok rl \<Longrightarrow> fst ` set (rl_windows rl) \<subseteq> K \<Longrightarrow> card K \<le> rc_max_capacity (rl_config rl) \<Longrightarrow>
     \<forall>(t, tc, te, k') \<in> set rs. k' \<in> K \<Longrightarrow>
     rl_admitted srt a k rs rl =
     win_admitted (rl_config rl) a (map fst (filter (\<lambda>(t, tc, te, k'). k' = k) rs)) (hm_get (rl_windows rl) k)"
proof (induction rs arbitrary: rl)
  case Nil
  then show ?case by simp
next
  case (Cons r rs)
  obtain t tc te k' where r: "r = (t, tc, te, k')" by (cases r)
  let ?rl = "fst (rl_check srt t tc te k' rl)"
  have ok: "hm_ok (rl_windows rl)" using Cons.prems(1) by (simp add: rl_ok_def)
  have room: "make_room srt tc te rl = rl" if "hm_get (rl_windows rl) k' = None"
  proof (rule make_room_id)
    have "length (rl_windows rl) = card (fst ` set (rl_windows rl))"
      using ok by (metis distinct_card hm_ok_def length_map list.set_map)
    also have "\<dots> < card K"
      using that Cons.prems(2,4) r by (intro psubset_card_mono [OF assms(2)]) (auto simp: hm_get_None_iff)
    finally show "length (rl_windows rl) < rc_max_capacity (rl_config rl)" using Cons.prems(3) by simp
  qed
  have step: "rl_check srt t tc te k' rl =
      (rl \<lparr> rl_windows := hm_put k' (fst (win_step (rl_config rl) t (hm_get (rl_windows rl) k'))) (rl_windows rl) \<rparr>,
       snd (win_step (rl_config rl) t (hm_get (rl_windows rl) k')))"
    using room by (auto simp: rl_check_def win_step_def Let_def split: option.splits prod.splits)
  have "rl_ok ?rl" using rl_check_ok [OF assms(1) Cons.prems(1)] by simp
  moreover have "fst ` set (rl_windows ?rl) \<subseteq> K"
  proof -
    have "fst ` set (rl_windows ?rl) = insert k' (fst ` set (rl_windows rl))"
      unfolding step by (simp add: hm_put_keys)
    then show ?thesis using Cons.prems(2,4) r by auto
  qed
  ultimately have IH: "rl_admitted srt a k rs ?rl = win_admitted (rl_config rl) a
      (map fst (filter (\<lambda>(t, tc, te, k'). k' = k) rs)) (hm_get (rl_windows ?rl) k)"
    using Cons.IH [of ?rl] Cons.prems(3,4) by (simp add: step)
  show ?case
    using IH unfolding r by (auto simp: step hm_simps split: prod.splits)
qed


definition burst :: "(nat \<times> nat \<times> nat \<times> rate_limit_key) list" where
  "burst = map (\<lambda>t. (t, t, t, RlKey 1)) [0, 9, 10, 11, 12]"


text \<open>A span of one window with more than the limit: three requests pass where two are allowed.\<close>

lemma burst_exceeds_limit:
  "rl_admitted (sort_key fst) 9 (RlKey 1) burst (rl_new tiny_config) = 3"
  by (simp add: burst_def tiny_config_def rl_new_def rl_check_def make_room_def hit_window_def
      hm_get_def hm_put_def)

section \<open>Guards and slots\<close>

text \<open>
  Requests and dropped guards in any order. The live guards are a multiset of keys; a guard that does
  not exist cannot be dropped. Both operations run under the lock of the key's entry, so every
  concurrent execution is such a sequence.
\<close>

datatype 'k slot_op = Take 'k | Give 'k

fun slot_run ::
    "('k \<Rightarrow> 's \<Rightarrow> 's \<times> bool) \<Rightarrow> ('k \<Rightarrow> 's \<Rightarrow> 's) \<Rightarrow> 'k slot_op list \<Rightarrow> 's \<times> 'k multiset \<Rightarrow> 's \<times> 'k multiset" where
  "slot_run acquire release [] st = st"
| "slot_run acquire release (Take k # ops) (s, guards) =
     (case acquire k s of
        (s', True) \<Rightarrow> slot_run acquire release ops (s', add_mset k guards)
      | (s', False) \<Rightarrow> slot_run acquire release ops (s', guards))"
| "slot_run acquire release (Give k # ops) (s, guards) =
     (if k \<in># guards then slot_run acquire release ops (release k s, guards - {#k#})
      else slot_run acquire release ops (s, guards))"

locale slot_pool =
  fixes bound :: nat
    and acquire :: "'k \<Rightarrow> 's \<Rightarrow> 's \<times> bool"
    and release :: "'k \<Rightarrow> 's \<Rightarrow> 's"
    and held :: "'s \<Rightarrow> 'k \<Rightarrow> nat"
    and invar :: "'s \<Rightarrow> bool"
  assumes acquire_invar: "invar s \<Longrightarrow> invar (fst (acquire k s))"
    and release_invar: "invar s \<Longrightarrow> invar (release k s)"
    and acquire_grants: "invar s \<Longrightarrow> snd (acquire k s) \<longleftrightarrow> held s k < bound"
    and acquire_held: "invar s \<Longrightarrow>
          held (fst (acquire k s)) k' = held s k' + (if k' = k \<and> held s k < bound then 1 else 0)"
    and release_held: "invar s \<Longrightarrow> 0 < held s k \<Longrightarrow>
          held (release k s) k' = (if k' = k then held s k' - 1 else held s k')"
begin

definition exact :: "'s \<times> 'k multiset \<Rightarrow> bool" where
  "exact st \<longleftrightarrow> invar (fst st) \<and> (\<forall>k. held (fst st) k = count (snd st) k \<and> count (snd st) k \<le> bound)"

lemma exact_acquire:
  assumes "exact (s, guards)"
  shows "exact (fst (acquire k s), if snd (acquire k s) then add_mset k guards else guards)"
  using assms acquire_invar [of s k] acquire_grants [of s k] acquire_held [of s k]
  by (auto simp: exact_def Suc_le_eq)

lemma exact_release:
  assumes "exact (s, guards)" "k \<in># guards"
  shows "exact (release k s, guards - {#k#})"
proof -
  have inv: "invar s" and cnt: "\<And>k. held s k = count guards k" and le: "\<And>k. count guards k \<le> bound"
    using assms(1) by (auto simp: exact_def)
  have "0 < held s k" using assms(2) cnt by (simp add: count_greater_zero_iff)
  from release_held [OF inv this] show ?thesis
    using release_invar [OF inv, of k] le cnt by (auto simp: exact_def intro: le_trans [OF diff_le_self])
qed

lemma slot_run_exact: "exact st \<Longrightarrow> exact (slot_run acquire release ops st)"
proof (induction ops arbitrary: st)
  case Nil
  then show ?case by simp
next
  case (Cons oper ops)
  obtain s guards where st: "st = (s, guards)" by (cases st)
  show ?case
  proof (cases oper)
    case (Take k)
    then show ?thesis
      using Cons.IH exact_acquire [of s guards k] Cons.prems st
      by (cases "acquire k s"; cases "snd (acquire k s)") auto
  next
    case (Give k)
    then show ?thesis using Cons.IH exact_release [of s guards k] Cons.prems st by simp
  qed
qed

lemma slot_run_counts:
  assumes "exact st" "slot_run acquire release ops st = (s, guards)"
  shows "held s k = count guards k \<and> count guards k \<le> bound \<and>
         (snd (acquire k s) \<longleftrightarrow> count guards k < bound)"
  using slot_run_exact [OF assms(1), of ops] assms(2) acquire_grants [of s k] by (auto simp: exact_def)

end

text \<open>The maps never hold a zero, so the sweep of idle entries at 100000 keys removes nothing.\<close>

definition slots_ok :: "('k, nat) hmap \<Rightarrow> bool" where
  "slots_ok m \<longleftrightarrow> hm_ok m \<and> (\<forall>(k, c) \<in> set m. 0 < c)"

definition slots_held :: "('k, nat) hmap \<Rightarrow> 'k \<Rightarrow> nat" where
  "slots_held m k = (case hm_get m k of None \<Rightarrow> 0 | Some c \<Rightarrow> c)"

lemma slots_retain_id: "slots_ok m \<Longrightarrow> hm_retain (\<lambda>k c. 0 < c) m = m"
  by (auto simp: slots_ok_def hm_retain_def filter_id_conv)

lemma slots_ok_get: "slots_ok m \<Longrightarrow> hm_get m k = Some c \<Longrightarrow> 0 < c"
  by (auto simp: slots_ok_def hm_get_def dest: map_of_SomeD)

lemma set_hm_put_subset: "set (hm_put k v m) \<subseteq> insert (k, v) (set m)"
  unfolding hm_put_def by (induction m) auto

lemma slots_ok_put: "slots_ok m \<Longrightarrow> 0 < c \<Longrightarrow> slots_ok (hm_put k c m)"
  using set_hm_put_subset [of k c m] by (auto simp: slots_ok_def)

lemma slots_ok_remove: "slots_ok m \<Longrightarrow> slots_ok (hm_remove k m)"
  by (auto simp: slots_ok_def hm_remove_def AList.delete_eq hm_ok_def distinct_map_filter)

lemma slot_acquire_eq:
  "slots_ok m \<Longrightarrow> 0 < mx \<Longrightarrow>
   slot_acquire mx k m =
     (if slots_held m k < mx then (hm_put k (slots_held m k + 1) m, True) else (m, False))"
  by (simp add: slot_acquire_def Let_def slots_retain_id slots_held_def split: option.split)

lemma slot_release_ok: "slots_ok m \<Longrightarrow> slots_ok (slot_release k m)"
  using slots_ok_put [of m _ k] slots_ok_remove [of m k] by (auto simp: slot_release_def split: option.split)

lemma slot_release_held:
  "slots_ok m \<Longrightarrow> slots_held (slot_release k m) k' = (if k' = k then slots_held m k' - 1 else slots_held m k')"
  by (auto simp: slot_release_def slots_held_def hm_simps split: option.split)

lemma slot_acquire_held:
  "slots_ok m \<Longrightarrow> 0 < mx \<Longrightarrow>
   slots_held (fst (slot_acquire mx k m)) k' =
     slots_held m k' + (if k' = k \<and> slots_held m k < mx then 1 else 0)"
  by (auto simp: slot_acquire_eq slots_held_def hm_simps)

lemma slot_acquire_ok: "slots_ok m \<Longrightarrow> 0 < mx \<Longrightarrow> slots_ok (fst (slot_acquire mx k m))"
  by (simp add: slot_acquire_eq slots_ok_put)

lemma slot_acquire_grants: "slots_ok m \<Longrightarrow> 0 < mx \<Longrightarrow> snd (slot_acquire mx k m) \<longleftrightarrow> slots_held m k < mx"
  by (simp add: slot_acquire_eq)

lemmas slot_laws = slot_acquire_grants slot_acquire_held slot_acquire_ok slot_release_held slot_release_ok

lemma try_acquire_proj:
  "ifl_in_flight (fst (ifl_try_acquire k l)) = fst (slot_acquire (ifl_max l) k (ifl_in_flight l))"
  "ifl_max (fst (ifl_try_acquire k l)) = ifl_max l"
  "snd (ifl_try_acquire k l) = snd (slot_acquire (ifl_max l) k (ifl_in_flight l))"
  by (simp_all add: ifl_try_acquire_def split: prod.splits)

lemma try_acquire_ws_proj:
  "al_ws_streams (fst (try_acquire_ws k l)) = fst (slot_acquire 32 k (al_ws_streams l))"
  "snd (try_acquire_ws k l) = snd (slot_acquire 32 k (al_ws_streams l))"
  by (simp_all add: try_acquire_ws_def split: prod.splits)

lemma ifl_active_held: "ifl_active k l = slots_held (ifl_in_flight l) k"
  by (simp add: ifl_active_def slots_held_def)

interpretation ifl: slot_pool "max n 1" ifl_try_acquire drop_in_flight_guard "\<lambda>l k. ifl_active k l"
    "\<lambda>l. slots_ok (ifl_in_flight l) \<and> ifl_max l = max n 1" for n :: nat
  by unfold_locales
    (auto simp: try_acquire_proj drop_in_flight_guard_def slot_laws ifl_active_held)

interpretation ws: slot_pool 32 try_acquire_ws drop_ws_guard "\<lambda>l. slots_held (al_ws_streams l)"
    "\<lambda>l. slots_ok (al_ws_streams l)"
  by unfold_locales (auto simp: try_acquire_ws_proj drop_ws_guard_def slot_laws)

text \<open>
  C24: The in-flight limiter counts exactly the live guards: in every execution the count of a key is
  its number of live guards, never over the cap, and a new request of that key is admitted if and
  only if fewer than the cap are live.
\<close>

theorem in_flight_exact:
  "case slot_run ifl_try_acquire drop_in_flight_guard ops (ifl_new n, {#}) of
     (l, guards) \<Rightarrow>
       ifl_active k l = count guards k \<and> count guards k \<le> max n 1 \<and>
       snd (ifl_try_acquire k l) = (count guards k < max n 1)"
proof -
  have "ifl.exact n (ifl_new n, {#})"
    unfolding ifl.exact_def by (simp add: ifl_new_def ifl_active_def slots_ok_def)
  from ifl.slot_run_counts [OF this] show ?thesis by (auto split: prod.split)
qed

lemma ws_streams_exact:
  assumes "slot_run try_acquire_ws drop_ws_guard ops (al_new, {#}) = (l, guards)"
  shows "slots_held (al_ws_streams l) k = count guards k \<and> count guards k \<le> 32 \<and>
         snd (try_acquire_ws k l) = (count guards k < 32)"
proof -
  have "ws.exact (al_new, {#})" unfolding ws.exact_def by (simp add: al_new_def slots_ok_def slots_held_def)
  from ws.slot_run_counts [OF this assms] show ?thesis by simp
qed

end
