(* ===== verification/Api_Keys.thy ===== *)
theory Api_Keys
  imports Rate_Limiting Combo_Store
begin

text \<open>
  API keys (openproxy-core/src/api_keys): the table and its operations (crud.rs, mapping.rs), the
  expiry check (models.rs), and which models, providers and combos a key may use (matching.rs).
  \<open>key_env\<close> holds what lies outside the sources: the SHA-256 hex digest, \<open>serde_json\<close> on lists, the
  time parsers of chrono and SQLite and the text of an instant. The random part of a new key is an
  argument.
\<close>

section \<open>Rows and keys\<close>

record key_env =
  ke_hash :: "string \<Rightarrow> string"
  ke_enc_strs :: "string list \<Rightarrow> string"
  ke_dec_strs :: "string \<Rightarrow> string list option"
  ke_enc_ints :: "int list \<Rightarrow> string"
  ke_dec_ints :: "string \<Rightarrow> int list option"
  ke_parse_timestamp :: "string \<Rightarrow> int option"
  ke_parse_stamp :: "string \<Rightarrow> int option"
  ke_julian_secs :: "string \<Rightarrow> int option"
  ke_datetime :: "int \<Rightarrow> string"

text \<open>What \<open>serde_json\<close> promises: decoding what it encoded gives the list back, and no text is empty.\<close>

definition codec_ok :: "key_env \<Rightarrow> bool" where
  "codec_ok env \<longleftrightarrow>
     (\<forall>ss. ke_dec_strs env (ke_enc_strs env ss) = Some ss \<and> ke_enc_strs env ss \<noteq> []) \<and>
     (\<forall>is. ke_dec_ints env (ke_enc_ints env is) = Some is \<and> ke_enc_ints env is \<noteq> [])"

record api_key =
  ak_id :: api_key_id
  ak_key_hash :: string
  ak_key_prefix :: "string option"
  ak_label :: "string option"
  ak_scopes :: "string list"
  ak_allowed_models :: "string list option"
  ak_allowed_combos :: "int list option"
  ak_blacklisted_providers :: "string list option"
  ak_allowed_providers :: "string list option"
  ak_blacklisted_models :: "string list option"
  ak_only_whitelisted :: bool
  ak_is_active :: bool
  ak_revoked_at :: "string option"
  ak_expires_at :: "string option"
  ak_last_used_at :: "string option"
  ak_created_at :: string
  ak_created_by :: "string option"

text \<open>A row of \<open>api_keys\<close>; the two flags carry a CHECK constraint to 0 and 1.\<close>

record key_row =
  kr_id :: api_key_id
  kr_key_hash :: string
  kr_key_prefix :: "string option"
  kr_label :: "string option"
  kr_scopes_json :: string
  kr_allowed_models_json :: "string option"
  kr_allowed_combos_json :: "string option"
  kr_blacklisted_providers_json :: "string option"
  kr_allowed_providers_json :: "string option"
  kr_blacklisted_models_json :: "string option"
  kr_only_whitelisted :: bool
  kr_is_active :: bool
  kr_revoked_at :: "string option"
  kr_expires_at :: "string option"
  kr_last_used_at :: "string option"
  kr_created_at :: string
  kr_created_by :: "string option"

record key_table =
  kt_rows :: "key_row list"
  kt_next_id :: api_key_id

record create_api_key_input =
  ci_label :: "string option"
  ci_scopes :: "string list"
  ci_allowed_models :: "string list option"
  ci_allowed_combos :: "int list option"
  ci_blacklisted_providers :: "string list option"
  ci_allowed_providers :: "string list option"
  ci_blacklisted_models :: "string list option"
  ci_only_whitelisted :: bool
  ci_expires_at :: "string option"

datatype 'a update_field = Ignore | Reset | SetTo 'a

fun into_option :: "'a update_field \<Rightarrow> 'a option option" where
  "into_option Ignore = None"
| "into_option Reset = Some None"
| "into_option (SetTo v) = Some (Some v)"

record update_params =
  up_label :: "string option"
  up_scopes :: "string list option"
  up_allowed_models :: "string list update_field"
  up_allowed_combos :: "int list update_field"
  up_blacklisted_providers :: "string list update_field"
  up_allowed_providers :: "string list update_field"
  up_blacklisted_models :: "string list update_field"
  up_only_whitelisted :: "bool option"
  up_is_active :: "bool option"
  up_expires_at :: "string update_field"

section \<open>From rows to keys\<close>

definition parse_required_json :: "(string \<Rightarrow> 'a option) \<Rightarrow> string \<Rightarrow> string \<Rightarrow> string + 'a" where
  "parse_required_json dec raw desc =
     (case dec raw of Some v \<Rightarrow> Inr v | None \<Rightarrow> Inl (''decode '' @ desc))"

definition parse_optional_json :: "(string \<Rightarrow> 'a option) \<Rightarrow> string option \<Rightarrow> string \<Rightarrow> string + 'a option" where
  "parse_optional_json dec raw desc =
     (case raw of
        Some s \<Rightarrow>
          (if s \<noteq> [] then (case parse_required_json dec s desc of Inr v \<Rightarrow> Inr (Some v) | Inl e \<Rightarrow> Inl e)
           else Inr None)
      | None \<Rightarrow> Inr None)"

definition parse_json_filter :: "(string \<Rightarrow> 'a option) \<Rightarrow> string option \<Rightarrow> 'a option" where
  "parse_json_filter dec raw = (case raw of Some s \<Rightarrow> if s \<noteq> [] then dec s else None | None \<Rightarrow> None)"

definition row_to_api_key :: "key_env \<Rightarrow> key_row \<Rightarrow> string + api_key" where
  "row_to_api_key env row =
     (case parse_required_json (ke_dec_strs env) (kr_scopes_json row) ''scopes_json'' of
        Inl e \<Rightarrow> Inl e
      | Inr scopes \<Rightarrow>
     (case parse_optional_json (ke_dec_strs env) (kr_allowed_models_json row) ''allowed_models_json'' of
        Inl e \<Rightarrow> Inl e
      | Inr allowed_models \<Rightarrow>
     (case parse_optional_json (ke_dec_ints env) (kr_allowed_combos_json row) ''allowed_combos_json'' of
        Inl e \<Rightarrow> Inl e
      | Inr allowed_combos \<Rightarrow>
          Inr \<lparr> ak_id = kr_id row, ak_key_hash = kr_key_hash row, ak_key_prefix = kr_key_prefix row,
                ak_label = kr_label row, ak_scopes = scopes, ak_allowed_models = allowed_models,
                ak_allowed_combos = allowed_combos,
                ak_blacklisted_providers =
                  parse_json_filter (ke_dec_strs env) (kr_blacklisted_providers_json row),
                ak_allowed_providers =
                  parse_json_filter (ke_dec_strs env) (kr_allowed_providers_json row),
                ak_blacklisted_models =
                  parse_json_filter (ke_dec_strs env) (kr_blacklisted_models_json row),
                ak_only_whitelisted = kr_only_whitelisted row, ak_is_active = kr_is_active row,
                ak_revoked_at = kr_revoked_at row, ak_expires_at = kr_expires_at row,
                ak_last_used_at = kr_last_used_at row, ak_created_at = kr_created_at row,
                ak_created_by = kr_created_by row \<rparr>)))"

section \<open>The table\<close>

definition db_err :: "string \<Rightarrow> core_error" where
  "db_err msg = Database msg (Some msg)"

definition query_key :: "key_env \<Rightarrow> key_row option \<Rightarrow> core_error + api_key option" where
  "query_key env row =
     (case row of
        None \<Rightarrow> Inr None
      | Some r \<Rightarrow> (case row_to_api_key env r of Inl e \<Rightarrow> Inl (db_err e) | Inr k \<Rightarrow> Inr (Some k)))"

definition find_key_row :: "key_table \<Rightarrow> api_key_id \<Rightarrow> key_row option" where
  "find_key_row kt i = find (\<lambda>r. kr_id r = i) (kt_rows kt)"

definition get_by_id :: "key_env \<Rightarrow> key_table \<Rightarrow> api_key_id \<Rightarrow> core_error + api_key option" where
  "get_by_id env kt i = query_key env (find_key_row kt i)"

definition get_by_hash :: "key_env \<Rightarrow> key_table \<Rightarrow> string \<Rightarrow> core_error + api_key option" where
  "get_by_hash env kt h = query_key env (find (\<lambda>r. kr_key_hash r = h) (kt_rows kt))"

definition count_active :: "key_table \<Rightarrow> nat" where
  "count_active kt = length (filter kr_is_active (kt_rows kt))"

fun collect_keys :: "key_env \<Rightarrow> key_row list \<Rightarrow> core_error + api_key list" where
  "collect_keys env [] = Inr []"
| "collect_keys env (r # rs) =
     (case row_to_api_key env r of
        Inl e \<Rightarrow> Inl (db_err e)
      | Inr k \<Rightarrow> (case collect_keys env rs of Inl e \<Rightarrow> Inl e | Inr ks \<Rightarrow> Inr (k # ks)))"

definition list_keys :: "key_env \<Rightarrow> key_table \<Rightarrow> core_error + api_key list" where
  "list_keys env kt = collect_keys env (sort_by (\<lambda>a b. cmp_int (kr_id b) (kr_id a)) (kt_rows kt))"

definition generate_plaintext :: "string \<Rightarrow> string" where
  "generate_plaintext rnd = ''op_live_'' @ rnd"

definition validate_create :: "create_api_key_input \<Rightarrow> core_error option" where
  "validate_create input =
     (if ci_scopes input = [] then Some (Validation ''scopes must contain at least one entry'') else None)"

text \<open>The row of the INSERT, with the column defaults of the schema.\<close>

definition new_key_row ::
    "key_env \<Rightarrow> int \<Rightarrow> string \<Rightarrow> create_api_key_input \<Rightarrow> string \<Rightarrow> api_key_id \<Rightarrow> key_row" where
  "new_key_row env now plaintext input created_by i =
     (let enc = map_option (ke_enc_strs env) in
      \<lparr> kr_id = i, kr_key_hash = ke_hash env plaintext, kr_key_prefix = Some (take 12 plaintext),
        kr_label = ci_label input, kr_scopes_json = ke_enc_strs env (ci_scopes input),
        kr_allowed_models_json = enc (ci_allowed_models input),
        kr_allowed_combos_json = map_option (ke_enc_ints env) (ci_allowed_combos input),
        kr_blacklisted_providers_json = enc (ci_blacklisted_providers input),
        kr_allowed_providers_json = enc (ci_allowed_providers input),
        kr_blacklisted_models_json = enc (ci_blacklisted_models input),
        kr_only_whitelisted = ci_only_whitelisted input, kr_is_active = True,
        kr_revoked_at = None, kr_expires_at = ci_expires_at input, kr_last_used_at = None,
        kr_created_at = ke_datetime env now, kr_created_by = Some created_by \<rparr>)"

definition create_key ::
    "key_env \<Rightarrow> int \<Rightarrow> string \<Rightarrow> create_api_key_input \<Rightarrow> string \<Rightarrow> key_table \<Rightarrow>
     core_error + (key_table \<times> api_key \<times> string)" where
  "create_key env now rnd input created_by kt =
     (case validate_create input of
        Some e \<Rightarrow> Inl e
      | None \<Rightarrow>
          (let plaintext = generate_plaintext rnd;
               row = new_key_row env now plaintext input created_by (kt_next_id kt)
           in if kr_key_hash row \<in> kr_key_hash ` set (kt_rows kt)
              then Inl (db_err ''UNIQUE constraint failed: api_keys.key_hash'')
              else
                (let kt' = \<lparr> kt_rows = kt_rows kt @ [row], kt_next_id = kt_next_id kt + 1 \<rparr> in
                 case get_by_id env kt' (kt_next_id kt) of
                   Inl e \<Rightarrow> Inl e
                 | Inr None \<Rightarrow> Inl (Internal ''failed to load newly-inserted api key'')
                 | Inr (Some k) \<Rightarrow> Inr (kt', k, plaintext))))"

text \<open>\<open>UPDATE ... WHERE id = ?\<close>, with the number of rows it touched.\<close>

definition update_row :: "api_key_id \<Rightarrow> (key_row \<Rightarrow> key_row) \<Rightarrow> key_table \<Rightarrow> key_table" where
  "update_row i f kt = kt \<lparr> kt_rows := map (\<lambda>r. if kr_id r = i then f r else r) (kt_rows kt) \<rparr>"

definition has_key :: "key_table \<Rightarrow> api_key_id \<Rightarrow> bool" where
  "has_key kt i \<longleftrightarrow> i \<in> kr_id ` set (kt_rows kt)"

definition key_not_found :: "api_key_id \<Rightarrow> core_error" where
  "key_not_found i = Internal (''api_key '' @ show_int i @ '' not found'')"

definition coalesce :: "'a option \<Rightarrow> 'a \<Rightarrow> 'a option" where
  "coalesce v d = (case v of Some x \<Rightarrow> Some x | None \<Rightarrow> Some d)"

definition revoke_key :: "key_env \<Rightarrow> int \<Rightarrow> api_key_id \<Rightarrow> key_table \<Rightarrow> core_error + key_table" where
  "revoke_key env now i kt =
     (if has_key kt i then
        Inr (update_row i (\<lambda>r. r \<lparr> kr_is_active := False,
               kr_revoked_at := coalesce (kr_revoked_at r) (ke_datetime env now) \<rparr>) kt)
      else Inl (key_not_found i))"

definition hard_delete :: "api_key_id \<Rightarrow> key_table \<Rightarrow> key_table" where
  "hard_delete i kt = kt \<lparr> kt_rows := filter (\<lambda>r. kr_id r \<noteq> i) (kt_rows kt) \<rparr>"

definition update_key_hash_row ::
    "api_key_id \<Rightarrow> string \<Rightarrow> string \<Rightarrow> key_table \<Rightarrow> core_error + key_table" where
  "update_key_hash_row i key_hash key_prefix kt =
     (if list_ex (\<lambda>r. kr_id r \<noteq> i \<and> kr_key_hash r = key_hash) (kt_rows kt) \<and> has_key kt i
      then Inl (db_err ''UNIQUE constraint failed: api_keys.key_hash'')
      else if has_key kt i then
        Inr (update_row i (\<lambda>r. r \<lparr> kr_key_hash := key_hash, kr_key_prefix := Some key_prefix,
               kr_is_active := True, kr_revoked_at := None, kr_last_used_at := None \<rparr>) kt)
      else Inl (key_not_found i))"

definition regenerate_key ::
    "key_env \<Rightarrow> string \<Rightarrow> api_key_id \<Rightarrow> key_table \<Rightarrow> core_error + (key_table \<times> api_key \<times> string)" where
  "regenerate_key env rnd i kt =
     (let plaintext = generate_plaintext rnd in
      case update_key_hash_row i (ke_hash env plaintext) (take 12 plaintext) kt of
        Inl e \<Rightarrow> Inl e
      | Inr kt' \<Rightarrow>
          (case get_by_id env kt' i of
             Inl e \<Rightarrow> Inl e
           | Inr None \<Rightarrow> Inl (Internal ''regenerated api_key vanished'')
           | Inr (Some k) \<Rightarrow> Inr (kt', k, plaintext)))"

abbreviation LAST_USED_THROTTLE_SECS :: int where "LAST_USED_THROTTLE_SECS \<equiv> 300"

definition touch_last_used :: "key_env \<Rightarrow> int \<Rightarrow> api_key_id \<Rightarrow> key_table \<Rightarrow> key_table" where
  "touch_last_used env now i kt =
     update_row i (\<lambda>r. if (case kr_last_used_at r of
                             None \<Rightarrow> True
                           | Some s \<Rightarrow> (case ke_julian_secs env s of
                                          None \<Rightarrow> False
                                        | Some t \<Rightarrow> now - t > LAST_USED_THROTTLE_SECS))
                       then r \<lparr> kr_last_used_at := Some (ke_datetime env now) \<rparr> else r) kt"

definition serialize_update_field :: "('a \<Rightarrow> string) \<Rightarrow> 'a update_field \<Rightarrow> string update_field" where
  "serialize_update_field enc field =
     (case field of Ignore \<Rightarrow> Ignore | Reset \<Rightarrow> Reset | SetTo v \<Rightarrow> SetTo (enc v))"

type_synonym row_set = "key_row \<Rightarrow> key_row"

definition opt_set :: "'a option \<Rightarrow> ('a \<Rightarrow> row_set) \<Rightarrow> row_set list" where
  "opt_set v f = (case v of None \<Rightarrow> [] | Some x \<Rightarrow> [f x])"

definition build_update_scalar_clauses :: "key_env \<Rightarrow> int \<Rightarrow> update_params \<Rightarrow> row_set list" where
  "build_update_scalar_clauses env now p =
     opt_set (up_label p) (\<lambda>v r. r \<lparr> kr_label := Some v \<rparr>) @
     opt_set (up_only_whitelisted p) (\<lambda>v r. r \<lparr> kr_only_whitelisted := v \<rparr>) @
     (case up_is_active p of
        None \<Rightarrow> []
      | Some act \<Rightarrow>
          [\<lambda>r. r \<lparr> kr_is_active := act \<rparr>,
           (if \<not> act then (\<lambda>r. r \<lparr> kr_revoked_at := coalesce (kr_revoked_at r) (ke_datetime env now) \<rparr>)
            else (\<lambda>r. r \<lparr> kr_revoked_at := None \<rparr>))]) @
     (case up_expires_at p of
        Ignore \<Rightarrow> []
      | Reset \<Rightarrow> [\<lambda>r. r \<lparr> kr_expires_at := None \<rparr>]
      | SetTo v \<Rightarrow> [\<lambda>r. r \<lparr> kr_expires_at := Some v \<rparr>])"

definition build_update_json_clauses :: "key_env \<Rightarrow> update_params \<Rightarrow> row_set list" where
  "build_update_json_clauses env p =
     (let strs = (\<lambda>f. into_option (serialize_update_field (ke_enc_strs env) f)) in
      opt_set (map_option (ke_enc_strs env) (up_scopes p)) (\<lambda>v r. r \<lparr> kr_scopes_json := v \<rparr>) @
      opt_set (strs (up_allowed_models p)) (\<lambda>v r. r \<lparr> kr_allowed_models_json := v \<rparr>) @
      opt_set (into_option (serialize_update_field (ke_enc_ints env) (up_allowed_combos p)))
        (\<lambda>v r. r \<lparr> kr_allowed_combos_json := v \<rparr>) @
      opt_set (strs (up_blacklisted_providers p)) (\<lambda>v r. r \<lparr> kr_blacklisted_providers_json := v \<rparr>) @
      opt_set (strs (up_allowed_providers p)) (\<lambda>v r. r \<lparr> kr_allowed_providers_json := v \<rparr>) @
      opt_set (strs (up_blacklisted_models p)) (\<lambda>v r. r \<lparr> kr_blacklisted_models_json := v \<rparr>))"

definition update_key :: "key_env \<Rightarrow> int \<Rightarrow> api_key_id \<Rightarrow> update_params \<Rightarrow> key_table \<Rightarrow> core_error + key_table" where
  "update_key env now i p kt =
     (if up_scopes p = Some [] then Inl (Validation ''scopes must contain at least one entry'')
      else
        (let sets = build_update_scalar_clauses env now p @ build_update_json_clauses env p in
         if sets = [] then (if has_key kt i then Inr kt else Inl (key_not_found i))
         else if has_key kt i then Inr (update_row i (fold (\<lambda>f r. f r) sets) kt)
         else Inl (key_not_found i)))"

definition is_key_expired :: "key_env \<Rightarrow> string option \<Rightarrow> int \<Rightarrow> core_error + bool" where
  "is_key_expired env expires_at now =
     (case expires_at of
        None \<Rightarrow> Inr False
      | Some s \<Rightarrow>
          (case ke_parse_timestamp env s of
             None \<Rightarrow> Inl (Database (''invalid expires_at '' @ s) None)
           | Some t \<Rightarrow> Inr (t \<le> now)))"

section \<open>What a key may use\<close>

definition strip_suffix_star :: "string \<Rightarrow> string option" where
  "strip_suffix_star s = (if s \<noteq> [] \<and> last s = CHR ''*'' then Some (butlast s) else None)"

definition strip_prefix_star :: "string \<Rightarrow> string option" where
  "strip_prefix_star s = (case s of [] \<Rightarrow> None | c # cs \<Rightarrow> if c = CHR ''*'' then Some cs else None)"

definition ends_with :: "string \<Rightarrow> string \<Rightarrow> bool" where
  "ends_with s p \<longleftrightarrow> drop (length s - length p) s = p"

definition matches_model_spec :: "string \<Rightarrow> string \<Rightarrow> bool" where
  "matches_model_spec spec candidate =
     (if spec = ''*'' \<or> spec = candidate then True
      else if (case strip_suffix_star spec of Some pre \<Rightarrow> starts_with candidate pre | None \<Rightarrow> False) then True
      else if (case strip_prefix_star spec of Some suf \<Rightarrow> ends_with candidate suf | None \<Rightarrow> False) then True
      else False)"

definition model_matches_pattern :: "string \<Rightarrow> string \<Rightarrow> string \<Rightarrow> string option \<Rightarrow> bool" where
  "model_matches_pattern pattern model bare_model full_id \<longleftrightarrow>
     matches_model_spec pattern model \<or> matches_model_spec pattern bare_model \<or>
     (case full_id of Some f \<Rightarrow> matches_model_spec pattern f | None \<Rightarrow> False)"

definition is_provider_blacklisted :: "string list option \<Rightarrow> string option \<Rightarrow> bool" where
  "is_provider_blacklisted blacklisted provider =
     (case (blacklisted, provider) of
        (Some bp, Some p) \<Rightarrow> list_ex (\<lambda>b. b = p \<or> b = ''*'') bp
      | _ \<Rightarrow> False)"

definition is_provider_in_allowlist :: "string list option \<Rightarrow> string option \<Rightarrow> bool" where
  "is_provider_in_allowlist allowed provider =
     (case allowed of
        None \<Rightarrow> True
      | Some ap \<Rightarrow>
          (if ap = [] then True
           else case provider of Some p \<Rightarrow> list_ex (\<lambda>a. a = p \<or> a = ''*'') ap | None \<Rightarrow> False))"

definition is_model_blocked_by_blacklist :: "string list option \<Rightarrow> string \<Rightarrow> string \<Rightarrow> string option \<Rightarrow> bool" where
  "is_model_blocked_by_blacklist blacklisted_models model bare_model full_id =
     (case blacklisted_models of
        None \<Rightarrow> False
      | Some blacklisted \<Rightarrow> list_ex (\<lambda>b. model_matches_pattern b model bare_model full_id) blacklisted)"

definition is_model_allowed :: "api_key \<Rightarrow> string \<Rightarrow> string option \<Rightarrow> bool" where
  "is_model_allowed key model provider_id =
     (let (prov_from_model, bare_model) =
            (case split_once ''/'' model of None \<Rightarrow> (None, model) | Some (p, m) \<Rightarrow> (Some p, m));
          effective_prov = (case provider_id of Some p \<Rightarrow> Some p | None \<Rightarrow> prov_from_model);
          full_id = Option.bind effective_prov
            (\<lambda>p. if starts_with model (p @ ''/'') then None else Some (p @ ''/'' @ model));
          is_model_blacklisted =
            is_model_blocked_by_blacklist (ak_blacklisted_models key) model bare_model full_id;
          explicitly_allowed =
            (case ak_allowed_models key of
               None \<Rightarrow> False
             | Some allowed \<Rightarrow>
                 allowed \<noteq> [] \<and> list_ex (\<lambda>m. model_matches_pattern m model bare_model full_id) allowed)
      in if ak_only_whitelisted key then explicitly_allowed \<and> \<not> is_model_blacklisted
         else if starts_with model ''combo:'' \<or> effective_prov = None then \<not> is_model_blacklisted
         else if explicitly_allowed then True
         else if is_model_blacklisted then False
         else if is_provider_blacklisted (ak_blacklisted_providers key) provider_id \<or>
                 is_provider_blacklisted (ak_blacklisted_providers key) prov_from_model then False
         else is_provider_in_allowlist (ak_allowed_providers key) provider_id \<or>
              is_provider_in_allowlist (ak_allowed_providers key) prov_from_model)"

definition is_provider_allowed :: "api_key \<Rightarrow> string \<Rightarrow> bool" where
  "is_provider_allowed key provider_id =
     (if (case ak_blacklisted_providers key of
            Some bl \<Rightarrow> list_ex (\<lambda>p. p = provider_id \<or> p = ''*'') bl | None \<Rightarrow> False) then False
      else if (case ak_allowed_providers key of
                 Some al \<Rightarrow> al \<noteq> [] \<and> \<not> list_ex (\<lambda>p. p = provider_id \<or> p = ''*'') al | None \<Rightarrow> False) then False
      else True)"

definition is_combo_allowed :: "api_key \<Rightarrow> int \<Rightarrow> bool" where
  "is_combo_allowed key combo_id =
     (if (case ak_allowed_combos key of
            Some al \<Rightarrow> al \<noteq> [] \<and> combo_id \<notin> set al | None \<Rightarrow> False) then False
      else True)"

section \<open>The table invariant\<close>

definition row_ok :: "key_env \<Rightarrow> key_row \<Rightarrow> bool" where
  "row_ok env r \<longleftrightarrow>
     ke_dec_strs env (kr_scopes_json r) \<noteq> None \<and>
     (\<forall>s. kr_allowed_models_json r = Some s \<longrightarrow> s \<noteq> [] \<longrightarrow> ke_dec_strs env s \<noteq> None) \<and>
     (\<forall>s. kr_allowed_combos_json r = Some s \<longrightarrow> s \<noteq> [] \<longrightarrow> ke_dec_ints env s \<noteq> None)"

definition keys_ok :: "key_env \<Rightarrow> key_table \<Rightarrow> bool" where
  "keys_ok env kt \<longleftrightarrow>
     distinct (map kr_id (kt_rows kt)) \<and> distinct (map kr_key_hash (kt_rows kt)) \<and>
     (\<forall>r \<in> set (kt_rows kt). kr_id r < kt_next_id kt \<and> row_ok env r)"

datatype key_op =
    OpCreate int string create_api_key_input string
  | OpRevoke int api_key_id
  | OpDelete api_key_id
  | OpRegenerate string api_key_id
  | OpTouch int api_key_id
  | OpUpdate int api_key_id update_params

text \<open>An operation that fails leaves the table as it was.\<close>

definition or_keep :: "key_table \<Rightarrow> core_error + key_table \<Rightarrow> key_table" where
  "or_keep kt res = (case res of Inl e \<Rightarrow> kt | Inr kt' \<Rightarrow> kt')"

fun key_step :: "key_env \<Rightarrow> key_op \<Rightarrow> key_table \<Rightarrow> key_table" where
  "key_step env (OpCreate now rnd input created_by) kt =
     (case create_key env now rnd input created_by kt of Inl e \<Rightarrow> kt | Inr (kt', k, pt) \<Rightarrow> kt')"
| "key_step env (OpRevoke now i) kt = or_keep kt (revoke_key env now i kt)"
| "key_step env (OpDelete i) kt = hard_delete i kt"
| "key_step env (OpRegenerate rnd i) kt =
     (case regenerate_key env rnd i kt of Inl e \<Rightarrow> kt | Inr (kt', k, pt) \<Rightarrow> kt')"
| "key_step env (OpTouch now i) kt = touch_last_used env now i kt"
| "key_step env (OpUpdate now i p) kt = or_keep kt (update_key env now i p kt)"

lemma row_ok_decodes: "row_ok env r \<Longrightarrow> \<exists>k. row_to_api_key env r = Inr k"
  by (auto simp: row_ok_def row_to_api_key_def parse_required_json_def parse_optional_json_def
      split: option.splits)

text \<open>Changing rows of one id without touching ids, hashes or the JSON columns that must decode.\<close>

lemma keys_ok_update_row:
  assumes "keys_ok env kt"
    and "\<And>r. kr_id (f r) = kr_id r" "\<And>r. kr_key_hash (f r) = kr_key_hash r"
    and "\<And>r. row_ok env r \<Longrightarrow> row_ok env (f r)"
  shows "keys_ok env (update_row i f kt)"
proof -
  have "map kr_id (map (\<lambda>r. if kr_id r = i then f r else r) rs) = map kr_id rs"
    and "map kr_key_hash (map (\<lambda>r. if kr_id r = i then f r else r) rs) = map kr_key_hash rs" for rs
    using assms(2,3) by (induction rs) auto
  then show ?thesis using assms(1,2,4) by (auto simp: keys_ok_def update_row_def simp del: map_map)
qed

lemma keys_ok_delete: "keys_ok env kt \<Longrightarrow> keys_ok env (hard_delete i kt)"
  by (auto simp: keys_ok_def hard_delete_def distinct_map_filter)

lemma codec_strs [simp]:
  "codec_ok env \<Longrightarrow> ke_dec_strs env (ke_enc_strs env ss) = Some ss"
  "codec_ok env \<Longrightarrow> ke_enc_strs env ss \<noteq> []"
  "codec_ok env \<Longrightarrow> ke_dec_ints env (ke_enc_ints env ns) = Some ns"
  "codec_ok env \<Longrightarrow> ke_enc_ints env ns \<noteq> []"
  by (auto simp: codec_ok_def)

lemma new_key_row_simps [simp]:
  "kr_id (new_key_row env now pt input cb i) = i"
  "kr_key_hash (new_key_row env now pt input cb i) = ke_hash env pt"
  "codec_ok env \<Longrightarrow> row_ok env (new_key_row env now pt input cb i)"
  by (auto simp: new_key_row_def Let_def row_ok_def)

lemma create_rows:
  assumes "create_key env now rnd input created_by kt = Inr (kt', k, pt)"
  shows "pt = generate_plaintext rnd"
    and "kt' = \<lparr> kt_rows = kt_rows kt @ [new_key_row env now pt input created_by (kt_next_id kt)],
                 kt_next_id = kt_next_id kt + 1 \<rparr>"
    and "ke_hash env pt \<notin> kr_key_hash ` set (kt_rows kt)"
    and "ci_scopes input \<noteq> []"
    and "get_by_id env kt' (kt_next_id kt) = Inr (Some k)"
  using assms
  by (auto simp: create_key_def Let_def validate_create_def split: option.splits if_splits sum.splits)

lemma keys_ok_create:
  assumes "codec_ok env" "keys_ok env kt" "create_key env now rnd input created_by kt = Inr (kt', k, pt)"
  shows "keys_ok env kt'"
  using assms(1,2) create_rows [OF assms(3)] by (auto simp: keys_ok_def image_iff dest: less_trans)

lemma regenerate_rows:
  assumes "regenerate_key env rnd i kt = Inr (kt', k, pt)"
  shows "kt' = update_row i (\<lambda>r. r \<lparr> kr_key_hash := ke_hash env (generate_plaintext rnd),
            kr_key_prefix := Some (take 12 (generate_plaintext rnd)),
            kr_is_active := True, kr_revoked_at := None, kr_last_used_at := None \<rparr>) kt"
    and "\<forall>r \<in> set (kt_rows kt). kr_id r \<noteq> i \<longrightarrow> kr_key_hash r \<noteq> ke_hash env (generate_plaintext rnd)"
    and "has_key kt i" and "pt = generate_plaintext rnd" and "get_by_id env kt' i = Inr (Some k)"
  using assms
  by (auto simp: regenerate_key_def update_key_hash_row_def Let_def list_ex_iff
      split: option.splits if_splits sum.splits)

lemma distinct_map_replace:
  assumes "distinct (map kr_id rs)" "distinct (map kr_key_hash rs)"
    and "\<forall>r \<in> set rs. kr_id r \<noteq> i \<longrightarrow> kr_key_hash r \<noteq> h" and "\<And>r. kr_key_hash (f r) = h"
  shows "distinct (map (\<lambda>r. kr_key_hash (if kr_id r = i then f r else r)) rs)"
  using assms
proof (induction rs)
  case Nil
  then show ?case by simp
next
  case (Cons r rs)
  have IH: "distinct (map (\<lambda>r. kr_key_hash (if kr_id r = i then f r else r)) rs)"
    using Cons by simp
  show ?case
  proof (cases "kr_id r = i")
    case True
    then have "\<forall>r' \<in> set rs. kr_id r' \<noteq> i" using Cons.prems(1) by (auto simp: image_iff)
    then show ?thesis using IH True Cons.prems(3,4) by (auto simp: image_iff)
  next
    case False
    then show ?thesis using IH Cons.prems by (auto simp: image_iff)
  qed
qed

lemma keys_ok_regenerate:
  assumes "keys_ok env kt" "regenerate_key env rnd i kt = Inr (kt', k, pt)"
  shows "keys_ok env kt'"
proof -
  let ?h = "ke_hash env (generate_plaintext rnd)"
  let ?f = "\<lambda>r :: key_row. r \<lparr> kr_key_hash := ?h, kr_key_prefix := Some (take 12 (generate_plaintext rnd)),
            kr_is_active := True, kr_revoked_at := None, kr_last_used_at := None \<rparr>"
  note kt' = regenerate_rows(1) [OF assms(2)]
  have ids: "(\<lambda>r. kr_id (if kr_id r = i then ?f r else r)) = kr_id" by auto
  have "distinct (map (\<lambda>r. kr_key_hash (if kr_id r = i then ?f r else r)) (kt_rows kt))"
    using assms(1) regenerate_rows(2) [OF assms(2)]
    by (intro distinct_map_replace [where h = ?h]) (auto simp: keys_ok_def)
  moreover have "row_ok env (?f r) \<longleftrightarrow> row_ok env r" for r by (simp add: row_ok_def)
  ultimately show ?thesis
    using assms(1) unfolding kt' by (auto simp: keys_ok_def update_row_def comp_def ids)
qed

definition set_harmless :: "key_env \<Rightarrow> row_set \<Rightarrow> bool" where
  "set_harmless env f \<longleftrightarrow>
     (\<forall>r. kr_id (f r) = kr_id r \<and> kr_key_hash (f r) = kr_key_hash r \<and> (row_ok env r \<longrightarrow> row_ok env (f r)))"

lemma fold_harmless:
  "\<forall>f \<in> set fs. set_harmless env f \<Longrightarrow> set_harmless env (fold (\<lambda>f r. f r) fs)"
  by (induction fs) (auto simp: set_harmless_def)

lemma opt_set_in: "f \<in> set (opt_set v g) \<longleftrightarrow> (\<exists>x. v = Some x \<and> f = g x)"
  by (auto simp: opt_set_def split: option.splits)

lemma scalar_harmless: "f \<in> set (build_update_scalar_clauses env now p) \<Longrightarrow> set_harmless env f"
  by (auto simp: build_update_scalar_clauses_def opt_set_in set_harmless_def row_ok_def
      split: option.splits update_field.splits if_splits)

lemma serialized_decodes:
  "into_option (serialize_update_field enc f) = Some (Some t) \<Longrightarrow> \<exists>v. t = enc v"
  by (cases f) (auto simp: serialize_update_field_def)

lemma json_harmless:
  assumes "codec_ok env" "f \<in> set (build_update_json_clauses env p)"
  shows "set_harmless env f"
  using assms(2) unfolding build_update_json_clauses_def Let_def
  by (auto simp: opt_set_in set_harmless_def row_ok_def assms(1) dest!: serialized_decodes)

lemma key_step_ok:
  assumes "codec_ok env" "keys_ok env kt"
  shows "keys_ok env (key_step env oper kt)"
proof (cases oper)
  case (OpCreate now rnd input created_by)
  then show ?thesis using assms keys_ok_create [OF assms] by (auto split: sum.splits)
next
  case (OpRevoke now i)
  then show ?thesis
    using assms(2) by (auto simp: or_keep_def revoke_key_def row_ok_def intro!: keys_ok_update_row)
next
  case (OpDelete i)
  then show ?thesis using assms by (simp add: keys_ok_delete)
next
  case (OpRegenerate rnd i)
  then show ?thesis using assms keys_ok_regenerate [OF assms(2)] by (auto split: sum.splits)
next
  case (OpTouch now i)
  then show ?thesis
    using assms(2) unfolding OpTouch key_step.simps touch_last_used_def
    by (intro keys_ok_update_row) (auto simp: row_ok_def)
next
  case (OpUpdate now i p)
  let ?sets = "build_update_scalar_clauses env now p @ build_update_json_clauses env p"
  have "set_harmless env (fold (\<lambda>f r. f r) ?sets)"
    using scalar_harmless json_harmless [OF assms(1)] by (intro fold_harmless) auto
  then have "keys_ok env (update_row i (fold (\<lambda>f r. f r) ?sets) kt)"
    by (intro keys_ok_update_row [OF assms(2)]) (auto simp: set_harmless_def)
  then show ?thesis using assms(2) unfolding OpUpdate key_step.simps
    by (auto simp: or_keep_def update_key_def Let_def split: sum.splits if_splits)
qed

lemma keys_ok_run: "codec_ok env \<Longrightarrow> keys_ok env kt \<Longrightarrow> keys_ok env (fold (key_step env) ops kt)"
  by (induction ops arbitrary: kt) (simp_all add: key_step_ok)

definition empty_keys :: key_table where
  "empty_keys = \<lparr> kt_rows = [], kt_next_id = 1 \<rparr>"

lemma keys_ok_empty: "keys_ok env empty_keys"
  by (simp add: keys_ok_def empty_keys_def)

text \<open>
  C30: After any sequence of creations, revocations, deletions, regenerations, edits and usage stamps,
  ids and hashes of the stored keys are pairwise distinct, ids stay below the next one (so a deleted
  id is never given out again), and every row still decodes, so listing and lookups never fail.
\<close>

theorem key_table_invariant:
  assumes "codec_ok env"
  shows "let kt = fold (key_step env) ops empty_keys in
     distinct (map kr_id (kt_rows kt)) \<and> distinct (map kr_key_hash (kt_rows kt)) \<and>
     (\<forall>r \<in> set (kt_rows kt). kr_id r < kt_next_id kt \<and> (\<exists>k. row_to_api_key env r = Inr k))"
  using keys_ok_run [OF assms keys_ok_empty, of ops] row_ok_decodes
  by (auto simp: keys_ok_def Let_def)

section \<open>Lookups after changes\<close>

lemma find_snoc:
  "find P (xs @ [x]) = (case find P xs of None \<Rightarrow> if P x then Some x else None | Some y \<Rightarrow> Some y)"
  by (induction xs) auto

lemma find_unique:
  "distinct (map f xs) \<Longrightarrow> x \<in> set xs \<Longrightarrow> find (\<lambda>y. f y = f x) xs = Some x"
  by (induction xs) (auto simp: image_iff)

lemma row_to_api_key_new:
  assumes "codec_ok env"
  shows "row_to_api_key env (new_key_row env now pt input created_by i) = Inr
    \<lparr> ak_id = i, ak_key_hash = ke_hash env pt, ak_key_prefix = Some (take 12 pt), ak_label = ci_label input,
      ak_scopes = ci_scopes input, ak_allowed_models = ci_allowed_models input,
      ak_allowed_combos = ci_allowed_combos input,
      ak_blacklisted_providers = ci_blacklisted_providers input,
      ak_allowed_providers = ci_allowed_providers input,
      ak_blacklisted_models = ci_blacklisted_models input,
      ak_only_whitelisted = ci_only_whitelisted input, ak_is_active = True, ak_revoked_at = None,
      ak_expires_at = ci_expires_at input, ak_last_used_at = None, ak_created_at = ke_datetime env now,
      ak_created_by = Some created_by \<rparr>"
proof -
  have ints: "parse_optional_json (ke_dec_ints env) (map_option (ke_enc_ints env) v) d = Inr v" for v d
    using assms by (cases v) (simp_all add: parse_optional_json_def parse_required_json_def)
  have strs: "parse_optional_json (ke_dec_strs env) (map_option (ke_enc_strs env) v) d = Inr v" for v d
    using assms by (cases v) (simp_all add: parse_optional_json_def parse_required_json_def)
  have filters: "parse_json_filter (ke_dec_strs env) (map_option (ke_enc_strs env) v) = v" for v
    using assms by (cases v) (simp_all add: parse_json_filter_def)
  show ?thesis
    using assms by (simp add: row_to_api_key_def new_key_row_def ints strs filters parse_required_json_def Let_def)
qed

lemma created_key_lookup:
  assumes "codec_ok env" "keys_ok env kt" "create_key env now rnd input created_by kt = Inr (kt', k, pt)"
  shows "get_by_hash env kt' (ke_hash env pt) = Inr (Some k)"
    and "row_to_api_key env (new_key_row env now pt input created_by (kt_next_id kt)) = Inr k"
    and "h \<noteq> ke_hash env pt \<Longrightarrow> get_by_hash env kt' h = get_by_hash env kt h"
proof -
  let ?row = "new_key_row env now pt input created_by (kt_next_id kt)"
  note c = create_rows [OF assms(3)]
  have ok: "keys_ok env kt'" by (rule keys_ok_create [OF assms])
  have mem: "?row \<in> set (kt_rows kt')" using c(2) by simp
  have "find (\<lambda>r. kr_id r = kt_next_id kt) (kt_rows kt') = Some ?row"
    using find_unique [of kr_id "kt_rows kt'" ?row] ok mem by (simp add: keys_ok_def)
  moreover have byhash: "find (\<lambda>r. kr_key_hash r = ke_hash env pt) (kt_rows kt') = Some ?row"
    using find_unique [of kr_key_hash "kt_rows kt'" ?row] ok mem by (simp add: keys_ok_def)
  ultimately show k: "row_to_api_key env ?row = Inr k"
    using c(5) by (auto simp: get_by_id_def find_key_row_def query_key_def split: sum.splits)
  show "get_by_hash env kt' (ke_hash env pt) = Inr (Some k)"
    using byhash k by (simp add: get_by_hash_def query_key_def)
  show "get_by_hash env kt' h = get_by_hash env kt h" if "h \<noteq> ke_hash env pt" for h
    unfolding get_by_hash_def c(2) using that by (auto simp: find_snoc split: option.split)
qed

text \<open>
  A created key is found again by the hash of the plaintext shown to the user, carries exactly the
  scopes and restrictions it was created with, is active, and no other key's lookup changes.
\<close>

theorem created_key_round_trip:
  assumes "codec_ok env" "keys_ok env kt" "create_key env now rnd input created_by kt = Inr (kt', k, pt)"
  shows "get_by_hash env kt' (ke_hash env pt) = Inr (Some k) \<and>
     ak_scopes k = ci_scopes input \<and> ak_allowed_models k = ci_allowed_models input \<and>
     ak_allowed_combos k = ci_allowed_combos input \<and>
     ak_blacklisted_providers k = ci_blacklisted_providers input \<and>
     ak_allowed_providers k = ci_allowed_providers input \<and>
     ak_blacklisted_models k = ci_blacklisted_models input \<and>
     ak_only_whitelisted k = ci_only_whitelisted input \<and> ak_expires_at k = ci_expires_at input \<and>
     ak_is_active k \<and>
     (\<forall>h. h \<noteq> ke_hash env pt \<longrightarrow> get_by_hash env kt' h = get_by_hash env kt h)"
  using created_key_lookup [OF assms] unfolding row_to_api_key_new [OF assms(1)] by auto

subsection \<open>Edits\<close>

text \<open>What an edit means for the decoded key.\<close>

definition apply_field :: "'a update_field \<Rightarrow> 'a option \<Rightarrow> 'a option" where
  "apply_field f old = (case f of Ignore \<Rightarrow> old | Reset \<Rightarrow> None | SetTo v \<Rightarrow> Some v)"

definition apply_update :: "key_env \<Rightarrow> int \<Rightarrow> update_params \<Rightarrow> api_key \<Rightarrow> api_key" where
  "apply_update env now p k =
     k \<lparr> ak_label := (case up_label p of None \<Rightarrow> ak_label k | Some v \<Rightarrow> Some v),
         ak_scopes := (case up_scopes p of None \<Rightarrow> ak_scopes k | Some v \<Rightarrow> v),
         ak_allowed_models := apply_field (up_allowed_models p) (ak_allowed_models k),
         ak_allowed_combos := apply_field (up_allowed_combos p) (ak_allowed_combos k),
         ak_blacklisted_providers := apply_field (up_blacklisted_providers p) (ak_blacklisted_providers k),
         ak_allowed_providers := apply_field (up_allowed_providers p) (ak_allowed_providers k),
         ak_blacklisted_models := apply_field (up_blacklisted_models p) (ak_blacklisted_models k),
         ak_only_whitelisted := (case up_only_whitelisted p of None \<Rightarrow> ak_only_whitelisted k | Some v \<Rightarrow> v),
         ak_is_active := (case up_is_active p of None \<Rightarrow> ak_is_active k | Some v \<Rightarrow> v),
         ak_revoked_at :=
           (case up_is_active p of
              None \<Rightarrow> ak_revoked_at k
            | Some act \<Rightarrow> if act then None else coalesce (ak_revoked_at k) (ke_datetime env now)),
         ak_expires_at := apply_field (up_expires_at p) (ak_expires_at k) \<rparr>"

lemma fold_opt_set: "fold (\<lambda>f r. f r) (opt_set v g) r = (case v of None \<Rightarrow> r | Some x \<Rightarrow> g x r)"
  by (simp add: opt_set_def split: option.split)

abbreviation scalar_row :: "key_env \<Rightarrow> int \<Rightarrow> update_params \<Rightarrow> key_row \<Rightarrow> key_row" where
  "scalar_row env now p r \<equiv>
     r \<lparr> kr_label := (case up_label p of None \<Rightarrow> kr_label r | Some v \<Rightarrow> Some v),
         kr_only_whitelisted := (case up_only_whitelisted p of None \<Rightarrow> kr_only_whitelisted r | Some v \<Rightarrow> v),
         kr_is_active := (case up_is_active p of None \<Rightarrow> kr_is_active r | Some v \<Rightarrow> v),
         kr_revoked_at :=
           (case up_is_active p of
              None \<Rightarrow> kr_revoked_at r
            | Some act \<Rightarrow> if act then None else coalesce (kr_revoked_at r) (ke_datetime env now)),
         kr_expires_at := apply_field (up_expires_at p) (kr_expires_at r) \<rparr>"

lemma fold_scalar: "fold (\<lambda>f r. f r) (build_update_scalar_clauses env now p) r = scalar_row env now p r"
  by (cases "up_label p"; cases "up_only_whitelisted p"; cases "up_is_active p"; cases "up_expires_at p")
    (simp_all add: build_update_scalar_clauses_def fold_opt_set apply_field_def)

definition new_json :: "('a \<Rightarrow> string) \<Rightarrow> 'a update_field \<Rightarrow> string option \<Rightarrow> string option" where
  "new_json enc f old = apply_field (serialize_update_field enc f) old"

lemma into_option_case:
  "(case into_option (serialize_update_field enc f) of None \<Rightarrow> r | Some v \<Rightarrow> g v) =
   (if f = Ignore then r else g (new_json enc f None))"
  by (cases f) (simp_all add: serialize_update_field_def new_json_def apply_field_def)

lemma new_json_Ignore [simp]: "new_json enc Ignore old = old"
  by (simp add: new_json_def serialize_update_field_def apply_field_def)

lemma new_json_set: "f \<noteq> Ignore \<Longrightarrow> new_json enc f None = new_json enc f old"
  by (cases f) (simp_all add: new_json_def serialize_update_field_def apply_field_def)

abbreviation json_row :: "key_env \<Rightarrow> update_params \<Rightarrow> key_row \<Rightarrow> key_row" where
  "json_row env p r \<equiv>
     r \<lparr> kr_scopes_json := (case up_scopes p of None \<Rightarrow> kr_scopes_json r | Some v \<Rightarrow> ke_enc_strs env v),
         kr_allowed_models_json := new_json (ke_enc_strs env) (up_allowed_models p) (kr_allowed_models_json r),
         kr_allowed_combos_json := new_json (ke_enc_ints env) (up_allowed_combos p) (kr_allowed_combos_json r),
         kr_blacklisted_providers_json :=
           new_json (ke_enc_strs env) (up_blacklisted_providers p) (kr_blacklisted_providers_json r),
         kr_allowed_providers_json :=
           new_json (ke_enc_strs env) (up_allowed_providers p) (kr_allowed_providers_json r),
         kr_blacklisted_models_json :=
           new_json (ke_enc_strs env) (up_blacklisted_models p) (kr_blacklisted_models_json r) \<rparr>"

lemma put_models: "(if f = Ignore then r else r \<lparr> kr_allowed_models_json := new_json enc f None \<rparr>) =
    r \<lparr> kr_allowed_models_json := new_json enc f (kr_allowed_models_json r) \<rparr>"
  using new_json_set [of f enc "kr_allowed_models_json r"] by (cases "f = Ignore") simp_all

lemma put_combos: "(if f = Ignore then r else r \<lparr> kr_allowed_combos_json := new_json enc f None \<rparr>) =
    r \<lparr> kr_allowed_combos_json := new_json enc f (kr_allowed_combos_json r) \<rparr>"
  using new_json_set [of f enc "kr_allowed_combos_json r"] by (cases "f = Ignore") simp_all

lemma put_bproviders: "(if f = Ignore then r else r \<lparr> kr_blacklisted_providers_json := new_json enc f None \<rparr>) =
    r \<lparr> kr_blacklisted_providers_json := new_json enc f (kr_blacklisted_providers_json r) \<rparr>"
  using new_json_set [of f enc "kr_blacklisted_providers_json r"] by (cases "f = Ignore") simp_all

lemma put_aproviders: "(if f = Ignore then r else r \<lparr> kr_allowed_providers_json := new_json enc f None \<rparr>) =
    r \<lparr> kr_allowed_providers_json := new_json enc f (kr_allowed_providers_json r) \<rparr>"
  using new_json_set [of f enc "kr_allowed_providers_json r"] by (cases "f = Ignore") simp_all

lemma put_bmodels: "(if f = Ignore then r else r \<lparr> kr_blacklisted_models_json := new_json enc f None \<rparr>) =
    r \<lparr> kr_blacklisted_models_json := new_json enc f (kr_blacklisted_models_json r) \<rparr>"
  using new_json_set [of f enc "kr_blacklisted_models_json r"] by (cases "f = Ignore") simp_all

lemmas put_clauses = put_models put_combos put_bproviders put_aproviders put_bmodels

lemma fold_json: "fold (\<lambda>f r. f r) (build_update_json_clauses env p) r = json_row env p r"
  by (cases "up_scopes p")
    (simp_all add: build_update_json_clauses_def Let_def fold_opt_set into_option_case put_clauses)

lemma parse_new_optional:
  assumes "\<And>v. dec (enc v) = Some v" "\<And>v. enc v \<noteq> []" "parse_optional_json dec old d = Inr o'"
  shows "parse_optional_json dec (new_json enc f old) d = Inr (apply_field f o')"
  using assms by (cases f) (simp_all add: new_json_def serialize_update_field_def apply_field_def
      parse_optional_json_def parse_required_json_def)

lemma parse_new_filter:
  assumes "\<And>v. dec (enc v) = Some v" "\<And>v. enc v \<noteq> []"
  shows "parse_json_filter dec (new_json enc f old) = apply_field f (parse_json_filter dec old)"
  using assms by (cases f) (simp_all add: new_json_def serialize_update_field_def apply_field_def
      parse_json_filter_def)

lemma parse_new_scopes:
  assumes "codec_ok env" "parse_required_json (ke_dec_strs env) old d = Inr ss"
  shows "parse_required_json (ke_dec_strs env) (case sc of None \<Rightarrow> old | Some v \<Rightarrow> ke_enc_strs env v) d =
         Inr (case sc of None \<Rightarrow> ss | Some v \<Rightarrow> v)"
  using assms by (cases sc) (simp_all add: parse_required_json_def)

lemma row_to_api_key_split:
  assumes "row_to_api_key env r = Inr k"
  obtains ss ms cs where
    "parse_required_json (ke_dec_strs env) (kr_scopes_json r) ''scopes_json'' = Inr ss"
    "parse_optional_json (ke_dec_strs env) (kr_allowed_models_json r) ''allowed_models_json'' = Inr ms"
    "parse_optional_json (ke_dec_ints env) (kr_allowed_combos_json r) ''allowed_combos_json'' = Inr cs"
  using assms unfolding row_to_api_key_def by (auto split: sum.splits)

lemma updated_row_decodes:
  assumes "codec_ok env" "row_to_api_key env r = Inr k"
  shows "row_to_api_key env (json_row env p (scalar_row env now p r)) = Inr (apply_update env now p k)"
proof -
  from assms(2) obtain ss ms cs where
    ss: "parse_required_json (ke_dec_strs env) (kr_scopes_json r) ''scopes_json'' = Inr ss" and
    ms: "parse_optional_json (ke_dec_strs env) (kr_allowed_models_json r) ''allowed_models_json'' = Inr ms" and
    cs: "parse_optional_json (ke_dec_ints env) (kr_allowed_combos_json r) ''allowed_combos_json'' = Inr cs"
    by (rule row_to_api_key_split)
  have k: "row_to_api_key env r = Inr k" by (rule assms(2))
  note strs = codec_strs(1,2) [OF assms(1)] and ints = codec_strs(3,4) [OF assms(1)]
  show ?thesis
    using k unfolding row_to_api_key_def
    by (auto simp: ss ms cs parse_new_scopes [OF assms(1) ss] parse_new_optional [OF strs ms]
        parse_new_optional [OF ints cs] parse_new_filter [OF strs] apply_update_def
        cong: option.case_cong if_cong)
qed

lemma find_update_row:
  assumes "\<And>r. kr_id (f r) = kr_id r"
  shows "find_key_row (update_row i f kt) j =
         (if j = i then map_option f (find_key_row kt j) else find_key_row kt j)"
proof -
  have "find (\<lambda>r. kr_id r = j) (map (\<lambda>r. if kr_id r = i then f r else r) rs) =
    (if j = i then map_option f (find (\<lambda>r. kr_id r = j) rs) else find (\<lambda>r. kr_id r = j) rs)" for rs
    using assms by (induction rs) auto
  then show ?thesis by (simp add: find_key_row_def update_row_def)
qed

text \<open>
  C20: Editing a key is the edit of the decoded key: the stored row after \<open>update\<close> decodes to the old key
  with exactly the named fields replaced (\<open>null\<close> clears, absent keeps), deactivation stamps
  \<open>revoked_at\<close> once and activation clears it; every other key is untouched.
\<close>

theorem update_refines_edit:
  assumes "codec_ok env" "get_by_id env kt i = Inr (Some k)" "update_key env now i p kt = Inr kt'"
  shows "get_by_id env kt' i = Inr (Some (apply_update env now p k)) \<and>
         (\<forall>j. j \<noteq> i \<longrightarrow> get_by_id env kt' j = get_by_id env kt j)"
proof -
  let ?sets = "build_update_scalar_clauses env now p @ build_update_json_clauses env p"
  let ?f = "\<lambda>r. json_row env p (scalar_row env now p r)"
  have f: "fold (\<lambda>f r. f r) ?sets = ?f" by (rule ext) (simp add: fold_scalar fold_json)
  obtain r where r: "find_key_row kt i = Some r" and k: "row_to_api_key env r = Inr k"
    using assms(2) by (auto simp: get_by_id_def query_key_def split: option.splits sum.splits)
  have f': "?f r = r" if "?sets = []" for r using f that by (metis fold_Nil id_apply)
  have found: "find_key_row kt' j = (if j = i then map_option ?f (find_key_row kt j) else find_key_row kt j)" for j
  proof (cases "?sets = []")
    case True
    then have "kt' = kt" using assms(3) by (auto simp: update_key_def split: if_splits)
    moreover have "?f = (\<lambda>r. r)" using f' [OF True] by (rule ext)
    ultimately show ?thesis by (simp only: option.map_ident if_cancel)
  next
    case False
    then have "kt' = update_row i ?f kt"
      using assms(3) unfolding update_key_def Let_def f by (auto split: if_splits)
    then show ?thesis using find_update_row [of ?f i kt j] by simp
  qed
  show ?thesis
    using updated_row_decodes [OF assms(1) k] by (auto simp: get_by_id_def query_key_def found r)
qed

section \<open>Access as a specification\<close>

text \<open>A pattern is a literal with at most one \<open>*\<close>, at its end or at its start.\<close>

definition glob :: "string \<Rightarrow> string \<Rightarrow> bool" where
  "glob pat name \<longleftrightarrow>
     pat = ''*'' \<or> pat = name \<or> (\<exists>p. pat = p @ ''*'' \<and> prefix p name) \<or> (\<exists>p. pat = ''*'' @ p \<and> suffix p name)"

lemma ends_with_suffix: "ends_with s p \<longleftrightarrow> suffix p s"
proof
  assume "ends_with s p"
  then have "s = take (length s - length p) s @ p"
    unfolding ends_with_def by (metis append_take_drop_id)
  then show "suffix p s" by (metis suffixI)
qed (auto simp: ends_with_def suffix_def)

lemma strip_suffix_star_iff: "strip_suffix_star s = Some p \<longleftrightarrow> s = p @ ''*''"
  unfolding strip_suffix_star_def by (cases s rule: rev_cases) auto

lemma strip_prefix_star_iff: "strip_prefix_star s = Some p \<longleftrightarrow> s = ''*'' @ p"
  by (cases s) (auto simp: strip_prefix_star_def)

lemma matches_model_spec_glob: "matches_model_spec pat name \<longleftrightarrow> glob pat name"
proof -
  have ex: "(case x of Some p \<Rightarrow> Q p | None \<Rightarrow> False) \<longleftrightarrow> (\<exists>p. x = Some p \<and> Q p)" for x :: "string option" and Q
    by (cases x) simp_all
  show ?thesis
    unfolding matches_model_spec_def glob_def ex starts_with_prefix ends_with_suffix
      strip_suffix_star_iff strip_prefix_star_iff by simp
qed

definition provider_prefix :: "string \<Rightarrow> string set" where
  "provider_prefix model = {p. \<exists>m. split_once ''/'' model = Some (p, m)}"

definition effective_providers :: "string \<Rightarrow> string option \<Rightarrow> string set" where
  "effective_providers model prov = (case prov of Some p \<Rightarrow> {p} | None \<Rightarrow> provider_prefix model)"

text \<open>The names a pattern is compared with: as given, without its prefix, and with the provider in front.\<close>

definition model_names :: "string \<Rightarrow> string option \<Rightarrow> string set" where
  "model_names model prov =
     {model} \<union> {m. \<exists>p. split_once ''/'' model = Some (p, m)} \<union>
     {p @ ''/'' @ model |p. p \<in> effective_providers model prov \<and> \<not> prefix (p @ ''/'') model}"

definition listed :: "string list option \<Rightarrow> string set \<Rightarrow> bool" where
  "listed pats names \<longleftrightarrow> (\<exists>ps. pats = Some ps \<and> (\<exists>pat \<in> set ps. \<exists>n \<in> names. glob pat n))"

definition names_provider :: "string list option \<Rightarrow> string set \<Rightarrow> bool" where
  "names_provider pats provs \<longleftrightarrow> (\<exists>ps. pats = Some ps \<and> provs \<noteq> {} \<and> (''*'' \<in> set ps \<or> set ps \<inter> provs \<noteq> {}))"

lemma is_provider_blacklisted_iff: "is_provider_blacklisted l p \<longleftrightarrow> names_provider l (set_option p)"
  by (auto simp: is_provider_blacklisted_def names_provider_def list_ex_iff split: option.splits)

lemma is_provider_in_allowlist_iff:
  "is_provider_in_allowlist l p \<longleftrightarrow> l = None \<or> l = Some [] \<or> names_provider l (set_option p)"
  by (auto simp: is_provider_in_allowlist_def names_provider_def list_ex_iff split: option.splits)

lemma names_provider_union: "names_provider l (a \<union> b) \<longleftrightarrow> names_provider l a \<or> names_provider l b"
  by (auto simp: names_provider_def)

lemma pattern_names:
  assumes "full_id = Option.bind eff (\<lambda>p. if starts_with model (p @ ''/'') then None else Some (p @ ''/'' @ model))"
    and "set_option eff = effective_providers model prov"
    and "bare = (case split_once ''/'' model of None \<Rightarrow> model | Some (p, m) \<Rightarrow> m)"
  shows "model_matches_pattern pat model bare full_id \<longleftrightarrow> (\<exists>n \<in> model_names model prov. glob pat n)"
proof -
  have "set_option full_id = {p @ ''/'' @ model |p. p \<in> effective_providers model prov \<and> \<not> prefix (p @ ''/'') model}"
    using assms(1) by (cases eff) (auto simp: assms(2) [symmetric] starts_with_prefix)
  moreover have "{model, bare} = {model} \<union> {m. \<exists>p. split_once ''/'' model = Some (p, m)}"
    using assms(3) by (auto split: option.splits)
  ultimately have names: "model_names model prov = {model, bare} \<union> set_option full_id"
    unfolding model_names_def by simp
  show ?thesis
    unfolding names model_matches_pattern_def matches_model_spec_glob by (cases full_id) auto
qed


text \<open>
  A provider list restricts providers only by name: a model whose id starts with an allowed provider's
  name passes on any other provider.
\<close>

definition plain_key :: api_key where
  "plain_key = \<lparr> ak_id = 1, ak_key_hash = ''h'', ak_key_prefix = None, ak_label = None, ak_scopes = [''chat''],
     ak_allowed_models = None, ak_allowed_combos = None, ak_blacklisted_providers = None,
     ak_allowed_providers = None, ak_blacklisted_models = None, ak_only_whitelisted = False,
     ak_is_active = True, ak_revoked_at = None, ak_expires_at = None, ak_last_used_at = None,
     ak_created_at = ''t'', ak_created_by = None \<rparr>"

lemma allowlist_prefix_bypass:
  "is_model_allowed (plain_key \<lparr> ak_allowed_providers := Some [''openai''] \<rparr>) ''openai/gpt'' (Some ''openrouter'') \<and>
   \<not> is_provider_allowed (plain_key \<lparr> ak_allowed_providers := Some [''openai''] \<rparr>) ''openrouter''"
  by (simp add: plain_key_def is_model_allowed_def is_provider_allowed_def starts_with_def
      is_model_blocked_by_blacklist_def is_provider_blacklisted_def is_provider_in_allowlist_def)

section \<open>Instances\<close>

text \<open>A codec for lists: every character behind a mark, every item closed by a full stop.\<close>

definition demo_enc :: "string list \<Rightarrow> string" where
  "demo_enc ss = CHR ''['' # concat (map (\<lambda>s. concat (map (\<lambda>c. [CHR ''c'', c]) s) @ ''.'') ss)"

fun demo_items :: "string \<Rightarrow> string \<Rightarrow> string list option" where
  "demo_items acc [] = (if acc = [] then Some [] else None)"
| "demo_items acc [c] = (if c = CHR ''.'' then Some [acc] else None)"
| "demo_items acc (c # d # cs) =
     (if c = CHR ''.'' then map_option ((#) acc) (demo_items [] (d # cs)) else demo_items (acc @ [d]) cs)"

definition demo_dec :: "string \<Rightarrow> string list option" where
  "demo_dec s = (case s of c # cs \<Rightarrow> if c = CHR ''['' then demo_items [] cs else None | [] \<Rightarrow> None)"

lemma demo_items_dot: "demo_items acc (CHR ''.'' # rest) = map_option ((#) acc) (demo_items [] rest)"
  by (cases rest) simp_all

lemma demo_items_item:
  "demo_items acc (concat (map (\<lambda>c. [CHR ''c'', c]) s) @ CHR ''.'' # rest) =
   map_option ((#) (acc @ s)) (demo_items [] rest)"
  by (induction s arbitrary: acc) (simp_all add: demo_items_dot)

lemma demo_dec_enc: "demo_dec (demo_enc ss) = Some ss"
proof -
  have "demo_items [] (concat (map (\<lambda>s. concat (map (\<lambda>c. [CHR ''c'', c]) s) @ ''.'') ss)) = Some ss"
    by (induction ss) (simp_all add: demo_items_item)
  then show ?thesis by (simp add: demo_dec_def demo_enc_def)
qed

definition int_digits :: "int \<Rightarrow> string" where
  "int_digits i = (if 0 \<le> i then replicate (nat i) CHR ''p'' else replicate (nat (- i)) CHR ''n'')"

definition digits_int :: "string \<Rightarrow> int" where
  "digits_int s = (if hd (s @ ''p'') = CHR ''p'' then int (length s) else - int (length s))"

lemma digits_int_digits: "digits_int (int_digits i) = i"
proof (cases "0 \<le> i")
  case True
  then show ?thesis by (cases "nat i") (simp_all add: digits_int_def int_digits_def)
next
  case False
  then obtain n where "nat (- i) = Suc n" by (cases "nat (- i)") auto
  with False show ?thesis by (simp add: digits_int_def int_digits_def)
qed

definition demo_key_env :: key_env where
  "demo_key_env =
     \<lparr> ke_hash = rev, ke_enc_strs = demo_enc, ke_dec_strs = demo_dec,
       ke_enc_ints = demo_enc \<circ> map int_digits, ke_dec_ints = map_option (map digits_int) \<circ> demo_dec,
       ke_parse_timestamp = (\<lambda>s. Some (int (length s))), ke_parse_stamp = (\<lambda>s. Some (int (length s))),
       ke_julian_secs = (\<lambda>s. Some (int (length s))), ke_datetime = (\<lambda>t. replicate (nat t) CHR ''t'') \<rparr>"

lemma demo_codec_ok: "codec_ok demo_key_env"
  by (simp add: codec_ok_def demo_key_env_def demo_dec_enc digits_int_digits comp_def)
    (simp add: demo_enc_def)

definition demo_input :: create_api_key_input where
  "demo_input = \<lparr> ci_label = Some ''ci'', ci_scopes = [''chat''], ci_allowed_models = Some [''gpt*''],
     ci_allowed_combos = Some [3, -4], ci_blacklisted_providers = None, ci_allowed_providers = Some [],
     ci_blacklisted_models = Some [''*:free''], ci_only_whitelisted = True, ci_expires_at = None \<rparr>"

definition demo_table :: key_table where
  "demo_table = \<lparr> kt_rows = [new_key_row demo_key_env 0 ''op_live_x'' demo_input ''admin'' 1], kt_next_id = 2 \<rparr>"

definition demo_key :: api_key where
  "demo_key = \<lparr> ak_id = 1, ak_key_hash = rev ''op_live_x'', ak_key_prefix = Some ''op_live_x'', ak_label = Some ''ci'',
      ak_scopes = [''chat''], ak_allowed_models = Some [''gpt*''], ak_allowed_combos = Some [3, -4],
      ak_blacklisted_providers = None, ak_allowed_providers = Some [],
      ak_blacklisted_models = Some [''*:free''], ak_only_whitelisted = True, ak_is_active = True,
      ak_revoked_at = None, ak_expires_at = None, ak_last_used_at = None, ak_created_at = [],
      ak_created_by = Some ''admin'' \<rparr>"

lemma demo_lookup: "get_by_id demo_key_env demo_table 1 = Inr (Some demo_key)"
  by (simp add: get_by_id_def find_key_row_def query_key_def demo_table_def row_to_api_key_new [OF demo_codec_ok])
    (simp add: demo_key_env_def demo_input_def demo_key_def)

lemma demo_create:
  "create_key demo_key_env 0 ''x'' demo_input ''admin'' empty_keys = Inr (demo_table, demo_key, ''op_live_x'')"
  using demo_lookup
  by (simp add: create_key_def validate_create_def generate_plaintext_def empty_keys_def demo_table_def Let_def)
    (simp add: demo_input_def)

theorem key_table_invariant_witness:
  "\<forall>ops. distinct (map kr_id (kt_rows (fold (key_step demo_key_env) ops empty_keys)))"
  using key_table_invariant [OF demo_codec_ok] by (simp add: Let_def)

theorem created_key_round_trip_witness:
  "get_by_hash demo_key_env demo_table (rev ''op_live_x'') = Inr (Some demo_key)"
  using created_key_round_trip [OF demo_codec_ok keys_ok_empty demo_create]
  by (simp add: demo_key_env_def)

definition demo_update :: update_params where
  "demo_update = \<lparr> up_label = None, up_scopes = None, up_allowed_models = Reset, up_allowed_combos = Ignore,
     up_blacklisted_providers = SetTo [''devin''], up_allowed_providers = Ignore,
     up_blacklisted_models = Ignore, up_only_whitelisted = None, up_is_active = Some False,
     up_expires_at = Ignore \<rparr>"

lemma demo_applied:
  "apply_update demo_key_env 0 demo_update demo_key =
     demo_key \<lparr> ak_allowed_models := None, ak_blacklisted_providers := Some [''devin''],
                ak_is_active := False, ak_revoked_at := Some [] \<rparr>"
  by (simp add: apply_update_def demo_update_def apply_field_def demo_key_def coalesce_def demo_key_env_def)

theorem update_refines_edit_witness:
  "get_by_id demo_key_env (or_keep demo_table (update_key demo_key_env 0 1 demo_update demo_table)) 1 =
     Inr (Some (demo_key \<lparr> ak_allowed_models := None, ak_blacklisted_providers := Some [''devin''],
                           ak_is_active := False, ak_revoked_at := Some [] \<rparr>))"
proof -
  obtain kt' where kt': "update_key demo_key_env 0 1 demo_update demo_table = Inr kt'"
    by (simp add: update_key_def demo_update_def Let_def has_key_def demo_table_def build_update_scalar_clauses_def)
  from update_refines_edit [OF demo_codec_ok demo_lookup this] show ?thesis
    by (simp add: kt' or_keep_def demo_applied)
qed

end
