(* ===== verification/Key_Auth.thy ===== *)
theory Key_Auth
  imports Api_Keys
begin

text \<open>
  The front door of the API (openproxy-server): the in-memory key cache (state/mod.rs), key
  authentication (middleware/auth.rs), the request-rate middleware (middleware/rate_limit.rs) and the
  admin handlers that change keys and drop the cache (handlers/admin/api_keys.rs). A call reads the
  monotonic clock (\<open>ac_instant\<close>, milliseconds) and the calendar clock (\<open>ac_utc\<close>, seconds); an
  undisturbed call reads each once. Tracing and database outages are left out; a row that does not
  decode is an error of the lookup.
\<close>

section \<open>State\<close>

record auth_clock =
  ac_instant :: nat
  ac_utc :: int

type_synonym key_cache = "(string, api_key \<times> nat) hmap"

record gate =
  ga_keys :: key_table
  ga_cache :: key_cache
  ga_allow_anonymous :: bool

abbreviation MAX_API_KEY_CACHE_ENTRIES :: nat where "MAX_API_KEY_CACHE_ENTRIES \<equiv> 5000"
abbreviation KEY_CACHE_TTL :: nat where "KEY_CACHE_TTL \<equiv> 60000"

section \<open>The key cache\<close>

definition get_cached_api_key :: "nat \<Rightarrow> string \<Rightarrow> gate \<Rightarrow> api_key option" where
  "get_cached_api_key t key_hash g =
     (case hm_get (ga_cache g) key_hash of
        None \<Rightarrow> None
      | Some (k, expiry) \<Rightarrow> if t < expiry then Some k else None)"

definition prune_api_key_cache :: "nat \<Rightarrow> gate \<Rightarrow> gate" where
  "prune_api_key_cache t g = g \<lparr> ga_cache := hm_retain (\<lambda>h (k, expiry). t < expiry) (ga_cache g) \<rparr>"

definition cache_api_key :: "string unstable_sorter \<Rightarrow> nat \<Rightarrow> api_key \<Rightarrow> gate \<Rightarrow> gate" where
  "cache_api_key srt t key g =
     (let g1 =
        (if hm_get (ga_cache g) (ak_key_hash key) = None \<and> MAX_API_KEY_CACHE_ENTRIES \<le> length (ga_cache g) then
           (let p = prune_api_key_cache t g in
            if MAX_API_KEY_CACHE_ENTRIES \<le> length (ga_cache p) then
              (let excess = length (ga_cache p) - MAX_API_KEY_CACHE_ENTRIES + 1;
                   entries = srt (map (\<lambda>(h, k, expiry). (expiry, h)) (ga_cache p))
               in p \<lparr> ga_cache := hm_remove_all (map snd (take excess entries)) (ga_cache p) \<rparr>)
            else p)
         else g)
      in g1 \<lparr> ga_cache := hm_put (ak_key_hash key) (key, t + KEY_CACHE_TTL) (ga_cache g1) \<rparr>)"

definition invalidate_api_key_cache :: "string option \<Rightarrow> gate \<Rightarrow> gate" where
  "invalidate_api_key_cache key_hash g =
     (case key_hash of
        Some h \<Rightarrow> g \<lparr> ga_cache := hm_remove h (ga_cache g) \<rparr>
      | None \<Rightarrow> g \<lparr> ga_cache := [] \<rparr>)"

section \<open>Checking a key\<close>

definition validate_key_record_any_scope :: "key_env \<Rightarrow> int \<Rightarrow> api_key \<Rightarrow> string list \<Rightarrow> core_error option" where
  "validate_key_record_any_scope env now key allowed_scopes =
     (if \<not> ak_is_active key then Some (Auth ''api key revoked or inactive'')
      else
        (case (case ak_expires_at key of
                 None \<Rightarrow> Inr False
               | Some e \<Rightarrow> is_key_expired env (Some e) now) of
           Inl _ \<Rightarrow> Some (Internal ''expires_at check'')
         | Inr True \<Rightarrow> Some (Auth ''api key expired'')
         | Inr False \<Rightarrow>
             (if allowed_scopes \<noteq> [] \<and> \<not> list_ex (\<lambda>s. s \<in> set allowed_scopes) (ak_scopes key)
              then Some (Auth ''api key lacks required scope'') else None)))"

definition last_used_needs_stamp :: "key_env \<Rightarrow> int \<Rightarrow> string option \<Rightarrow> bool" where
  "last_used_needs_stamp env now last_used_at =
     (case last_used_at of
        None \<Rightarrow> True
      | Some stamp \<Rightarrow>
          (case ke_parse_stamp env stamp of Some t \<Rightarrow> now - t > LAST_USED_THROTTLE_SECS | None \<Rightarrow> True))"

text \<open>
  The lookup of a token: the cached key, or the row to cache. Reading the row and caching it are two
  steps; other requests may run between them.
\<close>

datatype fetched = Cached api_key | FromDb api_key

definition fetch_key :: "key_env \<Rightarrow> nat \<Rightarrow> string \<Rightarrow> gate \<Rightarrow> core_error + fetched" where
  "fetch_key env t token g =
     (let key_hash = ke_hash env token in
      case get_cached_api_key t key_hash g of
        Some k \<Rightarrow> Inr (Cached k)
      | None \<Rightarrow>
          (case get_by_hash env (ga_keys g) key_hash of
             Inl _ \<Rightarrow> Inl (Auth ''invalid api key'')
           | Inr None \<Rightarrow> Inl (Auth ''invalid api key'')
           | Inr (Some k) \<Rightarrow> Inr (FromDb k)))"

definition store_fetched :: "string unstable_sorter \<Rightarrow> nat \<Rightarrow> fetched \<Rightarrow> gate \<Rightarrow> gate \<times> api_key" where
  "store_fetched srt t f g = (case f of Cached k \<Rightarrow> (g, k) | FromDb k \<Rightarrow> (cache_api_key srt t k g, k))"

definition stamp_last_used :: "key_env \<Rightarrow> string unstable_sorter \<Rightarrow> auth_clock \<Rightarrow> api_key \<Rightarrow> gate \<Rightarrow> gate" where
  "stamp_last_used env srt clk key g =
     (if last_used_needs_stamp env (ac_utc clk) (ak_last_used_at key) then
        cache_api_key srt (ac_instant clk)
          (key \<lparr> ak_last_used_at := Some (ke_datetime env (ac_utc clk)) \<rparr>)
          (g \<lparr> ga_keys := touch_last_used env (ac_utc clk) (ak_id key) (ga_keys g) \<rparr>)
      else g)"

definition verify_key_credentials_any_scope ::
    "key_env \<Rightarrow> string unstable_sorter \<Rightarrow> auth_clock \<Rightarrow> string \<Rightarrow> string list \<Rightarrow> gate \<Rightarrow> gate \<times> (core_error + api_key)" where
  "verify_key_credentials_any_scope env srt clk token allowed_scopes g =
     (case fetch_key env (ac_instant clk) token g of
        Inl e \<Rightarrow> (g, Inl e)
      | Inr f \<Rightarrow>
          (let (g1, key) = store_fetched srt (ac_instant clk) f g in
           case validate_key_record_any_scope env (ac_utc clk) key allowed_scopes of
             Some e \<Rightarrow> (g1, Inl e)
           | None \<Rightarrow> (stamp_last_used env srt clk key g1, Inr key)))"

definition verify_key_credentials ::
    "key_env \<Rightarrow> string unstable_sorter \<Rightarrow> auth_clock \<Rightarrow> string \<Rightarrow> string \<Rightarrow> gate \<Rightarrow> gate \<times> (core_error + api_key)" where
  "verify_key_credentials env srt clk token required_scope =
     verify_key_credentials_any_scope env srt clk token [required_scope]"

section \<open>Authentication\<close>

definition strip_str_prefix :: "string \<Rightarrow> string \<Rightarrow> string option" where
  "strip_str_prefix p s = (if starts_with s p then Some (drop (length p) s) else None)"

definition extract_bearer_or_api_key_token :: "header_map \<Rightarrow> string option" where
  "extract_bearer_or_api_key_token headers =
     Option.bind
       (case map_option trim (Option.bind (header_str headers ''authorization'') (strip_str_prefix ''Bearer '')) of
          Some t \<Rightarrow> Some t
        | None \<Rightarrow> map_option trim (header_str headers ''x-api-key''))
       (\<lambda>t. if t = [] then None else Some t)"

definition check_anonymous_fallback :: "gate \<Rightarrow> core_error + api_key option" where
  "check_anonymous_fallback g =
     (if count_active (ga_keys g) = 0 \<and> ga_allow_anonymous g then Inr None
      else Inl (Auth ''missing api key''))"

definition simulated_key_id :: "header_map \<Rightarrow> int option" where
  "simulated_key_id headers =
     Option.bind
       (case headers ''x-openproxy-api-key-id'' of Some v \<Rightarrow> Some v | None \<Rightarrow> headers ''x-openproxy-key-id'')
       (\<lambda>v. Option.bind (to_str_ok v) (\<lambda>s. parse_i64 (trim s)))"

definition authenticate ::
    "key_env \<Rightarrow> string unstable_sorter \<Rightarrow> auth_clock \<Rightarrow> header_map \<Rightarrow> gate \<Rightarrow> gate \<times> (core_error + api_key option)" where
  "authenticate env srt clk headers g =
     (case extract_bearer_or_api_key_token headers of
        None \<Rightarrow> (g, check_anonymous_fallback g)
      | Some token \<Rightarrow>
          (let (g2, res) =
             (case verify_key_credentials env srt clk token ''chat'' g of
                (g1, Inr k) \<Rightarrow> (g1, Inr k)
              | (g1, Inl e) \<Rightarrow>
                  (case verify_key_credentials env srt clk token ''manage'' g1 of
                     (g2, Inr k) \<Rightarrow> (g2, Inr k)
                   | (g2, Inl _) \<Rightarrow> (g2, Inl e)))
           in case res of
                Inl e \<Rightarrow> (g2, Inl e)
              | Inr key \<Rightarrow>
                  (case (if ''manage'' \<in> set (ak_scopes key) then simulated_key_id headers else None) of
                     None \<Rightarrow> (g2, Inr (Some key))
                   | Some target_key_id \<Rightarrow>
                       (case get_by_id env (ga_keys g2) target_key_id of
                          Inl _ \<Rightarrow> (g2, Inl (Auth ''invalid simulated api key''))
                        | Inr None \<Rightarrow> (g2, Inl (Auth (''api key id #'' @ show_int target_key_id @ '' not found'')))
                        | Inr (Some target_key) \<Rightarrow>
                            (case validate_key_record_any_scope env (ac_utc clk) target_key [''chat''] of
                               Some e \<Rightarrow> (g2, Inl e)
                             | None \<Rightarrow> (g2, Inr (Some target_key)))))))"

section \<open>The request-rate middleware\<close>

record front =
  fr_rate :: rate_limiter
  fr_inflight :: in_flight_limiter
  fr_trusted_proxies :: "string list"

definition rate_key :: "string list \<Rightarrow> header_map \<Rightarrow> ip_addr option \<Rightarrow> api_key option \<Rightarrow> rate_limit_key" where
  "rate_key trusted_proxies headers peer auth =
     (case auth of
        Some k \<Rightarrow> RlKey (ak_id k)
      | None \<Rightarrow>
          RlIp (case resolve_client_ip headers peer trusted_proxies of
                  Some ip \<Rightarrow> ip
                | None \<Rightarrow> (case peer of Some ip \<Rightarrow> ip | None \<Rightarrow> V4 0)))"

text \<open>An admitted request goes on with a guard on its key; a refused one is a 429.\<close>

definition rate_limit_middleware ::
    "rate_limit_key unstable_sorter \<Rightarrow> nat \<times> nat \<times> nat \<Rightarrow> header_map \<Rightarrow> ip_addr option \<Rightarrow> api_key option \<Rightarrow> front \<Rightarrow>
     front \<times> (core_error + rate_limit_key)" where
  "rate_limit_middleware srt clks headers peer auth fr =
     (let rl_key = rate_key (fr_trusted_proxies fr) headers peer auth;
          (t, tc, te) = clks;
          (rate, ok) = rl_check srt t tc te rl_key (fr_rate fr);
          fr1 = fr \<lparr> fr_rate := rate \<rparr>
      in if \<not> ok then (fr1, Inl (RateLimited ''rate_limiter'' 60000 False))
         else
           (let (ifl, granted) = ifl_try_acquire rl_key (fr_inflight fr1);
                fr2 = fr1 \<lparr> fr_inflight := ifl \<rparr>
            in if granted then (fr2, Inr rl_key)
               else (fr2, Inl (RateLimited ''concurrency_limiter'' 1000 False))))"

section \<open>Changing keys\<close>

text \<open>
  The admin handlers: creation caches the new key, every other successful change clears the cache.
\<close>

definition create_api_key ::
    "key_env \<Rightarrow> string unstable_sorter \<Rightarrow> auth_clock \<Rightarrow> string \<Rightarrow> create_api_key_input \<Rightarrow> gate \<Rightarrow>
     gate \<times> (core_error + api_key \<times> string)" where
  "create_api_key env srt clk rnd body g =
     (case create_key env (ac_utc clk) rnd body ''admin'' (ga_keys g) of
        Inl e \<Rightarrow> (g, Inl e)
      | Inr (kt, key, plaintext) \<Rightarrow>
          (cache_api_key srt (ac_instant clk) key (g \<lparr> ga_keys := kt \<rparr>), Inr (key, plaintext)))"

definition changed_keys :: "core_error + key_table \<Rightarrow> gate \<Rightarrow> gate \<times> (core_error + unit)" where
  "changed_keys res g =
     (case res of
        Inl e \<Rightarrow> (g, Inl e)
      | Inr kt \<Rightarrow> (invalidate_api_key_cache None (g \<lparr> ga_keys := kt \<rparr>), Inr ()))"

text \<open>The body of a \<open>PATCH\<close>: an absent field is kept, an array is set, anything else clears the field.\<close>

definition json_strs :: "json list \<Rightarrow> string list" where
  "json_strs a = List.map_filter json_as_str a"

definition extract_tristate_array :: "json \<Rightarrow> string \<Rightarrow> (json \<Rightarrow> 'a option) \<Rightarrow> 'a list update_field" where
  "extract_tristate_array body key extractor =
     (case json_get body key of
        None \<Rightarrow> Ignore
      | Some (JArr a) \<Rightarrow> SetTo (List.map_filter extractor a)
      | Some _ \<Rightarrow> Reset)"

definition json_bool :: "json \<Rightarrow> bool option" where
  "json_bool v = (case v of JBool b \<Rightarrow> Some b | _ \<Rightarrow> None)"

definition update_params_of_json :: "json \<Rightarrow> update_params" where
  "update_params_of_json body =
     \<lparr> up_label = Option.bind (json_get body ''label'') json_as_str,
       up_scopes = (case json_get body ''scopes'' of Some (JArr a) \<Rightarrow> Some (json_strs a) | _ \<Rightarrow> None),
       up_allowed_models = extract_tristate_array body ''allowed_models'' json_as_str,
       up_allowed_combos = extract_tristate_array body ''allowed_combos'' json_as_i64,
       up_blacklisted_providers = extract_tristate_array body ''blacklisted_providers'' json_as_str,
       up_allowed_providers = extract_tristate_array body ''allowed_providers'' json_as_str,
       up_blacklisted_models = extract_tristate_array body ''blacklisted_models'' json_as_str,
       up_only_whitelisted = Option.bind (json_get body ''only_whitelisted'') json_bool,
       up_is_active = Option.bind (json_get body ''is_active'') json_bool,
       up_expires_at = (case json_get body ''expires_at'' of
         None \<Rightarrow> Ignore | Some (JStr t) \<Rightarrow> SetTo t | Some _ \<Rightarrow> Reset) \<rparr>"

definition update_api_key :: "key_env \<Rightarrow> int \<Rightarrow> api_key_id \<Rightarrow> update_params \<Rightarrow> gate \<Rightarrow> gate \<times> (core_error + unit)" where
  "update_api_key env now i p g = changed_keys (update_key env now i p (ga_keys g)) g"

definition revoke_api_key :: "key_env \<Rightarrow> int \<Rightarrow> api_key_id \<Rightarrow> gate \<Rightarrow> gate \<times> (core_error + unit)" where
  "revoke_api_key env now i g = changed_keys (revoke_key env now i (ga_keys g)) g"

definition delete_api_key :: "api_key_id \<Rightarrow> gate \<Rightarrow> gate \<times> (core_error + unit)" where
  "delete_api_key i g = changed_keys (Inr (hard_delete i (ga_keys g))) g"

definition regenerate_api_key ::
    "key_env \<Rightarrow> string \<Rightarrow> api_key_id \<Rightarrow> gate \<Rightarrow> gate \<times> (core_error + api_key \<times> string)" where
  "regenerate_api_key env rnd i g =
     (case regenerate_key env rnd i (ga_keys g) of
        Inl e \<Rightarrow> (g, Inl e)
      | Inr (kt, key, plaintext) \<Rightarrow> (invalidate_api_key_cache None (g \<lparr> ga_keys := kt \<rparr>), Inr (key, plaintext)))"

definition patch_api_key :: "key_env \<Rightarrow> int \<Rightarrow> api_key_id \<Rightarrow> json \<Rightarrow> gate \<Rightarrow> gate \<times> (core_error + unit)" where
  "patch_api_key env now i body g = update_api_key env now i (update_params_of_json body) g"

text \<open>A list given as a bare string does not restrict the key to it: it lifts the restriction.\<close>

lemma malformed_list_lifts_restriction:
  "up_allowed_providers (update_params_of_json (JObj [(''allowed_providers'', JStr ''openai'')])) = Reset"
  by (simp add: update_params_of_json_def extract_tristate_array_def json_get_def)

section \<open>Authenticated requests\<close>

lemma validate_ok_iff:
  "validate_key_record_any_scope env now k sc = None \<longleftrightarrow>
     ak_is_active k \<and> is_key_expired env (ak_expires_at k) now = Inr False \<and>
     (sc = [] \<or> set (ak_scopes k) \<inter> set sc \<noteq> {})"
  by (auto simp: validate_key_record_any_scope_def is_key_expired_def list_ex_iff
      split: option.splits sum.splits bool.splits)

lemma verify_ok:
  assumes "verify_key_credentials_any_scope env srt clk token sc g = (g', Inr k)"
  shows "validate_key_record_any_scope env (ac_utc clk) k sc = None"
  using assms by (auto simp: verify_key_credentials_any_scope_def split: sum.splits prod.splits option.splits)

lemma authenticated_valid:
  assumes "authenticate env srt clk headers g = (g', Inr who)"
  shows "case who of
     Some k \<Rightarrow>
       ak_is_active k \<and> is_key_expired env (ak_expires_at k) (ac_utc clk) = Inr False \<and>
       (''chat'' \<in> set (ak_scopes k) \<or> ''manage'' \<in> set (ak_scopes k))
   | None \<Rightarrow>
       extract_bearer_or_api_key_token headers = None \<and> ga_allow_anonymous g \<and>
       (\<forall>r \<in> set (kt_rows (ga_keys g)). \<not> kr_is_active r)"
  using assms
  by (auto simp: authenticate_def verify_key_credentials_def check_anonymous_fallback_def count_active_def
      filter_empty_conv validate_ok_iff Let_def
      split: option.splits sum.splits prod.splits if_splits dest!: verify_ok)

text \<open>
  A request that passes authentication runs under a key that is active, has not expired and may
  chat or manage; a request without a key passes only when anonymous access is on, no key is active
  and no credential was sent.
\<close>

theorem authenticated_requests_valid:
  assumes "authenticate env srt clk headers g = (g', Inr who)"
  shows "case who of
     Some k \<Rightarrow>
       ak_is_active k \<and> is_key_expired env (ak_expires_at k) (ac_utc clk) = Inr False \<and>
       (''chat'' \<in> set (ak_scopes k) \<or> ''manage'' \<in> set (ak_scopes k))
   | None \<Rightarrow>
       extract_bearer_or_api_key_token headers = None \<and> ga_allow_anonymous g \<and>
       (\<forall>r \<in> set (kt_rows (ga_keys g)). \<not> kr_is_active r)"
  by (rule authenticated_valid [OF assms])

section \<open>The cache does not change the answer\<close>

definition same_key :: "api_key \<Rightarrow> api_key \<Rightarrow> bool" where
  "same_key a b \<longleftrightarrow> a \<lparr> ak_last_used_at := None \<rparr> = b \<lparr> ak_last_used_at := None \<rparr>"

lemma same_key_refl [simp]: "same_key k k"
  by (simp add: same_key_def)

lemma same_key_trans: "same_key a b \<Longrightarrow> same_key b c \<Longrightarrow> same_key a c"
  by (simp add: same_key_def)

lemma same_key_sym: "same_key a b \<Longrightarrow> same_key b a"
  by (simp add: same_key_def)

lemma same_key_stamp [simp]: "same_key (k \<lparr> ak_last_used_at := s \<rparr>) k" "same_key k (k \<lparr> ak_last_used_at := s \<rparr>)"
  by (simp_all add: same_key_def)

lemma same_key_fields:
  assumes "same_key a b"
  shows "ak_key_hash a = ak_key_hash b" "ak_is_active a = ak_is_active b" "ak_expires_at a = ak_expires_at b"
    "ak_scopes a = ak_scopes b" "ak_id a = ak_id b"
  using assms by (cases a; cases b; simp add: same_key_def)+

lemma validate_same: "same_key a b \<Longrightarrow>
    validate_key_record_any_scope env now a sc = validate_key_record_any_scope env now b sc"
  by (simp add: validate_key_record_any_scope_def same_key_fields)

text \<open>The reference: the row decides.\<close>

definition verify_uncached :: "key_env \<Rightarrow> int \<Rightarrow> string \<Rightarrow> string list \<Rightarrow> key_table \<Rightarrow> core_error + api_key" where
  "verify_uncached env now token sc kt =
     (case get_by_hash env kt (ke_hash env token) of
        Inr (Some k) \<Rightarrow> (case validate_key_record_any_scope env now k sc of Some e \<Rightarrow> Inl e | None \<Rightarrow> Inr k)
      | _ \<Rightarrow> Inl (Auth ''invalid api key''))"

definition same_answer :: "core_error + api_key \<Rightarrow> core_error + api_key \<Rightarrow> bool" where
  "same_answer a b \<longleftrightarrow>
     (case (a, b) of (Inl e, Inl f) \<Rightarrow> e = f | (Inr k, Inr l) \<Rightarrow> same_key k l | _ \<Rightarrow> False)"

definition gate_ok :: "key_env \<Rightarrow> gate \<Rightarrow> bool" where
  "gate_ok env g \<longleftrightarrow>
     keys_ok env (ga_keys g) \<and> hm_ok (ga_cache g) \<and>
     (\<forall>h k x. hm_get (ga_cache g) h = Some (k, x) \<longrightarrow>
        (\<exists>l. get_by_hash env (ga_keys g) h = Inr (Some l) \<and> same_key k l))"

lemma gate_ok_no_cache: "keys_ok env kt \<Longrightarrow> gate_ok env (g \<lparr> ga_keys := kt, ga_cache := [] \<rparr>)"
  by (simp add: gate_ok_def)

lemma get_by_hash_hash:
  "get_by_hash env kt h = Inr (Some k) \<Longrightarrow> ak_key_hash k = h"
  by (auto simp: get_by_hash_def query_key_def row_to_api_key_def find_Some_iff
      split: option.splits sum.splits)

lemma ga_keys_cache [simp]:
  "ga_keys (cache_api_key srt t k g) = ga_keys g"
  "ga_keys (prune_api_key_cache t g) = ga_keys g"
  by (simp_all add: cache_api_key_def prune_api_key_cache_def Let_def)

lemma cache_get:
  assumes "hm_ok (ga_cache g)"
    and "hm_get (ga_cache (cache_api_key srt t key g)) h = Some (k, x)"
  shows "h = ak_key_hash key \<and> k = key \<or> h \<noteq> ak_key_hash key \<and> hm_get (ga_cache g) h = Some (k, x)"
  using assms
  by (auto simp: cache_api_key_def prune_api_key_cache_def Let_def hm_simps split: if_splits option.splits)

lemma cache_hm_ok: "hm_ok (ga_cache g) \<Longrightarrow> hm_ok (ga_cache (cache_api_key srt t key g))"
  by (simp add: cache_api_key_def prune_api_key_cache_def Let_def)

lemma gate_ok_cache:
  assumes "gate_ok env g" "get_by_hash env (ga_keys g) (ak_key_hash key) = Inr (Some l)" "same_key key l"
  shows "gate_ok env (cache_api_key srt t key g)"
  using assms cache_hm_ok [of g srt t key] unfolding gate_ok_def
  by (auto dest!: cache_get [rotated])

lemma row_stamp:
  "row_to_api_key env (r \<lparr> kr_last_used_at := x \<rparr>) = map_sum id (\<lambda>k. k \<lparr> ak_last_used_at := x \<rparr>) (row_to_api_key env r)"
  by (auto simp: row_to_api_key_def split: sum.splits)

lemma find_map_hash:
  "(\<And>r. kr_key_hash (f r) = kr_key_hash r) \<Longrightarrow>
   find (\<lambda>r. kr_key_hash r = h) (map f rs) = map_option f (find (\<lambda>r. kr_key_hash r = h) rs)"
  by (induction rs) auto

lemma get_by_hash_touch:
  assumes "get_by_hash env kt h = Inr (Some k)"
  shows "\<exists>k'. get_by_hash env (touch_last_used env now i kt) h = Inr (Some k') \<and> same_key k k'"
proof -
  define f :: "key_row \<Rightarrow> key_row" where "f = (\<lambda>r. if kr_id r = i then
      (if (case kr_last_used_at r of None \<Rightarrow> True
           | Some s \<Rightarrow> (case ke_julian_secs env s of None \<Rightarrow> False | Some t \<Rightarrow> now - t > 300))
       then r \<lparr> kr_last_used_at := Some (ke_datetime env now) \<rparr> else r) else r)"
  obtain r where r: "find (\<lambda>r. kr_key_hash r = h) (kt_rows kt) = Some r" "row_to_api_key env r = Inr k"
    using assms by (auto simp: get_by_hash_def query_key_def split: option.splits sum.splits)
  have rows: "kt_rows (touch_last_used env now i kt) = map f (kt_rows kt)"
    by (simp add: touch_last_used_def update_row_def f_def)
  have "find (\<lambda>r. kr_key_hash r = h) (map f (kt_rows kt)) = Some (f r)"
    using r(1) by (subst find_map_hash) (auto simp: f_def)
  moreover have "\<exists>k'. row_to_api_key env (f r) = Inr k' \<and> same_key k k'"
    using r(2) by (auto simp: f_def row_stamp)
  ultimately show ?thesis unfolding get_by_hash_def rows by (auto simp: query_key_def)
qed

lemma keys_ok_touch: "codec_ok env \<Longrightarrow> keys_ok env kt \<Longrightarrow> keys_ok env (touch_last_used env now i kt)"
  using key_step_ok [of env kt "OpTouch now i"] by simp

lemma gate_ok_touch:
  assumes "codec_ok env" "gate_ok env g"
  shows "gate_ok env (g \<lparr> ga_keys := touch_last_used env now i (ga_keys g) \<rparr>)"
proof -
  have "\<exists>l. get_by_hash env (touch_last_used env now i (ga_keys g)) h = Inr (Some l) \<and> same_key k l"
    if "hm_get (ga_cache g) h = Some (k, x)" for h k x
    using that assms(2) get_by_hash_touch [of env "ga_keys g" h] same_key_trans
    unfolding gate_ok_def by metis
  then show ?thesis using assms by (auto simp: gate_ok_def keys_ok_touch)
qed

lemma gate_ok_stamp:
  assumes "codec_ok env" "gate_ok env g"
    and "get_by_hash env (ga_keys g) (ak_key_hash key) = Inr (Some l)" "same_key key l"
  shows "gate_ok env (stamp_last_used env srt clk key g)"
proof -
  obtain l' where "get_by_hash env (touch_last_used env (ac_utc clk) (ak_id key) (ga_keys g)) (ak_key_hash key) =
      Inr (Some l')" "same_key l l'"
    using get_by_hash_touch [OF assms(3)] by blast
  moreover have "same_key (key \<lparr> ak_last_used_at := s \<rparr>) l'" for s
    using assms(4) \<open>same_key l l'\<close> same_key_trans same_key_stamp(1) by metis
  ultimately show ?thesis
    using gate_ok_touch [OF assms(1,2)] assms(2) unfolding stamp_last_used_def
    by (auto intro!: gate_ok_cache)
qed

text \<open>What a lookup returns is the row, up to its usage stamp.\<close>

lemma fetch_key_ok:
  assumes "gate_ok env g"
  shows "case fetch_key env t token g of
     Inl e \<Rightarrow> e = Auth ''invalid api key'' \<and>
              (\<forall>k. get_by_hash env (ga_keys g) (ke_hash env token) \<noteq> Inr (Some k))
   | Inr f \<Rightarrow> (\<exists>l. get_by_hash env (ga_keys g) (ke_hash env token) = Inr (Some l) \<and>
                same_key (case f of Cached k \<Rightarrow> k | FromDb k \<Rightarrow> k) l)"
  using assms by (auto simp: fetch_key_def get_cached_api_key_def gate_ok_def Let_def
      split: option.splits sum.splits if_splits prod.splits)

lemma store_fetched_ok:
  assumes "gate_ok env g" "store_fetched srt t f g = (g1, key)"
    and "get_by_hash env (ga_keys g) h = Inr (Some l)" "same_key (case f of Cached k \<Rightarrow> k | FromDb k \<Rightarrow> k) l"
  shows "gate_ok env g1 \<and> ga_keys g1 = ga_keys g \<and> same_key key l \<and> ak_key_hash key = h"
  using assms get_by_hash_hash [OF assms(3)] same_key_fields(1) [OF assms(4)]
  by (auto simp: store_fetched_def split: fetched.splits intro!: gate_ok_cache)

lemma verify_transparent:
  assumes "codec_ok env" "gate_ok env g"
  shows "gate_ok env (fst (verify_key_credentials_any_scope env srt clk token sc g)) \<and>
         same_answer (snd (verify_key_credentials_any_scope env srt clk token sc g))
           (verify_uncached env (ac_utc clk) token sc (ga_keys g))"
proof (cases "fetch_key env (ac_instant clk) token g")
  case (Inl e)
  then show ?thesis
    using fetch_key_ok [OF assms(2), where t = "ac_instant clk" and token = token] assms(2)
    by (auto simp: verify_key_credentials_any_scope_def verify_uncached_def same_answer_def
        split: sum.splits option.splits)
next
  case (Inr f)
  obtain l where l: "get_by_hash env (ga_keys g) (ke_hash env token) = Inr (Some l)"
    "same_key (case f of Cached k \<Rightarrow> k | FromDb k \<Rightarrow> k) l"
    using fetch_key_ok [OF assms(2), where t = "ac_instant clk" and token = token] Inr by auto
  obtain g1 key where s: "store_fetched srt (ac_instant clk) f g = (g1, key)" by (cases "store_fetched srt (ac_instant clk) f g")
  note ok = store_fetched_ok [OF assms(2) s l]
  have "gate_ok env (stamp_last_used env srt clk key g1)"
    using ok l(1) by (intro gate_ok_stamp [OF assms(1)]) auto
  then show ?thesis
    using ok l(1) validate_same [of key l] Inr s
    by (auto simp: verify_key_credentials_any_scope_def verify_uncached_def same_answer_def split: option.splits)
qed

subsection \<open>Every sequence of requests and changes\<close>

datatype gate_op =
    GVerify auth_clock string "string list"
  | GCreate auth_clock string create_api_key_input
  | GUpdate int api_key_id update_params
  | GRevoke int api_key_id
  | GDelete api_key_id
  | GRegenerate string api_key_id
  | GPrune nat

fun gate_step :: "key_env \<Rightarrow> string unstable_sorter \<Rightarrow> gate_op \<Rightarrow> gate \<Rightarrow> gate" where
  "gate_step env srt (GVerify clk token sc) g = fst (verify_key_credentials_any_scope env srt clk token sc g)"
| "gate_step env srt (GCreate clk rnd body) g = fst (create_api_key env srt clk rnd body g)"
| "gate_step env srt (GUpdate now i p) g = fst (update_api_key env now i p g)"
| "gate_step env srt (GRevoke now i) g = fst (revoke_api_key env now i g)"
| "gate_step env srt (GDelete i) g = fst (delete_api_key i g)"
| "gate_step env srt (GRegenerate rnd i) g = fst (regenerate_api_key env rnd i g)"
| "gate_step env srt (GPrune t) g = prune_api_key_cache t g"

lemma gate_ok_create:
  assumes "codec_ok env" "gate_ok env g"
  shows "gate_ok env (fst (create_api_key env srt clk rnd body g))"
proof (cases "create_key env (ac_utc clk) rnd body ''admin'' (ga_keys g)")
  case (Inl e)
  then show ?thesis using assms(2) by (simp add: create_api_key_def)
next
  case (Inr res)
  obtain kt key pt where res: "res = (kt, key, pt)" by (cases res)
  have ok: "keys_ok env (ga_keys g)" using assms(2) by (simp add: gate_ok_def)
  note c = Inr [unfolded res]
  note look = created_key_lookup [OF assms(1) ok c]
  have fresh: "get_by_hash env (ga_keys g) (ke_hash env pt) = Inr None"
    using create_rows(3) [OF c]
    by (auto simp: get_by_hash_def query_key_def image_iff find_Some_iff split: option.splits) (metis nth_mem)
  have "gate_ok env (g \<lparr> ga_keys := kt \<rparr>)"
  proof -
    have "\<exists>l. get_by_hash env kt h = Inr (Some l) \<and> same_key k l" if "hm_get (ga_cache g) h = Some (k, x)" for h k x
    proof -
      from that assms(2) obtain l where l: "get_by_hash env (ga_keys g) h = Inr (Some l)" "same_key k l"
        by (auto simp: gate_ok_def)
      then have "h \<noteq> ke_hash env pt" using fresh by auto
      then show ?thesis using l look(3) by simp
    qed
    then show ?thesis using assms(2) keys_ok_create [OF assms(1) ok c] by (auto simp: gate_ok_def)
  qed
  then show ?thesis
    using look(1) get_by_hash_hash [OF look(1)] c
    by (auto simp: create_api_key_def intro!: gate_ok_cache)
qed

lemma gate_ok_changed:
  assumes "gate_ok env g" "keys_ok env (or_keep (ga_keys g) res)"
  shows "gate_ok env (fst (changed_keys res g))"
  using assms by (cases res) (simp_all add: changed_keys_def invalidate_api_key_cache_def or_keep_def gate_ok_def)

lemma gate_step_ok:
  assumes "codec_ok env" "gate_ok env g"
  shows "gate_ok env (gate_step env srt oper g)"
proof (cases oper)
  case (GVerify clk token sc)
  then show ?thesis using verify_transparent [OF assms] by simp
next
  case (GCreate clk rnd body)
  then show ?thesis using gate_ok_create [OF assms] by simp
next
  case (GUpdate now i p)
  then show ?thesis
    using gate_ok_changed [OF assms(2)] key_step_ok [OF assms(1), of "ga_keys g" "OpUpdate now i p"] assms(2)
    by (simp add: update_api_key_def gate_ok_def)
next
  case (GRevoke now i)
  then show ?thesis
    using gate_ok_changed [OF assms(2)] key_step_ok [OF assms(1), of "ga_keys g" "OpRevoke now i"] assms(2)
    by (simp add: revoke_api_key_def gate_ok_def)
next
  case (GDelete i)
  then show ?thesis
    using gate_ok_changed [OF assms(2), of "Inr (hard_delete i (ga_keys g))"] keys_ok_delete [of env "ga_keys g" i] assms(2)
    by (simp add: delete_api_key_def or_keep_def gate_ok_def)
next
  case (GRegenerate rnd i)
  have ok: "keys_ok env (ga_keys g)" using assms(2) by (simp add: gate_ok_def)
  show ?thesis
    using keys_ok_regenerate [OF ok, of rnd i] assms(2) unfolding GRegenerate
    by (auto simp: regenerate_api_key_def invalidate_api_key_cache_def gate_ok_def split: sum.splits)
next
  case (GPrune t)
  then show ?thesis using assms(2)
    by (auto simp: gate_ok_def prune_api_key_cache_def hm_simps split: option.splits if_splits)
qed

lemma gate_run_ok: "codec_ok env \<Longrightarrow> gate_ok env g \<Longrightarrow> gate_ok env (fold (gate_step env srt) ops g)"
  by (induction ops arbitrary: g) (simp_all add: gate_step_ok)

definition fresh_gate :: "bool \<Rightarrow> gate" where
  "fresh_gate anon = \<lparr> ga_keys = empty_keys, ga_cache = [], ga_allow_anonymous = anon \<rparr>"

lemma gate_ok_fresh: "gate_ok env (fresh_gate anon)"
  by (simp add: gate_ok_def fresh_gate_def keys_ok_empty)

text \<open>
  C4: The key cache is transparent: after any sequence of checks, creations, edits, revocations,
  deletions, regenerations and sweeps, checking a token through the cache gives the answer the stored
  row gives, up to the usage stamp. So a revoked, deleted, edited or regenerated key takes effect on
  the next request.
\<close>

theorem key_cache_transparent:
  assumes "codec_ok env" and "g = fold (gate_step env srt) ops (fresh_gate anon)"
  shows "same_answer (snd (verify_key_credentials_any_scope env srt clk token sc g))
           (verify_uncached env (ac_utc clk) token sc (ga_keys g))"
  unfolding assms(2) using verify_transparent [OF assms(1) gate_run_ok [OF assms(1) gate_ok_fresh]] by simp

theorem key_cache_transparent_witness:
  "\<forall>clk token sc.
     same_answer (snd (verify_key_credentials_any_scope demo_key_env (sort_key fst) clk token sc
         (gate_step demo_key_env (sort_key fst) (GRevoke 5 1)
           (gate_step demo_key_env (sort_key fst) (GCreate \<lparr> ac_instant = 0, ac_utc = 0 \<rparr> ''x'' demo_input) (fresh_gate False)))))
       (verify_uncached demo_key_env (ac_utc clk) token sc
         (ga_keys (gate_step demo_key_env (sort_key fst) (GRevoke 5 1)
           (gate_step demo_key_env (sort_key fst) (GCreate \<lparr> ac_instant = 0, ac_utc = 0 \<rparr> ''x'' demo_input) (fresh_gate False)))))"
  using key_cache_transparent [OF demo_codec_ok,
      of _ "sort_key fst" "[GCreate \<lparr> ac_instant = 0, ac_utc = 0 \<rparr> ''x'' demo_input, GRevoke 5 1]" False]
  by simp

subsection \<open>Revocation\<close>

lemma revoked_row:
  assumes "get_by_hash env kt h = Inr (Some k)" "keys_ok env kt" "revoke_key env now (ak_id k) kt = Inr kt'"
  shows "\<exists>k'. get_by_hash env kt' h = Inr (Some k') \<and> \<not> ak_is_active k'"
proof -
  define f :: "key_row \<Rightarrow> key_row" where
    "f = (\<lambda>r. r \<lparr> kr_is_active := False, kr_revoked_at := coalesce (kr_revoked_at r) (ke_datetime env now) \<rparr>)"
  obtain r where r: "find (\<lambda>r. kr_key_hash r = h) (kt_rows kt) = Some r" and k: "row_to_api_key env r = Inr k"
    using assms(1) by (auto simp: get_by_hash_def query_key_def split: option.splits sum.splits)
  have id: "ak_id k = kr_id r" using k by (auto simp: row_to_api_key_def split: sum.splits)
  have rows: "kt_rows kt' = map (\<lambda>r. if kr_id r = ak_id k then f r else r) (kt_rows kt)"
    using assms(3) by (auto simp: revoke_key_def update_row_def f_def split: if_splits)
  have "find (\<lambda>r. kr_key_hash r = h) (kt_rows kt') = Some (f r)"
    unfolding rows using r id by (subst find_map_hash) (auto simp: f_def)
  moreover obtain k' where "row_to_api_key env (f r) = Inr k'" "\<not> ak_is_active k'"
    using k by (auto simp: f_def row_to_api_key_def split: sum.splits)
  ultimately show ?thesis by (auto simp: get_by_hash_def query_key_def)
qed

definition refused :: "core_error + api_key \<Rightarrow> bool" where
  "refused res = (case res of Inl _ \<Rightarrow> True | Inr _ \<Rightarrow> False)"

lemma ga_keys_verify:
  assumes "get_by_hash env (ga_keys g) h = Inr (Some k)"
  shows "\<exists>k'. get_by_hash env (ga_keys (fst (verify_key_credentials_any_scope env srt clk token sc g))) h = Inr (Some k') \<and>
              same_key k k'"
proof -
  have "ga_keys (fst (verify_key_credentials_any_scope env srt clk token sc g)) = ga_keys g \<or>
    (\<exists>now i. ga_keys (fst (verify_key_credentials_any_scope env srt clk token sc g)) =
       touch_last_used env now i (ga_keys g))"
    by (auto simp: verify_key_credentials_any_scope_def store_fetched_def stamp_last_used_def
        split: sum.splits option.splits fetched.splits prod.splits)
  then show ?thesis using assms get_by_hash_touch [OF assms] by (auto intro: exI [of _ k])
qed

lemma inactive_refused:
  assumes "codec_ok env" "gate_ok env g" "get_by_hash env (ga_keys g) (ke_hash env token) = Inr (Some k)" "\<not> ak_is_active k"
  shows "refused (snd (verify_key_credentials_any_scope env srt clk token sc g))"
  using verify_transparent [OF assms(1,2), where token = token and clk = clk and sc = sc and srt = srt] assms(3,4)
  by (auto simp: verify_uncached_def validate_key_record_any_scope_def same_answer_def refused_def split: sum.splits)


section \<open>Instances\<close>

definition demo_gate :: gate where
  "demo_gate = fold (gate_step demo_key_env (sort_key fst))
     [GCreate \<lparr> ac_instant = 0, ac_utc = 0 \<rparr> ''x'' demo_input] (fresh_gate False)"

lemma demo_gate_eq:
  "demo_gate = \<lparr> ga_keys = demo_table, ga_cache = [(rev ''op_live_x'', demo_key, 60000)], ga_allow_anonymous = False \<rparr>"
  by (simp add: demo_gate_def fresh_gate_def create_api_key_def demo_create cache_api_key_def hm_put_def)
    (simp add: demo_key_def)

lemma demo_hash: "ke_hash demo_key_env ''op_live_x'' = rev ''op_live_x''"
  by (simp add: demo_key_env_def)

lemma demo_by_hash: "get_by_hash demo_key_env demo_table (rev ''op_live_x'') = Inr (Some demo_key)"
  using created_key_lookup(1) [OF demo_codec_ok keys_ok_empty demo_create] by (simp only: demo_hash)

lemma demo_revoke:
  "\<exists>kt. revoke_api_key demo_key_env 5 1 (g \<lparr> ga_keys := demo_table \<rparr>) =
     (g \<lparr> ga_keys := kt, ga_cache := [] \<rparr>, Inr ())"
  by (simp add: revoke_api_key_def revoke_key_def has_key_def demo_table_def changed_keys_def
      invalidate_api_key_cache_def) metis


definition bearer_headers :: header_map where
  "bearer_headers name = (if name = ''authorization'' then Some (Visible ''Bearer op_live_x'') else None)"

lemma trim_token: "trim ''op_live_x'' = ''op_live_x''"
  by code_simp

lemma bearer_token: "extract_bearer_or_api_key_token bearer_headers = Some ''op_live_x''"
  by (simp add: extract_bearer_or_api_key_token_def bearer_headers_def header_str_def to_str_ok_def
      strip_str_prefix_def starts_with_def trim_token)

lemma demo_valid: "validate_key_record_any_scope demo_key_env now demo_key [''chat''] = None"
  by (simp add: validate_ok_iff demo_key_def is_key_expired_def)

lemma demo_verify:
  "\<exists>g. verify_key_credentials demo_key_env (sort_key fst) \<lparr> ac_instant = 1, ac_utc = 0 \<rparr> ''op_live_x'' ''chat'' demo_gate =
     (g, Inr demo_key)"
proof -
  have "fetch_key demo_key_env 1 ''op_live_x'' demo_gate = Inr (Cached demo_key)"
    unfolding fetch_key_def demo_hash
    by (simp add: get_cached_api_key_def demo_gate_eq hm_get_def)
  then show ?thesis
    by (simp add: verify_key_credentials_def verify_key_credentials_any_scope_def store_fetched_def demo_valid)
qed

lemma demo_authenticated:
  "\<exists>g. authenticate demo_key_env (sort_key fst) \<lparr> ac_instant = 1, ac_utc = 0 \<rparr> bearer_headers demo_gate =
     (g, Inr (Some demo_key))"
proof -
  obtain g where "verify_key_credentials demo_key_env (sort_key fst) \<lparr> ac_instant = 1, ac_utc = 0 \<rparr> ''op_live_x'' ''chat'' demo_gate =
     (g, Inr demo_key)" using demo_verify by blast
  then show ?thesis by (simp add: authenticate_def bearer_token demo_key_def)
qed

theorem authenticated_requests_valid_witness:
  "ak_is_active demo_key \<and> is_key_expired demo_key_env (ak_expires_at demo_key) 0 = Inr False \<and>
   (''chat'' \<in> set (ak_scopes demo_key) \<or> ''manage'' \<in> set (ak_scopes demo_key))"
proof -
  obtain g where "authenticate demo_key_env (sort_key fst) \<lparr> ac_instant = 1, ac_utc = 0 \<rparr> bearer_headers demo_gate =
     (g, Inr (Some demo_key))" using demo_authenticated by blast
  from authenticated_requests_valid [OF this] show ?thesis by simp
qed

text \<open>
  Between reading a row and caching it another request may revoke the key. The revocation clears the
  cache, the slower request then caches the row it had read, and the revoked key passes for a minute.
\<close>

lemma revocation_race:
  "\<exists>f g1. fetch_key demo_key_env 0 ''op_live_x'' (fresh_gate False \<lparr> ga_keys := demo_table \<rparr>) = Inr f \<and>
     revoke_api_key demo_key_env 5 1 (fresh_gate False \<lparr> ga_keys := demo_table \<rparr>) = (g1, Inr ()) \<and>
     \<not> refused (snd (verify_key_credentials demo_key_env (sort_key fst) \<lparr> ac_instant = 1, ac_utc = 5 \<rparr>
         ''op_live_x'' ''chat'' (fst (store_fetched (sort_key fst) 0 f g1))))"
proof -
  let ?g = "fresh_gate False \<lparr> ga_keys := demo_table \<rparr>"
  have f: "fetch_key demo_key_env 0 ''op_live_x'' ?g = Inr (FromDb demo_key)"
    unfolding fetch_key_def demo_hash using demo_by_hash
    by (simp add: get_cached_api_key_def fresh_gate_def hm_get_def)
  obtain kt where g1: "revoke_api_key demo_key_env 5 1 ?g = (fresh_gate False \<lparr> ga_keys := kt, ga_cache := [] \<rparr>, Inr ())"
    using demo_revoke [of "fresh_gate False"] by blast
  let ?g2 = "fst (store_fetched (sort_key fst) 0 (FromDb demo_key) (fresh_gate False \<lparr> ga_keys := kt, ga_cache := [] \<rparr>))"
  have "ga_cache ?g2 = [(rev ''op_live_x'', demo_key, 60000)]"
    by (simp add: store_fetched_def cache_api_key_def hm_put_def) (simp add: demo_key_def)
  then have "fetch_key demo_key_env 1 ''op_live_x'' ?g2 = Inr (Cached demo_key)"
    unfolding fetch_key_def demo_hash by (simp add: get_cached_api_key_def hm_get_def)
  then have "\<not> refused (snd (verify_key_credentials demo_key_env (sort_key fst) \<lparr> ac_instant = 1, ac_utc = 5 \<rparr>
      ''op_live_x'' ''chat'' ?g2))"
    by (simp add: verify_key_credentials_def verify_key_credentials_any_scope_def store_fetched_def [of _ _ "Cached demo_key"]
        demo_valid refused_def)
  with f g1 show ?thesis by blast
qed

end
