(* ===== verification/Admin_Auth.thy ===== *)
theory Admin_Auth
  imports Key_Auth
begin

text \<open>
  The admin API's own gate: the failed-login throttle and the scope guard of
  \<open>admin_auth_middleware\<close> (openproxy-server/src/handlers/admin/auth.rs) and the single-use WebSocket
  tickets (state/ws_tickets.rs). The authentication bypass behind the non-default cargo feature
  \<open>dev-auth-bypass\<close> is not part of the model, so an identity always has a key.
\<close>

section \<open>Tickets\<close>

abbreviation TICKET_TTL :: nat where "TICKET_TTL \<equiv> 30000"
abbreviation MAX_OUTSTANDING :: nat where "MAX_OUTSTANDING \<equiv> 1024"
abbreviation PRUNE_INTERVAL_SECS :: nat where "PRUNE_INTERVAL_SECS \<equiv> 15"

record ws_ticket =
  wt_key_id :: api_key_id
  wt_expires_at :: nat

record ws_ticket_store =
  ws_tickets :: "(string, ws_ticket) hmap"
  ws_last_prune_secs :: nat

definition ws_new :: "nat \<Rightarrow> ws_ticket_store" where
  "ws_new now_secs = \<lparr> ws_tickets = [], ws_last_prune_secs = now_secs \<rparr>"

definition ws_prune_expired :: "nat \<Rightarrow> nat \<Rightarrow> ws_ticket_store \<Rightarrow> ws_ticket_store" where
  "ws_prune_expired now_secs t s =
     s \<lparr> ws_last_prune_secs := now_secs,
         ws_tickets := hm_retain (\<lambda>_ tk. t < wt_expires_at tk) (ws_tickets s) \<rparr>"

definition issue_ticket ::
    "nat \<Rightarrow> nat \<Rightarrow> string \<Rightarrow> api_key_id \<Rightarrow> ws_ticket_store \<Rightarrow> ws_ticket_store \<times> string option" where
  "issue_ticket now_secs t rnd key_id s0 =
     (let s = (if MAX_OUTSTANDING \<le> length (ws_tickets s0) \<or>
                  PRUNE_INTERVAL_SECS \<le> now_secs - ws_last_prune_secs s0
               then ws_prune_expired now_secs t s0 else s0)
      in if MAX_OUTSTANDING \<le> length (ws_tickets s) then (s, None)
         else (s \<lparr> ws_tickets :=
                 hm_put rnd \<lparr> wt_key_id = key_id, wt_expires_at = t + TICKET_TTL \<rparr> (ws_tickets s) \<rparr>, Some rnd))"

definition consume_ticket :: "nat \<Rightarrow> string \<Rightarrow> ws_ticket_store \<Rightarrow> ws_ticket_store \<times> api_key_id option" where
  "consume_ticket t ticket s =
     (case hm_get (ws_tickets s) ticket of
        None \<Rightarrow> (s, None)
      | Some tk \<Rightarrow>
          (s \<lparr> ws_tickets := hm_remove ticket (ws_tickets s) \<rparr>,
           if t < wt_expires_at tk then Some (wt_key_id tk) else None))"

definition live_tickets :: "nat \<Rightarrow> nat \<Rightarrow> ws_ticket_store \<Rightarrow> ws_ticket_store \<times> nat" where
  "live_tickets now_secs t s = (let s' = ws_prune_expired now_secs t s in (s', length (ws_tickets s')))"

datatype ticket_op = Issue nat nat string api_key_id | Consume nat string | CountLive nat nat

text \<open>How often a ticket is redeemed, and how often it is handed out.\<close>

fun redeemed :: "string \<Rightarrow> ticket_op list \<Rightarrow> ws_ticket_store \<Rightarrow> nat" where
  "redeemed tk [] s = 0"
| "redeemed tk (Issue n t rnd k # ops) s = redeemed tk ops (fst (issue_ticket n t rnd k s))"
| "redeemed tk (CountLive n t # ops) s = redeemed tk ops (fst (live_tickets n t s))"
| "redeemed tk (Consume t x # ops) s =
     (case consume_ticket t x s of
        (s', Some k) \<Rightarrow> (if x = tk then 1 else 0) + redeemed tk ops s'
      | (s', None) \<Rightarrow> redeemed tk ops s')"

fun handed_out :: "string \<Rightarrow> ticket_op list \<Rightarrow> ws_ticket_store \<Rightarrow> nat" where
  "handed_out tk [] s = 0"
| "handed_out tk (Issue n t rnd k # ops) s =
     (case issue_ticket n t rnd k s of
        (s', Some x) \<Rightarrow> (if x = tk then 1 else 0) + handed_out tk ops s'
      | (s', None) \<Rightarrow> handed_out tk ops s')"
| "handed_out tk (CountLive n t # ops) s = handed_out tk ops (fst (live_tickets n t s))"
| "handed_out tk (Consume t x # ops) s = handed_out tk ops (fst (consume_ticket t x s))"

section \<open>The admin middleware\<close>

record admin_identity =
  id_key :: api_key
  id_remote_ip :: "ip_addr option"
  id_client_ip :: "ip_addr option"

definition has_manage_scope :: "admin_identity \<Rightarrow> bool" where
  "has_manage_scope i \<longleftrightarrow> ''manage'' \<in> set (ak_scopes (id_key i))"

definition extract_bearer_token :: "header_map \<Rightarrow> core_error + string option" where
  "extract_bearer_token headers =
     (case map_option trim (Option.bind (header_str headers ''authorization'') (strip_str_prefix ''Bearer '')) of
        None \<Rightarrow> Inr None
      | Some raw \<Rightarrow> if raw = [] then Inl (Auth ''invalid token'') else Inr (Some raw))"

definition authenticate_admin ::
    "key_env \<Rightarrow> string unstable_sorter \<Rightarrow> auth_clock \<Rightarrow> string list \<Rightarrow> header_map \<Rightarrow> ip_addr option \<Rightarrow> gate \<Rightarrow>
     gate \<times> (core_error + admin_identity)" where
  "authenticate_admin env srt clk trusted_proxies headers remote g =
     (let client_ip = resolve_client_ip headers remote trusted_proxies;
          effective_remote = (case (client_ip, remote) of (Some ip, Some _) \<Rightarrow> Some ip | _ \<Rightarrow> remote)
      in case extract_bearer_token headers of
           Inl e \<Rightarrow> (g, Inl e)
         | Inr None \<Rightarrow> (g, Inl (Auth ''missing authorization header''))
         | Inr (Some token) \<Rightarrow>
             (case verify_key_credentials_any_scope env srt clk token [''manage'', ''analytics'', ''read''] g of
                (g', Inl e) \<Rightarrow> (g', Inl e)
              | (g', Inr key) \<Rightarrow>
                  (g', Inr \<lparr> id_key = key, id_remote_ip = effective_remote, id_client_ip = client_ip \<rparr>)))"

definition authenticate_ws_ticket ::
    "key_env \<Rightarrow> auth_clock \<Rightarrow> string \<Rightarrow> ws_ticket_store \<Rightarrow> gate \<Rightarrow> ws_ticket_store \<times> (core_error + api_key)" where
  "authenticate_ws_ticket env clk ticket s g =
     (case consume_ticket (ac_instant clk) ticket s of
        (s', None) \<Rightarrow> (s', Inl (Auth ''invalid or expired ws ticket''))
      | (s', Some key_id) \<Rightarrow>
          (case get_by_id env (ga_keys g) key_id of
             Inl _ \<Rightarrow> (s', Inl (Auth ''invalid api key''))
           | Inr None \<Rightarrow> (s', Inl (Auth ''invalid api key''))
           | Inr (Some key) \<Rightarrow>
               (case validate_key_record_any_scope env (ac_utc clk) key [''manage''] of
                  Some e \<Rightarrow> (s', Inl e)
                | None \<Rightarrow> (s', Inr key))))"

definition authenticate_admin_ws ::
    "key_env \<Rightarrow> string unstable_sorter \<Rightarrow> auth_clock \<Rightarrow> string list \<Rightarrow> header_map \<Rightarrow> string option \<Rightarrow> ip_addr option \<Rightarrow>
     ws_ticket_store \<Rightarrow> gate \<Rightarrow> ws_ticket_store \<times> gate \<times> (core_error + admin_identity)" where
  "authenticate_admin_ws env srt clk trusted_proxies headers ticket remote s g =
     (let client_ip = resolve_client_ip headers remote trusted_proxies;
          effective_remote = (case (client_ip, remote) of (Some ip, Some _) \<Rightarrow> Some ip | _ \<Rightarrow> remote);
          ident = (\<lambda>key. \<lparr> id_key = key, id_remote_ip = effective_remote, id_client_ip = client_ip \<rparr>)
      in case extract_bearer_token headers of
           Inl e \<Rightarrow> (s, g, Inl e)
         | Inr (Some token) \<Rightarrow>
             (case verify_key_credentials env srt clk token ''manage'' g of
                (g', Inl e) \<Rightarrow> (s, g', Inl e) | (g', Inr key) \<Rightarrow> (s, g', Inr (ident key)))
         | Inr None \<Rightarrow>
             (case ticket of
                Some tk \<Rightarrow>
                  (if tk \<noteq> [] then
                     (case authenticate_ws_ticket env clk tk s g of
                        (s', Inl e) \<Rightarrow> (s', g, Inl e) | (s', Inr key) \<Rightarrow> (s', g, Inr (ident key)))
                   else (s, g, Inl (Auth ''missing authorization header or ws ticket'')))
              | None \<Rightarrow> (s, g, Inl (Auth ''missing authorization header or ws ticket''))))"

record admin_request =
  aq_method :: string
  aq_path :: string
  aq_headers :: header_map
  aq_peer :: ip_addr

definition stripped_path :: "string \<Rightarrow> string" where
  "stripped_path path =
     (case strip_str_prefix ''/admin/api'' path of
        Some p \<Rightarrow> p
      | None \<Rightarrow> (case strip_str_prefix ''/api'' path of Some p \<Rightarrow> p | None \<Rightarrow> path))"

definition is_allowed_analytics_call :: "string \<Rightarrow> string \<Rightarrow> bool" where
  "is_allowed_analytics_call meth path \<longleftrightarrow>
     meth = ''GET'' \<and>
     (path = ''/auth/me'' \<or> path = ''/formats'' \<or> starts_with path ''/usage/'')"

record admin_gate =
  ag_gate :: gate
  ag_limiter :: admin_auth_limiter
  ag_trusted_proxies :: "string list"

definition throttle_ip :: "admin_request \<Rightarrow> admin_gate \<Rightarrow> ip_addr" where
  "throttle_ip req ag =
     (case resolve_client_ip (aq_headers req) (Some (aq_peer req)) (ag_trusted_proxies ag) of
        Some ip \<Rightarrow> ip | None \<Rightarrow> aq_peer req)"

text \<open>The outcome of the middleware: an error response, or the request goes on with an identity.\<close>

definition admin_auth_middleware ::
    "key_env \<Rightarrow> string unstable_sorter \<Rightarrow> ip_addr unstable_sorter \<Rightarrow> auth_clock \<Rightarrow> admin_request \<Rightarrow> admin_gate \<Rightarrow>
     admin_gate \<times> (core_error + admin_identity)" where
  "admin_auth_middleware env srt isrt clk req ag =
     (let ip = throttle_ip req ag in
      if is_blocked ip (ag_limiter ag) then (ag, Inl (RateLimited ''admin_auth_throttle'' 60000 False))
      else
        (case authenticate_admin env srt clk (ag_trusted_proxies ag) (aq_headers req) (Some (aq_peer req)) (ag_gate ag) of
           (g', Inr identity) \<Rightarrow>
             (let ag' = ag \<lparr> ag_gate := g', ag_limiter := al_record_success ip (ag_limiter ag) \<rparr> in
              if \<not> has_manage_scope identity \<and>
                 \<not> is_allowed_analytics_call (aq_method req) (stripped_path (aq_path req))
              then (ag', Inl (Auth ''forbidden: api key lacks manage scope''))
              else (ag', Inr identity))
         | (g', Inl e) \<Rightarrow>
             (ag \<lparr> ag_gate := g',
                   ag_limiter := al_record_failure isrt (ac_instant clk) (ac_instant clk) ip (ag_limiter ag) \<rparr>,
              Inl e)))"

section \<open>A ticket is redeemed once\<close>

lemma consume_gone: "hm_get (ws_tickets (fst (consume_ticket t tk s))) tk = None"
  by (simp add: consume_ticket_def hm_simps split: option.split)

definition ticket_live :: "string \<Rightarrow> ws_ticket_store \<Rightarrow> nat" where
  "ticket_live tk s = (if hm_get (ws_tickets s) tk = None then 0 else 1)"

definition store_ok :: "ws_ticket_store \<Rightarrow> bool" where
  "store_ok s \<longleftrightarrow> hm_ok (ws_tickets s)"

lemma prune_live:
  "store_ok s \<Longrightarrow> ticket_live tk (ws_prune_expired n t s) \<le> ticket_live tk s \<and> store_ok (ws_prune_expired n t s)"
  by (auto simp: ticket_live_def ws_prune_expired_def store_ok_def hm_simps split: option.splits)

lemma issue_live:
  assumes "store_ok s" "issue_ticket n t rnd k s = (s', res)"
  shows "store_ok s' \<and> ticket_live tk s' \<le> ticket_live tk s + (if res = Some tk then 1 else 0)"
proof -
  define s1 where "s1 = (if MAX_OUTSTANDING \<le> length (ws_tickets s) \<or>
      PRUNE_INTERVAL_SECS \<le> n - ws_last_prune_secs s then ws_prune_expired n t s else s)"
  have s1: "store_ok s1 \<and> ticket_live tk s1 \<le> ticket_live tk s"
    using prune_live [OF assms(1)] assms(1) by (auto simp: s1_def)
  have "(s', res) = (if MAX_OUTSTANDING \<le> length (ws_tickets s1) then (s1, None)
     else (s1 \<lparr> ws_tickets := hm_put rnd \<lparr> wt_key_id = k, wt_expires_at = t + TICKET_TTL \<rparr> (ws_tickets s1) \<rparr>, Some rnd))"
    using assms(2) unfolding issue_ticket_def Let_def s1_def [symmetric] by (rule sym)
  then show ?thesis using s1 by (auto simp: ticket_live_def store_ok_def hm_simps split: if_splits)
qed

lemma consume_live:
  assumes "store_ok s" "consume_ticket t x s = (s', res)"
  shows "store_ok s' \<and> (if res \<noteq> None \<and> x = tk then 1 else 0) + ticket_live tk s' \<le> ticket_live tk s"
  using assms by (auto simp: consume_ticket_def ticket_live_def store_ok_def hm_simps split: option.splits if_splits)

lemma redeemed_bound: "store_ok s \<Longrightarrow> redeemed tk ops s \<le> handed_out tk ops s + ticket_live tk s"
proof (induction tk ops s rule: redeemed.induct)
  case (1 tk s)
  then show ?case by simp
next
  case (2 tk n t rnd k ops s)
  obtain s' res where r: "issue_ticket n t rnd k s = (s', res)" by (cases "issue_ticket n t rnd k s")
  from issue_live [OF "2.prems" this, of tk] 2 r show ?case by (cases res) (auto split: if_splits)
next
  case (3 tk n t ops s)
  then show ?case using prune_live [OF "3.prems", of tk n t] by (auto simp: live_tickets_def Let_def)
next
  case (4 tk t x ops s)
  obtain s' res where r: "consume_ticket t x s = (s', res)" by (cases "consume_ticket t x s")
  show ?case
  proof (cases res)
    case None
    with 4(1) [OF r [symmetric] None] consume_live [OF "4.prems" r, of tk] r show ?thesis by auto
  next
    case (Some k)
    with 4(2) [OF r [symmetric] Some] consume_live [OF "4.prems" r, of tk] r show ?thesis by (auto split: if_splits)
  qed
qed

text \<open>
  A WebSocket ticket is redeemed at most as often as it was handed out, in every sequence of
  issues, redemptions and sweeps, and a redemption returns a key only before the ticket's deadline.
\<close>

theorem ticket_single_use:
  "redeemed tk ops (ws_new n) \<le> handed_out tk ops (ws_new n) \<and>
   (consume_ticket t tk s = (s', Some k) \<longrightarrow>
      (\<exists>x. hm_get (ws_tickets s) tk = Some x \<and> wt_key_id x = k \<and> t < wt_expires_at x) \<and>
      hm_get (ws_tickets s') tk = None)"
proof
  show "redeemed tk ops (ws_new n) \<le> handed_out tk ops (ws_new n)"
    using redeemed_bound [of "ws_new n" tk ops] by (simp add: ws_new_def store_ok_def ticket_live_def)
  show "consume_ticket t tk s = (s', Some k) \<longrightarrow>
      (\<exists>x. hm_get (ws_tickets s) tk = Some x \<and> wt_key_id x = k \<and> t < wt_expires_at x) \<and>
      hm_get (ws_tickets s') tk = None"
    using consume_gone [of t tk s] by (auto simp: consume_ticket_def split: option.splits if_splits)
qed

theorem ticket_single_use_witness:
  "redeemed ''tk'' [Issue 0 0 ''tk'' 7, Consume 10 ''tk'', Consume 11 ''tk''] (ws_new 0) \<le>
   handed_out ''tk'' [Issue 0 0 ''tk'' 7, Consume 10 ''tk'', Consume 11 ''tk''] (ws_new 0) \<and>
   hm_get (ws_tickets (fst (consume_ticket 10 ''tk'' (fst (issue_ticket 0 0 ''tk'' 7 (ws_new 0)))))) ''tk'' = None"
  using ticket_single_use [of "''tk''" "[Issue 0 0 ''tk'' 7, Consume 10 ''tk'', Consume 11 ''tk'']" 0 10
      "fst (issue_ticket 0 0 ''tk'' 7 (ws_new 0))" "ws_new 0" 7]
  by (simp add: issue_ticket_def consume_ticket_def ws_new_def hm_get_def hm_put_def hm_remove_def)

section \<open>Who reaches an admin endpoint\<close>

lemma authenticate_admin_ok:
  assumes "authenticate_admin env srt clk trusted headers remote g = (g', Inr i)"
  shows "validate_key_record_any_scope env (ac_utc clk) (id_key i) [''manage'', ''analytics'', ''read''] = None"
  using assms
  by (auto simp: authenticate_admin_def Let_def split: sum.splits option.splits prod.splits dest!: verify_ok)

text \<open>
  C18: Whatever reaches an admin endpoint comes from an address that is not blocked, under an active,
  unexpired key with an admin scope; without \<open>manage\<close> it is a GET of the caller's own profile, of the
  formats, or under \<open>/usage/\<close>.
\<close>

theorem admin_guard_sound:
  assumes "admin_auth_middleware env srt isrt clk req ag = (ag', Inr i)"
  shows "\<not> is_blocked (throttle_ip req ag) (ag_limiter ag) \<and> ak_is_active (id_key i) \<and>
     is_key_expired env (ak_expires_at (id_key i)) (ac_utc clk) = Inr False \<and>
     set (ak_scopes (id_key i)) \<inter> {''manage'', ''analytics'', ''read''} \<noteq> {} \<and>
     (''manage'' \<notin> set (ak_scopes (id_key i)) \<longrightarrow>
        aq_method req = ''GET'' \<and>
        (stripped_path (aq_path req) = ''/auth/me'' \<or> stripped_path (aq_path req) = ''/formats'' \<or>
         prefix ''/usage/'' (stripped_path (aq_path req))))"
proof -
  have auth: "\<exists>g'. authenticate_admin env srt clk (ag_trusted_proxies ag) (aq_headers req) (Some (aq_peer req)) (ag_gate ag) =
      (g', Inr i)"
    and open_ip: "\<not> is_blocked (throttle_ip req ag) (ag_limiter ag)"
    and guard: "has_manage_scope i \<or> is_allowed_analytics_call (aq_method req) (stripped_path (aq_path req))"
    using assms by (auto simp: admin_auth_middleware_def Let_def split: sum.splits prod.splits if_splits)
  then obtain g' where "authenticate_admin env srt clk (ag_trusted_proxies ag) (aq_headers req) (Some (aq_peer req)) (ag_gate ag) =
      (g', Inr i)" by blast
  from authenticate_admin_ok [OF this] show ?thesis
    using open_ip guard
    by (auto simp: validate_ok_iff has_manage_scope_def is_allowed_analytics_call_def starts_with_prefix)
qed

definition demo_admin_gate :: admin_gate where
  "demo_admin_gate = \<lparr> ag_gate = demo_gate \<lparr> ga_cache := [(rev ''op_live_x'', demo_key \<lparr> ak_scopes := [''analytics''] \<rparr>, 60000)] \<rparr>,
     ag_limiter = al_new, ag_trusted_proxies = [] \<rparr>"

definition demo_request :: admin_request where
  "demo_request = \<lparr> aq_method = ''GET'', aq_path = ''/admin/api/usage/rows'', aq_headers = bearer_headers, aq_peer = V4 1 \<rparr>"

lemma demo_admin_token: "extract_bearer_token bearer_headers = Inr (Some ''op_live_x'')"
  by (simp add: extract_bearer_token_def bearer_headers_def header_str_def to_str_ok_def
      strip_str_prefix_def starts_with_def trim_token)

lemma demo_admin_verify:
  "\<exists>g. verify_key_credentials_any_scope demo_key_env (sort_key fst) \<lparr> ac_instant = 2, ac_utc = 0 \<rparr> ''op_live_x''
     [''manage'', ''analytics'', ''read''] (ag_gate demo_admin_gate) = (g, Inr (demo_key \<lparr> ak_scopes := [''analytics''] \<rparr>))"
proof -
  have "fetch_key demo_key_env 2 ''op_live_x'' (ag_gate demo_admin_gate) = Inr (Cached (demo_key \<lparr> ak_scopes := [''analytics''] \<rparr>))"
    unfolding fetch_key_def demo_hash
    by (simp add: get_cached_api_key_def demo_admin_gate_def hm_get_def)
  moreover have "validate_key_record_any_scope demo_key_env 0 (demo_key \<lparr> ak_scopes := [''analytics''] \<rparr>)
      [''manage'', ''analytics'', ''read''] = None"
    by (simp add: validate_ok_iff demo_key_def is_key_expired_def)
  ultimately show ?thesis by (simp add: verify_key_credentials_any_scope_def store_fetched_def)
qed

theorem admin_guard_sound_witness:
  "\<not> is_blocked (throttle_ip demo_request demo_admin_gate) (ag_limiter demo_admin_gate) \<and>
   aq_method demo_request = ''GET''"
proof -
  obtain g where g: "verify_key_credentials_any_scope demo_key_env (sort_key fst) \<lparr> ac_instant = 2, ac_utc = 0 \<rparr> ''op_live_x''
     [''manage'', ''analytics'', ''read''] (ag_gate demo_admin_gate) = (g, Inr (demo_key \<lparr> ak_scopes := [''analytics''] \<rparr>))"
    using demo_admin_verify by blast
  let ?clk = "\<lparr> ac_instant = 2, ac_utc = 0 \<rparr>" and ?k = "demo_key \<lparr> ak_scopes := [''analytics''] \<rparr>"
  obtain i where auth: "authenticate_admin demo_key_env (sort_key fst) ?clk (ag_trusted_proxies demo_admin_gate)
      (aq_headers demo_request) (Some (aq_peer demo_request)) (ag_gate demo_admin_gate) = (g, Inr i)" and i: "id_key i = ?k"
    by (simp add: authenticate_admin_def demo_request_def demo_admin_token g Let_def)
  have free: "\<not> is_blocked ip (ag_limiter demo_admin_gate)" for ip
    by (simp add: is_blocked_def hm_get_def demo_admin_gate_def al_new_def)
  have call: "is_allowed_analytics_call (aq_method demo_request) (stripped_path (aq_path demo_request))"
    by (simp add: is_allowed_analytics_call_def stripped_path_def strip_str_prefix_def starts_with_def demo_request_def)
  obtain ag' where "admin_auth_middleware demo_key_env (sort_key fst) (sort_key fst) ?clk demo_request demo_admin_gate = (ag', Inr i)"
    by (simp add: admin_auth_middleware_def auth free call)
  from admin_guard_sound [OF this] show ?thesis by (simp add: i)
qed

section \<open>The throttle never lets go\<close>

fun admin_run ::
    "key_env \<Rightarrow> string unstable_sorter \<Rightarrow> ip_addr unstable_sorter \<Rightarrow> (auth_clock \<times> admin_request) list \<Rightarrow> admin_gate \<Rightarrow> admin_gate" where
  "admin_run env srt isrt [] ag = ag"
| "admin_run env srt isrt ((clk, req) # rs) ag =
     admin_run env srt isrt rs (fst (admin_auth_middleware env srt isrt clk req ag))"

lemma record_failure_small:
  assumes "length (al_failures l) < 100000"
  shows "al_failures (al_record_failure isrt te t ip l) =
     (case hm_get (al_failures l) ip of
        Some (c, s) \<Rightarrow> (if ADMIN_AUTH_WINDOW \<le> t - s then hm_put ip (1, t) (al_failures l)
                       else hm_put ip (c + 1, s) (al_failures l))
      | None \<Rightarrow> hm_put ip (1, t) (al_failures l))"
  using assms by (simp add: al_record_failure_def Let_def)

lemma failures_step:
  assumes "is_blocked ip (ag_limiter ag)" "length (al_failures (ag_limiter ag)) < 100000"
  shows "is_blocked ip (ag_limiter (fst (admin_auth_middleware env srt isrt clk req ag))) \<and>
     length (al_failures (ag_limiter (fst (admin_auth_middleware env srt isrt clk req ag)))) \<le>
       length (al_failures (ag_limiter ag)) + 1"
proof (cases "is_blocked (throttle_ip req ag) (ag_limiter ag)")
  case True
  then show ?thesis using assms by (simp add: admin_auth_middleware_def Let_def)
next
  case False
  then have ne: "throttle_ip req ag \<noteq> ip" using assms(1) by auto
  let ?l = "ag_limiter ag" and ?o = "throttle_ip req ag"
  have "length (hm_remove ?o (al_failures ?l)) \<le> length (al_failures ?l)"
    by (simp add: hm_remove_def AList.delete_eq)
  moreover have "length (al_failures (al_record_failure isrt t t ?o ?l)) \<le> length (al_failures ?l) + 1" for t
    unfolding record_failure_small [OF assms(2)] by (auto simp: length_hm_put split: option.splits prod.splits)
  moreover have "is_blocked ip (al_record_failure isrt t t ?o ?l)" for t
    using assms(1) ne unfolding is_blocked_def record_failure_small [OF assms(2)]
    by (auto simp: hm_simps split: option.splits prod.splits)
  moreover have "is_blocked ip (al_record_success ?o ?l)"
    using assms(1) ne by (simp add: is_blocked_def al_record_success_def hm_simps)
  ultimately show ?thesis
    using False by (auto simp: admin_auth_middleware_def Let_def al_record_success_def split: sum.splits prod.splits)
qed

text \<open>
  An address that has used up its failures is refused for good: whatever anyone sends, with whatever
  credentials and however much later, every request attributed to it is answered with the throttle
  error, as long as the table of failures has not reached its eviction size of 100000 addresses.
\<close>

theorem blocked_address_stays_blocked:
  assumes "is_blocked ip (ag_limiter ag)" "length (al_failures (ag_limiter ag)) + length rs < 100000"
    and "throttle_ip req (admin_run env srt isrt rs ag) = ip"
  shows "snd (admin_auth_middleware env srt isrt clk req (admin_run env srt isrt rs ag)) =
         Inl (RateLimited ''admin_auth_throttle'' 60000 False)"
proof -
  have "is_blocked ip (ag_limiter (admin_run env srt isrt rs ag))"
    using assms(1,2)
  proof (induction rs arbitrary: ag)
    case Nil
    then show ?case by simp
  next
    case (Cons r rs)
    obtain clk req where r: "r = (clk, req)" by (cases r)
    from failures_step [OF Cons.prems(1), of env srt isrt clk req] Cons.prems(2)
    show ?case unfolding r admin_run.simps by (intro Cons.IH) auto
  qed
  then show ?thesis using assms(3) by (simp add: admin_auth_middleware_def Let_def)
qed

definition locked_gate :: admin_gate where
  "locked_gate = demo_admin_gate \<lparr> ag_limiter := al_new \<lparr> al_failures := [(V4 1, 20, 0)] \<rparr> \<rparr>"

theorem blocked_address_stays_blocked_witness:
  "snd (admin_auth_middleware demo_key_env (sort_key fst) (sort_key fst)
     \<lparr> ac_instant = 1000000, ac_utc = 1000 \<rparr> demo_request locked_gate) =
   Inl (RateLimited ''admin_auth_throttle'' 60000 False)"
proof -
  have "is_blocked (V4 1) (ag_limiter locked_gate)" "length (al_failures (ag_limiter locked_gate)) = 1"
    by (simp_all add: locked_gate_def is_blocked_def hm_get_def)
  moreover have "throttle_ip demo_request locked_gate = V4 1"
    by (simp add: throttle_ip_def demo_request_def locked_gate_def demo_admin_gate_def resolve_client_ip_def is_trusted_proxy_def)
  ultimately show ?thesis
    using blocked_address_stays_blocked [of "V4 1" locked_gate "[]"] by simp
qed

end
