(* ===== verification/Routing.thy ===== *)
theory Routing
  imports Combo_Store
begin

text \<open>
  From a model name to a routing plan: the SQL path (openproxy-core/src/routing/mod.rs and the lookups
  of openproxy-db/src/models/crud.rs) and the in-memory snapshot that replaces it on the request path
  (routing/snapshot.rs). The snapshot keeps cooldown deadlines as the column's text and compares them
  with the text of \<open>datetime('now')\<close>; how an instant is written in the column and by SQLite is a
  parameter (\<open>snap_text\<close>).
\<close>

section \<open>Plans\<close>

abbreviation SYNTHETIC_COMBO_ID :: combo_id where "SYNTHETIC_COMBO_ID \<equiv> - 1"

definition SYNTHETIC_COMBO_NAME :: string where "SYNTHETIC_COMBO_NAME = ''__direct__''"

datatype routing_plan =
    PlanCombo (pl_combo_id: combo_id) (pl_combo_name: string) (pl_strategy: strategy) (pl_race_size: nat)
      (pl_targets: "combo_target list")
  | PlanNotFound (pl_model: string) (pl_hint: "string option")

definition build_synthetic_combo ::
    "string \<Rightarrow> account_id option \<Rightarrow> model_row_id \<Rightarrow> rate_limit_scope \<Rightarrow> combo \<times> combo_target list" where
  "build_synthetic_combo provider_id aid row scope =
     (default_combo \<lparr> cb_id := SYNTHETIC_COMBO_ID, cb_name := SYNTHETIC_COMBO_NAME, cb_strategy := Priority,
        cb_race_size := 1, cb_priority_mode := Strict, cb_cooldown_mode := Flat \<rparr>,
      [default_combo_target \<lparr> ct_id := 0, ct_combo_id := SYNTHETIC_COMBO_ID, ct_provider_id := provider_id,
         ct_account_id := aid, ct_model_row_id := Some row, ct_rate_limit_scope := scope \<rparr>])"

definition plan_of :: "combo \<Rightarrow> combo_target list \<Rightarrow> routing_plan" where
  "plan_of c ts = PlanCombo (cb_id c) (cb_name c) (cb_strategy c) (cb_race_size c) ts"

section \<open>The SQL path\<close>

definition strip_proxy_prefix :: "database \<Rightarrow> string \<Rightarrow> string \<times> string option" where
  "strip_proxy_prefix db model_str =
     (if starts_with model_str ''combo:'' then (model_str, None)
      else case split_once ''/'' model_str of
        None \<Rightarrow> (model_str, None)
      | Some (pre, rest) \<Rightarrow>
          (if pre = [] then (model_str, None)
           else if list_ex (\<lambda>p. pv_id p = pre) (db_providers db) then (rest, Some pre)
           else (model_str, None)))"

definition models_by_id :: "database \<Rightarrow> model_row list" where
  "models_by_id db = sort_by (\<lambda>a b. cmp_int (mo_id a) (mo_id b)) (db_models db)"

definition find_active_by_name :: "database \<Rightarrow> string \<Rightarrow> model_row option" where
  "find_active_by_name db name =
     find (\<lambda>m. mo_model_id m = name \<and> mo_active m \<and> provider_is_active db (mo_provider_id m)) (models_by_id db)"

definition find_active_by_provider_and_name :: "database \<Rightarrow> string \<Rightarrow> string \<Rightarrow> model_row option" where
  "find_active_by_provider_and_name db provider_id name =
     find (\<lambda>m. mo_provider_id m = provider_id \<and> mo_model_id m = name \<and> mo_active m \<and>
        provider_is_active db (mo_provider_id m)) (models_by_id db)"

definition provider_active_and_scope :: "database \<Rightarrow> string \<Rightarrow> bool \<times> rate_limit_scope" where
  "provider_active_and_scope db provider_id =
     (case find_provider db provider_id of
        Some p \<Rightarrow> (pv_active p, pv_rate_limit_scope p) | None \<Rightarrow> (False, ScopeAccount))"

definition try_resolve_direct_model ::
    "database \<Rightarrow> string \<Rightarrow> string option \<Rightarrow> account_id option \<Rightarrow> routing_plan option" where
  "try_resolve_direct_model db model_id provider_prefix account_override =
     (case (case provider_prefix of
              Some pre \<Rightarrow> find_active_by_provider_and_name db pre model_id
            | None \<Rightarrow> find_active_by_name db model_id) of
        None \<Rightarrow> None
      | Some model \<Rightarrow>
          (let (active, scope) = provider_active_and_scope db (mo_provider_id model) in
           if \<not> active then None
           else
             (let aid = (case account_override of
                  None \<Rightarrow> None
                | Some a \<Rightarrow>
                    (if list_ex (\<lambda>r. ac_id r = a \<and> ac_provider_id r = mo_provider_id model) (db_accounts db)
                     then Some a else None));
                  (combo, targets) = build_synthetic_combo (mo_provider_id model) aid (mo_id model) scope
              in Some (plan_of combo targets))))"

text \<open>Pinning targets to an account: only targets of its provider, and sub-combos, stay.\<close>

definition pin_targets :: "string \<Rightarrow> account_id \<Rightarrow> combo_target list \<Rightarrow> combo_target list" where
  "pin_targets prov aid targets =
     (if list_ex (\<lambda>t. ct_provider_id t = prov) targets then
        filter (\<lambda>t. ct_provider_id t = prov \<or> ct_sub_combo_id t \<noteq> None)
          (map (\<lambda>t. if ct_provider_id t = prov then t \<lparr> ct_account_id := Some aid \<rparr> else t) targets)
      else targets)"

definition pin_account_to_targets :: "database \<Rightarrow> account_id \<Rightarrow> combo_target list \<Rightarrow> combo_target list" where
  "pin_account_to_targets db aid targets =
     (case find_account db aid of None \<Rightarrow> targets | Some a \<Rightarrow> pin_targets (ac_provider_id a) aid targets)"

definition get_combo_by_name :: "database \<Rightarrow> string \<Rightarrow> combo option" where
  "get_combo_by_name db name = find (\<lambda>c. cb_name c = name) (db_combos db)"

definition strip_combo :: "string \<Rightarrow> string" where
  "strip_combo s = (if starts_with s ''combo:'' then drop 6 s else s)"

definition not_found_plan :: "string \<Rightarrow> string \<Rightarrow> routing_plan" where
  "not_found_plan model_str stripped =
     PlanNotFound model_str
       (if strip_combo stripped = stripped then None else Some (''combo:'' @ strip_combo stripped))"

definition resolve_with_options ::
    "int \<Rightarrow> database \<Rightarrow> string \<Rightarrow> string option \<Rightarrow> account_id option \<Rightarrow> routing_plan" where
  "resolve_with_options now db model_str provider_override account_override =
     (let (stripped, prefix0) = strip_proxy_prefix db model_str;
          provider_prefix = (case prefix0 of Some p \<Rightarrow> Some p | None \<Rightarrow> provider_override)
      in case try_resolve_direct_model db stripped provider_prefix account_override of
           Some plan \<Rightarrow> plan
         | None \<Rightarrow>
             (case get_combo_by_name db (strip_combo stripped) of
                Some combo \<Rightarrow>
                  (let targets = list_targets now db (cb_id combo)
                   in plan_of combo
                        (case account_override of None \<Rightarrow> targets | Some aid \<Rightarrow> pin_account_to_targets db aid targets))
              | None \<Rightarrow> not_found_plan model_str stripped))"

definition routing_resolve :: "int \<Rightarrow> database \<Rightarrow> string \<Rightarrow> routing_plan" where
  "routing_resolve now db model_str = resolve_with_options now db model_str None None"

section \<open>The snapshot\<close>

record snap_text =
  st_column :: "sql_time \<Rightarrow> string"
  st_now :: "int \<Rightarrow> string"

text \<open>\<open>str\<close> comparison: bytewise, lexicographic.\<close>

fun str_less :: "string \<Rightarrow> string \<Rightarrow> bool" where
  "str_less [] [] = False"
| "str_less [] (d # ds) = True"
| "str_less (c # cs) [] = False"
| "str_less (c # cs) (d # ds) = (if c = d then str_less cs ds else (of_char c :: nat) < of_char d)"

record snap_target =
  sr_target :: combo_target
  sr_cooldown_until :: "string option"
  sr_model_cooldown :: bool
  sr_model_active :: bool
  sr_provider_active :: bool

record routing_snapshot =
  sn_models_by_name :: "(string, model_row_id \<times> string) hmap"
  sn_models_by_provider_name :: "(string \<times> string, model_row_id \<times> string) hmap"
  sn_providers :: "(string, bool \<times> rate_limit_scope) hmap"
  sn_accounts :: "(account_id, string \<times> bool) hmap"
  sn_healthy_accounts :: "(string, account_id list) hmap"
  sn_combos_by_name :: "(string, combo) hmap"
  sn_combo_targets :: "(combo_id, snap_target list) hmap"

text \<open>\<open>entry(k).or_insert(v)\<close> and \<open>insert(k, v)\<close> over the rows of a query.\<close>

definition or_insert_all :: "('k \<times> 'v) list \<Rightarrow> ('k, 'v) hmap" where
  "or_insert_all kvs = fold (\<lambda>(k, v) m. if hm_get m k = None then hm_put k v m else m) kvs []"

definition insert_all :: "('k \<times> 'v) list \<Rightarrow> ('k, 'v) hmap" where
  "insert_all kvs = fold (\<lambda>(k, v) m. hm_put k v m) kvs []"

definition push_all :: "('k \<times> 'v) list \<Rightarrow> ('k, 'v list) hmap" where
  "push_all kvs = fold (\<lambda>(k, v) m. hm_entry_update k [] (\<lambda>vs. vs @ [v]) m) kvs []"

text \<open>
  The row of a target as the snapshot reads it: column 17, where \<open>row_to_target\<close> expects
  \<open>client_profile\<close>, holds the cooldown text in this query, and a text that is no profile reads as none.
\<close>

definition snap_row :: "snap_text \<Rightarrow> int \<Rightarrow> database \<Rightarrow> combo_target \<Rightarrow> snap_target" where
  "snap_row tx now db t =
     (let until = map_option (\<lambda>c. st_column tx (cd_until c)) (find_cooldown db (ct_id t)) in
      \<lparr> sr_target = (row_to_target db t)
          \<lparr> ct_client_profile := Option.bind until
              (\<lambda>s. case client_profile_parse s of Inl _ \<Rightarrow> None | Inr p \<Rightarrow> Some p) \<rparr>,
        sr_cooldown_until = until,
        sr_model_cooldown = in_model_cooldown now db t,
        sr_model_active = (case ct_model_row_id t of None \<Rightarrow> False | Some m \<Rightarrow> model_is_active db m),
        sr_provider_active = provider_is_active db (ct_provider_id t) \<rparr>)"

definition snap_target_rows :: "snap_text \<Rightarrow> int \<Rightarrow> database \<Rightarrow> (combo_id \<times> snap_target) list" where
  "snap_target_rows tx now db =
     map (\<lambda>t. (ct_combo_id t, snap_row tx now db t))
       (sort_by (\<lambda>a b. then_with (cmp_int (ct_combo_id a) (ct_combo_id b)) (cmp_target_order a b))
         (filter (\<lambda>t. find_provider db (ct_provider_id t) \<noteq> None) (map tg_target (db_targets db))))"

text \<open>\<open>ORDER BY priority, id\<close>; the order of the providers does not matter for lists kept per provider.\<close>

definition cmp_healthy_account :: "account_row \<Rightarrow> account_row \<Rightarrow> ordering" where
  "cmp_healthy_account a b = then_with (cmp_int (ac_priority a) (ac_priority b)) (cmp_int (ac_id a) (ac_id b))"

definition build_snapshot :: "snap_text \<Rightarrow> int \<Rightarrow> database \<Rightarrow> routing_snapshot" where
  "build_snapshot tx now db =
     (let rows = filter mo_active (models_by_id db) in
      \<lparr> sn_models_by_name = or_insert_all (map (\<lambda>m. (mo_model_id m, (mo_id m, mo_provider_id m))) rows),
        sn_models_by_provider_name =
          or_insert_all (map (\<lambda>m. ((mo_provider_id m, mo_model_id m), (mo_id m, mo_provider_id m))) rows),
        sn_providers = insert_all (map (\<lambda>p. (pv_id p, (pv_active p, pv_rate_limit_scope p))) (db_providers db)),
        sn_accounts =
          insert_all (map (\<lambda>a. (ac_id a, (ac_provider_id a, ac_health_status a = HsHealthy))) (db_accounts db)),
        sn_healthy_accounts =
          push_all (map (\<lambda>a. (ac_provider_id a, ac_id a))
            (sort_by cmp_healthy_account (filter (\<lambda>a. ac_health_status a = HsHealthy) (db_accounts db)))),
        sn_combos_by_name =
          insert_all (map (\<lambda>c. (cb_name c, c)) (sort_by (\<lambda>a b. cmp_int (cb_id a) (cb_id b)) (db_combos db))),
        sn_combo_targets = push_all (snap_target_rows tx now db) \<rparr>)"

definition snap_strip_prefix :: "routing_snapshot \<Rightarrow> string \<Rightarrow> string \<times> string option" where
  "snap_strip_prefix sn model_str =
     (if starts_with model_str ''combo:'' then (model_str, None)
      else case split_once ''/'' model_str of
        None \<Rightarrow> (model_str, None)
      | Some (pre, rest) \<Rightarrow>
          (if pre = [] then (model_str, None)
           else if hm_get (sn_providers sn) pre \<noteq> None then (rest, Some pre)
           else (model_str, None)))"

definition target_row_active :: "snap_target \<Rightarrow> string \<Rightarrow> bool" where
  "target_row_active r now =
     (let t = sr_target r in
      if \<not> ct_active t \<or> \<not> sr_provider_active r then False
      else if ct_model_row_id t = None \<and> ct_sub_combo_id t = None then False
      else if ct_model_row_id t \<noteq> None \<and> \<not> sr_model_active r then False
      else if (case sr_cooldown_until r of Some c \<Rightarrow> str_less now c | None \<Rightarrow> False) then False
      else if sr_model_cooldown r then False
      else True)"

definition try_resolve_direct ::
    "routing_snapshot \<Rightarrow> string \<Rightarrow> string option \<Rightarrow> account_id option \<Rightarrow> routing_plan option" where
  "try_resolve_direct sn model_id provider_prefix account_override =
     (case (case provider_prefix of
              Some pre \<Rightarrow> hm_get (sn_models_by_provider_name sn) (pre, model_id)
            | None \<Rightarrow> hm_get (sn_models_by_name sn) model_id) of
        None \<Rightarrow> None
      | Some (row_id, provider_id) \<Rightarrow>
          (let (active, scope) =
             (case hm_get (sn_providers sn) provider_id of Some v \<Rightarrow> v | None \<Rightarrow> (False, ScopeAccount)) in
           if \<not> active then None
           else
             (let aid = (case account_override of
                  None \<Rightarrow> None
                | Some a \<Rightarrow>
                    (case hm_get (sn_accounts sn) a of
                       Some (prov, _) \<Rightarrow> if prov = provider_id then Some a else None
                     | None \<Rightarrow> None));
                  (combo, targets) = build_synthetic_combo provider_id aid row_id scope
              in Some (plan_of combo targets))))"

definition pin_account :: "routing_snapshot \<Rightarrow> account_id \<Rightarrow> combo_target list \<Rightarrow> combo_target list" where
  "pin_account sn aid targets =
     (case hm_get (sn_accounts sn) aid of None \<Rightarrow> targets | Some (prov, _) \<Rightarrow> pin_targets prov aid targets)"

definition resolve_with_options_snap ::
    "routing_snapshot \<Rightarrow> string \<Rightarrow> string \<Rightarrow> string option \<Rightarrow> account_id option \<Rightarrow> routing_plan" where
  "resolve_with_options_snap sn now_text model_str provider_override account_override =
     (let (stripped, prefix0) = snap_strip_prefix sn model_str;
          provider_prefix = (case prefix0 of Some p \<Rightarrow> Some p | None \<Rightarrow> provider_override)
      in case try_resolve_direct sn stripped provider_prefix account_override of
           Some plan \<Rightarrow> plan
         | None \<Rightarrow>
             (case hm_get (sn_combos_by_name sn) (strip_combo stripped) of
                Some combo \<Rightarrow>
                  (let rows = (case hm_get (sn_combo_targets sn) (cb_id combo) of None \<Rightarrow> [] | Some rs \<Rightarrow> rs);
                       targets = map sr_target (filter (\<lambda>r. target_row_active r now_text) rows)
                   in plan_of combo
                        (case account_override of None \<Rightarrow> targets | Some aid \<Rightarrow> pin_account sn aid targets))
              | None \<Rightarrow> not_found_plan model_str stripped))"

section \<open>Maps filled from queries\<close>

lemma or_insert_fold:
  "hm_get (fold (\<lambda>(k, v) m. if hm_get m k = None then hm_put k v m else m) kvs m) k =
   (case hm_get m k of Some v \<Rightarrow> Some v | None \<Rightarrow> map_of kvs k)"
proof (induction kvs arbitrary: m)
  case Nil
  then show ?case by (simp split: option.split)
next
  case (Cons e kvs)
  then show ?case by (cases e) (auto simp: hm_simps split: option.split)
qed

lemma hm_get_or_insert_all: "hm_get (or_insert_all kvs) k = map_of kvs k"
  unfolding or_insert_all_def or_insert_fold by simp

lemma insert_fold:
  "hm_get (fold (\<lambda>(k, v) m. hm_put k v m) kvs m) k =
   (case map_of (rev kvs) k of Some v \<Rightarrow> Some v | None \<Rightarrow> hm_get m k)"
  by (induction kvs arbitrary: m) (auto simp: hm_simps map_add_def split: option.splits)

lemma hm_get_insert_all: "distinct (map fst kvs) \<Longrightarrow> hm_get (insert_all kvs) k = map_of kvs k"
proof -
  assume d: "distinct (map fst kvs)"
  then have "map_of (rev kvs) = map_of kvs"
    by (intro map_of_inject_set [THEN iffD2]) (simp_all add: rev_map [symmetric])
  then show ?thesis unfolding insert_all_def insert_fold by (simp split: option.split)
qed

lemma push_fold:
  "hm_get (fold (\<lambda>(k, v) m. hm_entry_update k [] (\<lambda>vs. vs @ [v]) m) kvs m) k =
   (let vs = map snd (filter (\<lambda>e. fst e = k) kvs) in
    case hm_get m k of Some ws \<Rightarrow> Some (ws @ vs) | None \<Rightarrow> if vs = [] then None else Some vs)"
proof (induction kvs arbitrary: m)
  case Nil
  then show ?case by (simp split: option.split)
next
  case (Cons e kvs)
  obtain k' v where e: "e = (k', v)" by (cases e)
  show ?case
    using Cons [of "hm_entry_update k' [] (\<lambda>vs. vs @ [v]) m"] unfolding e
    by (cases "k' = k"; cases "hm_get m k") (simp_all add: hm_simps Let_def)
qed

lemma hm_get_push_all:
  "(case hm_get (push_all kvs) k of None \<Rightarrow> [] | Some vs \<Rightarrow> vs) = map snd (filter (\<lambda>e. fst e = k) kvs)"
  unfolding push_all_def push_fold by (simp add: Let_def split: if_split)

lemma map_of_find: "map_of (map (\<lambda>x. (f x, g x)) xs) k = map_option g (find (\<lambda>x. f x = k) xs)"
  by (induction xs) auto

lemma find_filter_conj: "find P (filter Q xs) = find (\<lambda>x. Q x \<and> P x) xs"
  by (induction xs) auto

lemma find_mset:
  assumes "mset xs = mset ys" "distinct (map f xs)"
  shows "find (\<lambda>x. f x = k) xs = find (\<lambda>x. f x = k) ys"
proof -
  have d: "distinct (map f ys)" using assms by (metis mset_eq_imp_distinct_iff mset_map)
  have "find (\<lambda>x. f x = k) zs = Some z \<longleftrightarrow> z \<in> set zs \<and> f z = k" if "distinct (map f zs)" for zs z
    using that by (induction zs) (auto simp: image_iff)
  from this [OF d] this [OF assms(2)] show ?thesis
    using assms(1) by (metis mset_eq_setD not_Some_eq)
qed

section \<open>Sorting and filtering\<close>

lemma insert_by_front: "\<forall>z \<in> set zs. cmp x z \<noteq> Greater \<Longrightarrow> insert_by cmp x zs = x # zs"
  by (cases zs) simp_all

context sort_comparator
begin

lemma filter_insert_by:
  "sorted_wrt (\<lambda>a b. cmp a b \<noteq> Greater) xs \<Longrightarrow>
   filter P (insert_by cmp x xs) = (if P x then insert_by cmp x (filter P xs) else filter P xs)"
proof (induction xs)
  case Nil
  then show ?case by simp
next
  case (Cons y ys)
  show ?case
  proof (cases "cmp x y = Greater")
    case True
    then show ?thesis using Cons by auto
  next
    case False
    have "cmp x z \<noteq> Greater" if "z \<in> set (y # ys)" for z
      using that False Cons.prems cmp_trans [OF False, of z] by auto
    then have "insert_by cmp x (filter P (y # ys)) = x # filter P (y # ys)"
      by (intro insert_by_front) auto
    with False show ?thesis by simp
  qed
qed

lemma filter_sort_by: "filter P (sort_by cmp xs) = sort_by cmp (filter P xs)"
  by (induction xs) (simp_all add: sort_by_def filter_insert_by sort_by_sorted [unfolded sort_by_def])

end

lemma insert_by_cong: "(\<And>y. y \<in> set ys \<Longrightarrow> cmp x y = cmp' x y) \<Longrightarrow> insert_by cmp x ys = insert_by cmp' x ys"
  by (induction ys) auto

lemma sort_by_cong:
  "(\<And>x y. x \<in> set xs \<Longrightarrow> y \<in> set xs \<Longrightarrow> cmp x y = cmp' x y) \<Longrightarrow> sort_by cmp xs = sort_by cmp' xs"
proof (induction xs)
  case Nil
  then show ?case by (simp add: sort_by_def)
next
  case (Cons x xs)
  have "sort_by cmp xs = sort_by cmp' xs" using Cons by simp
  moreover have "insert_by cmp x (sort_by cmp' xs) = insert_by cmp' x (sort_by cmp' xs)"
    by (rule insert_by_cong) (use Cons.prems in simp)
  ultimately show ?case by (simp add: sort_by_def)
qed

lemma sort_by_map: "sort_by cmp (map f xs) = map f (sort_by (\<lambda>a b. cmp (f a) (f b)) xs)"
proof -
  have "insert_by cmp (f x) (map f ys) = map f (insert_by (\<lambda>a b. cmp (f a) (f b)) x ys)" for x ys
    by (induction ys) simp_all
  then show ?thesis by (induction xs) (simp_all add: sort_by_def)
qed

definition cmp_snap_order :: "combo_target \<Rightarrow> combo_target \<Rightarrow> ordering" where
  "cmp_snap_order a b = then_with (cmp_int (ct_combo_id a) (ct_combo_id b)) (cmp_target_order a b)"

interpretation snap_order: sort_comparator cmp_snap_order
  by unfold_locales
    (auto simp: cmp_snap_order_def cmp_target_order_def then_with_def cmp_int_def split: if_splits)

section \<open>The snapshot answers like the tables\<close>

definition tables_ok :: "database \<Rightarrow> bool" where
  "tables_ok db \<longleftrightarrow>
     distinct (map pv_id (db_providers db)) \<and> distinct (map ac_id (db_accounts db)) \<and>
     distinct (map cb_name (db_combos db))"

lemma snap_providers:
  "tables_ok db \<Longrightarrow>
   hm_get (sn_providers (build_snapshot tx b db)) i =
   map_option (\<lambda>p. (pv_active p, pv_rate_limit_scope p)) (find_provider db i)"
  by (simp add: build_snapshot_def Let_def hm_get_insert_all comp_def tables_ok_def map_of_find find_provider_def)

lemma snap_accounts:
  "tables_ok db \<Longrightarrow>
   hm_get (sn_accounts (build_snapshot tx b db)) i =
   map_option (\<lambda>a. (ac_provider_id a, ac_health_status a = HsHealthy)) (find_account db i)"
  by (simp add: build_snapshot_def Let_def hm_get_insert_all comp_def tables_ok_def map_of_find find_account_def)

lemma snap_combos:
  assumes "tables_ok db"
  shows "hm_get (sn_combos_by_name (build_snapshot tx b db)) n = get_combo_by_name db n"
proof -
  let ?cs = "sort_by (\<lambda>a b. cmp_int (cb_id a) (cb_id b)) (db_combos db)"
  have "distinct (map cb_name ?cs)"
    using assms by (metis mset_eq_imp_distinct_iff mset_map mset_sort_by tables_ok_def)
  moreover have "find (\<lambda>c. cb_name c = n) ?cs = find (\<lambda>c. cb_name c = n) (db_combos db)"
    by (rule find_mset) (simp_all add: \<open>distinct (map cb_name ?cs)\<close>)
  ultimately show ?thesis
    by (simp add: build_snapshot_def Let_def hm_get_insert_all comp_def map_of_find get_combo_by_name_def option.map_ident)
qed

lemma snap_strip: "tables_ok db \<Longrightarrow> snap_strip_prefix (build_snapshot tx b db) m = strip_proxy_prefix db m"
proof -
  have "find_provider db p \<noteq> None \<longleftrightarrow> list_ex (\<lambda>r. pv_id r = p) (db_providers db)" for p
    by (auto simp: find_provider_def find_None_iff list_ex_iff)
  then show "tables_ok db \<Longrightarrow> ?thesis"
    by (auto simp: snap_strip_prefix_def strip_proxy_prefix_def snap_providers split: option.split)
qed

definition models_routable :: "database \<Rightarrow> bool" where
  "models_routable db \<longleftrightarrow> (\<forall>m \<in> set (db_models db). mo_active m \<longrightarrow> provider_is_active db (mo_provider_id m))"

lemma find_cong_set: "(\<And>x. x \<in> set xs \<Longrightarrow> P x = Q x) \<Longrightarrow> find P xs = find Q xs"
  by (induction xs) auto

lemma snap_models:
  assumes "models_routable db"
  shows "hm_get (sn_models_by_name (build_snapshot tx b db)) n =
         map_option (\<lambda>m. (mo_id m, mo_provider_id m)) (find_active_by_name db n)"
    and "hm_get (sn_models_by_provider_name (build_snapshot tx b db)) (p, n) =
         map_option (\<lambda>m. (mo_id m, mo_provider_id m)) (find_active_by_provider_and_name db p n)"
proof -
  have set: "set (models_by_id db) = set (db_models db)" by (simp add: models_by_id_def)
  have "find (\<lambda>m. mo_active m \<and> mo_model_id m = n) (models_by_id db) = find_active_by_name db n"
    unfolding find_active_by_name_def
    by (rule find_cong_set) (use assms set in \<open>auto simp: models_routable_def\<close>)
  then show "hm_get (sn_models_by_name (build_snapshot tx b db)) n =
         map_option (\<lambda>m. (mo_id m, mo_provider_id m)) (find_active_by_name db n)"
    by (simp add: build_snapshot_def Let_def hm_get_or_insert_all map_of_find find_filter_conj)
  have "find (\<lambda>m. mo_active m \<and> mo_provider_id m = p \<and> mo_model_id m = n) (models_by_id db) =
      find_active_by_provider_and_name db p n"
    unfolding find_active_by_provider_and_name_def
    by (rule find_cong_set) (use assms set in \<open>auto simp: models_routable_def\<close>)
  then show "hm_get (sn_models_by_provider_name (build_snapshot tx b db)) (p, n) =
         map_option (\<lambda>m. (mo_id m, mo_provider_id m)) (find_active_by_provider_and_name db p n)"
    by (simp add: build_snapshot_def Let_def hm_get_or_insert_all map_of_find [where f = "\<lambda>m. (mo_provider_id m, mo_model_id m)"]
        find_filter_conj)
qed

lemma snap_direct:
  assumes "tables_ok db" "models_routable db"
  shows "try_resolve_direct (build_snapshot tx b db) n p a = try_resolve_direct_model db n p a"
proof -
  have acc: "list_ex (\<lambda>r. ac_id r = x \<and> ac_provider_id r = q) (db_accounts db) \<longleftrightarrow>
      map_option ac_provider_id (find_account db x) = Some q" for x q
  proof -
    have "find (\<lambda>r. ac_id r = x) zs = Some z \<longleftrightarrow> z \<in> set zs \<and> ac_id z = x" if "distinct (map ac_id zs)" for zs z
      using that by (induction zs) (auto simp: image_iff)
    then show ?thesis using assms(1) by (auto simp: find_account_def tables_ok_def list_ex_iff)
  qed
  show ?thesis
    unfolding try_resolve_direct_def try_resolve_direct_model_def provider_active_and_scope_def
      snap_providers [OF assms(1)] snap_accounts [OF assms(1)] snap_models [OF assms(2)] acc
    by (auto simp: Let_def split: option.splits prod.splits)
qed

text \<open>When the text order of deadlines is their order in time, and no deadline reads as a profile.\<close>

definition text_faithful :: "snap_text \<Rightarrow> int \<Rightarrow> database \<Rightarrow> bool" where
  "text_faithful tx now db \<longleftrightarrow>
     (\<forall>c \<in> set (db_cooldowns db).
        str_less (st_now tx now) (st_column tx (cd_until c)) = (\<not> time_over now (cd_until c)) \<and>
        (\<exists>e. client_profile_parse (st_column tx (cd_until c)) = Inl e))"

definition no_profiles :: "database \<Rightarrow> bool" where
  "no_profiles db \<longleftrightarrow> (\<forall>r \<in> set (db_targets db). ct_client_profile (tg_target r) = None)"

definition model_cooldowns_unchanged :: "int \<Rightarrow> int \<Rightarrow> database \<Rightarrow> bool" where
  "model_cooldowns_unchanged built now db \<longleftrightarrow>
     (\<forall>r \<in> set (db_targets db). in_model_cooldown built db (tg_target r) = in_model_cooldown now db (tg_target r))"

lemma row_to_target_keeps [simp]:
  "ct_active (row_to_target db t) = ct_active t" "ct_model_row_id (row_to_target db t) = ct_model_row_id t"
  "ct_sub_combo_id (row_to_target db t) = ct_sub_combo_id t"
  "cmp_target_order (row_to_target db a) (row_to_target db b) = cmp_target_order a b"
  "ct_client_profile (row_to_target db t) = ct_client_profile t"
  by (simp_all add: row_to_target_def cmp_target_order_def)

lemma snap_row_exact:
  assumes "text_faithful tx now db" "no_profiles db" "model_cooldowns_unchanged built now db"
    and "t \<in> tg_target ` set (db_targets db)"
  shows "target_row_active (snap_row tx built db t) (st_now tx now) \<longleftrightarrow> target_listed now db t"
    and "sr_target (snap_row tx built db t) = row_to_target db t"
proof -
  have cd: "find_cooldown db i = Some c \<Longrightarrow> c \<in> set (db_cooldowns db)" for i c
    by (auto simp: find_cooldown_def find_Some_iff)
  have mc: "in_model_cooldown built db t = in_model_cooldown now db t"
    using assms(3,4) by (auto simp: model_cooldowns_unchanged_def)
  have order: "str_less (st_now tx now) (st_column tx (cd_until c)) = (\<not> time_over now (cd_until c))"
    if "find_cooldown db i = Some c" for i c
    using assms(1) cd [OF that] by (simp add: text_faithful_def)
  show "target_row_active (snap_row tx built db t) (st_now tx now) \<longleftrightarrow> target_listed now db t"
    using mc order [of "ct_id t"]
    by (auto simp: target_row_active_def snap_row_def target_listed_def Let_def split: option.splits)
  have none: "ct_client_profile t = None" using assms(2,4) by (auto simp: no_profiles_def)
  have "(case client_profile_parse (st_column tx (cd_until c)) of Inl _ \<Rightarrow> None | Inr p \<Rightarrow> Some p) = None"
    if "find_cooldown db (ct_id t) = Some c" for c
    using assms(1) cd [OF that] by (auto simp: text_faithful_def)
  then have "Option.bind (map_option (\<lambda>c. st_column tx (cd_until c)) (find_cooldown db (ct_id t)))
      (\<lambda>s. case client_profile_parse s of Inl _ \<Rightarrow> None | Inr p \<Rightarrow> Some p) = None"
    by (cases "find_cooldown db (ct_id t)") simp_all
  then show "sr_target (snap_row tx built db t) = row_to_target db t"
    using none by (simp add: snap_row_def Let_def row_to_target_def)
qed

lemma snap_targets:
  assumes "text_faithful tx now db" "no_profiles db" "model_cooldowns_unchanged built now db"
  shows "map sr_target (filter (\<lambda>r. target_row_active r (st_now tx now))
           (case hm_get (sn_combo_targets (build_snapshot tx built db)) cid of None \<Rightarrow> [] | Some rs \<Rightarrow> rs)) =
         list_targets now db cid"
proof -
  let ?all = "map tg_target (db_targets db)"
  let ?known = "\<lambda>t. find_provider db (ct_provider_id t) \<noteq> None"
  have in_all: "t \<in> tg_target ` set (db_targets db)" if "t \<in> set (sort_by cmp (filter P ?all))" for t cmp P
    using that by auto
  have known: "target_listed now db t \<Longrightarrow> ?known t" for t
    by (auto simp: target_listed_def provider_is_active_def split: option.splits)
  have "map sr_target (filter (\<lambda>r. target_row_active r (st_now tx now))
      (case hm_get (sn_combo_targets (build_snapshot tx built db)) cid of None \<Rightarrow> [] | Some rs \<Rightarrow> rs)) =
    map sr_target (filter (\<lambda>r. target_row_active r (st_now tx now))
      (map (snap_row tx built db) (filter (\<lambda>t. ct_combo_id t = cid) (sort_by cmp_snap_order (filter ?known ?all)))))"
    by (simp add: build_snapshot_def Let_def hm_get_push_all snap_target_rows_def filter_map comp_def
        cmp_snap_order_def [abs_def])
  also have "\<dots> = map (row_to_target db) (filter (\<lambda>t. ct_combo_id t = cid \<and> target_listed now db t)
      (sort_by cmp_snap_order (filter ?known ?all)))"
  proof -
    let ?L = "sort_by cmp_snap_order (filter ?known ?all)"
    have "filter (\<lambda>t. target_row_active (snap_row tx built db t) (st_now tx now)) (filter (\<lambda>t. ct_combo_id t = cid) ?L) =
        filter (\<lambda>t. ct_combo_id t = cid \<and> target_listed now db t) ?L"
      unfolding filter_filter
      by (rule filter_cong [OF refl]) (simp only: snap_row_exact(1) [OF assms in_all] conj_commute)
    moreover have "map (\<lambda>t. sr_target (snap_row tx built db t)) (filter P ?L) = map (row_to_target db) (filter P ?L)" for P
      by (rule map_cong [OF refl], rule snap_row_exact(2) [OF assms in_all]) (unfold set_filter mem_Collect_eq, erule conjunct1)
    ultimately show ?thesis by (simp add: filter_map comp_def)
  qed
  also have "\<dots> = map (row_to_target db) (sort_by cmp_snap_order
      (filter (\<lambda>t. ct_combo_id t = cid \<and> target_listed now db t) ?all))"
    unfolding snap_order.filter_sort_by filter_filter
    by (rule arg_cong [where f = "\<lambda>xs. map (row_to_target db) (sort_by cmp_snap_order xs)"], rule filter_cong)
      (use known in auto)
  also have "sort_by cmp_snap_order (filter (\<lambda>t. ct_combo_id t = cid \<and> target_listed now db t) ?all) =
      sort_by cmp_target_order (filter (\<lambda>t. ct_combo_id t = cid \<and> target_listed now db t) ?all)"
    by (rule sort_by_cong) (auto simp: cmp_snap_order_def then_with_def cmp_int_def)
  finally show ?thesis by (simp add: list_targets_def sort_by_map)
qed

text \<open>
  C8: Routing from the snapshot is routing from the tables: for every model name, provider override and
  pinned account, when every active model belongs to an active provider, deadlines compare as text the
  way they compare in time, no model's cooldown ended or began since the snapshot was built, and no
  target carries a client profile. (Each of these conditions is needed.)
\<close>

theorem snapshot_parity:
  assumes "tables_ok db" "models_routable db" "text_faithful tx now db" "no_profiles db"
    "model_cooldowns_unchanged built now db"
  shows "resolve_with_options_snap (build_snapshot tx built db) (st_now tx now) model_str provider_override account_override =
         resolve_with_options now db model_str provider_override account_override"
proof -
  have pin: "pin_account (build_snapshot tx built db) aid ts = pin_account_to_targets db aid ts" for aid ts
    by (simp add: pin_account_def pin_account_to_targets_def snap_accounts [OF assms(1)] split: option.split)
  show ?thesis
    unfolding resolve_with_options_snap_def resolve_with_options_def snap_strip [OF assms(1)]
      snap_direct [OF assms(1,2)] snap_combos [OF assms(1)] Let_def snap_targets [OF assms(3-5)] pin ..
qed

section \<open>Where the snapshot and the tables part\<close>

definition route_provider :: "string \<Rightarrow> bool \<Rightarrow> provider_row" where
  "route_provider i act = \<lparr> pv_id = i, pv_active = act, pv_rate_limit_scope = ScopeAccount \<rparr>"

definition route_model :: "model_row_id \<Rightarrow> string \<Rightarrow> model_row" where
  "route_model i p =
     \<lparr> mo_id = i, mo_provider_id = p, mo_model_id = ''m'', mo_active = True, mo_context_length = None,
       mo_max_output_tokens = None, mo_input_modalities_json = None, mo_client_profile = None \<rparr>"

definition route_target :: "combo_target_id \<Rightarrow> combo_id \<Rightarrow> model_row_id option \<Rightarrow> combo_id option \<Rightarrow> target_row" where
  "route_target i c m s =
     \<lparr> tg_target = default_combo_target \<lparr> ct_id := i, ct_combo_id := c, ct_provider_id := ''p'',
         ct_model_row_id := m, ct_sub_combo_id := s \<rparr>, tg_upstream_model_id = None \<rparr>"

definition cooldown_at :: "combo_target_id \<Rightarrow> int \<Rightarrow> cooldown_row" where
  "cooldown_at i s = \<lparr> cd_target_id = i, cd_until = AtSecs s, cd_reason = None, cd_failure_count = 2 \<rparr>"

definition route_db :: database where
  "route_db =
     \<lparr> db_providers = [route_provider ''p'' True], db_models = [route_model 5 ''p''],
       db_accounts = [\<lparr> ac_id = 3, ac_provider_id = ''p'', ac_active = True, ac_priority = 0,
          ac_health_status = HsHealthy, ac_rate_limited_until = None \<rparr>],
       db_combos = [default_combo \<lparr> cb_id := 20, cb_name := ''c'' \<rparr>, default_combo \<lparr> cb_id := 21, cb_name := ''d'' \<rparr>],
       db_targets = [route_target 7 20 None (Some 21), route_target 8 20 (Some 5) None],
       db_cooldowns = [cooldown_at 7 100], db_next_target_id = 9 \<rparr>"

definition texts :: "string \<Rightarrow> string \<Rightarrow> snap_text" where
  "texts col now = \<lparr> st_column = (\<lambda>_. col), st_now = (\<lambda>_. now) \<rparr>"

definition plan_target_ids :: "routing_plan \<Rightarrow> (combo_target_id \<times> account_id option \<times> client_profile option) list" where
  "plan_target_ids p = (case p of PlanCombo _ _ _ _ ts \<Rightarrow> map (\<lambda>t. (ct_id t, ct_account_id t, ct_client_profile t)) ts
                        | PlanNotFound _ _ \<Rightarrow> [])"

theorem snapshot_parity_witness:
  "let tx = texts ''2025-01-01 00:01:40'' ''2025-01-01 00:00:50'' in
   resolve_with_options_snap (build_snapshot tx 50 route_db) (st_now tx 50) ''combo:c'' None (Some 3) =
     resolve_with_options 50 route_db ''combo:c'' None (Some 3) \<and>
   plan_target_ids (resolve_with_options 50 route_db ''combo:c'' None (Some 3)) = [(8, Some 3, None)]"
proof -
  let ?tx = "texts ''2025-01-01 00:01:40'' ''2025-01-01 00:00:50''"
  have "tables_ok route_db" by code_simp
  moreover have "models_routable route_db" by code_simp
  moreover have "str_less ''2025-01-01 00:00:50'' ''2025-01-01 00:01:40''" by code_simp
  moreover have "client_profile_parse ''2025-01-01 00:01:40'' = Inl (''unknown client profile: '' @ ''2025-01-01 00:01:40'')"
    by code_simp
  then have "text_faithful ?tx 50 route_db"
    using \<open>str_less _ _\<close>
    by (simp add: text_faithful_def texts_def route_db_def cooldown_at_def time_over_def)
  moreover have "no_profiles route_db" by code_simp
  moreover have "model_cooldowns_unchanged 50 50 route_db" by (simp add: model_cooldowns_unchanged_def)
  moreover have "plan_target_ids (resolve_with_options 50 route_db ''combo:c'' None (Some 3)) = [(8, Some 3, None)]"
    by code_simp
  ultimately show ?thesis using snapshot_parity [of route_db ?tx 50 50] by simp
qed

text \<open>A model of an inactive provider with a lower id hides the active provider's model of that name.\<close>

lemma snapshot_shadowed_model:
  "let db = route_db \<lparr> db_providers := [route_provider ''off'' False, route_provider ''p'' True],
                       db_models := [route_model 4 ''off'', route_model 5 ''p''] \<rparr>;
       tx = texts ''2025-01-01 00:01:40'' ''2025-01-01 00:00:50''
   in resolve_with_options_snap (build_snapshot tx 50 db) (st_now tx 50) ''m'' None None = PlanNotFound ''m'' None \<and>
      plan_target_ids (resolve_with_options 50 db ''m'' None None) = [(0, None, None)]"
  by code_simp

text \<open>A model cooldown that ended after the snapshot was built still hides the other targets of the model.\<close>

lemma snapshot_stale_model_cooldown:
  "let db = route_db \<lparr> db_targets := [route_target 7 21 (Some 5) None, route_target 8 20 (Some 5) None],
                       db_cooldowns := [cooldown_at 7 100] \<rparr>;
       tx = texts ''2025-01-01 00:01:40'' ''2025-01-01 00:02:00''
   in plan_target_ids (resolve_with_options_snap (build_snapshot tx 50 db) (st_now tx 120) ''combo:c'' None None) = [] \<and>
      plan_target_ids (resolve_with_options 120 db ''combo:c'' None None) = [(8, None, None)]"
  by code_simp

text \<open>
  A deadline as the cooldown store writes it (RFC 3339, 00:01:40) is after noon of the same day in the
  order of texts, so the target stays hidden although the cooldown is long over.
\<close>

lemma snapshot_cooldown_all_day:
  "let db = route_db \<lparr> db_targets := [route_target 8 20 (Some 5) None], db_cooldowns := [cooldown_at 8 100] \<rparr>;
       tx = texts ''2025-01-01T00:01:40+00:00'' ''2025-01-01 12:00:00''
   in plan_target_ids (resolve_with_options_snap (build_snapshot tx 43200 db) (st_now tx 43200) ''combo:c'' None None) = [] \<and>
      plan_target_ids (resolve_with_options 43200 db ''combo:c'' None None) = [(8, None, None)]"
  by code_simp

text \<open>The client profile of a target does not reach the snapshot.\<close>

lemma snapshot_loses_profile:
  "let db = route_db \<lparr> db_targets := [\<lparr> tg_target = tg_target (route_target 8 20 (Some 5) None)
                          \<lparr> ct_client_profile := Some Opencode \<rparr>, tg_upstream_model_id = None \<rparr>],
                       db_cooldowns := [] \<rparr>;
       tx = texts ''2025-01-01 00:01:40'' ''2025-01-01 00:00:50''
   in plan_target_ids (resolve_with_options_snap (build_snapshot tx 50 db) (st_now tx 50) ''combo:c'' None None) = [(8, None, None)] \<and>
      plan_target_ids (resolve_with_options 50 db ''combo:c'' None None) = [(8, None, Some Opencode)]"
  by code_simp

end
