(* ===== verification/Snapshot_Cache.thy ===== *)
theory Snapshot_Cache
  imports Routing
begin

text \<open>
  The cache in front of the routing snapshot (\<open>get_snapshot\<close> of openproxy-core/src/routing/snapshot.rs) and the
  counters that tell it when to rebuild (the hooks of openproxy-db/src/conn.rs). The modification times of the
  database files and SQLite's \<open>data_version\<close> on the probe connection are parameters: functions of the
  number of commits made to the database by anyone.
\<close>

section \<open>Versions\<close>

record versions =
  vs_config :: nat
  vs_cooldown :: nat
  vs_file :: "nat \<times> nat"
  vs_write :: nat

record epochs =
  ep_config :: nat
  ep_cooldown :: nat
  ep_accounts :: nat
  ep_write :: nat

definition table_epoch_hook :: "string \<Rightarrow> epochs \<Rightarrow> epochs" where
  "table_epoch_hook table e =
     (if table = ''accounts'' then e \<lparr> ep_accounts := ep_accounts e + 1 \<rparr>
      else if table = ''target_cooldowns'' then e \<lparr> ep_cooldown := ep_cooldown e + 1 \<rparr>
      else if table = ''models'' \<or> table = ''providers'' \<or> table = ''combos'' \<or> table = ''combo_targets''
      then e \<lparr> ep_config := ep_config e + 1 \<rparr>
      else e)"

definition commit_hook :: "epochs \<Rightarrow> epochs" where
  "commit_hook e = e \<lparr> ep_write := ep_write e + 1 \<rparr>"

definition probe_versions :: "epochs \<Rightarrow> nat \<times> nat \<Rightarrow> versions" where
  "probe_versions e file =
     \<lparr> vs_config = ep_config e, vs_cooldown = ep_cooldown e, vs_file = file, vs_write = ep_write e \<rparr>"

section \<open>The cache\<close>

record snapshot_state =
  ss_db_key :: string
  ss_config_version :: nat
  ss_cooldown_version :: nat
  ss_file_version :: "nat \<times> nat"
  ss_write_epoch :: nat
  ss_external_version :: "nat option"
  ss_snap :: routing_snapshot

record snap_cell =
  sc_snap :: "snapshot_state option"
  sc_last_rebuilt :: nat

abbreviation MIN_REBUILD :: nat where "MIN_REBUILD \<equiv> 50"

text \<open>The first look: serve what is there, with the baseline refreshed, or fall through to a rebuild.\<close>

definition serve_cached :: "string \<Rightarrow> versions \<Rightarrow> nat option \<Rightarrow> nat \<Rightarrow> snap_cell \<Rightarrow> snap_cell \<times> routing_snapshot option" where
  "serve_cached key v ext millis c =
     (case sc_snap c of
        None \<Rightarrow> (c, None)
      | Some st \<Rightarrow>
          (if ss_db_key st \<noteq> key then (c, None)
           else
             (let file_moved = ss_file_version st \<noteq> vs_file v;
                  external_write = (file_moved \<and> (ss_write_epoch st = vs_write v \<or> ss_external_version st \<noteq> ext))
              in if external_write then (c, None)
                 else
                   (let st' = (if file_moved then st \<lparr> ss_file_version := vs_file v, ss_write_epoch := vs_write v \<rparr> else st);
                        c' = c \<lparr> sc_snap := Some st' \<rparr>
                    in if ss_config_version st = vs_config v \<and> ss_cooldown_version st = vs_cooldown v
                       then (c', Some (ss_snap st))
                       else if ss_config_version st = vs_config v \<and> millis - sc_last_rebuilt c < MIN_REBUILD
                       then (c', Some (ss_snap st))
                       else (c', None)))))"

text \<open>The second look, under the lock that serialises rebuilds.\<close>

definition serve_rebuilt :: "string \<Rightarrow> versions \<Rightarrow> snap_cell \<Rightarrow> routing_snapshot option" where
  "serve_rebuilt key v c =
     (case sc_snap c of
        None \<Rightarrow> None
      | Some st \<Rightarrow>
          (if ss_db_key st = key \<and> ss_file_version st = vs_file v \<and> ss_write_epoch st = vs_write v \<and>
              ss_config_version st = vs_config v \<and> ss_cooldown_version st = vs_cooldown v
           then Some (ss_snap st) else None))"

definition get_snapshot ::
    "string \<Rightarrow> versions \<Rightarrow> nat option \<Rightarrow> nat \<Rightarrow> versions \<Rightarrow> core_error + routing_snapshot \<Rightarrow> nat option \<Rightarrow> nat \<Rightarrow>
     snap_cell \<Rightarrow> snap_cell \<times> (core_error + routing_snapshot)" where
  "get_snapshot key v ext millis v2 built ext2 millis2 c =
     (case serve_cached key v ext millis c of
        (c1, Some sn) \<Rightarrow> (c1, Inr sn)
      | (c1, None) \<Rightarrow>
          (case serve_rebuilt key v2 c1 of
             Some sn \<Rightarrow> (c1, Inr sn)
           | None \<Rightarrow>
               (case built of
                  Inl e \<Rightarrow> (c1, Inl e)
                | Inr sn \<Rightarrow>
                    (\<lparr> sc_snap = Some \<lparr> ss_db_key = key, ss_config_version = vs_config v2,
                          ss_cooldown_version = vs_cooldown v2, ss_file_version = vs_file v2,
                          ss_write_epoch = vs_write v2, ss_external_version = ext2, ss_snap = sn \<rparr>,
                       sc_last_rebuilt = millis2 \<rparr>, Inr sn))))"

section \<open>Histories of commits and reads\<close>

record snap_world =
  sw_db :: database
  sw_commits :: nat
  sw_epochs :: epochs
  sw_cell :: snap_cell

datatype world_op =
    OwnCommit "string list" database
  | ForeignCommit database
  | Read nat int

text \<open>
  A commit of this process runs the hooks, one call per changed row; a commit of another process runs
  none. A read takes the snapshot, built now if it has to be.
\<close>

definition read_snapshot :: "snap_text \<Rightarrow> (nat \<Rightarrow> nat \<times> nat) \<Rightarrow> (nat \<Rightarrow> nat option) \<Rightarrow> string \<Rightarrow> nat \<Rightarrow> int \<Rightarrow> snap_world \<Rightarrow>
    snap_cell \<times> (core_error + routing_snapshot)" where
  "read_snapshot tx mtime data_version key millis now w =
     (let v = probe_versions (sw_epochs w) (mtime (sw_commits w)); ext = data_version (sw_commits w)
      in get_snapshot key v ext millis v (Inr (build_snapshot tx now (sw_db w))) ext millis (sw_cell w))"

fun world_step :: "snap_text \<Rightarrow> (nat \<Rightarrow> nat \<times> nat) \<Rightarrow> (nat \<Rightarrow> nat option) \<Rightarrow> string \<Rightarrow> world_op \<Rightarrow> snap_world \<Rightarrow> snap_world" where
  "world_step tx mtime data_version key (OwnCommit tables db) w =
     w \<lparr> sw_db := db, sw_commits := sw_commits w + 1,
         sw_epochs := commit_hook (fold table_epoch_hook tables (sw_epochs w)) \<rparr>"
| "world_step tx mtime data_version key (ForeignCommit db) w = w \<lparr> sw_db := db, sw_commits := sw_commits w + 1 \<rparr>"
| "world_step tx mtime data_version key (Read millis now) w =
     w \<lparr> sw_cell := fst (read_snapshot tx mtime data_version key millis now w) \<rparr>"

definition start_world :: "database \<Rightarrow> snap_world" where
  "start_world db =
     \<lparr> sw_db = db, sw_commits = 0,
       sw_epochs = \<lparr> ep_config = 0, ep_cooldown = 0, ep_accounts = 0, ep_write = 0 \<rparr>,
       sw_cell = \<lparr> sc_snap = None, sc_last_rebuilt = 0 \<rparr> \<rparr>"

section \<open>A read sees the last commit\<close>

text \<open>
  What the cache relies on: every commit moves a modification time and the \<open>data_version\<close> of the probe,
  which is a connection of its own and so sees the commits of this process too.
\<close>

definition probes_move :: "(nat \<Rightarrow> nat \<times> nat) \<Rightarrow> (nat \<Rightarrow> nat option) \<Rightarrow> bool" where
  "probes_move mtime data_version \<longleftrightarrow> inj mtime \<and> inj data_version"

definition cell_ok :: "snap_text \<Rightarrow> (nat \<Rightarrow> nat \<times> nat) \<Rightarrow> (nat \<Rightarrow> nat option) \<Rightarrow> string \<Rightarrow> snap_world \<Rightarrow> bool" where
  "cell_ok tx mtime data_version key w \<longleftrightarrow>
     (\<forall>st. sc_snap (sw_cell w) = Some st \<longrightarrow> ss_db_key st = key \<and>
        (\<exists>n \<le> sw_commits w. ss_file_version st = mtime n \<and> ss_external_version st = data_version n \<and>
           (n = sw_commits w \<longrightarrow>
              (\<exists>built. ss_snap st = build_snapshot tx built (sw_db w)) \<and>
              ss_config_version st = ep_config (sw_epochs w) \<and> ss_cooldown_version st = ep_cooldown (sw_epochs w) \<and>
              ss_write_epoch st = ep_write (sw_epochs w))))"

lemma read_current:
  assumes "probes_move mtime data_version" "cell_ok tx mtime data_version key w"
  shows "cell_ok tx mtime data_version key (w \<lparr> sw_cell := fst (read_snapshot tx mtime data_version key millis now w) \<rparr>)"
    and "\<exists>built. snd (read_snapshot tx mtime data_version key millis now w) = Inr (build_snapshot tx built (sw_db w))"
proof -
  let ?n = "sw_commits w"
  have "cell_ok tx mtime data_version key (w \<lparr> sw_cell := fst (read_snapshot tx mtime data_version key millis now w) \<rparr>) \<and>
    (\<exists>built. snd (read_snapshot tx mtime data_version key millis now w) = Inr (build_snapshot tx built (sw_db w)))"
  proof (cases "\<exists>st. sc_snap (sw_cell w) = Some st \<and> ss_file_version st = mtime ?n")
    case True
    then obtain st where st: "sc_snap (sw_cell w) = Some st" "ss_file_version st = mtime ?n" by blast
    then obtain n where n: "ss_file_version st = mtime n" "ss_db_key st = key"
      "n = ?n \<Longrightarrow> (\<exists>built. ss_snap st = build_snapshot tx built (sw_db w)) \<and>
        ss_config_version st = ep_config (sw_epochs w) \<and> ss_cooldown_version st = ep_cooldown (sw_epochs w)"
      using assms(2) by (auto simp: cell_ok_def)
    have "n = ?n" using n(1) st(2) assms(1) by (simp add: probes_move_def inj_eq)
    with n(3) obtain built where b: "ss_snap st = build_snapshot tx built (sw_db w)"
      and vs: "ss_config_version st = ep_config (sw_epochs w)" "ss_cooldown_version st = ep_cooldown (sw_epochs w)" by blast
    have same: "sw_cell w \<lparr> sc_snap := Some st \<rparr> = sw_cell w" using st(1) by (cases "sw_cell w") simp
    have "read_snapshot tx mtime data_version key millis now w = (sw_cell w, Inr (ss_snap st))"
      using st n(2) vs same
      by (simp add: read_snapshot_def get_snapshot_def serve_cached_def probe_versions_def Let_def)
    moreover have "w \<lparr> sw_cell := sw_cell w \<rparr> = w" by simp
    ultimately show ?thesis using assms(2) b by auto
  next
    case False
    have miss: "serve_cached key (probe_versions (sw_epochs w) (mtime ?n)) (data_version ?n) millis (sw_cell w) = (sw_cell w, None)"
    proof (cases "sc_snap (sw_cell w)")
      case None
      then show ?thesis by (simp add: serve_cached_def)
    next
      case (Some st)
      then obtain n where n: "ss_file_version st = mtime n" "ss_external_version st = data_version n" "ss_db_key st = key"
        using assms(2) by (auto simp: cell_ok_def)
      then have "n \<noteq> ?n" using False Some by auto
      then have "data_version n \<noteq> data_version ?n" "mtime n \<noteq> mtime ?n"
        using assms(1) by (simp_all add: probes_move_def inj_eq)
      then show ?thesis using Some n by (simp add: serve_cached_def probe_versions_def Let_def)
    qed
    have again: "serve_rebuilt key (probe_versions (sw_epochs w) (mtime ?n)) (sw_cell w) = None"
      using False by (auto simp: serve_rebuilt_def probe_versions_def split: option.split)
    show ?thesis
      unfolding read_snapshot_def get_snapshot_def Let_def miss prod.case option.case again sum.case
      by (auto simp: cell_ok_def probe_versions_def)
  qed
  then show "cell_ok tx mtime data_version key (w \<lparr> sw_cell := fst (read_snapshot tx mtime data_version key millis now w) \<rparr>)"
    and "\<exists>built. snd (read_snapshot tx mtime data_version key millis now w) = Inr (build_snapshot tx built (sw_db w))"
    by blast+
qed

lemma cell_after_commit:
  assumes "cell_ok tx mtime data_version key w" "sw_cell w' = sw_cell w" "sw_commits w' = Suc (sw_commits w)"
  shows "cell_ok tx mtime data_version key w'"
  unfolding cell_ok_def
proof (intro allI impI)
  fix st assume "sc_snap (sw_cell w') = Some st"
  then obtain n where "ss_db_key st = key" "n \<le> sw_commits w" "ss_file_version st = mtime n"
      "ss_external_version st = data_version n"
    using assms(1,2) by (auto simp: cell_ok_def)
  then show "ss_db_key st = key \<and> (\<exists>n \<le> sw_commits w'. ss_file_version st = mtime n \<and> ss_external_version st = data_version n \<and>
      (n = sw_commits w' \<longrightarrow> (\<exists>built. ss_snap st = build_snapshot tx built (sw_db w')) \<and>
         ss_config_version st = ep_config (sw_epochs w') \<and> ss_cooldown_version st = ep_cooldown (sw_epochs w') \<and>
         ss_write_epoch st = ep_write (sw_epochs w')))"
    using assms(3) by (intro conjI exI [of _ n]) simp_all
qed

lemma world_step_ok:
  assumes "probes_move mtime data_version" "cell_ok tx mtime data_version key w"
  shows "cell_ok tx mtime data_version key (world_step tx mtime data_version key wop w)"
proof (cases wop)
  case (Read millis now)
  then show ?thesis using read_current(1) [OF assms] by simp
qed (simp_all add: cell_after_commit [OF assms(2)])

lemma world_run_ok:
  "probes_move mtime data_version \<Longrightarrow> cell_ok tx mtime data_version key w \<Longrightarrow>
   cell_ok tx mtime data_version key (fold (world_step tx mtime data_version key) ops w)"
  by (induction ops arbitrary: w) (simp_all add: world_step_ok)


section \<open>Concrete histories\<close>

definition demo_mtime :: "nat \<Rightarrow> nat \<times> nat" where
  "demo_mtime n = (0, n)"

definition served_accounts :: "core_error + routing_snapshot \<Rightarrow> account_id list" where
  "served_accounts res = (case res of Inl _ \<Rightarrow> [] | Inr sn \<Rightarrow> map fst (sn_accounts sn))"

definition no_accounts_db :: database where
  "no_accounts_db = route_db \<lparr> db_accounts := [] \<rparr>"


text \<open>
  Without the probe (\<open>data_version\<close> unavailable at both looks) an internal commit counts as explained by
  the write epoch, and accounts bump no epoch the snapshot looks at: a new account stays unknown.
\<close>

lemma account_unnoticed_without_probe:
  "served_accounts (snd (read_snapshot (texts [] []) demo_mtime (\<lambda>_. None) ''k'' 9 9
     (fold (world_step (texts [] []) demo_mtime (\<lambda>_. None) ''k'')
        [Read 2 2, OwnCommit [''accounts''] route_db] (start_world no_accounts_db)))) = [] \<and>
   map ac_id (db_accounts route_db) = [3]"
  by code_simp

text \<open>With the probe, a commit to an unrelated table makes the next read rebuild the snapshot.\<close>

lemma unrelated_commit_rebuilds:
  "sc_last_rebuilt (sw_cell (fold (world_step (texts [] []) demo_mtime Some ''k'')
     [Read 2 2, OwnCommit [''usage''] route_db, Read 9 9] (start_world route_db))) = 9"
  by code_simp

end
