(* ===== verification/Plan_Auth.thy ===== *)
theory Plan_Auth
  imports Routing Key_Auth Usage_Rows
begin

text \<open>
  Routing of an authenticated chat request (openproxy-server/src/middleware/routing.rs and the model
  checks of middleware/auth.rs): the checks on the requested name, the plan, pre-resolved or not, the
  restriction of its targets to what the key may use, and the translation of the plan into what the
  pipeline is handed. Reading the request body is not modelled; the model name is an argument.
\<close>

section \<open>The checks on the requested name\<close>

definition verify_combo_authorization ::
    "int \<Rightarrow> database \<Rightarrow> api_key option \<Rightarrow> string \<Rightarrow> core_error + routing_plan option" where
  "verify_combo_authorization now db auth model_name =
     (let plan = routing_resolve now db model_name in
      case plan of
        PlanCombo cid _ _ _ _ \<Rightarrow>
          (if cid \<noteq> SYNTHETIC_COMBO_ID \<and>
              (case auth of Some key \<Rightarrow> \<not> is_combo_allowed key cid | None \<Rightarrow> False)
           then Inl (Auth ''combo not allowed for this key'') else Inr (Some plan))
      | PlanNotFound _ _ \<Rightarrow> Inr (Some plan))"

definition model_refused :: "string \<Rightarrow> core_error" where
  "model_refused model = Auth (''model '' @ [CHR 39] @ model @ [CHR 39] @ '' not allowed or blacklisted for this key'')"

text \<open>Handlers of the media endpoints: authenticate, then check the model and its combo.\<close>

definition authenticate_and_authorize_model ::
    "key_env \<Rightarrow> string unstable_sorter \<Rightarrow> auth_clock \<Rightarrow> int \<Rightarrow> database \<Rightarrow> header_map \<Rightarrow> string \<Rightarrow> gate \<Rightarrow>
     gate \<times> (core_error + api_key_id option)" where
  "authenticate_and_authorize_model env srt clk now db headers model_name g =
     (case authenticate env srt clk headers g of
        (g1, Inl e) \<Rightarrow> (g1, Inl e)
      | (g1, Inr auth) \<Rightarrow>
          (if (case auth of Some key \<Rightarrow> \<not> is_model_allowed key model_name None | None \<Rightarrow> False)
           then (g1, Inl (model_refused model_name))
           else case verify_combo_authorization now db auth model_name of
                  Inl e \<Rightarrow> (g1, Inl e)
                | Inr _ \<Rightarrow> (g1, Inr (map_option ak_id auth))))"

record pre_resolved =
  pp_model :: string
  pp_legacy_combo_name :: "string option"
  pp_provider_override :: "string option"
  pp_account_override :: "account_id option"
  pp_plan :: routing_plan

text \<open>The authorisation part of \<open>auth_middleware\<close>, once the body has been read.\<close>

definition authorize_chat ::
    "int \<Rightarrow> database \<Rightarrow> api_key option \<Rightarrow> string \<Rightarrow> core_error + pre_resolved option" where
  "authorize_chat now db auth requested_model =
     (case auth of
        None \<Rightarrow> Inr None
      | Some key \<Rightarrow>
          (if \<not> list_ex (\<lambda>s. s = ''chat'' \<or> s = ''manage'') (ak_scopes key)
           then Inl (Auth ''api key lacks required scope'')
           else if \<not> is_model_allowed key requested_model None then Inl (model_refused requested_model)
           else case verify_combo_authorization now db (Some key) requested_model of
                  Inl e \<Rightarrow> Inl e
                | Inr plan \<Rightarrow>
                    Inr (map_option (\<lambda>p. \<lparr> pp_model = requested_model, pp_legacy_combo_name = None,
                      pp_provider_override = None, pp_account_override = None, pp_plan = p \<rparr>) plan)))"

section \<open>Plans from a request\<close>

definition matches_request ::
    "pre_resolved \<Rightarrow> string \<Rightarrow> string option \<Rightarrow> string option \<Rightarrow> account_id option \<Rightarrow> bool" where
  "matches_request pre model legacy provider account \<longleftrightarrow>
     pp_model pre = model \<and> pp_legacy_combo_name pre = legacy \<and> pp_provider_override pre = provider \<and>
     pp_account_override pre = account"

definition legacy_combo_header :: "header_map \<Rightarrow> string option" where
  "legacy_combo_header headers = header_str headers ''x-openproxy-combo''"

definition provider_header :: "header_map \<Rightarrow> string option" where
  "provider_header headers =
     (case map_option trim (header_str headers ''x-openproxy-provider'') of
        Some s \<Rightarrow> if s = [] then None else Some s | None \<Rightarrow> None)"

definition account_header :: "header_map \<Rightarrow> account_id option" where
  "account_header headers =
     Option.bind (header_str headers ''x-openproxy-account'') (\<lambda>s. parse_i64 (trim s))"

text \<open>
  A named combo is pinned without looking whether any of its targets is of the account's provider.
  The snapshot is an argument, \<open>None\<close> when it could not be built.
\<close>

definition resolve_raw_routing_plan ::
    "int \<Rightarrow> database \<Rightarrow> (routing_snapshot \<times> string) option \<Rightarrow> string option \<Rightarrow> string option \<Rightarrow>
     account_id option \<Rightarrow> string \<Rightarrow> core_error + routing_plan" where
  "resolve_raw_routing_plan now db snap legacy provider account model =
     (case legacy of
        Some name \<Rightarrow>
          (case get_combo_by_name db name of
             None \<Rightarrow> Inl (ComboNotFound 0)
           | Some combo \<Rightarrow>
               (let targets = list_targets now db (cb_id combo) in
                Inr (plan_of combo
                  (case account of
                     None \<Rightarrow> targets
                   | Some aid \<Rightarrow>
                       (case find_account db aid of
                          None \<Rightarrow> targets
                        | Some a \<Rightarrow>
                            (let prov = ac_provider_id a in
                             filter (\<lambda>t. ct_provider_id t = prov \<or> ct_sub_combo_id t \<noteq> None)
                               (map (\<lambda>t. if ct_provider_id t = prov then t \<lparr> ct_account_id := Some aid \<rparr> else t)
                                 targets)))))))
      | None \<Rightarrow>
          (case snap of
             Some (sn, now_text) \<Rightarrow> Inr (resolve_with_options_snap sn now_text model provider account)
           | None \<Rightarrow> Inr (resolve_with_options now db model provider account)))"

section \<open>Restricting a plan to a key\<close>

definition is_whitelisted_combo :: "api_key \<Rightarrow> combo_id \<Rightarrow> bool" where
  "is_whitelisted_combo key cid =
     (case ak_allowed_combos key of Some ac \<Rightarrow> ac \<noteq> [] \<and> cid \<in> set ac | None \<Rightarrow> False)"

definition target_kept :: "database \<Rightarrow> api_key \<Rightarrow> combo_id \<Rightarrow> combo_target \<Rightarrow> bool" where
  "target_kept db key cid t =
     (let model_allowed = map_option (\<lambda>m. is_model_allowed key (mo_model_id m) (Some (ct_provider_id t)))
            (Option.bind (ct_model_row_id t) (find_model db));
          prov_blacklisted = (case ak_blacklisted_providers key of
            Some bp \<Rightarrow> list_ex (\<lambda>p. p = ct_provider_id t \<or> p = ''*'') bp | None \<Rightarrow> False)
      in if prov_blacklisted then False
         else if is_whitelisted_combo key cid then True
         else case model_allowed of
                Some allowed \<Rightarrow> allowed
              | None \<Rightarrow> is_provider_allowed key (ct_provider_id t))"

definition filter_combo_targets_by_auth ::
    "database \<Rightarrow> api_key \<Rightarrow> combo_id \<Rightarrow> combo_target list \<Rightarrow> core_error + combo_target list" where
  "filter_combo_targets_by_auth db key cid targets =
     (let kept = filter (target_kept db key cid) targets in
      if kept = [] then Inl (Auth ''all upstream targets in combo are restricted for this key'') else Inr kept)"

definition has_restrictions :: "api_key \<Rightarrow> bool" where
  "has_restrictions key \<longleftrightarrow>
     ak_blacklisted_providers key \<noteq> None \<or> ak_allowed_providers key \<noteq> None \<or>
     ak_blacklisted_models key \<noteq> None \<or>
     (case ak_allowed_models key of Some a \<Rightarrow> a \<noteq> [] | None \<Rightarrow> False)"

definition apply_auth_restrictions_to_plan ::
    "database \<Rightarrow> api_key \<Rightarrow> routing_plan \<Rightarrow> core_error + routing_plan \<times> bool" where
  "apply_auth_restrictions_to_plan db key plan =
     (case plan of
        PlanNotFound _ _ \<Rightarrow> Inr (plan, False)
      | PlanCombo cid name strat race targets \<Rightarrow>
          (if cid \<noteq> SYNTHETIC_COMBO_ID \<and> \<not> is_combo_allowed key cid
           then Inl (Auth ''combo not allowed for this key'')
           else if has_restrictions key
           then (case filter_combo_targets_by_auth db key cid targets of
                   Inl e \<Rightarrow> Inl e
                 | Inr ts \<Rightarrow> Inr (PlanCombo cid name strat race ts, True))
           else Inr (plan, False)))"

definition restrict_plan ::
    "database \<Rightarrow> api_key option \<Rightarrow> routing_plan \<Rightarrow> core_error + routing_plan \<times> bool" where
  "restrict_plan db auth plan =
     (case auth of Some key \<Rightarrow> apply_auth_restrictions_to_plan db key plan | None \<Rightarrow> Inr (plan, False))"

definition resolve_routing_plan ::
    "int \<Rightarrow> database \<Rightarrow> (routing_snapshot \<times> string) option \<Rightarrow> header_map \<Rightarrow> string \<Rightarrow> api_key option \<Rightarrow>
     core_error + routing_plan \<times> bool" where
  "resolve_routing_plan now db snap headers model auth =
     (case resolve_raw_routing_plan now db snap (legacy_combo_header headers) (provider_header headers)
             (account_header headers) model of
        Inl e \<Rightarrow> Inl e
      | Inr plan \<Rightarrow> restrict_plan db auth plan)"

section \<open>What the pipeline is handed\<close>

type_synonym resolved_route = "combo_id \<times> combo option \<times> combo_target list option"

definition record_model_not_found_usage_row ::
    "string \<Rightarrow> string \<Rightarrow> api_key_id option \<Rightarrow> string \<Rightarrow> usage_input" where
  "record_model_not_found_usage_row request_id trace_id key_id upstream_model =
     \<lparr> ui_request_id = request_id, ui_trace_id = trace_id, ui_attempt = 1, ui_provider_id = [],
       ui_account_id = None, ui_combo_id = None, ui_combo_target_id = None, ui_model_row_id = None,
       ui_upstream_model_id = upstream_model, ui_prompt_tokens = None, ui_completion_tokens = None,
       ui_cached_tokens = None, ui_connect_ms = None, ui_ttft_ms = None, ui_total_ms = 0,
       ui_status_code = 404, ui_error_msg = Some ''model_not_found'', ui_race_total = 1,
       ui_api_key_id = key_id, ui_request_body_json = None, ui_response_body_json = None,
       ui_request_headers = None, ui_response_headers = None, ui_error_message = Some ''model_not_found'',
       ui_race_attempts = 1, ui_stop_reason = None, ui_compression_savings_pct = None,
       ui_compression_techniques = None, ui_pii_redacted = None, ui_endpoint_kind = EkChat,
       ui_proxy_url = None, ui_proxy_status = None, ui_flags = USAGE_FLAG_CLIENT_RESPONSE, ui_audio_ms = None \<rparr>"

definition translate_plan_to_targets ::
    "string \<Rightarrow> string \<Rightarrow> routing_plan \<Rightarrow> bool \<Rightarrow> api_key_id option \<Rightarrow> usage_input list \<times> (core_error + resolved_route)" where
  "translate_plan_to_targets request_id trace_id plan has_key_restrictions key_id =
     (case plan of
        PlanCombo cid name strat race targets \<Rightarrow>
          ([], Inr
            (if cid = SYNTHETIC_COMBO_ID then
               (cid,
                Some (default_combo \<lparr> cb_id := cid, cb_name := name, cb_strategy := strat, cb_race_size := race,
                  cb_priority_mode := Strict, cb_cooldown_mode := Flat \<rparr>),
                Some targets)
             else if has_key_restrictions then (cid, None, Some targets)
             else (cid, None, None)))
      | PlanNotFound model hint \<Rightarrow>
          ([record_model_not_found_usage_row request_id trace_id key_id model],
           Inl (ModelNotFound ''<unknown>''
             (''model not found: '' @ model @ (case hint of Some h \<Rightarrow> '' (hint: '' @ h @ '')'' | None \<Rightarrow> [])))))"

definition routing_middleware ::
    "string \<Rightarrow> string \<Rightarrow> int \<Rightarrow> database \<Rightarrow> (routing_snapshot \<times> string) option \<Rightarrow> header_map \<Rightarrow> string \<Rightarrow>
     api_key option \<Rightarrow> pre_resolved option \<Rightarrow> usage_input list \<times> (core_error + resolved_route)" where
  "routing_middleware request_id trace_id now db snap headers model auth pre =
     (let planned =
        (case pre of
           Some p \<Rightarrow>
             (if matches_request p model (legacy_combo_header headers) (provider_header headers)
                   (account_header headers)
              then restrict_plan db auth (pp_plan p)
              else resolve_routing_plan now db snap headers model auth)
         | None \<Rightarrow> resolve_routing_plan now db snap headers model auth)
      in case planned of
           Inl e \<Rightarrow> ([], Inl e)
         | Inr (plan, restr) \<Rightarrow>
             translate_plan_to_targets request_id trace_id plan restr (map_option ak_id auth))"

section \<open>What reaches the pipeline is permitted\<close>

text \<open>The rule a target has to meet under a key, when it belongs to combo \<open>cid\<close>.\<close>

definition target_permitted :: "database \<Rightarrow> api_key \<Rightarrow> combo_id \<Rightarrow> combo_target \<Rightarrow> bool" where
  "target_permitted db key cid t \<longleftrightarrow>
     \<not> is_provider_blacklisted (ak_blacklisted_providers key) (Some (ct_provider_id t)) \<and>
     (is_whitelisted_combo key cid \<or>
      (\<exists>m. Option.bind (ct_model_row_id t) (find_model db) = Some m \<and>
           is_model_allowed key (mo_model_id m) (Some (ct_provider_id t))) \<or>
      Option.bind (ct_model_row_id t) (find_model db) = None \<and> is_provider_allowed key (ct_provider_id t))"

lemma target_kept_iff: "target_kept db key cid t \<longleftrightarrow> target_permitted db key cid t"
  by (auto simp: target_kept_def target_permitted_def is_provider_blacklisted_def Let_def split: option.splits if_splits)

lemma unrestricted_permits:
  assumes "\<not> has_restrictions key" "is_model_allowed key model None"
  shows "target_permitted db key cid t"
proof -
  have no_list: "ak_blacklisted_providers key = None" "ak_allowed_providers key = None"
      "ak_blacklisted_models key = None" "\<And>a. ak_allowed_models key = Some a \<Longrightarrow> a = []"
    using assms(1) by (auto simp: has_restrictions_def split: option.splits)
  have "\<not> ak_only_whitelisted key"
    using assms(2) no_list(4)
    by (auto simp: is_model_allowed_def Let_def split: option.splits prod.splits)
  with no_list have "is_model_allowed key m p" for m p
    by (auto simp: is_model_allowed_def Let_def is_model_blocked_by_blacklist_def is_provider_blacklisted_def
        is_provider_in_allowlist_def split: option.splits prod.splits)
  with no_list show ?thesis
    by (auto simp: target_permitted_def is_provider_blacklisted_def is_provider_allowed_def)
qed

lemma restrict_plan_permits:
  assumes "restrict_plan db (Some key) plan = Inr (PlanCombo cid name strat race ts, restr)"
  shows "cid = SYNTHETIC_COMBO_ID \<or> is_combo_allowed key cid"
    and "restr = has_restrictions key"
    and "restr \<Longrightarrow> t \<in> set ts \<Longrightarrow> target_permitted db key cid t"
    and "restr \<Longrightarrow> ts \<noteq> []"
  using assms
  by (auto simp: restrict_plan_def apply_auth_restrictions_to_plan_def filter_combo_targets_by_auth_def
      target_kept_iff Let_def split: routing_plan.splits if_splits)

lemma restricted_route:
  assumes "restrict_plan db (Some key) plan = Inr (p, restr)" "is_model_allowed key model None"
    and "snd (translate_plan_to_targets rid tid p restr kid) = Inr (cid, co, ts)"
  shows "cid = SYNTHETIC_COMBO_ID \<or> is_combo_allowed key cid"
    and "case ts of Some us \<Rightarrow> \<forall>t \<in> set us. target_permitted db key cid t
         | None \<Rightarrow> \<forall>db' t. target_permitted db' key cid t"
proof -
  from assms(3) obtain name strat race us where p: "p = PlanCombo cid name strat race us"
    and ts: "ts = Some us \<or> ts = None \<and> \<not> restr"
    by (cases p) (auto simp: translate_plan_to_targets_def split: if_splits)
  note facts = restrict_plan_permits [OF assms(1) [unfolded p]]
  show "cid = SYNTHETIC_COMBO_ID \<or> is_combo_allowed key cid" by (rule facts(1))
  have free: "\<not> restr \<Longrightarrow> target_permitted db' key cid t" for db' t
    using unrestricted_permits [OF _ assms(2)] facts(2) by simp
  show "case ts of Some us \<Rightarrow> \<forall>t \<in> set us. target_permitted db key cid t
        | None \<Rightarrow> \<forall>db' t. target_permitted db' key cid t"
    using ts facts(3) free by (cases restr) auto
qed

lemma routing_middleware_planned:
  assumes "snd (routing_middleware rid tid now db snap headers model auth pre) = Inr route"
  obtains plan p restr where "restrict_plan db auth plan = Inr (p, restr)"
    and "snd (translate_plan_to_targets rid tid p restr (map_option ak_id auth)) = Inr route"
  using assms that
  by (auto simp: routing_middleware_def resolve_routing_plan_def Let_def split: option.splits if_splits sum.splits prod.splits)


section \<open>Concrete requests\<close>

definition restricted_key :: "string list option \<Rightarrow> string list option \<Rightarrow> string list option \<Rightarrow> api_key" where
  "restricted_key allowed_models blacklisted_providers blacklisted_models =
     demo_key \<lparr> ak_allowed_models := allowed_models, ak_blacklisted_providers := blacklisted_providers,
       ak_blacklisted_models := blacklisted_models, ak_only_whitelisted := False,
       ak_allowed_combos := None, ak_allowed_providers := None \<rparr>"

definition two_provider_db :: database where
  "two_provider_db = route_db
     \<lparr> db_providers := [route_provider ''p'' True, route_provider ''q'' True],
       db_models := [route_model 5 ''p'', route_model 6 ''q''],
       db_targets := [route_target 8 20 (Some 5) None,
         \<lparr> tg_target = (tg_target (route_target 9 20 (Some 6) None)) \<lparr> ct_provider_id := ''q'' \<rparr>,
           tg_upstream_model_id = None \<rparr>],
       db_cooldowns := [] \<rparr>"

definition no_headers :: header_map where
  "no_headers name = None"

definition route_ids :: "core_error + resolved_route \<Rightarrow> (combo_id \<times> combo_target_id list option) option" where
  "route_ids res = (case res of Inl _ \<Rightarrow> None | Inr (cid, co, ts) \<Rightarrow> Some (cid, map_option (map ct_id) ts))"

definition chat_route :: "database \<Rightarrow> header_map \<Rightarrow> string \<Rightarrow> api_key \<Rightarrow> core_error + resolved_route" where
  "chat_route db headers model key =
     (case authorize_chat 50 db (Some key) model of
        Inl e \<Rightarrow> Inl e
      | Inr pre \<Rightarrow> snd (routing_middleware ''r'' ''t'' 50 db None headers model (Some key) pre))"


text \<open>
  An entry of \<open>allowed_models\<close> is meant to open a model of a blacklisted provider; the name passes the
  checks and the routing refuses its only target.
\<close>

lemma explicit_allow_refused:
  "let key = restricted_key (Some [''q/m'']) (Some [''q'']) None in
   is_model_allowed key ''q/m'' None \<and> is_model_allowed key ''m'' (Some ''q'') \<and>
   chat_route two_provider_db no_headers ''q/m'' key =
     Inl (Auth ''all upstream targets in combo are restricted for this key'')"
  by code_simp

text \<open>
  A model the key blacklists is reachable through a combo inside a combo: only the provider of the
  inner combo's target is looked at.
\<close>

lemma nested_combo_bypass:
  "let key = restricted_key None None (Some [''m'']);
       db = route_db \<lparr> db_targets := [route_target 7 20 None (Some 21), route_target 8 21 (Some 5) None], db_cooldowns := [] \<rparr>
   in \<not> is_model_allowed key ''m'' (Some ''p'') \<and>
      route_ids (chat_route db no_headers ''combo:c'' key) = Some (20, Some [7]) \<and>
      map ct_model_row_id (list_targets 50 db 21) = [Some 5]"
  by code_simp

text \<open>
  The account header pins the targets of the plan, but for a key without restrictions the plan's
  targets are not handed on, so the pipeline lists the combo unpinned.
\<close>

lemma pinned_account_dropped:
  "let key = restricted_key None None None;
       headers = (\<lambda>name. if name = ''x-openproxy-account'' then Some (Visible ''3'') else None)
   in plan_target_ids (resolve_with_options 50 two_provider_db ''combo:c'' None (account_header headers)) = [(8, Some 3, None)] \<and>
      route_ids (chat_route two_provider_db headers ''combo:c'' key) = Some (20, None) \<and>
      map ct_account_id (list_targets 50 two_provider_db 20) = [None, None]"
  by code_simp

end
