(* ===== verification/Request_Sanitizing.thy ===== *)
theory Request_Sanitizing
  imports Pii_Engine
begin

text \<open>
  Pairing of tool calls and tool results before a request is routed
  (openproxy-server/src/middleware/auth_sanitization.rs): duplicate call ids are renamed, results without a
  call and calls without a result are dropped. Messages are those of \<open>Pii_Engine\<close>.
\<close>

section \<open>Pairing tool calls with their results\<close>

abbreviation MAX_TOOL_CALLS :: nat where "MAX_TOOL_CALLS \<equiv> 64"
abbreviation MAX_ID_LEN :: nat where "MAX_ID_LEN \<equiv> 128"

abbreviation is_assistant :: "pii_message \<Rightarrow> bool" where "is_assistant m \<equiv> om_role m = ''assistant''"
abbreviation is_tool :: "pii_message \<Rightarrow> bool" where "is_tool m \<equiv> om_role m = ''tool''"

definition call_id :: "json \<Rightarrow> string option" where
  "call_id call = Option.bind (json_get call ''id'') json_as_str"

definition set_call_id :: "string \<Rightarrow> json \<Rightarrow> json" where
  "set_call_id new call = (case call of JObj kvs \<Rightarrow> JObj (hm_put ''id'' (JStr new) kvs) | v \<Rightarrow> v)"

text \<open>The first loop: the second and later calls with an id get it with their number appended.\<close>

fun rename_calls :: "(string, nat) hmap \<Rightarrow> (string, string list) hmap \<Rightarrow> json list \<Rightarrow>
    json list \<times> (string, string list) hmap" where
  "rename_calls seen replacements [] = ([], replacements)"
| "rename_calls seen replacements (call # calls) =
     (case call_id call of
        None \<Rightarrow> (let (cs, r) = rename_calls seen replacements calls in (call # cs, r))
      | Some id_str \<Rightarrow>
          (let n = (case hm_get seen id_str of Some n \<Rightarrow> n | None \<Rightarrow> 0);
               new_id = id_str @ ''_'' @ show_nat n;
               seen' = hm_put id_str (n + 1) seen
           in if 0 < n then
                (let (cs, r) = rename_calls seen'
                   (hm_entry_update id_str [] (\<lambda>ids. ids @ [new_id]) replacements) calls
                 in (set_call_id new_id call # cs, r))
              else (let (cs, r) = rename_calls seen' replacements calls in (call # cs, r))))"

text \<open>The second loop: the results that follow take over the new ids in order.\<close>

fun rename_results :: "(string, string list) hmap \<Rightarrow> (string, nat) hmap \<Rightarrow> pii_message list \<Rightarrow> pii_message list" where
  "rename_results replacements cursors [] = []"
| "rename_results replacements cursors (m # ms) =
     (if \<not> is_tool m then m # ms
      else case om_tool_call_id m of
        None \<Rightarrow> m # rename_results replacements cursors ms
      | Some t_id \<Rightarrow>
          (case hm_get replacements t_id of
             None \<Rightarrow> m # rename_results replacements cursors ms
           | Some new_ids \<Rightarrow>
               (let cursor = (case hm_get cursors t_id of Some c \<Rightarrow> c | None \<Rightarrow> 0)
                in (if 0 < cursor \<and> cursor - 1 < length new_ids
                    then m \<lparr> om_tool_call_id := Some (new_ids ! (cursor - 1)) \<rparr> else m) #
                   rename_results replacements (hm_put t_id (cursor + 1) cursors) ms)))"

lemma length_rename_results [simp]: "length (rename_results r c ms) = length ms"
  by (induction r c ms rule: rename_results.induct) (auto simp: Let_def split: option.split)

function disambiguate_duplicate_tool_call_ids :: "pii_message list \<Rightarrow> pii_message list" where
  "disambiguate_duplicate_tool_call_ids [] = []"
| "disambiguate_duplicate_tool_call_ids (m # ms) =
     (case om_tool_calls m of
        Some calls \<Rightarrow>
          (if is_assistant m \<and> calls \<noteq> [] then
             (let (calls', replacements) = rename_calls [] [] calls
              in (m \<lparr> om_tool_calls := Some calls' \<rparr>) #
                 disambiguate_duplicate_tool_call_ids
                   (if replacements = [] then ms else rename_results replacements [] ms))
           else m # disambiguate_duplicate_tool_call_ids ms)
      | None \<Rightarrow> m # disambiguate_duplicate_tool_call_ids ms)"
  by pat_completeness auto

termination by (relation "measure length") auto

definition extract_assistant_tool_call_ids :: "pii_message \<Rightarrow> pii_message \<times> string list" where
  "extract_assistant_tool_call_ids m =
     (case om_tool_calls m of
        None \<Rightarrow> (m, [])
      | Some calls \<Rightarrow>
          (let kept = take MAX_TOOL_CALLS calls
           in (m \<lparr> om_tool_calls := Some kept \<rparr>,
               filter (\<lambda>i. length i \<le> MAX_ID_LEN) (List.map_filter call_id kept))))"

fun call_position :: "'a \<Rightarrow> 'a list \<Rightarrow> nat option" where
  "call_position x [] = None"
| "call_position x (y # ys) = (if y = x then Some 0 else map_option Suc (call_position x ys))"

definition find_matching_tool_call :: "pii_message \<Rightarrow> string list \<Rightarrow> nat option" where
  "find_matching_tool_call m calls =
     (case om_tool_call_id m of
        None \<Rightarrow> None
      | Some i \<Rightarrow> if MAX_ID_LEN < length i then None else call_position i calls)"

definition remove_at :: "nat \<Rightarrow> 'a list \<Rightarrow> 'a list" where
  "remove_at i xs = take i xs @ drop (Suc i) xs"

fun retain_paired :: "string list \<Rightarrow> pii_message list \<Rightarrow> pii_message list" where
  "retain_paired last_calls [] = []"
| "retain_paired last_calls (m # ms) =
     (if is_assistant m then
        (let (m', ids) = extract_assistant_tool_call_ids m in m' # retain_paired ids ms)
      else if is_tool m then
        (case find_matching_tool_call m last_calls of
           None \<Rightarrow> retain_paired last_calls ms
         | Some pos \<Rightarrow> m # retain_paired (remove_at pos last_calls) ms)
      else m # retain_paired [] ms)"

definition is_tool_call_fulfilled :: "json \<Rightarrow> pii_message list \<Rightarrow> bool" where
  "is_tool_call_fulfilled call following =
     (case call_id call of
        None \<Rightarrow> False
      | Some i \<Rightarrow>
          length i \<le> MAX_ID_LEN \<and>
          list_ex (\<lambda>m. om_tool_call_id m = Some i) (take MAX_TOOL_CALLS (takeWhile is_tool following)))"

fun prune_unfulfilled_tool_calls :: "pii_message list \<Rightarrow> pii_message list" where
  "prune_unfulfilled_tool_calls [] = []"
| "prune_unfulfilled_tool_calls (m # ms) =
     (if is_assistant m then
        (case om_tool_calls m of
           Some calls \<Rightarrow>
             (let kept = filter (\<lambda>c. is_tool_call_fulfilled c ms) calls
              in m \<lparr> om_tool_calls := (if kept = [] then None else Some kept) \<rparr>)
         | None \<Rightarrow> m)
      else m) # prune_unfulfilled_tool_calls ms"

definition sanitize_tool_calls :: "pii_message list \<Rightarrow> pii_message list" where
  "sanitize_tool_calls messages =
     prune_unfulfilled_tool_calls (retain_paired [] (disambiguate_duplicate_tool_call_ids messages))"

section \<open>Every result answers a call and every call is answered\<close>

definition calls_of :: "pii_message \<Rightarrow> json list" where
  "calls_of m = (case om_tool_calls m of None \<Rightarrow> [] | Some cs \<Rightarrow> cs)"

text \<open>
  The form upstreams ask for: no result without a call; the results behind an assistant message answer
  its calls, each call id at most as often as it was called, and no call stays without an answer.
\<close>

definition answered :: "pii_message \<Rightarrow> pii_message list \<Rightarrow> bool" where
  "answered m run \<longleftrightarrow>
     (\<exists>ids. map om_tool_call_id run = map Some ids \<and> mset (map Some ids) \<subseteq># mset (map call_id (calls_of m))
        \<and> set (map call_id (calls_of m)) = Some ` set ids) \<and>
     om_tool_calls m \<noteq> Some [] \<and> length (calls_of m) \<le> MAX_TOOL_CALLS"

function well_paired :: "pii_message list \<Rightarrow> bool" where
  "well_paired [] = True"
| "well_paired (m # ms) \<longleftrightarrow>
     \<not> is_tool m \<and>
     (if is_assistant m then answered m (takeWhile is_tool ms) else takeWhile is_tool ms = []) \<and>
     well_paired (dropWhile is_tool ms)"
  by pat_completeness auto

termination by (relation "measure length") (auto simp: le_imp_less_Suc length_dropWhile_le)

lemma position_Some:
  "call_position x xs = Some p \<Longrightarrow> add_mset x (mset (remove_at p xs)) = mset xs"
  by (induction xs arbitrary: p) (auto simp: remove_at_def split: if_splits)

lemma extract_role: "extract_assistant_tool_call_ids m = (m', ids) \<Longrightarrow> om_role m' = om_role m"
  by (auto simp: extract_assistant_tool_call_ids_def Let_def split: option.splits)

lemma retain_drop:
  "dropWhile is_tool (retain_paired last_calls ms) = retain_paired [] (dropWhile is_tool ms)"
proof (induction ms arbitrary: last_calls)
  case Nil
  then show ?case by simp
next
  case (Cons m ms)
  then show ?case by (auto simp: Let_def split: option.split prod.split dest: extract_role)
qed

lemma retain_run:
  "\<exists>ids. map om_tool_call_id (takeWhile is_tool (retain_paired last_calls ms)) = map Some ids \<and>
         mset ids \<subseteq># mset last_calls \<and> (\<forall>i \<in> set ids. length i \<le> MAX_ID_LEN)"
proof (induction ms arbitrary: last_calls)
  case Nil
  then show ?case by simp
next
  case (Cons m ms)
  consider (tool) "is_tool m" | (assistant) "is_assistant m" | (other) "\<not> is_tool m" "\<not> is_assistant m" by auto
  then show ?case
  proof cases
    case tool
    show ?thesis
    proof (cases "find_matching_tool_call m last_calls")
      case None
      with tool Cons show ?thesis by simp
    next
      case (Some pos)
      then obtain i where i: "om_tool_call_id m = Some i" "length i \<le> MAX_ID_LEN" "call_position i last_calls = Some pos"
        by (auto simp: find_matching_tool_call_def split: option.splits if_splits)
      obtain ids where ids: "map om_tool_call_id (takeWhile is_tool (retain_paired (remove_at pos last_calls) ms)) = map Some ids"
        "mset ids \<subseteq># mset (remove_at pos last_calls)" "\<forall>i \<in> set ids. length i \<le> MAX_ID_LEN"
        using Cons by blast
      have "mset (i # ids) \<subseteq># mset last_calls"
        using ids(2) position_Some [OF i(3)] by (metis mset.simps(2) mset_subset_eq_add_mset_cancel)
      then show ?thesis using tool Some i ids by (intro exI [of _ "i # ids"]) simp
    qed
  next
    case assistant
    then show ?thesis by (auto simp: Let_def split: prod.split dest: extract_role)
  next
    case other
    then show ?thesis by simp
  qed
qed

lemma prune_role [simp]: "map om_role (prune_unfulfilled_tool_calls ms) = map om_role ms"
  by (induction ms) (auto simp: Let_def split: option.split)

lemma prune_take: "takeWhile is_tool (prune_unfulfilled_tool_calls ms) = takeWhile is_tool ms"
  by (induction ms) (auto simp: Let_def split: option.split)

lemma prune_drop: "dropWhile is_tool (prune_unfulfilled_tool_calls ms) = prune_unfulfilled_tool_calls (dropWhile is_tool ms)"
  by (induction ms) (auto simp: Let_def split: option.split)

lemma count_map_filter:
  "count (mset (filter P (List.map_filter f xs))) i = (if P i then count (mset (map f xs)) (Some i) else 0)"
  by (induction xs) (auto simp: map_filter_simps split: option.split)

lemma count_filter_keeps:
  "(\<And>c. c \<in> set xs \<Longrightarrow> f c = x \<Longrightarrow> P c) \<Longrightarrow> count (mset (map f (filter P xs))) x = count (mset (map f xs)) x"
  by (induction xs) auto

lemma pruned_answered:
  assumes run: "map om_tool_call_id (takeWhile is_tool ms) = map Some ids"
    and sub: "mset ids \<subseteq># mset (filter (\<lambda>i. length i \<le> MAX_ID_LEN) (List.map_filter call_id calls))"
    and small: "length calls \<le> MAX_TOOL_CALLS"
    and live: "live = filter (\<lambda>c. is_tool_call_fulfilled c ms) calls"
  shows "mset (map Some ids) \<subseteq># mset (map call_id live) \<and> set (map call_id live) = Some ` set ids"
proof -
  have "length ids \<le> length (filter (\<lambda>i. length i \<le> MAX_ID_LEN) (List.map_filter call_id calls))"
    using size_mset_mono [OF sub] unfolding size_mset .
  also have "\<dots> \<le> length calls"
    using length_filter_le [of _ "List.map_filter call_id calls"] length_filter_le [of _ calls]
    by (simp add: List.map_filter_def le_trans)
  finally have "length (takeWhile is_tool ms) \<le> MAX_TOOL_CALLS" using small run by (metis le_trans length_map)
  then have full: "take MAX_TOOL_CALLS (takeWhile is_tool ms) = takeWhile is_tool ms" by simp
  have "i \<in> set ids \<longleftrightarrow> (\<exists>m \<in> set (takeWhile is_tool ms). om_tool_call_id m = Some i)" for i
  proof -
    have "i \<in> set ids \<longleftrightarrow> Some i \<in> set (map om_tool_call_id (takeWhile is_tool ms))" unfolding run by auto
    then show ?thesis by (metis (no_types, lifting) image_iff list.set_map)
  qed
  then have fulfilled: "is_tool_call_fulfilled c ms \<longleftrightarrow> (\<exists>i \<in> set ids. call_id c = Some i \<and> length i \<le> MAX_ID_LEN)" for c
    unfolding is_tool_call_fulfilled_def full by (auto simp: list_ex_iff split: option.split)
  have in_calls: "length i \<le> MAX_ID_LEN" "Some i \<in> set (map call_id calls)" if "i \<in> set ids" for i
    using mset_subset_eqD [OF sub, of i] that by (auto simp: List.map_filter_def image_iff, metis)
  have "count (mset (map Some ids)) x \<le> count (mset (map call_id live)) x" for x
  proof (cases "x \<in> Some ` set ids")
    case True
    then obtain i where x: "x = Some i" and i: "i \<in> set ids" by auto
    have "count (mset (map Some ids)) x = count (mset ids) i"
      unfolding x by (induction ids) auto
    also have "\<dots> \<le> count (mset (map call_id calls)) x"
      using mset_subset_eq_count [OF sub, of i] in_calls(1) [OF i] unfolding count_map_filter x by simp
    also have "\<dots> = count (mset (map call_id live)) x"
      unfolding live by (rule sym, rule count_filter_keeps) (use i in_calls(1) x fulfilled in auto)
    finally show ?thesis .
  next
    case False
    then have "count (mset (map Some ids)) x = 0" by (simp add: not_in_iff [symmetric])
    then show ?thesis by simp
  qed
  then have "mset (map Some ids) \<subseteq># mset (map call_id live)" by (rule mset_subset_eqI)
  moreover have "set (map call_id live) = Some ` set ids"
    unfolding live using fulfilled in_calls by (fastforce simp: image_iff)
  ultimately show ?thesis ..
qed

lemma retained_well_paired: "well_paired (prune_unfulfilled_tool_calls (retain_paired [] ms))"
proof (induction ms rule: measure_induct_rule [of length])
  case (less ms)
  show ?case
  proof (cases ms)
    case Nil
    then show ?thesis by simp
  next
    case (Cons m rest)
    have tail: "well_paired (prune_unfulfilled_tool_calls (retain_paired [] (dropWhile is_tool rest)))"
      by (rule less) (simp add: Cons le_imp_less_Suc length_dropWhile_le)
    consider (tool) "is_tool m" | (assistant) "is_assistant m" | (other) "\<not> is_tool m" "\<not> is_assistant m" by auto
    then show ?thesis
    proof cases
      case tool
      then have "find_matching_tool_call m [] = None" by (simp add: find_matching_tool_call_def split: option.split)
      then show ?thesis using tool less [of rest] Cons by simp
    next
      case assistant
      obtain m' ids where ex: "extract_assistant_tool_call_ids m = (m', ids)" by fastforce
      then have role: "is_assistant m'" using assistant extract_role by simp
      let ?ms = "retain_paired ids rest"
      obtain js where js: "map om_tool_call_id (takeWhile is_tool ?ms) = map Some js" "mset js \<subseteq># mset ids"
        using retain_run [of ids rest] by blast
      have "answered (case om_tool_calls m' of Some calls \<Rightarrow>
            (let live = filter (\<lambda>c. is_tool_call_fulfilled c ?ms) calls
             in m' \<lparr> om_tool_calls := (if live = [] then None else Some live) \<rparr>) | None \<Rightarrow> m') (takeWhile is_tool ?ms)"
      proof (cases "om_tool_calls m")
        case None
        then have "ids = []" "m' = m" using ex by (simp_all add: extract_assistant_tool_call_ids_def)
        then show ?thesis using None js by (simp add: answered_def calls_of_def)
      next
        case (Some calls)
        then have m': "m' = m \<lparr> om_tool_calls := Some (take MAX_TOOL_CALLS calls) \<rparr>"
          and ids: "ids = filter (\<lambda>i. length i \<le> MAX_ID_LEN) (List.map_filter call_id (take MAX_TOOL_CALLS calls))"
          using ex by (simp_all add: extract_assistant_tool_call_ids_def Let_def)
        define live where "live = filter (\<lambda>c. is_tool_call_fulfilled c ?ms) (take MAX_TOOL_CALLS calls)"
        have "mset (map Some js) \<subseteq># mset (map call_id live) \<and> set (map call_id live) = Some ` set js"
          by (rule pruned_answered [OF js(1) js(2) [unfolded ids] _ live_def]) simp
        moreover have "length live \<le> MAX_TOOL_CALLS"
          unfolding live_def by (rule le_trans [OF length_filter_le]) simp
        ultimately show ?thesis using js(1)
          by (auto simp: m' answered_def calls_of_def live_def [symmetric] Let_def intro: exI [of _ js])
      qed
      then show ?thesis
        using role assistant tail
        by (simp add: Cons ex prune_take prune_drop retain_drop Let_def split: option.splits)
    next
      case other
      have "takeWhile is_tool (retain_paired [] rest) = []"
        using retain_run [of "[]" rest] by (metis Nil_is_map_conv mset.simps(1) mset_zero_iff subset_mset.le_zero_eq)
      then show ?thesis using other tail by (simp add: Cons prune_take prune_drop retain_drop)
    qed
  qed
qed

text \<open>
  C12: Whatever a client sends, the conversation that goes on is well paired: no tool result stands
  without a call, the results behind an assistant message answer its calls, no call is left without
  an answer, and no message carries more than 64 calls or an empty list of them.
\<close>

theorem sanitized_well_paired: "well_paired (sanitize_tool_calls messages)"
  unfolding sanitize_tool_calls_def by (rule retained_well_paired)

section \<open>Nothing else is lost\<close>

definition plain :: "pii_message \<Rightarrow> pii_message" where
  "plain m = m \<lparr> om_tool_calls := None \<rparr>"

definition spoken :: "pii_message list \<Rightarrow> pii_message list" where
  "spoken ms = map plain (filter (\<lambda>m. \<not> is_tool m) ms)"

lemma spoken_rename_results [simp]: "spoken (rename_results r c ms) = spoken ms"
  by (induction r c ms rule: rename_results.induct) (auto simp: spoken_def Let_def split: option.split)

lemma spoken_disambiguate: "spoken (disambiguate_duplicate_tool_call_ids ms) = spoken ms"
proof (induction ms rule: disambiguate_duplicate_tool_call_ids.induct)
  case 1
  then show ?case by simp
next
  case (2 m ms)
  show ?case
  proof (cases "is_assistant m \<and> calls_of m \<noteq> []")
    case True
    then obtain calls where calls: "om_tool_calls m = Some calls" "calls \<noteq> []"
      by (auto simp: calls_of_def split: option.splits)
    obtain cs r where r: "rename_calls [] [] calls = (cs, r)" by fastforce
    have "spoken (disambiguate_duplicate_tool_call_ids (if r = [] then ms else rename_results r [] ms)) = spoken ms"
      using 2(2) [OF calls(1) _ r [symmetric] refl] True calls(2) by simp
    then show ?thesis using True calls r by (simp add: spoken_def plain_def)
  next
    case False
    then have "disambiguate_duplicate_tool_call_ids (m # ms) = m # disambiguate_duplicate_tool_call_ids ms"
      by (auto simp: calls_of_def split: option.splits)
    moreover have "spoken (disambiguate_duplicate_tool_call_ids ms) = spoken ms"
      using 2(1,3) False by (cases "om_tool_calls m") (auto simp: calls_of_def)
    ultimately show ?thesis by (simp add: spoken_def)
  qed
qed

lemma spoken_retain: "spoken (retain_paired last_calls ms) = spoken ms"
proof (induction ms arbitrary: last_calls)
  case Nil
  then show ?case by simp
next
  case (Cons m ms)
  have "plain (fst (extract_assistant_tool_call_ids m)) = plain m"
    by (auto simp: extract_assistant_tool_call_ids_def plain_def Let_def split: option.split)
  moreover have "om_role (fst (extract_assistant_tool_call_ids m)) = om_role m"
    using extract_role [of m] by (cases "extract_assistant_tool_call_ids m") simp
  ultimately show ?case
    using Cons by (auto simp: spoken_def Let_def split: option.split prod.split)
qed

lemma spoken_prune: "spoken (prune_unfulfilled_tool_calls ms) = spoken ms"
  by (induction ms) (auto simp: spoken_def plain_def Let_def split: option.split)

lemma rename_calls_fresh:
  "distinct (List.map_filter call_id calls) \<Longrightarrow> \<forall>i \<in> set (List.map_filter call_id calls). hm_get seen i = None \<Longrightarrow>
   rename_calls seen r calls = (calls, r)"
proof (induction calls arbitrary: seen)
  case Nil
  then show ?case by simp
next
  case (Cons c calls)
  show ?case
  proof (cases "call_id c")
    case None
    with Cons show ?thesis by (simp add: map_filter_simps)
  next
    case (Some i)
    have "rename_calls (hm_put i 1 seen) r calls = (calls, r)"
      by (rule Cons.IH) (use Cons.prems Some in \<open>auto simp: map_filter_simps hm_simps\<close>)
    then show ?thesis using Cons.prems Some by (simp add: map_filter_simps)
  qed
qed

text \<open>Call ids that need no attention: pairwise different within a message, and not too long.\<close>

definition ids_clean :: "pii_message \<Rightarrow> bool" where
  "ids_clean m \<longleftrightarrow>
     distinct (List.map_filter call_id (calls_of m)) \<and>
     (\<forall>i \<in> set (List.map_filter call_id (calls_of m)). length i \<le> MAX_ID_LEN)"

lemma same_calls [simp]: "om_tool_calls m = x \<Longrightarrow> m \<lparr> om_tool_calls := x \<rparr> = (m :: pii_message)"
  by (cases m) simp

lemma disambiguate_clean:
  "\<forall>m \<in> set ms. is_assistant m \<longrightarrow> ids_clean m \<Longrightarrow> disambiguate_duplicate_tool_call_ids ms = ms"
  by (induction ms) (auto simp: ids_clean_def calls_of_def rename_calls_fresh split: option.split)

lemma position_in: "x \<in> set xs \<Longrightarrow> \<exists>p. call_position x xs = Some p"
  by (induction xs) auto

lemma retain_keeps_run:
  assumes "map om_tool_call_id run = map Some ids" "\<forall>m \<in> set run. is_tool m" "mset ids \<subseteq># mset last_calls"
    "\<forall>i \<in> set ids. length i \<le> MAX_ID_LEN"
  shows "\<exists>left. retain_paired last_calls (run @ rest) = run @ retain_paired left rest"
  using assms
proof (induction run arbitrary: ids last_calls)
  case Nil
  then show ?case by auto
next
  case (Cons m run)
  then obtain i js where ids: "ids = i # js" and i: "om_tool_call_id m = Some i" by (cases ids) auto
  have "i \<in> set last_calls" using mset_subset_eqD [OF Cons.prems(3), of i] ids by simp
  from position_in [OF this] obtain p where p: "call_position i last_calls = Some p" by (elim exE)
  have "mset js \<subseteq># mset (remove_at p last_calls)"
    using Cons.prems(3) unfolding ids position_Some [OF p, symmetric] by simp
  then obtain left where "retain_paired (remove_at p last_calls) (run @ rest) = run @ retain_paired left rest"
    using Cons.IH [of js "remove_at p last_calls"] Cons.prems ids by auto
  moreover have "find_matching_tool_call m last_calls = Some p"
    using i p Cons.prems(4) ids by (simp add: find_matching_tool_call_def)
  ultimately show ?case using Cons.prems(2) by auto
qed

lemma retain_head: "dropWhile is_tool ms = ms \<Longrightarrow> retain_paired last_calls ms = retain_paired [] ms"
proof -
  assume "dropWhile is_tool ms = ms"
  then have "ms = [] \<or> \<not> is_tool (hd ms)" using hd_dropWhile [of is_tool ms] by (cases "ms = []") simp_all
  then show ?thesis by (cases ms) auto
qed

lemma prune_tools: "\<forall>m \<in> set run. is_tool m \<Longrightarrow> prune_unfulfilled_tool_calls (run @ rest) = run @ prune_unfulfilled_tool_calls rest"
  by (induction run) auto

lemma answered_all_fulfilled:
  assumes "answered m run" "ids_clean m" "run = takeWhile is_tool ms" "c \<in> set (calls_of m)"
  shows "is_tool_call_fulfilled c ms"
proof -
  obtain ids where ids: "map om_tool_call_id run = map Some ids"
    "mset (map Some ids) \<subseteq># mset (map call_id (calls_of m))" "set (map call_id (calls_of m)) = Some ` set ids"
    and small: "length (calls_of m) \<le> MAX_TOOL_CALLS"
    using assms(1) by (auto simp: answered_def)
  have "length run \<le> MAX_TOOL_CALLS"
  proof -
    have "length run = length ids" using arg_cong [OF ids(1), of length] by simp
    moreover have "length ids \<le> length (calls_of m)"
      using size_mset_mono [OF ids(2)] unfolding size_mset length_map .
    ultimately show ?thesis using small by simp
  qed
  then have full: "take MAX_TOOL_CALLS (takeWhile is_tool ms) = run" using assms(3) by simp
  have "call_id c \<in> Some ` set ids" using assms(4) unfolding ids(3) [symmetric] by simp
  then obtain i where i: "call_id c = Some i" "i \<in> set ids" by (elim imageE)
  then have "i \<in> set (List.map_filter call_id (calls_of m))" using assms(4) by (force simp: List.map_filter_def)
  then have "length i \<le> MAX_ID_LEN" using assms(2) by (simp add: ids_clean_def)
  moreover have "Some i \<in> set (map om_tool_call_id run)" using i ids(1) by simp
  ultimately show ?thesis unfolding is_tool_call_fulfilled_def full using i by (force simp: list_ex_iff)
qed

lemma kept_when_paired:
  assumes "well_paired ms" "\<forall>m \<in> set ms. is_assistant m \<longrightarrow> ids_clean m"
  shows "retain_paired [] ms = ms \<and> prune_unfulfilled_tool_calls ms = ms"
  using assms
proof (induction ms rule: well_paired.induct)
  case 1
  then show ?case by simp
next
  case (2 m ms)
  let ?run = "takeWhile is_tool ms" and ?rest = "dropWhile is_tool ms"
  have rest: "retain_paired [] ?rest = ?rest" "prune_unfulfilled_tool_calls ?rest = ?rest"
    using 2 by (auto dest: set_dropWhileD)
  have tools: "\<forall>x \<in> set ?run. is_tool x" by (auto dest: set_takeWhileD)
  have ms: "ms = ?run @ ?rest" by simp
  have prune: "prune_unfulfilled_tool_calls ms = ms"
    using prune_tools [OF tools, of ?rest] rest(2) by simp
  show ?case
  proof (cases "is_assistant m")
    case False
    then have "?run = []" "\<not> is_tool m" using 2(2) by simp_all
    moreover have "?run @ ?rest = ms" by simp
    ultimately have "?rest = ms" by simp
    then show ?thesis using False \<open>\<not> is_tool m\<close> rest(1) prune by simp
  next
    case True
    have ans: "answered m ?run" using 2(2) True by simp
    have clean: "ids_clean m" using 2(3) True by simp
    let ?ids = "filter (\<lambda>i. length i \<le> MAX_ID_LEN) (List.map_filter call_id (calls_of m))"
    have ids_all: "?ids = List.map_filter call_id (calls_of m)" using clean by (simp add: ids_clean_def)
    have ex: "extract_assistant_tool_call_ids m = (m, ?ids)"
      using ans by (auto simp: extract_assistant_tool_call_ids_def answered_def calls_of_def Let_def map_filter_simps split: option.splits)
    obtain js where js: "map om_tool_call_id ?run = map Some js" "mset (map Some js) \<subseteq># mset (map call_id (calls_of m))"
      "set (map call_id (calls_of m)) = Some ` set js"
      using ans by (auto simp: answered_def)
    have count_js: "count (mset js) i \<le> count (mset ?ids) i" for i
    proof -
      have "count (mset js) i = count (mset (map Some js)) (Some i)" by (induction js) auto
      also have "\<dots> \<le> count (mset (map call_id (calls_of m))) (Some i)" using js(2) by (rule mset_subset_eq_count)
      also have "\<dots> = count (mset (filter (\<lambda>_. True) (List.map_filter call_id (calls_of m)))) i"
        unfolding count_map_filter by simp
      finally show ?thesis unfolding ids_all by simp
    qed
    then have sub: "mset js \<subseteq># mset ?ids" by (intro mset_subset_eqI)
    have "\<forall>i \<in> set js. length i \<le> MAX_ID_LEN"
      using mset_subset_eqD [OF sub] by auto
    then obtain left where "retain_paired ?ids (?run @ ?rest) = ?run @ retain_paired left ?rest"
      using retain_keeps_run [OF js(1) tools sub] by blast
    then have "retain_paired ?ids ms = ms" using retain_head [of ?rest left] rest(1) by simp
    then have "retain_paired [] (m # ms) = m # ms" using True ex by simp
    moreover have "filter (\<lambda>c. is_tool_call_fulfilled c ms) (calls_of m) = calls_of m"
      using answered_all_fulfilled [OF ans clean refl] by simp
    then have "prune_unfulfilled_tool_calls (m # ms) = m # ms"
      using True ans prune by (auto simp: answered_def calls_of_def Let_def split: option.splits)
    ultimately show ?thesis by simp
  qed
qed

text \<open>
  C13: Sanitising loses nothing that was in order: every message that is no tool result stays, in its place
  and unchanged but for its calls; and a conversation that is well paired already, with call ids that
  are distinct within a message and at most 128 bytes long, is left exactly as it is.
\<close>

theorem sanitize_conservative:
  "spoken (sanitize_tool_calls ms) = spoken ms \<and>
   (well_paired ms \<and> (\<forall>m \<in> set ms. is_assistant m \<longrightarrow> ids_clean m) \<longrightarrow> sanitize_tool_calls ms = ms)"
  by (simp add: sanitize_tool_calls_def spoken_prune spoken_retain spoken_disambiguate disambiguate_clean kept_when_paired)

section \<open>Concrete conversations\<close>

definition demo_call :: "string \<Rightarrow> json" where
  "demo_call i = JObj [(''id'', JStr i)]"

definition turn_message :: "string \<Rightarrow> string option \<Rightarrow> json list option \<Rightarrow> pii_message" where
  "turn_message role tcid calls =
     \<lparr> om_role = role, om_content = None, om_name = None, om_tool_call_id = tcid, om_tool_calls = calls, om_extra = [] \<rparr>"

definition demo_turn :: "pii_message list" where
  "demo_turn =
     [turn_message ''user'' None None,
      turn_message ''assistant'' None (Some [demo_call ''a'', demo_call ''b'']),
      turn_message ''tool'' (Some ''b'') None, turn_message ''tool'' (Some ''a'') None]"

theorem sanitize_conservative_witness: "sanitize_tool_calls demo_turn = demo_turn"
proof -
  have run: "map om_tool_call_id [turn_message ''tool'' (Some ''b'') None, turn_message ''tool'' (Some ''a'') None] =
      map Some [''b'', ''a'']"
    by (simp add: turn_message_def)
  have "answered (turn_message ''assistant'' None (Some [demo_call ''a'', demo_call ''b'']))
      [turn_message ''tool'' (Some ''b'') None, turn_message ''tool'' (Some ''a'') None]"
    unfolding answered_def run
    by (intro conjI exI [of _ "[''b'', ''a'']"])
      (auto simp: turn_message_def demo_call_def calls_of_def call_id_def json_get_def json_as_str_def add_mset_commute)
  then have "well_paired demo_turn" by (simp add: demo_turn_def) (simp add: turn_message_def)
  moreover have "\<forall>m \<in> set demo_turn. is_assistant m \<longrightarrow> ids_clean m" by code_simp
  ultimately show ?thesis using sanitize_conservative [of demo_turn] by blast
qed

text \<open>A renamed id can meet an id that is there already, and the duplicate stays.\<close>

lemma renamed_id_collides:
  "map om_tool_calls (disambiguate_duplicate_tool_call_ids
     [turn_message ''assistant'' None (Some [demo_call ''c'', demo_call ''c'', demo_call ''c_1''])]) =
   [Some [demo_call ''c'', demo_call ''c_1'', demo_call ''c_1'']]"
  by code_simp

end
