(* ===== verification/Responses_Request.thy ===== *)
theory Responses_Request
  imports Request_Sanitizing "HOL-Library.Sublist"
begin

text \<open>
  Requests of the Responses protocol as chat requests: reading of the input items
  (openproxy-types/src/responses.rs), their translation to messages with the reasoning that belongs to
  them (openproxy-server/src/middleware/auth_sanitization.rs), names, tools, and the sanitising of the
  whole request in \<open>auth_middleware\<close>. The order of keys in a JSON object is not part of the model;
  printing of JSON values (\<open>to_string\<close> of serde) is a parameter.
\<close>

section \<open>Names and reasoning fields\<close>

definition is_name_char :: "char \<Rightarrow> bool" where
  "is_name_char c = (let n = of_char c :: nat in
     48 \<le> n \<and> n \<le> 57 \<or> 65 \<le> n \<and> n \<le> 90 \<or> 97 \<le> n \<and> n \<le> 122 \<or> n = 95 \<or> n = 45)"

text \<open>\<open>chars()\<close> of a text: the bytes that start a character, with their continuation bytes.\<close>

definition is_continuation :: "char \<Rightarrow> bool" where
  "is_continuation c = (let n = of_char c :: nat in 128 \<le> n \<and> n < 192)"

text \<open>A character becomes itself if it is allowed, and an underscore otherwise.\<close>

definition name_chars :: "string \<Rightarrow> string" where
  "name_chars raw = map (\<lambda>c. if is_name_char c then c else CHR ''_'') (filter (\<lambda>c. \<not> is_continuation c) raw)"

definition sanitize_message_name :: "string \<Rightarrow> string option \<Rightarrow> string option" where
  "sanitize_message_name role name =
     (if role = ''tool'' then None
      else case name of
        None \<Rightarrow> None
      | Some n \<Rightarrow>
          (let raw = trim n in
           if raw = [] then None
           else if \<not> list_ex is_name_char raw then None
           else (let sanitized = take 64 (name_chars raw) in
                 if sanitized = [] then None else Some sanitized)))"

definition sanitize_name :: "pii_message \<Rightarrow> pii_message" where
  "sanitize_name m =
     m \<lparr> om_extra := hm_remove ''name'' (om_extra m), om_name := sanitize_message_name (om_role m) (om_name m) \<rparr>"

record openai_request =
  oq_model :: string
  oq_messages :: "pii_message list"
  oq_stop :: "string list option"
  oq_tools :: "json list option"
  oq_tool_choice :: "json option"
  oq_user :: "string option"
  oq_extra :: "(string \<times> json) list"
  oq_temperature :: "rat option"
  oq_max_tokens :: "nat option"
  oq_top_p :: "rat option"
  oq_top_k :: "nat option"
  oq_stream :: bool

definition inject_deepseek_reasoning_if_needed :: "openai_request \<Rightarrow> openai_request" where
  "inject_deepseek_reasoning_if_needed req =
     (if str_contains (to_ascii_lowercase (oq_model req)) ''deepseek'' then
        req \<lparr> oq_messages := map (\<lambda>m.
          if is_assistant m \<and> hm_get (om_extra m) ''reasoning_content'' = None
          then m \<lparr> om_extra := hm_put ''reasoning_content'' (JStr []) (om_extra m) \<rparr> else m) (oq_messages req) \<rparr>
      else req)"

section \<open>The Responses protocol\<close>

datatype responses_content = RPlain string | RParts "json list"

datatype responses_item =
    RMessage string responses_content
  | RFunctionCall string string string
  | RFunctionCallOutput string string
  | RReasoning "string option" "json option" "json option" "(string \<times> json) list"
  | RUnknown

record responses_request =
  rq_model :: string
  rq_instructions :: "string option"
  rq_input :: "responses_item list"
  rq_tools :: "json list option"
  rq_tool_choice :: "json option"
  rq_stream :: bool
  rq_max_output_tokens :: "nat option"
  rq_temperature :: "rat option"
  rq_top_p :: "rat option"
  rq_previous_response_id :: "string option"
  rq_extra :: "(string \<times> json) list"

definition str_or_empty :: "json option \<Rightarrow> string" where
  "str_or_empty v = (case Option.bind v json_as_str of Some s \<Rightarrow> s | None \<Rightarrow> [])"

definition text_or_json :: "(json \<Rightarrow> string) \<Rightarrow> json option \<Rightarrow> string" where
  "text_or_json show v = (case v of None \<Rightarrow> [] | Some (JStr s) \<Rightarrow> s | Some j \<Rightarrow> show j)"

definition content_of_json :: "json option \<Rightarrow> responses_content" where
  "content_of_json v = (case v of Some (JStr s) \<Rightarrow> RPlain s | Some (JArr ps) \<Rightarrow> RParts ps | _ \<Rightarrow> RPlain [])"

definition call_id_or_id :: "(string \<times> json) list \<Rightarrow> string" where
  "call_id_or_id m = str_or_empty (case hm_get m ''call_id'' of Some v \<Rightarrow> Some v | None \<Rightarrow> hm_get m ''id'')"

definition reasoning_of_map :: "(string \<times> json) list \<Rightarrow> responses_item" where
  "reasoning_of_map m =
     RReasoning (Option.bind (hm_get m ''id'') json_as_str) (hm_get m ''content'')
       (Some (case hm_get m ''summary'' of None \<Rightarrow> JArr [] | Some JNull \<Rightarrow> JArr [] | Some v \<Rightarrow> v))
       (hm_remove ''summary'' (hm_remove ''content'' (hm_remove ''id'' m)))"

definition call_of_map :: "(json \<Rightarrow> string) \<Rightarrow> (string \<times> json) list \<Rightarrow> responses_item" where
  "call_of_map show m =
     RFunctionCall (call_id_or_id m) (str_or_empty (hm_get m ''name'')) (text_or_json show (hm_get m ''arguments''))"

definition responses_item_of_json :: "(json \<Rightarrow> string) \<Rightarrow> json \<Rightarrow> responses_item" where
  "responses_item_of_json show v =
     (case v of
        JStr s \<Rightarrow> RMessage ''user'' (RPlain s)
      | JObj m \<Rightarrow>
          (let has = (\<lambda>k. hm_get m k \<noteq> None) in
           case map_option to_ascii_lowercase (Option.bind (hm_get m ''type'') json_as_str) of
             Some tag \<Rightarrow>
               (if tag = ''message'' then
                  RMessage (case Option.bind (hm_get m ''role'') json_as_str of Some r \<Rightarrow> r | None \<Rightarrow> ''user'')
                    (content_of_json (hm_get m ''content''))
                else if tag = ''function_call'' then call_of_map show m
                else if tag = ''function_call_output'' then
                  RFunctionCallOutput (call_id_or_id m) (text_or_json show (hm_get m ''output''))
                else if tag = ''reasoning'' then reasoning_of_map m
                else RUnknown)
           | None \<Rightarrow>
               (case Option.bind (hm_get m ''role'') json_as_str of
                  Some role \<Rightarrow> RMessage role (content_of_json (hm_get m ''content''))
                | None \<Rightarrow>
                    (if has ''call_id'' \<and> has ''output'' then
                       RFunctionCallOutput (str_or_empty (hm_get m ''call_id'')) (text_or_json show (hm_get m ''output''))
                     else if (has ''call_id'' \<or> has ''id'') \<and> (has ''name'' \<or> has ''arguments'') then
                       call_of_map show m
                     else if has ''encrypted_content'' \<or> has ''summary'' \<and> (has ''content'' \<or> has ''id'') then
                       reasoning_of_map m
                     else RUnknown)))
      | _ \<Rightarrow> RUnknown)"

definition joined_text :: "json \<Rightarrow> string option" where
  "joined_text v =
     (case v of
        JStr s \<Rightarrow> if s = [] then None else Some s
      | JArr items \<Rightarrow>
          (let t = concat (map (\<lambda>i. case Option.bind (json_get i ''text'') json_as_str of
                  Some s \<Rightarrow> s | None \<Rightarrow> (case json_as_str i of Some s \<Rightarrow> s | None \<Rightarrow> [])) items)
           in if t = [] then None else Some t)
      | _ \<Rightarrow> None)"

definition nonempty_str :: "json \<Rightarrow> string option" where
  "nonempty_str v = (case v of JStr s \<Rightarrow> if s = [] then None else Some s | _ \<Rightarrow> None)"

definition reasoning_text :: "responses_item \<Rightarrow> string option" where
  "reasoning_text item =
     (case item of
        RReasoning _ content summary extra \<Rightarrow>
          first_some (\<lambda>x. x)
            [Option.bind content joined_text, Option.bind summary joined_text,
             Option.bind (hm_get extra ''text'') nonempty_str,
             Option.bind (hm_get extra ''reasoning_content'') nonempty_str]
      | _ \<Rightarrow> None)"

definition normalize_part :: "json \<Rightarrow> json" where
  "normalize_part p =
     (case p of
        JObj kvs \<Rightarrow>
          (let m = hm_remove ''annotations'' kvs in
           JObj (case Option.bind (hm_get m ''type'') json_as_str of
                   Some t \<Rightarrow>
                     (if t = ''input_text'' \<or> t = ''output_text'' then hm_put ''type'' (JStr ''text'') m
                      else if t = ''input_image'' then hm_put ''type'' (JStr ''image_url'') m else m)
                 | None \<Rightarrow> m))
      | v \<Rightarrow> v)"

definition is_text_part :: "json \<Rightarrow> bool" where
  "is_text_part p =
     (let t = (case Option.bind (json_get p ''type'') json_as_str of Some t \<Rightarrow> t | None \<Rightarrow> ''text'')
      in t = ''text'' \<or> t = ''input_text'' \<or> t = ''output_text'')"

definition normalize_responses_content_parts :: "json list \<Rightarrow> json option" where
  "normalize_responses_content_parts parts =
     (if parts = [] then None
      else if list_all is_text_part parts then
        Some (JStr (concat (map (\<lambda>p. str_or_empty (json_get p ''text'')) parts)))
      else Some (JArr (map normalize_part parts)))"

definition move_keys :: "string list \<Rightarrow> (string \<times> json) list \<Rightarrow> (string \<times> json) list \<times> (string \<times> json) list" where
  "move_keys ks m =
     (fold hm_remove ks m, List.map_filter (\<lambda>k. map_option (\<lambda>v. (k, v)) (hm_get m k)) ks)"

definition normalize_tool :: "json \<Rightarrow> json" where
  "normalize_tool tool =
     (case tool of
        JObj m \<Rightarrow>
          (let has = (\<lambda>k. hm_get m k \<noteq> None) in
           if has ''function'' then JObj m
           else if (case Option.bind (hm_get m ''type'') json_as_str of None \<Rightarrow> True | Some t \<Rightarrow> t = ''function'') \<and>
                   (has ''name'' \<or> has ''parameters'' \<or> has ''description'')
           then (let (rest, fn_obj) = move_keys [''name'', ''description'', ''parameters'', ''strict''] m
                 in JObj (hm_put ''function'' (JObj fn_obj) (hm_put ''type'' (JStr ''function'') rest)))
           else JObj m)
      | v \<Rightarrow> v)"

definition normalize_responses_tools :: "json list option \<Rightarrow> json list option" where
  "normalize_responses_tools tools = map_option (map normalize_tool) tools"

text \<open>Reasoning items wait for the message they belong to.\<close>

record pending_reasoning =
  pn_text :: "string option"
  pn_id :: "string option"
  pn_encrypted_content :: "string option"
  pn_summary :: "json option"

definition no_text :: "string option \<Rightarrow> bool" where
  "no_text t = (case t of None \<Rightarrow> True | Some s \<Rightarrow> s = [])"

definition no_summary :: "json option \<Rightarrow> bool" where
  "no_summary v = (v = None \<or> v = Some JNull \<or> v = Some (JArr []))"

definition pending_is_empty :: "pending_reasoning \<Rightarrow> bool" where
  "pending_is_empty r \<longleftrightarrow>
     no_text (pn_text r) \<and> no_text (pn_id r) \<and> no_text (pn_encrypted_content r) \<and> no_summary (pn_summary r)"

definition put_opt :: "string \<Rightarrow> json option \<Rightarrow> (string \<times> json) list \<Rightarrow> (string \<times> json) list" where
  "put_opt k v extra = (case v of None \<Rightarrow> extra | Some j \<Rightarrow> hm_put k j extra)"

definition apply_to_extra :: "pending_reasoning \<Rightarrow> (string \<times> json) list \<Rightarrow> (string \<times> json) list" where
  "apply_to_extra r extra =
     put_opt ''reasoning_summary'' (pn_summary r)
       (put_opt ''reasoning_encrypted_content'' (map_option JStr (pn_encrypted_content r))
         (put_opt ''reasoning_id'' (map_option JStr (pn_id r))
           (put_opt ''reasoning_content'' (map_option JStr (pn_text r)) extra)))"

definition new_message :: "string \<Rightarrow> json option \<Rightarrow> string option \<Rightarrow> json list option \<Rightarrow> (string \<times> json) list \<Rightarrow> pii_message" where
  "new_message role content tcid calls extra =
     \<lparr> om_role = role, om_content = content, om_name = None, om_tool_call_id = tcid, om_tool_calls = calls,
       om_extra = extra \<rparr>"

definition flush_reasoning :: "pending_reasoning \<Rightarrow> pii_message list \<Rightarrow> pii_message list" where
  "flush_reasoning r msgs =
     (if pending_is_empty r then msgs
      else if msgs \<noteq> [] \<and> is_assistant (last msgs) \<and>
              hm_get (om_extra (last msgs)) ''reasoning_content'' = None \<and>
              hm_get (om_extra (last msgs)) ''reasoning_encrypted_content'' = None
      then butlast msgs @ [last msgs \<lparr> om_extra := apply_to_extra r (om_extra (last msgs)) \<rparr>]
      else msgs @ [new_message ''assistant'' (Some (JStr [])) None None (apply_to_extra r [])])"

definition flush_pending :: "pending_reasoning option \<Rightarrow> pii_message list \<Rightarrow> pii_message list" where
  "flush_pending p msgs = (case p of Some r \<Rightarrow> flush_reasoning r msgs | None \<Rightarrow> msgs)"

definition extra_of :: "pending_reasoning option \<Rightarrow> (string \<times> json) list" where
  "extra_of p = (case p of Some r \<Rightarrow> apply_to_extra r [] | None \<Rightarrow> [])"

definition add_text :: "string option \<Rightarrow> string option \<Rightarrow> string option" where
  "add_text old txt =
     (case txt of
        None \<Rightarrow> old
      | Some t \<Rightarrow>
          (case old of
             None \<Rightarrow> Some t
           | Some prev \<Rightarrow> Some ((if prev \<noteq> [] \<and> t \<noteq> [] then prev @ [CHR 0x0A] else prev) @ t)))"

definition or_keep_old :: "'a option \<Rightarrow> 'a option \<Rightarrow> 'a option" where
  "or_keep_old new old = (case new of Some v \<Rightarrow> Some v | None \<Rightarrow> old)"

definition note_reasoning :: "responses_item \<Rightarrow> pending_reasoning option \<Rightarrow> pending_reasoning option" where
  "note_reasoning item p =
     (case item of
        RReasoning rid content summary extra \<Rightarrow>
          (let r_text = reasoning_text item;
               r_enc = Option.bind (hm_get extra ''encrypted_content'') json_as_str
           in if \<not> no_text r_text \<or> \<not> no_text rid \<or> \<not> no_text r_enc \<or> \<not> no_summary summary then
                (let st = (case p of Some r \<Rightarrow> r | None \<Rightarrow>
                       \<lparr> pn_text = None, pn_id = None, pn_encrypted_content = None, pn_summary = None \<rparr>)
                 in Some \<lparr> pn_text = add_text (pn_text st) r_text, pn_id = or_keep_old rid (pn_id st),
                           pn_encrypted_content = or_keep_old r_enc (pn_encrypted_content st),
                           pn_summary = or_keep_old summary (pn_summary st) \<rparr>)
              else p)
      | _ \<Rightarrow> p)"

definition function_call_json :: "string \<Rightarrow> string \<Rightarrow> string \<Rightarrow> json" where
  "function_call_json cid name arguments =
     JObj [(''id'', JStr cid), (''type'', JStr ''function''),
           (''function'', JObj [(''name'', JStr name), (''arguments'', JStr arguments)])]"

definition content_value :: "responses_content \<Rightarrow> json option" where
  "content_value c = (case c of RPlain s \<Rightarrow> Some (JStr s) | RParts ps \<Rightarrow> normalize_responses_content_parts ps)"

fun translate_item :: "responses_item \<Rightarrow> pending_reasoning option \<times> pii_message list \<Rightarrow>
    pending_reasoning option \<times> pii_message list" where
  "translate_item (RReasoning rid content summary extra) (p, msgs) =
     (note_reasoning (RReasoning rid content summary extra) p, msgs)"
| "translate_item (RMessage role content) (p, msgs) =
     (None,
      (if role = ''assistant'' then msgs else flush_pending p msgs) @
      [new_message role (content_value content) None None (if role = ''assistant'' then extra_of p else [])])"
| "translate_item (RFunctionCall cid name arguments) (p, msgs) =
     (None, msgs @ [new_message ''assistant'' None None (Some [function_call_json cid name arguments]) (extra_of p)])"
| "translate_item (RFunctionCallOutput cid output) (p, msgs) =
     (None, flush_pending p msgs @ [new_message ''tool'' (Some (JStr output)) (Some cid) None []])"
| "translate_item RUnknown (p, msgs) = (p, msgs)"

definition translate_items :: "responses_item list \<Rightarrow> pii_message list \<Rightarrow> pii_message list" where
  "translate_items items msgs = (case fold translate_item items (None, msgs) of (p, ms) \<Rightarrow> flush_pending p ms)"

definition already_has_instructions :: "responses_request \<Rightarrow> bool" where
  "already_has_instructions req =
     (case rq_input req of
        RMessage role content # _ \<Rightarrow>
          (role = ''system'' \<or> role = ''developer'') \<and>
          (case rq_instructions req of
             None \<Rightarrow> False
           | Some inst \<Rightarrow>
               (case content of
                  RPlain s \<Rightarrow> trim s = trim inst
                | RParts (p # _) \<Rightarrow>
                    (case Option.bind (json_get p ''text'') json_as_str of Some t \<Rightarrow> trim t = trim inst | None \<Rightarrow> False)
                | RParts [] \<Rightarrow> False))
      | _ \<Rightarrow> False)"

definition instruction_messages :: "responses_request \<Rightarrow> pii_message list" where
  "instruction_messages req =
     (case rq_instructions req of
        Some inst \<Rightarrow>
          (if \<not> already_has_instructions req \<and> inst \<noteq> []
           then [new_message ''system'' (Some (JStr inst)) None None []] else [])
      | None \<Rightarrow> [])"

definition json_as_u64 :: "json \<Rightarrow> nat option" where
  "json_as_u64 v = (case v of JInt i \<Rightarrow> (if 0 \<le> i \<and> i \<le> int U64_MAX then Some (nat i) else None) | _ \<Rightarrow> None)"

definition translate_extra :: "responses_request \<Rightarrow> (string \<times> json) list" where
  "translate_extra req =
     (let e1 = hm_remove ''max_output_tokens'' (hm_remove ''input'' (rq_extra req));
          e2 = hm_remove ''reasoning'' e1;
          e3 = (case Option.bind (Option.bind (hm_get e1 ''reasoning'') (\<lambda>r. json_get r ''effort'')) json_as_str of
                  Some effort \<Rightarrow>
                    (if hm_get e2 ''reasoning_effort'' = None then hm_put ''reasoning_effort'' (JStr effort) e2 else e2)
                | None \<Rightarrow> e2)
      in case rq_instructions req of
           Some inst \<Rightarrow> if inst \<noteq> [] then hm_put ''instructions'' (JStr inst) e3 else e3
         | None \<Rightarrow> e3)"

definition translate_responses_to_openai :: "responses_request \<Rightarrow> openai_request" where
  "translate_responses_to_openai req =
     \<lparr> oq_model = rq_model req,
       oq_messages = translate_items (rq_input req) (instruction_messages req),
       oq_stop = None,
       oq_tools = normalize_responses_tools (rq_tools req),
       oq_tool_choice = rq_tool_choice req,
       oq_user = None,
       oq_extra = translate_extra req,
       oq_temperature = rq_temperature req,
       oq_max_tokens = (case rq_max_output_tokens req of
          Some n \<Rightarrow> Some n
        | None \<Rightarrow> map_option as_u32 (Option.bind (hm_get (rq_extra req) ''max_tokens'') json_as_u64)),
       oq_top_p = rq_top_p req, oq_top_k = None, oq_stream = rq_stream req \<rparr>"

text \<open>The tail of body handling in \<open>auth_middleware\<close>.\<close>

definition sanitize_request :: "openai_request \<Rightarrow> openai_request" where
  "sanitize_request req =
     inject_deepseek_reasoning_if_needed
       (req \<lparr> oq_messages := map sanitize_name (sanitize_tool_calls (oq_messages req)) \<rparr>)"

section \<open>Nothing of the input is lost\<close>

definition bare :: "pii_message \<Rightarrow> pii_message" where
  "bare m = m \<lparr> om_extra := [] \<rparr>"

fun item_message :: "responses_item \<Rightarrow> pii_message option" where
  "item_message (RMessage role content) = Some (new_message role (content_value content) None None [])"
| "item_message (RFunctionCall cid name arguments) =
     Some (new_message ''assistant'' None None (Some [function_call_json cid name arguments]) [])"
| "item_message (RFunctionCallOutput cid output) = Some (new_message ''tool'' (Some (JStr output)) (Some cid) None [])"
| "item_message _ = None"

lemma bare_new [simp]: "bare (new_message r c t cs e) = new_message r c t cs []"
  by (simp add: bare_def new_message_def)

lemma bare_extra [simp]: "bare (m \<lparr> om_extra := e \<rparr>) = bare m"
  by (simp add: bare_def)

lemma bare_flush:
  "map bare (flush_pending p ms) = map bare ms \<or>
   map bare (flush_pending p ms) = map bare ms @ [new_message ''assistant'' (Some (JStr [])) None None []]"
proof -
  have "map bare (butlast ms @ [last ms \<lparr> om_extra := e \<rparr>]) = map bare ms" if "ms \<noteq> []" for e
    using that by (metis append_butlast_last_id bare_extra list.simps(9) map_append)
  then show ?thesis by (auto simp: flush_pending_def flush_reasoning_def split: option.split)
qed

lemma subseq_flush: "subseq xs (map bare ms) \<Longrightarrow> subseq xs (map bare (flush_pending p ms))"
  using bare_flush [of p ms] by (metis append_Nil2 list_emb_Nil list_emb_append_mono)

definition reasoning_in :: "string \<Rightarrow> pii_message list \<Rightarrow> bool" where
  "reasoning_in t ms \<longleftrightarrow>
     (\<exists>m \<in> set ms. \<exists>x. hm_get (om_extra m) ''reasoning_content'' = Some (JStr x) \<and> sublist t x)"

definition reasoning_held :: "string \<Rightarrow> pending_reasoning option \<times> pii_message list \<Rightarrow> bool" where
  "reasoning_held t st \<longleftrightarrow>
     reasoning_in t (snd st) \<or> (\<exists>r x. fst st = Some r \<and> pn_text r = Some x \<and> x \<noteq> [] \<and> sublist t x)"

lemma apply_reasoning:
  "hm_get (apply_to_extra r e) ''reasoning_content'' =
     (case pn_text r of Some x \<Rightarrow> Some (JStr x) | None \<Rightarrow> hm_get e ''reasoning_content'')"
  by (simp add: apply_to_extra_def put_opt_def hm_simps split: option.split)

lemma flush_keeps: "reasoning_in t ms \<Longrightarrow> reasoning_in t (flush_pending p ms)"
proof (cases p)
  case None
  then show "reasoning_in t ms \<Longrightarrow> ?thesis" by (simp add: flush_pending_def)
next
  case (Some r)
  assume "reasoning_in t ms"
  then obtain m x where m: "m \<in> set ms" "hm_get (om_extra m) ''reasoning_content'' = Some (JStr x)" "sublist t x"
    by (auto simp: reasoning_in_def)
  have "m \<in> set (butlast ms)" if "ms \<noteq> []" "hm_get (om_extra (last ms)) ''reasoning_content'' = None"
  proof -
    have "set ms = insert (last ms) (set (butlast ms))" using that(1) by (metis Un_insert_right append_butlast_last_id list.simps(15) set_append sup_bot_right list.set(1))
    then show ?thesis using m that(2) by auto
  qed
  then have "m \<in> set (flush_reasoning r ms)" using m(1) by (auto simp: flush_reasoning_def)
  then show ?thesis using Some m(2,3) by (auto simp: flush_pending_def reasoning_in_def)
qed

lemma flush_delivers: "reasoning_held t (p, ms) \<Longrightarrow> reasoning_in t (flush_pending p ms)"
proof -
  assume held: "reasoning_held t (p, ms)"
  show ?thesis
  proof (cases "reasoning_in t ms")
    case True
    then show ?thesis by (rule flush_keeps)
  next
    case False
    then obtain r x where r: "p = Some r" "pn_text r = Some x" "x \<noteq> []" "sublist t x"
      using held by (auto simp: reasoning_held_def)
    then have "\<not> pending_is_empty r" by (simp add: pending_is_empty_def no_text_def)
    then show ?thesis
      using r by (auto simp: flush_pending_def flush_reasoning_def reasoning_in_def apply_reasoning new_message_def)
  qed
qed

lemma extra_delivers: "reasoning_held t (p, ms) \<Longrightarrow> reasoning_in t (ms @ [new_message r c i cs (extra_of p)])"
  by (auto simp: reasoning_held_def reasoning_in_def extra_of_def apply_reasoning new_message_def)

lemma reasoning_in_append: "reasoning_in t ms \<Longrightarrow> reasoning_in t (ms @ ns)"
  by (auto simp: reasoning_in_def)

lemma sublist_extend: "sublist t x \<Longrightarrow> sublist t (x @ y)"
  unfolding sublist_def by (metis append.assoc)

lemma note_keeps: "reasoning_held t (p, ms) \<Longrightarrow> reasoning_held t (note_reasoning item p, ms)"
proof -
  assume held: "reasoning_held t (p, ms)"
  have "\<exists>y. add_text (Some x) u = Some y \<and> y \<noteq> [] \<and> sublist t y" if "x \<noteq> []" "sublist t x" for x u
    using that by (auto simp: add_text_def sublist_extend split: option.split)
  then show ?thesis using held
    by (cases item) (fastforce simp: reasoning_held_def note_reasoning_def Let_def split: option.splits)+
qed

lemma reasoning_text_nonempty: "reasoning_text item = Some t \<Longrightarrow> t \<noteq> []"
proof -
  have "joined_text v \<noteq> Some []" "nonempty_str v \<noteq> Some []" for v
    by (auto simp: joined_text_def nonempty_str_def Let_def split: json.split)
  then show "reasoning_text item = Some t \<Longrightarrow> ?thesis"
    by (cases item) (auto simp: reasoning_text_def bind_eq_Some_conv split: option.splits)
qed

lemma note_takes: "reasoning_text item = Some t \<Longrightarrow> reasoning_held t (note_reasoning item p, ms)"
proof -
  assume t: "reasoning_text item = Some t"
  then obtain rid c s e where item: "item = RReasoning rid c s e"
    by (cases item) (simp_all add: reasoning_text_def)
  have ne: "t \<noteq> []" by (rule reasoning_text_nonempty [OF t])
  have "\<exists>y. add_text u (Some t) = Some y \<and> y \<noteq> [] \<and> sublist t y" for u
    using ne by (auto simp: add_text_def split: option.split)
  then show ?thesis
    using t ne unfolding item by (simp add: reasoning_held_def note_reasoning_def Let_def no_text_def)
qed

lemma translate_item_holds: "reasoning_held t st \<Longrightarrow> reasoning_held t (translate_item item st)"
proof -
  assume held: "reasoning_held t st"
  obtain p ms where st: "st = (p, ms)" by (cases st)
  have delivered: "reasoning_in t u \<Longrightarrow> reasoning_held t (q, u)" for q u by (simp add: reasoning_held_def)
  show ?thesis
  proof (cases item)
    case (RReasoning rid c s e)
    then show ?thesis using note_keeps held by (simp add: st)
  qed (use held in \<open>simp_all add: st delivered extra_delivers reasoning_in_append flush_delivers\<close>)
qed

lemma translate_item_subseq:
  assumes "subseq xs (map bare (snd st))"
  shows "subseq (xs @ (case item_message item of Some m \<Rightarrow> [m] | None \<Rightarrow> [])) (map bare (snd (translate_item item st)))"
proof -
  obtain p ms where st: "st = (p, ms)" by (cases st)
  have snoc: "subseq xs ys \<Longrightarrow> subseq (xs @ [m]) (ys @ [m])" for ys and m :: pii_message
    by (rule list_emb_append_mono) simp_all
  show ?thesis using assms by (cases item) (auto simp: st snoc subseq_flush)
qed

lemma translate_fold_subseq:
  "subseq xs (map bare (snd st)) \<Longrightarrow>
   subseq (xs @ List.map_filter item_message items) (map bare (snd (fold translate_item items st)))"
proof (induction items arbitrary: xs st)
  case Nil
  then show ?case by (simp add: map_filter_simps)
next
  case (Cons a items)
  show ?case
    using Cons.IH [OF translate_item_subseq [OF Cons.prems, of a]]
    by (cases "item_message a") (simp_all add: map_filter_simps)
qed

lemma translate_fold_holds: "reasoning_held t st \<Longrightarrow> reasoning_held t (fold translate_item items st)"
  by (induction items arbitrary: st) (simp_all add: translate_item_holds)

lemma translate_fold_takes:
  "item \<in> set items \<Longrightarrow> reasoning_text item = Some t \<Longrightarrow> reasoning_held t (fold translate_item items st)"
proof (induction items arbitrary: st)
  case Nil
  then show ?case by simp
next
  case (Cons a items)
  show ?case
  proof (cases "item = a")
    case True
    then obtain rid c s e where a: "a = RReasoning rid c s e"
      using Cons.prems(2) by (cases a) (simp_all add: reasoning_text_def)
    obtain p ms where st: "st = (p, ms)" by (cases st)
    have "reasoning_held t (translate_item a st)"
      using note_takes [of a t p ms] True Cons.prems(2) by (simp add: st a)
    then show ?thesis using translate_fold_holds by simp
  next
    case False
    then show ?thesis using Cons by simp
  qed
qed



text \<open>
  Two calls made in parallel arrive as two assistant messages, and the pairing that follows drops the
  first call and its output.
\<close>

lemma parallel_calls_lost:
  "let ms = sanitize_tool_calls (translate_items
       [RMessage ''user'' (RPlain ''q''), RFunctionCall ''a'' ''f'' ''{}'', RFunctionCall ''b'' ''f'' ''{}'',
        RFunctionCallOutput ''a'' ''x'', RFunctionCallOutput ''b'' ''y''] [])
   in map om_role ms = [''user'', ''assistant'', ''assistant'', ''tool''] \<and>
      map om_tool_call_id ms = [None, None, None, Some ''b''] \<and> om_tool_calls (ms ! 1) = None"
  by code_simp

lemma normalize_tool_idempotent: "normalize_tool (normalize_tool t) = normalize_tool t"
  by (cases t) (auto simp: normalize_tool_def Let_def hm_simps split: prod.split option.split)

lemma sanitized_name_valid:
  assumes "sanitize_message_name role name = Some s"
  shows "s \<noteq> [] \<and> length s \<le> 64 \<and> list_all is_name_char s"
proof -
  have "is_name_char (CHR ''_'')" by code_simp
  then show ?thesis
    using assms by (auto simp: sanitize_message_name_def name_chars_def Let_def list_all_iff dest!: in_set_takeD
        split: if_splits option.splits)
qed

end
