(* ===== verification/Chat_Gate.thy ===== *)
theory Chat_Gate
  imports Plan_Auth Responses_Request
begin

text \<open>
  The whole of \<open>auth_middleware\<close> (openproxy-server/src/middleware/auth.rs): authentication, the limit on
  the body, reading a chat or Responses request, sanitising, and authorisation of the model. Parsing of the
  body is serde's, the parameters of \<open>body_parsers\<close>.
\<close>

record body_parsers =
  bp_responses :: "string \<Rightarrow> string + responses_request"
  bp_openai :: "string \<Rightarrow> string + openai_request"
  bp_show :: "json \<Rightarrow> string"

datatype gate_answer =
    PayloadTooLarge
  | Refused core_error
  | Admitted openai_request "api_key option" "pre_resolved option"

definition is_responses_path :: "string \<Rightarrow> bool" where
  "is_responses_path path \<longleftrightarrow>
     path = ''/v1/responses'' \<or> path = ''/responses'' \<or> starts_with path ''/v1/responses?'' \<or>
     starts_with path ''/responses?'' \<or> suffix ''/responses'' path"

text \<open>\<open>input\<close> of a chat request: an array of items, or a plain string.\<close>

definition input_items :: "(json \<Rightarrow> string) \<Rightarrow> json \<Rightarrow> responses_item list option" where
  "input_items show v =
     (case v of
        JArr vs \<Rightarrow> Some (map (responses_item_of_json show) vs)
      | JStr s \<Rightarrow> Some [RMessage ''user'' (RPlain s)]
      | _ \<Rightarrow> None)"

definition translate_input :: "(json \<Rightarrow> string) \<Rightarrow> openai_request \<Rightarrow> openai_request" where
  "translate_input show req =
     (if oq_messages req = [] then
        (case hm_get (oq_extra req) ''input'' of
           None \<Rightarrow> req
         | Some v \<Rightarrow>
             (let extra = hm_remove ''input'' (oq_extra req) in
              case input_items show v of
                None \<Rightarrow> req \<lparr> oq_extra := extra \<rparr>
              | Some items \<Rightarrow>
                  translate_responses_to_openai
                    \<lparr> rq_model = oq_model req, rq_instructions = None, rq_input = items, rq_tools = oq_tools req,
                      rq_tool_choice = oq_tool_choice req, rq_stream = oq_stream req,
                      rq_max_output_tokens =
                        map_option as_u32 (Option.bind (hm_get extra ''max_output_tokens'') json_as_u64),
                      rq_temperature = oq_temperature req, rq_top_p = oq_top_p req,
                      rq_previous_response_id = None, rq_extra = hm_remove ''max_output_tokens'' extra \<rparr>))
      else req)"

definition parse_chat_body :: "body_parsers \<Rightarrow> bool \<Rightarrow> string \<Rightarrow> core_error + openai_request" where
  "parse_chat_body bp is_responses bytes =
     (if is_responses then
        (case bp_responses bp bytes of
           Inl e \<Rightarrow> Inl (Parse (''Invalid Responses request: '' @ e))
         | Inr rreq \<Rightarrow>
             (if trim (rq_model rreq) = [] then Inl (Validation ''model is required'')
              else Inr (translate_responses_to_openai rreq)))
      else
        (case bp_openai bp bytes of
           Inl e \<Rightarrow> Inl (Parse e)
         | Inr req0 \<Rightarrow>
             (let req = translate_input (bp_show bp) req0
              in Inr (req \<lparr> oq_tools := normalize_responses_tools (oq_tools req) \<rparr>))))"

definition default_image_model :: "string \<Rightarrow> openai_request \<Rightarrow> openai_request" where
  "default_image_model path req =
     (if oq_model req = [] \<and> starts_with path ''/v1/images'' then req \<lparr> oq_model := ''dall-e-2'' \<rparr> else req)"

definition auth_middleware ::
    "key_env \<Rightarrow> string unstable_sorter \<Rightarrow> body_parsers \<Rightarrow> nat \<Rightarrow> auth_clock \<Rightarrow> int \<Rightarrow> database \<Rightarrow> string \<Rightarrow> header_map \<Rightarrow>
     string \<Rightarrow> gate \<Rightarrow> gate \<times> gate_answer" where
  "auth_middleware env srt bp max_body clk now db path headers body g =
     (case authenticate env srt clk headers g of
        (g1, Inl e) \<Rightarrow> (g1, Refused e)
      | (g1, Inr auth) \<Rightarrow>
          (g1,
           if max_body < length body then PayloadTooLarge
           else case parse_chat_body bp (is_responses_path path) body of
             Inl e \<Rightarrow> Refused e
           | Inr req0 \<Rightarrow>
               (let req = default_image_model path (sanitize_request req0)
                in case authorize_chat now db auth (oq_model req) of
                     Inl e \<Rightarrow> Refused e
                   | Inr pre \<Rightarrow> Admitted req auth pre)))"

section \<open>What an admitted request looks like\<close>

lemma well_paired_map:
  assumes "\<And>m. om_role (f m) = om_role m" "\<And>m. om_tool_call_id (f m) = om_tool_call_id m"
    "\<And>m. om_tool_calls (f m) = om_tool_calls m"
  shows "well_paired (map f ms) = well_paired ms"
proof (induction ms rule: well_paired.induct)
  case 1
  then show ?case by simp
next
  case (2 m ms)
  have t: "takeWhile is_tool (map f ms) = map f (takeWhile is_tool ms)"
    "dropWhile is_tool (map f ms) = map f (dropWhile is_tool ms)"
    by (simp_all add: takeWhile_map dropWhile_map comp_def assms)
  have "answered (f m) (map f run) = answered m run" for run
    by (simp add: answered_def calls_of_def assms comp_def)
  then show ?case using 2 by (simp add: t assms)
qed

lemma sanitize_request_paired: "well_paired (oq_messages (sanitize_request req))"
proof -
  have paired: "well_paired (sanitize_tool_calls ms)" for ms
    unfolding sanitize_tool_calls_def by (rule retained_well_paired)
  have keeps: "om_role (sanitize_name m) = om_role m" "om_tool_call_id (sanitize_name m) = om_tool_call_id m"
    "om_tool_calls (sanitize_name m) = om_tool_calls m" for m
    by (simp_all add: sanitize_name_def)
  have names: "well_paired (map sanitize_name (sanitize_tool_calls ms))" for ms
    using paired by (subst well_paired_map) (simp_all add: keeps)
  have "well_paired (map (\<lambda>m. if is_assistant m \<and> hm_get (om_extra m) ''reasoning_content'' = None
      then m \<lparr> om_extra := hm_put ''reasoning_content'' (JStr []) (om_extra m) \<rparr> else m) (map sanitize_name (sanitize_tool_calls ms)))" for ms
    using names by (subst well_paired_map) simp_all
  with names show ?thesis by (simp add: sanitize_request_def inject_deepseek_reasoning_if_needed_def)
qed


definition demo_chat :: openai_request where
  "demo_chat =
     \<lparr> oq_model = ''gpt-4'', oq_messages = demo_turn, oq_stop = None, oq_tools = None, oq_tool_choice = None,
       oq_user = None, oq_extra = [], oq_temperature = None, oq_max_tokens = None, oq_top_p = None,
       oq_top_k = None, oq_stream = True \<rparr>"

definition demo_parsers :: body_parsers where
  "demo_parsers = \<lparr> bp_responses = (\<lambda>_. Inl ''none''), bp_openai = (\<lambda>_. Inr demo_chat), bp_show = (\<lambda>_. []) \<rparr>"


text \<open>A chat request that carries \<open>input\<close> instead of messages loses its token limit and its stop words.\<close>

lemma input_form_drops_limits:
  "let req = demo_chat \<lparr> oq_messages := [], oq_extra := [(''input'', JStr ''hi'')], oq_max_tokens := Some 7,
                         oq_stop := Some [''.''] \<rparr>
   in oq_max_tokens (translate_input (\<lambda>_. []) req) = None \<and> oq_stop (translate_input (\<lambda>_. []) req) = None"
  by code_simp

end
