(* ===== verification/Spec2Isabelle.thy ===== *)
theory Spec2Isabelle
  imports Router Racing Sse_Framing Think_Extractor Usage_Journal Pii_Engine Pii_Replacer Admin_Auth Snapshot_Cache Chat_Gate
begin

text \<open>
  openproxy: a verification development of the routing core and of the access control of the proxy.

  \<^bold>\<open>The program.\<close> openproxy takes chat requests for a \<^emph>\<open>combo\<close>, a list of targets (a provider, a model, an
  account, or another combo), and tries the targets until one answers. A request is
  attributed to an address and a key, counted against limits, and routed to a combo the key may use; it runs
  through a chain of stages (src/crates/openproxy-pipeline/src/stages): the router flattens the combo, expands accounts,
  resolves credentials, drops targets that cannot read the request, lets a decision model or a pinned
  session choose, and sorts healthy targets first; the quota stage removes exhausted accounts; the
  executor races or walks the targets with retries and proxy fallbacks; what was used is written to a
  durable journal that a worker replays into the usage tables. Streams on the way to the client pass
  the SSE framer and the extractor of reasoning blocks; personal data is replaced by placeholders before
  a request leaves and put back in the answer.

  \<^bold>\<open>Theories.\<close>

  \<^item> OP_Prelude: Rust integers, hash maps, strings, stable sort, the interface locales. Utf8: character
    boundaries and well-formed text. Core_Error: the error type of openproxy-types/src/error.rs and JSON
    values. Combos: the data model of openproxy-types/src/combos.rs.
  \<^item> Client_Ip, Rate_Limiting, Api_Keys, Key_Auth, Admin_Auth (openproxy-server/src/client_ip.rs,
    openproxy-core/src/rate_limit.rs and api_keys, openproxy-server/src/middleware, state and
    handlers/admin/auth.rs): who sends a request and what the sender may do: the client address behind
    proxies, request windows and in-flight slots, the table of keys with its access rules, the cache of
    keys, the admin gate with its throttle and its WebSocket tickets. Shown: addresses cannot be forged,
    limits hold and survive a flood of keys, the access rules are a specification in sets, the key cache
    never changes an answer and a revoked key is refused, an edit of a key is the edit of its decoded
    form, admin endpoints are reached only with the right scopes, tickets are single use.
  \<^item> Routing, Plan_Auth (openproxy-core/src/routing, openproxy-server/src/middleware/routing.rs): from a model
    name to a plan, by SQL and by the in-memory snapshot, and the restriction of the plan to a key. Shown:
    what reaches the pipeline is permitted to the key; both paths give the same plan under four conditions,
    and a lemma per condition that they differ without it. Snapshot_Cache (get_snapshot, the hooks of
    openproxy-db/src/conn.rs): when the snapshot is rebuilt. Shown: a read sees the last commit.
  \<^item> Request_Sanitizing, Responses_Request, Chat_Gate (middleware/auth_sanitization.rs, middleware/auth.rs,
    openproxy-types/src/responses.rs): the body of a request on its way in: Responses requests become
    chat messages, tool calls are paired with their results, and the gate as a whole. Shown: what goes on
    is well paired whatever the client sent, nothing in order is lost, and an admitted request is
    authenticated and authorised.
  \<^item> Combo_Store, Combo_Resolve, Cooldowns (openproxy-db/src/combos, cooldowns.rs): target tables with
    their validations, recursive flattening with depth and cycle guards, account rotation, and the
    cooldown table. Shown: no cycle within the depth bound is ever added, flattening returns exactly the
    leaves, reordering and rotation give the stated orders, cooldowns escalate exactly and hide exactly
    the targets of their model.
  \<^item> Secrets, Credentials, Resolved_Targets (openproxy-db/src/secrets.rs, accounts/oauth.rs,
    openproxy-pipeline/src/credentials.rs, execution.rs): key files, encryption with rotation, and the
    batch resolution of targets. Shown: round trip of secrets through a rotation, key sizes and file
    modes, and which targets are kept.
  \<^item> Model_Names, Quota_Routing, Modality_Gate, Decision_Routing, Session_Affinity, Router
    (openproxy-pipeline/src/quotas.rs, stages/*.rs, session_affinity.rs, message_threads.rs): the
    stages in front of the executor, composed in Router as the chain of execution.rs. Shown: every routed
    target is admissible, every request is answered, healthy targets come first, sessions stick.
  \<^item> Circuit_Breaker, Predictive_Limiter, Selection_Registry, Load_Balancing, Retry_Policy, Error_Policy
    (files of the same names in openproxy-pipeline/src and openproxy-types/src): the registries the
    executor consults. Shown: reachable states are well formed, an open breaker stays open until its
    deadline, the limiter never starves a key, load balancing permutes, backoff within its bounds.
  \<^item> Executor, Racing (stages/executor*, racing.rs, race_sink.rs): the walk over targets and the race as a
    step relation. Shown: at most one response reaches the client, the executor returns, one lane
    writes, the race is never stuck.
  \<^item> Sse_Framing, Think_Extractor (sse/framing.rs, think_extractor.rs): stream processing. Shown: the
    result does not depend on how the transport cuts the stream.
  \<^item> Pricing, Usage_Rows, Usage_Journal (openproxy-db/src/pricing.rs, cost.rs, usage_journal.rs,
    usage_writer.rs, openproxy-pipeline/src/worker.rs, worker/coordinator.rs): prices, usage rows, the
    journal with its replay and its admission. Shown: journal entries are applied exactly once and in
    order under every interleaving, batching and group commit are invisible, no wakeup of a waiting
    producer is lost, costs are bounded and the backfill agrees with the recording.

  \<^item> Pii_Validators, Pii_Session, Pii_Candidates, Pii_Engine, Pii_Replacer (openproxy-pipeline/src/pii): check
    digits and protected ranges, the session of placeholders, what counts as personal data, redaction of
    texts, JSON and messages, and restoration over a stream. Shown: placeholders are reversible in every
    reachable session, redaction touches only disjoint unprotected spans and keeps the protocol of the
    messages, restoration changes nothing but placeholders however the stream is cut, and the loops
    that look for a free placeholder end.

  \<^bold>\<open>Conventions.\<close> Code of other packages (the TLS client, regex, serde, tokio, the cipher, the SQL engine, the
  clock, random draws) is an argument of the definitions, gathered in records such as \<open>exec_env\<close>, \<open>rng\<close>,
  \<open>journal_env\<close>, \<open>pii_env\<close>. A table is a list of rows, a transaction a function whose result is kept when it
  succeeds; errors are values of \<open>core_error\<close> in a sum; a panic is \<open>None\<close>. \<open>f64\<close> values are rationals,
  without rounding. Concurrent code is a step relation with its lock phases and atomic operations as
  separate steps, and properties hold in every reachable state.

  \<^bold>\<open>Bounds and fuel.\<close> The retry loop of one target takes the fuel \<open>RETRY_FUEL\<close> (256): the local retry count is
  a \<open>u8\<close> that grows with every retry, so the fuel is never used up (property \<open>executor_returns\<close>). The walk
  over sub-combos ends by \<open>MAX_SUB_COMBO_DEPTH\<close>. The replay loop ends because every committed page
  shortens the journal; redaction of JSON nested in strings takes the length of the longest string as
  fuel, which lemma \<open>redact_fuel\<close> shows to be enough; pages have \<open>REPLAY_BATCH\<close> entries and the journal \<open>MAX_PENDING_JOBS\<close>.

  \<^bold>\<open>Not modelled.\<close> The remaining HTTP handlers and the admin CRUD endpoints, the per-provider adapters, the TLS client, OAuth flows,
  discovery, notifications, analytics and the proxy pool are I/O around the components above; prompt
  compression and protocol translation are text transformations behind parameters of the executor
  environment; of the PII code the stage that restores SSE payloads is left out. The manifest lists each of them with its reason.
\<close>

end
